(* ===== verification/Prelude.thy ===== *)
theory Prelude
  imports Main "HOL-Library.Word" "HOL-Library.Monad_Syntax"
begin

text \<open>
  Shared vocabulary of the development: the fixed-width integer types of types.h, C arrays with
  their bounds, counted C loops, and the interface of a copy loop between two non-overlapping
  places.

  Every operation that can touch memory out of range, or that can fail to return, has a result in
  \<open>option\<close>: \<open>None\<close> means that the C function does not complete normally (an access outside the
  object, an address that is not mapped, or a loop that never ends). Error codes of the code
  (such as \<open>-1\<close>) are ordinary values under \<open>Some\<close>.
\<close>

unbundle bit_operations_syntax

section \<open>Machine types\<close>

type_synonym u8 = "8 word"
type_synonym u16 = "16 word"
type_synonym u32 = "32 word"

text \<open>The bytes of a C string literal, without its terminating NUL.\<close>

definition byte_of :: "char \<Rightarrow> u8" where
  "byte_of c = of_nat (of_char c)"

definition lit :: "string \<Rightarrow> u8 list" where
  "lit s = map byte_of s"

lemma length_lit [simp]: "length (lit s) = length s"
  by (simp add: lit_def)

lemma unat_byte_of [simp]: "unat (byte_of c) = of_char c"
  using of_char_mod_256 [of c, where 'a = nat]
  by (simp add: byte_of_def unat_of_nat)

lemma byte_of_eq_0_iff: "byte_of c = 0 \<longleftrightarrow> of_char c = (0 :: nat)"
  by (metis unat_byte_of unat_eq_zero)

section \<open>Masks of 32-bit words\<close>

lemma and_not_mask: "(x :: 'a :: len word) AND NOT (mask n) = push_bit n (drop_bit n x)"
  by (rule bit_word_eqI) (auto simp: bit_simps)

lemma push_drop_or_take: "push_bit n (drop_bit n x) OR take_bit n x = (x :: 'a :: len word)"
  by (rule bit_word_eqI) (auto simp: bit_simps)

lemma word_split_eqI: "drop_bit n x = drop_bit n y \<Longrightarrow> take_bit n x = take_bit n y \<Longrightarrow> x = (y :: 'a :: len word)"
  by (metis push_drop_or_take)

lemma and_low22: "(x :: u32) AND 0x3FFFFF = take_bit 22 x"
  by (simp add: take_bit_eq_mask mask_eq_exp_minus_1)

lemma and_low12: "(x :: u32) AND 0xFFF = take_bit 12 x"
  by (simp add: take_bit_eq_mask mask_eq_exp_minus_1)

lemma and_low10: "(x :: u32) AND 0x3FF = take_bit 10 x"
  by (simp add: take_bit_eq_mask mask_eq_exp_minus_1)

lemma and_high22: "(x :: u32) AND 0xFFC00000 = push_bit 22 (drop_bit 22 x)"
proof -
  have "(0xFFC00000 :: u32) = NOT (mask 22)" by code_simp
  then show ?thesis by (simp only: and_not_mask)
qed

lemma and_high12: "(x :: u32) AND 0xFFFFF000 = push_bit 12 (drop_bit 12 x)"
proof -
  have "(0xFFFFF000 :: u32) = NOT (mask 12)" by code_simp
  then show ?thesis by (simp only: and_not_mask)
qed

lemmas and_masks = and_low22 and_low12 and_low10 and_high22 and_high12

lemma unat_drop_bit22_less: "unat (drop_bit 22 (x :: u32)) < 1024"
proof -
  have "unat x < 1024 * 2 ^ 22" using unsigned_less [of x] by simp
  then have "unat x div 2 ^ 22 < 1024" by (rule less_mult_imp_div_less)
  moreover have "unat (drop_bit 22 x) = unat x div 2 ^ 22"
    using unat_drop_bit_eq [of 22 x] drop_bit_eq_div [of 22 "unat x"] by (rule trans)
  ultimately show ?thesis by (simp only:)
qed

lemma unat_take_bit10_less: "unat (take_bit 10 (x :: u32)) < 1024"
  unfolding unsigned_take_bit_eq using take_bit_nat_less_exp [of 10 "unat x"] by simp

lemma aligned_bits: "take_bit k (a :: 'a :: len word) = 0 \<Longrightarrow> n < k \<Longrightarrow> \<not> bit a n"
  by (metis bit_0_eq bit_take_bit_iff bot_apply bot_bool_def)

section \<open>Collections of facts\<close>

named_theorems arr_simps \<open>bounded array access\<close>
named_theorems loop_intros \<open>total-correctness rules of the counted loops\<close>

section \<open>C arrays\<close>

text \<open>
  \<open>aget xs i\<close> is the read \<open>xs[i]\<close> and \<open>aset xs i v\<close> the write \<open>xs[i] = v\<close> of an array whose elements
  are \<open>xs\<close>; an index outside the array is undefined behaviour in C and gives \<open>None\<close>.
\<close>

definition aget :: "'a list \<Rightarrow> int \<Rightarrow> 'a option" where
  "aget xs i = (if 0 \<le> i \<and> i < int (length xs) then Some (xs ! nat i) else None)"

definition aset :: "'a list \<Rightarrow> int \<Rightarrow> 'a \<Rightarrow> 'a list option" where
  "aset xs i v = (if 0 \<le> i \<and> i < int (length xs) then Some (xs[nat i := v]) else None)"

lemma aget_in [simp, arr_simps]: "0 \<le> i \<Longrightarrow> i < int (length xs) \<Longrightarrow> aget xs i = Some (xs ! nat i)"
  by (simp add: aget_def)

lemma aset_in [simp, arr_simps]: "0 \<le> i \<Longrightarrow> i < int (length xs) \<Longrightarrow> aset xs i v = Some (xs[nat i := v])"
  by (simp add: aset_def)

lemma aget_uint: "unat w < length xs \<Longrightarrow> aget xs (uint w) = Some (xs ! unat w)"
proof -
  assume "unat w < length xs"
  moreover have "uint w = int (unat w)" by simp
  ultimately show ?thesis by (metis aget_in nat_int of_nat_0_le_iff of_nat_less_iff)
qed

lemma aget_Some_iff: "aget xs i = Some x \<longleftrightarrow> 0 \<le> i \<and> i < int (length xs) \<and> x = xs ! nat i"
  by (auto simp: aget_def)

lemma aset_Some_iff:
  "aset xs i v = Some ys \<longleftrightarrow> 0 \<le> i \<and> i < int (length xs) \<and> ys = xs[nat i := v]"
  by (auto simp: aset_def)

lemma aget_None_iff: "aget xs i = None \<longleftrightarrow> i < 0 \<or> int (length xs) \<le> i"
  by (auto simp: aget_def)

lemma aset_None_iff: "aset xs i v = None \<longleftrightarrow> i < 0 \<or> int (length xs) \<le> i"
  by (auto simp: aset_def)

lemma aget_aset:
  "aset xs i v = Some ys \<Longrightarrow> aget ys j = (if i = j then Some v else aget xs j)"
  by (auto simp: aget_def aset_def nth_list_update eq_nat_nat_iff split: if_splits)

lemma length_aset: "aset xs i v = Some ys \<Longrightarrow> length ys = length xs"
  by (auto simp: aset_Some_iff)

section \<open>Strings as accessors\<close>

text \<open>
  A C parameter \<open>const int8_t *s\<close> is modelled by the function that reads \<open>s[i]\<close>: over an array, or
  (in the theories that have a memory) over the bytes at an address.
\<close>

type_synonym cstr = "nat \<Rightarrow> u8 option"

definition arr :: "u8 list \<Rightarrow> cstr" where
  "arr xs i = (if i < length xs then Some (xs ! i) else None)"

lemma arr_in [simp, arr_simps]: "i < length xs \<Longrightarrow> arr xs i = Some (xs ! i)"
  by (simp add: arr_def)

section \<open>Counted loops\<close>

text \<open>
  \<open>for_range i j f s\<close> is \<open>for (k = i; k < j; k++) s = f(k, s)\<close> where the body does not change the
  counter and may fail.
\<close>

primrec for_n :: "nat \<Rightarrow> nat \<Rightarrow> (nat \<Rightarrow> 's \<Rightarrow> 's option) \<Rightarrow> 's \<Rightarrow> 's option" where
  "for_n i 0 f s = Some s"
| "for_n i (Suc k) f s = do { s' \<leftarrow> f i s; for_n (Suc i) k f s' }"

definition for_range :: "nat \<Rightarrow> nat \<Rightarrow> (nat \<Rightarrow> 's \<Rightarrow> 's option) \<Rightarrow> 's \<Rightarrow> 's option" where
  "for_range i j f s = for_n i (j - i) f s"

lemma for_n_numeral [simp]:
  "for_n i (numeral k) f s = do { s' \<leftarrow> f i s; for_n (Suc i) (pred_numeral k) f s' }"
  by (simp add: numeral_eq_Suc)

lemma for_range_empty [simp]: "j \<le> i \<Longrightarrow> for_range i j f s = Some s"
  by (simp add: for_range_def)

lemma for_range_step:
  "i < j \<Longrightarrow> for_range i j f s = do { s' \<leftarrow> f i s; for_range (Suc i) j f s' }"
  by (simp add: for_range_def Suc_diff_Suc [symmetric] del: for_n_numeral)

lemma for_n_total:
  assumes "I i s"
    and "\<And>j t. i \<le> j \<Longrightarrow> j < i + k \<Longrightarrow> I j t \<Longrightarrow> \<exists>t'. f j t = Some t' \<and> I (Suc j) t'"
  shows "\<exists>t'. for_n i k f s = Some t' \<and> I (i + k) t'"
  using assms
proof (induction k arbitrary: i s)
  case 0
  then show ?case by simp
next
  case (Suc k)
  from Suc.prems(2) [of i s] Suc.prems(1)
  obtain s' where s': "f i s = Some s'" "I (Suc i) s'" by auto
  have "\<exists>t'. for_n (Suc i) k f s' = Some t' \<and> I (Suc i + k) t'"
    by (rule Suc.IH) (use s' Suc.prems(2) in auto)
  with s' show ?case by simp
qed

text \<open>The total-correctness rule: an invariant that every body establishes for the next counter.\<close>

lemma for_range_total [loop_intros]:
  assumes "i \<le> j" and "I i s"
    and "\<And>k t. i \<le> k \<Longrightarrow> k < j \<Longrightarrow> I k t \<Longrightarrow> \<exists>t'. f k t = Some t' \<and> I (Suc k) t'"
  shows "\<exists>t'. for_range i j f s = Some t' \<and> I j t'"
  using for_n_total [of I i s "j - i" f] assms by (simp add: for_range_def)

lemma for_range_cong:
  assumes "\<And>k t. i \<le> k \<Longrightarrow> k < j \<Longrightarrow> f k t = g k t"
  shows "for_range i j f s = for_range i j g s"
proof -
  have "for_n i (j - i) f s = for_n i (j - i) g s"
    using assms
  proof (induction "j - i" arbitrary: i s)
    case 0
    then show ?case by simp
  next
    case (Suc n)
    then have "n = j - Suc i" and "i < j" by auto
    have "\<And>t. for_n (Suc i) (j - Suc i) f t = for_n (Suc i) (j - Suc i) g t"
      by (rule Suc.hyps(1)) (use Suc.prems \<open>n = j - Suc i\<close> in auto)
    with Suc.prems [of i] \<open>i < j\<close> show ?case
      by (simp add: Suc_diff_Suc [symmetric] cong: Option.bind_cong)
  qed
  then show ?thesis by (simp add: for_range_def)
qed

lemma for_range_preserves:
  assumes "for_range i j f s = Some t" and "P s"
    and "\<And>k u u'. i \<le> k \<Longrightarrow> k < j \<Longrightarrow> P u \<Longrightarrow> f k u = Some u' \<Longrightarrow> P u'"
  shows "P t"
proof -
  have "for_n a n f s = Some t \<Longrightarrow> P s \<Longrightarrow> i \<le> a \<Longrightarrow> a + n \<le> j \<Longrightarrow> P t" for n a s
  proof (induction n arbitrary: a s)
    case (Suc n)
    then obtain y where "f a s = Some y" "for_n (Suc a) n f y = Some t" by (auto simp: bind_eq_Some_conv)
    with Suc.IH [of "Suc a" y] Suc.prems assms(3) [of a s y] show ?case by simp
  qed simp
  with assms(1,2) show ?thesis by (cases "i \<le> j") (auto simp: for_range_def)
qed

section \<open>Busy waiting\<close>

text \<open>
  \<open>while (cond) ;\<close> with interrupts: \<open>evs\<close> are the interrupts that arrive while the loop spins, each the
  effect of its handler. The result is the state in which the condition is first seen false, with
  the interrupts that have not arrived yet; \<open>None\<close> when they do not suffice to end the loop.
\<close>

fun spin :: "('s \<Rightarrow> bool option) \<Rightarrow> ('s \<Rightarrow> 's option) list \<Rightarrow> 's \<Rightarrow> ('s \<times> ('s \<Rightarrow> 's option) list) option" where
  "spin waiting evs s = do {
     b \<leftarrow> waiting s;
     if b then (case evs of [] \<Rightarrow> None | e # es \<Rightarrow> do { s \<leftarrow> e s; spin waiting es s })
     else Some (s, evs)
   }"

declare spin.simps [simp del]

lemma spin_done [simp]: "waiting s = Some False \<Longrightarrow> spin waiting evs s = Some (s, evs)"
  by (simp add: spin.simps)

lemma spin_wait: "waiting s = Some True \<Longrightarrow> spin waiting (e # es) s = do { s \<leftarrow> e s; spin waiting es s }"
  "waiting s = Some True \<Longrightarrow> spin waiting [] s = None"
  by (subst spin.simps; simp)+

text \<open>Interrupts that keep the condition true only delay the loop.\<close>

lemma spin_delayed:
  assumes "waiting s = Some True" and "I s"
    and "\<And>e t. e \<in> set es \<Longrightarrow> I t \<Longrightarrow> \<exists>t'. e t = Some t' \<and> I t'"
    and "\<And>t. I t \<Longrightarrow> waiting t = Some True"
  shows "spin waiting es s = None" and "\<exists>t. I t \<and> spin waiting (es @ evs) s = spin waiting evs t"
proof -
  have "spin waiting es s = None \<and> (\<exists>t. I t \<and> spin waiting (es @ evs) s = spin waiting evs t)"
    using assms
  proof (induction es arbitrary: s)
    case Nil
    then show ?case by (auto simp: spin_wait)
  next
    case (Cons e es)
    from Cons.prems(3) [of e s] Cons.prems(2) obtain t where t: "e s = Some t" "I t" by auto
    from Cons.IH [of t] t Cons.prems(3,4) Cons.prems(1) show ?case by (simp add: spin_wait)
  qed
  then show "spin waiting es s = None" and "\<exists>t. I t \<and> spin waiting (es @ evs) s = spin waiting evs t"
    by auto
qed

section \<open>The interface of a copy loop\<close>

text \<open>
  Most loops of the kernel copy bytes: \<open>dst[i] = src[i]\<close> for \<open>i = 0, 1, \<dots>\<close>. The interface says what
  such a loop needs of the state \<open>'m\<close> it runs in: \<open>rd m i\<close> reads the source, \<open>wr m i b\<close> writes the
  destination, \<open>out m i\<close> reads the destination back, and \<open>ok n m\<close> says that the first \<open>n\<close> bytes of the
  destination can be written and do not overlap the source.
\<close>

locale copy_mem =
  fixes rd :: "'m \<Rightarrow> nat \<Rightarrow> u8 option"
    and wr :: "'m \<Rightarrow> nat \<Rightarrow> u8 \<Rightarrow> 'm option"
    and out :: "'m \<Rightarrow> nat \<Rightarrow> u8 option"
    and ok :: "nat \<Rightarrow> 'm \<Rightarrow> bool"
  assumes wr_total: "ok n m \<Longrightarrow> i < n \<Longrightarrow> \<exists>m'. wr m i b = Some m'"
    and wr_ok: "ok n m \<Longrightarrow> i < n \<Longrightarrow> wr m i b = Some m' \<Longrightarrow> ok n m'"
    and rd_wr: "ok n m \<Longrightarrow> i < n \<Longrightarrow> wr m i b = Some m' \<Longrightarrow> rd m' j = rd m j"
    and out_wr: "ok n m \<Longrightarrow> i < n \<Longrightarrow> j < n \<Longrightarrow> wr m i b = Some m' \<Longrightarrow>
      out m' j = (if j = i then Some b else out m j)"
begin

lemma wr_step:
  assumes "ok n m" and "i < n"
  obtains m' where "wr m i b = Some m'" "ok n m'" "rd m' = rd m"
    "\<And>j. j < n \<Longrightarrow> out m' j = (if j = i then Some b else out m j)"
proof -
  from wr_total [OF assms] obtain m' where m': "wr m i b = Some m'" by blast
  from m' wr_ok [OF assms m'] rd_wr [OF assms m'] out_wr [OF assms(1,2) _ m'] that
  show ?thesis by (auto simp: fun_eq_iff)
qed

text \<open>
  A counted loop from index \<open>i\<close> to \<open>n\<close> that stores at every index a byte determined by the source:
  it completes, and the destination then holds those bytes.
\<close>

lemma copy_range:
  assumes "ok n m" and "i \<le> n"
    and src: "\<And>j t. i \<le> j \<Longrightarrow> j < n \<Longrightarrow> rd t = rd m \<Longrightarrow> f t j = Some (g j)"
  shows "\<exists>m'. for_range i n (\<lambda>j m. do { b \<leftarrow> f m j; wr m j b }) m = Some m' \<and> ok n m' \<and> rd m' = rd m
    \<and> (\<forall>j < n. out m' j = (if i \<le> j then Some (g j) else out m j))"
proof -
  let ?I = "\<lambda>k t. ok n t \<and> rd t = rd m
    \<and> (\<forall>j < n. out t j = (if i \<le> j \<and> j < k then Some (g j) else out m j))"
  have "\<exists>m'. for_range i n (\<lambda>j m. do { b \<leftarrow> f m j; wr m j b }) m = Some m' \<and> ?I n m'"
  proof (rule for_range_total [where I = ?I])
    show "i \<le> n" by fact
    show "?I i m" using assms(1) by auto
    fix k t
    assume k: "i \<le> k" "k < n" and I: "?I k t"
    then obtain t' where "wr t k (g k) = Some t'" "ok n t'" "rd t' = rd t"
      "\<And>j. j < n \<Longrightarrow> out t' j = (if j = k then Some (g k) else out t j)"
      using wr_step [of n t k "g k"] by metis
    with I k src [of k t]
    show "\<exists>t'. do { b \<leftarrow> f t k; wr t k b } = Some t' \<and> ?I (Suc k) t'"
      by (auto simp: less_Suc_eq)
  qed
  then show ?thesis by (auto split: if_splits)
qed

end

text \<open>Copying into a C array from a fixed source: the array instance of the interface.\<close>

definition arr_wr :: "u8 list \<Rightarrow> nat \<Rightarrow> u8 \<Rightarrow> u8 list option" where
  "arr_wr xs i b = aset xs (int i) b"

lemma arr_wr_in [simp, arr_simps]: "i < length xs \<Longrightarrow> arr_wr xs i b = Some (xs[i := b])"
  by (simp add: arr_wr_def)

lemma arr_wr_None [simp]: "length xs \<le> i \<Longrightarrow> arr_wr xs i b = None"
  by (simp add: arr_wr_def aset_None_iff)

interpretation arr_copy: copy_mem "\<lambda>_. s" arr_wr arr "\<lambda>n xs. n \<le> length xs" for s
  by unfold_locales (auto simp: arr_def)

end
