(* ===== verification/Lib_Str.thy ===== *)
theory Lib_Str
  imports Prelude
begin

text \<open>
  The string and number routines of student-distrib/lib.c: \<open>strlen\<close>, \<open>strncmp\<close>, \<open>strcpy\<close>,
  \<open>strncpy\<close>, \<open>strrev\<close> and \<open>itoa\<close>.

  Source strings are accessors (\<open>cstr\<close>). The copying routines run over an arbitrary memory \<open>'m\<close>
  with a reader \<open>src m i\<close> of the source and a writer \<open>dst m i b\<close> of the destination, in the order in
  which the C loop reads and writes; they are used on arrays and on the address space. \<open>itoa\<close> and
  \<open>strrev\<close> work in place on a character array.
\<close>

section \<open>strlen\<close>

partial_function (option) strlen_loop :: "cstr \<Rightarrow> nat \<Rightarrow> nat option" where
  "strlen_loop s len = do {
     c \<leftarrow> s len;
     if c \<noteq> 0 then strlen_loop s (Suc len) else Some len
   }"

definition strlen :: "cstr \<Rightarrow> nat option" where
  "strlen s = strlen_loop s 0"

text \<open>\<open>cstr_at s xs\<close>: the string at \<open>s\<close> has the non-NUL bytes \<open>xs\<close> followed by NUL.\<close>

definition cstr_at :: "cstr \<Rightarrow> u8 list \<Rightarrow> bool" where
  "cstr_at s xs \<longleftrightarrow> 0 \<notin> set xs \<and> (\<forall>i < length xs. s i = Some (xs ! i)) \<and> s (length xs) = Some 0"

lemma cstr_at_arr [simp]: "0 \<notin> set xs \<Longrightarrow> cstr_at (arr (xs @ 0 # ys)) xs"
  by (auto simp: cstr_at_def nth_append)

lemma cstr_at_nonzero: "cstr_at s xs \<Longrightarrow> i < length xs \<Longrightarrow> xs ! i \<noteq> 0"
  by (metis cstr_at_def nth_mem)

lemma strlen_loop_at:
  "cstr_at s xs \<Longrightarrow> i \<le> length xs \<Longrightarrow> strlen_loop s i = Some (length xs)"
proof (induction "length xs - i" arbitrary: i)
  case 0
  then show ?case
    by (subst strlen_loop.simps) (simp add: cstr_at_def)
next
  case (Suc n)
  then have "i < length xs" and "n = length xs - Suc i" by auto
  with Suc.prems Suc.hyps(1) [of "Suc i"] cstr_at_nonzero [of s xs i] show ?case
    by (subst strlen_loop.simps) (simp add: cstr_at_def)
qed

lemma strlen_at: "cstr_at s xs \<Longrightarrow> strlen s = Some (length xs)"
  by (simp add: strlen_def strlen_loop_at)

lemma strlen_arr [simp]: "0 \<notin> set xs \<Longrightarrow> strlen (arr (xs @ 0 # ys)) = Some (length xs)"
  by (simp add: strlen_at [OF cstr_at_arr])

lemma strlen_loop_Some:
  assumes "strlen_loop s i = Some n"
  shows "i \<le> n \<and> s n = Some 0 \<and> (\<forall>j. i \<le> j \<and> j < n \<longrightarrow> (\<exists>c. s j = Some c \<and> c \<noteq> 0))"
proof (rule strlen_loop.raw_induct [where P = "\<lambda>s i n. i \<le> n \<and> s n = Some 0
    \<and> (\<forall>j. i \<le> j \<and> j < n \<longrightarrow> (\<exists>c. s j = Some c \<and> c \<noteq> 0))", OF _ assms])
  fix f s i n
  assume IH: "\<And>s i n. f s i = Some n \<Longrightarrow> i \<le> n \<and> s n = Some 0
      \<and> (\<forall>j. i \<le> j \<and> j < n \<longrightarrow> (\<exists>c. s j = Some c \<and> c \<noteq> (0 :: u8)))"
    and eq: "do { c \<leftarrow> s i; if c \<noteq> 0 then f s (Suc i) else Some i } = Some n"
  from eq obtain c where c: "s i = Some c" by (auto simp: bind_eq_Some_conv)
  show "i \<le> n \<and> s n = Some 0 \<and> (\<forall>j. i \<le> j \<and> j < n \<longrightarrow> (\<exists>c. s j = Some c \<and> c \<noteq> 0))"
  proof (cases "c = 0")
    case True
    with eq c show ?thesis by auto
  next
    case False
    with eq c have "f s (Suc i) = Some n" by simp
    from IH [OF this] c False show ?thesis
      by (metis Suc_leD Suc_leI le_neq_implies_less)
  qed
qed

text \<open>\<open>strlen\<close> returns exactly when a NUL is reached through readable bytes, and it returns its index.\<close>

lemma strlen_iff: "strlen s = Some n \<longleftrightarrow> (\<exists>xs. cstr_at s xs \<and> length xs = n)"
proof
  assume "strlen s = Some n"
  from strlen_loop_Some [OF this [unfolded strlen_def]]
  have n: "s n = Some 0" "\<forall>j < n. \<exists>c. s j = Some c \<and> c \<noteq> 0" by auto
  let ?xs = "map (\<lambda>j. the (s j)) [0..<n]"
  have "cstr_at s ?xs"
    using n by (fastforce simp: cstr_at_def)
  then show "\<exists>xs. cstr_at s xs \<and> length xs = n" by (intro exI [of _ ?xs]) simp
qed (auto simp: strlen_at)

section \<open>strncmp\<close>

text \<open>\<open>int8_t\<close> is \<open>char\<close>, which is signed, so the difference is between the signed readings.\<close>

primrec strncmp_loop :: "cstr \<Rightarrow> cstr \<Rightarrow> nat \<Rightarrow> nat \<Rightarrow> int option" where
  "strncmp_loop s1 s2 i 0 = Some 0"
| "strncmp_loop s1 s2 i (Suc k) = do {
     a \<leftarrow> s1 i;
     b \<leftarrow> s2 i;
     if a \<noteq> b \<or> a = 0 then Some (sint a - sint b)
     else strncmp_loop s1 s2 (Suc i) k
   }"

definition strncmp :: "cstr \<Rightarrow> cstr \<Rightarrow> nat \<Rightarrow> int option" where
  "strncmp s1 s2 n = strncmp_loop s1 s2 0 n"

lemma strncmp_loop_zero:
  assumes "\<And>j. i \<le> j \<Longrightarrow> j < i + k \<Longrightarrow> s1 j = Some (f j) \<and> f j \<noteq> 0 \<and> s2 j = Some (g j)"
  shows "\<exists>d. strncmp_loop s1 s2 i k = Some d \<and> (d = 0 \<longleftrightarrow> (\<forall>j. i \<le> j \<and> j < i + k \<longrightarrow> f j = g j))"
  using assms
proof (induction k arbitrary: i)
  case 0
  then show ?case by auto
next
  case (Suc k)
  from Suc.IH [of "Suc i"] Suc.prems
  obtain d where d: "strncmp_loop s1 s2 (Suc i) k = Some d"
    "d = 0 \<longleftrightarrow> (\<forall>j. Suc i \<le> j \<and> j < Suc i + k \<longrightarrow> f j = g j)" by auto
  from Suc.prems [of i] have i: "s1 i = Some (f i)" "f i \<noteq> 0" "s2 i = Some (g i)" by auto
  show ?case
  proof (cases "f i = g i")
    case True
    with i d have "strncmp_loop s1 s2 i (Suc k) = Some d" by simp
    moreover have "(\<forall>j. i \<le> j \<and> j < i + Suc k \<longrightarrow> f j = g j)
        \<longleftrightarrow> (\<forall>j. Suc i \<le> j \<and> j < Suc i + k \<longrightarrow> f j = g j)"
      using True by (metis Suc_leI add_Suc_right add_Suc le_neq_implies_less Suc_leD)
    ultimately show ?thesis using d(2) by blast
  next
    case False
    with i have "strncmp_loop s1 s2 i (Suc k) = Some (sint (f i) - sint (g i))" by simp
    moreover have "sint (f i) - sint (g i) \<noteq> 0" using False by (auto dest: signed_word_eqI)
    moreover have "\<not> (\<forall>j. i \<le> j \<and> j < i + Suc k \<longrightarrow> f j = g j)" using False by auto
    ultimately show ?thesis by blast
  qed
qed

text \<open>
  The comparison that the file system makes: the first \<open>n = length xs\<close> bytes of the name \<open>xs\<close>
  (none of them NUL) against the bytes \<open>ys\<close> of a stored name.
\<close>

lemma strncmp_prefix:
  assumes "cstr_at s xs" and "length xs \<le> length ys"
  shows "\<exists>d. strncmp s (arr ys) (length xs) = Some d \<and> (d = 0 \<longleftrightarrow> take (length xs) ys = xs)"
proof -
  from assms strncmp_loop_zero [of 0 "length xs" s "nth xs" "arr ys" "nth ys"] cstr_at_nonzero [OF assms(1)]
  obtain d where "strncmp s (arr ys) (length xs) = Some d" and "d = 0 \<longleftrightarrow> (\<forall>j < length xs. xs ! j = ys ! j)"
    by (auto simp: strncmp_def cstr_at_def)
  moreover have "(\<forall>j < length xs. xs ! j = ys ! j) \<longleftrightarrow> take (length xs) ys = xs"
    using assms(2) by (auto simp: list_eq_iff_nth_eq min_def)
  ultimately show ?thesis by auto
qed

section \<open>strcpy and strncpy\<close>

partial_function (option) strcpy_loop ::
  "('m \<Rightarrow> nat \<Rightarrow> u8 option) \<Rightarrow> ('m \<Rightarrow> nat \<Rightarrow> u8 \<Rightarrow> 'm option) \<Rightarrow> nat \<Rightarrow> 'm \<Rightarrow> 'm option" where
  "strcpy_loop src dst i m = do {
     c \<leftarrow> src m i;
     if c \<noteq> 0 then do { m' \<leftarrow> dst m i c; strcpy_loop src dst (Suc i) m' }
     else dst m i 0
   }"

definition strcpy ::
  "('m \<Rightarrow> nat \<Rightarrow> u8 option) \<Rightarrow> ('m \<Rightarrow> nat \<Rightarrow> u8 \<Rightarrow> 'm option) \<Rightarrow> 'm \<Rightarrow> 'm option" where
  "strcpy src dst m = strcpy_loop src dst 0 m"

text \<open>
  The first loop of \<open>strncpy\<close> reads \<open>src[i]\<close> before it tests \<open>i < n\<close>, so one byte more than \<open>n\<close> must be
  readable; the second loop fills up to \<open>n\<close> with NUL.
\<close>

function strncpy_loop ::
  "('m \<Rightarrow> nat \<Rightarrow> u8 option) \<Rightarrow> ('m \<Rightarrow> nat \<Rightarrow> u8 \<Rightarrow> 'm option) \<Rightarrow> nat \<Rightarrow> nat \<Rightarrow> 'm \<Rightarrow> 'm option" where
  "strncpy_loop src dst n i m = do {
     c \<leftarrow> src m i;
     if c \<noteq> 0 \<and> i < n then do { m' \<leftarrow> dst m i c; strncpy_loop src dst n (Suc i) m' }
     else for_range i n (\<lambda>j m. dst m j 0) m
   }"
  by pat_completeness auto
termination
  by (relation "measure (\<lambda>(src, dst, n, i, m). n - i)") auto

declare strncpy_loop.simps [simp del]

definition strncpy ::
  "('m \<Rightarrow> nat \<Rightarrow> u8 option) \<Rightarrow> ('m \<Rightarrow> nat \<Rightarrow> u8 \<Rightarrow> 'm option) \<Rightarrow> nat \<Rightarrow> 'm \<Rightarrow> 'm option" where
  "strncpy src dst n m = strncpy_loop src dst n 0 m"

lemma strncpy_preserves:
  assumes "strncpy src dst n m = Some m'" and "P m"
    and "\<And>i u b u'. i < n \<Longrightarrow> P u \<Longrightarrow> dst u i b = Some u' \<Longrightarrow> P u'"
  shows "P m'"
proof -
  have "strncpy_loop src dst n i m = Some m' \<Longrightarrow> P m \<Longrightarrow> P m'" for i
  proof (induction "n - i" arbitrary: i m)
    case 0
    then show ?case by (subst (asm) strncpy_loop.simps) (auto simp: bind_eq_Some_conv)
  next
    case (Suc k)
    from Suc.prems(1) obtain c where c: "src m i = Some c"
      by (subst (asm) strncpy_loop.simps) (auto simp: bind_eq_Some_conv)
    show ?case
    proof (cases "c \<noteq> 0 \<and> i < n")
      case True
      with c Suc.prems(1) obtain u where "dst m i c = Some u" "strncpy_loop src dst n (Suc i) u = Some m'"
        by (subst (asm) strncpy_loop.simps) (auto simp: bind_eq_Some_conv)
      with Suc.hyps(1) [of "Suc i" u] Suc.hyps(2) Suc.prems(2) assms(3) [of i m c u] True show ?thesis by simp
    next
      case False
      with c Suc.prems(1) have "for_range i n (\<lambda>j m. dst m j 0) m = Some m'"
        by (subst (asm) strncpy_loop.simps) auto
      from for_range_preserves [OF this, of P] Suc.prems(2) assms(3) show ?thesis by blast
    qed
  qed
  with assms(1,2) show ?thesis by (simp add: strncpy_def)
qed

context copy_mem
begin

lemma strcpy_loop_copies:
  assumes "cstr_at (rd m) xs" and "ok n m" and "length xs < n" and "i \<le> length xs"
    and "\<forall>j < i. out m j = Some (xs ! j)"
  shows "\<exists>m'. strcpy_loop rd wr i m = Some m' \<and> ok n m' \<and> rd m' = rd m
    \<and> (\<forall>j < length xs. out m' j = Some (xs ! j)) \<and> out m' (length xs) = Some 0
    \<and> (\<forall>j < n. length xs < j \<longrightarrow> out m' j = out m j)"
  using assms
proof (induction "length xs - i" arbitrary: i m)
  case 0
  then have i: "i = length xs" by simp
  obtain m' where "wr m i 0 = Some m'" "ok n m'" "rd m' = rd m"
    "\<And>j. j < n \<Longrightarrow> out m' j = (if j = i then Some 0 else out m j)"
    using wr_step [of n m i 0] 0 i by (metis)
  with 0 i show ?case
    by (subst strcpy_loop.simps) (simp add: cstr_at_def)
next
  case (Suc k)
  then have i: "i < length xs" "i < n" by auto
  obtain m' where m': "wr m i (xs ! i) = Some m'" "ok n m'" "rd m' = rd m"
    "\<And>j. j < n \<Longrightarrow> out m' j = (if j = i then Some (xs ! i) else out m j)"
    using wr_step [OF Suc.prems(2) i(2), of "xs ! i"] by metis
  have "\<exists>m''. strcpy_loop rd wr (Suc i) m' = Some m'' \<and> ok n m'' \<and> rd m'' = rd m'
    \<and> (\<forall>j < length xs. out m'' j = Some (xs ! j)) \<and> out m'' (length xs) = Some 0
    \<and> (\<forall>j < n. length xs < j \<longrightarrow> out m'' j = out m' j)"
    by (rule Suc.hyps(1)) (use Suc m' i in \<open>auto simp: less_Suc_eq\<close>)
  then obtain m'' where "strcpy_loop rd wr (Suc i) m' = Some m''" "ok n m''" "rd m'' = rd m'"
    "\<forall>j < length xs. out m'' j = Some (xs ! j)" "out m'' (length xs) = Some 0"
    "\<forall>j < n. length xs < j \<longrightarrow> out m'' j = out m' j" by blast
  moreover have "rd m i = Some (xs ! i)" "xs ! i \<noteq> 0"
    using Suc.prems(1) i cstr_at_nonzero by (auto simp: cstr_at_def)
  ultimately show ?case using m' i
    by (subst strcpy_loop.simps) auto
qed

text \<open>\<open>strcpy\<close> completes and leaves a NUL-terminated copy of the source in the destination.\<close>

lemma strcpy_copies:
  assumes "cstr_at (rd m) xs" and "ok n m" and "length xs < n"
  shows "\<exists>m'. strcpy rd wr m = Some m' \<and> ok n m' \<and> rd m' = rd m
    \<and> (\<forall>j < length xs. out m' j = Some (xs ! j)) \<and> out m' (length xs) = Some 0
    \<and> (\<forall>j < n. length xs < j \<longrightarrow> out m' j = out m j)"
  unfolding strcpy_def by (rule strcpy_loop_copies) (use assms in auto)

text \<open>\<open>strncpy\<close> writes exactly \<open>n\<close> bytes: the source up to its NUL, then NULs.\<close>

lemma strncpy_loop_copies:
  assumes "\<forall>j \<le> n. j \<le> length xs \<longrightarrow> rd m j = Some ((xs @ [0]) ! j)" and "0 \<notin> set xs"
    and "ok n m" and "i \<le> n" and "i \<le> length xs"
  shows "\<exists>m'. strncpy_loop rd wr n i m = Some m' \<and> ok n m' \<and> rd m' = rd m
    \<and> (\<forall>j < n. out m' j =
        (if j < i then out m j else if j < length xs then Some (xs ! j) else Some 0))"
  using assms
proof (induction "n - i" arbitrary: i m)
  case 0
  then have "i = n" by simp
  with 0 show ?case
    by (subst strncpy_loop.simps) auto
next
  case (Suc k)
  then have i: "i < n" and rdi: "rd m i = Some ((xs @ [0]) ! i)" by auto
  show ?case
  proof (cases "i < length xs")
    case True
    then have x: "rd m i = Some (xs ! i)" "xs ! i \<noteq> 0"
      using rdi Suc.prems(2) by (auto simp: nth_append) (metis nth_mem)
    obtain m' where m': "wr m i (xs ! i) = Some m'" "ok n m'" "rd m' = rd m"
      "\<And>j. j < n \<Longrightarrow> out m' j = (if j = i then Some (xs ! i) else out m j)"
      using wr_step [OF Suc.prems(3) i, of "xs ! i"] by metis
    have "\<exists>m''. strncpy_loop rd wr n (Suc i) m' = Some m'' \<and> ok n m'' \<and> rd m'' = rd m'
      \<and> (\<forall>j < n. out m'' j =
          (if j < Suc i then out m' j else if j < length xs then Some (xs ! j) else Some 0))"
      by (rule Suc.hyps(1)) (use Suc m' i True in auto)
    with m' i x True show ?thesis
      by (subst strncpy_loop.simps) (auto simp: less_Suc_eq)
  next
    case False
    with rdi Suc.prems(5) have "rd m i = Some 0" and il: "i = length xs" by (auto simp: nth_append)
    moreover from copy_range [of n m i "\<lambda>_ _. Some 0" "\<lambda>_. 0"] Suc.prems i
    obtain m' where "for_range i n (\<lambda>j m. wr m j 0) m = Some m'" "ok n m'" "rd m' = rd m"
      "\<forall>j < n. out m' j = (if i \<le> j then Some 0 else out m j)" by auto
    ultimately show ?thesis
      by (subst strncpy_loop.simps) auto
  qed
qed

lemma strncpy_copies:
  assumes "\<forall>j \<le> n. j \<le> length xs \<longrightarrow> rd m j = Some ((xs @ [0]) ! j)" and "0 \<notin> set xs" and "ok n m"
  shows "\<exists>m'. strncpy rd wr n m = Some m' \<and> ok n m' \<and> rd m' = rd m
    \<and> (\<forall>j < n. out m' j = Some (if j < length xs then xs ! j else 0))"
  using strncpy_loop_copies [OF assms, of 0] by (auto simp: strncpy_def)

end

section \<open>strrev\<close>

text \<open>
  The swap loop of \<open>strrev\<close> with its two signed indices; \<open>end\<close> starts at \<open>strlen(s) - 1\<close>, which is
  \<open>-1\<close> for the empty string.
\<close>

function strrev_loop :: "int \<Rightarrow> int \<Rightarrow> u8 list \<Rightarrow> u8 list option" where
  "strrev_loop beg end s =
     (if beg < end then do {
        tmp \<leftarrow> aget s end;
        b \<leftarrow> aget s beg;
        s \<leftarrow> aset s end b;
        s \<leftarrow> aset s beg tmp;
        strrev_loop (beg + 1) (end - 1) s
      } else Some s)"
  by pat_completeness auto
termination
  by (relation "measure (\<lambda>(beg, end, s). nat (end - beg))") auto

declare strrev_loop.simps [simp del]

definition strrev :: "u8 list \<Rightarrow> u8 list option" where
  "strrev s = do {
     n \<leftarrow> strlen (arr s);
     strrev_loop 0 (int n - 1) s
   }"

lemma strrev_loop_rev:
  "strrev_loop (int (length xs)) (int (length xs) + int (length ys) - 1) (xs @ ys @ zs)
   = Some (xs @ rev ys @ zs)"
proof (induction "length ys" arbitrary: xs ys zs rule: less_induct)
  case less
  show ?case
  proof (cases "length ys \<le> 1")
    case True
    then have "rev ys = ys" by (cases ys) auto
    with True show ?thesis by (subst strrev_loop.simps) auto
  next
    case False
    then obtain a ms b where ys: "ys = a # ms @ [b]"
      by (metis One_nat_def append_butlast_last_id le_SucI length_Cons list.exhaust list.size(3)
          nat_le_linear zero_le)
    have "strrev_loop (int (length (xs @ [b]))) (int (length (xs @ [b])) + int (length ms) - 1)
        ((xs @ [b]) @ ms @ (a # zs)) = Some ((xs @ [b]) @ rev ms @ (a # zs))"
      by (rule less) (simp add: ys)
    then show ?thesis
      unfolding ys
      by (subst strrev_loop.simps) (simp add: nth_append nat_add_distrib list_update_append algebra_simps)
  qed
qed

lemma strrev_rev: "0 \<notin> set xs \<Longrightarrow> strrev (xs @ 0 # ys) = Some (rev xs @ 0 # ys)"
  using strrev_loop_rev [of "[]" xs "0 # ys"] by (simp add: strrev_def)

section \<open>itoa\<close>

definition lookup :: "u8 list" where
  "lookup = lit ''0123456789ABCDEFGHIJKLMNOPQRSTUVWXYZ'' @ [0]"

text \<open>
  The digit loop: \<open>pos\<close> is the distance of \<open>newbuf\<close> from \<open>buf\<close>. A zero radix raises the divide
  exception; a radix of one never ends.
\<close>

partial_function (option) itoa_loop :: "u32 \<Rightarrow> u32 \<Rightarrow> nat \<Rightarrow> u8 list \<Rightarrow> (nat \<times> u8 list) option" where
  "itoa_loop newval radix pos buf =
     (if newval > 0 then
        if radix = 0 then None
        else do {
          d \<leftarrow> aget lookup (uint (newval mod radix));
          buf \<leftarrow> aset buf (int pos) d;
          itoa_loop (newval div radix) radix (Suc pos) buf
        }
      else Some (pos, buf))"

definition itoa :: "u32 \<Rightarrow> u8 list \<Rightarrow> u32 \<Rightarrow> u8 list option" where
  "itoa value buf radix =
     (if value = 0 then do {
        buf \<leftarrow> aset buf 0 (byte_of (CHR ''0''));
        aset buf 1 0
      } else do {
        (pos, buf) \<leftarrow> itoa_loop value radix 0 buf;
        buf \<leftarrow> aset buf (int pos) 0;
        strrev buf
      })"

text \<open>
  Reference: the digits of a number in a base, least significant first, and the number they denote.
\<close>

fun digits_lsb :: "nat \<Rightarrow> nat \<Rightarrow> nat list" where
  "digits_lsb r n = (if n = 0 \<or> r < 2 then [] else n mod r # digits_lsb r (n div r))"

declare digits_lsb.simps [simp del]

definition number_digits :: "nat \<Rightarrow> nat \<Rightarrow> nat list" where
  "number_digits r n = (if n = 0 then [0] else rev (digits_lsb r n))"

definition digits_value :: "nat \<Rightarrow> nat list \<Rightarrow> nat" where
  "digits_value r ds = foldl (\<lambda>a d. a * r + d) 0 ds"

lemma digits_lsb_0 [simp]: "digits_lsb r 0 = []"
  by (simp add: digits_lsb.simps)

lemma digits_lsb_step: "0 < n \<Longrightarrow> 2 \<le> r \<Longrightarrow> digits_lsb r n = n mod r # digits_lsb r (n div r)"
  by (subst digits_lsb.simps) simp

lemma digits_lsb_less: "2 \<le> r \<Longrightarrow> d \<in> set (digits_lsb r n) \<Longrightarrow> d < r"
  by (induction r n rule: digits_lsb.induct) (subst (asm) (2) digits_lsb.simps, auto split: if_splits)

lemma digits_value_rev_lsb: "2 \<le> r \<Longrightarrow> digits_value r (rev (digits_lsb r n)) = n"
proof (induction r n rule: digits_lsb.induct)
  case (1 r n)
  show ?case
  proof (cases "n = 0")
    case False
    with "1" have "digits_value r (rev (digits_lsb r (n div r))) = n div r" by simp
    with False "1.prems" show ?thesis
      by (simp add: digits_lsb_step digits_value_def)
  qed (simp add: digits_value_def)
qed

lemma number_digits_value: "2 \<le> r \<Longrightarrow> digits_value r (number_digits r n) = n"
  by (simp add: number_digits_def digits_value_rev_lsb) (simp add: digits_value_def)

lemma number_digits_less: "2 \<le> r \<Longrightarrow> d \<in> set (number_digits r n) \<Longrightarrow> d < r"
  by (auto simp: number_digits_def digits_lsb_less split: if_splits)

lemma length_digits_lsb_le: "2 \<le> r \<Longrightarrow> n < r ^ k \<Longrightarrow> length (digits_lsb r n) \<le> k"
proof (induction k arbitrary: n)
  case 0
  then show ?case by simp
next
  case (Suc k)
  show ?case
  proof (cases "n = 0")
    case False
    from Suc.prems have "n div r < r ^ k"
      by (simp add: less_mult_imp_div_less mult.commute)
    with Suc.IH [of "n div r"] Suc.prems False show ?thesis by (simp add: digits_lsb_step)
  qed simp
qed

lemma length_number_digits_le: "2 \<le> r \<Longrightarrow> n < r ^ k \<Longrightarrow> 0 < k \<Longrightarrow> length (number_digits r n) \<le> k"
  by (simp add: number_digits_def length_digits_lsb_le)

text \<open>No leading zero.\<close>

lemma last_digits_lsb: "0 < n \<Longrightarrow> 2 \<le> r \<Longrightarrow> digits_lsb r n \<noteq> [] \<and> last (digits_lsb r n) \<noteq> 0"
proof (induction r n rule: digits_lsb.induct)
  case (1 r n)
  show ?case
  proof (cases "n div r = 0")
    case True
    with "1.prems" have "n < r" by (simp add: div_eq_0_iff)
    with True "1.prems" show ?thesis by (simp add: digits_lsb_step)
  next
    case False
    with 1 have "digits_lsb r (n div r) \<noteq> [] \<and> last (digits_lsb r (n div r)) \<noteq> 0" by simp
    with "1.prems" show ?thesis by (simp add: digits_lsb_step)
  qed
qed

lemma hd_number_digits: "2 \<le> r \<Longrightarrow> 0 < n \<Longrightarrow> hd (number_digits r n) \<noteq> 0"
  using last_digits_lsb [of n r] by (simp add: number_digits_def hd_rev)

definition digit_chars :: "nat list \<Rightarrow> u8 list" where
  "digit_chars ds = map (nth lookup) ds"

lemma length_lookup [simp]: "length lookup = 37"
  by (simp add: lookup_def lit_def)

lemma lookup_nonzero: "d < 36 \<Longrightarrow> lookup ! d \<noteq> 0"
proof -
  have "\<forall>d \<in> set [0..<36]. lookup ! d \<noteq> 0" by code_simp
  then show "d < 36 \<Longrightarrow> lookup ! d \<noteq> 0" by auto
qed

lemma itoa_loop_digits:
  assumes "2 \<le> unat radix" and "unat radix \<le> 36"
    and "pos + length (digits_lsb (unat radix) (unat v)) \<le> length buf"
  shows "itoa_loop v radix pos buf
    = Some (pos + length (digits_lsb (unat radix) (unat v)),
        take pos buf @ digit_chars (digits_lsb (unat radix) (unat v))
          @ drop (pos + length (digits_lsb (unat radix) (unat v))) buf)"
  using assms(3)
proof (induction "unat v" arbitrary: v pos buf rule: less_induct)
  case less
  show ?case
  proof (cases "v = 0")
    case True
    then show ?thesis by (subst itoa_loop.simps) (simp add: digit_chars_def)
  next
    case False
    then have v: "0 < unat v" "v > 0" by (auto simp: word_greater_zero_iff unat_gt_0)
    let ?ds = "digits_lsb (unat radix) (unat (v div radix))"
    have ds: "digits_lsb (unat radix) (unat v) = unat (v mod radix) # ?ds"
      using digits_lsb_step [OF v(1) assms(1)] by (simp add: unat_div unat_mod)
    have radix: "radix \<noteq> 0" using assms(1) by auto
    have pos: "pos < length buf" using less.prems ds by simp
    have md: "unat (v mod radix) < 36"
    proof -
      have "unat v mod unat radix < unat radix" using assms(1) by simp
      then show ?thesis using assms(2) by (simp add: unat_mod)
    qed
    let ?b = "buf[pos := lookup ! unat (v mod radix)]"
    have IH: "itoa_loop (v div radix) radix (Suc pos) ?b
      = Some (Suc pos + length ?ds, take (Suc pos) ?b @ digit_chars ?ds @ drop (Suc pos + length ?ds) ?b)"
    proof (rule less.hyps)
      show "unat (v div radix) < unat v"
        using v(1) assms(1) by (simp add: unat_div div_less_dividend)
      show "Suc pos + length ?ds \<le> length ?b" using less.prems ds by simp
    qed
    have tk: "take (Suc pos) ?b = take pos buf @ [lookup ! unat (v mod radix)]"
      using pos by (simp add: take_Suc_conv_app_nth)
    have "aget lookup (uint (v mod radix)) = Some (lookup ! unat (v mod radix))"
      using md by (intro aget_uint) simp
    with v radix pos IH tk show ?thesis
      by (subst itoa_loop.simps) (simp add: ds digit_chars_def)
  qed
qed

lemma digit_chars_nonzero: "(\<And>d. d \<in> set ds \<Longrightarrow> d < 36) \<Longrightarrow> 0 \<notin> set (digit_chars ds)"
  using lookup_nonzero by (force simp: digit_chars_def)

text \<open>
  \<open>itoa\<close> writes the digits of the value, most significant first and without leading zeros, and a NUL.
\<close>

lemma itoa_digits:
  assumes "2 \<le> unat radix" and "unat radix \<le> 36"
    and "length (number_digits (unat radix) (unat v)) < length buf"
  shows "itoa v buf radix = Some (digit_chars (number_digits (unat radix) (unat v)) @ 0
    # drop (Suc (length (number_digits (unat radix) (unat v)))) buf)"
proof (cases "v = 0")
  case True
  with assms(3) obtain a b rest where "buf = a # b # rest"
    by (cases buf; cases "tl buf") (auto simp: number_digits_def)
  with True show ?thesis
    by (simp add: itoa_def number_digits_def digit_chars_def lookup_def lit_def)
next
  case False
  then have nz: "unat v \<noteq> 0" by (simp add: unat_eq_zero)
  let ?ds = "digits_lsb (unat radix) (unat v)"
  from assms(3) nz have len: "length ?ds < length buf" by (simp add: number_digits_def)
  have "0 \<notin> set (digit_chars ?ds)"
    using digits_lsb_less [OF assms(1)] assms(2) by (intro digit_chars_nonzero) (meson less_le_trans)
  then have "strrev (digit_chars ?ds @ 0 # drop (Suc (length ?ds)) buf)
    = Some (rev (digit_chars ?ds) @ 0 # drop (Suc (length ?ds)) buf)" by (rule strrev_rev)
  moreover have "aset (digit_chars ?ds @ drop (length ?ds) buf) (int (length ?ds)) 0
    = Some (digit_chars ?ds @ 0 # drop (Suc (length ?ds)) buf)"
    using len by (simp add: digit_chars_def list_update_append Cons_nth_drop_Suc [symmetric])
  ultimately show ?thesis
    using itoa_loop_digits [OF assms(1,2), of 0 v buf] len False nz
    by (simp add: itoa_def number_digits_def digit_chars_def rev_map)
qed

end
