(* ===== verification/Paging.thy ===== *)
theory Paging
  imports Lib_Str
begin

text \<open>
  The processor as far as the kernel's C code uses it (interrupt flag, stack registers, I/O ports,
  control registers), the paging structures of student-distrib/page.h with \<open>page_init\<close> of page.c,
  and memory accesses through the current page mapping.

  The kernel state is one record that every component extends by its own fields; operations are
  polymorphic in the fields that later components add. Port output is recorded as a trace; values
  read from a port are arguments of the operations that read them.

  Memory that the kernel reaches through pointers (the file system image, user buffers, buffers on
  the kernel stack) is \<open>phys\<close>, addressed by physical address and reached through \<open>translate\<close>, the
  IA-32 page walk over the kernel's tables. Global variables and process control blocks are fields
  of the state and are not overlaid with \<open>phys\<close>.
\<close>

section \<open>Processor\<close>

datatype io_event =
    Outb u16 u8
  | Outw u16 u16
  | Inb u16

record cpu =
  eflags_IF :: bool
  reg_esp :: u32
  reg_ebp :: u32
  ports :: "io_event list"

definition outb :: "u8 \<Rightarrow> u16 \<Rightarrow> 'a cpu_scheme \<Rightarrow> 'a cpu_scheme" where
  "outb data port s = s\<lparr>ports := ports s @ [Outb port data]\<rparr>"

definition outw :: "u16 \<Rightarrow> u16 \<Rightarrow> 'a cpu_scheme \<Rightarrow> 'a cpu_scheme" where
  "outw data port s = s\<lparr>ports := ports s @ [Outw port data]\<rparr>"

text \<open>\<open>inb port\<close>: the value read comes from the device; only the access itself is recorded.\<close>

definition inb :: "u16 \<Rightarrow> 'a cpu_scheme \<Rightarrow> 'a cpu_scheme" where
  "inb port s = s\<lparr>ports := ports s @ [Inb port]\<rparr>"

definition cli :: "'a cpu_scheme \<Rightarrow> 'a cpu_scheme" where
  "cli s = s\<lparr>eflags_IF := False\<rparr>"

definition sti :: "'a cpu_scheme \<Rightarrow> 'a cpu_scheme" where
  "sti s = s\<lparr>eflags_IF := True\<rparr>"

lemmas cpu_defs = outb_def outw_def inb_def cli_def sti_def

section \<open>Paging structures\<close>

abbreviation (input) NUM_ENTRIES :: nat where "NUM_ENTRIES \<equiv> 1024"
abbreviation (input) RW_ENABLE :: u32 where "RW_ENABLE \<equiv> 0x02"
abbreviation (input) PRESENT :: u32 where "PRESENT \<equiv> 0x01"
abbreviation (input) USER_ENABLE :: u32 where "USER_ENABLE \<equiv> 0x04"
abbreviation (input) VIDEO_MEM :: u32 where "VIDEO_MEM \<equiv> 0xB8000"
abbreviation (input) FOURMB_BINARY :: u32 where "FOURMB_BINARY \<equiv> 0x400000"
abbreviation (input) FOURMB_FLAG :: u32 where "FOURMB_FLAG \<equiv> 0x80"
abbreviation (input) EIGHT_MB :: u32 where "EIGHT_MB \<equiv> 0x800000"
abbreviation (input) FOUR_MB :: u32 where "FOUR_MB \<equiv> 0x400000"
abbreviation (input) EIGHT_KB :: u32 where "EIGHT_KB \<equiv> 0x2000"
abbreviation (input) MB_132 :: u32 where "MB_132 \<equiv> 0x8400000"
abbreviation (input) PROGRAM_IMAGE_ADDR :: u32 where "PROGRAM_IMAGE_ADDR \<equiv> 0x8048000"
abbreviation (input) PDE_INDEX :: int where "PDE_INDEX \<equiv> 32"

text \<open>
  The four tables, and the addresses at which the linker places them (they are page aligned).
\<close>

record vm = cpu +
  PageDirectory :: "u32 list"
  PageTable :: "u32 list"
  UserPageTable :: "u32 list"
  VideoPageTable :: "u32 list"
  PageDirectory_at :: u32
  PageTable_at :: u32
  UserPageTable_at :: u32
  VideoPageTable_at :: u32
  cr0 :: u32
  cr3 :: u32
  cr4 :: u32
  phys :: "u32 \<Rightarrow> u8"

text \<open>The body of the loop of \<open>page_init\<close>.\<close>

definition page_init_entry :: "nat \<Rightarrow> 'a vm_scheme \<Rightarrow> 'a vm_scheme option" where
  "page_init_entry i s = do {
     pd \<leftarrow> aset (PageDirectory s) (int i) RW_ENABLE;
     pt \<leftarrow> aset (PageTable s) (int i) (push_bit 12 (of_nat i));
     e \<leftarrow> aget pt (int i);
     pt \<leftarrow> aset pt (int i) (e OR RW_ENABLE);
     Some (s\<lparr>PageDirectory := pd, PageTable := pt\<rparr>)
   }"

text \<open>
  \<open>page_init\<close>: the loop over both tables, the video page, the two present directory entries, and
  the control registers that switch paging on.
\<close>

definition page_init :: "'a vm_scheme \<Rightarrow> 'a vm_scheme option" where
  "page_init s = do {
     s \<leftarrow> for_range 0 NUM_ENTRIES page_init_entry s;
     e \<leftarrow> aget (PageTable s) (uint (drop_bit 12 VIDEO_MEM));
     pt \<leftarrow> aset (PageTable s) (uint (drop_bit 12 VIDEO_MEM)) (e OR (RW_ENABLE OR PRESENT));
     pd \<leftarrow> aset (PageDirectory s) 0 (PageTable_at s OR (RW_ENABLE OR PRESENT));
     pd \<leftarrow> aset pd 1 (FOURMB_BINARY OR FOURMB_FLAG OR (RW_ENABLE OR PRESENT));
     Some (s\<lparr>PageTable := pt, PageDirectory := pd,
              cr3 := PageDirectory_at s,
              cr4 := cr4 s OR 0x00000010,
              cr0 := cr0 s OR 0x80000000\<rparr>)
   }"

text \<open>
  The directory entry that places a process: \<open>execute\<close>, \<open>halt\<close> and the scheduler all assign
  \<open>PageDirectory[PDE_INDEX] = (EIGHT_MB + (n - 1) * FOUR_MB) | FOURMB_FLAG | \<dots>\<close> and flush the TLB
  (no stale translation is modelled, so the flush has no further effect).
\<close>

definition user_pde :: "int \<Rightarrow> u32" where
  "user_pde n = (EIGHT_MB + (word_of_int n - 1) * FOUR_MB) OR FOURMB_FLAG OR (RW_ENABLE OR PRESENT) OR USER_ENABLE"

definition map_program_page :: "int \<Rightarrow> 'a vm_scheme \<Rightarrow> 'a vm_scheme option" where
  "map_program_page n s = do {
     pd \<leftarrow> aset (PageDirectory s) PDE_INDEX (user_pde n);
     Some (s\<lparr>PageDirectory := pd\<rparr>)
   }"

section \<open>The page walk\<close>

definition table_at :: "u32 \<Rightarrow> 'a vm_scheme \<Rightarrow> u32 list option" where
  "table_at a s =
     (if a = PageTable_at s then Some (PageTable s)
      else if a = UserPageTable_at s then Some (UserPageTable s)
      else if a = VideoPageTable_at s then Some (VideoPageTable s)
      else None)"

text \<open>
  The walk yields the physical address and whether user mode may use it (the U/S bit of every
  level). Supervisor accesses ignore the second component; CR0.WP is never set, so the kernel may
  write every present page.
\<close>

definition walk :: "'a vm_scheme \<Rightarrow> u32 \<Rightarrow> (u32 \<times> bool) option" where
  "walk s va =
     (if cr3 s \<noteq> PageDirectory_at s then None
      else do {
        pde \<leftarrow> aget (PageDirectory s) (uint (drop_bit 22 va));
        if \<not> bit pde 0 then None
        else if bit pde 7 \<and> bit (cr4 s) 4 then
          Some ((pde AND 0xFFC00000) OR (va AND 0x3FFFFF), bit pde 2)
        else do {
          pt \<leftarrow> table_at (pde AND 0xFFFFF000) s;
          pte \<leftarrow> aget pt (uint (drop_bit 12 va AND 0x3FF));
          if bit pte 0 then Some ((pte AND 0xFFFFF000) OR (va AND 0xFFF), bit pde 2 \<and> bit pte 2)
          else None
        }
      })"

definition translate :: "'a vm_scheme \<Rightarrow> u32 \<Rightarrow> u32 option" where
  "translate s va = (if bit (cr0 s) 31 then map_option fst (walk s va) else Some va)"

definition user_translate :: "'a vm_scheme \<Rightarrow> u32 \<Rightarrow> u32 option" where
  "user_translate s va =
     (case walk s va of Some (pa, True) \<Rightarrow> Some pa | _ \<Rightarrow> None)"

section \<open>Memory accesses\<close>

definition load8 :: "'a vm_scheme \<Rightarrow> u32 \<Rightarrow> u8 option" where
  "load8 s a = map_option (phys s) (translate s a)"

definition store8 :: "'a vm_scheme \<Rightarrow> u32 \<Rightarrow> u8 \<Rightarrow> 'a vm_scheme option" where
  "store8 s a b = do {
     p \<leftarrow> translate s a;
     Some (s\<lparr>phys := (phys s)(p := b)\<rparr>)
   }"

text \<open>A little-endian 32-bit load.\<close>

definition load32 :: "'a vm_scheme \<Rightarrow> u32 \<Rightarrow> u32 option" where
  "load32 s a = do {
     b0 \<leftarrow> load8 s a;
     b1 \<leftarrow> load8 s (a + 1);
     b2 \<leftarrow> load8 s (a + 2);
     b3 \<leftarrow> load8 s (a + 3);
     Some (ucast b0 OR push_bit 8 (ucast b1) OR push_bit 16 (ucast b2) OR push_bit 24 (ucast b3))
   }"

definition load_bytes :: "'a vm_scheme \<Rightarrow> u32 \<Rightarrow> nat \<Rightarrow> u8 list option" where
  "load_bytes s a n = those (map (\<lambda>i. load8 s (a + of_nat i)) [0..<n])"

text \<open>A pointer as a string accessor.\<close>

definition ptr :: "'a vm_scheme \<Rightarrow> u32 \<Rightarrow> cstr" where
  "ptr s p i = load8 s (p + of_nat i)"

text \<open>Writing through a pointer parameter \<open>p\<close>.\<close>

definition ptr_wr :: "u32 \<Rightarrow> 'a vm_scheme \<Rightarrow> nat \<Rightarrow> u8 \<Rightarrow> 'a vm_scheme option" where
  "ptr_wr p s i b = store8 s (p + of_nat i) b"

section \<open>Laws of memory accesses\<close>

text \<open>What the page walk depends on.\<close>

definition same_paging :: "'a vm_scheme \<Rightarrow> 'b vm_scheme \<Rightarrow> bool" where
  "same_paging s t \<longleftrightarrow> PageDirectory s = PageDirectory t \<and> PageTable s = PageTable t
     \<and> UserPageTable s = UserPageTable t \<and> VideoPageTable s = VideoPageTable t
     \<and> PageDirectory_at s = PageDirectory_at t \<and> PageTable_at s = PageTable_at t
     \<and> UserPageTable_at s = UserPageTable_at t \<and> VideoPageTable_at s = VideoPageTable_at t
     \<and> cr0 s = cr0 t \<and> cr3 s = cr3 t \<and> cr4 s = cr4 t"

lemma table_at_same: "same_paging s t \<Longrightarrow> table_at a s = table_at a t"
  by (simp add: same_paging_def table_at_def)

lemma walk_same: "same_paging s t \<Longrightarrow> walk s a = walk t a"
  using table_at_same [of s t] by (simp add: walk_def same_paging_def cong: if_cong)

lemma translate_same: "same_paging s t \<Longrightarrow> translate s a = translate t a"
  using walk_same [of s t a] by (simp add: translate_def same_paging_def)

lemma user_translate_same: "same_paging s t \<Longrightarrow> user_translate s a = user_translate t a"
  using walk_same [of s t a] by (simp add: user_translate_def)

lemma load8_same: "same_paging s t \<Longrightarrow> phys s = phys t \<Longrightarrow> load8 s a = load8 t a"
  by (simp add: load8_def translate_same)

lemma same_paging_refl [simp]: "same_paging s s"
  by (simp add: same_paging_def)

lemma same_paging_phys [simp]: "same_paging (s\<lparr>phys := f\<rparr>) s"
  by (simp add: same_paging_def)

lemma translate_phys [simp]: "translate (s\<lparr>phys := f\<rparr>) a = translate s a"
  by (rule translate_same) simp

lemma store8_same: "store8 s a b = Some s' \<Longrightarrow> same_paging s' s"
  by (auto simp: store8_def bind_eq_Some_conv)

lemma translate_store8: "store8 s a b = Some s' \<Longrightarrow> translate s' a' = translate s a'"
  by (rule translate_same) (rule store8_same)

lemma load8_store8:
  assumes "store8 s a b = Some s'"
  shows "load8 s' a' = (if translate s a' = translate s a then Some b else load8 s a')"
proof -
  from assms obtain p where p: "translate s a = Some p" and s': "s' = s\<lparr>phys := (phys s)(p := b)\<rparr>"
    by (auto simp: store8_def bind_eq_Some_conv)
  show ?thesis
    by (cases "translate s a'") (auto simp: s' p load8_def)
qed

lemma store8_Some: "translate s a = Some p \<Longrightarrow> store8 s a b = Some (s\<lparr>phys := (phys s)(p := b)\<rparr>)"
  by (simp add: store8_def)

lemma load8_Some: "translate s a = Some p \<Longrightarrow> load8 s a = Some (phys s p)"
  by (simp add: load8_def)

text \<open>
  The address space as the memory of a copy loop: the destination is \<open>n\<close> mapped bytes at \<open>p\<close> that
  go to \<open>n\<close> different physical bytes, and the source \<open>rd\<close> reads none of them.
\<close>

definition ptr_ok :: "('a vm_scheme \<Rightarrow> nat \<Rightarrow> u8 option) \<Rightarrow> u32 \<Rightarrow> nat \<Rightarrow> 'a vm_scheme \<Rightarrow> bool" where
  "ptr_ok rd p n s \<longleftrightarrow>
     (\<forall>i < n. translate s (p + of_nat i) \<noteq> None)
     \<and> (\<forall>i < n. \<forall>j < n. translate s (p + of_nat i) = translate s (p + of_nat j) \<longrightarrow> i = j)
     \<and> (\<forall>f. (\<forall>q. q \<notin> {q. \<exists>i < n. translate s (p + of_nat i) = Some q} \<longrightarrow> f q = phys s q)
          \<longrightarrow> rd (s\<lparr>phys := f\<rparr>) = rd s)"

lemma ptr_ok_wr:
  assumes ok: "ptr_ok rd p n s" and i: "i < n" and wr: "ptr_wr p s i b = Some s'"
  shows "ptr_ok rd p n s'" and "rd s' = rd s"
proof -
  from wr obtain q where q: "translate s (p + of_nat i) = Some q"
    and s': "s' = s\<lparr>phys := (phys s)(q := b)\<rparr>"
    by (auto simp: ptr_wr_def store8_def bind_eq_Some_conv)
  let ?D = "{q. \<exists>i < n. translate s (p + of_nat i) = Some q}"
  have qD: "q \<in> ?D" using q i by blast
  have keep: "\<And>f. \<forall>r. r \<notin> ?D \<longrightarrow> f r = phys s r \<Longrightarrow> rd (s\<lparr>phys := f\<rparr>) = rd s"
    using ok by (simp add: ptr_ok_def)
  show rd: "rd s' = rd s"
    unfolding s' by (rule keep) (use qD in auto)
  have tr: "translate s' a = translate s a" for a by (simp add: s')
  have "rd (s'\<lparr>phys := f\<rparr>) = rd s'" if f: "\<forall>r. r \<notin> ?D \<longrightarrow> f r = phys s' r" for f
  proof -
    have "rd (s\<lparr>phys := f\<rparr>) = rd s" by (rule keep) (use f qD in \<open>auto simp: s'\<close>)
    then show ?thesis using rd by (simp add: s')
  qed
  then show "ptr_ok rd p n s'"
    using ok unfolding ptr_ok_def tr by auto
qed

interpretation ptr_copy: copy_mem rd "ptr_wr p" "\<lambda>s. ptr s p" "ptr_ok rd p" for rd p
proof
  fix n i j b and m m' :: "'a vm_scheme"
  assume ok: "ptr_ok rd p n m" and i: "i < n"
  show "\<exists>m'. ptr_wr p m i b = Some m'"
    using ok i by (auto simp: ptr_ok_def ptr_wr_def store8_def)
  assume wr: "ptr_wr p m i b = Some m'"
  show "ptr_ok rd p n m'" and "rd m' j = rd m j"
    using ptr_ok_wr [OF ok i wr] by auto
  assume j: "j < n"
  show "ptr m' p j = (if j = i then Some b else ptr m p j)"
    using ok i j wr load8_store8 [of m "p + of_nat i" b m' "p + of_nat j"]
    by (auto simp: ptr_ok_def ptr_wr_def ptr_def)
qed

section \<open>Regions of memory\<close>

lemma of_nat_u32: "n < 4294967296 \<Longrightarrow> unat (of_nat n :: u32) = n"
  by (simp add: unat_of_nat)

text \<open>The physical bytes of a 32-bit word and of a buffer of \<open>n\<close> bytes.\<close>

definition word_addrs :: "'a vm_scheme \<Rightarrow> u32 \<Rightarrow> u32 set" where
  "word_addrs s a = {q. \<exists>b \<in> {a, a + 1, a + 2, a + 3}. translate s b = Some q}"

definition buffer_addrs :: "'a vm_scheme \<Rightarrow> u32 \<Rightarrow> nat \<Rightarrow> u32 set" where
  "buffer_addrs s buf n = {q. \<exists>i < n. translate s (buf + of_nat i) = Some q}"

text \<open>\<open>n\<close> bytes at \<open>buf\<close> that are mapped, each to a byte of its own.\<close>

definition writable :: "'a vm_scheme \<Rightarrow> u32 \<Rightarrow> nat \<Rightarrow> bool" where
  "writable s buf n \<longleftrightarrow> (\<forall>i < n. translate s (buf + of_nat i) \<noteq> None)
     \<and> (\<forall>i < n. \<forall>j < n. translate s (buf + of_nat i) = translate s (buf + of_nat j) \<longrightarrow> i = j)"

text \<open>\<open>s'\<close> differs from \<open>s\<close> at most in the memory bytes \<open>D\<close>.\<close>

definition only_mem :: "u32 set \<Rightarrow> 'a vm_scheme \<Rightarrow> 'a vm_scheme \<Rightarrow> bool" where
  "only_mem D s s' \<longleftrightarrow> (\<exists>f. s' = s\<lparr>phys := f\<rparr> \<and> (\<forall>q. q \<notin> D \<longrightarrow> f q = phys s q))"

lemma load8_outside:
  "only_mem D s s' \<Longrightarrow> {q. translate s a = Some q} \<inter> D = {} \<Longrightarrow> load8 s' a = load8 s a"
  by (cases "translate s a") (auto simp: only_mem_def load8_def)

lemma load32_outside: "only_mem D s s' \<Longrightarrow> word_addrs s a \<inter> D = {} \<Longrightarrow> load32 s' a = load32 s a"
  using load8_outside [of D s s' a] load8_outside [of D s s' "a + 1"] load8_outside [of D s s' "a + 2"]
    load8_outside [of D s s' "a + 3"]
  by (simp add: load32_def word_addrs_def disjoint_iff)

lemma buffer_addrs_mono: "n \<le> m \<Longrightarrow> buffer_addrs s buf n \<subseteq> buffer_addrs s buf m"
  unfolding buffer_addrs_def by (blast intro: less_le_trans)

lemma only_mem_mono: "only_mem D s s' \<Longrightarrow> D \<subseteq> E \<Longrightarrow> only_mem E s s'"
  by (auto simp: only_mem_def)

lemma only_mem_translate: "only_mem D s s' \<Longrightarrow> translate s' = translate s"
  by (auto simp: only_mem_def fun_eq_iff)

lemma only_mem_addrs:
  assumes "only_mem D s s'"
  shows "buffer_addrs s' = buffer_addrs s" "word_addrs s' = word_addrs s" "writable s' = writable s"
  using only_mem_translate [OF assms]
  by (auto simp: fun_eq_iff buffer_addrs_def word_addrs_def writable_def)

lemma only_mem_refl [simp]: "only_mem D s s"
  by (auto simp: only_mem_def intro: exI [of _ "phys s"])

lemma only_mem_trans: "only_mem D s t \<Longrightarrow> only_mem D t u \<Longrightarrow> only_mem D s u"
  by (auto simp: only_mem_def)

lemma only_mem_ptr_wr:
  assumes "ptr_wr p s i b = Some s'" and "i < n"
  shows "only_mem (buffer_addrs s p n) s s'"
proof -
  from assms(1) obtain q where q: "translate s (p + of_nat i) = Some q" "s' = s\<lparr>phys := (phys s)(q := b)\<rparr>"
    by (auto simp: ptr_wr_def store8_def bind_eq_Some_conv)
  then have "q \<in> buffer_addrs s p n" using assms(2) by (auto simp: buffer_addrs_def)
  with q show ?thesis by (auto simp: only_mem_def intro!: exI [of _ "(phys s)(q := b)"])
qed

lemma only_mem_loop:
  assumes "for_range i n (\<lambda>j t. do { b \<leftarrow> g j t; ptr_wr p t j b }) s = Some s'"
  shows "only_mem (buffer_addrs s p n) s s'"
proof (rule for_range_preserves [OF assms])
  fix k u u'
  assume "k < n" and u: "only_mem (buffer_addrs s p n) s u" and "do { b \<leftarrow> g k u; ptr_wr p u k b } = Some u'"
  then obtain b where "ptr_wr p u k b = Some u'" by (auto simp: bind_eq_Some_conv)
  from only_mem_ptr_wr [OF this \<open>k < n\<close>] have "only_mem (buffer_addrs s p n) u u'"
    using u by (auto simp: buffer_addrs_def only_mem_def)
  with u show "only_mem (buffer_addrs s p n) s u'" by (rule only_mem_trans)
qed simp

lemma length_load_bytes: "load_bytes s a n = Some bs \<Longrightarrow> length bs = n"
proof -
  have "those xs = Some ys \<Longrightarrow> length ys = length xs" for xs :: "'x option list" and ys
    by (induction xs arbitrary: ys) (auto split: option.splits)
  then show "load_bytes s a n = Some bs \<Longrightarrow> length bs = n" by (fastforce simp: load_bytes_def)
qed

lemma load_bytes_nth: "load_bytes s a n = Some bs \<Longrightarrow> i < n \<Longrightarrow> load8 s (a + of_nat i) = Some (bs ! i)"
proof -
  have those: "those xs = Some ys \<Longrightarrow> i < length xs \<Longrightarrow> xs ! i = Some (ys ! i)" for xs :: "'x option list" and ys i
    by (induction xs arbitrary: ys i) (auto simp: nth_Cons split: option.splits nat.splits)
  show "load_bytes s a n = Some bs \<Longrightarrow> i < n \<Longrightarrow> load8 s (a + of_nat i) = Some (bs ! i)"
    using those [of "map (\<lambda>i. load8 s (a + of_nat i)) [0..<n]" bs i] by (simp add: load_bytes_def)
qed

lemma load_bytes_ptr:
  assumes "\<forall>j < n. ptr s p j = Some (xs ! j)" and "length xs = n"
  shows "load_bytes s p n = Some xs"
proof -
  have "those (map (\<lambda>i. Some (f i)) ys) = Some (map f ys)" for f :: "nat \<Rightarrow> u8" and ys
    by (induction ys) auto
  moreover have "map (\<lambda>i. load8 s (p + of_nat i)) [0..<n] = map (\<lambda>i. Some (xs ! i)) [0..<n]"
    using assms(1) by (simp add: ptr_def)
  moreover have "map ((!) xs) [0..<n] = xs" using assms(2) map_nth [of xs] by simp
  ultimately show ?thesis by (simp only: load_bytes_def)
qed

lemma load_bytes_outside:
  assumes "only_mem D s s'" and "buffer_addrs s a n \<inter> D = {}"
  shows "load_bytes s' a n = load_bytes s a n"
proof -
  have "load8 s' (a + of_nat i) = load8 s (a + of_nat i)" if "i < n" for i
    using that assms(2) by (intro load8_outside [OF assms(1)]) (auto simp: buffer_addrs_def)
  then have "map (\<lambda>i. load8 s' (a + of_nat i)) [0..<n] = map (\<lambda>i. load8 s (a + of_nat i)) [0..<n]" by simp
  then show ?thesis by (simp only: load_bytes_def)
qed

lemma ptr_ok_const: "writable s buf n \<Longrightarrow> ptr_ok (\<lambda>_. r) buf n s"
  by (simp add: ptr_ok_def writable_def)

section \<open>The mapping that page_init installs\<close>

text \<open>Well-formed tables: 1024 entries each, at distinct page-aligned addresses.\<close>

definition tables_wf :: "'a vm_scheme \<Rightarrow> bool" where
  "tables_wf s \<longleftrightarrow> length (PageDirectory s) = NUM_ENTRIES \<and> length (PageTable s) = NUM_ENTRIES
     \<and> length (UserPageTable s) = NUM_ENTRIES \<and> length (VideoPageTable s) = NUM_ENTRIES
     \<and> take_bit 12 (PageTable_at s) = 0 \<and> take_bit 12 (UserPageTable_at s) = 0
     \<and> take_bit 12 (VideoPageTable_at s) = 0
     \<and> distinct [PageTable_at s, UserPageTable_at s, VideoPageTable_at s]"

lemma page_init_loop:
  assumes "length (PageDirectory s) = NUM_ENTRIES" and "length (PageTable s) = NUM_ENTRIES"
  shows "\<exists>pd pt. for_range 0 NUM_ENTRIES page_init_entry s = Some (s\<lparr>PageDirectory := pd, PageTable := pt\<rparr>)
     \<and> length pd = NUM_ENTRIES \<and> length pt = NUM_ENTRIES
     \<and> (\<forall>j < NUM_ENTRIES. pd ! j = RW_ENABLE \<and> pt ! j = push_bit 12 (of_nat j) OR RW_ENABLE)"
proof -
  let ?I = "\<lambda>k t. \<exists>pd pt. t = s\<lparr>PageDirectory := pd, PageTable := pt\<rparr>
     \<and> length pd = NUM_ENTRIES \<and> length pt = NUM_ENTRIES
     \<and> (\<forall>j < k. pd ! j = RW_ENABLE \<and> pt ! j = push_bit 12 (of_nat j) OR RW_ENABLE)"
  have "\<exists>t. for_range 0 NUM_ENTRIES page_init_entry s = Some t \<and> ?I NUM_ENTRIES t"
  proof (rule for_range_total [where I = ?I])
    show "?I 0 s" using assms by (intro exI [of _ "PageDirectory s"] exI [of _ "PageTable s"]) simp
    fix k t
    assume "k < NUM_ENTRIES" and "?I k t"
    then obtain pd pt where t: "t = s\<lparr>PageDirectory := pd, PageTable := pt\<rparr>"
      and len: "length pd = NUM_ENTRIES" "length pt = NUM_ENTRIES"
      and ent: "\<forall>j < k. pd ! j = RW_ENABLE \<and> pt ! j = push_bit 12 (of_nat j) OR RW_ENABLE"
      by auto
    let ?pd = "pd[k := RW_ENABLE]" and ?pt = "pt[k := push_bit 12 (of_nat k) OR RW_ENABLE]"
    have "page_init_entry k t = Some (s\<lparr>PageDirectory := ?pd, PageTable := ?pt\<rparr>)"
      using \<open>k < NUM_ENTRIES\<close> len by (simp add: page_init_entry_def t)
    moreover have "?I (Suc k) (s\<lparr>PageDirectory := ?pd, PageTable := ?pt\<rparr>)"
      using \<open>k < NUM_ENTRIES\<close> len ent
      by (intro exI [of _ ?pd] exI [of _ ?pt]) (auto simp: nth_list_update less_Suc_eq)
    ultimately show "\<exists>t'. page_init_entry k t = Some t' \<and> ?I (Suc k) t'" by blast
  qed simp
  then show ?thesis by auto
qed

text \<open>The tables after \<open>page_init\<close>.\<close>

lemma page_init_tables:
  assumes "tables_wf s"
  shows "\<exists>pd pt. page_init s = Some (s\<lparr>PageDirectory := pd, PageTable := pt, cr3 := PageDirectory_at s,
       cr4 := cr4 s OR 0x10, cr0 := cr0 s OR 0x80000000\<rparr>)
     \<and> length pd = NUM_ENTRIES \<and> length pt = NUM_ENTRIES
     \<and> pd ! 0 = PageTable_at s OR 3 \<and> pd ! 1 = 0x400083
     \<and> (\<forall>j < NUM_ENTRIES. 1 < j \<longrightarrow> pd ! j = 2)
     \<and> (\<forall>j < NUM_ENTRIES. pt ! j = push_bit 12 (of_nat j) OR (if j = 0xB8 then 3 else 2))"
proof -
  from page_init_loop [of s] assms obtain pd pt where
    loop: "for_range 0 NUM_ENTRIES page_init_entry s = Some (s\<lparr>PageDirectory := pd, PageTable := pt\<rparr>)"
    and len: "length pd = NUM_ENTRIES" "length pt = NUM_ENTRIES"
    and ent: "\<forall>j < NUM_ENTRIES. pd ! j = RW_ENABLE \<and> pt ! j = push_bit 12 (of_nat j) OR RW_ENABLE"
    by (auto simp: tables_wf_def)
  have v: "pt ! 0xB8 OR 3 = push_bit 12 (of_nat 0xB8) OR 3"
    using ent by (simp add: or.assoc)
  show ?thesis
    apply (rule exI [of _ "pd[0 := PageTable_at s OR 3, 1 := 0x400083]"])
    apply (rule exI [of _ "pt[0xB8 := pt ! 0xB8 OR 3]"])
    using ent len loop v
    apply (simp add: page_init_def nth_list_update)
    done
qed

text \<open>The walk over the tables after \<open>page_init\<close>, entry by entry of the directory.\<close>

lemma aget_directory:
  "length xs = NUM_ENTRIES \<Longrightarrow> aget xs (uint (drop_bit 22 (va :: u32))) = Some (xs ! unat (drop_bit 22 va))"
  using unat_drop_bit22_less [of va] by (intro aget_uint) simp

lemma aget_table:
  "length xs = NUM_ENTRIES \<Longrightarrow>
   aget xs (uint (drop_bit 12 va AND 0x3FF)) = Some (xs ! unat (take_bit 10 (drop_bit 12 (va :: u32))))"
  using unat_take_bit10_less [of "drop_bit 12 va"] by (simp add: and_low10 aget_uint)

lemma walk_page_4MB:
  assumes "length (PageDirectory s) = NUM_ENTRIES" and "cr3 s = PageDirectory_at s" and "bit (cr4 s) 4"
    and "PageDirectory s ! unat (drop_bit 22 va) = pde" and "bit pde 0" and "bit pde 7"
  shows "walk s va = Some (push_bit 22 (drop_bit 22 pde) OR take_bit 22 va, bit pde 2)"
  using assms by (simp add: walk_def aget_directory and_masks)

lemma walk_absent:
  assumes "length (PageDirectory s) = NUM_ENTRIES"
    and "\<not> bit (PageDirectory s ! unat (drop_bit 22 va)) 0"
  shows "walk s va = None"
  using assms by (simp add: walk_def aget_directory)

lemma aligned_or_table:
  assumes a: "take_bit 12 a = (0 :: u32)" and f: "take_bit 3 f = f"
  shows "push_bit 12 (drop_bit 12 (a OR f)) = a" and "bit (a OR f) 7 = False"
    and "bit (a OR f) 0 = bit f 0" and "bit (a OR f) 2 = bit f 2"
proof -
  have nf: "\<not> bit f n" if "3 \<le> n" for n
    by (metis f bit_take_bit_iff not_le that)
  then have "drop_bit 12 f = 0"
    by (intro bit_word_eqI) (simp add: bit_drop_bit_eq)
  with a show "push_bit 12 (drop_bit 12 (a OR f)) = a"
    using push_drop_or_take [of 12 a] by simp
  show "bit (a OR f) 7 = False"
    and "bit (a OR f) 0 = bit f 0" and "bit (a OR f) 2 = bit f 2"
    using aligned_bits [OF a] nf by (auto simp: bit_or_iff)
qed

lemma walk_page_4KB:
  assumes "length (PageDirectory s) = NUM_ENTRIES" and "cr3 s = PageDirectory_at s"
    and "PageDirectory s ! unat (drop_bit 22 va) = ta OR f" and "take_bit 12 ta = 0" and "take_bit 3 f = f"
    and "bit f 0" and "table_at ta s = Some pt" and "length pt = NUM_ENTRIES"
    and "pt ! unat (take_bit 10 (drop_bit 12 va)) = pte"
  shows "walk s va = (if bit pte 0
    then Some (push_bit 12 (drop_bit 12 pte) OR take_bit 12 va, bit f 2 \<and> bit pte 2) else None)"
  using assms(1-3,6-9) aligned_or_table [OF assms(4,5)]
  by (simp add: walk_def aget_directory aget_table and_high12 and_low12 and_low22)

text \<open>
  After \<open>page_init\<close> the kernel sees exactly two identity-mapped regions: the 4 MB kernel page and
  the 4 KB page of video memory.
\<close>

lemma page_init_translate:
  assumes wf: "tables_wf s" and init: "page_init s = Some s'"
  shows "translate s' va = (if drop_bit 22 va = 1 \<or> drop_bit 12 va = 0xB8 then Some va else None)"
    and "user_translate s' va = None"
proof -
  from page_init_tables [OF wf] init obtain pd pt where
    s': "s' = s\<lparr>PageDirectory := pd, PageTable := pt, cr3 := PageDirectory_at s,
       cr4 := cr4 s OR 0x10, cr0 := cr0 s OR 0x80000000\<rparr>"
    and len: "length pd = NUM_ENTRIES" "length pt = NUM_ENTRIES"
    and pd: "pd ! 0 = PageTable_at s OR 3" "pd ! 1 = 0x400083"
      "\<And>j. j < NUM_ENTRIES \<Longrightarrow> 1 < j \<Longrightarrow> pd ! j = 2"
    and pt: "\<And>j. j < NUM_ENTRIES \<Longrightarrow> pt ! j = push_bit 12 (of_nat j) OR (if j = 0xB8 then 3 else 2)"
    by auto
  have on: "bit (cr0 s') 31" "bit (cr4 s') 4" by (simp_all add: s' bit_or_iff)
  have al: "take_bit 12 (PageTable_at s) = 0" using wf by (simp add: tables_wf_def)
  let ?w = "if drop_bit 22 va = 1 \<or> drop_bit 12 va = 0xB8 then Some (va, False) else None"
  have "walk s' va = ?w"
  proof -
    consider "drop_bit 22 va = 0" | "drop_bit 22 va = 1" | "1 < unat (drop_bit 22 va)"
      by (metis unat_0 unat_1 unsigned_word_eqI less_one linorder_neqE_nat)
    then show ?thesis
    proof cases
      case 1
      let ?x = "drop_bit 12 va"
      have "drop_bit 10 ?x = 0" using 1 by simp
      then have x10: "take_bit 10 ?x = ?x" using push_drop_or_take [of 10 ?x] by simp
      have xl: "unat ?x < 1024" using unat_take_bit10_less [of ?x] x10 by simp
      have "unat (0xB8 :: u32) = 0xB8" by simp
      then have x: "unat ?x = 0xB8 \<longleftrightarrow> ?x = 0xB8" by (metis unsigned_word_eqI)
      let ?f = "if ?x = 0xB8 then 3 else 2 :: u32"
      have pte: "pt ! unat (take_bit 10 ?x) = push_bit 12 ?x OR ?f"
        using pt [OF xl] by (simp add: x10 x)
      have "take_bit 12 (push_bit 12 ?x) = 0" and "take_bit 3 ?f = ?f"
        by (simp_all add: take_bit_push_bit)
      note pte' = aligned_or_table [OF this]
      have "walk s' va = (if bit (push_bit 12 ?x OR ?f) 0
        then Some (push_bit 12 (drop_bit 12 (push_bit 12 ?x OR ?f)) OR take_bit 12 va,
               bit (3 :: u32) 2 \<and> bit (push_bit 12 ?x OR ?f) 2) else None)"
        by (rule walk_page_4KB [where pt = pt and ta = "PageTable_at s"])
           (use 1 len pd al pte in \<open>simp_all add: s' table_at_def\<close>)
      then have "walk s' va = (if bit ?f 0 then Some (va, bit (3 :: u32) 2 \<and> bit ?f 2) else None)"
        unfolding pte' push_drop_or_take .
      then show ?thesis using 1 by simp
    next
      case 2
      have "walk s' va = Some (push_bit 22 (drop_bit 22 0x400083) OR take_bit 22 va, bit (0x400083 :: u32) 2)"
        by (rule walk_page_4MB) (use 2 len pd on in \<open>simp_all add: s'\<close>)
      then show ?thesis using 2 push_drop_or_take [of 22 va] by simp
    next
      case 3
      then have "drop_bit 22 va \<noteq> 1" by auto
      moreover have "drop_bit 12 va \<noteq> 0xB8"
      proof
        assume "drop_bit 12 va = 0xB8"
        then have "drop_bit 10 (drop_bit 12 va) = drop_bit 10 0xB8" by (rule arg_cong)
        then have "drop_bit 22 va = 0" by simp
        with 3 show False by simp
      qed
      moreover have "walk s' va = None"
        by (rule walk_absent)
           (use 3 len pd(3) [of "unat (drop_bit 22 va)"] unat_drop_bit22_less [of va] in \<open>simp_all add: s'\<close>)
      ultimately show ?thesis by simp
    qed
  qed
  then show "translate s' va = (if drop_bit 22 va = 1 \<or> drop_bit 12 va = 0xB8 then Some va else None)"
    and "user_translate s' va = None"
    using on by (auto simp: translate_def user_translate_def)
qed

section \<open>Program pages of processes\<close>

text \<open>Paging is on with 4 MB pages, over the kernel's own directory.\<close>

definition paging_on :: "'a vm_scheme \<Rightarrow> bool" where
  "paging_on s \<longleftrightarrow> tables_wf s \<and> bit (cr0 s) 31 \<and> bit (cr4 s) 4 \<and> cr3 s = PageDirectory_at s"

lemma page_init_on: "tables_wf s \<Longrightarrow> page_init s = Some s' \<Longrightarrow> paging_on s'"
  using page_init_tables [of s] by (auto simp: paging_on_def tables_wf_def bit_or_iff)

lemma paging_on_same: "same_paging s t \<Longrightarrow> paging_on s = paging_on t"
  by (auto simp: same_paging_def paging_on_def tables_wf_def)

text \<open>
  \<open>in_frame n pa\<close>: the physical address lies in the 4 MB frame number \<open>n\<close>; the program page of
  process \<open>n\<close> is frame \<open>n + 1\<close>, that is \<open>EIGHT_MB + (n - 1) * FOUR_MB\<close> onwards.
\<close>

definition in_frame :: "int \<Rightarrow> u32 \<Rightarrow> bool" where
  "in_frame n pa \<longleftrightarrow> uint (drop_bit 22 pa) = n"

definition program_phys :: "int \<Rightarrow> u32 \<Rightarrow> u32" where
  "program_phys n va = push_bit 22 (word_of_int (n + 1)) OR take_bit 22 va"

lemma process_num_cases:
  "1 \<le> n \<Longrightarrow> n \<le> 6 \<Longrightarrow> n = 1 \<or> n = 2 \<or> n = 3 \<or> n = 4 \<or> n = 5 \<or> n = (6 :: int)"
  by auto

lemma user_pde_bits:
  assumes "1 \<le> n" and "n \<le> 6"
  shows "bit (user_pde n) 0" "bit (user_pde n) 7" "bit (user_pde n) 2"
    "drop_bit 22 (user_pde n) = word_of_int (n + 1)"
  using process_num_cases [OF assms] by (auto simp: user_pde_def)

lemma program_phys_frame:
  assumes "1 \<le> n" and "n \<le> 6"
  shows "in_frame (n + 1) (program_phys n va)" and "take_bit 22 (program_phys n va) = take_bit 22 va"
    and "program_phys n va = EIGHT_MB + (word_of_int n - 1) * FOUR_MB + take_bit 22 va"
proof -
  have z: "drop_bit 22 (take_bit 22 va) = 0"
    by (rule bit_word_eqI) (simp add: bit_simps)
  show "in_frame (n + 1) (program_phys n va)"
    using process_num_cases [OF assms] by (auto simp: in_frame_def program_phys_def z)
  show "take_bit 22 (program_phys n va) = take_bit 22 va"
    using process_num_cases [OF assms] by (auto simp: program_phys_def)
  have "push_bit 22 (word_of_int (n + 1)) AND take_bit 22 va = 0"
    by (rule bit_word_eqI) (simp add: bit_simps)
  then have "push_bit 22 (word_of_int (n + 1)) + take_bit 22 va = program_phys n va"
    unfolding program_phys_def by (rule disjunctive_add_eq_or)
  then show "program_phys n va = EIGHT_MB + (word_of_int n - 1) * FOUR_MB + take_bit 22 va"
    using process_num_cases [OF assms] by auto
qed

lemma map_program_page_Some:
  "paging_on s \<Longrightarrow> map_program_page n s = Some (s\<lparr>PageDirectory := (PageDirectory s)[32 := user_pde n]\<rparr>)"
  by (simp add: map_program_page_def paging_on_def tables_wf_def)

lemma map_program_page_on: "paging_on s \<Longrightarrow> map_program_page n s = Some s' \<Longrightarrow> paging_on s'"
  by (auto simp: map_program_page_Some paging_on_def tables_wf_def)

lemma walk_program_page:
  assumes "paging_on s" and "map_program_page n s = Some s'" and "1 \<le> n" and "n \<le> 6"
    and "drop_bit 22 va = 32"
  shows "walk s' va = Some (program_phys n va, True)"
proof -
  have s': "s' = s\<lparr>PageDirectory := (PageDirectory s)[32 := user_pde n]\<rparr>"
    using assms(2) by (simp add: map_program_page_Some assms(1))
  have "walk s' va = Some (push_bit 22 (drop_bit 22 (user_pde n)) OR take_bit 22 va, bit (user_pde n) 2)"
    by (rule walk_page_4MB)
       (use assms user_pde_bits [OF assms(3,4)] in \<open>simp_all add: s' paging_on_def tables_wf_def\<close>)
  then show ?thesis using user_pde_bits [OF assms(3,4)] by (simp add: program_phys_def)
qed

lemma walk_other_page:
  assumes "paging_on s" and "map_program_page n s = Some s'" and "drop_bit 22 va \<noteq> 32"
  shows "walk s' va = walk s va"
proof -
  have s': "s' = s\<lparr>PageDirectory := (PageDirectory s)[32 := user_pde n]\<rparr>"
    using assms(2) by (simp add: map_program_page_Some assms(1))
  have "unat (drop_bit 22 va) \<noteq> 32"
  proof
    assume "unat (drop_bit 22 va) = 32"
    moreover have "unat (32 :: u32) = 32" by simp
    ultimately have "drop_bit 22 va = 32" by (metis unsigned_word_eqI)
    with assms(3) show False ..
  qed
  moreover have "length (PageDirectory s) = NUM_ENTRIES"
    using assms(1) by (simp add: paging_on_def tables_wf_def)
  ultimately show ?thesis
    by (simp add: walk_def s' aget_directory table_at_def cong: if_cong)
qed

lemma translate_map_program_page:
  assumes "paging_on s" and "map_program_page n s = Some s'" and "1 \<le> n" and "n \<le> 6"
  shows "translate s' va = (if drop_bit 22 va = 32 then Some (program_phys n va) else translate s va)"
  using assms walk_program_page [OF assms] walk_other_page [OF assms(1,2)]
    map_program_page_on [OF assms(1,2)]
  by (simp add: translate_def paging_on_def)

section \<open>Properties of paging\<close>

text \<open>The state before \<open>page_init\<close>, with zeroed tables at four page-aligned addresses.\<close>

definition blank_vm :: "'a \<Rightarrow> 'a vm_scheme" where
  "blank_vm x = \<lparr>eflags_IF = True, reg_esp = 0, reg_ebp = 0, ports = [],
     PageDirectory = replicate 1024 0, PageTable = replicate 1024 0, UserPageTable = replicate 1024 0,
     VideoPageTable = replicate 1024 0, PageDirectory_at = 0x401000, PageTable_at = 0x402000,
     UserPageTable_at = 0x403000, VideoPageTable_at = 0x404000, cr0 = 0, cr3 = 0, cr4 = 0, phys = (\<lambda>_. 0),
     \<dots> = x\<rparr>"

definition paged_vm :: "'a \<Rightarrow> 'a vm_scheme" where
  "paged_vm x = (blank_vm x)\<lparr>cr0 := 0x80000000, cr3 := 0x401000, cr4 := 0x10,
     PageDirectory := (replicate 1024 2)[0 := 0x402003, 1 := 0x400083]\<rparr>"

lemma tables_wf_blank: "tables_wf (blank_vm x)"
  by (simp add: tables_wf_def blank_vm_def)

lemma paging_on_paged: "paging_on (paged_vm x)"
  by (simp add: paging_on_def tables_wf_def paged_vm_def blank_vm_def)

text \<open>
  \<open>page_init\<close> completes and switches paging on; afterwards the kernel reaches exactly the 4 MB
  kernel page (4 MB to 8 MB) and the 4 KB page of video memory, both identity mapped, every other
  access faults, and user mode reaches nothing.
\<close>

theorem page_init_maps_kernel:
  assumes "tables_wf s"
  shows "\<exists>s'. page_init s = Some s' \<and> paging_on s'
    \<and> (\<forall>va. translate s' va = (if drop_bit 22 va = 1 \<or> drop_bit 12 va = 0xB8 then Some va else None))
    \<and> (\<forall>va. user_translate s' va = None)"
proof -
  from page_init_tables [OF assms] obtain s' where s': "page_init s = Some s'" by blast
  with page_init_translate [OF assms s'] page_init_on [OF assms s'] show ?thesis by blast
qed

theorem page_init_maps_kernel_witness:
  "\<exists>s'. page_init (blank_vm ()) = Some s' \<and> translate s' 0xB8010 = Some 0xB8010 \<and> translate s' 0 = None"
proof -
  have "drop_bit 12 (0xB8010 :: u32) = 0xB8" "drop_bit 22 (0 :: u32) \<noteq> 1" "drop_bit 12 (0 :: u32) \<noteq> 0xB8"
    by code_simp+
  with page_init_maps_kernel [OF tables_wf_blank [of "()"]] show ?thesis by metis
qed

text \<open>
  Claim C20. Program pages do not overlap: with the directory entry that \<open>execute\<close>, \<open>halt\<close> and the
  scheduler install for process \<open>n\<close>, the user page at 128 MB is mapped for user mode to the 4 MB
  frame at \<open>8 MB + (n - 1) * 4 MB\<close> and nothing else changes; the frames of two processes are disjoint,
  and none of them is the kernel's own page.
\<close>

theorem program_pages_isolated:
  assumes "paging_on s" and "n \<in> {1..6}" and "m \<in> {1..6}" and "n \<noteq> m"
    and "drop_bit 22 va = 32" and "drop_bit 22 va' = 32"
  shows "\<exists>sn sm pa pa'. map_program_page n s = Some sn \<and> map_program_page m s = Some sm
    \<and> translate sn va = Some pa \<and> user_translate sn va = Some pa
    \<and> pa = EIGHT_MB + (word_of_int n - 1) * FOUR_MB + take_bit 22 va
    \<and> translate sm va' = Some pa' \<and> pa \<noteq> pa' \<and> drop_bit 22 pa \<noteq> 1
    \<and> (\<forall>a. drop_bit 22 a \<noteq> 32 \<longrightarrow> translate sn a = translate s a)"
proof -
  from map_program_page_Some [OF assms(1)] obtain sn sm where
    m: "map_program_page n s = Some sn" "map_program_page m s = Some sm" by metis
  have b: "1 \<le> n" "n \<le> 6" "1 \<le> m" "m \<le> 6" using assms(2,3) by auto
  note tn = translate_map_program_page [OF assms(1) m(1) b(1,2)]
    and tm = translate_map_program_page [OF assms(1) m(2) b(3,4)]
  have u: "user_translate sn va = Some (program_phys n va)"
    using walk_program_page [OF assms(1) m(1) b(1,2) assms(5)] by (simp add: user_translate_def)
  note fn = program_phys_frame [OF b(1,2), of va] and fm = program_phys_frame [OF b(3,4), of va']
  have ne: "program_phys n va \<noteq> program_phys m va'"
    using fn(1) fm(1) assms(4) by (auto simp: in_frame_def)
  have k: "drop_bit 22 (program_phys n va) \<noteq> 1"
    using fn(1) b(1) by (auto simp: in_frame_def)
  show ?thesis
    by (rule exI [of _ sn], rule exI [of _ sm], rule exI [of _ "program_phys n va"], rule exI [of _ "program_phys m va'"])
       (use m tn tm u fn(3) ne k assms(5,6) in simp)
qed

theorem program_pages_isolated_witness:
  "\<exists>sn sm pa pa'. map_program_page 1 (paged_vm ()) = Some sn \<and> map_program_page 2 (paged_vm ()) = Some sm
    \<and> translate sn 0x8048000 = Some pa \<and> translate sm 0x8048000 = Some pa' \<and> pa \<noteq> pa'"
proof -
  have "drop_bit 22 (0x8048000 :: u32) = 32" by code_simp
  with program_pages_isolated [OF paging_on_paged [of "()"], of 1 2 "0x8048000" "0x8048000"] show ?thesis by auto
qed

end
