(* ===== verification/I8259.thy ===== *)
theory I8259
  imports Paging
begin

text \<open>
  The interrupt controller driver student-distrib/i8259.c: the two mask variables, initialisation,
  \<open>enable_irq\<close>, \<open>disable_irq\<close> and \<open>send_eoi\<close>. The command bytes sent to the controllers are
  recorded in the port trace.
\<close>

abbreviation (input) MASTER_8259_COMMAND :: u16 where "MASTER_8259_COMMAND \<equiv> 0x20"
abbreviation (input) SLAVE_8259_COMMAND :: u16 where "SLAVE_8259_COMMAND \<equiv> 0xA0"
abbreviation (input) MASTER_8259_DATA :: u16 where "MASTER_8259_DATA \<equiv> 0x21"
abbreviation (input) SLAVE_8259_DATA :: u16 where "SLAVE_8259_DATA \<equiv> 0xA1"
abbreviation (input) ICW1 :: u8 where "ICW1 \<equiv> 0x11"
abbreviation (input) ICW2_MASTER :: u8 where "ICW2_MASTER \<equiv> 0x20"
abbreviation (input) ICW2_SLAVE :: u8 where "ICW2_SLAVE \<equiv> 0x28"
abbreviation (input) ICW3_MASTER :: u8 where "ICW3_MASTER \<equiv> 0x04"
abbreviation (input) ICW3_SLAVE :: u8 where "ICW3_SLAVE \<equiv> 0x02"
abbreviation (input) ICW4 :: u8 where "ICW4 \<equiv> 0x01"
abbreviation (input) EOI :: u32 where "EOI \<equiv> 0x60"
abbreviation (input) IRQ_SLAVE_8259 :: u32 where "IRQ_SLAVE_8259 \<equiv> 0x02"

record pic = vm +
  master_mask :: u8
  slave_mask :: u8

text \<open>
  \<open>bitmask <<= n\<close> on an 8-bit variable: the shift is done on \<open>int\<close> and truncated.
\<close>

definition irq_bit :: "u32 \<Rightarrow> u8" where
  "irq_bit n = push_bit (unat n) 0x01"

definition enable_irq :: "u32 \<Rightarrow> 'a pic_scheme \<Rightarrow> 'a pic_scheme" where
  "enable_irq irq_num s =
     (if irq_num < 8 then
        let bitmask = NOT (irq_bit irq_num);
            s = s\<lparr>master_mask := master_mask s AND bitmask\<rparr>
        in outb (master_mask s) MASTER_8259_DATA s
      else
        let bitmask = NOT (irq_bit (irq_num - 8));
            s = s\<lparr>slave_mask := slave_mask s AND bitmask\<rparr>
        in outb (slave_mask s) SLAVE_8259_DATA s)"

definition disable_irq :: "u32 \<Rightarrow> 'a pic_scheme \<Rightarrow> 'a pic_scheme" where
  "disable_irq irq_num s =
     (if irq_num < 8 then
        let bitmask = irq_bit irq_num;
            s = s\<lparr>master_mask := master_mask s AND bitmask\<rparr>
        in outb (master_mask s) MASTER_8259_DATA s
      else
        let bitmask = irq_bit (irq_num - 8);
            s = s\<lparr>slave_mask := slave_mask s AND bitmask\<rparr>
        in outb (slave_mask s) SLAVE_8259_DATA s)"

definition send_eoi :: "u32 \<Rightarrow> 'a pic_scheme \<Rightarrow> 'a pic_scheme" where
  "send_eoi irq_num s =
     (if irq_num < 8 then outb (ucast (irq_num OR EOI)) MASTER_8259_COMMAND s
      else outb (ucast (IRQ_SLAVE_8259 OR EOI)) MASTER_8259_COMMAND
             (outb (ucast ((irq_num - 8) OR EOI)) SLAVE_8259_COMMAND s))"

text \<open>
  \<open>cli_and_save\<close> and \<open>restore_flags\<close> keep the interrupt flag of entry; the \<open>sti\<close> before
  \<open>restore_flags\<close> is therefore undone.
\<close>

definition i8259_init :: "'a pic_scheme \<Rightarrow> 'a pic_scheme" where
  "i8259_init s =
     (let flags = eflags_IF s;
          s = cli s;
          s = outb (master_mask s) MASTER_8259_DATA s;
          s = outb (slave_mask s) SLAVE_8259_DATA s;
          s = outb ICW1 MASTER_8259_COMMAND s;
          s = outb ICW1 SLAVE_8259_COMMAND s;
          s = outb ICW2_MASTER MASTER_8259_DATA s;
          s = outb ICW2_SLAVE SLAVE_8259_DATA s;
          s = outb ICW3_MASTER MASTER_8259_DATA s;
          s = outb ICW3_SLAVE SLAVE_8259_DATA s;
          s = outb ICW4 MASTER_8259_DATA s;
          s = outb ICW4 SLAVE_8259_DATA s;
          s = enable_irq IRQ_SLAVE_8259 s;
          s = sti s
      in s\<lparr>eflags_IF := flags\<rparr>)"

section \<open>Masks\<close>

text \<open>An interrupt line is masked when its bit is set in the mask of its controller.\<close>

definition masked :: "'a pic_scheme \<Rightarrow> nat \<Rightarrow> bool" where
  "masked s n = (if n < 8 then bit (master_mask s) n else bit (slave_mask s) (n - 8))"

lemma bit_irq_bit: "n < 8 \<Longrightarrow> bit (irq_bit k) n \<longleftrightarrow> unat k = n"
  by (auto simp: irq_bit_def bit_simps)

lemma irq_split:
  assumes "n < 16"
  shows "(of_nat n :: u32) < 8 \<longleftrightarrow> n < 8" and "n < 8 \<Longrightarrow> unat (of_nat n :: u32) = n"
    and "8 \<le> n \<Longrightarrow> unat (of_nat n - 8 :: u32) = n - 8"
proof -
  have u: "unat (of_nat n :: u32) = n"
    using assms by (simp add: unat_of_nat)
  then show "n < 8 \<Longrightarrow> unat (of_nat n :: u32) = n" by simp
  show "(of_nat n :: u32) < 8 \<longleftrightarrow> n < 8"
    using u by (simp add: word_less_nat_alt)
  show "8 \<le> n \<Longrightarrow> unat (of_nat n - 8 :: u32) = n - 8"
    using u by (simp add: unat_sub word_le_nat_alt)
qed

text \<open>
  Unmasking a line: \<open>enable_irq(n)\<close> clears the mask of line \<open>n\<close>, leaves the masks of the
  fifteen other lines as they were, and sends the new mask to the controller that owns the line.
\<close>

theorem enable_irq_unmasks:
  assumes "n < 16" and "k < 16"
  shows "(masked (enable_irq (of_nat n) s) k \<longleftrightarrow> k \<noteq> n \<and> masked s k)
    \<and> ports (enable_irq (of_nat n) s) = ports s @
      [if n < 8 then Outb MASTER_8259_DATA (master_mask (enable_irq (of_nat n) s))
       else Outb SLAVE_8259_DATA (slave_mask (enable_irq (of_nat n) s))]"
  using assms irq_split [OF assms(1)]
  by (auto simp: enable_irq_def masked_def bit_irq_bit outb_def Let_def bit_and_iff bit_not_iff)

theorem enable_irq_unmasks_witness:
  "masked (enable_irq (of_nat 1) (blank_vm \<lparr>master_mask = 0xFF, slave_mask = 0xFF\<rparr>)) 2
   \<and> \<not> masked (enable_irq (of_nat 1) (blank_vm \<lparr>master_mask = 0xFF, slave_mask = 0xFF\<rparr>)) 1"
  using enable_irq_unmasks [of 1 1 "blank_vm \<lparr>master_mask = 0xFF, slave_mask = 0xFF\<rparr>"]
    enable_irq_unmasks [of 1 2 "blank_vm \<lparr>master_mask = 0xFF, slave_mask = 0xFF\<rparr>"]
  by (simp add: masked_def blank_vm_def)

text \<open>
  What \<open>disable_irq(n)\<close> does: on the controller of line \<open>n\<close> every other line becomes
  unmasked, and line \<open>n\<close> itself keeps the mask it had; the other controller is not touched. So
  an enabled line is not masked by the call that is meant to mask it.
\<close>

theorem disable_irq_masks:
  assumes "n < 16" and "k < 16"
  shows "masked (disable_irq (of_nat n) s) k \<longleftrightarrow>
    (if (n < 8) = (k < 8) then k = n \<and> masked s n else masked s k)"
  using assms irq_split [OF assms(1)]
  by (auto simp: disable_irq_def masked_def bit_irq_bit outb_def Let_def bit_and_iff)

theorem disable_irq_masks_witness:
  "\<not> masked (disable_irq (of_nat 8) (enable_irq (of_nat 8) (blank_vm \<lparr>master_mask = 0xFF, slave_mask = 0xFF\<rparr>))) 8
   \<and> \<not> masked (disable_irq (of_nat 8) (enable_irq (of_nat 8) (blank_vm \<lparr>master_mask = 0xFF, slave_mask = 0xFF\<rparr>))) 9"
  using disable_irq_masks [of 8 8 "enable_irq (of_nat 8) (blank_vm \<lparr>master_mask = 0xFF, slave_mask = 0xFF\<rparr>)"]
    disable_irq_masks [of 8 9 "enable_irq (of_nat 8) (blank_vm \<lparr>master_mask = 0xFF, slave_mask = 0xFF\<rparr>)"]
  by (simp add: masked_def enable_irq_def outb_def irq_bit_def bit_simps)

end
