(* ===== verification/Console.thy ===== *)
theory Console
  imports I8259
begin

text \<open>
  The console part of student-distrib/lib.c and the terminal structure of lib.h: the three terminals
  with their saved screens, the screen of the displayed terminal in video memory, and the output
  routines \<open>draw_cursor\<close>, \<open>clear\<close>, \<open>putc\<close>, \<open>putc2screen\<close> and \<open>puts\<close>.

  \<open>video_mem\<close> is the text buffer at \<open>VIDEO\<close> (0xB8000): two bytes per cell, character and attribute,
  25 rows of 80 cells. A write outside the 4000 bytes of a buffer is \<open>None\<close>.
\<close>

abbreviation (input) NUM_COLS :: int where "NUM_COLS \<equiv> 80"
abbreviation (input) NUM_ROWS :: int where "NUM_ROWS \<equiv> 25"
abbreviation (input) ATTRIB :: u8 where "ATTRIB \<equiv> 7"
abbreviation (input) KEYBOARD_BUF_SIZE :: int where "KEYBOARD_BUF_SIZE \<equiv> 128"

abbreviation (input) NL :: u8 where "NL \<equiv> 10"
abbreviation (input) CR :: u8 where "CR \<equiv> 13"
abbreviation (input) BS :: u8 where "BS \<equiv> 8"

record terminal =
  video_memory :: "u8 list"
  key_buf :: "u8 list"
  num_buf :: int
  buf_flag :: u8
  screen_x :: int
  screen_y :: int
  start_line_ptr :: int
  process_num :: int
  flag :: int
  total_process :: int

record console = pic +
  terminal_t :: "terminal list"
  terminal_num :: int
  terminal_displayed :: int
  video_mem :: "u8 list"

section \<open>Operations\<close>

definition set_terminal :: "int \<Rightarrow> terminal \<Rightarrow> 'a console_scheme \<Rightarrow> 'a console_scheme option" where
  "set_terminal i t s = do {
     ts \<leftarrow> aset (terminal_t s) i t;
     Some (s\<lparr>terminal_t := ts\<rparr>)
   }"

definition draw_cursor :: "'a console_scheme \<Rightarrow> 'a console_scheme option" where
  "draw_cursor s = do {
     t \<leftarrow> aget (terminal_t s) (terminal_displayed s);
     let pos = (word_of_int (NUM_COLS * screen_y t + screen_x t) :: u16);
     let s = outw (push_bit 8 pos OR 0x0F) 0x03D4 s;
     Some (outw ((pos AND 0xFF00) OR 0x0E) 0x03D4 s)
   }"

definition clear_cells :: "u8 list \<Rightarrow> u8 list option" where
  "clear_cells v = for_range 0 (nat (NUM_ROWS * NUM_COLS)) (\<lambda>i v. do {
     v \<leftarrow> aset v (2 * int i) 0x20;
     aset v (2 * int i + 1) ATTRIB
   }) v"

definition clear :: "'a console_scheme \<Rightarrow> 'a console_scheme option" where
  "clear s = do {
     s \<leftarrow> (if terminal_num s \<noteq> terminal_displayed s then do {
            t \<leftarrow> aget (terminal_t s) (terminal_num s);
            v \<leftarrow> clear_cells (video_memory t);
            set_terminal (terminal_num s) (t\<lparr>video_memory := v\<rparr>) s
          } else do {
            v \<leftarrow> clear_cells (video_mem s);
            Some (s\<lparr>video_mem := v\<rparr>)
          });
     t \<leftarrow> aget (terminal_t s) (terminal_num s);
     s \<leftarrow> set_terminal (terminal_num s) (t\<lparr>screen_x := 0, screen_y := 0, start_line_ptr := 0\<rparr>) s;
     draw_cursor s
   }"

text \<open>The scroll loops: move every character up one row, then blank the last row.\<close>

definition scroll :: "u8 list \<Rightarrow> u8 list option" where
  "scroll v = do {
     v \<leftarrow> for_range 0 (nat (NUM_ROWS - 1)) (\<lambda>y. for_range 0 (nat NUM_COLS) (\<lambda>x v. do {
            let p = NUM_COLS * int y + int x;
            b \<leftarrow> aget v (2 * (p + NUM_COLS));
            aset v (2 * p) b
          })) v;
     for_range 0 (nat NUM_COLS) (\<lambda>x v. aset v (2 * ((NUM_ROWS - 1) * NUM_COLS + int x)) 0) v
   }"

definition scroll_if_full :: "terminal \<Rightarrow> u8 list \<Rightarrow> (terminal \<times> u8 list \<times> bool) option" where
  "scroll_if_full t v =
     (if screen_y t = NUM_ROWS then do {
        v \<leftarrow> scroll v;
        Some (t\<lparr>screen_y := screen_y t - 1, start_line_ptr := start_line_ptr t - NUM_COLS\<rparr>, v, False)
      } else Some (t, v, False))"

text \<open>
  The common body of \<open>putc\<close> and \<open>putc2screen\<close>, which differ in the terminal and in the buffer they
  work on: newline, backspace, any other character, then scrolling. The last component is set when
  the function returns early, at a backspace with nothing left on the line.
\<close>

definition emit :: "u8 \<Rightarrow> terminal \<Rightarrow> u8 list \<Rightarrow> (terminal \<times> u8 list \<times> bool) option" where
  "emit c t v =
     (if c = NL \<or> c = CR then
        let t = t\<lparr>screen_y := screen_y t + 1, screen_x := 0\<rparr>;
            t = t\<lparr>start_line_ptr := screen_y t * NUM_COLS\<rparr>
        in scroll_if_full t v
      else if c = BS then
        if screen_y t * NUM_COLS + screen_x t = start_line_ptr t then Some (t, v, True)
        else
          let t = (if screen_x t = 0 then t\<lparr>screen_x := NUM_COLS - 1, screen_y := screen_y t - 1\<rparr>
                   else t\<lparr>screen_x := screen_x t - 1\<rparr>)
          in do {
            v \<leftarrow> aset v (2 * (NUM_COLS * screen_y t + screen_x t)) 0;
            scroll_if_full t v
          }
      else do {
        v \<leftarrow> aset v (2 * (NUM_COLS * screen_y t + screen_x t)) c;
        v \<leftarrow> aset v (2 * (NUM_COLS * screen_y t + screen_x t) + 1) ATTRIB;
        let t = t\<lparr>screen_x := screen_x t + 1\<rparr>;
        let t = (if NUM_COLS \<le> screen_x t
                 then t\<lparr>screen_x := screen_x t mod NUM_COLS, screen_y := screen_y t + 1\<rparr> else t);
        scroll_if_full t v
      })"

definition putc2screen :: "u8 \<Rightarrow> 'a console_scheme \<Rightarrow> 'a console_scheme option" where
  "putc2screen c s = do {
     t \<leftarrow> aget (terminal_t s) (terminal_displayed s);
     (t, v, early) \<leftarrow> emit c t (video_mem s);
     s \<leftarrow> set_terminal (terminal_displayed s) t (s\<lparr>video_mem := v\<rparr>);
     if early then Some s else draw_cursor s
   }"

definition putc :: "u8 \<Rightarrow> 'a console_scheme \<Rightarrow> 'a console_scheme option" where
  "putc c s =
     (if terminal_num s = terminal_displayed s then putc2screen c s
      else do {
        t \<leftarrow> aget (terminal_t s) (terminal_num s);
        (t, v, early) \<leftarrow> emit c t (video_memory t);
        set_terminal (terminal_num s) (t\<lparr>video_memory := v\<rparr>) s
      })"

partial_function (option) puts_loop ::
  "cstr \<Rightarrow> nat \<Rightarrow> 'a console_scheme \<Rightarrow> (nat \<times> 'a console_scheme) option" where
  "puts_loop str index s = do {
     c \<leftarrow> str index;
     if c \<noteq> 0 then do { s \<leftarrow> putc c s; puts_loop str (Suc index) s }
     else Some (index, s)
   }"

definition puts :: "cstr \<Rightarrow> 'a console_scheme \<Rightarrow> (nat \<times> 'a console_scheme) option" where
  "puts str s = puts_loop str 0 s"

section \<open>Scrolling and clearing\<close>

text \<open>
  \<open>cells v\<close> are the characters of a buffer, cell by cell; \<open>attrs v\<close> the attributes.
\<close>

definition cells :: "u8 list \<Rightarrow> nat \<Rightarrow> u8" where
  "cells v i = v ! (2 * i)"

definition attrs :: "u8 list \<Rightarrow> nat \<Rightarrow> u8" where
  "attrs v i = v ! (2 * i + 1)"

lemma buffer_eqI:
  assumes "length v = 4000" and "length w = 4000"
    and "\<And>i. i < 2000 \<Longrightarrow> cells v i = cells w i" and "\<And>i. i < 2000 \<Longrightarrow> attrs v i = attrs w i"
  shows "v = w"
proof (rule nth_equalityI)
  fix k assume "k < length v"
  then have "k div 2 < 2000" using assms(1) by simp
  then show "v ! k = w ! k"
    using assms(3,4) [of "k div 2"] by (cases "even k") (auto simp: cells_def attrs_def)
qed (simp add: assms)

lemma put_cell:
  assumes "length v = 4000" and "i < 2000"
  shows "aset v (2 * int i) b = Some (v[2 * i := b])"
    and "aset v (2 * int i + 1) b = Some (v[2 * i + 1 := b])"
    and "aget v (2 * int i) = Some (cells v i)"
proof -
  have "nat (2 * int i) = 2 * i" "nat (2 * int i + 1) = 2 * i + 1" by linarith+
  then show "aset v (2 * int i) b = Some (v[2 * i := b])"
    and "aset v (2 * int i + 1) b = Some (v[2 * i + 1 := b])"
    and "aget v (2 * int i) = Some (cells v i)"
    using assms by (auto simp: aset_def aget_def cells_def)
qed

declare aget_in [simp del] aset_in [simp del]

lemma cells_upd [simp]:
  "2 * i < length v \<Longrightarrow> cells (v[2 * i := b]) j = (if j = i then b else cells v j)"
  "2 * i + 1 < length v \<Longrightarrow> cells (v[2 * i + 1 := b]) j = cells v j"
  "Suc (2 * i) < length v \<Longrightarrow> cells (v[Suc (2 * i) := b]) j = cells v j"
  by (auto simp: cells_def nth_list_update) presburger+

lemma attrs_upd [simp]:
  "2 * i < length v \<Longrightarrow> attrs (v[2 * i := b]) j = attrs v j"
  "2 * i + 1 < length v \<Longrightarrow> attrs (v[2 * i + 1 := b]) j = (if j = i then b else attrs v j)"
  "Suc (2 * i) < length v \<Longrightarrow> attrs (v[Suc (2 * i) := b]) j = (if j = i then b else attrs v j)"
  by (auto simp: attrs_def nth_list_update) presburger+

text \<open>Storing one byte of a cell, as an update of the two views.\<close>

lemma set_cell:
  assumes "length v = 4000" and "i < 2000"
  shows "\<exists>w. aset v (2 * int i) b = Some w \<and> length w = 4000 \<and> cells w = (cells v)(i := b) \<and> attrs w = attrs v"
  using assms put_cell(1) [OF assms] by (auto simp: fun_eq_iff)

lemma set_attr:
  assumes "length v = 4000" and "i < 2000"
  shows "\<exists>w. aset v (2 * int i + 1) b = Some w \<and> length w = 4000 \<and> cells w = cells v \<and> attrs w = (attrs v)(i := b)"
  using assms put_cell(2) [OF assms] by (auto simp: fun_eq_iff)

lemma clear_cells_spec:
  assumes "length v = 4000"
  shows "\<exists>w. clear_cells v = Some w \<and> length w = 4000 \<and> (\<forall>i < 2000. cells w i = 0x20 \<and> attrs w i = ATTRIB)"
proof -
  let ?I = "\<lambda>k w. length w = 4000 \<and> (\<forall>i < k. cells w i = 0x20 \<and> attrs w i = ATTRIB)"
  have "\<exists>w. clear_cells v = Some w \<and> ?I (nat (NUM_ROWS * NUM_COLS)) w"
    unfolding clear_cells_def
  proof (rule for_range_total [where I = ?I])
    fix k w assume "k < nat (NUM_ROWS * NUM_COLS)" and "?I k w"
    then show "\<exists>t'. do { v \<leftarrow> aset w (2 * int k) 0x20; aset v (2 * int k + 1) ATTRIB } = Some t' \<and> ?I (Suc k) t'"
      by (auto simp: put_cell less_Suc_eq)
  qed (use assms in auto)
  then show ?thesis by simp
qed

text \<open>The state of the scroll loop after \<open>m\<close> moves.\<close>

definition shifted :: "u8 list \<Rightarrow> nat \<Rightarrow> u8 list \<Rightarrow> bool" where
  "shifted v m w \<longleftrightarrow> length w = 4000 \<and> (\<forall>i < 2000. attrs w i = attrs v i
     \<and> cells w i = (if i < m then cells v (i + 80) else cells v i))"

lemma shifted_step:
  assumes "shifted v m w" and "m < 1920"
  shows "do { b \<leftarrow> aget w (2 * (int m + NUM_COLS)); aset w (2 * int m) b } = Some (w[2 * m := cells v (m + 80)])"
    and "shifted v (Suc m) (w[2 * m := cells v (m + 80)])"
  using assms put_cell(3) [of w "m + 80"] put_cell(1) [of w m]
  by (auto simp: shifted_def less_Suc_eq)

lemma scroll_row:
  assumes "shifted v (80 * y) w" and "y < 24"
  shows "\<exists>w'. for_range 0 (nat NUM_COLS) (\<lambda>x v. do {
            let p = NUM_COLS * int y + int x;
            b \<leftarrow> aget v (2 * (p + NUM_COLS));
            aset v (2 * p) b
          }) w = Some w' \<and> shifted v (80 * Suc y) w'"
proof -
  have "\<exists>w'. for_range 0 (nat NUM_COLS) (\<lambda>x v. do {
            let p = NUM_COLS * int y + int x;
            b \<leftarrow> aget v (2 * (p + NUM_COLS));
            aset v (2 * p) b
          }) w = Some w' \<and> shifted v (80 * y + nat NUM_COLS) w'"
  proof (rule for_range_total [where I = "\<lambda>x. shifted v (80 * y + x)"])
    fix x t assume "x < nat NUM_COLS" and sh: "shifted v (80 * y + x) t"
    then have "80 * y + x < 1920" using assms(2) by linarith
    from shifted_step [OF sh this]
    show "\<exists>t'. do { let p = NUM_COLS * int y + int x; b \<leftarrow> aget t (2 * (p + NUM_COLS)); aset t (2 * p) b } = Some t'
        \<and> shifted v (80 * y + Suc x) t'" by (simp add: Let_def)
  qed (use assms in auto)
  then show ?thesis by (simp add: algebra_simps)
qed

lemma scroll_spec:
  assumes "length v = 4000"
  shows "\<exists>w. scroll v = Some w \<and> length w = 4000 \<and> (\<forall>i < 2000. attrs w i = attrs v i
     \<and> cells w i = (if i < 1920 then cells v (i + 80) else 0))"
proof -
  let ?row = "\<lambda>y. for_range 0 (nat NUM_COLS) (\<lambda>x v. do {
            let p = NUM_COLS * int y + int x;
            b \<leftarrow> aget v (2 * (p + NUM_COLS));
            aset v (2 * p) b
          })"
  have "\<exists>w. for_range 0 (nat (NUM_ROWS - 1)) ?row v = Some w \<and> shifted v (80 * nat (NUM_ROWS - 1)) w"
    by (rule for_range_total [where I = "\<lambda>y. shifted v (80 * y)"])
       (use assms scroll_row in \<open>auto simp: shifted_def\<close>)
  then obtain w where w: "for_range 0 (nat (NUM_ROWS - 1)) ?row v = Some w" "shifted v 1920 w" by auto
  let ?J = "\<lambda>x t. length t = 4000 \<and> (\<forall>i < 2000. attrs t i = attrs v i
     \<and> cells t i = (if i < 1920 then cells v (i + 80) else if i < 1920 + x then 0 else cells v i))"
  have "\<exists>t. for_range 0 (nat NUM_COLS) (\<lambda>x v. aset v (2 * ((NUM_ROWS - 1) * NUM_COLS + int x)) 0) w = Some t
      \<and> ?J (nat NUM_COLS) t"
  proof (rule for_range_total [where I = ?J])
    fix x t assume "x < nat NUM_COLS" and "?J x t"
    then show "\<exists>t'. aset t (2 * ((NUM_ROWS - 1) * NUM_COLS + int x)) 0 = Some t' \<and> ?J (Suc x) t'"
      using set_cell [of t "1920 + x" 0] by (auto simp: less_Suc_eq)
  qed (use w in \<open>auto simp: shifted_def\<close>)
  with w show ?thesis by (auto simp: scroll_def)
qed

section \<open>An abstract screen\<close>

text \<open>
  What the output routines promise, without the layout of video memory: a screen is a list of 2000
  characters, a cursor position in it, and the position where the current line started (which can
  be above the screen when a line is longer than the screen).
\<close>

record screen =
  grid :: "u8 list"
  cursor :: nat
  line_start :: int

definition spec_advance :: "screen \<Rightarrow> screen" where
  "spec_advance S =
     (if cursor S < 2000 then S
      else \<lparr>grid = drop 80 (grid S) @ replicate 80 0, cursor = cursor S - 80, line_start = line_start S - 80\<rparr>)"

definition spec_put :: "u8 \<Rightarrow> screen \<Rightarrow> screen" where
  "spec_put c S =
     (if c = NL \<or> c = CR then
        let p = 80 * (cursor S div 80 + 1) in spec_advance (S\<lparr>cursor := p, line_start := int p\<rparr>)
      else if c = BS then
        if int (cursor S) = line_start S then S
        else S\<lparr>grid := (grid S)[cursor S - 1 := 0], cursor := cursor S - 1\<rparr>
      else spec_advance (S\<lparr>grid := (grid S)[cursor S := c], cursor := cursor S + 1\<rparr>))"

definition screen_of :: "terminal \<Rightarrow> u8 list \<Rightarrow> screen" where
  "screen_of t v = \<lparr>grid = map (cells v) [0..<2000], cursor = nat (NUM_COLS * screen_y t + screen_x t),
     line_start = start_line_ptr t\<rparr>"

definition wf_cursor :: "terminal \<Rightarrow> bool" where
  "wf_cursor t \<longleftrightarrow> 0 \<le> screen_x t \<and> screen_x t < NUM_COLS \<and> 0 \<le> screen_y t \<and> screen_y t < NUM_ROWS
     \<and> start_line_ptr t \<le> NUM_COLS * screen_y t + screen_x t"

text \<open>Everything of a terminal that output leaves alone.\<close>

definition same_input :: "terminal \<Rightarrow> terminal \<Rightarrow> bool" where
  "same_input t u \<longleftrightarrow> video_memory t = video_memory u \<and> key_buf t = key_buf u \<and> num_buf t = num_buf u
     \<and> buf_flag t = buf_flag u \<and> process_num t = process_num u \<and> flag t = flag u
     \<and> total_process t = total_process u"

lemma same_input_refl [simp]: "same_input t t"
  by (simp add: same_input_def)

lemma grid_upd:
  assumes "i < 2000" and "cells w = (cells v)(i := b)"
  shows "map (cells w) [0..<2000] = (map (cells v) [0..<2000])[i := b]"
  using assms by (intro nth_equalityI) (auto simp: nth_list_update)

lemma scroll_if_full_refines:
  assumes "0 \<le> screen_x t" "screen_x t < 80" "0 \<le> screen_y t" "screen_y t \<le> 25"
    and "start_line_ptr t \<le> 80 * screen_y t + screen_x t" and len: "length v = 4000"
  shows "\<exists>t' v'. scroll_if_full t v = Some (t', v', False) \<and> same_input t' t \<and> wf_cursor t' \<and> length v' = 4000
    \<and> screen_of t' v' = spec_advance (screen_of t v)"
proof (cases "screen_y t = 25")
  case True
  from scroll_spec [OF len] obtain w where w: "scroll v = Some w" "length w = 4000"
    "\<forall>i < 2000. attrs w i = attrs v i \<and> cells w i = (if i < 1920 then cells v (i + 80) else 0)" by blast
  have g: "map (cells w) [0..<2000] = drop 80 (map (cells v) [0..<2000]) @ replicate 80 0"
    by (rule nth_equalityI) (use w(3) in \<open>auto simp: nth_append add.commute\<close>)
  from assms True have c: "nat (2000 + screen_x t) = nat (1920 + screen_x t) + 80" by simp
  from True assms w g show ?thesis
    by (simp add: scroll_if_full_def screen_of_def spec_advance_def wf_cursor_def same_input_def c)
next
  case False
  with assms have "nat (80 * screen_y t + screen_x t) < 2000" by linarith
  with False assms show ?thesis
    by (simp add: scroll_if_full_def screen_of_def spec_advance_def wf_cursor_def)
qed

abbreviation (input) emits_spec :: "u8 \<Rightarrow> terminal \<Rightarrow> u8 list \<Rightarrow> bool" where
  "emits_spec c t v \<equiv> \<exists>t' v' e. emit c t v = Some (t', v', e) \<and> same_input t' t \<and> wf_cursor t'
     \<and> length v' = 4000 \<and> screen_of t' v' = spec_put c (screen_of t v)"

lemma cursor_pos:
  assumes "wf_cursor t"
  shows "int (cursor (screen_of t v)) = 80 * screen_y t + screen_x t" and "cursor (screen_of t v) < 2000"
    and "int (cursor (screen_of t v) div 80) = screen_y t"
  using assms by (auto simp: wf_cursor_def screen_of_def zdiv_int)

lemma emit_newline:
  assumes wf: "wf_cursor t" and len: "length v = 4000" and c: "c = NL \<or> c = CR"
  shows "emits_spec c t v"
proof -
  let ?p = "cursor (screen_of t v)"
  let ?t = "t\<lparr>screen_y := screen_y t + 1, screen_x := 0, start_line_ptr := (screen_y t + 1) * 80\<rparr>"
  have "nat (80 * (screen_y t + 1)) = 80 * (?p div 80 + 1)" and "(screen_y t + 1) * 80 = int (80 * (?p div 80 + 1))"
    using cursor_pos(3) [OF wf, of v] by (simp_all add: nat_eq_iff)
  then have "screen_of ?t v = (screen_of t v)\<lparr>cursor := 80 * (?p div 80 + 1), line_start := int (80 * (?p div 80 + 1))\<rparr>"
    by (simp add: screen_of_def)
  moreover from scroll_if_full_refines [of ?t v] wf len obtain t' v' where
    "scroll_if_full ?t v = Some (t', v', False)" "same_input t' ?t" "wf_cursor t'" "length v' = 4000"
    "screen_of t' v' = spec_advance (screen_of ?t v)" by (auto simp: wf_cursor_def)
  ultimately show ?thesis using c
    by (auto simp: emit_def spec_put_def Let_def same_input_def)
qed

lemma emit_backspace:
  assumes wf: "wf_cursor t" and len: "length v = 4000"
    and bs: "cursor (screen_of t v) = 0 \<Longrightarrow> start_line_ptr t = 0"
  shows "emits_spec BS t v"
proof (cases "80 * screen_y t + screen_x t = start_line_ptr t")
  case True
  with wf len cursor_pos(1) [OF wf, of v] show ?thesis
    by (auto simp: emit_def spec_put_def mult.commute) (simp add: screen_of_def)
next
  case False
  define p where "p = cursor (screen_of t v)"
  have p: "int p = 80 * screen_y t + screen_x t" "p < 2000" "line_start (screen_of t v) \<noteq> int p"
    using cursor_pos [OF wf, of v] False by (auto simp: p_def screen_of_def)
  with bs have p0: "0 < p" by (cases "p = 0") (auto simp: p_def screen_of_def)
  let ?t = "if screen_x t = 0 then t\<lparr>screen_x := 80 - 1, screen_y := screen_y t - 1\<rparr>
            else t\<lparr>screen_x := screen_x t - 1\<rparr>"
  have pos: "80 * screen_y ?t + screen_x ?t = int (p - 1)" using p p0 by auto
  have lt: "p - 1 < 2000" using p by simp
  obtain w where w: "aset v (2 * int (p - 1)) 0 = Some w" "length w = 4000"
    "cells w = (cells v)(p - 1 := 0)" using set_cell [OF len lt, of 0] by blast
  have st: "start_line_ptr ?t = start_line_ptr t" and in_t: "same_input ?t t" by (simp_all add: same_input_def)
  have s: "screen_of ?t w = (screen_of t v)\<lparr>grid := (grid (screen_of t v))[p - 1 := 0], cursor := p - 1\<rparr>"
    using grid_upd [OF _ w(3)] p by (simp only: screen_of_def pos st) (simp add: nat_diff_distrib)
  have wft: "0 \<le> screen_x ?t" "screen_x ?t < 80" "0 \<le> screen_y ?t" "screen_y ?t \<le> 25"
    "start_line_ptr ?t \<le> 80 * screen_y ?t + screen_x ?t"
    using wf False p p0 by (auto simp: wf_cursor_def)
  have "spec_advance (screen_of ?t w) = screen_of ?t w"
    using s p by (simp add: spec_advance_def)
  with scroll_if_full_refines [OF wft w(2)] obtain t' v' where
    r: "scroll_if_full ?t w = Some (t', v', False)" "same_input t' ?t" "wf_cursor t'" "length v' = 4000"
    "screen_of t' v' = screen_of ?t w" by auto
  have "emit BS t v = Some (t', v', False)"
    using False w(1) r(1) by (simp only: emit_def Let_def pos) (simp add: mult.commute cong: if_cong)
  moreover have "same_input t' t" using r(2) in_t by (simp only: same_input_def)
  moreover have "spec_put BS (screen_of t v) = screen_of ?t w"
    using p(3) s by (simp add: spec_put_def p_def)
  ultimately show ?thesis using r by auto
qed

lemma emit_char:
  assumes wf: "wf_cursor t" and len: "length v = 4000" and c: "c \<noteq> NL" "c \<noteq> CR" "c \<noteq> BS"
  shows "emits_spec c t v"
proof -
  define p where "p = cursor (screen_of t v)"
  have p: "80 * screen_y t + screen_x t = int p" "p < 2000" using cursor_pos [OF wf, of v] by (auto simp: p_def)
  obtain w where w: "aset v (2 * int p) c = Some w" "length w = 4000" "cells w = (cells v)(p := c)"
    using set_cell [OF len, of p c] p by auto
  obtain u where u: "aset w (2 * int p + 1) 7 = Some u" "length u = 4000" "cells u = cells w"
    using set_attr [OF w(2), of p 7] p by auto
  let ?t = "if 80 \<le> screen_x t + 1 then t\<lparr>screen_x := (screen_x t + 1) mod 80, screen_y := screen_y t + 1\<rparr>
            else t\<lparr>screen_x := screen_x t + 1\<rparr>"
  have x: "80 \<le> screen_x t + 1 \<Longrightarrow> screen_x t = 79" using wf by (simp add: wf_cursor_def)
  have pos: "80 * screen_y ?t + screen_x ?t = int (p + 1)" using p x by auto
  have st: "start_line_ptr ?t = start_line_ptr t" and in_t: "same_input ?t t" by (simp_all add: same_input_def)
  have wft: "0 \<le> screen_x ?t" "screen_x ?t < 80" "0 \<le> screen_y ?t" "screen_y ?t \<le> 25"
    "start_line_ptr ?t \<le> 80 * screen_y ?t + screen_x ?t"
    using wf p x by (auto simp: wf_cursor_def)
  have s: "screen_of ?t u = (screen_of t v)\<lparr>grid := (grid (screen_of t v))[p := c], cursor := p + 1\<rparr>"
    using grid_upd [OF p(2) w(3)] by (simp only: screen_of_def pos st u(3)) (simp add: nat_add_distrib)
  from scroll_if_full_refines [OF wft u(2)] obtain t' v' where
    r: "scroll_if_full ?t u = Some (t', v', False)" "same_input t' ?t" "wf_cursor t'" "length v' = 4000"
    "screen_of t' v' = spec_advance (screen_of ?t u)" by auto
  have "emit c t v = Some (t', v', False)"
    using c w(1) u(1) r(1) by (simp add: emit_def Let_def p(1) cong: if_cong)
  moreover have "same_input t' t" using r(2) in_t by (simp only: same_input_def)
  moreover have "spec_put c (screen_of t v) = spec_advance (screen_of ?t u)"
    using c s by (simp add: spec_put_def p_def)
  ultimately show ?thesis using r by auto
qed

text \<open>
  The body of the output routines implements the abstract screen. It completes unless a backspace
  arrives at the top left corner while the current line started above the screen.
\<close>

lemma emit_refines:
  assumes "wf_cursor t" and "length v = 4000"
    and "c = BS \<Longrightarrow> cursor (screen_of t v) = 0 \<Longrightarrow> start_line_ptr t = 0"
  shows "emits_spec c t v"
proof -
  consider "c = NL \<or> c = CR" | "c = BS" | "c \<noteq> NL" "c \<noteq> CR" "c \<noteq> BS" by blast
  then show ?thesis
  proof cases
    case 1
    with assms(1,2) show ?thesis by (rule emit_newline)
  next
    case 2
    with emit_backspace [OF assms(1,2)] assms(3) show ?thesis by simp
  next
    case 3
    with assms(1,2) show ?thesis by (rule emit_char)
  qed
qed

section \<open>The console invariant and output on the whole state\<close>

definition wf_terminal :: "terminal \<Rightarrow> bool" where
  "wf_terminal t \<longleftrightarrow> wf_cursor t \<and> length (video_memory t) = 4000 \<and> length (key_buf t) = 128"

definition wf_console :: "'a console_scheme \<Rightarrow> bool" where
  "wf_console s \<longleftrightarrow> length (terminal_t s) = 3 \<and> (\<forall>t \<in> set (terminal_t s). wf_terminal t)
     \<and> 0 \<le> terminal_num s \<and> terminal_num s < 3
     \<and> 0 \<le> terminal_displayed s \<and> terminal_displayed s < 3 \<and> length (video_mem s) = 4000"

text \<open>
  The screen of terminal \<open>i\<close>: what video memory shows for the displayed one, its saved buffer for
  the others.
\<close>

definition term_at :: "'a console_scheme \<Rightarrow> int \<Rightarrow> terminal" where
  "term_at s i = terminal_t s ! nat i"

definition screen_buf :: "'a console_scheme \<Rightarrow> int \<Rightarrow> u8 list" where
  "screen_buf s i = (if i = terminal_displayed s then video_mem s else video_memory (term_at s i))"

definition shown :: "'a console_scheme \<Rightarrow> int \<Rightarrow> screen" where
  "shown s i = screen_of (term_at s i) (screen_buf s i)"

text \<open>
  \<open>console_frame s\<close> is everything that output does not touch. \<open>outputs S s s'\<close>: the step from \<open>s\<close> to
  \<open>s'\<close> changes only terminal contents, video memory and the port trace; it keeps the invariant; the terminal of the running process shows \<open>S\<close>; the other
  terminals show what they showed, and the input side of every terminal is as before.
\<close>

definition console_frame :: "'a console_scheme \<Rightarrow> 'a console_scheme" where
  "console_frame s = s\<lparr>ports := [], terminal_t := [], video_mem := []\<rparr>"

definition outputs :: "screen \<Rightarrow> 'a console_scheme \<Rightarrow> 'a console_scheme \<Rightarrow> bool" where
  "outputs S s s' \<longleftrightarrow> console_frame s' = console_frame s
     \<and> wf_console s' \<and> shown s' (terminal_num s) = S
     \<and> (\<forall>j. 0 \<le> j \<and> j < 3 \<longrightarrow> same_input (term_at s' j)
          ((term_at s j)\<lparr>video_memory := video_memory (term_at s' j)\<rparr>)
        \<and> (j \<noteq> terminal_num s \<longrightarrow> term_at s' j = term_at s j \<and> screen_buf s' j = screen_buf s j))"

lemma console_frameD:
  assumes "console_frame s' = console_frame s"
  shows "terminal_num s' = terminal_num s" "terminal_displayed s' = terminal_displayed s"
    "same_paging s' s" "phys s' = phys s" "eflags_IF s' = eflags_IF s"
  using arg_cong [OF assms, of terminal_num] arg_cong [OF assms, of terminal_displayed]
    arg_cong [OF assms, of phys] arg_cong [OF assms, of eflags_IF]
    arg_cong [OF assms, of PageDirectory] arg_cong [OF assms, of PageTable]
    arg_cong [OF assms, of UserPageTable] arg_cong [OF assms, of VideoPageTable]
    arg_cong [OF assms, of PageDirectory_at] arg_cong [OF assms, of PageTable_at]
    arg_cong [OF assms, of UserPageTable_at] arg_cong [OF assms, of VideoPageTable_at]
    arg_cong [OF assms, of cr0] arg_cong [OF assms, of cr3] arg_cong [OF assms, of cr4]
  by (simp_all add: console_frame_def same_paging_def)

lemma wf_console_term:
  assumes "wf_console s" and "0 \<le> i" and "i < 3"
  shows "aget (terminal_t s) i = Some (term_at s i)" and "wf_terminal (term_at s i)"
  using assms by (auto simp: wf_console_def aget_def term_at_def)

lemma wf_console_num:
  assumes "wf_console s"
  shows "0 \<le> terminal_num s" "terminal_num s < 3" "0 \<le> terminal_displayed s" "terminal_displayed s < 3"
  using assms by (auto simp: wf_console_def)

lemma screen_buf_length: "wf_console s \<Longrightarrow> 0 \<le> i \<Longrightarrow> i < 3 \<Longrightarrow> length (screen_buf s i) = 4000"
  using wf_console_term [of s i] by (auto simp: screen_buf_def wf_terminal_def wf_console_def)

lemma set_terminal_Some:
  "wf_console s \<Longrightarrow> 0 \<le> i \<Longrightarrow> i < 3 \<Longrightarrow> set_terminal i t s = Some (s\<lparr>terminal_t := (terminal_t s)[nat i := t]\<rparr>)"
  by (simp add: set_terminal_def aset_def wf_console_def)

lemma wf_console_upd:
  assumes "wf_console s" and "wf_terminal t" and "length v = 4000"
  shows "wf_console (s\<lparr>terminal_t := (terminal_t s)[nat i := t], video_mem := v\<rparr>)"
  using assms set_update_subset_insert [of "terminal_t s" "nat i" t]
  by (auto simp: wf_console_def)

lemma wf_console_ports [simp]: "wf_console (s\<lparr>ports := ps\<rparr>) = wf_console s"
  by (simp add: wf_console_def)

lemma shown_ports [simp]: "shown (s\<lparr>ports := ps\<rparr>) = shown s" "screen_buf (s\<lparr>ports := ps\<rparr>) = screen_buf s"
  "term_at (s\<lparr>ports := ps\<rparr>) = term_at s"
  by (auto simp: shown_def screen_buf_def term_at_def fun_eq_iff)

text \<open>The cursor position goes to the VGA controller in two register writes.\<close>

definition cursor_events :: "nat \<Rightarrow> io_event list" where
  "cursor_events p = [Outw 0x03D4 (push_bit 8 (of_nat p) OR 0x0F), Outw 0x03D4 ((of_nat p AND 0xFF00) OR 0x0E)]"

lemma draw_cursor_Some:
  assumes "wf_console s"
  shows "draw_cursor s = Some (s\<lparr>ports := ports s @ cursor_events (cursor (shown s (terminal_displayed s)))\<rparr>)"
proof -
  let ?t = "term_at s (terminal_displayed s)"
  have "wf_cursor ?t"
    using wf_console_term(2) [OF assms] wf_console_num [OF assms] by (simp add: wf_terminal_def)
  from cursor_pos(1) [OF this, of "screen_buf s (terminal_displayed s)", symmetric]
  have "(word_of_int (80 * screen_y ?t + screen_x ?t) :: u16) = of_nat (cursor (shown s (terminal_displayed s)))"
    by (simp only: shown_def of_int_of_nat_eq)
  then show ?thesis
    using wf_console_term(1) [OF assms] wf_console_num [OF assms]
    by (simp add: draw_cursor_def cursor_events_def outw_def Let_def)
qed

text \<open>The only byte that output cannot handle: a backspace at the top left of a line from above.\<close>

definition put_safe :: "u8 \<Rightarrow> screen \<Rightarrow> bool" where
  "put_safe c S \<longleftrightarrow> (c = BS \<longrightarrow> cursor S = 0 \<longrightarrow> line_start S = 0)"

lemma emit_shown:
  assumes "wf_console s" and "0 \<le> i" and "i < 3" and "put_safe c (shown s i)"
  obtains t v e where "emit c (term_at s i) (screen_buf s i) = Some (t, v, e)"
    "same_input t (term_at s i)" "wf_terminal t" "length v = 4000" "screen_of t v = spec_put c (shown s i)"
proof -
  have "wf_cursor (term_at s i)" "length (video_memory (term_at s i)) = 4000" "length (key_buf (term_at s i)) = 128"
    using wf_console_term(2) [OF assms(1-3)] by (auto simp: wf_terminal_def)
  moreover have "c = BS \<Longrightarrow> cursor (shown s i) = 0 \<Longrightarrow> start_line_ptr (term_at s i) = 0"
    using assms(4) by (simp add: put_safe_def shown_def screen_of_def)
  ultimately show ?thesis
    using emit_refines [of "term_at s i" "screen_buf s i" c] screen_buf_length [OF assms(1-3)] that
    by (auto simp: shown_def wf_terminal_def same_input_def)
qed

lemma putc2screen_outputs:
  assumes wf: "wf_console s" and safe: "put_safe c (shown s (terminal_displayed s))"
  shows "\<exists>t s'. putc2screen c s = Some s' \<and> console_frame s' = console_frame s
    \<and> terminal_t s' = (terminal_t s)[nat (terminal_displayed s) := t]
    \<and> same_input t (term_at s (terminal_displayed s)) \<and> wf_terminal t \<and> length (video_mem s') = 4000
    \<and> screen_of t (video_mem s') = spec_put c (shown s (terminal_displayed s))"
proof -
  let ?d = "terminal_displayed s"
  note d = wf_console_num(3,4) [OF wf]
  obtain t v e where e: "emit c (term_at s ?d) (video_mem s) = Some (t, v, e)" "same_input t (term_at s ?d)"
    "wf_terminal t" "length v = 4000" "screen_of t v = spec_put c (shown s ?d)"
    using emit_shown [OF wf d safe] by (auto simp: screen_buf_def)
  let ?s = "s\<lparr>terminal_t := (terminal_t s)[nat ?d := t], video_mem := v\<rparr>"
  have wf': "wf_console ?s" using wf_console_upd [OF wf e(3,4)] by simp
  have "set_terminal ?d t (s\<lparr>video_mem := v\<rparr>) = Some ?s"
    using set_terminal_Some [of "s\<lparr>video_mem := v\<rparr>" ?d t] wf d e(4) by (simp add: wf_console_def)
  then have "putc2screen c s = (if e then Some ?s else draw_cursor ?s)"
    using e(1) wf_console_term(1) [OF wf d] by (simp add: putc2screen_def)
  moreover have "draw_cursor ?s = Some (?s\<lparr>ports := ports s @ cursor_events (cursor (shown ?s ?d))\<rparr>)"
    using draw_cursor_Some [OF wf'] by simp
  ultimately show ?thesis using e by (cases e) (auto simp: console_frame_def)
qed

text \<open>A step that replaces the terminal of the running process, in the foreground or in the background.\<close>

lemma outputs_term:
  assumes wf: "wf_console s" and frame: "console_frame s' = console_frame s"
    and ts: "terminal_t s' = (terminal_t s)[nat (terminal_num s) := t]"
    and t: "wf_terminal t" "same_input t ((term_at s (terminal_num s))\<lparr>video_memory := video_memory t\<rparr>)"
    and v: "length (video_mem s') = 4000"
    and fg: "terminal_num s = terminal_displayed s \<Longrightarrow> screen_of t (video_mem s') = S"
    and bg: "terminal_num s \<noteq> terminal_displayed s \<Longrightarrow> video_mem s' = video_mem s \<and> screen_of t (video_memory t) = S"
  shows "outputs S s s'"
proof -
  have len: "length (terminal_t s) = 3" using wf by (simp add: wf_console_def)
  note n = wf_console_num [OF wf] and f = console_frameD(1,2) [OF frame]
  have new: "term_at s' (terminal_num s) = t" using n len ts by (simp add: term_at_def)
  have old: "term_at s' j = term_at s j" if "0 \<le> j" "j \<noteq> terminal_num s" for j
    using that n ts by (simp add: term_at_def nth_list_update eq_nat_nat_iff)
  have "wf_console s'"
    using wf_console_upd [OF wf t(1) v, of "terminal_num s"] f ts by (simp add: wf_console_def)
  moreover have "shown s' (terminal_num s) = S"
    using new fg bg f by (simp add: shown_def screen_buf_def)
  moreover have "screen_buf s' j = screen_buf s j" if "0 \<le> j" "j \<noteq> terminal_num s" for j
    using old [OF that] bg that f by (auto simp: screen_buf_def)
  moreover have "same_input (term_at s' j) ((term_at s j)\<lparr>video_memory := video_memory (term_at s' j)\<rparr>)"
    if "0 \<le> j" for j
    using new old [OF that] t(2) by (cases "j = terminal_num s") (auto simp: same_input_def)
  ultimately show ?thesis
    unfolding outputs_def using frame old by blast
qed

text \<open>
  \<open>putc\<close> writes to the terminal of the running process: on the screen when it is displayed, into
  its saved buffer otherwise.
\<close>

lemma putc_outputs:
  assumes wf: "wf_console s" and safe: "put_safe c (shown s (terminal_num s))"
  shows "\<exists>s'. putc c s = Some s' \<and> outputs (spec_put c (shown s (terminal_num s))) s s'"
proof (cases "terminal_num s = terminal_displayed s")
  case True
  with putc2screen_outputs [OF wf, of c] safe obtain t s' where
    r: "putc2screen c s = Some s'" "console_frame s' = console_frame s"
    "terminal_t s' = (terminal_t s)[nat (terminal_num s) := t]"
    "same_input t (term_at s (terminal_num s))" "wf_terminal t" "length (video_mem s') = 4000"
    "screen_of t (video_mem s') = spec_put c (shown s (terminal_num s))" by auto
  have "outputs (spec_put c (shown s (terminal_num s))) s s'"
    by (rule outputs_term [OF wf r(2,3)]) (use r True in \<open>auto simp: same_input_def\<close>)
  with True r(1) show ?thesis by (simp add: putc_def)
next
  case False
  let ?n = "terminal_num s"
  note n = wf_console_num [OF wf]
  from emit_shown [OF wf n(1,2) safe] False obtain t v e where
    e: "emit c (term_at s ?n) (video_memory (term_at s ?n)) = Some (t, v, e)" "same_input t (term_at s ?n)"
      "wf_terminal t" "length v = 4000" "screen_of t v = spec_put c (shown s ?n)"
    by (auto simp: screen_buf_def)
  let ?t = "t\<lparr>video_memory := v\<rparr>"
  have "putc c s = Some (s\<lparr>terminal_t := (terminal_t s)[nat ?n := ?t]\<rparr>)"
    using False e(1) n wf_console_term(1) [OF wf n(1,2)] set_terminal_Some [OF wf n(1,2)]
    by (simp add: putc_def)
  moreover have "outputs (spec_put c (shown s ?n)) s (s\<lparr>terminal_t := (terminal_t s)[nat ?n := ?t]\<rparr>)"
    by (rule outputs_term [OF wf, where t = ?t])
       (use e wf False in \<open>auto simp: wf_console_def wf_terminal_def wf_cursor_def same_input_def
          screen_of_def console_frame_def\<close>)
  ultimately show ?thesis by simp
qed

lemma outputs_trans:
  assumes "outputs S s s'" and "outputs S' s' s''"
  shows "outputs S' s s''"
proof -
  from assms have "terminal_num s' = terminal_num s"
    by (auto simp: outputs_def dest: console_frameD)
  with assms show ?thesis
    unfolding outputs_def by (auto simp: same_input_def)
qed

lemma outputs_refl: "wf_console s \<Longrightarrow> outputs (shown s (terminal_num s)) s s"
  by (simp add: outputs_def same_input_def)

lemma outputs_wf: "outputs S s s' \<Longrightarrow> wf_console s' \<and> shown s' (terminal_num s') = S \<and> terminal_num s' = terminal_num s
  \<and> terminal_displayed s' = terminal_displayed s"
  by (auto simp: outputs_def dest: console_frameD)

section \<open>Output of strings and formatted output\<close>

definition spec_text :: "u8 list \<Rightarrow> screen \<Rightarrow> screen" where
  "spec_text xs S = fold spec_put xs S"

lemma spec_text_simps [simp]:
  "spec_text [] S = S" "spec_text (c # xs) S = spec_text xs (spec_put c S)"
  "spec_text (xs @ ys) S = spec_text ys (spec_text xs S)"
  by (simp_all add: spec_text_def)

text \<open>\<open>prints xs f s\<close>: the operation \<open>f\<close> completes and shows the text \<open>xs\<close> on the running terminal.\<close>

definition prints :: "u8 list \<Rightarrow> ('a console_scheme \<Rightarrow> 'a console_scheme option) \<Rightarrow> 'a console_scheme \<Rightarrow> bool" where
  "prints xs f s \<longleftrightarrow> (\<exists>s'. f s = Some s' \<and> outputs (spec_text xs (shown s (terminal_num s))) s s')"

lemma prints_nil: "wf_console s \<Longrightarrow> prints [] Some s"
  by (simp add: prints_def outputs_refl)

lemma prints_seq:
  assumes "prints xs f s" and "\<And>s'. wf_console s' \<Longrightarrow> prints ys g s'"
  shows "prints (xs @ ys) (\<lambda>s. do { s \<leftarrow> f s; g s }) s"
proof -
  from assms(1) obtain s' where s': "f s = Some s'" "outputs (spec_text xs (shown s (terminal_num s))) s s'"
    by (auto simp: prints_def)
  from outputs_wf [OF s'(2)] assms(2) [of s'] obtain s'' where
    "g s' = Some s''" "outputs (spec_text ys (shown s' (terminal_num s'))) s' s''" by (auto simp: prints_def)
  with s' outputs_wf [OF s'(2)] outputs_trans [OF s'(2)] show ?thesis by (auto simp: prints_def)
qed

lemma prints_putc: "wf_console s \<Longrightarrow> c \<noteq> BS \<Longrightarrow> prints [c] (putc c) s"
  using putc_outputs [of s c] by (simp add: prints_def put_safe_def)

lemma puts_loop_outputs:
  assumes "cstr_at str xs" and "BS \<notin> set xs" and "i \<le> length xs" and "wf_console s"
  shows "\<exists>s'. puts_loop str i s = Some (length xs, s')
    \<and> outputs (spec_text (drop i xs) (shown s (terminal_num s))) s s'"
  using assms(3,4)
proof (induction "length xs - i" arbitrary: i s)
  case 0
  with assms(1) show ?case
    by (subst puts_loop.simps) (simp add: cstr_at_def outputs_refl)
next
  case (Suc k)
  then have i: "i < length xs" by simp
  then have c: "str i = Some (xs ! i)" "xs ! i \<noteq> 0" "xs ! i \<noteq> BS"
    using assms(1,2) cstr_at_nonzero [OF assms(1)] by (auto simp: cstr_at_def) (metis nth_mem)
  from prints_putc [OF Suc.prems(2) c(3)] obtain s1 where
    s1: "putc (xs ! i) s = Some s1" "outputs (spec_put (xs ! i) (shown s (terminal_num s))) s s1"
    by (auto simp: prints_def)
  have k: "k = length xs - Suc i" using Suc.hyps(2) by simp
  from Suc.hyps(1) [OF k, of s1] i outputs_wf [OF s1(2)] obtain s2 where
    "puts_loop str (Suc i) s1 = Some (length xs, s2)"
    "outputs (spec_text (drop (Suc i) xs) (shown s1 (terminal_num s1))) s1 s2" by auto
  with c s1 outputs_wf [OF s1(2)] outputs_trans [OF s1(2)] i show ?case
    by (subst puts_loop.simps) (auto simp: Cons_nth_drop_Suc [symmetric])
qed

lemma puts_outputs:
  assumes "cstr_at str xs" and "BS \<notin> set xs" and "wf_console s"
  shows "\<exists>s'. puts str s = Some (length xs, s') \<and> outputs (spec_text xs (shown s (terminal_num s))) s s'"
  using puts_loop_outputs [OF assms(1,2) _ assms(3), of 0] by (simp add: puts_def)

lemma prints_puts:
  assumes "cstr_at str xs" and "BS \<notin> set xs" and "wf_console s"
  shows "prints xs (\<lambda>s. do { (n, s) \<leftarrow> puts str s; Some s }) s"
  using puts_outputs [OF assms] by (auto simp: prints_def)

section \<open>Clearing the screen\<close>

definition blank_screen :: screen where
  "blank_screen = \<lparr>grid = replicate 2000 0x20, cursor = 0, line_start = 0\<rparr>"

lemma screen_of_cleared:
  assumes "\<forall>i < 2000. cells w i = 0x20 \<and> attrs w i = ATTRIB"
  shows "screen_of (t\<lparr>screen_x := 0, screen_y := 0, start_line_ptr := 0\<rparr>) w = blank_screen"
proof -
  have "map (cells w) [0..<2000] = replicate 2000 0x20"
    by (rule nth_equalityI) (use assms in auto)
  then show ?thesis by (simp add: screen_of_def blank_screen_def)
qed

lemma outputs_draw_cursor: "outputs S s s' \<Longrightarrow> \<exists>s''. draw_cursor s' = Some s'' \<and> outputs S s s''"
  using draw_cursor_Some [of s'] by (auto simp: outputs_def console_frame_def)

lemma clear_outputs:
  assumes wf: "wf_console s"
  shows "\<exists>s'. clear s = Some s' \<and> outputs blank_screen s s'"
proof -
  let ?n = "terminal_num s"
  note n = wf_console_num [OF wf]
  let ?home = "\<lambda>t. t\<lparr>screen_x := 0, screen_y := 0, start_line_ptr := 0\<rparr>"
  have len: "length (terminal_t s) = 3" using wf by (simp add: wf_console_def)
  from clear_cells_spec [OF screen_buf_length [OF wf n(1,2)]] obtain w where
    w: "clear_cells (screen_buf s ?n) = Some w" "length w = 4000"
      "\<forall>i < 2000. cells w i = 0x20 \<and> attrs w i = ATTRIB" by blast
  have wft: "wf_terminal (term_at s ?n)" by (rule wf_console_term(2) [OF wf n(1,2)])
  let ?t = "if ?n = terminal_displayed s then ?home (term_at s ?n) else ?home ((term_at s ?n)\<lparr>video_memory := w\<rparr>)"
  let ?v = "if ?n = terminal_displayed s then w else video_mem s"
  let ?s = "s\<lparr>terminal_t := (terminal_t s)[nat ?n := ?t], video_mem := ?v\<rparr>"
  have comm: "s\<lparr>video_mem := w, terminal_t := ts\<rparr> = s\<lparr>terminal_t := ts, video_mem := w\<rparr>" for ts
    by simp
  have "outputs blank_screen s ?s"
  proof (rule outputs_term [OF wf])
    show "length (video_mem ?s) = 4000" using wf w by (simp add: wf_console_def)
    show "wf_terminal ?t" using wft w(2) by (auto simp: wf_terminal_def wf_cursor_def)
  qed (use screen_of_cleared [OF w(3)] in \<open>auto simp: console_frame_def same_input_def\<close>)
  moreover have "clear s = draw_cursor ?s"
    using w(1) n len wf_console_term(1) [OF wf n(1,2)]
    by (cases "?n = terminal_displayed s")
       (simp_all add: clear_def set_terminal_def aset_def aget_def screen_buf_def term_at_def comm)
  ultimately show ?thesis using outputs_draw_cursor [of blank_screen s ?s] by metis
qed

section \<open>Properties of the console\<close>

text \<open>A console with three blank terminals, the first one running and displayed.\<close>

definition blank_terminal :: terminal where
  "blank_terminal = \<lparr>video_memory = replicate 4000 0, key_buf = replicate 128 0, num_buf = 0, buf_flag = 0,
     screen_x = 0, screen_y = 0, start_line_ptr = 0, process_num = 0, flag = 0, total_process = 0\<rparr>"

definition blank_console :: "'a \<Rightarrow> 'a console_scheme" where
  "blank_console x = blank_vm \<lparr>master_mask = 0xFF, slave_mask = 0xFF,
     terminal_t = [blank_terminal, blank_terminal, blank_terminal], terminal_num = 0,
     terminal_displayed = 0, video_mem = replicate 4000 0, \<dots> = x\<rparr>"

lemmas blank_defs = blank_console_def blank_vm_def

lemma wf_blank_terminal: "wf_terminal blank_terminal"
  by (simp add: blank_terminal_def wf_terminal_def wf_cursor_def)

lemma wf_blank_console: "wf_console (blank_console x)"
  using wf_blank_terminal by (simp add: blank_defs wf_console_def)

lemma shown_blank: "cursor (shown (blank_console x) 0) = 0" "line_start (shown (blank_console x) 0) = 0"
  "terminal_num (blank_console x) = 0" "terminal_displayed (blank_console x) = 0"
  by (simp_all add: shown_def screen_of_def term_at_def blank_defs blank_terminal_def)

text \<open>
  Claim C18. \<open>putc\<close> implements the abstract screen: on a well-formed console it completes for every
  byte (a backspace that would leave the buffer apart), the terminal of the running process then
  shows what the specification of that byte says (new line, deletion, character, wrap-around,
  scrolling), the other two terminals show what they showed, the kernel's memory and the input side
  of the terminals are untouched, and the console is well-formed again.
\<close>

theorem putc_refines_screen:
  assumes "wf_console s" and "put_safe c (shown s (terminal_num s))"
  shows "\<exists>s'. putc c s = Some s' \<and> wf_console s'
    \<and> shown s' (terminal_num s) = spec_put c (shown s (terminal_num s))
    \<and> (\<forall>j. 0 \<le> j \<and> j < 3 \<and> j \<noteq> terminal_num s \<longrightarrow> shown s' j = shown s j)
    \<and> (\<forall>j. 0 \<le> j \<and> j < 3 \<longrightarrow> key_buf (term_at s' j) = key_buf (term_at s j) \<and> num_buf (term_at s' j) = num_buf (term_at s j))
    \<and> phys s' = phys s \<and> terminal_num s' = terminal_num s \<and> terminal_displayed s' = terminal_displayed s"
proof -
  from putc_outputs [OF assms] obtain s' where s': "putc c s = Some s'"
    "outputs (spec_put c (shown s (terminal_num s))) s s'" by blast
  then have "console_frame s' = console_frame s" by (simp add: outputs_def)
  from s' console_frameD [OF this] show ?thesis
    by (auto simp: outputs_def shown_def same_input_def)
qed

theorem putc_refines_screen_witness:
  "\<exists>s'. putc NL (blank_console ()) = Some s' \<and> wf_console s'
    \<and> shown s' 0 = spec_put NL (shown (blank_console ()) 0)"
  using putc_refines_screen [of "blank_console ()" NL] wf_blank_console [of "()"]
  by (auto simp: put_safe_def shown_blank)

text \<open>
  \<open>clear\<close> completes on every well-formed console; the terminal of the running process
  becomes blank with the cursor at the top left, and the other terminals show what they showed.
\<close>

theorem clear_blanks_screen:
  assumes "wf_console s"
  shows "\<exists>s'. clear s = Some s' \<and> wf_console s' \<and> shown s' (terminal_num s) = blank_screen
    \<and> (\<forall>j. 0 \<le> j \<and> j < 3 \<and> j \<noteq> terminal_num s \<longrightarrow> shown s' j = shown s j)"
  using clear_outputs [OF assms] by (auto simp: outputs_def shown_def)

theorem clear_blanks_screen_witness:
  "\<exists>s'. clear (blank_console ()) = Some s' \<and> shown s' 0 = blank_screen"
  using clear_blanks_screen [OF wf_blank_console [of "()"]] by (auto simp: shown_blank)

text \<open>
  The cursor registers: \<open>draw_cursor\<close> writes register 0x0F (low byte) and register 0x0E
  (high byte) of the VGA controller, and the two bytes together are the offset of the cursor of the
  displayed terminal.
\<close>

theorem draw_cursor_position:
  assumes "wf_console s"
  shows "\<exists>lo hi. draw_cursor s = Some (s\<lparr>ports := ports s @ [Outw 0x03D4 (push_bit 8 (ucast lo) OR 0x0F),
      Outw 0x03D4 (push_bit 8 (ucast hi) OR 0x0E)]\<rparr>)
    \<and> unat (hi :: u8) * 256 + unat (lo :: u8) = cursor (shown s (terminal_displayed s))"
proof -
  let ?p = "cursor (shown s (terminal_displayed s))"
  have "?p < 2000"
    using cursor_pos(2) wf_console_term(2) [OF assms wf_console_num(3,4) [OF assms]]
    by (simp add: shown_def wf_terminal_def)
  then have u: "unat (of_nat ?p :: u16) = ?p" by (simp add: unat_of_nat)
  let ?lo = "ucast (of_nat ?p :: u16) :: u8" and ?hi = "ucast (drop_bit 8 (of_nat ?p :: u16)) :: u8"
  have "push_bit 8 (of_nat ?p) = (push_bit 8 (ucast ?lo) :: u16)"
    by (rule bit_word_eqI) (auto simp: bit_simps)
  moreover have "of_nat ?p AND 0xFF00 = (push_bit 8 (ucast ?hi) :: u16)"
  proof -
    have "(0xFF00 :: u16) = NOT (mask 8)" by code_simp
    then have "of_nat ?p AND 0xFF00 = push_bit 8 (drop_bit 8 (of_nat ?p :: u16))" by (simp only: and_not_mask)
    also have "\<dots> = push_bit 8 (ucast ?hi)" by (rule bit_word_eqI) (auto simp: bit_simps)
    finally show ?thesis .
  qed
  moreover have "unat ?hi * 256 + unat ?lo = ?p"
  proof -
    have "unat ?lo = ?p mod 256" by (simp add: unsigned_ucast_eq take_bit_eq_mod u)
    moreover have "unat ?hi = ?p div 256"
      using \<open>?p < 2000\<close> by (simp add: unsigned_ucast_eq take_bit_eq_mod unsigned_drop_bit_eq u drop_bit_eq_div [where 'a = nat])
    ultimately show ?thesis by simp
  qed
  ultimately show ?thesis using draw_cursor_Some [OF assms] by (auto simp: cursor_events_def)
qed

theorem draw_cursor_position_witness:
  "\<exists>lo hi. draw_cursor (blank_console ()) = Some ((blank_console ())\<lparr>ports := [Outw 0x03D4 (push_bit 8 (ucast lo) OR 0x0F),
      Outw 0x03D4 (push_bit 8 (ucast hi) OR 0x0E)]\<rparr>) \<and> unat (hi :: u8) * 256 + unat (lo :: u8) = 0"
  using draw_cursor_position [OF wf_blank_console [of "()"]] by (simp add: shown_blank) (simp add: blank_defs)

text \<open>
  A backspace undoes a character: after \<open>putc(c)\<close> of an ordinary character that does not
  scroll the screen, \<open>putc\<close> of a backspace brings the cursor back and blanks the cell.
\<close>

theorem putc_backspace_undoes:
  assumes "wf_console s" and "c \<notin> {NL, CR, BS}" and "cursor (shown s (terminal_num s)) < 1999"
  shows "\<exists>s' s''. putc c s = Some s' \<and> putc BS s' = Some s'' \<and> wf_console s''
    \<and> shown s'' (terminal_num s) = (shown s (terminal_num s))
        \<lparr>grid := (grid (shown s (terminal_num s)))[cursor (shown s (terminal_num s)) := 0]\<rparr>"
proof -
  let ?S = "shown s (terminal_num s)"
  have put: "spec_put c ?S = ?S\<lparr>grid := (grid ?S)[cursor ?S := c], cursor := cursor ?S + 1\<rparr>"
    using assms(2,3) by (simp add: spec_put_def spec_advance_def)
  have "line_start ?S \<le> int (cursor ?S)"
    using wf_console_term(2) [OF assms(1) wf_console_num(1,2) [OF assms(1)]]
    by (simp add: shown_def screen_of_def wf_terminal_def wf_cursor_def)
  then have del: "spec_put BS (spec_put c ?S) = ?S\<lparr>grid := (grid ?S)[cursor ?S := 0]\<rparr>"
    unfolding put by (simp add: spec_put_def)
  from putc_outputs [OF assms(1), of c] assms(2) obtain s' where
    s': "putc c s = Some s'" "outputs (spec_put c ?S) s s'" by (auto simp: put_safe_def)
  with outputs_wf [OF s'(2)] putc_outputs [of s' BS] obtain s'' where
    s'': "putc BS s' = Some s''" "outputs (spec_put BS (spec_put c ?S)) s' s''"
    by (auto simp: put_safe_def put)
  with s' outputs_wf [OF s'(2)] outputs_wf [OF s''(2)] del show ?thesis by auto
qed

theorem putc_backspace_undoes_witness:
  "\<exists>s' s''. putc 65 (blank_console ()) = Some s' \<and> putc BS s' = Some s'' \<and> wf_console s''"
  using putc_backspace_undoes [OF wf_blank_console [of "()"], of 65] by (auto simp: shown_blank)

text \<open>
  A backspace can leave the buffer: when the line being typed has scrolled off the top
  (its start is above the screen) and the cursor is at the top left, \<open>putc\<close> of a backspace stores below the
  first byte of the buffer instead of stopping.
\<close>

theorem putc_backspace_leaves_buffer:
  assumes "wf_console s" and "cursor (shown s (terminal_num s)) = 0" and "line_start (shown s (terminal_num s)) < 0"
  shows "putc BS s = None"
proof -
  let ?t = "term_at s (terminal_num s)"
  note n = wf_console_num [OF assms(1)]
  have "wf_cursor ?t" using wf_console_term(2) [OF assms(1) n(1,2)] by (simp add: wf_terminal_def)
  then have "screen_x ?t = 0" "screen_y ?t = 0" "start_line_ptr ?t \<noteq> 0"
    using assms(2,3) by (auto simp: shown_def screen_of_def wf_cursor_def)
  then have "emit BS ?t v = None" for v by (simp add: emit_def aset_def)
  then show ?thesis
    using wf_console_term(1) [OF assms(1)] n by (auto simp: putc_def putc2screen_def)
qed

theorem putc_backspace_leaves_buffer_witness:
  "putc BS ((blank_console ())\<lparr>terminal_t := [blank_terminal\<lparr>start_line_ptr := -80\<rparr>, blank_terminal, blank_terminal]\<rparr>) = None"
  by (rule putc_backspace_leaves_buffer)
     (simp_all add: wf_console_def wf_terminal_def wf_cursor_def blank_defs blank_terminal_def
        shown_def screen_of_def term_at_def)

end
