(* ===== verification/Printf.thy ===== *)
theory Printf
  imports Console
begin

text \<open>
  Formatted output, \<open>printf\<close> of student-distrib/lib.c: the conversions, the format loop, and what
  is printed for a format that is a sequence of plain characters and conversions.
\<close>

text \<open>
  \<open>printf\<close>. The format is given with its terminating NUL, the variable arguments as the 32-bit words
  that follow it on the stack; \<open>str\<close> dereferences the string pointers among them. The uninitialised
  conversion buffers are filled before they are read, so their first contents do not matter.
\<close>

definition conv_buf :: "nat \<Rightarrow> u8 list" where
  "conv_buf n = replicate n 0"

definition format_u :: "u32 \<Rightarrow> u8 list option" where
  "format_u w = itoa w (conv_buf 36) 10"

definition format_x :: "u32 \<Rightarrow> u8 list option" where
  "format_x w = itoa w (conv_buf 64) 16"

definition format_alt_x :: "u32 \<Rightarrow> u8 list option" where
  "format_alt_x w = do {
     let buf = conv_buf 64;
     rest \<leftarrow> itoa w (drop 8 buf) 16;
     let buf = take 8 buf @ rest;
     starting_index \<leftarrow> strlen (arr (drop 8 buf));
     buf \<leftarrow> for_range starting_index 8 (\<lambda>i buf. aset buf (int i) (byte_of (CHR ''0''))) buf;
     Some (drop starting_index buf)
   }"

definition format_d :: "u32 \<Rightarrow> u8 list option" where
  "format_d w =
     (if sint w < 0 then do {
        buf \<leftarrow> aset (conv_buf 36) 0 (byte_of (CHR ''-''));
        rest \<leftarrow> itoa (- w) (drop 1 buf) 10;
        Some (take 1 buf @ rest)
      } else itoa w (conv_buf 36) 10)"

datatype printf_mode = Plain | Conversion bool

fun printf_loop ::
  "(u32 \<Rightarrow> cstr) \<Rightarrow> printf_mode \<Rightarrow> u8 list \<Rightarrow> u32 list \<Rightarrow> 'a console_scheme \<Rightarrow> 'a console_scheme option" where
  "printf_loop str m [] esp s = None"
| "printf_loop str Plain (c # buf) esp s =
     (if c = 0 then Some s
      else if c = byte_of (CHR ''%'') then printf_loop str (Conversion False) buf esp s
      else do { s \<leftarrow> putc c s; printf_loop str Plain buf esp s })"
| "printf_loop str (Conversion alternate) (c # buf) esp s =
     (if c = byte_of (CHR ''%'') then do {
        s \<leftarrow> putc (byte_of (CHR ''%'')) s;
        printf_loop str Plain buf esp s
      } else if c = byte_of (CHR ''#'') then printf_loop str (Conversion True) buf esp s
      else if c \<in> {byte_of (CHR ''x''), byte_of (CHR ''u''), byte_of (CHR ''d''),
                    byte_of (CHR ''c''), byte_of (CHR ''s'')} then
        (case esp of
           [] \<Rightarrow> None
         | w # esp \<Rightarrow> do {
             s \<leftarrow> (if c = byte_of (CHR ''x'') then do {
                     text \<leftarrow> (if \<not> alternate then format_x w else format_alt_x w);
                     (n, s) \<leftarrow> puts (arr text) s; Some s
                   } else if c = byte_of (CHR ''u'') then do {
                     text \<leftarrow> format_u w; (n, s) \<leftarrow> puts (arr text) s; Some s
                   } else if c = byte_of (CHR ''d'') then do {
                     text \<leftarrow> format_d w; (n, s) \<leftarrow> puts (arr text) s; Some s
                   } else if c = byte_of (CHR ''c'') then putc (ucast w) s
                   else do { (n, s) \<leftarrow> puts (str w) s; Some s });
             printf_loop str Plain buf esp s
           })
      else printf_loop str Plain buf esp s)"

definition printf :: "(u32 \<Rightarrow> cstr) \<Rightarrow> string \<Rightarrow> u32 list \<Rightarrow> 'a console_scheme \<Rightarrow> (int \<times> 'a console_scheme) option" where
  "printf str fmt args s = do {
     s \<leftarrow> printf_loop str Plain (lit fmt @ [0]) args s;
     Some (int (length fmt), s)
   }"

text \<open>The text of a number: digits, sign, and zero padding to eight hexadecimal digits.\<close>

definition number_text :: "nat \<Rightarrow> u32 \<Rightarrow> u8 list" where
  "number_text r w = digit_chars (number_digits r (unat w))"

definition hex8_text :: "u32 \<Rightarrow> u8 list" where
  "hex8_text w = replicate (8 - length (number_text 16 w)) (byte_of (CHR ''0'')) @ number_text 16 w"

definition signed_text :: "u32 \<Rightarrow> u8 list" where
  "signed_text w = (if sint w < 0 then byte_of (CHR ''-'') # number_text 10 (- w) else number_text 10 w)"

lemma length_number_text:
  "length (number_text 10 w) \<le> 10" "length (number_text 16 w) \<le> 8"
proof -
  have "unat w < 4294967296" using unsigned_less [of w] by simp
  then show "length (number_text 10 w) \<le> 10" "length (number_text 16 w) \<le> 8"
    using length_number_digits_le [of 10 "unat w" 10] length_number_digits_le [of 16 "unat w" 8]
    by (simp_all add: number_text_def digit_chars_def)
qed

lemma number_text_clean:
  assumes "2 \<le> r" and "r \<le> 36"
  shows "0 \<notin> set (number_text r w)" and "BS \<notin> set (number_text r w)"
proof -
  have "\<forall>d \<in> set [0..<36]. lookup ! d \<noteq> 0 \<and> lookup ! d \<noteq> BS" by code_simp
  then have "\<And>d. d < 36 \<Longrightarrow> lookup ! d \<noteq> 0 \<and> lookup ! d \<noteq> BS" by simp
  moreover have "\<And>d. d \<in> set (number_digits r (unat w)) \<Longrightarrow> d < 36"
    using number_digits_less [OF assms(1)] assms(2) by (meson less_le_trans)
  ultimately show "0 \<notin> set (number_text r w)" and "BS \<notin> set (number_text r w)"
    by (force simp: number_text_def digit_chars_def)+
qed

lemma format_number:
  assumes "length buf \<ge> 12"
  shows "\<exists>ys. itoa w buf 10 = Some (number_text 10 w @ 0 # ys)"
    and "\<exists>ys. itoa w buf 16 = Some (number_text 16 w @ 0 # ys)"
  using itoa_digits [of 10 w buf] itoa_digits [of 16 w buf] length_number_text [of w] assms
  by (auto simp: number_text_def digit_chars_def)


lemma format_u_text: "\<exists>ys. format_u w = Some (number_text 10 w @ 0 # ys)"
  and format_x_text: "\<exists>ys. format_x w = Some (number_text 16 w @ 0 # ys)"
  using format_number [of "conv_buf 36" w] format_number [of "conv_buf 64" w]
  by (simp_all add: format_u_def format_x_def conv_buf_def)

lemma format_d_text: "\<exists>ys. format_d w = Some (signed_text w @ 0 # ys)"
  using format_number [of "drop 1 (conv_buf 36)" "- w"] format_number [of "conv_buf 36" w]
  by (auto simp: format_d_def signed_text_def conv_buf_def aset_def take_update_swap numeral_eq_Suc)

text \<open>The zero padding of the alternate form: the digits stand at index 8, the zeros before them.\<close>

lemma pad_zeros:
  assumes "n \<le> 8" and "8 \<le> length buf"
  shows "for_range n 8 (\<lambda>i buf. aset buf (int i) z) buf = Some (take n buf @ replicate (8 - n) z @ drop 8 buf)"
proof -
  let ?I = "\<lambda>k b. b = take n buf @ replicate (k - n) z @ drop k buf"
  have "\<exists>b. for_range n 8 (\<lambda>i buf. aset buf (int i) z) buf = Some b \<and> ?I 8 b"
  proof (rule for_range_total [where I = ?I])
    fix k b assume k: "n \<le> k" "k < 8" and b: "?I k b"
    have d: "drop k buf = buf ! k # drop (Suc k) buf" using k assms by (simp add: Cons_nth_drop_Suc)
    have "length b = length buf" using b k assms by simp
    moreover have "b[k := z] = take n buf @ replicate (Suc k - n) z @ drop (Suc k) buf"
      using b k assms by (simp add: list_update_append d Suc_diff_le replicate_append_same [symmetric])
    ultimately show "\<exists>b'. aset b (int k) z = Some b' \<and> ?I (Suc k) b'"
      using k assms by (simp add: aset_def)
  qed (use assms in auto)
  then show ?thesis by simp
qed

lemma format_alt_x_text: "\<exists>ys. format_alt_x w = Some (hex8_text w @ 0 # ys)"
proof -
  let ?n = "length (number_text 16 w)" and ?z = "byte_of (CHR ''0'')"
  obtain ys where ys: "itoa w (drop 8 (conv_buf 64)) 16 = Some (number_text 16 w @ 0 # ys)"
    using format_number(2) [of "drop 8 (conv_buf 64)" w] by (auto simp: conv_buf_def)
  let ?b = "take 8 (conv_buf 64) @ number_text 16 w @ 0 # ys"
  have l: "length (take 8 (conv_buf 64)) = 8" by (simp add: conv_buf_def)
  then have d: "drop 8 ?b = number_text 16 w @ 0 # ys" by simp
  have "strlen (arr (drop 8 ?b)) = Some ?n"
    unfolding d using number_text_clean(1) [of 16 w] by (intro strlen_arr) simp
  moreover have "for_range ?n 8 (\<lambda>i buf. aset buf (int i) ?z) ?b
      = Some (take ?n ?b @ replicate (8 - ?n) ?z @ drop 8 ?b)"
    using length_number_text(2) [of w] by (intro pad_zeros) (simp_all add: conv_buf_def)
  moreover have "length (take ?n ?b) = ?n" using length_number_text(2) [of w] l by simp
  ultimately show ?thesis using ys d
    by (simp add: format_alt_x_def hex8_text_def Let_def)
qed

lemma text_clean:
  "0 \<notin> set (number_text 10 w)" "0 \<notin> set (number_text 16 w)" "0 \<notin> set (hex8_text w)" "0 \<notin> set (signed_text w)"
  "BS \<notin> set (number_text 10 w)" "BS \<notin> set (number_text 16 w)" "BS \<notin> set (hex8_text w)" "BS \<notin> set (signed_text w)"
proof -
  have c: "byte_of (CHR ''0'') \<noteq> 0" "byte_of (CHR ''0'') \<noteq> BS" "byte_of (CHR ''-'') \<noteq> 0" "byte_of (CHR ''-'') \<noteq> BS"
    by code_simp+
  note n = number_text_clean [of 10] number_text_clean [of 16]
  show "0 \<notin> set (number_text 10 w)" "0 \<notin> set (number_text 16 w)" "BS \<notin> set (number_text 10 w)" "BS \<notin> set (number_text 16 w)"
    using n by simp_all
  show "0 \<notin> set (hex8_text w)" "0 \<notin> set (signed_text w)" "BS \<notin> set (hex8_text w)" "BS \<notin> set (signed_text w)"
    using c n by (auto simp: hex8_text_def signed_text_def simp del: byte_of_eq_0_iff)
qed

section \<open>Formats as sequences of items\<close>

datatype item =
    Chr u8
  | Percent
  | Hex u32
  | Hex8 u32
  | Unsigned u32
  | Signed u32
  | Char_arg u32
  | String_arg u32

primrec item_fmt :: "item \<Rightarrow> u8 list" where
  "item_fmt (Chr c) = [c]"
| "item_fmt Percent = lit ''%%''"
| "item_fmt (Hex w) = lit ''%x''"
| "item_fmt (Hex8 w) = lit ''%#x''"
| "item_fmt (Unsigned w) = lit ''%u''"
| "item_fmt (Signed w) = lit ''%d''"
| "item_fmt (Char_arg w) = lit ''%c''"
| "item_fmt (String_arg p) = lit ''%s''"

primrec item_args :: "item \<Rightarrow> u32 list" where
  "item_args (Chr c) = []"
| "item_args Percent = []"
| "item_args (Hex w) = [w]"
| "item_args (Hex8 w) = [w]"
| "item_args (Unsigned w) = [w]"
| "item_args (Signed w) = [w]"
| "item_args (Char_arg w) = [w]"
| "item_args (String_arg p) = [p]"

primrec item_text :: "(u32 \<Rightarrow> u8 list) \<Rightarrow> item \<Rightarrow> u8 list" where
  "item_text strs (Chr c) = [c]"
| "item_text strs Percent = lit ''%''"
| "item_text strs (Hex w) = number_text 16 w"
| "item_text strs (Hex8 w) = hex8_text w"
| "item_text strs (Unsigned w) = number_text 10 w"
| "item_text strs (Signed w) = signed_text w"
| "item_text strs (Char_arg w) = [ucast w]"
| "item_text strs (String_arg p) = strs p"

text \<open>Plain characters are not NUL or percent, string arguments are readable C strings, and no
  backspace is printed.\<close>

definition item_ok :: "(u32 \<Rightarrow> cstr) \<Rightarrow> (u32 \<Rightarrow> u8 list) \<Rightarrow> item \<Rightarrow> bool" where
  "item_ok str strs it \<longleftrightarrow> BS \<notin> set (item_text strs it)
     \<and> (case it of Chr c \<Rightarrow> c \<noteq> 0 \<and> c \<noteq> byte_of (CHR ''%'') | String_arg p \<Rightarrow> cstr_at (str p) (strs p) | _ \<Rightarrow> True)"

lemma item_chars:
  "lit ''%%'' = [37, 37]" "lit ''%x'' = [37, 120]" "lit ''%#x'' = [37, 35, 120]" "lit ''%u'' = [37, 117]"
  "lit ''%d'' = [37, 100]" "lit ''%c'' = [37, 99]" "lit ''%s'' = [37, 115]" "lit ''%'' = [37]"
  by (simp_all add: lit_def byte_of_def)

lemma conv_chars:
  "byte_of (CHR ''%'') = 37" "byte_of (CHR ''#'') = 35" "byte_of (CHR ''x'') = 120" "byte_of (CHR ''u'') = 117"
  "byte_of (CHR ''d'') = 100" "byte_of (CHR ''c'') = 99" "byte_of (CHR ''s'') = 115"
  by (simp_all add: byte_of_def)

text \<open>Printing one item, and the rest of the format after it.\<close>

definition item_step :: "(u32 \<Rightarrow> cstr) \<Rightarrow> item \<Rightarrow> 'a console_scheme \<Rightarrow> 'a console_scheme option" where
  "item_step str it s = (case it of
      Chr c \<Rightarrow> putc c s
    | Percent \<Rightarrow> putc 37 s
    | Hex w \<Rightarrow> do { text \<leftarrow> format_x w; (n, s) \<leftarrow> puts (arr text) s; Some s }
    | Hex8 w \<Rightarrow> do { text \<leftarrow> format_alt_x w; (n, s) \<leftarrow> puts (arr text) s; Some s }
    | Unsigned w \<Rightarrow> do { text \<leftarrow> format_u w; (n, s) \<leftarrow> puts (arr text) s; Some s }
    | Signed w \<Rightarrow> do { text \<leftarrow> format_d w; (n, s) \<leftarrow> puts (arr text) s; Some s }
    | Char_arg w \<Rightarrow> putc (ucast w) s
    | String_arg p \<Rightarrow> do { (n, s) \<leftarrow> puts (str p) s; Some s })"

lemma printf_item:
  assumes "item_ok str strs it"
  shows "printf_loop str Plain (item_fmt it @ buf) (item_args it @ esp) s
    = do { s \<leftarrow> item_step str it s; printf_loop str Plain buf esp s }"
  using assms
  by (cases it) (simp_all add: item_chars conv_chars item_ok_def item_step_def Option.bind_assoc
      case_prod_beta cong: Option.bind_cong)

lemma prints_converted:
  assumes "\<exists>ys. f = Some (xs @ 0 # ys)" and "0 \<notin> set xs" and "BS \<notin> set xs" and "wf_console s"
  shows "prints xs (\<lambda>s. do { text \<leftarrow> f; (n, s) \<leftarrow> puts (arr text) s; Some s }) s"
proof -
  from assms(1) obtain ys where "f = Some (xs @ 0 # ys)" ..
  with prints_puts [OF cstr_at_arr [OF assms(2)] assms(3,4), of ys] show ?thesis by simp
qed

lemma prints_item:
  assumes "item_ok str strs it" and "wf_console s"
  shows "prints (item_text strs it) (item_step str it) s"
  using assms prints_putc [OF assms(2)] text_clean format_x_text format_alt_x_text format_u_text format_d_text
  by (cases it) (auto simp: item_step_def [abs_def] item_ok_def item_chars prints_converted prints_puts)

lemma prints_format:
  assumes "\<forall>it \<in> set its. item_ok str strs it" and "wf_console s"
  shows "prints (concat (map (item_text strs) its))
    (printf_loop str Plain (concat (map item_fmt its) @ [0]) (concat (map item_args its))) s"
  using assms
proof (induction its arbitrary: s)
  case Nil
  then show ?case using prints_nil [OF Nil.prems(2)] by (simp add: prints_def)
next
  case (Cons it its)
  then have "prints (item_text strs it @ concat (map (item_text strs) its)) (\<lambda>s. do { s \<leftarrow> item_step str it s;
      printf_loop str Plain (concat (map item_fmt its) @ [0]) (concat (map item_args its)) s }) s"
    by (intro prints_seq prints_item) auto
  with Cons.prems printf_item [of str strs it "concat (map item_fmt its) @ [0]" "concat (map item_args its)" s]
  show ?case by (simp add: prints_def)
qed



text \<open>
  The text of a number determines it: reading the printed digits of \<open>%u\<close> or \<open>%x\<close> back in
  that radix gives the argument, and \<open>%#x\<close> always prints exactly eight digits.
\<close>

theorem format_round_trip:
  "(\<exists>ds ys. format_u w = Some (digit_chars ds @ 0 # ys) \<and> (\<forall>d \<in> set ds. d < 10) \<and> digits_value 10 ds = unat w)
   \<and> (\<exists>ds ys. format_x w = Some (digit_chars ds @ 0 # ys) \<and> (\<forall>d \<in> set ds. d < 16) \<and> digits_value 16 ds = unat w)
   \<and> (\<exists>ds ys. format_alt_x w = Some (digit_chars ds @ 0 # ys) \<and> length ds = 8 \<and> digits_value 16 ds = unat w)"
proof (intro conjI)
  show "\<exists>ds ys. format_u w = Some (digit_chars ds @ 0 # ys) \<and> (\<forall>d \<in> set ds. d < 10) \<and> digits_value 10 ds = unat w"
    using format_u_text [of w] number_digits_value [of 10 "unat w"] number_digits_less [of 10]
    unfolding number_text_def by auto
  show "\<exists>ds ys. format_x w = Some (digit_chars ds @ 0 # ys) \<and> (\<forall>d \<in> set ds. d < 16) \<and> digits_value 16 ds = unat w"
    using format_x_text [of w] number_digits_value [of 16 "unat w"] number_digits_less [of 16]
    unfolding number_text_def by auto
  let ?ds = "number_digits 16 (unat w)"
  let ?z = "replicate (8 - length ?ds) 0 @ ?ds"
  have "lookup ! 0 = byte_of (CHR ''0'')" by code_simp
  then have "digit_chars ?z = hex8_text w"
    by (simp add: hex8_text_def number_text_def digit_chars_def)
  moreover have "digits_value 16 (replicate k 0 @ ds) = digits_value 16 ds" for k ds
    by (induction k) (simp_all add: digits_value_def)
  moreover have "length ?z = 8"
    using length_number_text(2) [of w] by (simp add: number_text_def digit_chars_def)
  ultimately show "\<exists>ds ys. format_alt_x w = Some (digit_chars ds @ 0 # ys) \<and> length ds = 8 \<and> digits_value 16 ds = unat w"
    using format_alt_x_text [of w] number_digits_value [of 16 "unat w"] by (intro exI [of _ ?z]) simp
qed

theorem format_round_trip_witness:
  "\<exists>ds ys. format_alt_x 255 = Some (digit_chars ds @ 0 # ys) \<and> length ds = 8 \<and> digits_value 16 ds = unat (255 :: u32)"
  using format_round_trip [of 255] by blast

end
