(* ===== verification/Rtc.thy ===== *)
theory Rtc
  imports Printf
begin

text \<open>
  Interrupt lines and the real-time clock: \<open>add_irq\<close> of student-distrib/idt.c with the jump table of
  IRQ handlers, and the driver student-distrib/rtc.c. A byte read from the CMOS port is an argument
  of the operation that reads it.
\<close>

section \<open>The table of interrupt handlers\<close>

datatype irq_handler = EXC_FINISHED | Pit_handler | Keyboard_handler | Rtc_handler

record irqs = console +
  irq_handler_jumptable :: "irq_handler list"

definition add_irq :: "int \<Rightarrow> irq_handler \<Rightarrow> 'a irqs_scheme \<Rightarrow> 'a irqs_scheme option" where
  "add_irq irq_num handler s = do {
     t \<leftarrow> aset (irq_handler_jumptable s) irq_num handler;
     Some (enable_irq (word_of_int irq_num) (s\<lparr>irq_handler_jumptable := t\<rparr>))
   }"

section \<open>The clock driver\<close>

abbreviation (input) IRQ_RTC :: u32 where "IRQ_RTC \<equiv> 0x08"
abbreviation (input) RTC_PORT :: u16 where "RTC_PORT \<equiv> 0x70"
abbreviation (input) CMOS_PORT :: u16 where "CMOS_PORT \<equiv> 0x71"
abbreviation (input) RTCREG_A_DISABLE_NMI :: u8 where "RTCREG_A_DISABLE_NMI \<equiv> 0x8A"
abbreviation (input) RTCREG_B_DISABLE_NMI :: u8 where "RTCREG_B_DISABLE_NMI \<equiv> 0x8B"
abbreviation (input) RTCREG_C :: u8 where "RTCREG_C \<equiv> 0x0C"
abbreviation (input) MAX_RTC_RATE :: nat where "MAX_RTC_RATE \<equiv> 9"
abbreviation (input) MASK_L :: u8 where "MASK_L \<equiv> 0xF0"
abbreviation (input) MASK_R :: u8 where "MASK_R \<equiv> 0x0F"

record rtc = irqs +
  rtc_flag :: "int list"

definition rtc_init :: "u8 \<Rightarrow> 'a rtc_scheme \<Rightarrow> 'a rtc_scheme option" where
  "rtc_init prev s = do {
     let s = cli s;
     let s = outb RTCREG_B_DISABLE_NMI RTC_PORT s;
     let s = inb CMOS_PORT s;
     let s = outb RTCREG_B_DISABLE_NMI RTC_PORT s;
     let s = outb (prev OR 0x40) CMOS_PORT s;
     let s = sti s;
     add_irq 0x08 Rtc_handler s
   }"

definition rtc_handler :: "'a rtc_scheme \<Rightarrow> 'a rtc_scheme option" where
  "rtc_handler s = do {
     let s = cli s;
     let s = send_eoi IRQ_RTC s;
     let s = outb RTCREG_C RTC_PORT s;
     let s = inb CMOS_PORT s;
     fs \<leftarrow> for_range 0 3 (\<lambda>i fs. aset fs (int i) 0) (rtc_flag s);
     Some (sti (s\<lparr>rtc_flag := fs\<rparr>))
   }"

text \<open>\<open>evs\<close> are the interrupts that arrive during the wait.\<close>

definition rtc_read ::
  "('a rtc_scheme \<Rightarrow> 'a rtc_scheme option) list \<Rightarrow> 'a rtc_scheme \<Rightarrow>
   (int \<times> 'a rtc_scheme \<times> ('a rtc_scheme \<Rightarrow> 'a rtc_scheme option) list) option" where
  "rtc_read evs s = do {
     fs \<leftarrow> aset (rtc_flag s) (terminal_num s) 1;
     (s, evs) \<leftarrow> spin (\<lambda>s. map_option (\<lambda>f. f \<noteq> 0) (aget (rtc_flag s) (terminal_num s))) evs (s\<lparr>rtc_flag := fs\<rparr>);
     Some (0, s, evs)
   }"

text \<open>\<open>powerOfTwo\<close>: a C \<open>int\<close> shifts arithmetically to the right.\<close>

partial_function (option) powerOfTwo_loop :: "int \<Rightarrow> int option" where
  "powerOfTwo_loop n = (if n AND 1 = 0 then powerOfTwo_loop (drop_bit 1 n) else Some n)"

definition powerOfTwo :: "int \<Rightarrow> int option" where
  "powerOfTwo num = do {
     n \<leftarrow> powerOfTwo_loop num;
     let n = drop_bit 1 n;
     Some (if n = 0 then 1 else 0)
   }"

function rtc_rate_loop :: "int \<Rightarrow> nat \<Rightarrow> nat" where
  "rtc_rate_loop freq rate =
     (if freq \<noteq> 0 \<and> rate < MAX_RTC_RATE then rtc_rate_loop (drop_bit 1 freq) (rate + 1) else rate)"
  by pat_completeness auto
termination
  by (relation "measure (\<lambda>(freq, rate). MAX_RTC_RATE - rate)") auto

declare rtc_rate_loop.simps [simp del]

text \<open>The body of \<open>rtc_write\<close> after the load of the frequency; \<open>prev\<close> is the byte read from register A.\<close>

definition rtc_set_frequency :: "int \<Rightarrow> u8 \<Rightarrow> 'a rtc_scheme \<Rightarrow> (int \<times> 'a rtc_scheme) option" where
  "rtc_set_frequency freq prev s = do {
     p \<leftarrow> powerOfTwo freq;
     let freq = (if p = 0 \<or> freq > 1024 then 512 else freq);
     let freq = drop_bit 2 freq;
     let rate = (of_nat (rtc_rate_loop freq 0) :: u8);
     let s = disable_irq IRQ_RTC s;
     let s = outb RTCREG_A_DISABLE_NMI RTC_PORT s;
     let s = inb CMOS_PORT s;
     let s = outb RTCREG_A_DISABLE_NMI RTC_PORT s;
     let s = outb ((prev AND MASK_L) OR (NOT rate AND MASK_R)) CMOS_PORT s;
     let s = enable_irq IRQ_RTC s;
     Some (0, s)
   }"

definition rtc_write :: "u8 \<Rightarrow> u32 \<Rightarrow> 'a rtc_scheme \<Rightarrow> (int \<times> 'a rtc_scheme) option" where
  "rtc_write prev buf s = do {
     w \<leftarrow> load32 s buf;
     rtc_set_frequency (sint w) prev s
   }"

definition rtc_open :: "u8 \<Rightarrow> 'a rtc_scheme \<Rightarrow> (int \<times> 'a rtc_scheme) option" where
  "rtc_open prev s = do {
     (r, s) \<leftarrow> rtc_set_frequency 2 prev s;
     Some (0, s)
   }"

definition rtc_close :: "'a rtc_scheme \<Rightarrow> (int \<times> 'a rtc_scheme) option" where
  "rtc_close s = Some (0, s)"

section \<open>Powers of two\<close>

lemma int_and_1: "(n :: int) AND 1 = 0 \<longleftrightarrow> even n"
  by (simp add: and_one_eq even_iff_mod_2_eq_zero)

lemma powerOfTwo_loop_Some: "powerOfTwo_loop n = Some m \<Longrightarrow> odd m \<and> n \<noteq> 0 \<and> (\<exists>k. n = m * 2 ^ k)"
proof (erule powerOfTwo_loop.raw_induct [rotated])
  fix loop :: "int \<Rightarrow> int option" and n m
  assume IH: "\<And>n m. loop n = Some m \<Longrightarrow> odd m \<and> n \<noteq> 0 \<and> (\<exists>k. n = m * 2 ^ k)"
    and step: "(if n AND 1 = 0 then loop (drop_bit 1 n) else Some n) = Some m"
  show "odd m \<and> n \<noteq> 0 \<and> (\<exists>k. n = m * 2 ^ k)"
  proof (cases "even n")
    case True
    with step IH [of "drop_bit 1 n" m] have "odd m \<and> drop_bit 1 n \<noteq> 0 \<and> (\<exists>k. drop_bit 1 n = m * 2 ^ k)"
      by (simp add: int_and_1)
    then obtain k where k: "odd m" "drop_bit 1 n \<noteq> 0" "drop_bit 1 n = m * 2 ^ k" by blast
    have n: "n = drop_bit 1 n * 2" using True by (simp add: drop_bit_Suc)
    have "n = m * 2 ^ k * 2" using n k(3) by argo
    then have "n = m * 2 ^ Suc k" by simp
    moreover have "n \<noteq> 0" using k(2) by auto
    ultimately show ?thesis using k(1) by blast
  next
    case False
    with step have "m = n" by (simp add: int_and_1)
    with False show ?thesis by (auto intro: exI [of _ 0])
  qed
qed

lemma powerOfTwo_loop_odd: "odd m \<Longrightarrow> powerOfTwo_loop (m * 2 ^ k) = Some m"
proof (induction k)
  case 0
  then show ?case by (subst powerOfTwo_loop.simps) (simp add: int_and_1)
next
  case (Suc k)
  have "drop_bit 1 (m * 2 ^ Suc k) = m * 2 ^ k" by (simp add: drop_bit_Suc)
  with Suc show ?case by (subst powerOfTwo_loop.simps) (simp add: int_and_1)
qed

lemma odd_part: "(n :: int) \<noteq> 0 \<Longrightarrow> \<exists>m k. odd m \<and> n = m * 2 ^ k"
proof (induction "nat \<bar>n\<bar>" arbitrary: n rule: less_induct)
  case less
  show ?case
  proof (cases "even n")
    case True
    then obtain n' where n': "n = 2 * n'" by blast
    with less.prems have "nat \<bar>n'\<bar> < nat \<bar>n\<bar>" "n' \<noteq> 0" by auto
    with less.hyps [of n'] obtain m k where "odd m" "n' = m * 2 ^ k" by auto
    with n' have "odd m \<and> n = m * 2 ^ Suc k" by simp
    then show ?thesis by blast
  next
    case False
    then show ?thesis by (intro exI [of _ n] exI [of _ 0]) simp
  qed
qed

lemma powerOfTwo_cases:
  "powerOfTwo n = (if n = 0 then None else Some (if \<exists>k. n = 2 ^ k then 1 else 0))"
proof (cases "n = 0")
  case True
  then have "powerOfTwo_loop n = None"
    using powerOfTwo_loop_Some [of n] by (cases "powerOfTwo_loop n") auto
  with True show ?thesis by (simp add: powerOfTwo_def)
next
  case False
  from odd_part [OF this] obtain m k where m: "odd m" "n = m * 2 ^ k" by blast
  have "drop_bit 1 m = 0 \<longleftrightarrow> m = 1" using m(1) by (auto simp: drop_bit_Suc elim: oddE)
  moreover have "(\<exists>k. n = 2 ^ k) \<longleftrightarrow> m = 1"
  proof
    assume "\<exists>k. n = 2 ^ k"
    then obtain j where "n = 1 * 2 ^ j" by auto
    with powerOfTwo_loop_odd [of 1 j] powerOfTwo_loop_odd [of m k] m show "m = 1" by simp
  qed (use m in auto)
  ultimately show ?thesis using False m powerOfTwo_loop_odd [OF m(1), of k] by (simp add: powerOfTwo_def)
qed

section \<open>Properties of the clock\<close>

text \<open>The periodic rate of the MC146818 clock for the rate-select bits of register A.\<close>

definition rtc_hz :: "u8 \<Rightarrow> nat" where
  "rtc_hz rs = 32768 div 2 ^ (unat rs - 1)"

definition blank_rtc :: "'a \<Rightarrow> 'a rtc_scheme" where
  "blank_rtc x = blank_console \<lparr>irq_handler_jumptable = replicate 16 EXC_FINISHED, rtc_flag = [0, 0, 0], \<dots> = x\<rparr>"

text \<open>
  The bytes that setting a frequency sends, and its effect on the interrupt masks: after it no line
  of the slave controller is masked, because \<open>disable_irq\<close> clears all other bits and \<open>enable_irq\<close> the last one.
\<close>

definition register_a :: "int \<Rightarrow> u8 \<Rightarrow> u8" where
  "register_a freq prev = (prev AND MASK_L) OR (NOT (of_nat (rtc_rate_loop (drop_bit 2 freq) 0)) AND MASK_R)"

lemma slave_mask_cleared: "((m :: u8) AND 1) AND - 2 = 0"
proof -
  have "(1 :: u8) AND - 2 = 0" by code_simp
  then show ?thesis by (simp only: and.assoc and_zero_eq)
qed

lemma rtc_set_frequency_Some:
  assumes "freq \<noteq> 0"
  shows "rtc_set_frequency freq prev s = Some (0, s\<lparr>slave_mask := 0, ports := ports s @
     [Outb SLAVE_8259_DATA (slave_mask s AND 1), Outb RTC_PORT RTCREG_A_DISABLE_NMI, Inb CMOS_PORT,
      Outb RTC_PORT RTCREG_A_DISABLE_NMI,
      Outb CMOS_PORT (register_a (if (\<exists>k. freq = 2 ^ k) \<and> freq \<le> 1024 then freq else 512) prev),
      Outb SLAVE_8259_DATA 0]\<rparr>)"
proof -
  have "irq_bit 0 = 1" by (simp add: irq_bit_def)
  then have d: "disable_irq IRQ_RTC s = s\<lparr>slave_mask := slave_mask s AND 1, ports := ports s @ [Outb SLAVE_8259_DATA (slave_mask s AND 1)]\<rparr>"
    and e: "\<And>t. enable_irq IRQ_RTC t = t\<lparr>slave_mask := slave_mask t AND NOT 1, ports := ports t @ [Outb SLAVE_8259_DATA (slave_mask t AND NOT 1)]\<rparr>"
    by (simp_all add: disable_irq_def enable_irq_def outb_def Let_def)
  show ?thesis using assms
    by (simp add: rtc_set_frequency_def powerOfTwo_cases d e outb_def inb_def register_a_def Let_def
        slave_mask_cleared not_le)
qed

lemma rtc_rate_loop_power: "r + j < 9 \<Longrightarrow> rtc_rate_loop (2 ^ j) r = r + j + 1"
proof (induction j arbitrary: r)
  case 0
  have "rtc_rate_loop 0 (Suc r) = Suc r" by (subst rtc_rate_loop.simps) simp
  with 0 show ?case by (subst rtc_rate_loop.simps) simp
next
  case (Suc j)
  have "drop_bit 1 ((2 :: int) ^ Suc j) = 2 ^ j" by (simp add: drop_bit_Suc)
  with Suc.IH [of "r + 1"] Suc.prems show ?case by (subst rtc_rate_loop.simps) simp
qed

lemma rtc_rate_power:
  assumes "1 \<le> k" and "k \<le> 10"
  shows "rtc_rate_loop (drop_bit 2 (2 ^ k)) 0 = k - 1"
proof (cases "k = 1")
  case True
  then show ?thesis by (subst rtc_rate_loop.simps) simp
next
  case False
  define j where "j = k - 2"
  with False assms have j: "k = j + 2" "j < 9" by auto
  then have "drop_bit 2 ((2 :: int) ^ k) = 2 ^ j" by (simp add: drop_bit_eq_div power_add)
  with rtc_rate_loop_power [of 0 j] j show ?thesis by simp
qed

lemma register_a_hz:
  assumes "1 \<le> k" and "k \<le> 10"
  shows "register_a (2 ^ k) prev AND MASK_L = prev AND MASK_L"
    and "rtc_hz (register_a (2 ^ k) prev AND MASK_R) = 2 ^ k"
proof -
  have m: "(MASK_L AND MASK_R :: u8) = 0" "(MASK_R AND MASK_L :: u8) = 0" "(MASK_L AND MASK_L :: u8) = MASK_L"
    "(MASK_R AND MASK_R :: u8) = MASK_R" by code_simp+
  have "k = 1 \<or> k = 2 \<or> k = 3 \<or> k = 4 \<or> k = 5 \<or> k = 6 \<or> k = 7 \<or> k = 8 \<or> k = 9 \<or> k = 10"
    using assms by presburger
  then have hz: "rtc_hz (NOT (of_nat (k - 1)) AND MASK_R) = 2 ^ k"
    by (elim disjE) (simp_all add: rtc_hz_def)
  show "register_a (2 ^ k) prev AND MASK_L = prev AND MASK_L"
    unfolding register_a_def by (simp only: bit.conj_disj_distrib2 and.assoc m bit.conj_zero_right or.right_neutral)
  have "register_a (2 ^ k) prev AND MASK_R = NOT (of_nat (k - 1)) AND MASK_R"
    unfolding register_a_def rtc_rate_power [OF assms]
    by (simp only: bit.conj_disj_distrib2 and.assoc m bit.conj_zero_right or.left_neutral)
  with hz show "rtc_hz (register_a (2 ^ k) prev AND MASK_R) = 2 ^ k" by simp
qed

text \<open>
  Claim C39. \<open>powerOfTwo\<close> decides powers of two for every C \<open>int\<close> except 0, on which its loop never ends.
\<close>

theorem powerOfTwo_decides:
  "powerOfTwo n = (if n = 0 then None else Some (if \<exists>k. n = 2 ^ k then 1 else 0))"
  by (rule powerOfTwo_cases)

text \<open>
  \<open>rtc_write\<close> programs the frequency it is given: for every power of two from 2 to 1024
  it completes with 0, keeps the high bits of register A and sets rate-select bits for which the clock
  ticks at exactly that frequency.
\<close>

theorem rtc_write_sets_frequency:
  assumes "load32 s buf = Some w" and "sint w = 2 ^ k" and "1 \<le> k" and "k \<le> 10"
  shows "\<exists>s' a pre post. rtc_write prev buf s = Some (0, s') \<and> ports s' = ports s @ pre @ [Outb CMOS_PORT a] @ post
    \<and> Outb RTC_PORT RTCREG_A_DISABLE_NMI = last pre \<and> (\<forall>e \<in> set post. \<exists>m. e = Outb SLAVE_8259_DATA m)
    \<and> a AND MASK_L = prev AND MASK_L \<and> rtc_hz (a AND MASK_R) = 2 ^ k"
proof -
  have "(2 :: int) ^ k \<le> 2 ^ 10" using assms(4) by (intro power_increasing) auto
  then have k: "(\<exists>j. (2 :: int) ^ k = 2 ^ j) \<and> (2 :: int) ^ k \<le> 1024" by auto
  let ?pre = "[Outb SLAVE_8259_DATA (slave_mask s AND 1), Outb RTC_PORT RTCREG_A_DISABLE_NMI, Inb CMOS_PORT,
      Outb RTC_PORT RTCREG_A_DISABLE_NMI]"
  have "rtc_write prev buf s = Some (0, s\<lparr>slave_mask := 0, ports := ports s @ ?pre @
      [Outb CMOS_PORT (register_a (2 ^ k) prev)] @ [Outb SLAVE_8259_DATA 0]\<rparr>)"
    using rtc_set_frequency_Some [of "2 ^ k" prev s] assms(1,2) k by (simp add: rtc_write_def)
  with register_a_hz [OF assms(3,4), of prev] show ?thesis
    by (intro exI [of _ "s\<lparr>slave_mask := 0, ports := ports s @ ?pre @
      [Outb CMOS_PORT (register_a (2 ^ k) prev)] @ [Outb SLAVE_8259_DATA 0]\<rparr>"]
      exI [of _ "register_a (2 ^ k) prev"] exI [of _ ?pre] exI [of _ "[Outb SLAVE_8259_DATA 0]"]) simp
qed

definition freq_state :: "u8 \<Rightarrow> rtc" where
  "freq_state b = (blank_rtc ())\<lparr>phys := (\<lambda>_. 0)(0x1000 := b)\<rparr>"

lemma load32_freq_state: "load32 (freq_state b) 0x1000 = Some (ucast b)"
  by (simp add: load32_def load8_def translate_def freq_state_def blank_rtc_def blank_defs)

theorem rtc_write_sets_frequency_witness:
  "\<exists>s' a pre post. rtc_write 0x26 0x1000 (freq_state 32) = Some (0, s')
    \<and> ports s' = ports (freq_state 32) @ pre @ [Outb CMOS_PORT a] @ post
    \<and> a AND MASK_L = 0x20 \<and> rtc_hz (a AND MASK_R) = 32"
proof -
  have "sint (ucast (32 :: u8) :: u32) = 2 ^ 5" "(0x26 :: u8) AND MASK_L = 0x20" by code_simp+
  with rtc_write_sets_frequency [OF load32_freq_state, of 32 5 "0x26"] show ?thesis by fastforce
qed

text \<open>
  Writing the frequency 0 to the clock never returns: the system call is stuck in the loop
  of \<open>powerOfTwo\<close>, whatever the state.
\<close>

theorem rtc_write_zero_hangs:
  assumes "load32 s buf = Some 0"
  shows "rtc_write prev buf s = None"
  using assms by (simp add: rtc_write_def rtc_set_frequency_def powerOfTwo_cases)

theorem rtc_write_zero_hangs_witness: "rtc_write 0x26 0x1000 (freq_state 0) = None"
  by (rule rtc_write_zero_hangs) (use load32_freq_state [of 0] in simp)

lemma rtc_handler_Some:
  assumes "length (rtc_flag s) = 3"
  shows "\<exists>s'. rtc_handler s = Some s' \<and> rtc_flag s' = [0, 0, 0] \<and> terminal_num s' = terminal_num s"
proof -
  from assms obtain a b c where "rtc_flag s = [a, b, c]" by (auto simp: numeral_3_eq_3 length_Suc_conv)
  then show ?thesis
    by (simp add: rtc_handler_def for_range_def aset_def cpu_defs send_eoi_def Let_def)
qed

lemma rtc_flag_spin:
  fixes s :: "'a rtc_scheme"
  defines "waiting \<equiv> \<lambda>s :: 'a rtc_scheme. map_option (\<lambda>f. f \<noteq> 0) (aget (rtc_flag s) (terminal_num s))"
  assumes "length (rtc_flag s) = 3" and "0 \<le> terminal_num s" and "terminal_num s < 3"
    and "rtc_flag s ! nat (terminal_num s) = 1"
    and "\<forall>e \<in> set es. \<forall>t. \<exists>t'. e t = Some t' \<and> rtc_flag t' = rtc_flag t \<and> terminal_num t' = terminal_num t"
  shows "spin waiting es s = None" and "\<exists>s'. spin waiting (es @ rtc_handler # evs) s = Some (s', evs)"
proof -
  let ?I = "\<lambda>t. rtc_flag t = rtc_flag s \<and> terminal_num t = terminal_num s"
  have w: "?I t \<Longrightarrow> waiting t = Some True" for t
    using assms(2-5) by (simp add: waiting_def aget_def)
  have step: "e \<in> set es \<Longrightarrow> ?I t \<Longrightarrow> \<exists>t'. e t = Some t' \<and> ?I t'" for e t
    using assms(6) by metis
  show "spin waiting es s = None"
    by (rule spin_delayed(1) [where I = ?I]) (use w step in auto)
  obtain t where t: "?I t" "spin waiting (es @ rtc_handler # evs) s = spin waiting (rtc_handler # evs) t"
    using spin_delayed(2) [where I = ?I and es = es and evs = "rtc_handler # evs" and s = s and waiting = waiting] w step by auto
  from rtc_handler_Some [of t] t(1) assms(2) obtain s' where
    s': "rtc_handler t = Some s'" "rtc_flag s' = [0, 0, 0]" "terminal_num s' = terminal_num s" by auto
  have "[0, 0, 0 :: int] ! nat (terminal_num s) = 0"
    using assms(3,4) by (auto simp: nth_Cons split: nat.split)
  then have "waiting s' = Some False"
    using s' assms(3,4) by (simp add: waiting_def aget_def)
  with s' t w [OF t(1)] show "\<exists>s'. spin waiting (es @ rtc_handler # evs) s = Some (s', evs)"
    by (simp add: spin_wait)
qed

text \<open>
  Reading the clock waits for the next tick: interrupts that leave the flags and the
  running terminal alone do not end the wait, and \<open>rtc_read\<close> returns 0 at the first clock
  interrupt, with the later interrupts still to come.
\<close>

theorem rtc_read_waits_for_tick:
  assumes "length (rtc_flag s) = 3" and "0 \<le> terminal_num s" and "terminal_num s < 3"
    and "\<forall>e \<in> set es. \<forall>t. \<exists>t'. e t = Some t' \<and> rtc_flag t' = rtc_flag t \<and> terminal_num t' = terminal_num t"
  shows "rtc_read es s = None \<and> (\<exists>s'. rtc_read (es @ rtc_handler # evs) s = Some (0, s', evs))"
proof -
  let ?fs = "(rtc_flag s)[nat (terminal_num s) := 1]"
  have "aset (rtc_flag s) (terminal_num s) 1 = Some ?fs" using assms(1-3) by (simp add: aset_def)
  with rtc_flag_spin(1) [of "s\<lparr>rtc_flag := ?fs\<rparr>" es] rtc_flag_spin(2) [of "s\<lparr>rtc_flag := ?fs\<rparr>" es evs] assms
  show ?thesis
    by (auto simp: rtc_read_def)
qed

theorem rtc_read_waits_for_tick_witness:
  "rtc_read [Some, Some] (blank_rtc ()) = None
   \<and> (\<exists>s'. rtc_read ([Some, Some] @ rtc_handler # []) (blank_rtc ()) = Some (0, s', []))"
  by (rule rtc_read_waits_for_tick) (simp_all add: blank_rtc_def blank_defs)

end
