(* ===== verification/Filesystem.thy ===== *)
theory Filesystem
  imports Rtc
begin

text \<open>
  The read-only file system student-distrib/filesystem.c over its image in memory: the boot block
  with the directory, the inodes with their block lists, and the data blocks, all reached by
  address. Directory reads and their global position are here; \<open>file_read\<close>, which works on the file
  descriptor of the running process, is with the processes.

  The image has the layout of filesystem.h: 4096-byte blocks; in the boot block three 32-bit counts,
  52 reserved bytes and 64-byte directory entries; an inode is its length and 1023 block numbers.
\<close>

abbreviation (input) FILENAME_LEN :: int where "FILENAME_LEN \<equiv> 32"
abbreviation (input) BLOCK_SIZE_IN_BYTES :: u32 where "BLOCK_SIZE_IN_BYTES \<equiv> 4096"

record dentry =
  file_name :: "u8 list"
  file_type :: u32
  inode_num :: u32
  dentry_reserved :: "u8 list"

record filesys = rtc +
  filesystem_start :: u32
  boot_block :: u32
  to_test :: u32
  dir_index :: int

section \<open>Directory entries as bytes\<close>

definition le32 :: "u8 \<Rightarrow> u8 \<Rightarrow> u8 \<Rightarrow> u8 \<Rightarrow> u32" where
  "le32 b0 b1 b2 b3 = ucast b0 OR push_bit 8 (ucast b1) OR push_bit 16 (ucast b2) OR push_bit 24 (ucast b3)"

definition le_bytes :: "u32 \<Rightarrow> u8 list" where
  "le_bytes w = [ucast w, ucast (drop_bit 8 w), ucast (drop_bit 16 w), ucast (drop_bit 24 w)]"

definition dentry_of :: "u8 list \<Rightarrow> dentry" where
  "dentry_of bs = \<lparr>file_name = take 32 bs,
     file_type = le32 (bs ! 32) (bs ! 33) (bs ! 34) (bs ! 35),
     inode_num = le32 (bs ! 36) (bs ! 37) (bs ! 38) (bs ! 39),
     dentry_reserved = drop 40 bs\<rparr>"

definition dentry_bytes :: "dentry \<Rightarrow> u8 list" where
  "dentry_bytes d = file_name d @ le_bytes (file_type d) @ le_bytes (inode_num d) @ dentry_reserved d"

definition zero_dentry :: dentry where
  "zero_dentry = dentry_of (replicate 64 0)"

section \<open>Operations\<close>

definition filesystem_init :: "u32 \<Rightarrow> 'a filesys_scheme \<Rightarrow> 'a filesys_scheme" where
  "filesystem_init address s = s\<lparr>filesystem_start := address, boot_block := address, to_test := address, dir_index := 0\<rparr>"

text \<open>The counts of the boot block, \<open>dir_count\<close> and \<open>inode_count\<close>.\<close>

definition dir_count :: "'a filesys_scheme \<Rightarrow> u32 option" where
  "dir_count s = load32 s (boot_block s)"

definition inode_count :: "'a filesys_scheme \<Rightarrow> u32 option" where
  "inode_count s = load32 s (boot_block s + 4)"

text \<open>
  Both functions return their code with the entry that \<open>*dentry\<close> holds afterwards, \<open>d\<close> being what it
  held before. The strings of an entry are read over the whole structure, as the C code does: a name
  of 32 characters has no NUL of its own.
\<close>

definition read_dentry_by_index :: "u32 \<Rightarrow> dentry \<Rightarrow> 'a filesys_scheme \<Rightarrow> (int \<times> dentry) option" where
  "read_dentry_by_index index d s = do {
     n \<leftarrow> dir_count s;
     if index \<ge> n then Some (-1, d)
     else do {
       bs \<leftarrow> load_bytes s (boot_block s + 64 + index * 64) 64;
       Some (0, dentry_of bs)
     }
   }"

primrec dentry_scan ::
  "cstr \<Rightarrow> nat \<Rightarrow> dentry \<Rightarrow> nat \<Rightarrow> nat \<Rightarrow> 'a filesys_scheme \<Rightarrow> (int \<times> dentry) option" where
  "dentry_scan fname fname_length d i 0 s = Some (-1, d)"
| "dentry_scan fname fname_length d i (Suc k) s = do {
     (r, cur_dentry) \<leftarrow> read_dentry_by_index (of_nat i) zero_dentry s;
     cur_length \<leftarrow> strlen (arr (dentry_bytes cur_dentry));
     c \<leftarrow> strncmp fname (arr (dentry_bytes cur_dentry)) fname_length;
     if c = 0 \<and> (fname_length = cur_length \<or> int fname_length = FILENAME_LEN)
     then Some (0, cur_dentry)
     else dentry_scan fname fname_length d (Suc i) k s
   }"

definition read_dentry_by_name :: "cstr \<Rightarrow> dentry \<Rightarrow> 'a filesys_scheme \<Rightarrow> (int \<times> dentry) option" where
  "read_dentry_by_name fname d s = do {
     fname_length \<leftarrow> strlen fname;
     if int fname_length \<le> 0 \<or> int fname_length > FILENAME_LEN then Some (-1, d)
     else do {
       n \<leftarrow> dir_count s;
       dentry_scan fname fname_length d 0 (unat n) s
     }
   }"

text \<open>One byte of a file: the block number from the inode, then the byte of that block.\<close>

definition data_byte :: "'a filesys_scheme \<Rightarrow> u32 \<Rightarrow> u32 \<Rightarrow> u32 \<Rightarrow> u8 option" where
  "data_byte s data_start cur_inode pos = do {
     let data_block_index = pos div BLOCK_SIZE_IN_BYTES;
     blk \<leftarrow> load32 s (cur_inode + 4 + 4 * data_block_index);
     let data_block_address = data_start + blk * BLOCK_SIZE_IN_BYTES;
     load8 s (data_block_address + pos mod BLOCK_SIZE_IN_BYTES)
   }"

text \<open>
  \<open>read_data\<close> for a destination given by its write function: the state \<open>'m\<close> holds the kernel state
  (\<open>view\<close>) and the buffer, which is memory behind a pointer or a local array of the caller.
\<close>

definition read_data ::
  "('m \<Rightarrow> 'a filesys_scheme) \<Rightarrow> ('m \<Rightarrow> nat \<Rightarrow> u8 \<Rightarrow> 'm option) \<Rightarrow> u32 \<Rightarrow> u32 \<Rightarrow> u32 \<Rightarrow> 'm \<Rightarrow> (int \<times> 'm) option" where
  "read_data view wr inode offset len m = do {
     let s = view m;
     let inode_start = filesystem_start s + BLOCK_SIZE_IN_BYTES;
     n \<leftarrow> inode_count s;
     let data_start = filesystem_start s + BLOCK_SIZE_IN_BYTES + n * BLOCK_SIZE_IN_BYTES;
     let cur_inode = inode_start + inode * BLOCK_SIZE_IN_BYTES;
     cur_length \<leftarrow> load32 s cur_inode;
     let copy_length = (if cur_length - offset < len then cur_length - offset else len);
     if inode \<ge> n then Some (-1, m)
     else if offset \<ge> cur_length then Some (0, m)
     else do {
       m \<leftarrow> for_range 0 (unat copy_length) (\<lambda>i m. do {
              b \<leftarrow> data_byte (view m) data_start cur_inode (offset + of_nat i);
              wr m i b
            }) m;
       Some (sint copy_length, m)
     }
   }"

text \<open>Reading into memory at a pointer, and into a local array.\<close>

definition local_wr :: "('s \<times> u8 list) \<Rightarrow> nat \<Rightarrow> u8 \<Rightarrow> ('s \<times> u8 list) option" where
  "local_wr m i b = map_option (Pair (fst m)) (arr_wr (snd m) i b)"

definition read_data_mem :: "u32 \<Rightarrow> u32 \<Rightarrow> u32 \<Rightarrow> u32 \<Rightarrow> 'a filesys_scheme \<Rightarrow> (int \<times> 'a filesys_scheme) option" where
  "read_data_mem inode offset buf len s = read_data (\<lambda>s. s) (ptr_wr buf) inode offset len s"

definition read_data_local :: "u32 \<Rightarrow> u32 \<Rightarrow> u8 list \<Rightarrow> u32 \<Rightarrow> 'a filesys_scheme \<Rightarrow> (int \<times> u8 list) option" where
  "read_data_local inode offset buf len s = do {
     (r, m) \<leftarrow> read_data fst local_wr inode offset len (s, buf);
     Some (r, snd m)
   }"

definition dir_read :: "u32 \<Rightarrow> int \<Rightarrow> 'a filesys_scheme \<Rightarrow> (int \<times> 'a filesys_scheme) option" where
  "dir_read buf nbytes s = do {
     n \<leftarrow> load32 s (to_test s);
     if word_of_int (dir_index s) \<ge> n then Some (0, s)
     else do {
       (r, cur_dentry) \<leftarrow> read_dentry_by_index (word_of_int (dir_index s)) zero_dentry s;
       if r \<noteq> 0 then Some (-1, s)
       else do {
         len \<leftarrow> strlen (arr (dentry_bytes cur_dentry));
         let cur_length = (if int len < FILENAME_LEN then int len else FILENAME_LEN);
         let cur_length = (if cur_length < nbytes then cur_length else nbytes);
         s \<leftarrow> strncpy (\<lambda>_. arr (dentry_bytes cur_dentry)) (ptr_wr buf) (unat (word_of_int cur_length :: u32)) s;
         Some (cur_length, s\<lparr>dir_index := dir_index s + 1\<rparr>)
       }
     }
   }"

definition dir_write :: "'a filesys_scheme \<Rightarrow> (int \<times> 'a filesys_scheme) option" where
  "dir_write s = Some (-1, s)"

definition dir_open :: "'a filesys_scheme \<Rightarrow> (int \<times> 'a filesys_scheme) option" where
  "dir_open s = Some (0, s\<lparr>dir_index := 0\<rparr>)"

definition dir_close :: "'a filesys_scheme \<Rightarrow> (int \<times> 'a filesys_scheme) option" where
  "dir_close s = Some (0, s)"

definition file_write :: "'a filesys_scheme \<Rightarrow> (int \<times> 'a filesys_scheme) option" where
  "file_write s = Some (-1, s)"

definition file_open :: "'a filesys_scheme \<Rightarrow> (int \<times> 'a filesys_scheme) option" where
  "file_open s = Some (0, s)"

definition file_close :: "'a filesys_scheme \<Rightarrow> (int \<times> 'a filesys_scheme) option" where
  "file_close s = Some (0, s)"

section \<open>Decoding directory entries\<close>

lemma le_bytes_le32: "le_bytes (le32 b0 b1 b2 b3) = [b0, b1, b2, b3]"
proof -
  have hi: "\<not> bit (b :: u8) (8 + n)" "\<not> bit b (16 + n)" "\<not> bit b (24 + n)" for b n
    by (auto dest: bit_imp_le_length)
  show ?thesis unfolding le_bytes_def le32_def
    by (auto intro!: bit_word_eqI simp: bit_simps hi)
qed

lemma list_split_64:
  assumes "length bs = 64"
  shows "bs = take 32 bs @ [bs ! 32, bs ! 33, bs ! 34, bs ! 35] @ [bs ! 36, bs ! 37, bs ! 38, bs ! 39] @ drop 40 bs"
proof -
  have d: "drop k bs = bs ! k # drop (Suc k) bs" if "k < 64" for k
    using that assms by (simp add: Cons_nth_drop_Suc)
  have "drop 32 bs = bs ! 32 # bs ! 33 # bs ! 34 # bs ! 35 # bs ! 36 # bs ! 37 # bs ! 38 # bs ! 39 # drop 40 bs"
    using d [of 32] d [of 33] d [of 34] d [of 35] d [of 36] d [of 37] d [of 38] d [of 39] by simp
  then show ?thesis by (metis append_Cons append_Nil append_take_drop_id)
qed

text \<open>An entry read from memory is laid out as it was there.\<close>

lemma dentry_bytes_of: "length bs = 64 \<Longrightarrow> dentry_bytes (dentry_of bs) = bs"
  using list_split_64 [of bs] by (simp add: dentry_bytes_def dentry_of_def le_bytes_le32)

lemma length_file_name_of: "length bs = 64 \<Longrightarrow> length (file_name (dentry_of bs)) = 32"
  by (simp add: dentry_of_def)

text \<open>The name of an entry: its characters up to the first NUL, at most 32.\<close>

definition dentry_name :: "dentry \<Rightarrow> u8 list" where
  "dentry_name d = takeWhile (\<lambda>c. c \<noteq> 0) (file_name d)"

lemma takeWhile_take: "takeWhile P (take n xs) = take n (takeWhile P xs)"
  by (induction xs arbitrary: n) (auto simp: take_Cons split: nat.split)

lemma strlen_bytes: "0 \<in> set bs \<Longrightarrow> strlen (arr bs) = Some (length (takeWhile (\<lambda>c. c \<noteq> 0) bs))"
proof -
  assume "0 \<in> set bs"
  then have "bs = takeWhile (\<lambda>c. c \<noteq> 0) bs @ 0 # tl (dropWhile (\<lambda>c. c \<noteq> 0) bs)"
    by (metis (mono_tags, lifting) dropWhile_eq_Nil_conv hd_dropWhile list.exhaust_sel takeWhile_dropWhile_id)
  moreover have "0 \<notin> set (takeWhile (\<lambda>c. c \<noteq> 0) bs)" by (auto dest: set_takeWhileD)
  ultimately show ?thesis by (metis strlen_arr)
qed

text \<open>The two conditions of the search together say that the names are equal.\<close>

lemma name_match:
  assumes "0 \<notin> set xs" and "length xs \<le> 32" and "32 \<le> length bs"
  shows "take (length xs) bs = xs \<and> (length xs = length (takeWhile (\<lambda>c. c \<noteq> 0) bs) \<or> length xs = 32)
    \<longleftrightarrow> takeWhile (\<lambda>c. c \<noteq> 0) (take 32 bs) = (xs :: u8 list)"
proof
  let ?tw = "takeWhile (\<lambda>c. c \<noteq> 0)"
  assume l: "take (length xs) bs = xs \<and> (length xs = length (?tw bs) \<or> length xs = 32)"
  show "?tw (take 32 bs) = xs"
  proof (cases "length xs = 32")
    case True
    with l have "take 32 bs = xs" by metis
    with assms(1) show ?thesis by (simp add: takeWhile_eq_all_conv) blast
  next
    case False
    with l have "?tw bs = xs" by (metis takeWhile_eq_take)
    with assms(2) show ?thesis by (simp add: takeWhile_take)
  qed
next
  let ?tw = "takeWhile (\<lambda>c. c \<noteq> 0)"
  assume "?tw (take 32 bs) = xs"
  then have xs: "take 32 (?tw bs) = xs" by (simp add: takeWhile_take)
  define L where "L = length (?tw bs)"
  have "?tw bs = take L bs" unfolding L_def by (rule takeWhile_eq_take)
  then have "xs = take (min 32 L) bs" using xs by (simp add: take_take)
  moreover have "length xs = min 32 L" using xs by (auto simp: L_def)
  ultimately have "take (length xs) bs = xs" by simp
  moreover have "length xs = length (?tw bs) \<or> length xs = 32" using xs by auto
  ultimately show "take (length xs) bs = xs \<and> (length xs = length (?tw bs) \<or> length xs = 32)" ..
qed

section \<open>Looking up names\<close>

text \<open>
  The directory of the image: \<open>ds\<close> are its entries, in order. Every entry has a zero byte somewhere (the
  high byte of a file type is zero), so that no string runs past the entry.
\<close>

definition directory :: "'a filesys_scheme \<Rightarrow> dentry list \<Rightarrow> bool" where
  "directory s ds \<longleftrightarrow> dir_count s = Some (of_nat (length ds)) \<and> length ds \<le> 63
     \<and> (\<forall>i < length ds. \<exists>bs. load_bytes s (boot_block s + 64 + of_nat i * 64) 64 = Some bs
          \<and> ds ! i = dentry_of bs \<and> 0 \<in> set bs)"

lemma read_dentry_by_index_directory:
  assumes "directory s ds" and "i < length ds"
  obtains bs where "read_dentry_by_index (of_nat i) d s = Some (0, ds ! i)" and "ds ! i = dentry_of bs"
    and "length bs = 64" and "0 \<in> set bs" and "dentry_bytes (ds ! i) = bs"
proof -
  from assms obtain bs where bs: "load_bytes s (boot_block s + 64 + of_nat i * 64) 64 = Some bs"
    "ds ! i = dentry_of bs" "0 \<in> set bs" by (auto simp: directory_def)
  have len: "length bs = 64" using bs(1) by (rule length_load_bytes)
  have "\<not> (of_nat (length ds) :: u32) \<le> of_nat i"
    using assms by (simp add: directory_def word_le_nat_alt of_nat_u32)
  with assms bs have "read_dentry_by_index (of_nat i) d s = Some (0, ds ! i)"
    by (simp add: read_dentry_by_index_def directory_def)
  with bs len show ?thesis by (intro that) (simp_all add: dentry_bytes_of)
qed

lemma dentry_scan_finds:
  assumes dir: "directory s ds" and name: "cstr_at fname xs" "length xs \<le> 32" and "i \<le> length ds"
  shows "dentry_scan fname (length xs) d i (length ds - i) s =
    Some (case find (\<lambda>e. dentry_name e = xs) (drop i ds) of None \<Rightarrow> (-1, d) | Some e \<Rightarrow> (0, e))"
  using assms(4)
proof (induction "length ds - i" arbitrary: i)
  case 0
  then show ?case by simp
next
  case (Suc k)
  then have i: "i < length ds" and k: "k = length ds - Suc i" by auto
  from dir i obtain bs where bs: "read_dentry_by_index (of_nat i) zero_dentry s = Some (0, ds ! i)"
    "ds ! i = dentry_of bs" "length bs = 64" "0 \<in> set bs" "dentry_bytes (ds ! i) = bs"
    by (rule read_dentry_by_index_directory)
  have xs: "0 \<notin> set xs" using cstr_at_nonzero [OF name(1)] by (auto simp: in_set_conv_nth)
  obtain c where c: "strncmp fname (arr bs) (length xs) = Some c" "c = 0 \<longleftrightarrow> take (length xs) bs = xs"
    using strncmp_prefix [OF name(1), of bs] name(2) bs(3) by auto
  have m: "c = 0 \<and> (length xs = length (takeWhile (\<lambda>c. c \<noteq> 0) bs) \<or> int (length xs) = FILENAME_LEN)
      \<longleftrightarrow> dentry_name (ds ! i) = xs"
    using name_match [OF xs name(2), of bs] c(2) bs(2,3) by (simp add: dentry_name_def dentry_of_def)
  have d: "drop i ds = ds ! i # drop (Suc i) ds" using i by (simp add: Cons_nth_drop_Suc)
  have "dentry_scan fname (length xs) d i (Suc k) s =
      (if dentry_name (ds ! i) = xs then Some (0, ds ! i) else dentry_scan fname (length xs) d (Suc i) k s)"
    using bs(1) strlen_bytes [OF bs(4)] c(1) m by (simp add: bs(5))
  with Suc.hyps(1) [OF k] i k d show ?case
    by (metis (mono_tags, lifting) Suc.hyps(2) Suc_leI find.simps(2) option.simps(5))
qed

lemma read_dentry_by_name_lookup:
  assumes "directory s ds" and "cstr_at fname xs"
  shows "read_dentry_by_name fname d s =
    (if xs = [] \<or> 32 < length xs then Some (-1, d)
     else Some (case find (\<lambda>e. dentry_name e = xs) ds of None \<Rightarrow> (-1, d) | Some e \<Rightarrow> (0, e)))"
proof -
  have "dir_count s = Some (of_nat (length ds))" "unat (of_nat (length ds) :: u32) = length ds"
    using assms(1) by (simp_all add: directory_def of_nat_u32)
  with dentry_scan_finds [OF assms, of 0 d] show ?thesis
    by (simp add: read_dentry_by_name_def strlen_at [OF assms(2)] not_less)
qed

section \<open>Reading file contents\<close>

definition inode_at :: "'a filesys_scheme \<Rightarrow> u32 \<Rightarrow> u32" where
  "inode_at s inode = filesystem_start s + BLOCK_SIZE_IN_BYTES + inode * BLOCK_SIZE_IN_BYTES"

definition data_at :: "'a filesys_scheme \<Rightarrow> u32 \<Rightarrow> u32" where
  "data_at s n = filesystem_start s + BLOCK_SIZE_IN_BYTES + n * BLOCK_SIZE_IN_BYTES"

text \<open>
  The abstract file: \<open>file_data s inode bs\<close> says that \<open>inode\<close> is one of the image's inodes and that its
  contents, block by block, are the bytes \<open>bs\<close>.
\<close>

definition file_data :: "'a filesys_scheme \<Rightarrow> u32 \<Rightarrow> u8 list \<Rightarrow> bool" where
  "file_data s inode bs \<longleftrightarrow> (\<exists>n. inode_count s = Some n \<and> inode < n \<and> length bs < 2 ^ 31
     \<and> load32 s (inode_at s inode) = Some (of_nat (length bs))
     \<and> (\<forall>k < length bs. data_byte s (data_at s n) (inode_at s inode) (of_nat k) = Some (bs ! k)))"

text \<open>The part of a file that a read of \<open>len\<close> bytes at \<open>off\<close> delivers.\<close>

definition file_slice :: "u8 list \<Rightarrow> nat \<Rightarrow> nat \<Rightarrow> u8 list" where
  "file_slice bs off len = take len (drop off bs)"

text \<open>What the copy loop reads at its first \<open>n\<close> steps.\<close>

definition file_src :: "('m \<Rightarrow> 'a filesys_scheme) \<Rightarrow> u32 \<Rightarrow> u32 \<Rightarrow> u32 \<Rightarrow> nat \<Rightarrow> 'm \<Rightarrow> nat \<Rightarrow> u8 option" where
  "file_src view data_start cur_inode offset n m j =
     (if j < n then data_byte (view m) data_start cur_inode (offset + of_nat j) else None)"

lemma u32_diff_min:
  assumes "off < L" and "L < 2 ^ 32"
  shows "unat (if (of_nat L - of_nat off :: u32) < len then of_nat L - of_nat off else len) = min (L - off) (unat len)"
proof -
  have "unat (of_nat L - of_nat off :: u32) = L - off"
    using assms by (simp add: unat_sub word_le_nat_alt of_nat_u32)
  then show ?thesis by (auto simp: word_less_nat_alt min_def)
qed

lemma sint_u32: "unat (w :: u32) < 2 ^ 31 \<Longrightarrow> sint w = int (unat w)"
proof -
  assume "unat w < 2 ^ 31"
  then have "int (unat w) < int (2 ^ 31)" by (simp only: of_nat_less_iff)
  then have "uint w < 2 ^ 31" by simp
  moreover have "- (2 ^ 31) \<le> uint w" using unsigned_greater_eq [of w] by (rule order_trans [rotated]) simp
  ultimately show ?thesis using signed_take_bit_int_eq_self [of 31 "uint w"] by (simp add: sint_uint)
qed

lemma read_data_split:
  assumes f: "file_data (view m0) inode bs" and n: "inode_count (view m0) = Some n" and off: "off < 2 ^ 32"
  shows "read_data view wr inode (of_nat off) len m0 =
    (if length bs \<le> off then Some (0, m0)
     else do {
       m \<leftarrow> for_range 0 (min (length bs - off) (unat len)) (\<lambda>i m. do {
              b \<leftarrow> data_byte (view m) (data_at (view m0) n) (inode_at (view m0) inode) (of_nat off + of_nat i);
              wr m i b
            }) m0;
       Some (int (min (length bs - off) (unat len)), m)
     })"
proof -
  let ?L = "of_nat (length bs) :: u32"
  from f n have l: "inode < n" "length bs < 2 ^ 31" "load32 (view m0) (inode_at (view m0) inode) = Some ?L"
    by (auto simp: file_data_def)
  have cmp: "?L \<le> of_nat off \<longleftrightarrow> length bs \<le> off"
    using l(2) off by (simp add: word_le_nat_alt of_nat_u32)
  show ?thesis
  proof (cases "length bs \<le> off")
    case True
    with n l cmp show ?thesis by (simp add: read_data_def inode_at_def Let_def)
  next
    case False
    let ?c = "if ?L - of_nat off < len then ?L - of_nat off else len"
    have c: "unat ?c = min (length bs - off) (unat len)"
      using u32_diff_min [of off "length bs" len] False l(2) by simp
    moreover have "sint ?c = int (min (length bs - off) (unat len))"
      using sint_u32 [of ?c] c l(2) by simp
    ultimately show ?thesis using n l cmp False
      by (simp add: read_data_def inode_at_def data_at_def Let_def not_le del: of_nat_diff cong: if_cong)
  qed
qed

text \<open>
  Reading into any destination that satisfies the copy interface, as long as writing it does not
  change the bytes of the file being read.
\<close>

context copy_mem
begin

lemma read_data_delivers:
  assumes f: "file_data (view m) inode bs" and n: "inode_count (view m) = Some k" and off: "off < 2 ^ 32"
    and rd: "rd = file_src view (data_at (view m) k) (inode_at (view m) inode) (of_nat off) (length (file_slice bs off (unat len)))"
    and ok: "ok (length (file_slice bs off (unat len))) m"
  shows "\<exists>m'. read_data view wr inode (of_nat off) len m = Some (int (length (file_slice bs off (unat len))), m')
    \<and> ok (length (file_slice bs off (unat len))) m' \<and> rd m' = rd m
    \<and> (\<forall>j < length (file_slice bs off (unat len)). out m' j = Some (file_slice bs off (unat len) ! j))"
proof (cases "length bs \<le> off")
  case True
  with read_data_split [of view m inode bs k off wr len] f n off ok show ?thesis by (simp add: file_slice_def)
next
  case False
  let ?n = "min (length bs - off) (unat len)" and ?xs = "file_slice bs off (unat len)"
  have len: "length ?xs = ?n" by (simp add: file_slice_def)
  have byte: "data_byte (view t) (data_at (view m) k) (inode_at (view m) inode) (of_nat off + of_nat j) = Some (?xs ! j)"
    if "j < ?n" and "rd t = rd m" for j t
  proof -
    have "rd t j = rd m j" using that(2) by simp
    moreover have "data_byte (view m) (data_at (view m) k) (inode_at (view m) inode) (of_nat (off + j)) = Some (bs ! (off + j))"
      using f n that(1) False unfolding file_data_def by (auto simp del: of_nat_add)
    ultimately show ?thesis using that(1) False by (simp add: rd file_src_def file_slice_def len)
  qed
  have "\<exists>m'. for_range 0 ?n (\<lambda>j t. do {
         b \<leftarrow> data_byte (view t) (data_at (view m) k) (inode_at (view m) inode) (of_nat off + of_nat j);
         wr t j b }) m = Some m'
      \<and> ok ?n m' \<and> rd m' = rd m \<and> (\<forall>j < ?n. out m' j = (if 0 \<le> j then Some (?xs ! j) else out m j))"
    by (rule copy_range) (use ok len byte in auto)
  with False read_data_split [of view m inode bs k off wr len] f n off show ?thesis by (auto simp: len)
qed

end

section \<open>Files and buffers in memory\<close>

text \<open>
  The physical bytes that reading a byte of a file, or a whole file, depends on.
\<close>

definition byte_addrs :: "'a filesys_scheme \<Rightarrow> u32 \<Rightarrow> u32 \<Rightarrow> u32 \<Rightarrow> u32 set" where
  "byte_addrs s data_start cur_inode pos =
     word_addrs s (cur_inode + 4 + 4 * (pos div BLOCK_SIZE_IN_BYTES))
     \<union> {q. \<exists>blk. load32 s (cur_inode + 4 + 4 * (pos div BLOCK_SIZE_IN_BYTES)) = Some blk
          \<and> translate s (data_start + blk * BLOCK_SIZE_IN_BYTES + pos mod BLOCK_SIZE_IN_BYTES) = Some q}"

definition file_addrs :: "'a filesys_scheme \<Rightarrow> u32 \<Rightarrow> nat \<Rightarrow> u32 set" where
  "file_addrs s inode sz = word_addrs s (boot_block s + 4) \<union> word_addrs s (inode_at s inode)
     \<union> (\<Union>k < sz. byte_addrs s (data_at s (the (inode_count s))) (inode_at s inode) (of_nat k))"

lemma data_byte_outside:
  assumes "only_mem D s s'" and "byte_addrs s ds ci pos \<inter> D = {}"
  shows "data_byte s' ds ci pos = data_byte s ds ci pos"
proof -
  let ?a = "ci + 4 + 4 * (pos div BLOCK_SIZE_IN_BYTES)"
  have w: "load32 s' ?a = load32 s ?a"
    using assms by (intro load32_outside) (auto simp: byte_addrs_def)
  show ?thesis
  proof (cases "load32 s ?a")
    case (Some blk)
    then have "load8 s' (ds + blk * BLOCK_SIZE_IN_BYTES + pos mod BLOCK_SIZE_IN_BYTES)
        = load8 s (ds + blk * BLOCK_SIZE_IN_BYTES + pos mod BLOCK_SIZE_IN_BYTES)"
      using assms by (intro load8_outside) (auto simp: byte_addrs_def)
    with w Some show ?thesis by (simp add: data_byte_def Let_def)
  qed (simp add: data_byte_def w Let_def)
qed

lemma only_mem_fields:
  assumes "only_mem D s s'"
  shows "boot_block s' = boot_block s" "filesystem_start s' = filesystem_start s" "translate s' = translate s"
    "to_test s' = to_test s" "dir_index s' = dir_index s"
  using assms by (auto simp: only_mem_def fun_eq_iff)

lemma file_data_outside:
  assumes m: "only_mem D s s'" and d: "file_addrs s inode (length bs) \<inter> D = {}" and f: "file_data s inode bs"
  shows "file_data s' inode bs"
proof -
  from f obtain n where n: "inode_count s = Some n" "inode < n" "length bs < 2 ^ 31"
    "load32 s (inode_at s inode) = Some (of_nat (length bs))"
    "\<forall>k < length bs. data_byte s (data_at s n) (inode_at s inode) (of_nat k) = Some (bs ! k)"
    by (auto simp: file_data_def)
  note e = only_mem_fields [OF m]
  have a: "inode_at s' inode = inode_at s inode" "data_at s' n = data_at s n"
    using e by (simp_all add: inode_at_def data_at_def)
  have "inode_count s' = Some n"
    using load32_outside [OF m, of "boot_block s + 4"] d n(1) e by (auto simp: inode_count_def file_addrs_def)
  moreover have "load32 s' (inode_at s inode) = Some (of_nat (length bs))"
    using load32_outside [OF m, of "inode_at s inode"] d n(4) by (auto simp: file_addrs_def)
  moreover have "data_byte s' (data_at s n) (inode_at s inode) (of_nat k) = Some (bs ! k)" if "k < length bs" for k
    using data_byte_outside [OF m, of "data_at s n" "inode_at s inode" "of_nat k"] d n(1,5) that
    by (auto simp: file_addrs_def)
  ultimately show ?thesis using n(2,3) by (auto simp: file_data_def a)
qed

lemma file_addrs_outside:
  assumes m: "only_mem D s s'" and d: "file_addrs s inode (length bs) \<inter> D = {}" and f: "file_data s inode bs"
  shows "file_addrs s' inode (length bs) = file_addrs s inode (length bs)"
proof -
  note e = only_mem_fields [OF m] and a = only_mem_addrs [OF m]
  have at: "inode_at s' = inode_at s" "data_at s' = data_at s" using e by (simp_all add: inode_at_def data_at_def fun_eq_iff)
  have "inode_count s' = inode_count s"
    using load32_outside [OF m, of "boot_block s + 4"] d e by (auto simp: inode_count_def file_addrs_def)
  moreover have "byte_addrs s' ds ci (of_nat k) = byte_addrs s ds ci (of_nat k)"
    if "k < length bs" "ds = data_at s (the (inode_count s))" "ci = inode_at s inode" for k ds ci
  proof -
    have "word_addrs s (ci + 4 + 4 * (of_nat k div BLOCK_SIZE_IN_BYTES)) \<inter> D = {}"
      using d that by (auto simp: file_addrs_def byte_addrs_def)
    from load32_outside [OF m this] show ?thesis using a e by (simp add: byte_addrs_def)
  qed
  ultimately show ?thesis using e a at by (simp add: file_addrs_def)
qed

lemma ptr_ok_file_src:
  assumes w: "writable s buf n" and f: "inode_count s = Some k"
    and disj: "file_addrs s inode sz \<inter> buffer_addrs s buf n = {}" and sz: "off + n \<le> sz"
  shows "ptr_ok (file_src (\<lambda>s. s) (data_at s k) (inode_at s inode) (of_nat off) n) buf n s"
proof -
  have "file_src (\<lambda>s. s) (data_at s k) (inode_at s inode) (of_nat off) n (s\<lparr>phys := g\<rparr>) j
      = file_src (\<lambda>s. s) (data_at s k) (inode_at s inode) (of_nat off) n s j"
    if g: "\<forall>q. q \<notin> buffer_addrs s buf n \<longrightarrow> g q = phys s q" for g j
  proof (cases "j < n")
    case True
    have m: "only_mem (buffer_addrs s buf n) s (s\<lparr>phys := g\<rparr>)" using g by (auto simp: only_mem_def)
    have "off + j < sz" using True sz by simp
    then have "byte_addrs s (data_at s k) (inode_at s inode) (of_nat (off + j)) \<subseteq> file_addrs s inode sz"
      using f unfolding file_addrs_def by (auto simp del: of_nat_add)
    then have "byte_addrs s (data_at s k) (inode_at s inode) (of_nat off + of_nat j) \<inter> buffer_addrs s buf n = {}"
      using disj by auto
    from data_byte_outside [OF m this] show ?thesis by (simp add: file_src_def)
  qed (simp add: file_src_def)
  with w show ?thesis unfolding ptr_ok_def writable_def buffer_addrs_def by (auto simp: fun_eq_iff)
qed

text \<open>
  Reading a file into memory. The buffer must be writable for the bytes that are delivered and must
  not overlap the image of the file.
\<close>

lemma read_data_mem_delivers:
  fixes len :: u32
  assumes f: "file_data s inode bs" and off: "off < 2 ^ 32"
  defines "xs \<equiv> file_slice bs off (unat len)"
  assumes w: "writable s buf (length xs)" and disj: "file_addrs s inode (length bs) \<inter> buffer_addrs s buf (length xs) = {}"
  shows "\<exists>s'. read_data_mem inode (of_nat off) buf len s = Some (int (length xs), s')
    \<and> load_bytes s' buf (length xs) = Some xs \<and> only_mem (buffer_addrs s buf (length xs)) s s' \<and> file_data s' inode bs"
proof -
  from f obtain k where k: "inode_count s = Some k" by (auto simp: file_data_def)
  let ?rd = "file_src (\<lambda>s. s) (data_at s k) (inode_at s inode) (of_nat off) (length xs)"
  have "off + length xs \<le> length bs \<or> length xs = 0" by (auto simp: xs_def file_slice_def)
  then have ok: "ptr_ok ?rd buf (length xs) s"
    using ptr_ok_file_src [OF w k disj] by (auto simp: ptr_ok_def file_src_def)
  from ptr_copy.read_data_delivers [of "\<lambda>s. s" s inode bs k off ?rd len buf] f k off ok
  obtain s' where s': "read_data_mem inode (of_nat off) buf len s = Some (int (length xs), s')"
    "\<forall>j < length xs. ptr s' buf j = Some (xs ! j)" by (auto simp: xs_def read_data_mem_def)
  have m: "only_mem (buffer_addrs s buf (length xs)) s s'"
  proof (cases "length bs \<le> off")
    case True
    with s'(1) read_data_split [of "\<lambda>s. s" s inode bs k off "ptr_wr buf" len] f k off show ?thesis
      by (simp add: read_data_mem_def)
  next
    case False
    let ?loop = "for_range 0 (length xs) (\<lambda>i m. do { b \<leftarrow> data_byte m (data_at s k) (inode_at s inode) (of_nat off + of_nat i);
      ptr_wr buf m i b }) s"
    have "length xs = min (length bs - off) (unat len)" by (simp add: xs_def file_slice_def)
    with False s'(1) read_data_split [of "\<lambda>s. s" s inode bs k off "ptr_wr buf" len] f k off
    have "do { m \<leftarrow> ?loop; Some (int (length xs), m) } = Some (int (length xs), s')"
      by (simp add: read_data_mem_def)
    then have "?loop = Some s'" by (auto simp: bind_eq_Some_conv)
    then show ?thesis by (rule only_mem_loop)
  qed
  from s' m load_bytes_ptr [OF s'(2)] file_data_outside [OF m disj f] show ?thesis by blast
qed

text \<open>A local array of the caller as the destination.\<close>

interpretation local_copy: copy_mem "\<lambda>m. r (fst m)" local_wr "\<lambda>m. arr (snd m)"
  "\<lambda>n m. n \<le> length (snd m) \<and> length (snd m) = N" for r :: "'s \<Rightarrow> nat \<Rightarrow> u8 option" and N
  by unfold_locales (auto simp: local_wr_def arr_def)

lemma read_data_local_delivers:
  fixes s :: "'a filesys_scheme"
  assumes f: "file_data s inode bs" and "off < 2 ^ 32"
    and "length (file_slice bs off (unat len)) = length buf"
  shows "read_data_local inode (of_nat off) buf len s = Some (int (length buf), file_slice bs off (unat len))"
proof -
  from f obtain k where k: "inode_count s = Some k" by (auto simp: file_data_def)
  let ?xs = "file_slice bs off (unat len)"
  let ?rd = "file_src (\<lambda>s. s) (data_at s k) (inode_at s inode) (of_nat off) (length ?xs)"
  have e: "(\<lambda>m :: 'a filesys_scheme \<times> u8 list. ?rd (fst m)) = file_src fst (data_at s k) (inode_at s inode) (of_nat off) (length ?xs)"
    by (simp add: file_src_def fun_eq_iff)
  from local_copy.read_data_delivers [of fst "(s, buf)" inode bs k off ?rd len "length buf"] f k assms(2,3) e
  obtain m where m: "read_data fst local_wr inode (of_nat off) len (s, buf) = Some (int (length buf), m)"
    "length (snd m) = length buf" "\<forall>j < length buf. arr (snd m) j = Some (?xs ! j)" by auto
  then have "snd m = ?xs" using assms(3) by (intro nth_equalityI) auto
  with m(1) show ?thesis by (simp add: read_data_local_def)
qed

section \<open>Listing the directory\<close>

definition dir_addrs :: "'a filesys_scheme \<Rightarrow> nat \<Rightarrow> u32 set" where
  "dir_addrs s n = word_addrs s (boot_block s) \<union> (\<Union>i < n. buffer_addrs s (boot_block s + 64 + of_nat i * 64) 64)"

lemma directory_outside:
  assumes m: "only_mem D s s'" and d: "dir_addrs s (length ds) \<inter> D = {}" and "directory s ds"
  shows "directory s' ds"
proof -
  note e = only_mem_fields [OF m]
  have "dir_count s' = dir_count s"
    using load32_outside [OF m, of "boot_block s"] d e by (auto simp: dir_count_def dir_addrs_def)
  moreover have "load_bytes s' (boot_block s + 64 + of_nat i * 64) 64 = load_bytes s (boot_block s + 64 + of_nat i * 64) 64"
    if "i < length ds" for i
    using that d by (intro load_bytes_outside [OF m]) (auto simp: dir_addrs_def)
  ultimately show ?thesis using assms(3) e by (simp add: directory_def)
qed

text \<open>One call of \<open>dir_read\<close>: the next name, cut to 32 characters and to the size of the buffer.\<close>

lemma dir_read_next:
  assumes dir: "directory s ds" and t: "to_test s = boot_block s" and i: "dir_index s = int i" "i < length ds"
    and nb: "0 \<le> nbytes" "nbytes < 2 ^ 31"
    and w: "writable s buf (min (length (dentry_name (ds ! i))) (nat nbytes))"
  shows "\<exists>s'. dir_read buf nbytes s = Some (int (min (length (dentry_name (ds ! i))) (nat nbytes)), s'\<lparr>dir_index := int (Suc i)\<rparr>)
    \<and> only_mem (buffer_addrs s buf (min (length (dentry_name (ds ! i))) (nat nbytes))) s s'
    \<and> load_bytes s' buf (min (length (dentry_name (ds ! i))) (nat nbytes)) = Some (take (nat nbytes) (dentry_name (ds ! i)))"
proof -
  let ?n = "min (length (dentry_name (ds ! i))) (nat nbytes)"
  from dir i(2) obtain bs where bs: "read_dentry_by_index (of_nat i) zero_dentry s = Some (0, ds ! i)"
    "ds ! i = dentry_of bs" "length bs = 64" "0 \<in> set bs" "dentry_bytes (ds ! i) = bs"
    by (rule read_dentry_by_index_directory)
  let ?xs = "takeWhile (\<lambda>c. c \<noteq> 0) bs"
  have name: "dentry_name (ds ! i) = take 32 ?xs"
    using bs(2) by (simp add: dentry_name_def dentry_of_def takeWhile_take)
  have n: "?n \<le> 32" "?n \<le> length ?xs" "?n = min (min (length ?xs) 32) (nat nbytes)" by (auto simp: name)
  have z: "bs = ?xs @ 0 # tl (dropWhile (\<lambda>c. c \<noteq> 0) bs)"
    using bs(4) by (metis (mono_tags, lifting) dropWhile_eq_Nil_conv hd_dropWhile list.exhaust_sel takeWhile_dropWhile_id)
  have xs: "0 \<notin> set ?xs" by (auto dest: set_takeWhileD)
  have src: "\<forall>j \<le> ?n. j \<le> length ?xs \<longrightarrow> arr bs j = Some ((?xs @ [0]) ! j)"
    by (metis (no_types, lifting) arr_def nth_append nth_Cons_0 le_less_trans length_append length_Cons lessI less_add_same_cancel1 linorder_neqE_nat not_less z zero_less_Suc diff_self_eq_0 nless_le trans_less_add1)
  from ptr_copy.strncpy_copies [of ?n ?xs "\<lambda>_. arr bs" s buf] src xs ptr_ok_const [OF w]
  obtain s' where s': "strncpy (\<lambda>_. arr bs) (ptr_wr buf) ?n s = Some s'"
    "\<forall>j < ?n. ptr s' buf j = Some (if j < length ?xs then ?xs ! j else 0)" by auto
  have m: "only_mem (buffer_addrs s buf ?n) s s'"
  proof (rule strncpy_preserves [OF s'(1)])
    fix k u b u'
    assume "k < ?n" and u: "only_mem (buffer_addrs s buf ?n) s u" and "ptr_wr buf u k b = Some u'"
    then have "only_mem (buffer_addrs u buf ?n) u u'" by (intro only_mem_ptr_wr)
    moreover have "buffer_addrs u buf ?n = buffer_addrs s buf ?n"
      using u by (auto simp: buffer_addrs_def only_mem_def)
    ultimately show "only_mem (buffer_addrs s buf ?n) s u'" using u by (metis only_mem_trans)
  qed simp
  have l: "load_bytes s' buf ?n = Some (take (nat nbytes) (dentry_name (ds ! i)))"
    by (rule load_bytes_ptr) (use s'(2) n(2) in \<open>auto simp: name\<close>)
  let ?c = "if int (length ?xs) < 32 then int (length ?xs) else 32"
  let ?c' = "if ?c < nbytes then ?c else nbytes"
  have c: "?c' = int ?n" using nb n(3) by auto
  have u: "unat (word_of_int (int ?n) :: u32) = ?n" using n(1) by (simp add: of_nat_u32)
  have cnt: "load32 s (to_test s) = Some (of_nat (length ds))" "\<not> (of_nat (length ds) :: u32) \<le> of_nat i"
    using dir t i(2) by (simp_all add: directory_def dir_count_def word_le_nat_alt of_nat_u32)
  have "dir_read buf nbytes s = do {
      s \<leftarrow> strncpy (\<lambda>_. arr bs) (ptr_wr buf) (unat (word_of_int ?c' :: u32)) s;
      Some (?c', s\<lparr>dir_index := dir_index s + 1\<rparr>) }"
    using cnt bs(1) i(1) strlen_bytes [OF bs(4)] by (simp add: dir_read_def bs(5) Let_def)
  then have "dir_read buf nbytes s = Some (int ?n, s'\<lparr>dir_index := dir_index s' + 1\<rparr>)"
    unfolding c u using s'(1) by simp
  moreover have "dir_index s' + 1 = int (Suc i)" using only_mem_fields(5) [OF m] i(1) by simp
  ultimately show ?thesis using m l by auto
qed

section \<open>A small image\<close>

text \<open>
  An image at 0x10000 with two directory entries (the directory itself and a file \<open>hi\<close>), one inode, and
  one data block with the contents \<open>abc\<close>; paging is off.
\<close>

definition sample_image :: "(u32 \<times> u8) list" where
  "sample_image = [(0x10000, 2), (0x10004, 1), (0x10008, 1), (0x10040, 46), (0x10060, 1),
     (0x10080, 104), (0x10081, 105), (0x100A0, 2), (0x11000, 3), (0x12000, 97), (0x12001, 98), (0x12002, 99)]"

definition sample_phys :: "u32 \<Rightarrow> u8" where
  "sample_phys a = (case map_of sample_image a of Some b \<Rightarrow> b | None \<Rightarrow> 0)"

definition sample_fs :: "'a \<Rightarrow> 'a filesys_scheme" where
  "sample_fs x = (blank_rtc \<lparr>filesystem_start = 0x10000, boot_block = 0x10000, to_test = 0x10000, dir_index = 0, \<dots> = x\<rparr>)
     \<lparr>phys := sample_phys\<rparr>"

lemma sample_fields [simp]:
  "phys (sample_fs x) = sample_phys" "boot_block (sample_fs x) = 0x10000" "filesystem_start (sample_fs x) = 0x10000"
  "to_test (sample_fs x) = 0x10000" "dir_index (sample_fs x) = 0" "cr0 (sample_fs x) = 0"
  by (simp_all add: sample_fs_def blank_rtc_def blank_defs)

lemma sample_translate [simp]: "translate (sample_fs x) a = Some a"
  by (simp add: translate_def)

lemma load8_sample [simp]: "load8 (sample_fs x) a = Some (sample_phys a)"
  by (simp add: load8_def)

lemma load_bytes_sample: "load_bytes (sample_fs x) a n = Some (map (\<lambda>i. sample_phys (a + of_nat i)) [0..<n])"
  by (rule load_bytes_ptr) (simp_all add: ptr_def)

definition sample_dir :: "dentry list" where
  "sample_dir = map (\<lambda>k. dentry_of (map (\<lambda>i. sample_phys (0x10040 + of_nat k * 64 + of_nat i)) [0..<64])) [0, 1]"

lemma sample_directory: "directory (sample_fs x) sample_dir"
proof -
  have c: "dir_count (sample_fs x) = Some 2"
    by (simp add: dir_count_def load32_def sample_phys_def sample_image_def)
  have z: "sample_phys (0x1007F) = 0" "sample_phys (0x100BF) = 0" by (simp_all add: sample_phys_def sample_image_def)
  have "0 \<in> set (map (\<lambda>i. sample_phys (0x10040 + of_nat i)) [0..<64])"
    unfolding set_map by (rule image_eqI [of _ _ 63]) (simp_all add: z)
  moreover have "0 \<in> set (map (\<lambda>i. sample_phys (0x10080 + of_nat i)) [0..<64])"
    unfolding set_map by (rule image_eqI [of _ _ 63]) (simp_all add: z)
  ultimately show ?thesis
    by (auto simp: directory_def sample_dir_def c load_bytes_sample less_Suc_eq numeral_2_eq_2)
qed

lemma sample_names: "map dentry_name sample_dir = [lit ''.'', lit ''hi'']"
  by code_simp

lemma sample_file: "file_data (sample_fs x) 0 (lit ''abc'')"
proof -
  have "inode_count (sample_fs x) = Some 1" "load32 (sample_fs x) 0x11000 = Some 3" "load32 (sample_fs x) 0x11004 = Some 0"
    by (simp_all add: inode_count_def load32_def sample_phys_def sample_image_def)
  then show ?thesis
    by (auto simp: file_data_def inode_at_def data_at_def data_byte_def sample_phys_def sample_image_def
        lit_def byte_of_def less_Suc_eq numeral_3_eq_3 word_less_nat_alt)
qed

lemma writable_sample: "n \<le> 65536 \<Longrightarrow> writable (sample_fs x) buf n"
proof -
  assume "n \<le> 65536"
  then have "i = j" if "i < n" "j < n" "(of_nat i :: u32) = of_nat j" for i j
  proof -
    have "i < 4294967296" "j < 4294967296" using that(1,2) \<open>n \<le> 65536\<close> by simp_all
    with of_nat_u32 [of i] of_nat_u32 [of j] that(3) show ?thesis by metis
  qed
  then show ?thesis by (simp add: writable_def)
qed

lemma sample_file_addrs: "file_addrs (sample_fs x) 0 3 \<subseteq> {a. a < 0x20000}"
proof -
  have "load32 (sample_fs x) 0x11004 = Some 0" "inode_count (sample_fs x) = Some 1"
    by (simp_all add: inode_count_def load32_def sample_phys_def sample_image_def)
  then show ?thesis
    by (auto simp: file_addrs_def word_addrs_def byte_addrs_def inode_at_def data_at_def less_Suc_eq numeral_3_eq_3 lessThan_Suc)
qed

lemma sample_buffer: "buffer_addrs (sample_fs x) 0x20000 n \<inter> {a. a < 0x20000} = {}" if "n \<le> 65536"
proof -
  have "\<not> (0x20000 + of_nat i :: u32) < 0x20000" if "i < n" for i
  proof -
    have "i < 65536" using that \<open>n \<le> 65536\<close> by simp
    then have "unat (0x20000 + of_nat i :: u32) = 0x20000 + i"
      by (simp add: unat_word_ariths of_nat_u32)
    then show ?thesis by (simp add: word_less_nat_alt)
  qed
  then show ?thesis by (auto simp: buffer_addrs_def)
qed

section \<open>Properties of the file system\<close>

text \<open>
  Looking a file up by name: for a readable C string, \<open>read_dentry_by_name\<close> fails on the empty
  name and on names of more than 32 characters, and otherwise returns the first directory entry whose
  name is exactly that string (a name of 32 characters has no terminating NUL in its entry), or fails
  and leaves the result untouched when there is none.
\<close>

theorem read_dentry_by_name_finds:
  assumes "directory s ds" and "cstr_at fname xs"
  shows "read_dentry_by_name fname d s =
    (if xs = [] \<or> 32 < length xs then Some (-1, d)
     else Some (case find (\<lambda>e. dentry_name e = xs) ds of None \<Rightarrow> (-1, d) | Some e \<Rightarrow> (0, e)))"
  by (rule read_dentry_by_name_lookup [OF assms])

theorem read_dentry_by_name_finds_witness:
  "read_dentry_by_name (arr (lit ''hi'' @ [0])) zero_dentry (sample_fs ()) = Some (0, sample_dir ! 1)"
proof -
  have "cstr_at (arr (lit ''hi'' @ [0])) (lit ''hi'')" by (rule cstr_at_arr) (simp add: lit_def byte_of_def)
  from read_dentry_by_name_finds [OF sample_directory this, of zero_dentry "()"]
  have r: "read_dentry_by_name (arr (lit ''hi'' @ [0])) zero_dentry (sample_fs ())
      = Some (case find (\<lambda>e. dentry_name e = lit ''hi'') sample_dir of None \<Rightarrow> (-1, zero_dentry) | Some e \<Rightarrow> (0, e))"
    by (simp add: lit_def)
  obtain d0 d1 where d: "sample_dir = [d0, d1]" by (simp add: sample_dir_def)
  have "map dentry_name [d0, d1] = [lit ''.'', lit ''hi'']" using sample_names unfolding d .
  then have "dentry_name d0 \<noteq> lit ''hi''" "dentry_name d1 = lit ''hi''" by (auto simp: lit_def)
  with r show ?thesis unfolding d by simp
qed

text \<open>
  Claim C21. Reading a file: for an inode of the image with contents \<open>bs\<close>, \<open>read_data\<close> at offset \<open>off\<close>
  with a length \<open>len\<close> completes, returns how many bytes of the file remain there (at most \<open>len\<close>, 0 at
  and after the end), puts exactly those bytes of the file into the buffer, and changes no other byte of
  memory and nothing else of the state; the buffer may be any writable memory that does not overlap the file.
\<close>

theorem read_data_reads_file:
  fixes len :: u32
  assumes "file_data s inode bs" and "off < 2 ^ 32"
    and "writable s buf (length (file_slice bs off (unat len)))"
    and "file_addrs s inode (length bs) \<inter> buffer_addrs s buf (length (file_slice bs off (unat len))) = {}"
  shows "\<exists>s'. read_data_mem inode (of_nat off) buf len s = Some (int (length (file_slice bs off (unat len))), s')
    \<and> load_bytes s' buf (length (file_slice bs off (unat len))) = Some (file_slice bs off (unat len))
    \<and> only_mem (buffer_addrs s buf (length (file_slice bs off (unat len)))) s s'"
  using read_data_mem_delivers [OF assms] by blast

theorem read_data_reads_file_witness:
  "\<exists>s'. read_data_mem 0 (of_nat 1) 0x20000 100 (sample_fs ()) = Some (2, s') \<and> load_bytes s' 0x20000 2 = Some (lit ''bc'')"
proof -
  have sl: "file_slice (lit ''abc'') 1 (unat (100 :: u32)) = lit ''bc''" by (simp add: file_slice_def lit_def)
  have len: "length (lit ''bc'') = 2" by simp
  have d: "file_addrs (sample_fs ()) 0 (length (lit ''abc'')) \<inter> buffer_addrs (sample_fs ()) 0x20000 (length (lit ''bc'')) = {}"
    using sample_file_addrs [of "()"] sample_buffer [of 2 "()"] by (auto simp: numeral_3_eq_3 numeral_2_eq_2)
  show ?thesis
    using read_data_reads_file [OF sample_file, of 1 "()" "0x20000" 100] writable_sample [of 2 "()" "0x20000"] d
    unfolding sl len by auto
qed

text \<open>
  \<open>read_data\<close> reads the length field of the inode before it checks the inode number: for a number
  that is not an inode of the image it returns -1 when that address is mapped, and faults when it is not.
\<close>

theorem read_data_bad_inode:
  assumes "inode_count (view m) = Some n" and "n \<le> inode"
  shows "read_data view wr inode offset len m =
    (case load32 (view m) (inode_at (view m) inode) of None \<Rightarrow> None | Some l \<Rightarrow> Some (-1, m))"
  using assms by (simp add: read_data_def inode_at_def Let_def split: option.split)

theorem read_data_bad_inode_witness:
  "read_data (\<lambda>s. s) (ptr_wr 0x20000) 7 0 10 (sample_fs ()) = Some (-1, sample_fs ())"
proof -
  have "inode_count (sample_fs ()) = Some 1"
    by (simp add: inode_count_def load32_def sample_phys_def sample_image_def)
  from read_data_bad_inode [of "\<lambda>s. s" "sample_fs ()", OF this, of 7 "ptr_wr 0x20000" 0 10]
  show ?thesis by (simp add: load32_def)
qed

text \<open>Repeated calls of \<open>dir_read\<close> with one buffer: each result with the bytes it left in the buffer.\<close>

primrec dir_reads :: "u32 \<Rightarrow> int \<Rightarrow> nat \<Rightarrow> 'a filesys_scheme \<Rightarrow> ((int \<times> u8 list) list \<times> 'a filesys_scheme) option" where
  "dir_reads buf nbytes 0 s = Some ([], s)"
| "dir_reads buf nbytes (Suc k) s = do {
     (r, s) \<leftarrow> dir_read buf nbytes s;
     bs \<leftarrow> load_bytes s buf (nat r);
     (rest, s) \<leftarrow> dir_reads buf nbytes k s;
     Some ((r, bs) # rest, s)
   }"

text \<open>What a listing relies on: the directory, and a 32-byte buffer outside it.\<close>

definition listing :: "u32 \<Rightarrow> dentry list \<Rightarrow> 'a filesys_scheme \<Rightarrow> bool" where
  "listing buf ds s \<longleftrightarrow> directory s ds \<and> to_test s = boot_block s \<and> writable s buf 32
     \<and> dir_addrs s (length ds) \<inter> buffer_addrs s buf 32 = {}"

lemma dir_addrs_same: "only_mem D s s' \<Longrightarrow> dir_addrs s' = dir_addrs s"
  using only_mem_fields(1) [of D s s'] only_mem_addrs [of D s s'] by (simp add: dir_addrs_def fun_eq_iff)

lemma listing_outside:
  assumes "only_mem (buffer_addrs s buf 32) s s'" and "listing buf ds s"
  shows "listing buf ds s'"
  using assms directory_outside [OF assms(1)] only_mem_fields [OF assms(1)] only_mem_addrs [OF assms(1)] dir_addrs_same [OF assms(1)]
  by (auto simp: listing_def)

lemma listing_dir_index [simp]: "listing buf ds (s\<lparr>dir_index := i\<rparr>) = listing buf ds s"
proof -
  have t: "translate (s\<lparr>dir_index := i\<rparr>) = translate s"
    using translate_same [of "s\<lparr>dir_index := i\<rparr>" s] by (auto simp: fun_eq_iff same_paging_def)
  then have l: "load8 (s\<lparr>dir_index := i\<rparr>) = load8 s" by (simp add: load8_def fun_eq_iff)
  then have "load_bytes (s\<lparr>dir_index := i\<rparr>) = load_bytes s" "load32 (s\<lparr>dir_index := i\<rparr>) = load32 s"
    by (simp_all add: load_bytes_def load32_def fun_eq_iff)
  with t show ?thesis
    by (simp add: listing_def directory_def dir_count_def writable_def dir_addrs_def buffer_addrs_def word_addrs_def)
qed

lemma load_bytes_dir_index [simp]: "load_bytes (s\<lparr>dir_index := i\<rparr>) = load_bytes s"
proof -
  have "translate (s\<lparr>dir_index := i\<rparr>) = translate s"
    using translate_same [of "s\<lparr>dir_index := i\<rparr>" s] by (auto simp: fun_eq_iff same_paging_def)
  then show ?thesis by (simp add: load8_def load_bytes_def fun_eq_iff)
qed

lemma length_dentry_name: "length (dentry_name (dentry_of bs)) \<le> 32"
  using length_takeWhile_le [of "\<lambda>c. c \<noteq> 0" "take 32 bs"] by (simp add: dentry_name_def dentry_of_def)

lemma dir_reads_rest:
  assumes "listing buf ds s" and "dir_index s = int i" and "i \<le> length ds" and "32 \<le> nbytes" and "nbytes < 2 ^ 31"
  shows "\<exists>s'. dir_reads buf nbytes (Suc (length ds - i)) s
    = Some (map (\<lambda>d. (int (length (dentry_name d)), dentry_name d)) (drop i ds) @ [(0, [])], s') \<and> listing buf ds s'"
  using assms(1-3)
proof (induction "length ds - i" arbitrary: i s)
  case 0
  then have "dir_read buf nbytes s = Some (0, s)"
    by (simp add: dir_read_def listing_def directory_def dir_count_def word_le_nat_alt of_nat_u32)
  moreover have "load_bytes s buf 0 = Some []" by (rule load_bytes_ptr) simp_all
  ultimately show ?case using 0 by simp
next
  case (Suc k)
  then have i: "i < length ds" and k: "k = length ds - Suc i" by auto
  let ?name = "dentry_name (ds ! i)"
  have "\<exists>bs. ds ! i = dentry_of bs" using Suc.prems(1) i by (auto simp: listing_def directory_def)
  then have l32: "length ?name \<le> 32" using length_dentry_name by auto
  then have n: "min (length ?name) (nat nbytes) = length ?name" "take (nat nbytes) ?name = ?name"
    using assms(4) by auto
  have w: "writable s buf (length ?name)" using Suc.prems(1) l32 by (auto simp: listing_def writable_def)
  from dir_read_next [of s ds i nbytes buf] Suc.prems i assms(4,5) w n obtain s1 where
    s1: "dir_read buf nbytes s = Some (int (length ?name), s1\<lparr>dir_index := int (Suc i)\<rparr>)"
      "only_mem (buffer_addrs s buf (length ?name)) s s1" "load_bytes s1 buf (length ?name) = Some ?name"
    by (auto simp: listing_def)
  have "listing buf ds s1"
    using listing_outside [OF only_mem_mono [OF s1(2) buffer_addrs_mono [OF l32]] Suc.prems(1)] .
  then have "listing buf ds (s1\<lparr>dir_index := int (Suc i)\<rparr>)" by simp
  from Suc.hyps(1) [OF k this] i obtain s' where
    s': "dir_reads buf nbytes (Suc k) (s1\<lparr>dir_index := int (Suc i)\<rparr>)
      = Some (map (\<lambda>d. (int (length (dentry_name d)), dentry_name d)) (drop (Suc i) ds) @ [(0, [])], s')" "listing buf ds s'"
    by (auto simp: k)
  have "dir_reads buf nbytes (Suc (Suc k)) s = Some ((int (length ?name), ?name) #
      map (\<lambda>d. (int (length (dentry_name d)), dentry_name d)) (drop (Suc i) ds) @ [(0, [])], s')"
    using s1 s'(1) by (subst dir_reads.simps(2)) (simp del: dir_reads.simps(2))
  moreover have "drop i ds = ds ! i # drop (Suc i) ds" using i by (simp add: Cons_nth_drop_Suc)
  moreover have "Suc (length ds - i) = Suc (Suc k)" using Suc.hyps(2) by simp
  ultimately show ?case using s'(2) by (auto simp del: dir_reads.simps(2))
qed

text \<open>
  Listing the directory: after \<open>dir_open\<close>, repeated calls of \<open>dir_read\<close> deliver the name of
  every entry of the directory, once and in order, with its length as the result, and the call after the
  last entry returns 0.
\<close>

theorem dir_read_lists_directory:
  assumes "listing buf ds s" and "32 \<le> nbytes" and "nbytes < 2 ^ 31" and "dir_open s = Some (r, s0)"
  shows "r = 0 \<and> (\<exists>s'. dir_reads buf nbytes (Suc (length ds)) s0
    = Some (map (\<lambda>d. (int (length (dentry_name d)), dentry_name d)) ds @ [(0, [])], s'))"
  using dir_reads_rest [of buf ds "s\<lparr>dir_index := 0\<rparr>" 0 nbytes] assms by (auto simp: dir_open_def)

lemma sample_dir_addrs: "dir_addrs (sample_fs x) (length sample_dir) \<subseteq> {a. a < 0x20000}"
proof -
  have "(0x10040 + of_nat i :: u32) < 0x20000 \<and> (0x10080 + of_nat i :: u32) < 0x20000" if "i < 64" for i
  proof -
    have "unat (0x10040 + of_nat i :: u32) = 0x10040 + i" "unat (0x10080 + of_nat i :: u32) = 0x10080 + i"
      using that by (simp_all add: unat_word_ariths of_nat_u32)
    with that show ?thesis by (simp add: word_less_nat_alt)
  qed
  then show ?thesis
    by (auto simp: dir_addrs_def word_addrs_def buffer_addrs_def sample_dir_def lessThan_Suc)
qed

theorem dir_read_lists_directory_witness:
  "\<exists>s'. dir_reads 0x20000 32 3 (sample_fs ()) = Some ([(1, lit ''.''), (2, lit ''hi''), (0, [])], s')"
proof -
  have "dir_addrs (sample_fs ()) (length sample_dir) \<subseteq> {a. a < 0x20000}" by (rule sample_dir_addrs)
  then have l: "listing 0x20000 sample_dir (sample_fs ())"
    using sample_directory [of "()"] sample_buffer [of 32 "()"] writable_sample [of 32 "()"]
    by (auto simp: listing_def)
  have o: "dir_open (sample_fs ()) = Some (0, sample_fs ())" by (simp add: dir_open_def)
  obtain d0 d1 where d: "sample_dir = [d0, d1]" by (simp add: sample_dir_def)
  have "map dentry_name [d0, d1] = [lit ''.'', lit ''hi'']" using sample_names unfolding d .
  then show ?thesis using dir_read_lists_directory [OF l _ _ o, of 32] unfolding d
    by (auto simp: numeral_3_eq_3 simp del: dir_reads.simps(2))
qed

end
