(* ===== verification/Terminal.thy ===== *)
theory Terminal
  imports Filesystem
begin

text \<open>
  The terminal driver student-distrib/terminal.c: the line buffer of a terminal, reading a line from
  it and writing to the screen. \<open>key_store\<close> is the store \<open>key_buf[num_buf++] = c\<close> that the keyboard
  driver makes for every key.
\<close>

section \<open>Operations\<close>

definition key_store :: "u8 \<Rightarrow> terminal \<Rightarrow> terminal option" where
  "key_store c t = do {
     kb \<leftarrow> aset (key_buf t) (num_buf t) c;
     Some (t\<lparr>key_buf := kb, num_buf := num_buf t + 1\<rparr>)
   }"

text \<open>
  The loop that copies from the line buffer to the caller's buffer until a new line or \<open>nbytes\<close>;
  the result is the number of bytes read.
\<close>

primrec key_copy :: "u32 \<Rightarrow> u8 list \<Rightarrow> nat \<Rightarrow> nat \<Rightarrow> 'a vm_scheme \<Rightarrow> (nat \<times> 'a vm_scheme) option" where
  "key_copy buf kb i 0 s = Some (i, s)"
| "key_copy buf kb i (Suc k) s = do {
     c \<leftarrow> aget kb (int i);
     s \<leftarrow> ptr_wr buf s i c;
     if c = NL then Some (Suc i, s) else key_copy buf kb (Suc i) k s
   }"

text \<open>Shifting the line that was read out of the buffer, with the counters.\<close>

definition key_shift :: "nat \<Rightarrow> terminal \<Rightarrow> terminal option" where
  "key_shift byte_read t = do {
     kb \<leftarrow> for_range 0 (nat (KEYBOARD_BUF_SIZE - int byte_read)) (\<lambda>j kb. do {
            b \<leftarrow> aget kb (int j + int byte_read);
            aset kb (int j) b
          }) (key_buf t);
     kb \<leftarrow> for_range 1 (Suc byte_read) (\<lambda>j kb. aset kb (KEYBOARD_BUF_SIZE - int j) 0) kb;
     Some (t\<lparr>key_buf := kb, num_buf := num_buf t - int byte_read, buf_flag := buf_flag t - 1\<rparr>)
   }"

definition terminal_read ::
  "('a console_scheme \<Rightarrow> 'a console_scheme option) list \<Rightarrow> u32 \<Rightarrow> int \<Rightarrow> 'a console_scheme \<Rightarrow>
   (int \<times> 'a console_scheme \<times> ('a console_scheme \<Rightarrow> 'a console_scheme option) list) option" where
  "terminal_read evs buf nbytes s = do {
     (s, evs) \<leftarrow> spin (\<lambda>s. map_option (\<lambda>t. buf_flag t = 0) (aget (terminal_t s) (terminal_num s))) evs s;
     let s = cli s;
     t \<leftarrow> aget (terminal_t s) (terminal_num s);
     (byte_read, s) \<leftarrow> key_copy buf (key_buf t) 0 (nat nbytes) s;
     t \<leftarrow> key_shift byte_read t;
     s \<leftarrow> set_terminal (terminal_num s) t s;
     Some (int byte_read, sti s, evs)
   }"

definition terminal_write :: "u32 \<Rightarrow> int \<Rightarrow> 'a console_scheme \<Rightarrow> (int \<times> 'a console_scheme) option" where
  "terminal_write buf nbytes s = do {
     let s = cli s;
     s \<leftarrow> for_range 0 (nat nbytes) (\<lambda>i s. do { c \<leftarrow> load8 s (buf + of_nat i); putc c s }) s;
     Some (int (nat nbytes), sti s)
   }"

definition terminal_open :: "'a console_scheme \<Rightarrow> (int \<times> 'a console_scheme) option" where
  "terminal_open s = Some (0, s)"

definition terminal_close :: "'a console_scheme \<Rightarrow> (int \<times> 'a console_scheme) option" where
  "terminal_close s = Some (0, s)"

section \<open>The line buffer as a queue\<close>

text \<open>
  The interface of an input buffer: keys are appended at the end and lines are taken from the front.
  \<open>pending t\<close> are the characters typed and not yet read.
\<close>

locale input_queue =
  fixes wf :: "'t \<Rightarrow> bool"
    and pending :: "'t \<Rightarrow> u8 list"
    and capacity :: nat
    and append_key :: "u8 \<Rightarrow> 't \<Rightarrow> 't option"
    and remove_keys :: "nat \<Rightarrow> 't \<Rightarrow> 't option"
  assumes append: "wf t \<Longrightarrow> length (pending t) < capacity \<Longrightarrow>
      \<exists>t'. append_key c t = Some t' \<and> wf t' \<and> pending t' = pending t @ [c]"
    and full: "wf t \<Longrightarrow> length (pending t) = capacity \<Longrightarrow> append_key c t = None"
    and remove: "wf t \<Longrightarrow> n \<le> length (pending t) \<Longrightarrow>
      \<exists>t'. remove_keys n t = Some t' \<and> wf t' \<and> pending t' = drop n (pending t)"
    and bounded: "wf t \<Longrightarrow> length (pending t) \<le> capacity"
begin

primrec append_keys :: "u8 list \<Rightarrow> 't \<Rightarrow> 't option" where
  "append_keys [] t = Some t"
| "append_keys (c # cs) t = do { t \<leftarrow> append_key c t; append_keys cs t }"

lemma append_keys_pending:
  assumes "wf t" and "length (pending t) + length cs \<le> capacity"
  shows "\<exists>t'. append_keys cs t = Some t' \<and> wf t' \<and> pending t' = pending t @ cs"
  using assms
proof (induction cs arbitrary: t)
  case Nil
  then show ?case by simp
next
  case (Cons c cs)
  from append [of t c] Cons.prems obtain t1 where t1: "append_key c t = Some t1" "wf t1" "pending t1 = pending t @ [c]"
    by auto
  with Cons.IH [of t1] Cons.prems show ?case by auto
qed

lemma append_keys_overflow:
  assumes "wf t" and "capacity < length (pending t) + length cs"
  shows "append_keys cs t = None"
  using assms
proof (induction cs arbitrary: t)
  case Nil
  then show ?case using bounded [of t] by simp
next
  case (Cons c cs)
  show ?case
  proof (cases "length (pending t) < capacity")
    case True
    with append [of t c] Cons.prems(1) obtain t1 where t1: "append_key c t = Some t1" "wf t1" "pending t1 = pending t @ [c]"
      by auto
    with Cons.IH [of t1] Cons.prems(2) show ?thesis by simp
  next
    case False
    with bounded [of t] full [of t c] Cons.prems(1) show ?thesis by simp
  qed
qed

text \<open>First in, first out: what was pending, then what is typed, is taken in that order.\<close>

lemma fifo:
  assumes "wf t" and "length (pending t) + length cs \<le> capacity"
  shows "\<exists>t1 t2. append_keys cs t = Some t1 \<and> remove_keys (length (pending t)) t1 = Some t2 \<and> pending t2 = cs"
  using append_keys_pending [OF assms] remove by (metis append_eq_conv_conj le_add1 length_append)

end

text \<open>The first \<open>num_buf\<close> characters of \<open>key_buf\<close> are pending.\<close>

definition wf_keys :: "terminal \<Rightarrow> bool" where
  "wf_keys t \<longleftrightarrow> length (key_buf t) = 128 \<and> 0 \<le> num_buf t \<and> num_buf t \<le> KEYBOARD_BUF_SIZE"

definition pending_keys :: "terminal \<Rightarrow> u8 list" where
  "pending_keys t = take (nat (num_buf t)) (key_buf t)"

lemma key_shift_buf:
  assumes "length kb = 128" and "n \<le> 128"
  shows "for_range 0 (nat (KEYBOARD_BUF_SIZE - int n)) (\<lambda>j kb. do {
            b \<leftarrow> aget kb (int j + int n);
            aset kb (int j) b
          }) kb = Some (drop n kb @ drop (128 - n) kb)"
proof -
  let ?I = "\<lambda>k kb'. kb' = take k (drop n kb) @ drop k kb"
  have "\<exists>kb'. for_range 0 (nat (KEYBOARD_BUF_SIZE - int n)) (\<lambda>j kb. do {
            b \<leftarrow> aget kb (int j + int n);
            aset kb (int j) b
          }) kb = Some kb' \<and> ?I (nat (KEYBOARD_BUF_SIZE - int n)) kb'"
  proof (rule for_range_total [where I = ?I])
    fix k kb' assume k: "k < nat (KEYBOARD_BUF_SIZE - int n)" and I: "?I k kb'"
    have len: "length kb' = 128" using I k assms by simp
    have b: "kb' ! (k + n) = drop n kb ! k" using I k assms by (simp add: nth_append add.commute)
    have nn: "nat (int k + int n) = k + n" by simp
    have "kb'[k := drop n kb ! k] = take (Suc k) (drop n kb) @ drop (Suc k) kb"
    proof -
      have d: "drop k kb = kb ! k # drop (Suc k) kb" using k assms by (simp add: Cons_nth_drop_Suc)
      have "length (take k (drop n kb)) = k" using k assms by simp
      then show ?thesis using I k assms by (simp add: list_update_append d take_Suc_conv_app_nth)
    qed
    then show "\<exists>t'. do { b \<leftarrow> aget kb' (int k + int n); aset kb' (int k) b } = Some t' \<and> ?I (Suc k) t'"
      using k len b by (simp add: aget_def aset_def nn)
  qed (use assms in auto)
  moreover have "nat (KEYBOARD_BUF_SIZE - int n) = 128 - n" by linarith
  ultimately show ?thesis using assms by simp
qed

lemma key_shift_clear:
  assumes "length kb = 128" and "n \<le> 128"
  shows "\<exists>kb'. for_range 1 (Suc n) (\<lambda>j kb. aset kb (KEYBOARD_BUF_SIZE - int j) 0) kb = Some kb'
    \<and> length kb' = 128 \<and> take (128 - n) kb' = take (128 - n) kb"
proof -
  let ?I = "\<lambda>k kb'. length kb' = 128 \<and> take (128 - n) kb' = take (128 - n) kb"
  show ?thesis
  proof (rule for_range_total [where I = ?I])
    fix k kb' assume k: "1 \<le> k" "k < Suc n" and I: "?I k kb'"
    have "nat (KEYBOARD_BUF_SIZE - int k) = 128 - k" by linarith
    then have "aset kb' (KEYBOARD_BUF_SIZE - int k) 0 = Some (kb'[128 - k := 0])" using I k assms(2) by (simp add: aset_def)
    moreover have "take (128 - n) (kb'[128 - k := 0]) = take (128 - n) kb'"
      using k by (simp add: take_update_cancel)
    ultimately show "\<exists>t'. aset kb' (KEYBOARD_BUF_SIZE - int k) 0 = Some t' \<and> ?I (Suc k) t'" using I by simp
  qed (use assms in auto)
qed

lemma key_shift_Some:
  assumes "wf_keys t" and "n \<le> length (pending_keys t)"
  shows "\<exists>kb. key_shift n t = Some (t\<lparr>key_buf := kb, num_buf := num_buf t - int n, buf_flag := buf_flag t - 1\<rparr>)
    \<and> length kb = 128 \<and> take (nat (num_buf t) - n) kb = drop n (pending_keys t)"
proof -
  have n: "n \<le> nat (num_buf t)" "nat (num_buf t) \<le> 128" and len: "length (key_buf t) = 128"
    using assms by (auto simp: wf_keys_def pending_keys_def)
  have l: "length (drop n (key_buf t) @ drop (128 - n) (key_buf t)) = 128" using len n by simp
  from key_shift_clear [OF l, of n] n obtain kb where
    kb: "for_range 1 (Suc n) (\<lambda>j kb. aset kb (KEYBOARD_BUF_SIZE - int j) 0) (drop n (key_buf t) @ drop (128 - n) (key_buf t)) = Some kb"
      "length kb = 128" "take (128 - n) kb = take (128 - n) (drop n (key_buf t) @ drop (128 - n) (key_buf t))" by auto
  have "take (nat (num_buf t) - n) kb = take (nat (num_buf t) - n) (take (128 - n) kb)" using n by (simp add: min_absorb1)
  also have "\<dots> = take (nat (num_buf t) - n) (drop n (key_buf t))" unfolding kb(3) using n len by (simp add: min_absorb1)
  finally have "take (nat (num_buf t) - n) kb = drop n (pending_keys t)" by (simp add: pending_keys_def drop_take)
  with kb(1,2) key_shift_buf [OF len, of n] n show ?thesis by (intro exI [of _ kb]) (simp add: key_shift_def)
qed

interpretation keys: input_queue wf_keys pending_keys 128 key_store key_shift
proof
  fix t c n
  assume wf: "wf_keys t"
  then have num: "length (pending_keys t) = nat (num_buf t)" by (auto simp: wf_keys_def pending_keys_def)
  show "length (pending_keys t) \<le> 128" using wf by (auto simp: wf_keys_def pending_keys_def)
  show "\<exists>t'. key_store c t = Some t' \<and> wf_keys t' \<and> pending_keys t' = pending_keys t @ [c]"
    if "length (pending_keys t) < 128"
  proof -
    have "num_buf t < 128" "0 \<le> num_buf t" "length (key_buf t) = 128" using that num wf by (auto simp: wf_keys_def)
    then show ?thesis
      by (auto simp: key_store_def aset_def wf_keys_def pending_keys_def nat_add_distrib take_Suc_conv_app_nth take_update_cancel)
  qed
  show "key_store c t = None" if "length (pending_keys t) = 128"
    using that num wf by (auto simp: wf_keys_def key_store_def aset_def)
  show "\<exists>t'. key_shift n t = Some t' \<and> wf_keys t' \<and> pending_keys t' = drop n (pending_keys t)"
    if n: "n \<le> length (pending_keys t)"
  proof -
    from key_shift_Some [OF wf n] obtain kb where
      "key_shift n t = Some (t\<lparr>key_buf := kb, num_buf := num_buf t - int n, buf_flag := buf_flag t - 1\<rparr>)"
      "length kb = 128" "take (nat (num_buf t) - n) kb = drop n (pending_keys t)" by blast
    moreover have "nat (num_buf t - int n) = nat (num_buf t) - n" by linarith
    moreover have "int n \<le> num_buf t" using n num wf by (auto simp: wf_keys_def le_nat_iff)
    ultimately show ?thesis using wf n num by (simp add: wf_keys_def) (simp add: pending_keys_def)
  qed
qed

section \<open>Reading a line\<close>

lemma key_copy_line:
  assumes kb: "take (Suc (length line)) kb = line @ [NL]" and line: "NL \<notin> set line"
    and "i \<le> length line" and "writable s buf (min (i + k) (Suc (length line)))"
    and "\<forall>j < i. ptr s buf j = Some (line ! j)"
  shows "\<exists>s'. key_copy buf kb i k s = Some (min (i + k) (Suc (length line)), s')
    \<and> (\<forall>j < min (i + k) (Suc (length line)). ptr s' buf j = Some ((line @ [NL]) ! j))
    \<and> only_mem (buffer_addrs s buf (min (i + k) (Suc (length line)))) s s'"
  using assms(3-5)
proof (induction k arbitrary: i s)
  case 0
  then show ?case by (auto simp: nth_append)
next
  case (Suc k)
  let ?n = "min (i + Suc k) (Suc (length line))"
  have len: "length line < length kb" using arg_cong [OF kb, of length] by simp
  have c: "kb ! i = (line @ [NL]) ! i" using Suc.prems(1) arg_cong [OF kb, of "\<lambda>xs. xs ! i"] by simp
  have get: "aget kb (int i) = Some (kb ! i)" using Suc.prems(1) len by (simp add: aget_def)
  have i: "i < ?n" using Suc.prems(1) by simp
  obtain s1 where s1: "ptr_wr buf s i (kb ! i) = Some s1" "ptr_ok (\<lambda>_ _. None) buf ?n s1"
    "\<And>j. j < ?n \<Longrightarrow> ptr s1 buf j = (if j = i then Some (kb ! i) else ptr s buf j)"
    using ptr_copy.wr_step [OF ptr_ok_const [OF Suc.prems(2), of "\<lambda>_. None"] i, of "kb ! i"] by metis
  have m: "only_mem (buffer_addrs s buf ?n) s s1" using only_mem_ptr_wr [OF s1(1) i] .
  show ?case
  proof (cases "i = length line")
    case True
    then have "kb ! i = NL" using c by (simp add: nth_append)
    with True get s1 m Suc.prems show ?thesis by (auto simp: nth_append less_Suc_eq)
  next
    case False
    with Suc.prems(1) have il: "i < length line" by simp
    then have nl: "kb ! i \<noteq> NL" "kb ! i = line ! i" using c line by (auto simp: nth_append) (metis nth_mem)
    have n: "min (Suc i + k) (Suc (length line)) = ?n" by simp
    have "\<forall>j < Suc i. ptr s1 buf j = Some (line ! j)"
      using s1(3) [OF i] s1(3) Suc.prems(3) nl(2) il by (auto simp: less_Suc_eq)
    moreover have "writable s1 buf ?n" "buffer_addrs s1 buf ?n = buffer_addrs s buf ?n"
      using Suc.prems(2) only_mem_addrs [OF m] by auto
    ultimately obtain s' where "key_copy buf kb (Suc i) k s1 = Some (?n, s')"
      "\<forall>j < ?n. ptr s' buf j = Some ((line @ [NL]) ! j)" "only_mem (buffer_addrs s buf ?n) s1 s'"
      using Suc.IH [of "Suc i" s1] il unfolding n by auto
    with get s1(1) nl only_mem_trans [OF m] show ?thesis by auto
  qed
qed

lemma aget_updated: "0 \<le> i \<Longrightarrow> nat i < length ts \<Longrightarrow> aset ts i t = Some (ts[nat i := t])"
  by (simp add: aset_def)

lemma wf_console_only_mem: "only_mem D s s' \<Longrightarrow> wf_console s' = wf_console s"
  by (auto simp: only_mem_def wf_console_def)

lemma only_mem_console:
  assumes "only_mem D s s'"
  shows "terminal_t s' = terminal_t s" "terminal_num s' = terminal_num s"
    "terminal_displayed s' = terminal_displayed s" "video_mem s' = video_mem s" "term_at s' = term_at s"
  using assms by (auto simp: only_mem_def term_at_def fun_eq_iff)

lemma translate_cli [simp]: "translate (cli s) = translate s" "translate (sti s) = translate s"
  using translate_same [of "cli s" s] translate_same [of "sti s" s]
  by (auto simp: fun_eq_iff same_paging_def cpu_defs)

lemma ptr_cli [simp]: "ptr (cli s) = ptr s" "ptr (sti s) = ptr s"
  using translate_cli [of s] by (simp_all add: ptr_def load8_def fun_eq_iff cpu_defs)

text \<open>One call of \<open>terminal_read\<close> when a line is waiting: \<open>n\<close> is what is delivered of it.\<close>

lemma terminal_read_line:
  assumes wf: "wf_console s" and keys: "wf_keys (term_at s (terminal_num s))"
    and pend: "pending_keys (term_at s (terminal_num s)) = line @ NL # rest" and line: "NL \<notin> set line"
    and flag: "buf_flag (term_at s (terminal_num s)) \<noteq> 0" and "0 \<le> nbytes"
  defines "n \<equiv> min (nat nbytes) (Suc (length line))"
  assumes w: "writable s buf n"
  shows "\<exists>s' t. terminal_read evs buf nbytes s = Some (int n, s', evs)
    \<and> load_bytes s' buf n = Some (take n (line @ [NL]))
    \<and> terminal_t s' = (terminal_t s)[nat (terminal_num s) := t]
    \<and> wf_keys t \<and> pending_keys t = drop n (line @ NL # rest)
    \<and> buf_flag t = buf_flag (term_at s (terminal_num s)) - 1 \<and> wf_console s'
    \<and> (\<exists>f. s' = s\<lparr>phys := f, terminal_t := (terminal_t s)[nat (terminal_num s) := t], eflags_IF := True\<rparr> \<and> (\<forall>q. q \<notin> buffer_addrs s buf n \<longrightarrow> f q = phys s q))
    \<and> t = (term_at s (terminal_num s))\<lparr>key_buf := key_buf t, num_buf := num_buf t, buf_flag := buf_flag t\<rparr>"
proof -
  let ?i = "terminal_num s" and ?t = "term_at s (terminal_num s)"
  note num = wf_console_num [OF wf]
  have get: "aget (terminal_t s) ?i = Some ?t" by (rule wf_console_term(1) [OF wf num(1,2)])
  have len3: "length (terminal_t s) = 3" using wf by (simp add: wf_console_def)
  have kb: "take (Suc (length line)) (key_buf ?t) = line @ [NL]"
  proof -
    have "length (pending_keys ?t) = Suc (length line) + length rest" using pend by simp
    then have "Suc (length line) \<le> nat (num_buf ?t)" by (simp add: pending_keys_def)
    then have "take (Suc (length line)) (key_buf ?t) = take (Suc (length line)) (pending_keys ?t)"
      by (simp add: pending_keys_def min_absorb1)
    then show ?thesis using pend by simp
  qed
  have "writable (cli s) buf (min (0 + nat nbytes) (Suc (length line)))" using w by (simp add: writable_def n_def)
  from key_copy_line [OF kb line _ this] obtain s1 where
    s1: "key_copy buf (key_buf ?t) 0 (nat nbytes) (cli s) = Some (n, s1)"
      "\<forall>j < n. ptr s1 buf j = Some ((line @ [NL]) ! j)" "only_mem (buffer_addrs (cli s) buf n) (cli s) s1"
    by (auto simp: n_def)
  have np: "n \<le> length (pending_keys ?t)" using pend by (simp add: n_def)
  from key_shift_Some [OF keys np] obtain kb' where
    sh: "key_shift n ?t = Some (?t\<lparr>key_buf := kb', num_buf := num_buf ?t - int n, buf_flag := buf_flag ?t - 1\<rparr>)"
      "length kb' = 128" by blast
  let ?t' = "?t\<lparr>key_buf := kb', num_buf := num_buf ?t - int n, buf_flag := buf_flag ?t - 1\<rparr>"
  let ?s' = "sti (s1\<lparr>terminal_t := (terminal_t s)[nat ?i := ?t']\<rparr>)"
  have t1: "terminal_t s1 = terminal_t s" "terminal_num s1 = ?i"
    using only_mem_console [OF s1(3)] by (simp_all add: cpu_defs)
  have set: "set_terminal (terminal_num s1) ?t' s1 = Some (s1\<lparr>terminal_t := (terminal_t s)[nat ?i := ?t']\<rparr>)"
    using num len3 by (simp add: set_terminal_def aset_def t1)
  have run: "terminal_read evs buf nbytes s = Some (int n, ?s', evs)"
    using get flag s1(1) sh(1) set
    by (simp add: terminal_read_def) (simp add: cli_def)
  have pk: "wf_keys ?t' \<and> pending_keys ?t' = drop n (line @ NL # rest)"
    using keys.remove [OF keys np] sh(1) pend by auto
  have ld: "load_bytes ?s' buf n = Some (take n (line @ [NL]))"
  proof (rule load_bytes_ptr)
    have "ptr ?s' buf = ptr s1 buf"
      using translate_same [of "s1\<lparr>terminal_t := (terminal_t s)[nat ?i := ?t']\<rparr>" s1]
      by (simp add: ptr_def load8_def same_paging_def fun_eq_iff)
    then show "\<forall>j < n. ptr ?s' buf j = Some (take n (line @ [NL]) ! j)" using s1(2) by (simp del: take_append)
  qed (simp add: n_def)
  have "wf_console s1" using wf_console_only_mem [OF s1(3)] wf by (simp add: wf_console_def cpu_defs)
  then have "wf_console (s1\<lparr>terminal_t := (terminal_t s1)[nat ?i := ?t'], video_mem := video_mem s1\<rparr>)"
    by (rule wf_console_upd)
       (use wf_console_term(2) [OF wf num(1,2)] sh(2) \<open>wf_console s1\<close> in \<open>auto simp: wf_terminal_def wf_cursor_def wf_console_def\<close>)
  then have wf': "wf_console ?s'" by (simp add: t1 wf_console_def cpu_defs)
  obtain f where f: "s1 = (cli s)\<lparr>phys := f\<rparr>" "\<forall>q. q \<notin> buffer_addrs (cli s) buf n \<longrightarrow> f q = phys (cli s) q" using s1(3) by (auto simp: only_mem_def)
  have "buffer_addrs (cli s) buf n = buffer_addrs s buf n" using translate_same [of "cli s" s] by (simp add: buffer_addrs_def cpu_defs same_paging_def)
  then have "\<exists>f. ?s' = s\<lparr>phys := f, terminal_t := (terminal_t s)[nat ?i := ?t'], eflags_IF := True\<rparr> \<and> (\<forall>q. q \<notin> buffer_addrs s buf n \<longrightarrow> f q = phys s q)"
    using f by (intro exI [of _ f]) (simp add: cpu_defs)
  with run pk ld wf' show ?thesis by (intro exI [of _ ?s'] exI [of _ ?t'] conjI) (auto simp: cpu_defs)
qed

section \<open>Writing to the screen\<close>

lemma outputs_load8: "outputs S s s' \<Longrightarrow> load8 s' a = load8 s a"
  using load8_same [of s' s a] console_frameD [of s' s] by (simp add: outputs_def)

lemma write_loop_prints:
  assumes wf: "wf_console s" and xs: "load_bytes s buf (length xs) = Some xs" and "BS \<notin> set xs"
  shows "\<exists>s'. for_range 0 (length xs) (\<lambda>i s. do { c \<leftarrow> load8 s (buf + of_nat i); putc c s }) s = Some s'
    \<and> outputs (spec_text xs (shown s (terminal_num s))) s s'"
proof -
  have byte: "load8 s (buf + of_nat i) = Some (xs ! i)" if "i < length xs" for i
    using load_bytes_nth [OF xs that] .
  let ?I = "\<lambda>k s'. outputs (spec_text (take k xs) (shown s (terminal_num s))) s s'"
  have "\<exists>s'. for_range 0 (length xs) (\<lambda>i s. do { c \<leftarrow> load8 s (buf + of_nat i); putc c s }) s = Some s' \<and> ?I (length xs) s'"
  proof (rule for_range_total [where I = ?I])
    show "?I 0 s" using outputs_refl [OF wf] by simp
    fix k t
    assume k: "k < length xs" and I: "?I k t"
    note o = outputs_wf [OF I]
    have "xs ! k \<noteq> BS" using assms(3) k by (metis nth_mem)
    with o prints_putc [of t "xs ! k"] obtain u where
      u: "putc (xs ! k) t = Some u" "outputs (spec_put (xs ! k) (shown t (terminal_num t))) t u" by (auto simp: prints_def)
    have "outputs (spec_text (take (Suc k) xs) (shown s (terminal_num s))) s u"
    proof -
      have "outputs (spec_put (xs ! k) (spec_text (take k xs) (shown s (terminal_num s)))) s u"
        using outputs_trans [OF I u(2)] o by metis
      then show ?thesis using k by (simp add: take_Suc_conv_app_nth)
    qed
    then show "\<exists>t'. do { c \<leftarrow> load8 t (buf + of_nat k); putc c t } = Some t' \<and> ?I (Suc k) t'"
      using u(1) byte [OF k] outputs_load8 [OF I] by simp
  qed simp
  then show ?thesis by simp
qed

lemma eflags_views [simp]:
  "term_at (s\<lparr>eflags_IF := b\<rparr>) = term_at s" "screen_buf (s\<lparr>eflags_IF := b\<rparr>) = screen_buf s"
  "shown (s\<lparr>eflags_IF := b\<rparr>) = shown s" "wf_console (s\<lparr>eflags_IF := b\<rparr>) = wf_console s"
  by (auto simp: term_at_def screen_buf_def shown_def wf_console_def fun_eq_iff)

lemma outputs_flags:
  assumes "outputs S (s\<lparr>eflags_IF := b\<rparr>) s'"
  shows "outputs S (s\<lparr>eflags_IF := b'\<rparr>) (s'\<lparr>eflags_IF := b'\<rparr>)"
  using assms
proof -
  have "console_frame (s'\<lparr>eflags_IF := b'\<rparr>) = (console_frame s')\<lparr>eflags_IF := b'\<rparr>"
    "console_frame (s\<lparr>eflags_IF := b'\<rparr>) = (console_frame (s\<lparr>eflags_IF := b\<rparr>))\<lparr>eflags_IF := b'\<rparr>"
    by (simp_all add: console_frame_def)
  then have "console_frame (s'\<lparr>eflags_IF := b'\<rparr>) = console_frame (s\<lparr>eflags_IF := b'\<rparr>)"
    using assms by (simp add: outputs_def)
  then show ?thesis using assms by (simp add: outputs_def)
qed

section \<open>Properties of the terminal\<close>

text \<open>
  Reading from the terminal: when the running terminal has a complete line waiting,
  \<open>terminal_read\<close> returns without waiting, stores the line with its new line in the caller's buffer, or
  its first \<open>nbytes\<close> characters when it is longer, returns their number, and leaves exactly the rest of
  the typed characters pending; the other terminals are untouched. The count of waiting lines goes down by
  one in both cases, also when part of the line is still pending.
\<close>

theorem terminal_read_delivers_line:
  assumes "wf_console s" and "wf_keys (term_at s (terminal_num s))"
    and "pending_keys (term_at s (terminal_num s)) = line @ NL # rest" and "NL \<notin> set line"
    and "buf_flag (term_at s (terminal_num s)) \<noteq> 0" and "0 \<le> nbytes"
    and "writable s buf (min (nat nbytes) (Suc (length line)))"
  shows "\<exists>s'. terminal_read evs buf nbytes s = Some (int (min (nat nbytes) (Suc (length line))), s', evs)
    \<and> load_bytes s' buf (min (nat nbytes) (Suc (length line))) = Some (take (nat nbytes) (line @ [NL]))
    \<and> pending_keys (term_at s' (terminal_num s)) = drop (min (nat nbytes) (Suc (length line))) (line @ NL # rest)
    \<and> buf_flag (term_at s' (terminal_num s)) = buf_flag (term_at s (terminal_num s)) - 1
    \<and> (\<forall>j. 0 \<le> j \<and> j \<noteq> terminal_num s \<longrightarrow> term_at s' j = term_at s j) \<and> wf_console s'"
proof -
  from terminal_read_line [OF assms] obtain s' t where
    r: "terminal_read evs buf nbytes s = Some (int (min (nat nbytes) (Suc (length line))), s', evs)"
      "load_bytes s' buf (min (nat nbytes) (Suc (length line))) = Some (take (min (nat nbytes) (Suc (length line))) (line @ [NL]))"
      "terminal_t s' = (terminal_t s)[nat (terminal_num s) := t]"
      "pending_keys t = drop (min (nat nbytes) (Suc (length line))) (line @ NL # rest)"
      "buf_flag t = buf_flag (term_at s (terminal_num s)) - 1" "wf_console s'" by blast
  have "take (min (nat nbytes) (Suc (length line))) (line @ [NL]) = take (nat nbytes) (line @ [NL])"
    by (cases "nat nbytes \<le> Suc (length line)") (simp_all add: min_def del: take_append)
  moreover have "term_at s' (terminal_num s) = t"
    using r(3) wf_console_num [OF assms(1)] assms(1) by (simp add: term_at_def wf_console_def)
  moreover have "term_at s' j = term_at s j" if "0 \<le> j" "j \<noteq> terminal_num s" for j
    using r(3) that wf_console_num(1) [OF assms(1)] by (simp add: term_at_def eq_nat_nat_iff)
  ultimately show ?thesis using r by (intro exI [of _ s']) (simp del: take_append drop_append)
qed

text \<open>A terminal with the line \<open>ls\<close> typed.\<close>

definition typed_console :: "'a \<Rightarrow> 'a console_scheme" where
  "typed_console x = (blank_console x)\<lparr>terminal_t := [blank_terminal\<lparr>key_buf := lit ''ls'' @ NL # replicate 125 0,
     num_buf := 3, buf_flag := 1\<rparr>, blank_terminal, blank_terminal]\<rparr>"

lemma typed_terminal: "term_at (typed_console x) 0 = blank_terminal\<lparr>key_buf := lit ''ls'' @ NL # replicate 125 0,
     num_buf := 3, buf_flag := 1\<rparr>" "terminal_num (typed_console x) = 0"
  by (simp_all add: typed_console_def blank_defs term_at_def)

lemma wf_typed: "wf_console (typed_console x)"
  using wf_blank_console [of x] wf_blank_terminal
  by (simp add: typed_console_def wf_console_def wf_terminal_def wf_cursor_def blank_terminal_def)

lemma blank_translate: "translate (typed_console x) a = Some a" "translate (blank_console x) a = Some a"
  by (simp_all add: translate_def typed_console_def blank_defs)

lemma writable_identity:
  assumes "translate s = Some" and "n \<le> 65536"
  shows "writable s buf n"
proof -
  have "i = j" if "i < n" "j < n" "(of_nat i :: u32) = of_nat j" for i j
  proof -
    have "i < 4294967296" "j < 4294967296" using that(1,2) assms(2) by simp_all
    with of_nat_u32 [of i] of_nat_u32 [of j] that(3) show ?thesis by metis
  qed
  with assms(1) show ?thesis by (simp add: writable_def)
qed

theorem terminal_read_delivers_line_witness:
  "\<exists>s'. terminal_read [] 0x20000 80 (typed_console ()) = Some (3, s', []) \<and> load_bytes s' 0x20000 3 = Some (lit ''ls'' @ [NL])
    \<and> pending_keys (term_at s' 0) = []"
proof -
  have k: "wf_keys (term_at (typed_console ()) 0)" "pending_keys (term_at (typed_console ()) 0) = lit ''ls'' @ NL # []"
    by (simp_all add: typed_terminal wf_keys_def pending_keys_def lit_def)
  have n: "NL \<notin> set (lit ''ls'')" by (simp add: lit_def byte_of_def)
  have w: "writable (typed_console ()) 0x20000 3"
    by (rule writable_identity) (auto simp: fun_eq_iff blank_translate)
  have l: "length (lit ''ls'') = 2" by simp
  from terminal_read_delivers_line [OF wf_typed, of "()" "lit ''ls''" "[]" 80 "0x20000" "[]"] k n w
  show ?thesis by (auto simp: typed_terminal l numeral_3_eq_3)
qed

lemma terminal_write_outputs:
  assumes "wf_console s" and "load_bytes s buf (length xs) = Some xs" and "BS \<notin> set xs"
  shows "\<exists>s'. terminal_write buf (int (length xs)) s = Some (int (length xs), s')
    \<and> outputs (spec_text xs (shown s (terminal_num s))) (s\<lparr>eflags_IF := True\<rparr>) s'"
proof -
  have e: "wf_console (cli s) = wf_console s" "shown (cli s) = shown s" "terminal_num (cli s) = terminal_num s"
    by (auto simp: cpu_defs wf_console_def shown_def screen_buf_def term_at_def fun_eq_iff)
  have "load_bytes (cli s) buf (length xs) = Some xs"
    using assms(2) translate_cli(1) [of s] by (simp add: load_bytes_def load8_def cpu_defs)
  from write_loop_prints [of "cli s" buf xs] this assms(1,3) e obtain s1 where
    s1: "for_range 0 (length xs) (\<lambda>i s. do { c \<leftarrow> load8 s (buf + of_nat i); putc c s }) (cli s) = Some s1"
      "outputs (spec_text xs (shown s (terminal_num s))) (cli s) s1" by auto
  have o: "outputs (spec_text xs (shown s (terminal_num s))) (s\<lparr>eflags_IF := True\<rparr>) (sti s1)"
    using s1(2) by (auto simp: cpu_defs intro: outputs_flags)
  have "terminal_write buf (int (length xs)) s = Some (int (length xs), sti s1)"
    using s1(1) by (simp add: terminal_write_def)
  with o show ?thesis by blast
qed

lemma terminal_write_shows:
  assumes "wf_console s" and "load_bytes s buf (length xs) = Some xs" and "BS \<notin> set xs"
  shows "\<exists>s'. terminal_write buf (int (length xs)) s = Some (int (length xs), s') \<and> wf_console s'
    \<and> shown s' (terminal_num s) = spec_text xs (shown s (terminal_num s))
    \<and> (\<forall>j. 0 \<le> j \<and> j < 3 \<longrightarrow> (j \<noteq> terminal_num s \<longrightarrow> shown s' j = shown s j)
        \<and> pending_keys (term_at s' j) = pending_keys (term_at s j))"
proof -
  obtain s' where s': "terminal_write buf (int (length xs)) s = Some (int (length xs), s')"
    "outputs (spec_text xs (shown s (terminal_num s))) (s\<lparr>eflags_IF := True\<rparr>) s'"
    using terminal_write_outputs [OF assms] by blast
  then show ?thesis by (intro exI [of _ s']) (auto simp: outputs_def shown_def same_input_def pending_keys_def)
qed

text \<open>
  Writing to the terminal: \<open>terminal_write\<close> of \<open>n\<close> readable bytes without backspaces completes,
  returns \<open>n\<close>, and shows exactly these bytes, in order, on the terminal of the running process; the other
  terminals show what they showed and no keyboard buffer changes.
\<close>

theorem terminal_write_prints:
  assumes "wf_console s" and "load_bytes s buf (length xs) = Some xs" and "BS \<notin> set xs"
  shows "\<exists>s'. terminal_write buf (int (length xs)) s = Some (int (length xs), s') \<and> wf_console s'
    \<and> shown s' (terminal_num s) = spec_text xs (shown s (terminal_num s))
    \<and> (\<forall>j. 0 \<le> j \<and> j < 3 \<longrightarrow> (j \<noteq> terminal_num s \<longrightarrow> shown s' j = shown s j)
        \<and> pending_keys (term_at s' j) = pending_keys (term_at s j))"
  by (rule terminal_write_shows [OF assms])

theorem terminal_write_prints_witness:
  "\<exists>s'. terminal_write 0x20000 1 (blank_console ()) = Some (1, s') \<and> shown s' 0 = spec_put 0 (shown (blank_console ()) 0)"
proof -
  have "load_bytes (blank_console ()) 0x20000 (length [0 :: u8]) = Some [0]"
    by (rule load_bytes_ptr) (simp_all add: ptr_def load8_def blank_translate, simp add: blank_defs)
  from terminal_write_prints [OF wf_blank_console this] show ?thesis by (auto simp: shown_blank)
qed

text \<open>
  Typed characters are delivered in the order they were typed: on a buffer with room for them,
  storing the keys \<open>cs\<close> and then removing what was pending before leaves exactly \<open>cs\<close> pending.
\<close>

theorem keys_first_in_first_out:
  assumes "wf_keys t" and "length (pending_keys t) + length cs \<le> 128"
  shows "\<exists>t1 t2. keys.append_keys cs t = Some t1 \<and> pending_keys t1 = pending_keys t @ cs
    \<and> key_shift (length (pending_keys t)) t1 = Some t2 \<and> pending_keys t2 = cs"
  using keys.fifo [OF assms] keys.append_keys_pending [OF assms] by auto

theorem keys_first_in_first_out_witness:
  "\<exists>t1 t2. keys.append_keys (lit ''ls'') blank_terminal = Some t1 \<and> pending_keys t1 = lit ''ls''
    \<and> key_shift 0 t1 = Some t2 \<and> pending_keys t2 = lit ''ls''"
proof -
  have "wf_keys blank_terminal" "pending_keys blank_terminal = []"
    by (simp_all add: wf_keys_def pending_keys_def blank_terminal_def)
  with keys_first_in_first_out [of blank_terminal "lit ''ls''"] show ?thesis by simp
qed

end
