(* ===== verification/Descriptors.thy ===== *)
theory Descriptors
  imports Terminal
begin

text \<open>
  Process control blocks and file descriptors: the structures of student-distrib/syscall.h,
  \<open>file_read\<close> of filesystem.c, and the system calls of syscall.c that work on the descriptors of the
  running process (\<open>read\<close>, \<open>write\<close>, \<open>open\<close>, \<open>close\<close>, \<open>getargs\<close>, \<open>vidmap\<close>).

  The control block of a process lies at the bottom of its kernel stack; \<open>pcb_at\<close> maps the address of a
  block to its contents, and the code finds the running process by masking \<open>tss.esp0\<close>. A pointer into
  the table of file operations is the operation set it points to; \<open>None\<close> is a pointer that was never set.
\<close>

abbreviation (input) FD_N :: int where "FD_N \<equiv> 8"
abbreviation (input) FD_STDIN :: int where "FD_STDIN \<equiv> 0"
abbreviation (input) FD_STDOUT :: int where "FD_STDOUT \<equiv> 1"
abbreviation (input) PCB_MASK :: u32 where "PCB_MASK \<equiv> 0xFFFFE000"
abbreviation (input) FILE_TYPE_RTC :: u32 where "FILE_TYPE_RTC \<equiv> 0"
abbreviation (input) FILE_TYPE_DIR :: u32 where "FILE_TYPE_DIR \<equiv> 1"
abbreviation (input) FILE_TYPE_FILE :: u32 where "FILE_TYPE_FILE \<equiv> 2"

section \<open>State\<close>

datatype fops_t = Rtc_ops | Dir_ops | File_ops | Term_ops

record file_desc_t =
  fops :: "fops_t option"
  fd_inode :: u32
  file_pos :: u32
  flags :: int

record pcb_t =
  file_desc_array :: "file_desc_t list"
  esp_prev :: u32
  ebp_prev :: u32
  process_num_prev :: int
  pcb_esp :: u32
  pcb_ebp :: u32
  pcb_process_num :: int
  pcb_argument :: "u8 list"

datatype syscall_fn = Sys_halt | Sys_execute | Sys_read | Sys_write | Sys_open | Sys_close | Sys_getargs | Sys_vidmap

record kernel = filesys +
  pcb_at :: "u32 \<Rightarrow> pcb_t"
  tss_esp0 :: u32
  tss_ss0 :: u16
  process :: "int list"
  current_process_num :: int
  syscall_jumptable :: "syscall_fn option list"

definition cur_pcb :: "'a kernel_scheme \<Rightarrow> u32" where
  "cur_pcb s = tss_esp0 s AND PCB_MASK"

definition get_fd :: "int \<Rightarrow> 'a kernel_scheme \<Rightarrow> file_desc_t option" where
  "get_fd fd s = aget (file_desc_array (pcb_at s (cur_pcb s))) fd"

definition set_fd :: "int \<Rightarrow> file_desc_t \<Rightarrow> 'a kernel_scheme \<Rightarrow> 'a kernel_scheme option" where
  "set_fd fd d s = do {
     ds \<leftarrow> aset (file_desc_array (pcb_at s (cur_pcb s))) fd d;
     Some (s\<lparr>pcb_at := (pcb_at s)(cur_pcb s := (pcb_at s (cur_pcb s))\<lparr>file_desc_array := ds\<rparr>)\<rparr>)
   }"

section \<open>File operations\<close>

definition file_read :: "int \<Rightarrow> u32 \<Rightarrow> int \<Rightarrow> 'a kernel_scheme \<Rightarrow> (int \<times> 'a kernel_scheme) option" where
  "file_read fd buffer nbytes s = do {
     d \<leftarrow> get_fd fd s;
     let cur_inode = fd_inode d;
     let cur_offset = file_pos d;
     (read_bytes, s) \<leftarrow> read_data_mem cur_inode cur_offset buffer (word_of_int nbytes) s;
     d \<leftarrow> get_fd fd s;
     s \<leftarrow> set_fd fd (d\<lparr>file_pos := file_pos d + word_of_int read_bytes\<rparr>) s;
     Some (read_bytes, s)
   }"

text \<open>
  The calls through the table of file operations. \<open>evs\<close> are the interrupts that arrive while a call
  waits, \<open>cmos\<close> the byte that the clock driver reads from the device.
\<close>

type_synonym 'a interrupts = "('a kernel_scheme \<Rightarrow> 'a kernel_scheme option) list"

definition fops_read :: "fops_t \<Rightarrow> 'a interrupts \<Rightarrow> int \<Rightarrow> u32 \<Rightarrow> int \<Rightarrow> 'a kernel_scheme \<Rightarrow>
    (int \<times> 'a kernel_scheme \<times> 'a interrupts) option" where
  "fops_read f evs fd buf nbytes s = (case f of
      Rtc_ops \<Rightarrow> rtc_read evs s
    | Dir_ops \<Rightarrow> do { (r, s) \<leftarrow> dir_read buf nbytes s; Some (r, s, evs) }
    | File_ops \<Rightarrow> do { (r, s) \<leftarrow> file_read fd buf nbytes s; Some (r, s, evs) }
    | Term_ops \<Rightarrow> terminal_read evs buf nbytes s)"

definition fops_write :: "fops_t \<Rightarrow> u8 \<Rightarrow> int \<Rightarrow> u32 \<Rightarrow> int \<Rightarrow> 'a kernel_scheme \<Rightarrow> (int \<times> 'a kernel_scheme) option" where
  "fops_write f cmos fd buf nbytes s = (case f of
      Rtc_ops \<Rightarrow> rtc_write cmos buf s
    | Dir_ops \<Rightarrow> dir_write s
    | File_ops \<Rightarrow> file_write s
    | Term_ops \<Rightarrow> terminal_write buf nbytes s)"

definition fops_close :: "fops_t \<Rightarrow> 'a kernel_scheme \<Rightarrow> (int \<times> 'a kernel_scheme) option" where
  "fops_close f s = (case f of
      Rtc_ops \<Rightarrow> rtc_close s
    | Dir_ops \<Rightarrow> dir_close s
    | File_ops \<Rightarrow> file_close s
    | Term_ops \<Rightarrow> terminal_close s)"

section \<open>System calls on descriptors\<close>

definition sys_read :: "'a interrupts \<Rightarrow> int \<Rightarrow> u32 \<Rightarrow> int \<Rightarrow> 'a kernel_scheme \<Rightarrow>
    (int \<times> 'a kernel_scheme \<times> 'a interrupts) option" where
  "sys_read evs fd buf nbytes s =
     (if fd < 0 \<or> fd \<ge> FD_N \<or> buf = 0 \<or> nbytes < 0 \<or> fd = FD_STDOUT then Some (-1, s, evs)
      else do {
        d \<leftarrow> get_fd fd s;
        if flags d = 0 then Some (-1, s, evs)
        else do {
          f \<leftarrow> fops d;
          fops_read f evs fd buf nbytes s
        }
      })"

definition sys_write :: "u8 \<Rightarrow> int \<Rightarrow> u32 \<Rightarrow> int \<Rightarrow> 'a kernel_scheme \<Rightarrow> (int \<times> 'a kernel_scheme) option" where
  "sys_write cmos fd buf nbytes s =
     (if fd < 0 \<or> fd \<ge> FD_N \<or> buf = 0 \<or> nbytes < 0 \<or> fd = FD_STDIN then Some (-1, s)
      else do {
        d \<leftarrow> get_fd fd s;
        f \<leftarrow> fops d;
        fops_write f cmos fd buf nbytes s
      })"

text \<open>The search for a free slot from index \<open>i\<close> over \<open>k\<close> slots; the inner option is the slot found.\<close>

primrec free_fd :: "file_desc_t list \<Rightarrow> nat \<Rightarrow> nat \<Rightarrow> nat option option" where
  "free_fd ds i 0 = Some None"
| "free_fd ds i (Suc k) = do {
     d \<leftarrow> aget ds (int i);
     if flags d = 0 then Some (Some i) else free_fd ds (Suc i) k
   }"

text \<open>The \<open>switch\<close> of \<open>open\<close> on the file type; another type leaves the operations of the slot as they are.\<close>

definition open_type :: "u8 \<Rightarrow> dentry \<Rightarrow> file_desc_t \<Rightarrow> 'a kernel_scheme \<Rightarrow> (int \<times> file_desc_t \<times> 'a kernel_scheme) option" where
  "open_type cmos e d s =
     (if file_type e = FILE_TYPE_RTC then do {
        (r, s) \<leftarrow> rtc_open cmos s;
        Some (r, d\<lparr>fops := Some Rtc_ops, fd_inode := 0\<rparr>, s)
      } else if file_type e = FILE_TYPE_DIR then do {
        (r, s) \<leftarrow> dir_open s;
        Some (r, d\<lparr>fops := Some Dir_ops, fd_inode := 0\<rparr>, s)
      } else if file_type e = FILE_TYPE_FILE then do {
        (r, s) \<leftarrow> file_open s;
        Some (r, d\<lparr>fops := Some File_ops, fd_inode := inode_num e\<rparr>, s)
      } else Some (0, d, s))"

definition sys_open :: "u8 \<Rightarrow> u32 \<Rightarrow> 'a kernel_scheme \<Rightarrow> (int \<times> 'a kernel_scheme) option" where
  "sys_open cmos filename s =
     (if filename = 0 then Some (-1, s)
      else do {
        (r, e) \<leftarrow> read_dentry_by_name (ptr s filename) zero_dentry s;
        if r = -1 then Some (-1, s)
        else do {
          slot \<leftarrow> free_fd (file_desc_array (pcb_at s (cur_pcb s))) 2 6;
          case slot of
            None \<Rightarrow> Some (-1, s)
          | Some i \<Rightarrow> do {
              d \<leftarrow> get_fd (int i) s;
              (r, d, s) \<leftarrow> open_type cmos e d s;
              if r \<noteq> 0 then Some (-1, s)
              else do {
                s \<leftarrow> set_fd (int i) (d\<lparr>flags := 1, file_pos := 0\<rparr>) s;
                Some (int i, s)
              }
            }
        }
      })"

definition sys_close :: "int \<Rightarrow> 'a kernel_scheme \<Rightarrow> (int \<times> 'a kernel_scheme) option" where
  "sys_close fd s =
     (if fd \<le> FD_STDOUT \<or> fd \<ge> FD_N then Some (-1, s)
      else do {
        d \<leftarrow> get_fd fd s;
        if flags d = 0 then Some (-1, s)
        else do {
          s \<leftarrow> set_fd fd (d\<lparr>flags := 0\<rparr>) s;
          f \<leftarrow> fops d;
          (r, s) \<leftarrow> fops_close f s;
          Some (if r \<noteq> 0 then -1 else 0, s)
        }
      })"

definition getargs :: "u32 \<Rightarrow> int \<Rightarrow> 'a kernel_scheme \<Rightarrow> (int \<times> 'a kernel_scheme) option" where
  "getargs buf nbytes s =
     (if buf = 0 \<or> nbytes < 0 then Some (-1, s)
      else do {
        let arg = pcb_argument (pcb_at s (cur_pcb s));
        c \<leftarrow> aget arg 0;
        if c = 0 then Some (-1, s)
        else do {
          s \<leftarrow> strncpy (\<lambda>_. arr arg) (ptr_wr buf) (nat nbytes) s;
          Some (0, s)
        }
      })"

text \<open>A little-endian 32-bit store.\<close>

definition store32 :: "'a vm_scheme \<Rightarrow> u32 \<Rightarrow> u32 \<Rightarrow> 'a vm_scheme option" where
  "store32 s a w = do {
     s \<leftarrow> store8 s a (ucast w);
     s \<leftarrow> store8 s (a + 1) (ucast (drop_bit 8 w));
     s \<leftarrow> store8 s (a + 2) (ucast (drop_bit 16 w));
     store8 s (a + 3) (ucast (drop_bit 24 w))
   }"

text \<open>The video page of user programs at 132 MB, for the screen.\<close>

definition map_video_page :: "'a vm_scheme \<Rightarrow> 'a vm_scheme option" where
  "map_video_page s = do {
     pd \<leftarrow> aset (PageDirectory s) (uint (MB_132 div FOUR_MB)) (UserPageTable_at s OR (RW_ENABLE OR PRESENT) OR USER_ENABLE);
     pt \<leftarrow> aset (UserPageTable s) 0 (VIDEO_MEM OR (RW_ENABLE OR PRESENT) OR USER_ENABLE);
     Some (s\<lparr>PageDirectory := pd, UserPageTable := pt\<rparr>)
   }"

definition vidmap :: "u32 \<Rightarrow> 'a kernel_scheme \<Rightarrow> (int \<times> 'a kernel_scheme) option" where
  "vidmap screen_start s =
     (if screen_start = 0 \<or> screen_start > MB_132 \<or> screen_start < MB_132 - FOUR_MB then Some (-1, s)
      else do {
        let s = cli s;
        s \<leftarrow> map_video_page s;
        s \<leftarrow> store32 s screen_start MB_132;
        Some (0x8400000, sti s)
      })"

section \<open>What reading memory depends on\<close>

text \<open>States with the same address space and the same memory, whatever else they hold.\<close>

definition same_mem :: "'a vm_scheme \<Rightarrow> 'a vm_scheme \<Rightarrow> bool" where
  "same_mem s t \<longleftrightarrow> same_paging s t \<and> phys s = phys t"

lemma same_mem_reads:
  assumes "same_mem s t"
  shows "translate s = translate t" "load8 s = load8 t" "load32 s = load32 t" "load_bytes s = load_bytes t"
    "ptr s = ptr t" "buffer_addrs s = buffer_addrs t" "word_addrs s = word_addrs t" "writable s = writable t"
proof -
  show t: "translate s = translate t" using assms by (auto simp: same_mem_def fun_eq_iff intro: translate_same)
  show l: "load8 s = load8 t" using t assms by (simp add: load8_def same_mem_def fun_eq_iff [where f = "load8 s"])
  show "load32 s = load32 t" "load_bytes s = load_bytes t" "ptr s = ptr t"
    using l by (simp_all add: load32_def load_bytes_def ptr_def fun_eq_iff)
  show "buffer_addrs s = buffer_addrs t" "word_addrs s = word_addrs t" "writable s = writable t"
    using t by (simp_all add: buffer_addrs_def word_addrs_def writable_def fun_eq_iff)
qed

definition same_image :: "'a filesys_scheme \<Rightarrow> 'a filesys_scheme \<Rightarrow> bool" where
  "same_image s t \<longleftrightarrow> same_mem s t \<and> filesystem_start s = filesystem_start t \<and> boot_block s = boot_block t \<and> to_test s = to_test t"

lemma same_image_reads:
  assumes "same_image s t"
  shows "file_data s = file_data t" "directory s = directory t" "file_addrs s = file_addrs t" "dir_addrs s = dir_addrs t"
    "read_dentry_by_name f d s = read_dentry_by_name f d t"
proof -
  have e: "filesystem_start s = filesystem_start t" "boot_block s = boot_block t" using assms by (auto simp: same_image_def)
  note m = same_mem_reads [of s t]
  have c: "inode_count s = inode_count t" "dir_count s = dir_count t"
    using m assms e by (simp_all add: inode_count_def dir_count_def same_image_def)
  have a: "inode_at s = inode_at t" "data_at s = data_at t" "data_byte s = data_byte t"
    using m assms e by (simp_all add: inode_at_def data_at_def data_byte_def same_image_def fun_eq_iff)
  show "file_data s = file_data t" using m c a assms by (simp add: file_data_def same_image_def fun_eq_iff)
  show "directory s = directory t" using m c e assms by (simp add: directory_def same_image_def fun_eq_iff)
  show "file_addrs s = file_addrs t"
    using m c a e assms by (simp add: file_addrs_def byte_addrs_def same_image_def fun_eq_iff)
  show "dir_addrs s = dir_addrs t" using m e assms by (simp add: dir_addrs_def same_image_def fun_eq_iff)
  have "read_dentry_by_index i d' s = read_dentry_by_index i d' t" for i d'
    using m c e assms by (simp add: read_dentry_by_index_def same_image_def cong: if_cong)
  then have "dentry_scan f n d' i k s = dentry_scan f n d' i k t" for n d' i k
    by (induction k arbitrary: i) (simp_all cong: if_cong)
  then show "read_dentry_by_name f d s = read_dentry_by_name f d t" using c by (simp add: read_dentry_by_name_def cong: if_cong)
qed

section \<open>Descriptors of the running process\<close>

definition wf_fds :: "'a kernel_scheme \<Rightarrow> bool" where
  "wf_fds s \<longleftrightarrow> length (file_desc_array (pcb_at s (cur_pcb s))) = 8"

definition fd_of :: "'a kernel_scheme \<Rightarrow> int \<Rightarrow> file_desc_t" where
  "fd_of s i = file_desc_array (pcb_at s (cur_pcb s)) ! nat i"

definition put_fd :: "int \<Rightarrow> file_desc_t \<Rightarrow> 'a kernel_scheme \<Rightarrow> 'a kernel_scheme" where
  "put_fd fd d s = s\<lparr>pcb_at := (pcb_at s)(cur_pcb s := (pcb_at s (cur_pcb s))
     \<lparr>file_desc_array := (file_desc_array (pcb_at s (cur_pcb s)))[nat fd := d]\<rparr>)\<rparr>"

lemma get_fd_in: "wf_fds s \<Longrightarrow> 0 \<le> fd \<Longrightarrow> fd < 8 \<Longrightarrow> get_fd fd s = Some (fd_of s fd)"
  by (simp add: get_fd_def aget_def wf_fds_def fd_of_def)

lemma set_fd_in: "wf_fds s \<Longrightarrow> 0 \<le> fd \<Longrightarrow> fd < 8 \<Longrightarrow> set_fd fd d s = Some (put_fd fd d s)"
  by (simp add: set_fd_def aset_def wf_fds_def put_fd_def)

lemma put_fd_simps [simp]:
  "cur_pcb (put_fd fd d s) = cur_pcb s" "wf_fds (put_fd fd d s) = wf_fds s"
  "same_image (put_fd fd d s) s" "wf_console (put_fd fd d s) = wf_console s"
  "terminal_t (put_fd fd d s) = terminal_t s" "terminal_num (put_fd fd d s) = terminal_num s"
  "dir_index (put_fd fd d s) = dir_index s" "phys (put_fd fd d s) = phys s" "tss_esp0 (put_fd fd d s) = tss_esp0 s"
  by (simp_all add: put_fd_def cur_pcb_def wf_fds_def same_image_def same_mem_def same_paging_def wf_console_def)

lemma fd_of_put_fd:
  assumes "wf_fds s" and "0 \<le> fd" and "fd < 8"
  shows "fd_of (put_fd fd d s) fd = d" and "0 \<le> j \<Longrightarrow> j \<noteq> fd \<Longrightarrow> fd_of (put_fd fd d s) j = fd_of s j"
  using assms by (simp_all add: fd_of_def put_fd_def cur_pcb_def wf_fds_def eq_nat_nat_iff)

lemma free_fd_find:
  assumes "length ds = i + k"
  shows "free_fd ds i k = Some (find (\<lambda>j. flags (ds ! j) = 0) [i..<i + k])"
  using assms
proof (induction k arbitrary: i)
  case (Suc k)
  have "[i..<i + Suc k] = i # [Suc i..<Suc i + k]" by (simp add: upt_conv_Cons del: upt_Suc)
  with Suc show ?case by (simp add: aget_def del: upt_Suc)
qed simp

lemma free_fd_8: "wf_fds s \<Longrightarrow> free_fd (file_desc_array (pcb_at s (cur_pcb s))) 2 6
    = Some (find (\<lambda>j. flags (fd_of s (int j)) = 0) [2..<8])"
  using free_fd_find [of "file_desc_array (pcb_at s (cur_pcb s))" 2 6] by (simp add: wf_fds_def fd_of_def)

lemma only_mem_kernel:
  assumes "only_mem D s s'"
  shows "cur_pcb s' = cur_pcb s" "wf_fds s' = wf_fds s" "fd_of s' = fd_of s" "pcb_at s' = pcb_at s"
  using assms by (auto simp: only_mem_def cur_pcb_def wf_fds_def fd_of_def fun_eq_iff)

section \<open>Reading files through descriptors\<close>

text \<open>
  \<open>reads_file fd buf c inode bs off s\<close>: descriptor \<open>fd\<close> is open on the file \<open>inode\<close> with contents \<open>bs\<close>, at
  position \<open>off\<close>, and \<open>buf\<close> has room for \<open>c\<close> bytes outside the file.
\<close>

definition reads_file :: "int \<Rightarrow> u32 \<Rightarrow> nat \<Rightarrow> u32 \<Rightarrow> u8 list \<Rightarrow> nat \<Rightarrow> 'a kernel_scheme \<Rightarrow> bool" where
  "reads_file fd buf c inode bs off s \<longleftrightarrow> wf_fds s \<and> 2 \<le> fd \<and> fd < 8 \<and> buf \<noteq> 0 \<and> c < 2 ^ 31
     \<and> fops (fd_of s fd) = Some File_ops \<and> flags (fd_of s fd) \<noteq> 0 \<and> fd_inode (fd_of s fd) = inode
     \<and> file_pos (fd_of s fd) = of_nat off \<and> off \<le> length bs \<and> file_data s inode bs
     \<and> writable s buf c \<and> file_addrs s inode (length bs) \<inter> buffer_addrs s buf c = {}"

lemma reads_file_step:
  assumes r: "reads_file fd buf c inode bs off s"
  defines "xs \<equiv> file_slice bs off c"
  shows "\<exists>s'. sys_read evs fd buf (int c) s = Some (int (length xs), s', evs)
    \<and> load_bytes s' buf (length xs) = Some xs \<and> reads_file fd buf c inode bs (off + length xs) s'
    \<and> (\<forall>j. 0 \<le> j \<and> j \<noteq> fd \<longrightarrow> fd_of s' j = fd_of s j)"
proof -
  from r have wf: "wf_fds s" "2 \<le> fd" "fd < 8" "buf \<noteq> 0" "c < 2 ^ 31" "fops (fd_of s fd) = Some File_ops"
    "flags (fd_of s fd) \<noteq> 0" "fd_inode (fd_of s fd) = inode" "file_pos (fd_of s fd) = of_nat off" "off \<le> length bs"
    "file_data s inode bs" "writable s buf c" "file_addrs s inode (length bs) \<inter> buffer_addrs s buf c = {}"
    by (simp_all add: reads_file_def)
  have l: "length bs < 2 ^ 31" using wf(11) by (auto simp: file_data_def)
  have xs: "length xs \<le> c" "off + length xs \<le> length bs" using wf(10) by (auto simp: xs_def file_slice_def)
  have u: "unat (word_of_int (int c) :: u32) = c" using wf(5) by (simp add: of_nat_u32)
  have w: "writable s buf (length xs)" using wf(12) xs(1) by (auto simp: writable_def)
  have d: "file_addrs s inode (length bs) \<inter> buffer_addrs s buf (length xs) = {}"
    using wf(13) buffer_addrs_mono [OF xs(1), of s buf] by blast
  from read_data_mem_delivers [OF wf(11), of off buf "word_of_int (int c)"] w d wf(10) l u
  obtain s1 where s1: "read_data_mem inode (of_nat off) buf (word_of_int (int c)) s = Some (int (length xs), s1)"
    "load_bytes s1 buf (length xs) = Some xs" "only_mem (buffer_addrs s buf (length xs)) s s1" "file_data s1 inode bs"
    by (auto simp: xs_def)
  note k = only_mem_kernel [OF s1(3)] and a = only_mem_addrs [OF s1(3)]
  let ?d = "(fd_of s fd)\<lparr>file_pos := of_nat off + of_nat (length xs)\<rparr>"
  have rd: "sys_read evs fd buf (int c) s = Some (int (length xs), put_fd fd ?d s1, evs)"
    using wf s1(1) k
    by (simp add: sys_read_def get_fd_in fops_read_def file_read_def set_fd_in Let_def)
  have im: "same_image (put_fd fd ?d s1) s1" by simp
  then have mm: "same_mem (put_fd fd ?d s1) s1" by (simp add: same_image_def)
  have fa: "file_addrs s1 inode (length bs) = file_addrs s inode (length bs)"
  proof -
    have e: "only_mem (buffer_addrs s buf (length xs)) s s1" by (rule s1(3))
    show ?thesis using file_addrs_outside [OF e d wf(11)] .
  qed
  have "reads_file fd buf c inode bs (off + length xs) (put_fd fd ?d s1)"
    using wf xs(2) k a s1(4) fa fd_of_put_fd(1) [of s1 fd ?d] same_image_reads [OF im] same_mem_reads [OF mm]
    by (simp add: reads_file_def)
  moreover have "load_bytes (put_fd fd ?d s1) buf (length xs) = Some xs" using s1(2) same_mem_reads(4) [OF mm] by simp
  moreover have "\<forall>j. 0 \<le> j \<and> j \<noteq> fd \<longrightarrow> fd_of (put_fd fd ?d s1) j = fd_of s j"
    using fd_of_put_fd(2) [of s1 fd _ ?d] wf k by simp
  ultimately show ?thesis using rd by blast
qed

text \<open>Reading a file to its end in pieces of \<open>c\<close> bytes, as the program \<open>cat\<close> does; \<open>k\<close> bounds the calls.\<close>

primrec read_to_end :: "nat \<Rightarrow> int \<Rightarrow> u32 \<Rightarrow> int \<Rightarrow> 'a kernel_scheme \<Rightarrow> (u8 list \<times> 'a kernel_scheme) option" where
  "read_to_end 0 fd buf c s = None"
| "read_to_end (Suc k) fd buf c s = do {
     (r, s, evs) \<leftarrow> sys_read [] fd buf c s;
     if r = 0 then Some ([], s)
     else do {
       bs \<leftarrow> load_bytes s buf (nat r);
       (rest, s) \<leftarrow> read_to_end k fd buf c s;
       Some (bs @ rest, s)
     }
   }"

lemma read_to_end_rest:
  assumes "0 < c" and "reads_file fd buf c inode bs off s" and "length bs - off < k"
  shows "\<exists>s'. read_to_end k fd buf (int c) s = Some (drop off bs, s') \<and> reads_file fd buf c inode bs (length bs) s'"
  using assms(2,3)
proof (induction k arbitrary: off s)
  case 0
  then show ?case by simp
next
  case (Suc k)
  let ?xs = "file_slice bs off c"
  from reads_file_step [OF Suc.prems(1), of "[]"] obtain s1 where
    s1: "sys_read [] fd buf (int c) s = Some (int (length ?xs), s1, [])" "load_bytes s1 buf (length ?xs) = Some ?xs"
      "reads_file fd buf c inode bs (off + length ?xs) s1" by auto
  have off: "off \<le> length bs" using Suc.prems(1) by (simp add: reads_file_def)
  show ?case
  proof (cases "off = length bs")
    case True
    then have "length ?xs = 0" by (simp add: file_slice_def)
    with s1(1,3) True show ?thesis by simp
  next
    case False
    then have ne: "0 < length ?xs" using off assms(1) by (simp add: file_slice_def)
    have "length bs - (off + length ?xs) < k" using Suc.prems(2) ne off False by linarith
    from Suc.IH [OF s1(3) this] obtain s' where
      s': "read_to_end k fd buf (int c) s1 = Some (drop (off + length ?xs) bs, s')" "reads_file fd buf c inode bs (length bs) s'"
      by blast
    have "?xs @ drop (off + length ?xs) bs = drop off bs"
      by (simp add: file_slice_def) (metis append_take_drop_id drop_drop add.commute min_def drop_all le_add_diff_inverse2 linorder_le_cases nat_le_linear take_all length_drop)
    with s1 s' ne show ?thesis by simp
  qed
qed

section \<open>A running process\<close>

definition closed_fd :: file_desc_t where
  "closed_fd = \<lparr>fops = None, fd_inode = 0, file_pos = 0, flags = 0\<rparr>"

definition term_fd :: file_desc_t where
  "term_fd = \<lparr>fops = Some Term_ops, fd_inode = 0, file_pos = 0, flags = 1\<rparr>"

definition shell_pcb :: pcb_t where
  "shell_pcb = \<lparr>file_desc_array = [term_fd, term_fd] @ replicate 6 closed_fd, esp_prev = 0, ebp_prev = 0,
     process_num_prev = 0, pcb_esp = 0, pcb_ebp = 0, pcb_process_num = 1, pcb_argument = lit ''hi'' @ replicate 126 0\<rparr>"

definition sample_kernel :: "'a \<Rightarrow> 'a kernel_scheme" where
  "sample_kernel x = sample_fs \<lparr>pcb_at = (\<lambda>_. shell_pcb), tss_esp0 = 0x7FFFFC, tss_ss0 = 0x18,
     process = [1, 1, 0, 0, 0, 0], current_process_num = 1, syscall_jumptable = replicate 10 None, \<dots> = x\<rparr>"

lemma sample_kernel_fields [simp]:
  "pcb_at (sample_kernel x) = (\<lambda>_. shell_pcb)" "tss_esp0 (sample_kernel x) = 0x7FFFFC" "process (sample_kernel x) = [1, 1, 0, 0, 0, 0]"
  by (simp_all add: sample_kernel_def sample_fs_def blank_rtc_def blank_defs)

lemma wf_fds_sample: "wf_fds (sample_kernel x)"
  by (simp add: wf_fds_def shell_pcb_def)

lemma fd_of_sample: "fd_of (sample_kernel x) fd = ([term_fd, term_fd] @ replicate 6 closed_fd) ! nat fd"
  by (simp add: fd_of_def shell_pcb_def)

text \<open>
  Claim C19. Reading a file piece by piece until \<open>read\<close> returns 0 delivers its whole contents from the
  current position, for every positive buffer size: the file position moves by what each call
  delivered, no byte is lost or repeated, and enough calls always reach the end.
\<close>

theorem read_to_end_delivers_file:
  assumes "reads_file fd buf c inode bs off s" and "0 < c" and "length bs - off < k"
  shows "\<exists>s'. read_to_end k fd buf (int c) s = Some (drop off bs, s')"
  using read_to_end_rest [OF assms(2,1,3)] by blast

lemma sample_disjoint: "file_addrs (sample_fs x) 0 3 \<inter> buffer_addrs (sample_fs x) 0x20000 2 = {}"
  using sample_file_addrs [of x] sample_buffer [of 2 x] by auto

lemma sample_reads_file:
  "reads_file 2 0x20000 2 0 (lit ''abc'') 0 (put_fd 2 \<lparr>fops = Some File_ops, fd_inode = 0, file_pos = 0, flags = 1\<rparr> (sample_kernel ()))"
proof -
  let ?d = "\<lparr>fops = Some File_ops, fd_inode = 0, file_pos = 0, flags = 1\<rparr>"
  have im: "same_image (put_fd 2 ?d (sample_kernel ())) (sample_kernel ())" by simp
  then have mm: "same_mem (put_fd 2 ?d (sample_kernel ())) (sample_kernel ())" by (simp add: same_image_def)
  have "file_addrs (sample_kernel ()) 0 3 \<inter> buffer_addrs (sample_kernel ()) 0x20000 2 = {}"
    unfolding sample_kernel_def by (rule sample_disjoint)
  then have "file_addrs (sample_kernel ()) 0 (length (lit ''abc'')) \<inter> buffer_addrs (sample_kernel ()) 0x20000 2 = {}"
    by (simp add: numeral_3_eq_3)
  moreover have "writable (sample_kernel ()) 0x20000 2" "file_data (sample_kernel ()) 0 (lit ''abc'')"
    unfolding sample_kernel_def by (rule writable_sample, simp, rule sample_file)
  ultimately show ?thesis
    using fd_of_put_fd(1) [OF wf_fds_sample, of 2 ?d "()"] wf_fds_sample [of "()"] same_image_reads [OF im] same_mem_reads [OF mm]
    by (simp add: reads_file_def)
qed

theorem read_to_end_delivers_file_witness:
  "\<exists>s'. read_to_end 9 2 0x20000 (int 2) (put_fd 2 \<lparr>fops = Some File_ops, fd_inode = 0, file_pos = 0, flags = 1\<rparr> (sample_kernel ()))
    = Some (lit ''abc'', s')"
  using read_to_end_delivers_file [OF sample_reads_file, of 9] by simp

section \<open>Opening and closing\<close>

definition ops_of_type :: "u32 \<Rightarrow> fops_t" where
  "ops_of_type t = (if t = FILE_TYPE_RTC then Rtc_ops else if t = FILE_TYPE_DIR then Dir_ops else File_ops)"

text \<open>The descriptor that \<open>open\<close> sets up for a directory entry.\<close>

definition opened_fd :: "dentry \<Rightarrow> file_desc_t" where
  "opened_fd e = \<lparr>fops = Some (ops_of_type (file_type e)),
     fd_inode = (if file_type e = FILE_TYPE_FILE then inode_num e else 0), file_pos = 0, flags = 1\<rparr>"

definition lowest_free :: "'a kernel_scheme \<Rightarrow> nat option" where
  "lowest_free s = find (\<lambda>j. flags (fd_of s (int j)) = 0) [2..<8]"

lemma find_upt:
  assumes "find P [a..<b] = Some i"
  shows "a \<le> i" "i < b" "P i" "\<And>j. a \<le> j \<Longrightarrow> j < i \<Longrightarrow> \<not> P j"
proof -
  from assms obtain k where k: "k < b - a" "P (a + k)" "i = a + k" "\<forall>j < k. \<not> P (a + j)"
    by (auto simp: find_Some_iff)
  then show "a \<le> i" "i < b" "P i" by auto
  show "\<And>j. a \<le> j \<Longrightarrow> j < i \<Longrightarrow> \<not> P j" using k(3,4) by (metis le_add_diff_inverse nat_add_left_cancel_less)
qed

lemma lowest_free_least:
  assumes "lowest_free s = Some i"
  shows "2 \<le> i \<and> i < 8 \<and> flags (fd_of s (int i)) = 0 \<and> (\<forall>j \<in> {2..<i}. flags (fd_of s (int j)) \<noteq> 0)"
  using find_upt [OF assms [unfolded lowest_free_def]] by auto

lemma open_type_Some:
  assumes "file_type e \<in> {FILE_TYPE_RTC, FILE_TYPE_DIR, FILE_TYPE_FILE}"
  shows "\<exists>s'. open_type cmos e d s = Some (0, d\<lparr>fops := fops (opened_fd e), fd_inode := fd_inode (opened_fd e)\<rparr>, s')
    \<and> cur_pcb s' = cur_pcb s \<and> pcb_at s' = pcb_at s \<and> phys s' = phys s \<and> terminal_t s' = terminal_t s"
  using assms rtc_set_frequency_Some [of 2 cmos s]
  by (auto simp: open_type_def opened_fd_def ops_of_type_def rtc_open_def dir_open_def file_open_def cur_pcb_def)

lemma set_fd_same_pcb:
  assumes "wf_fds s" and "0 \<le> fd" and "fd < 8" and "cur_pcb s' = cur_pcb s" and "pcb_at s' = pcb_at s"
  shows "set_fd fd d s' = Some (put_fd fd d s')" "fd_of s' = fd_of s" "wf_fds s'"
  using assms set_fd_in [of s' fd d] by (auto simp: wf_fds_def fd_of_def fun_eq_iff)

lemma open_found:
  assumes dir: "directory s ds" and name: "filename \<noteq> 0" "cstr_at (ptr s filename) xs" "xs \<noteq> []" "length xs \<le> 32"
    and e: "find (\<lambda>e. dentry_name e = xs) ds = Some e" and type: "file_type e \<in> {FILE_TYPE_RTC, FILE_TYPE_DIR, FILE_TYPE_FILE}"
    and wf: "wf_fds s" and i: "lowest_free s = Some i"
  shows "\<exists>s'. sys_open cmos filename s = Some (int i, s') \<and> wf_fds s' \<and> fd_of s' (int i) = opened_fd e
    \<and> (\<forall>j. 0 \<le> j \<and> j \<noteq> int i \<longrightarrow> fd_of s' j = fd_of s j) \<and> terminal_t s' = terminal_t s \<and> phys s' = phys s"
proof -
  have i8: "0 \<le> int i" "int i < 8" using lowest_free_least [OF i] by auto
  have lookup: "read_dentry_by_name (ptr s filename) zero_dentry s = Some (0, e)"
    using dentry_scan_finds [OF dir name(2,4), of 0 zero_dentry] dir name(3,4) e
    by (simp add: read_dentry_by_name_def strlen_at [OF name(2)] directory_def of_nat_u32)
  from open_type_Some [OF type, of cmos "fd_of s (int i)" s] obtain s1 where
    s1: "open_type cmos e (fd_of s (int i)) s = Some (0, (fd_of s (int i))\<lparr>fops := fops (opened_fd e), fd_inode := fd_inode (opened_fd e)\<rparr>, s1)"
      "cur_pcb s1 = cur_pcb s" "pcb_at s1 = pcb_at s" "phys s1 = phys s" "terminal_t s1 = terminal_t s" by blast
  have d: "(fd_of s (int i))\<lparr>fops := fops (opened_fd e), fd_inode := fd_inode (opened_fd e), flags := 1, file_pos := 0\<rparr> = opened_fd e"
    by (simp add: opened_fd_def)
  note p = set_fd_same_pcb [OF wf i8 s1(2,3)]
  have "sys_open cmos filename s = Some (int i, put_fd (int i) (opened_fd e) s1)"
    using name(1) lookup i [unfolded lowest_free_def] free_fd_8 [OF wf] get_fd_in [OF wf i8] s1(1) p(1) by (simp add: sys_open_def d)
  with fd_of_put_fd [OF p(3) i8] p(2,3) s1(4,5) show ?thesis by simp
qed

lemma close_open_fd:
  assumes "wf_fds s" and "2 \<le> fd" and "fd < 8" and "flags (fd_of s fd) \<noteq> 0" and "fops (fd_of s fd) = Some f"
  shows "sys_close fd s = Some (0, put_fd fd ((fd_of s fd)\<lparr>flags := 0\<rparr>) s)"
  using assms
  by (cases f) (simp_all add: sys_close_def get_fd_in set_fd_in fops_close_def rtc_close_def dir_close_def file_close_def terminal_close_def)

text \<open>
  Opening a file: for the name of a directory entry, \<open>open\<close> returns the lowest free descriptor
  from 2 on, sets it up with the operations of the file type, the inode of a regular file and position
  0, and changes no other descriptor.
\<close>

theorem open_allocates_lowest:
  assumes "directory s ds" and "filename \<noteq> 0" and "cstr_at (ptr s filename) xs" and "xs \<noteq> []" and "length xs \<le> 32"
    and "find (\<lambda>e. dentry_name e = xs) ds = Some e" and "file_type e \<in> {FILE_TYPE_RTC, FILE_TYPE_DIR, FILE_TYPE_FILE}"
    and "wf_fds s" and "lowest_free s = Some i"
  shows "\<exists>s'. sys_open cmos filename s = Some (int i, s') \<and> 2 \<le> i \<and> i < 8 \<and> (\<forall>j \<in> {2..<i}. flags (fd_of s (int j)) \<noteq> 0)
    \<and> fd_of s' (int i) = opened_fd e \<and> (\<forall>j. 0 \<le> j \<and> j \<noteq> int i \<longrightarrow> fd_of s' j = fd_of s j)"
  using open_found [OF assms] lowest_free_least [OF assms(9)] by blast

text \<open>
  Opening and closing are inverse on the descriptor table: closing the descriptor that \<open>open\<close>
  returned succeeds, the descriptor is free again and all others are as before \<open>open\<close>; closing it a second
  time fails.
\<close>

theorem open_close_round_trip:
  assumes "directory s ds" and "filename \<noteq> 0" and "cstr_at (ptr s filename) xs" and "xs \<noteq> []" and "length xs \<le> 32"
    and "find (\<lambda>e. dentry_name e = xs) ds = Some e" and "file_type e \<in> {FILE_TYPE_RTC, FILE_TYPE_DIR, FILE_TYPE_FILE}"
    and "wf_fds s" and "lowest_free s = Some i"
  shows "\<exists>s' s''. sys_open cmos filename s = Some (int i, s') \<and> sys_close (int i) s' = Some (0, s'')
    \<and> flags (fd_of s'' (int i)) = 0 \<and> (\<forall>j. 0 \<le> j \<and> j \<noteq> int i \<longrightarrow> fd_of s'' j = fd_of s j)
    \<and> sys_close (int i) s'' = Some (-1, s'')"
proof -
  have i8: "2 \<le> int i" "0 \<le> int i" "int i < 8" using lowest_free_least [OF assms(9)] by auto
  from open_found [OF assms, of cmos] obtain s' where s': "sys_open cmos filename s = Some (int i, s')" "wf_fds s'"
    "fd_of s' (int i) = opened_fd e" "\<forall>j. 0 \<le> j \<and> j \<noteq> int i \<longrightarrow> fd_of s' j = fd_of s j" by blast
  let ?s = "put_fd (int i) ((fd_of s' (int i))\<lparr>flags := 0\<rparr>) s'"
  have c: "sys_close (int i) s' = Some (0, ?s)"
    using close_open_fd [OF s'(2) i8(1,3)] s'(3) by (simp add: opened_fd_def)
  note f = fd_of_put_fd [OF s'(2) i8(2,3), where d = "(fd_of s' (int i))\<lparr>flags := 0\<rparr>"]
  have "sys_close (int i) ?s = Some (-1, ?s)"
    using i8 f(1) s'(2) by (simp add: sys_close_def get_fd_in)
  with s' c f show ?thesis by auto
qed

text \<open>The sample process opens the file \<open>hi\<close>, whose name is its argument at 0x10080 in the image.\<close>

lemma cstr_at_hi: "cstr_at (ptr (sample_fs x) 0x10080) (lit ''hi'')"
proof -
  have "ptr (sample_fs x) 0x10080 0 = Some 104" "ptr (sample_fs x) 0x10080 1 = Some 105" "ptr (sample_fs x) 0x10080 2 = Some 0"
    by (simp_all add: ptr_def sample_phys_def sample_image_def)
  moreover have "lit ''hi'' = [104, 105]" by (simp add: lit_def byte_of_def)
  ultimately show ?thesis by (simp add: cstr_at_def less_Suc_eq) (simp add: numeral_2_eq_2)
qed

lemma sample_open:
  "directory (sample_kernel ()) sample_dir" "cstr_at (ptr (sample_kernel ()) 0x10080) (lit ''hi'')"
  "find (\<lambda>e. dentry_name e = lit ''hi'') sample_dir = Some (sample_dir ! 1)" "file_type (sample_dir ! 1) = FILE_TYPE_FILE"
  "lowest_free (sample_kernel ()) = Some 2"
proof -
  show "directory (sample_kernel ()) sample_dir" unfolding sample_kernel_def by (rule sample_directory)
  show "cstr_at (ptr (sample_kernel ()) 0x10080) (lit ''hi'')"
    unfolding sample_kernel_def
    by (rule cstr_at_hi)
  obtain d0 d1 where d: "sample_dir = [d0, d1]" by (simp add: sample_dir_def)
  have "map dentry_name [d0, d1] = [lit ''.'', lit ''hi'']" using sample_names unfolding d .
  then have "dentry_name d0 \<noteq> lit ''hi''" "dentry_name d1 = lit ''hi''" by (auto simp: lit_def)
  then show "find (\<lambda>e. dentry_name e = lit ''hi'') sample_dir = Some (sample_dir ! 1)" unfolding d by simp
  show "file_type (sample_dir ! 1) = FILE_TYPE_FILE"
    by (simp add: sample_dir_def dentry_of_def le32_def sample_phys_def sample_image_def)
  show "lowest_free (sample_kernel ()) = Some 2"
    by (simp add: lowest_free_def upt_conv_Cons fd_of_sample closed_fd_def)
qed

theorem open_allocates_lowest_witness:
  "\<exists>s'. sys_open 0 0x10080 (sample_kernel ()) = Some (2, s') \<and> fd_of s' 2 = opened_fd (sample_dir ! 1)"
  using open_allocates_lowest [OF sample_open(1) _ sample_open(2) _ _ sample_open(3) _ wf_fds_sample sample_open(5), of 0] sample_open(4)
  by (auto simp: lit_def)

theorem open_close_round_trip_witness:
  "\<exists>s' s''. sys_open 0 0x10080 (sample_kernel ()) = Some (2, s') \<and> sys_close 2 s' = Some (0, s'') \<and> sys_close 2 s'' = Some (-1, s'')"
  using open_close_round_trip [OF sample_open(1) _ sample_open(2) _ _ sample_open(3) _ wf_fds_sample sample_open(5), of 0] sample_open(4)
  by (auto simp: lit_def)

section \<open>Arguments, video memory and bad calls\<close>

text \<open>
  Descriptor calls reject bad arguments: \<open>read\<close> and \<open>write\<close> with a descriptor outside the table, a
  NULL buffer, a negative count, or on the wrong standard stream, \<open>close\<close> of a standard stream or of a
  descriptor outside the table, and \<open>read\<close> and \<open>close\<close> of a descriptor that is not open, return -1 and change nothing.
\<close>

theorem bad_descriptor_calls_fail:
  "(fd < 0 \<or> 8 \<le> fd \<or> buf = 0 \<or> nbytes < 0 \<or> fd = 1 \<longrightarrow> sys_read evs fd buf nbytes s = Some (-1, s, evs))
   \<and> (fd < 0 \<or> 8 \<le> fd \<or> buf = 0 \<or> nbytes < 0 \<or> fd = 0 \<longrightarrow> sys_write cmos fd buf nbytes s = Some (-1, s))
   \<and> (fd < 2 \<or> 8 \<le> fd \<longrightarrow> sys_close fd s = Some (-1, s))
   \<and> (wf_fds s \<and> 0 \<le> fd \<and> fd < 8 \<and> flags (fd_of s fd) = 0 \<longrightarrow>
        sys_read evs fd buf nbytes s = Some (-1, s, evs) \<and> sys_close fd s = Some (-1, s))"
  by (auto simp: sys_read_def sys_write_def sys_close_def get_fd_in)

theorem bad_descriptor_calls_fail_witness:
  "sys_read [] 5 0x20000 10 (sample_kernel ()) = Some (-1, sample_kernel (), [])
   \<and> sys_close 1 (sample_kernel ()) = Some (-1, sample_kernel ())"
proof -
  have "flags (fd_of (sample_kernel ()) 5) = 0" by (simp add: fd_of_sample closed_fd_def)
  with bad_descriptor_calls_fail [where fd = 5 and s = "sample_kernel ()" and buf = "0x20000" and nbytes = 10 and evs = "[]"]
    bad_descriptor_calls_fail [where fd = 1 and s = "sample_kernel ()"] wf_fds_sample [of "()"]
  show ?thesis by simp
qed

text \<open>
  \<open>write\<close> does not look at the in-use flag: on a descriptor that was open on the clock and has been
  closed, it still reprograms the clock, exactly as on an open one.
\<close>

theorem write_ignores_closed_flag:
  assumes "wf_fds s" and "2 \<le> fd" and "fd < 8" and "fops (fd_of s fd) = Some Rtc_ops" and "flags (fd_of s fd) = 1"
    and "buf \<noteq> 0" and "0 \<le> nbytes"
  shows "\<exists>s'. sys_close fd s = Some (0, s') \<and> flags (fd_of s' fd) = 0
    \<and> sys_write cmos fd buf nbytes s' = rtc_write cmos buf s' \<and> sys_write cmos fd buf nbytes s = rtc_write cmos buf s"
proof -
  let ?s = "put_fd fd ((fd_of s fd)\<lparr>flags := 0\<rparr>) s"
  have f: "fd_of ?s fd = (fd_of s fd)\<lparr>flags := 0\<rparr>" using assms by (intro fd_of_put_fd(1)) auto
  have "sys_close fd s = Some (0, ?s)" using close_open_fd [of s fd Rtc_ops] assms by simp
  moreover have "sys_write cmos fd buf nbytes ?s = rtc_write cmos buf ?s"
    using assms f by (simp add: sys_write_def get_fd_in fops_write_def)
  moreover have "sys_write cmos fd buf nbytes s = rtc_write cmos buf s"
    using assms by (simp add: sys_write_def get_fd_in fops_write_def)
  ultimately show ?thesis using f by auto
qed

theorem write_ignores_closed_flag_witness:
  "\<exists>s'. sys_close 2 (put_fd 2 \<lparr>fops = Some Rtc_ops, fd_inode = 0, file_pos = 0, flags = 1\<rparr> (sample_kernel ())) = Some (0, s')
    \<and> flags (fd_of s' 2) = 0 \<and> sys_write 0 2 0x10000 4 s' = rtc_write 0 0x10000 s'"
proof -
  let ?s = "put_fd 2 \<lparr>fops = Some Rtc_ops, fd_inode = 0, file_pos = 0, flags = 1\<rparr> (sample_kernel ())"
  have "fd_of ?s 2 = \<lparr>fops = Some Rtc_ops, fd_inode = 0, file_pos = 0, flags = 1\<rparr>"
    by (rule fd_of_put_fd(1) [OF wf_fds_sample]) simp_all
  with write_ignores_closed_flag [of ?s 2 "0x10000" 4 0] wf_fds_sample [of "()"] show ?thesis by auto
qed

lemma getargs_copies:
  assumes "pcb_argument (pcb_at s (cur_pcb s)) = xs @ 0 # ys" and "0 \<notin> set xs" and "buf \<noteq> 0" and "writable s buf n"
  shows "if xs = [] then getargs buf (int n) s = Some (-1, s)
    else \<exists>s'. getargs buf (int n) s = Some (0, s') \<and> only_mem (buffer_addrs s buf n) s s'
      \<and> load_bytes s' buf n = Some (take n xs @ replicate (n - length xs) 0)"
proof (cases "xs = []")
  case True
  with assms(1,3) show ?thesis by (simp add: getargs_def aget_def)
next
  case False
  let ?arg = "xs @ 0 # ys"
  have "\<forall>j \<le> n. j \<le> length xs \<longrightarrow> arr ?arg j = Some ((xs @ [0]) ! j)"
    by (auto simp: arr_def nth_append nth_Cons')
  from ptr_copy.strncpy_copies [of n xs "\<lambda>_. arr ?arg" s buf] this assms(2) ptr_ok_const [OF assms(4)]
  obtain s' where s': "strncpy (\<lambda>_. arr ?arg) (ptr_wr buf) n s = Some s'"
    "\<forall>j < n. ptr s' buf j = Some (if j < length xs then xs ! j else 0)" by auto
  have "only_mem (buffer_addrs s buf n) s s'"
  proof (rule strncpy_preserves [OF s'(1)])
    fix k u b u'
    assume "k < n" and u: "only_mem (buffer_addrs s buf n) s u" and "ptr_wr buf u k b = Some u'"
    then have "only_mem (buffer_addrs u buf n) u u'" by (intro only_mem_ptr_wr)
    with u only_mem_addrs(1) [OF u] show "only_mem (buffer_addrs s buf n) s u'" by (auto intro: only_mem_trans)
  qed simp
  moreover have "load_bytes s' buf n = Some (take n xs @ replicate (n - length xs) 0)"
    by (rule load_bytes_ptr) (use s'(2) in \<open>auto simp: nth_append\<close>)
  moreover have "aget ?arg 0 = Some (xs ! 0)" "xs ! 0 \<noteq> 0"
    using False assms(2) by (auto simp: aget_def nth_append) (metis length_greater_0_conv nth_mem)
  ultimately show ?thesis using False assms(1,3) s'(1) by (simp add: getargs_def)
qed

text \<open>
  \<open>getargs\<close> delivers the argument of the process: with an argument \<open>xs\<close> and room for \<open>n\<close> bytes it
  returns 0 and leaves the first \<open>n\<close> bytes of the argument in the buffer, padded with NULs; nothing else of
  the state changes. With no argument it returns -1 and changes nothing.
\<close>

theorem getargs_delivers_argument:
  assumes "pcb_argument (pcb_at s (cur_pcb s)) = xs @ 0 # ys" and "0 \<notin> set xs" and "buf \<noteq> 0" and "writable s buf n"
  shows "if xs = [] then getargs buf (int n) s = Some (-1, s)
    else \<exists>s'. getargs buf (int n) s = Some (0, s') \<and> only_mem (buffer_addrs s buf n) s s'
      \<and> load_bytes s' buf n = Some (take n xs @ replicate (n - length xs) 0)"
  by (rule getargs_copies [OF assms])

theorem getargs_delivers_argument_witness:
  "\<exists>s'. getargs 0x20000 (int 4) (sample_kernel ()) = Some (0, s') \<and> load_bytes s' 0x20000 4 = Some (lit ''hi'' @ [0, 0])"
proof -
  have a: "pcb_argument (pcb_at (sample_kernel ()) (cur_pcb (sample_kernel ()))) = lit ''hi'' @ 0 # replicate 125 0"
    by (simp add: shell_pcb_def numeral_eq_Suc)
  have h: "lit ''hi'' = [104, 105]" by (simp add: lit_def byte_of_def)
  have "writable (sample_kernel ()) 0x20000 4" unfolding sample_kernel_def by (rule writable_sample) simp
  moreover have "take 4 (lit ''hi'') @ replicate (4 - length (lit ''hi'')) 0 = lit ''hi'' @ [0, 0]" by (simp add: h numeral_2_eq_2)
  moreover have "0 \<notin> set (lit ''hi'')" "lit ''hi'' \<noteq> []" by (simp_all add: h)
  ultimately show ?thesis using getargs_delivers_argument [OF a, of "0x20000" 4] by auto
qed

text \<open>The walk after the video page is mapped.\<close>

lemma map_video_page_Some:
  assumes "paging_on s"
  shows "map_video_page s = Some (s\<lparr>PageDirectory := (PageDirectory s)[33 := UserPageTable_at s OR 7],
    UserPageTable := (UserPageTable s)[0 := VIDEO_MEM OR 7]\<rparr>)"
  using assms by (simp add: map_video_page_def paging_on_def tables_wf_def aset_def or.assoc)

lemma u32_neq_unat: "x \<noteq> numeral k \<Longrightarrow> unat (numeral k :: u32) = numeral k \<Longrightarrow> unat (x :: u32) \<noteq> numeral k"
  by (metis unsigned_word_eqI)

lemma walk_video_page:
  assumes on: "paging_on s" and m: "map_video_page s = Some s'" and va: "drop_bit 12 va = drop_bit 12 MB_132"
  shows "walk s' va = Some (VIDEO_MEM OR take_bit 12 va, True)"
proof -
  have s': "s' = s\<lparr>PageDirectory := (PageDirectory s)[33 := UserPageTable_at s OR 7],
    UserPageTable := (UserPageTable s)[0 := VIDEO_MEM OR 7]\<rparr>" using m map_video_page_Some [OF on] by simp
  have d: "drop_bit 12 va = 0x8400" using va by simp
  have "drop_bit 10 (drop_bit 12 va) = drop_bit 10 0x8400" unfolding d ..
  then have va22: "drop_bit 22 va = 33" by simp
  have va10: "take_bit 10 (drop_bit 12 va) = 0" unfolding d by simp
  note wf = on [unfolded paging_on_def tables_wf_def]
  have "walk s' va = (if bit (VIDEO_MEM OR 7 :: u32) 0
    then Some (push_bit 12 (drop_bit 12 (VIDEO_MEM OR 7)) OR take_bit 12 va, bit (7 :: u32) 2 \<and> bit (VIDEO_MEM OR 7 :: u32) 2) else None)"
    by (rule walk_page_4KB [where ta = "UserPageTable_at s" and pt = "(UserPageTable s)[0 := VIDEO_MEM OR 7]"])
       (use wf va22 va10 in \<open>auto simp: s' table_at_def\<close>)
  then show ?thesis by simp
qed

lemma walk_video_other:
  assumes on: "paging_on s" and m: "map_video_page s = Some s'" and va: "drop_bit 22 va = 32"
    and pde: "bit (PageDirectory s ! 32) 7"
  shows "walk s' va = walk s va"
proof -
  have s': "s' = s\<lparr>PageDirectory := (PageDirectory s)[33 := UserPageTable_at s OR 7],
    UserPageTable := (UserPageTable s)[0 := VIDEO_MEM OR 7]\<rparr>" using m map_video_page_Some [OF on] by simp
  have "aget (PageDirectory s) (uint (drop_bit 22 va)) = Some (PageDirectory s ! 32)"
    "aget (PageDirectory s') (uint (drop_bit 22 va)) = Some (PageDirectory s ! 32)"
    using on unfolding va by (simp_all add: s' aget_def paging_on_def tables_wf_def)
  with on pde show ?thesis by (simp add: walk_def s' paging_on_def)
qed

lemma paging_on_video: "paging_on s \<Longrightarrow> map_video_page s = Some s' \<Longrightarrow> paging_on s'"
  by (auto simp: map_video_page_Some paging_on_def tables_wf_def)

lemma le32_le_bytes: "le32 (ucast w) (ucast (drop_bit 8 w)) (ucast (drop_bit 16 w)) (ucast (drop_bit 24 w)) = w"
proof (rule bit_word_eqI)
  fix n assume n: "n < LENGTH(32)"
  consider "n < 8" | "8 \<le> n" "n < 16" | "16 \<le> n" "n < 24" | "24 \<le> n" by linarith
  then show "bit (le32 (ucast w) (ucast (drop_bit 8 w)) (ucast (drop_bit 16 w)) (ucast (drop_bit 24 w))) n = bit w n"
    using n by cases (auto simp: le32_def bit_simps)
qed

lemma vidmap_range:
  assumes "drop_bit 22 (a :: u32) = 32"
  shows "\<not> (a = 0 \<or> a > MB_132 \<or> a < MB_132 - FOUR_MB)"
proof -
  have "unat (drop_bit 22 a) = unat a div 2 ^ 22" 
    using unat_drop_bit_eq [of 22 a] drop_bit_eq_div [of 22 "unat a"] by (rule trans)
  then have d: "unat a div 4194304 = 32" using assms by simp
  have "unat a = 4194304 * (unat a div 4194304) + unat a mod 4194304" by simp
  then have "134217728 \<le> unat a" "unat a < 138412032" using d mod_less_divisor [of 4194304 "unat a"] by linarith+
  then show ?thesis by (auto simp: word_less_nat_alt)
qed

lemma store32_load32:
  assumes "writable s a 4"
  shows "\<exists>s'. store32 s a w = Some s' \<and> load32 s' a = Some w \<and> only_mem (buffer_addrs s a 4) s s'"
proof -
  let ?b = "le_bytes w"
  have step: "\<exists>s'. ptr_wr a t i b = Some s' \<and> only_mem (buffer_addrs s a 4) s s'
      \<and> (\<forall>j < 4. ptr s' a j = (if j = i then Some b else ptr t a j))"
    if "only_mem (buffer_addrs s a 4) s t" "i < 4" for t i b
  proof -
    have "writable t a 4" using assms only_mem_addrs(3) [OF that(1)] by simp
    from ptr_copy.wr_step [OF ptr_ok_const [OF this, of "\<lambda>_. None"] that(2), of b] obtain u where
      "ptr_wr a t i b = Some u" "\<And>j. j < 4 \<Longrightarrow> ptr u a j = (if j = i then Some b else ptr t a j)" by metis
    moreover from this(1) have "only_mem (buffer_addrs s a 4) t u"
      using only_mem_ptr_wr [of a t i b u 4] that only_mem_addrs(1) [OF that(1)] by simp
    ultimately show ?thesis using only_mem_trans [OF that(1)] by blast
  qed
  obtain s0 where s0: "ptr_wr a s 0 (?b ! 0) = Some s0" "only_mem (buffer_addrs s a 4) s s0" "ptr s0 a 0 = Some (?b ! 0)"
    using step [of s 0 "?b ! 0"] by auto
  obtain s1 where s1: "ptr_wr a s0 1 (?b ! 1) = Some s1" "only_mem (buffer_addrs s a 4) s s1"
    "ptr s1 a 0 = Some (?b ! 0)" "ptr s1 a 1 = Some (?b ! 1)" using step [OF s0(2), of 1 "?b ! 1"] s0(3) by auto
  obtain s2 where s2: "ptr_wr a s1 2 (?b ! 2) = Some s2" "only_mem (buffer_addrs s a 4) s s2"
    "ptr s2 a 0 = Some (?b ! 0)" "ptr s2 a 1 = Some (?b ! 1)" "ptr s2 a 2 = Some (?b ! 2)"
    using step [OF s1(2), of 2 "?b ! 2"] s1(3,4) by auto
  obtain s3 where s3: "ptr_wr a s2 3 (?b ! 3) = Some s3" "only_mem (buffer_addrs s a 4) s s3"
    "ptr s3 a 0 = Some (?b ! 0)" "ptr s3 a 1 = Some (?b ! 1)" "ptr s3 a 2 = Some (?b ! 2)" "ptr s3 a 3 = Some (?b ! 3)"
    using step [OF s2(2), of 3 "?b ! 3"] s2(3-5) by auto
  have "store32 s a w = Some s3"
    using s0(1) s1(1) s2(1) s3(1) by (simp add: store32_def ptr_wr_def le_bytes_def numeral_2_eq_2 numeral_3_eq_3)
  moreover have "load32 s3 a = Some (le32 (?b ! 0) (?b ! 1) (?b ! 2) (?b ! 3))"
    using s3(3-6) by (simp add: load32_def ptr_def le32_def)
  moreover have "le32 (?b ! 0) (?b ! 1) (?b ! 2) (?b ! 3) = w" by (simp add: le_bytes_def le32_le_bytes)
  ultimately show ?thesis using s3(2) by auto
qed

text \<open>
  \<open>vidmap\<close>: for a pointer into the program page of the running process it returns 132 MB, stores
  that address through the pointer, and maps the 4 KB page there, for user mode, to video memory; the
  program page stays mapped as it was.
\<close>

theorem vidmap_maps_screen:
  assumes "paging_on s" and "PageDirectory s ! 32 = user_pde n" and "n \<in> {1..6}"
    and "\<forall>i < 4. drop_bit 22 (screen_start + of_nat i :: u32) = 32" and "writable s screen_start 4"
  shows "\<exists>s'. vidmap screen_start s = Some (0x8400000, s') \<and> load32 s' screen_start = Some MB_132
    \<and> (\<forall>va. drop_bit 12 va = drop_bit 12 MB_132 \<longrightarrow> user_translate s' va = Some (VIDEO_MEM OR take_bit 12 va))
    \<and> (\<forall>va. drop_bit 22 va = 32 \<longrightarrow> translate s' va = translate s va)"
proof -
  have b: "1 \<le> n" "n \<le> 6" using assms(3) by auto
  have on: "paging_on (cli s)" using assms(1) paging_on_same [of "cli s" s] by (simp add: same_paging_def cpu_defs)
  from map_video_page_Some [OF on] obtain s1 where s1: "map_video_page (cli s) = Some s1" by blast
  note on1 = paging_on_video [OF on s1]
  have tr: "translate s1 va = translate s va" if "drop_bit 22 va = 32" for va
  proof -
    have "walk s1 va = walk (cli s) va"
      using walk_video_other [OF on s1 that] assms(2) user_pde_bits(2) [OF b] by (simp add: cpu_defs)
    moreover have "walk (cli s) va = walk s va" by (rule walk_same) (simp add: same_paging_def cpu_defs)
    ultimately show ?thesis using on1 assms(1) by (simp add: translate_def paging_on_def)
  qed
  have "writable s1 screen_start 4" using assms(4,5) tr by (simp add: writable_def)
  from store32_load32 [OF this, of MB_132] obtain s2 where
    s2: "store32 s1 screen_start MB_132 = Some s2" "load32 s2 screen_start = Some MB_132"
      "only_mem (buffer_addrs s1 screen_start 4) s1 s2" by blast
  have p: "same_paging (sti s2) s1" using s2(3) by (auto simp: only_mem_def same_paging_def cpu_defs)
  have m: "same_mem (sti s2) s2" by (simp add: same_mem_def same_paging_def cpu_defs)
  have rng: "\<not> (screen_start = 0 \<or> screen_start > MB_132 \<or> screen_start < MB_132 - FOUR_MB)"
    using assms(4) [rule_format, of 0] by (intro vidmap_range) simp
  have "vidmap screen_start s = Some (0x8400000, sti s2)"
    using rng s1 s2(1) by (simp add: vidmap_def del: not_less)
  moreover have "user_translate (sti s2) va = Some (VIDEO_MEM OR take_bit 12 va)" if "drop_bit 12 va = drop_bit 12 MB_132" for va
    using walk_video_page [OF on s1 that] user_translate_same [OF p] by (simp add: user_translate_def)
  moreover have "translate (sti s2) va = translate s va" if "drop_bit 22 va = 32" for va
    using tr [OF that] translate_same [OF p] by simp
  ultimately show ?thesis using s2(2) same_mem_reads(3) [OF m] by (intro exI [of _ "sti s2"]) simp
qed

text \<open>The sample process with paging on and its program page mapped.\<close>

definition sample_user :: "'a \<Rightarrow> 'a kernel_scheme" where
  "sample_user x = (sample_kernel x)\<lparr>cr0 := 0x80000000, cr3 := 0x401000, cr4 := 0x10,
     PageDirectory := (replicate 1024 2)[0 := 0x402003, 1 := 0x400083, 32 := user_pde 1]\<rparr>"

lemma sample_user_on: "paging_on (sample_user x)" "PageDirectory (sample_user x) ! 32 = user_pde 1"
  by (simp_all add: paging_on_def tables_wf_def sample_user_def sample_kernel_def sample_fs_def blank_rtc_def blank_defs)

lemma sample_user_translate: "drop_bit 22 va = 32 \<Longrightarrow> translate (sample_user x) va = Some (program_phys 1 va)"
proof -
  assume va: "drop_bit 22 va = 32"
  have "PageDirectory (sample_user x) = (PageDirectory (sample_user x))[32 := user_pde 1]"
    using sample_user_on(2) [of x] by (metis list_update_id)
  then have "map_program_page 1 (sample_user x) = Some (sample_user x)"
    using map_program_page_Some [OF sample_user_on(1), of 1 x] by simp
  have "translate (sample_user x) va = (if drop_bit 22 va = 32 then Some (program_phys 1 va) else translate (sample_user x) va)"
    by (rule translate_map_program_page [OF sample_user_on(1) \<open>map_program_page 1 (sample_user x) = Some (sample_user x)\<close>]) simp_all
  then show ?thesis unfolding if_P [OF va] .
qed

theorem vidmap_maps_screen_witness:
  "\<exists>s'. vidmap 0x8048000 (sample_user ()) = Some (0x8400000, s') \<and> load32 s' 0x8048000 = Some 0x8400000
    \<and> user_translate s' 0x8400010 = Some 0xB8010"
proof -
  have i4: "i < 4 \<Longrightarrow> i = 0 \<or> i = 1 \<or> i = 2 \<or> i = 3" for i :: nat by linarith
  have d: "drop_bit 22 (0x8048000 + of_nat i :: u32) = 32" if "i < 4" for i using i4 [OF that] by auto
  have "program_phys 1 (0x8048000 + of_nat i) = 0x848000 + of_nat i" if "i < 4" for i
    using i4 [OF that] by (auto simp: program_phys_def)
  then have t: "translate (sample_user ()) (0x8048000 + of_nat i) = Some (0x848000 + of_nat i)" if "i < 4" for i
    using that sample_user_translate [OF d [OF that]] by simp
  have "i = j" if "i < 4" "j < 4" "(0x848000 + of_nat i :: u32) = 0x848000 + of_nat j" for i j
    using i4 [OF that(1)] i4 [OF that(2)] that(3) by auto
  with t have w: "writable (sample_user ()) 0x8048000 4" by (simp add: writable_def)
  have a: "drop_bit 12 (0x8400010 :: u32) = drop_bit 12 MB_132" "VIDEO_MEM OR take_bit 12 (0x8400010 :: u32) = 0xB8010" by simp_all
  from vidmap_maps_screen [OF sample_user_on(1,2) _ _ w] d a show ?thesis by auto
qed

end
