(* ===== verification/Process.thy ===== *)
theory Process
  imports Descriptors
begin

text \<open>
  Processes: \<open>init_syscall\<close>, \<open>execute\<close> and \<open>halt\<close> of student-distrib/syscall.c. Both end by leaving the C
  code: \<open>execute\<close> enters the new program with \<open>iret\<close>, \<open>halt\<close> returns from the parent's call of \<open>execute\<close>
  with the registers saved there. Where control goes is part of the result.

  Two local buffers of \<open>execute\<close> (the header and the entry point) can be compared or used without
  having been filled when a file is short; their uninitialised contents are the argument \<open>junk\<close>.
\<close>

abbreviation (input) KERNEL_DS :: u16 where "KERNEL_DS \<equiv> 0x0018"
abbreviation (input) PROCESS_NUM_MAX :: nat where "PROCESS_NUM_MAX \<equiv> 6"

section \<open>Operations\<close>

datatype control =
    Return int
  | Enter_user u32
  | Return_to_parent u32 u32 u32

definition init_syscall :: "'a kernel_scheme \<Rightarrow> 'a kernel_scheme option" where
  "init_syscall s = do {
     t \<leftarrow> aset (syscall_jumptable s) 0 None;
     t \<leftarrow> aset t 1 (Some Sys_halt);
     t \<leftarrow> aset t 2 (Some Sys_execute);
     t \<leftarrow> aset t 3 (Some Sys_read);
     t \<leftarrow> aset t 4 (Some Sys_write);
     t \<leftarrow> aset t 5 (Some Sys_open);
     t \<leftarrow> aset t 6 (Some Sys_close);
     t \<leftarrow> aset t 7 (Some Sys_getargs);
     t \<leftarrow> aset t 8 (Some Sys_vidmap);
     ps \<leftarrow> aset (process s) 0 1;
     Some (s\<lparr>syscall_jumptable := t, process := ps\<rparr>)
   }"

definition exe_magic_number :: "u8 list" where
  "exe_magic_number = [0x7f, 0x45, 0x4c, 0x46]"

text \<open>The search for a free process number, from \<open>i\<close> over \<open>k\<close> entries of the table.\<close>

primrec free_process :: "int list \<Rightarrow> nat \<Rightarrow> nat \<Rightarrow> nat option option" where
  "free_process ps i 0 = Some None"
| "free_process ps i (Suc k) = do {
     p \<leftarrow> aget ps (int i);
     if p = 0 then Some (Some i) else free_process ps (Suc i) k
   }"

abbreviation (input) SPACE :: u8 where "SPACE \<equiv> 32"

partial_function (option) skip_spaces :: "cstr \<Rightarrow> nat \<Rightarrow> nat option" where
  "skip_spaces command i = do {
     c \<leftarrow> command i;
     if c = SPACE then skip_spaces command (Suc i) else Some i
   }"

partial_function (option) token_end :: "cstr \<Rightarrow> nat \<Rightarrow> nat option" where
  "token_end command i = do {
     c \<leftarrow> command i;
     if c \<noteq> SPACE \<and> c \<noteq> NL \<and> c \<noteq> 0 then token_end command (Suc i) else Some i
   }"

text \<open>
  One step of the parser, made twice (for the file name and for the argument): skip spaces, find the end of
  the word, copy it into a local array of 128 bytes and terminate it. The result has the position of the end.
\<close>

definition parse_word :: "cstr \<Rightarrow> nat \<Rightarrow> (nat \<times> u8 list) option" where
  "parse_word command start = do {
     start \<leftarrow> skip_spaces command start;
     stop \<leftarrow> token_end command start;
     word \<leftarrow> strncpy (\<lambda>_ i. command (start + i)) arr_wr (stop - start) (conv_buf 128);
     word \<leftarrow> aset word (int (stop - start)) 0;
     Some (stop, word)
   }"

text \<open>The second half of \<open>execute\<close>: paging, loading, the control block, the task state, and the switch.\<close>

definition start_process :: "u32 \<Rightarrow> nat \<Rightarrow> u32 \<Rightarrow> u8 list \<Rightarrow> 'a kernel_scheme \<Rightarrow> (control \<times> 'a kernel_scheme) option" where
  "start_process exe_inode next_process_num entry argument s = do {
     s \<leftarrow> map_program_page (int next_process_num) s;
     (r, s) \<leftarrow> read_data_mem exe_inode 0 PROGRAM_IMAGE_ADDR FOUR_MB s;
     ps \<leftarrow> aset (process s) (int next_process_num) 1;
     let s = s\<lparr>process := ps\<rparr>;
     t \<leftarrow> aget (terminal_t s) (terminal_num s);
     s \<leftarrow> set_terminal (terminal_num s) (t\<lparr>flag := 1\<rparr>) s;
     let pcb_ptr = EIGHT_MB - EIGHT_KB * of_nat next_process_num;
     let p = pcb_at s pcb_ptr;
     arg \<leftarrow> strcpy (\<lambda>_. arr argument) arr_wr (pcb_argument p);
     d0 \<leftarrow> aget (file_desc_array p) 0;
     ds \<leftarrow> aset (file_desc_array p) 0 (d0\<lparr>fops := Some Term_ops, flags := 1\<rparr>);
     d1 \<leftarrow> aget ds 1;
     ds \<leftarrow> aset ds 1 (d1\<lparr>fops := Some Term_ops, flags := 1\<rparr>);
     let p = p\<lparr>pcb_argument := arg, file_desc_array := ds, process_num_prev := current_process_num s,
               pcb_process_num := int next_process_num, esp_prev := reg_esp s, ebp_prev := reg_ebp s\<rparr>;
     let s = s\<lparr>pcb_at := (pcb_at s)(pcb_ptr := p), tss_ss0 := KERNEL_DS,
               tss_esp0 := EIGHT_MB - EIGHT_KB * (of_nat next_process_num - 1) - 4\<rparr>;
     t \<leftarrow> aget (terminal_t s) (terminal_num s);
     s \<leftarrow> set_terminal (terminal_num s) (t\<lparr>process_num := int next_process_num, total_process := total_process t + 1\<rparr>) s;
     Some (Enter_user entry, sti s)
   }"

text \<open>The look-up of the program, the check of its first four bytes, and the read of its entry point.\<close>

definition check_program ::
  "u8 list \<times> u8 list \<Rightarrow> nat \<Rightarrow> u8 list \<Rightarrow> u8 list \<Rightarrow> 'a kernel_scheme \<Rightarrow> (control \<times> 'a kernel_scheme) option" where
  "check_program junk next_process_num cmd argument s = do {
     (r, exe_dentry) \<leftarrow> read_dentry_by_name (arr cmd) zero_dentry s;
     if r \<noteq> 0 then Some (Return (-1), s)
     else do {
       (r, exe_header) \<leftarrow> read_data_local (inode_num exe_dentry) 0 (fst junk) 4 s;
       if exe_header \<noteq> exe_magic_number then Some (Return (-1), s)
       else do {
         (r, e) \<leftarrow> read_data_local (inode_num exe_dentry) 24 (snd junk) 4 s;
         start_process (inode_num exe_dentry) next_process_num (le32 (e ! 0) (e ! 1) (e ! 2) (e ! 3)) argument s
       }
     }
   }"

definition execute :: "u8 list \<times> u8 list \<Rightarrow> cstr option \<Rightarrow> 'a kernel_scheme \<Rightarrow> (control \<times> 'a kernel_scheme) option" where
  "execute junk command s = do {
     t \<leftarrow> aget (terminal_t s) (terminal_num s);
     let s = s\<lparr>current_process_num := process_num t\<rparr>;
     case command of
       None \<Rightarrow> Some (Return (-1), s)
     | Some command \<Rightarrow> do {
         slot \<leftarrow> free_process (process s) 1 PROCESS_NUM_MAX;
         case slot of
           None \<Rightarrow> do {
             (n, s) \<leftarrow> printf (\<lambda>_ _. None) (''no more process'' @ [CHR 0x0A]) [] s;
             Some (Return 0, s)
           }
         | Some next_process_num \<Rightarrow> do {
             let s = cli s;
             (stop, cmd) \<leftarrow> parse_word command 0;
             (stop, argument) \<leftarrow> parse_word command stop;
             check_program junk next_process_num cmd argument s
           }
       }
   }"

text \<open>The second half of \<open>halt\<close>: back to the parent recorded in the control block.\<close>

definition halt_to_parent :: "u32 \<Rightarrow> 'a kernel_scheme \<Rightarrow> (control \<times> 'a kernel_scheme) option" where
  "halt_to_parent status s = do {
     let pcb_ptr = cur_pcb s;
     let p = pcb_at s pcb_ptr;
     t \<leftarrow> aget (terminal_t s) (terminal_num s);
     s \<leftarrow> set_terminal (terminal_num s) (t\<lparr>process_num := process_num_prev p\<rparr>) s;
     s \<leftarrow> map_program_page (process_num_prev p) s;
     s \<leftarrow> for_range 2 (nat FD_N) (\<lambda>i s. do {
            d \<leftarrow> aget (file_desc_array (pcb_at s pcb_ptr)) (int i);
            if flags d = 1 then do { (r, s) \<leftarrow> sys_close (int i) s; Some s } else Some s
          }) s;
     let s = s\<lparr>tss_esp0 := EIGHT_MB - EIGHT_KB * (word_of_int (process_num_prev p) - 1) - 4\<rparr>;
     Some (Return_to_parent status (esp_prev p) (ebp_prev p), s)
   }"

definition halt :: "u8 list \<times> u8 list \<Rightarrow> u32 \<Rightarrow> 'a kernel_scheme \<Rightarrow> (control \<times> 'a kernel_scheme) option" where
  "halt junk status s = do {
     t \<leftarrow> aget (terminal_t s) (terminal_num s);
     let s = s\<lparr>current_process_num := process_num t\<rparr>;
     ps \<leftarrow> aset (process s) (current_process_num s) 0;
     let s = s\<lparr>process := ps\<rparr>;
     let t = t\<lparr>total_process := total_process t - 1\<rparr>;
     s \<leftarrow> set_terminal (terminal_num s) t s;
     (c, s) \<leftarrow> (if total_process t = 0 then do {
                 s \<leftarrow> set_terminal (terminal_num s) (t\<lparr>process_num := 0\<rparr>) s;
                 execute junk (Some (arr (lit ''shell'' @ [0]))) s
               } else Some (Return 0, s));
     case c of Enter_user e \<Rightarrow> Some (c, s) | _ \<Rightarrow> halt_to_parent status s
   }"

section \<open>Parsing the command\<close>

definition is_sep :: "u8 \<Rightarrow> bool" where
  "is_sep c \<longleftrightarrow> c = SPACE \<or> c = NL"

lemma cstr_at_get:
  assumes "cstr_at f xs" and "i \<le> length xs"
  shows "f i = Some (if i < length xs then xs ! i else 0)"
  using assms by (auto simp: cstr_at_def)

lemma skip_spaces_at:
  assumes "cstr_at f xs" and "i \<le> length xs"
  shows "skip_spaces f i = Some (i + length (takeWhile (\<lambda>c. c = SPACE) (drop i xs)))"
  using assms(2)
proof (induction "length xs - i" arbitrary: i)
  case 0
  then show ?case using cstr_at_get [OF assms(1), of i] by (subst skip_spaces.simps) simp
next
  case (Suc k)
  then have i: "i < length xs" and k: "k = length xs - Suc i" by auto
  have d: "drop i xs = xs ! i # drop (Suc i) xs" using i by (simp add: Cons_nth_drop_Suc)
  show ?case
    using Suc.hyps(1) [OF k] i cstr_at_get [OF assms(1), of i] by (subst skip_spaces.simps) (simp add: d)
qed

lemma token_end_at:
  assumes "cstr_at f xs" and "i \<le> length xs"
  shows "token_end f i = Some (i + length (takeWhile (\<lambda>c. \<not> is_sep c) (drop i xs)))"
  using assms(2)
proof (induction "length xs - i" arbitrary: i)
  case 0
  then show ?case using cstr_at_get [OF assms(1), of i] by (subst token_end.simps) simp
next
  case (Suc k)
  then have i: "i < length xs" and k: "k = length xs - Suc i" by auto
  have d: "drop i xs = xs ! i # drop (Suc i) xs" using i by (simp add: Cons_nth_drop_Suc)
  have "xs ! i \<noteq> 0" using cstr_at_nonzero [OF assms(1) i] .
  then show ?case
    using Suc.hyps(1) [OF k] i cstr_at_get [OF assms(1), of i] by (subst token_end.simps) (auto simp: d is_sep_def)
qed

text \<open>The first word of a text, and what follows it.\<close>

definition first_word :: "u8 list \<Rightarrow> u8 list" where
  "first_word xs = takeWhile (\<lambda>c. \<not> is_sep c) (dropWhile (\<lambda>c. c = SPACE) xs)"

definition after_word :: "u8 list \<Rightarrow> u8 list" where
  "after_word xs = dropWhile (\<lambda>c. \<not> is_sep c) (dropWhile (\<lambda>c. c = SPACE) xs)"

lemma parse_word_at:
  assumes at: "cstr_at f xs" and i: "i \<le> length xs" and len: "length (first_word (drop i xs)) < 128"
  shows "\<exists>j w ys. parse_word f i = Some (j, w) \<and> j \<le> length xs \<and> drop j xs = after_word (drop i xs)
    \<and> w = first_word (drop i xs) @ 0 # ys \<and> length w = 128 \<and> 0 \<notin> set (first_word (drop i xs))"
proof -
  let ?a = "i + length (takeWhile (\<lambda>c. c = SPACE) (drop i xs))"
  let ?w = "first_word (drop i xs)" and ?n = "length (first_word (drop i xs))"
  have da: "drop ?a xs = dropWhile (\<lambda>c. c = SPACE) (drop i xs)" by (simp add: dropWhile_eq_drop add.commute)
  have a: "?a \<le> length xs" using i length_takeWhile_le [of "\<lambda>c. c = SPACE" "drop i xs"] by simp
  have stop: "token_end f ?a = Some (?a + ?n)" using token_end_at [OF at a] by (simp add: first_word_def da)
  have n: "?a + ?n \<le> length xs"
    using a length_takeWhile_le [of "\<lambda>c. \<not> is_sep c" "drop ?a xs"] by (simp add: first_word_def da [symmetric])
  have wx: "?w ! j = xs ! (?a + j)" if "j < ?n" for j
    using that a by (simp add: first_word_def da [symmetric] takeWhile_nth)
  have nz: "0 \<notin> set ?w"
  proof
    assume "0 \<in> set ?w"
    then obtain j where "j < ?n" "?w ! j = 0" by (auto simp: in_set_conv_nth)
    with wx [of j] n cstr_at_nonzero [OF at, of "?a + j"] show False by simp
  qed
  have src: "f (?a + j) = Some (?w ! j)" if "j < ?n" for j
    using that wx [OF that] n cstr_at_get [OF at, of "?a + j"] by simp
  obtain b where b: "f (?a + ?n) = Some b" using cstr_at_get [OF at n] by blast
  have copy: "\<exists>m'. strncpy_loop (\<lambda>_ i. f (?a + i)) arr_wr ?n k m = Some m' \<and> length m' = 128 \<and> take ?n m' = ?w"
    if "k \<le> ?n" "length m = 128" "take k m = take k ?w" for k m
    using that
  proof (induction "?n - k" arbitrary: k m)
    case 0
    then show ?case using b by (subst strncpy_loop.simps) simp
  next
    case (Suc l)
    then have k: "k < ?n" and l: "l = ?n - Suc k" by auto
    have ne: "?w ! k \<noteq> 0" using nz k by (metis nth_mem)
    have "take (Suc k) (m[k := ?w ! k]) = take (Suc k) ?w"
      using k Suc.prems len by (simp add: take_Suc_conv_app_nth)
    with Suc.hyps(1) [OF l, of "m[k := ?w ! k]"] Suc.prems(2) k src [OF k] ne len show ?case
      by (subst strncpy_loop.simps) simp
  qed
  from copy [of 0 "conv_buf 128"] obtain m where
    m: "strncpy (\<lambda>_ i. f (?a + i)) arr_wr ?n (conv_buf 128) = Some m" "length m = 128" "take ?n m = ?w"
    by (auto simp: strncpy_def conv_buf_def)
  have "m[?n := 0] = ?w @ 0 # drop (Suc ?n) m"
    using m(2,3) len by (metis upd_conv_take_nth_drop)
  then have "parse_word f i = Some (?a + ?n, ?w @ 0 # drop (Suc ?n) m)"
    using skip_spaces_at [OF at i] stop m len by (simp add: parse_word_def aset_def)
  moreover have "drop (?a + ?n) xs = after_word (drop i xs)"
    by (simp add: after_word_def first_word_def dropWhile_eq_drop add.commute)
  ultimately show ?thesis using n nz m(2) len by auto
qed

section \<open>The file system image and the program page\<close>

text \<open>
  The image lies in the 4 MB page of the kernel. \<open>file_in P s inode n\<close>: reading the first \<open>n\<close> bytes of the file
  only uses addresses that satisfy \<open>P\<close>.
\<close>

definition word_in :: "(u32 \<Rightarrow> bool) \<Rightarrow> u32 \<Rightarrow> bool" where
  "word_in P a \<longleftrightarrow> P a \<and> P (a + 1) \<and> P (a + 2) \<and> P (a + 3)"

definition file_in :: "(u32 \<Rightarrow> bool) \<Rightarrow> 'a filesys_scheme \<Rightarrow> u32 \<Rightarrow> nat \<Rightarrow> bool" where
  "file_in P s inode n \<longleftrightarrow> word_in P (boot_block s + 4) \<and> word_in P (inode_at s inode)
     \<and> (\<forall>k < n. let a = inode_at s inode + 4 + 4 * (of_nat k div BLOCK_SIZE_IN_BYTES) in word_in P a
          \<and> (\<forall>blk. load32 s a = Some blk \<longrightarrow>
               P (data_at s (the (inode_count s)) + blk * BLOCK_SIZE_IN_BYTES + of_nat k mod BLOCK_SIZE_IN_BYTES)))"

definition kernel_page :: "u32 \<Rightarrow> bool" where
  "kernel_page va \<longleftrightarrow> drop_bit 22 va = 1"

definition kernel_file :: "'a filesys_scheme \<Rightarrow> u32 \<Rightarrow> u8 list \<Rightarrow> bool" where
  "kernel_file s inode bs \<longleftrightarrow> file_data s inode bs \<and> file_in kernel_page s inode (length bs)"

definition kernel_mapped :: "'a vm_scheme \<Rightarrow> bool" where
  "kernel_mapped s \<longleftrightarrow> paging_on s \<and> (\<forall>va. kernel_page va \<longrightarrow> translate s va = Some va)"

text \<open>States with the same memory, seen alike from the addresses in \<open>P\<close>.\<close>

definition agrees :: "(u32 \<Rightarrow> bool) \<Rightarrow> 'a filesys_scheme \<Rightarrow> 'a filesys_scheme \<Rightarrow> bool" where
  "agrees P s s' \<longleftrightarrow> phys s' = phys s \<and> (\<forall>va. P va \<longrightarrow> translate s' va = translate s va)
     \<and> filesystem_start s' = filesystem_start s \<and> boot_block s' = boot_block s"

lemma load8_agrees: "agrees P s s' \<Longrightarrow> P a \<Longrightarrow> load8 s' a = load8 s a"
  by (simp add: agrees_def load8_def)

lemma load32_agrees: "agrees P s s' \<Longrightarrow> word_in P a \<Longrightarrow> load32 s' a = load32 s a"
  by (simp add: word_in_def load32_def load8_agrees)

lemma file_agrees:
  assumes a: "agrees P s s'" and f: "file_data s inode bs" and p: "file_in P s inode (length bs)"
  shows "file_data s' inode bs" and "file_in P s' inode (length bs)"
proof -
  have e: "inode_at s' = inode_at s" "data_at s' = data_at s" "boot_block s' = boot_block s"
    using a by (simp_all add: agrees_def inode_at_def data_at_def fun_eq_iff)
  from f obtain n where n: "inode_count s = Some n" by (auto simp: file_data_def)
  have c: "inode_count s' = inode_count s"
    using load32_agrees [OF a, of "boot_block s + 4"] p e by (simp add: inode_count_def file_in_def)
  have l: "load32 s' (inode_at s inode) = load32 s (inode_at s inode)"
    using load32_agrees [OF a] p by (simp add: file_in_def)
  have b: "load32 s' (inode_at s inode + 4 + 4 * (of_nat k div BLOCK_SIZE_IN_BYTES))
      = load32 s (inode_at s inode + 4 + 4 * (of_nat k div BLOCK_SIZE_IN_BYTES))" if "k < length bs" for k
    using load32_agrees [OF a] p that by (simp add: file_in_def Let_def)
  have d: "data_byte s' (data_at s n) (inode_at s inode) (of_nat k) = data_byte s (data_at s n) (inode_at s inode) (of_nat k)"
    if "k < length bs" for k
  proof (cases "load32 s (inode_at s inode + 4 + 4 * (of_nat k div BLOCK_SIZE_IN_BYTES))")
    case (Some blk)
    then have "P (data_at s n + blk * BLOCK_SIZE_IN_BYTES + of_nat k mod BLOCK_SIZE_IN_BYTES)"
      using p that n by (simp add: file_in_def Let_def)
    from load8_agrees [OF a this] Some b [OF that] show ?thesis by (simp add: data_byte_def Let_def)
  qed (simp add: data_byte_def b [OF that] Let_def)
  show "file_data s' inode bs" using f n by (auto simp: file_data_def e c l d)
  show "file_in P s' inode (length bs)" using p b by (simp add: file_in_def e c Let_def)
qed

lemma kernel_file_addrs:
  assumes "kernel_file s inode bs" and "\<forall>va. kernel_page va \<longrightarrow> translate s va = Some va"
  shows "file_addrs s inode (length bs) \<subseteq> {q. in_frame 1 q}"
proof -
  have w: "word_addrs s a \<subseteq> {q. kernel_page q}" if "word_in kernel_page a" for a
    using that assms(2) by (auto simp: word_addrs_def word_in_def)
  have p: "file_in kernel_page s inode (length bs)" using assms(1) by (simp add: kernel_file_def)
  have "byte_addrs s (data_at s (the (inode_count s))) (inode_at s inode) (of_nat k) \<subseteq> {q. kernel_page q}" if "k < length bs" for k
    using p that w assms(2) unfolding byte_addrs_def file_in_def Let_def by fastforce
  then have "file_addrs s inode (length bs) \<subseteq> {q. kernel_page q}"
    using p w unfolding file_addrs_def file_in_def by blast
  moreover have "kernel_page q \<Longrightarrow> in_frame 1 q" for q by (simp add: kernel_page_def in_frame_def)
  ultimately show ?thesis by blast
qed

lemma program_addr:
  assumes "i < 0x3B8000"
  shows "drop_bit 22 (PROGRAM_IMAGE_ADDR + of_nat i :: u32) = 32"
proof -
  have u: "unat (PROGRAM_IMAGE_ADDR + of_nat i :: u32) = 0x8048000 + i"
    using assms by (simp add: unat_word_ariths of_nat_u32)
  have "unat (drop_bit 22 (PROGRAM_IMAGE_ADDR + of_nat i :: u32)) = unat (PROGRAM_IMAGE_ADDR + of_nat i :: u32) div 2 ^ 22"
    using unat_drop_bit_eq [of 22 "PROGRAM_IMAGE_ADDR + of_nat i"] drop_bit_eq_div [of 22 "unat (PROGRAM_IMAGE_ADDR + of_nat i :: u32)"] by (rule trans)
  also have "\<dots> = 32" unfolding u by (rule div_nat_eqI) (use assms in simp_all)
  finally have "unat (drop_bit 22 (PROGRAM_IMAGE_ADDR + of_nat i :: u32)) = unat (32 :: u32)" by simp
  then show ?thesis by (rule unsigned_word_eqI)
qed

lemma program_phys_inj:
  assumes "1 \<le> n" "n \<le> 6" and "drop_bit 22 a = drop_bit 22 b" and "program_phys n a = program_phys n b"
  shows "a = b"
proof (rule word_split_eqI)
  show "drop_bit 22 a = drop_bit 22 b" by (rule assms(3))
  show "take_bit 22 a = take_bit 22 b"
    using program_phys_frame(2) [OF assms(1,2), of a] program_phys_frame(2) [OF assms(1,2), of b] assms(4) by metis
qed

text \<open>Loading a program image into the page of process \<open>n\<close>.\<close>

lemma load_program:
  assumes k: "kernel_mapped s" and f: "kernel_file s inode bs" and n: "1 \<le> n" "n \<le> 6"
    and m: "map_program_page n s = Some s1" and len: "length bs \<le> 0x3B8000"
  shows "\<exists>s2. read_data_mem inode 0 PROGRAM_IMAGE_ADDR FOUR_MB s1 = Some (int (length bs), s2)
    \<and> load_bytes s2 PROGRAM_IMAGE_ADDR (length bs) = Some bs \<and> only_mem {q. in_frame (n + 1) q} s1 s2"
proof -
  have on: "paging_on s" and id: "\<forall>va. kernel_page va \<longrightarrow> translate s va = Some va" using k by (auto simp: kernel_mapped_def)
  note tr = translate_map_program_page [OF on m n]
  have s1: "s1 = s\<lparr>PageDirectory := (PageDirectory s)[32 := user_pde n]\<rparr>" using m map_program_page_Some [OF on] by simp
  have ag: "agrees kernel_page s s1" by (auto simp: agrees_def s1 [symmetric] tr kernel_page_def) (simp_all add: s1)
  have f1: "kernel_file s1 inode bs" using file_agrees [OF ag] f by (simp add: kernel_file_def)
  have id1: "\<forall>va. kernel_page va \<longrightarrow> translate s1 va = Some va" using id ag by (simp add: agrees_def)
  have bt: "translate s1 (PROGRAM_IMAGE_ADDR + of_nat i) = Some (program_phys n (PROGRAM_IMAGE_ADDR + of_nat i))"
    if "i < length bs" for i
    using tr program_addr [of i] that len by simp
  have inj: "i = j" if "i < length bs" "j < length bs"
      "program_phys n (PROGRAM_IMAGE_ADDR + of_nat i) = program_phys n (PROGRAM_IMAGE_ADDR + of_nat j)" for i j
  proof -
    have "PROGRAM_IMAGE_ADDR + of_nat i = (PROGRAM_IMAGE_ADDR + of_nat j :: u32)"
      by (rule program_phys_inj [OF n _ that(3)]) (use program_addr [of i] program_addr [of j] that len in simp)
    then have "(of_nat i :: u32) = of_nat j" by simp
    moreover have "i < 4294967296" "j < 4294967296" using that len by simp_all
    ultimately show ?thesis using of_nat_u32 [of i] of_nat_u32 [of j] by metis
  qed
  have w: "writable s1 PROGRAM_IMAGE_ADDR (length bs)" unfolding writable_def using bt inj by auto
  have ba: "buffer_addrs s1 PROGRAM_IMAGE_ADDR (length bs) \<subseteq> {q. in_frame (n + 1) q}"
    using bt program_phys_frame(1) [OF n] by (auto simp: buffer_addrs_def)
  have d: "file_addrs s1 inode (length bs) \<inter> buffer_addrs s1 PROGRAM_IMAGE_ADDR (length bs) = {}"
  proof -
    have "{q. in_frame 1 q} \<inter> {q. in_frame (n + 1) q} = {}" using n by (auto simp: in_frame_def)
    with kernel_file_addrs [OF f1 id1] ba show ?thesis by blast
  qed
  have sl: "file_slice bs 0 (unat (FOUR_MB :: u32)) = bs" using len by (simp add: file_slice_def)
  from read_data_mem_delivers [of s1 inode bs 0 PROGRAM_IMAGE_ADDR FOUR_MB] f1 w d obtain s2 where
    "read_data_mem inode 0 PROGRAM_IMAGE_ADDR FOUR_MB s1 = Some (int (length bs), s2)"
    "load_bytes s2 PROGRAM_IMAGE_ADDR (length bs) = Some bs" "only_mem (buffer_addrs s1 PROGRAM_IMAGE_ADDR (length bs)) s1 s2"
    unfolding sl by (auto simp: kernel_file_def)
  with only_mem_mono [OF _ ba] show ?thesis by blast
qed

section \<open>Starting a process\<close>

text \<open>The control block of process \<open>n\<close>, and the kernel stack top from which the code finds it.\<close>

definition pcb_addr :: "int \<Rightarrow> u32" where
  "pcb_addr n = EIGHT_MB - EIGHT_KB * word_of_int n"

definition stack_top :: "int \<Rightarrow> u32" where
  "stack_top n = EIGHT_MB - EIGHT_KB * (word_of_int n - 1) - 4"

lemma pcb_of_stack:
  assumes "1 \<le> n" and "n \<le> 6"
  shows "stack_top n AND PCB_MASK = pcb_addr n"
  using process_num_cases [OF assms] by (auto simp: stack_top_def pcb_addr_def)

lemma pcb_addr_inj:
  assumes "1 \<le> n" "n \<le> 6" "1 \<le> m" "m \<le> 6" and "pcb_addr n = pcb_addr m"
  shows "n = m"
  using process_num_cases [OF assms(1,2)] process_num_cases [OF assms(3,4)] assms(5) by (auto simp: pcb_addr_def)

definition wf_pcb :: "pcb_t \<Rightarrow> bool" where
  "wf_pcb p \<longleftrightarrow> length (file_desc_array p) = 8 \<and> length (pcb_argument p) = 128"

lemma strcpy_argument:
  assumes "0 \<notin> set w" and "length w < 128" and "length a = 128"
  shows "\<exists>ys. strcpy (\<lambda>_. arr (w @ 0 # zs)) arr_wr a = Some (w @ 0 # ys) \<and> length (w @ 0 # ys) = 128"
proof -
  have "cstr_at (arr (w @ 0 # zs)) w" using assms(1) by simp
  from arr_copy.strcpy_copies [OF this, of 128 a] assms(2,3) obtain b where
    b: "strcpy (\<lambda>_. arr (w @ 0 # zs)) arr_wr a = Some b" "128 \<le> length b" "\<forall>j < length w. arr b j = Some (w ! j)"
      "arr b (length w) = Some 0" by auto
  have "length b = 128"
  proof -
    have "strcpy_loop (\<lambda>_. arr (w @ 0 # zs)) arr_wr i m = Some b \<Longrightarrow> length b = length m" for i m
      by (rule strcpy_loop.raw_induct [where P = "\<lambda>src dst i m b. dst = arr_wr \<longrightarrow> length b = length m", rule_format])
         (auto simp: bind_eq_Some_conv arr_wr_def aset_Some_iff split: if_splits)
    then show ?thesis using b(1) assms(3) by (auto simp: strcpy_def)
  qed
  have "b = w @ 0 # drop (Suc (length w)) b"
  proof (rule nth_equalityI)
    show "length b = length (w @ 0 # drop (Suc (length w)) b)" using \<open>length b = 128\<close> assms(2) by simp
    fix j assume "j < length b"
    then show "b ! j = (w @ 0 # drop (Suc (length w)) b) ! j"
      using b(3,4) assms(2) \<open>length b = 128\<close>
      by (cases "j < length w"; cases "j = length w") (auto simp: nth_append arr_def nth_Cons' less_imp_le_nat)
  qed
  then have "strcpy (\<lambda>_. arr (w @ 0 # zs)) arr_wr a = Some (w @ 0 # drop (Suc (length w)) b)
      \<and> length (w @ 0 # drop (Suc (length w)) b) = 128"
    using b(1) \<open>length b = 128\<close> by metis
  then show ?thesis ..
qed

lemma wf_terminal_process [simp]:
  "wf_terminal (t\<lparr>flag := f\<rparr>) = wf_terminal t" "wf_terminal (t\<lparr>process_num := i\<rparr>) = wf_terminal t"
  "wf_terminal (t\<lparr>total_process := i\<rparr>) = wf_terminal t"
  by (simp_all add: wf_terminal_def wf_cursor_def)

lemma wf_console_update:
  assumes "wf_console s" and "wf_terminal t" and "terminal_t s' = (terminal_t s)[i := t]"
    and "terminal_num s' = terminal_num s" and "terminal_displayed s' = terminal_displayed s" and "video_mem s' = video_mem s"
  shows "wf_console s'"
  using assms by (auto simp: wf_console_def dest!: set_update_subset_insert [THEN subsetD])

text \<open>The state in which the new program runs, as a predicate on the states before and after.\<close>

definition started :: "int \<Rightarrow> u8 list \<Rightarrow> u8 list \<Rightarrow> 'a kernel_scheme \<Rightarrow> 'a kernel_scheme \<Rightarrow> bool" where
  "started n bs w s s' \<longleftrightarrow>
     load_bytes s' PROGRAM_IMAGE_ADDR (length bs) = Some bs
     \<and> (\<forall>va. drop_bit 22 va = 32 \<longrightarrow> translate s' va = Some (program_phys n va))
     \<and> (\<forall>va. drop_bit 22 va \<noteq> 32 \<longrightarrow> translate s' va = translate s va)
     \<and> (\<forall>q. \<not> in_frame (n + 1) q \<longrightarrow> phys s' q = phys s q)
     \<and> process s' = (process s)[nat n := 1] \<and> tss_esp0 s' = stack_top n \<and> cur_pcb s' = pcb_addr n
     \<and> (\<forall>a. a \<noteq> pcb_addr n \<longrightarrow> pcb_at s' a = pcb_at s a)
     \<and> (\<exists>ys. pcb_argument (pcb_at s' (pcb_addr n)) = w @ 0 # ys)
     \<and> fops (fd_of s' 0) = Some Term_ops \<and> flags (fd_of s' 0) = 1 \<and> fops (fd_of s' 1) = Some Term_ops \<and> flags (fd_of s' 1) = 1
     \<and> (\<forall>j. 2 \<le> j \<and> j < 8 \<longrightarrow> fd_of s' j = file_desc_array (pcb_at s (pcb_addr n)) ! nat j)
     \<and> process_num_prev (pcb_at s' (pcb_addr n)) = current_process_num s
     \<and> esp_prev (pcb_at s' (pcb_addr n)) = reg_esp s \<and> ebp_prev (pcb_at s' (pcb_addr n)) = reg_ebp s
     \<and> terminal_t s' = (terminal_t s)[nat (terminal_num s) := (term_at s (terminal_num s))
          \<lparr>flag := 1, process_num := n, total_process := total_process (term_at s (terminal_num s)) + 1\<rparr>]
     \<and> terminal_num s' = terminal_num s \<and> eflags_IF s' \<and> wf_fds s' \<and> wf_pcb (pcb_at s' (pcb_addr n))
     \<and> wf_console s' \<and> paging_on s' \<and> terminal_displayed s' = terminal_displayed s \<and> video_mem s' = video_mem s
     \<and> irq_handler_jumptable s' = irq_handler_jumptable s \<and> master_mask s' = master_mask s \<and> slave_mask s' = slave_mask s
     \<and> kernel.more s' = kernel.more s"

lemma start_process_runs:
  assumes con: "wf_console s" and k: "kernel_mapped s" and f: "kernel_file s inode bs" and len: "length bs \<le> 0x3B8000"
    and n: "1 \<le> n" "n \<le> 5" and ps: "length (process s) = 6" and pcb: "wf_pcb (pcb_at s (pcb_addr (int n)))"
    and w: "0 \<notin> set w" "length w < 128"
  shows "\<exists>s'. start_process inode n entry (w @ 0 # zs) s = Some (Enter_user entry, s') \<and> started (int n) bs w s s'"
proof -
  have on: "paging_on s" using k by (simp add: kernel_mapped_def)
  have n6: "1 \<le> int n" "int n \<le> 6" using n by auto
  from map_program_page_Some [OF on, of "int n"] obtain s1 where m: "map_program_page (int n) s = Some s1"
    and s1: "s1 = s\<lparr>PageDirectory := (PageDirectory s)[32 := user_pde (int n)]\<rparr>" by blast
  from load_program [OF k f n6 m len] obtain s2 where ld: "read_data_mem inode 0 PROGRAM_IMAGE_ADDR FOUR_MB s1 = Some (int (length bs), s2)"
    "load_bytes s2 PROGRAM_IMAGE_ADDR (length bs) = Some bs" "only_mem {q. in_frame (int n + 1) q} s1 s2" by blast
  from ld(3) obtain g where s2: "s2 = s1\<lparr>phys := g\<rparr>" and g: "\<forall>q. \<not> in_frame (int n + 1) q \<longrightarrow> g q = phys s q"
    by (auto simp: only_mem_def s1)
  let ?p = "pcb_at s (pcb_addr (int n))"
  from strcpy_argument [OF w, of "pcb_argument ?p" zs] pcb obtain ys where
    arg: "strcpy (\<lambda>_. arr (w @ 0 # zs)) arr_wr (pcb_argument ?p) = Some (w @ 0 # ys)" "length (w @ 0 # ys) = 128"
    by (auto simp: wf_pcb_def)
  let ?ds = "file_desc_array ?p"
  let ?ds' = "?ds[0 := (?ds ! 0)\<lparr>fops := Some Term_ops, flags := 1\<rparr>, 1 := (?ds ! 1)\<lparr>fops := Some Term_ops, flags := 1\<rparr>]"
  let ?p' = "?p\<lparr>pcb_argument := w @ 0 # ys, file_desc_array := ?ds', process_num_prev := current_process_num s,
               pcb_process_num := int n, esp_prev := reg_esp s, ebp_prev := reg_ebp s\<rparr>"
  let ?t = "(term_at s (terminal_num s))\<lparr>flag := 1, process_num := int n, total_process := total_process (term_at s (terminal_num s)) + 1\<rparr>"
  let ?s' = "s\<lparr>PageDirectory := (PageDirectory s)[32 := user_pde (int n)], phys := g, process := (process s)[n := 1],
     pcb_at := (pcb_at s)(pcb_addr (int n) := ?p'), tss_ss0 := KERNEL_DS, tss_esp0 := stack_top (int n),
     terminal_t := (terminal_t s)[nat (terminal_num s) := ?t], eflags_IF := True\<rparr>"
  note num = wf_console_num [OF con]
  have t3: "length (terminal_t s) = 3" using con by (simp add: wf_console_def)
  have d8: "length ?ds = 8" using pcb by (simp add: wf_pcb_def)
  have d: "?ds \<noteq> []" "Suc 0 < length ?ds" using d8 by auto
  have st: "8396796 - 8192 * word_of_nat n = stack_top (int n)" by (simp add: stack_top_def)
  have run: "start_process inode n entry (w @ 0 # zs) s = Some (Enter_user entry, ?s')"
    using m ld(1) ps n num t3 arg(1) d st
    by (simp add: start_process_def s2 s1 aset_def aget_def set_terminal_def term_at_def
        pcb_addr_def [of "int n", simplified, symmetric] sti_def Let_def cpu_defs)
  have same: "same_mem ?s' s2" by (simp add: same_mem_def same_paging_def s2 s1)
  have tr: "translate ?s' va = (if drop_bit 22 va = 32 then Some (program_phys (int n) va) else translate s va)" for va
    using translate_map_program_page [OF on m n6, of va] same_mem_reads(1) [OF same] translate_same [of s2 s1 va]
    by (simp add: s2 same_paging_def)
  have cur: "cur_pcb ?s' = pcb_addr (int n)" using pcb_of_stack [OF n6] by (simp add: cur_pcb_def)
  have ds: "file_desc_array (pcb_at ?s' (cur_pcb ?s')) = ?ds'" unfolding cur by simp
  have fd01: "fops (fd_of ?s' 0) = Some Term_ops" "flags (fd_of ?s' 0) = 1" "fops (fd_of ?s' 1) = Some Term_ops" "flags (fd_of ?s' 1) = 1"
    unfolding fd_of_def ds using d by simp_all
  have fd2: "fd_of ?s' j = ?ds ! nat j" if "2 \<le> j" "j < 8" for j
    unfolding fd_of_def ds using that by simp
  have wf: "wf_fds ?s'" unfolding wf_fds_def ds using d8 by simp
  have wp: "wf_pcb (pcb_at ?s' (pcb_addr (int n)))" using d8 arg(2) by (simp add: wf_pcb_def)
  have "load_bytes ?s' PROGRAM_IMAGE_ADDR (length bs) = Some bs" using ld(2) same_mem_reads(4) [OF same] by simp
  moreover have "wf_console ?s'"
    by (rule wf_console_update [OF con, of ?t]) (use wf_console_term [OF con num(1,2)] in simp_all)
  moreover have "paging_on ?s'"
    using map_program_page_on [OF on m] paging_on_same [of ?s' s1] by (simp add: same_paging_def s1)
  ultimately have "started (int n) bs w s ?s'" 
    using tr g cur fd01 fd2 wf wp unfolding started_def by (intro conjI) (simp_all del: One_nat_def)
  with run show ?thesis by blast
qed

section \<open>Executing a command\<close>

lemma free_process_finds:
  assumes "\<forall>j \<in> {i..<n}. ps ! j \<noteq> 0" and "ps ! n = 0" and "i \<le> n" and "n < length ps" and "n < i + k"
  shows "free_process ps i k = Some (Some n)"
  using assms
proof (induction k arbitrary: i)
  case (Suc k)
  then show ?case by (cases "i = n") (auto simp: aget_def)
qed simp

lemma free_process_overrun:
  assumes "\<forall>j \<in> {i..<length ps}. ps ! j \<noteq> 0" and "i \<le> length ps" and "length ps < i + k"
  shows "free_process ps i k = None"
  using assms
proof (induction k arbitrary: i)
  case (Suc k)
  then show ?case by (cases "i = length ps") (auto simp: aget_def)
qed simp

text \<open>The state in which \<open>execute\<close> looks the program up: the caller recorded, interrupts off.\<close>

definition calling :: "'a kernel_scheme \<Rightarrow> 'a kernel_scheme" where
  "calling s = s\<lparr>current_process_num := process_num (term_at s (terminal_num s)), eflags_IF := False\<rparr>"

lemma calling_same [simp]:
  "same_image (calling s) s" "wf_console (calling s) = wf_console s" "process (calling s) = process s" "pcb_at (calling s) = pcb_at s"
  "terminal_num (calling s) = terminal_num s" "terminal_t (calling s) = terminal_t s" "term_at (calling s) = term_at s"
  "phys (calling s) = phys s" "translate (calling s) = translate s" "reg_esp (calling s) = reg_esp s" "reg_ebp (calling s) = reg_ebp s"
  "current_process_num (calling s) = process_num (term_at s (terminal_num s))" "boot_block (calling s) = boot_block s"
  "paging_on (calling s) = paging_on s" "terminal_displayed (calling s) = terminal_displayed s" "video_mem (calling s) = video_mem s"
  by (auto simp: calling_def same_image_def same_mem_def same_paging_def wf_console_def term_at_def fun_eq_iff
      intro!: translate_same paging_on_same)

lemma execute_parsed:
  assumes con: "wf_console s" and free: "free_process (process s) 1 6 = Some (Some n)" and at: "cstr_at command xs"
    and len: "length (first_word xs) < 128" "length (first_word (after_word xs)) < 128"
  shows "\<exists>ys zs. execute junk (Some command) s
      = check_program junk n (first_word xs @ 0 # ys) (first_word (after_word xs) @ 0 # zs) (calling s)
    \<and> 0 \<notin> set (first_word xs) \<and> 0 \<notin> set (first_word (after_word xs))"
proof -
  from parse_word_at [OF at, of 0] len(1) obtain j ys where
    p1: "parse_word command 0 = Some (j, first_word xs @ 0 # ys)" "j \<le> length xs" "drop j xs = after_word xs" "0 \<notin> set (first_word xs)"
    by auto
  from parse_word_at [OF at p1(2)] len(2) p1(3) obtain j' zs where
    p2: "parse_word command j = Some (j', first_word (after_word xs) @ 0 # zs)" "0 \<notin> set (first_word (after_word xs))" by auto
  have t: "aget (terminal_t s) (terminal_num s) = Some (term_at s (terminal_num s))"
    using wf_console_term [OF con] wf_console_num [OF con] by blast
  have c: "cli (s\<lparr>current_process_num := process_num (term_at s (terminal_num s))\<rparr>) = calling s"
    by (simp add: calling_def cpu_defs)
  show ?thesis
    by (rule exI [of _ ys], rule exI [of _ zs]) (use p1 p2 free in \<open>simp add: execute_def t c Let_def cong: if_cong\<close>)
qed

lemma kernel_file_same:
  assumes "same_image s t"
  shows "kernel_file s = kernel_file t"
proof -
  note r = same_image_reads [OF assms] same_mem_reads(3) [of s t]
  have "inode_at s = inode_at t" "data_at s = data_at t" "inode_count s = inode_count t"
    using r(6) assms by (simp_all add: inode_at_def data_at_def inode_count_def same_image_def fun_eq_iff)
  then show ?thesis using r assms by (simp add: kernel_file_def file_in_def same_image_def fun_eq_iff)
qed

lemma kernel_file_calling [simp]: "kernel_file (calling s) = kernel_file s"
  by (rule kernel_file_same) simp

lemma file_data_calling [simp]: "file_data (calling s) = file_data s"
  by (rule same_image_reads(1)) simp

lemma kernel_mapped_calling [simp]: "kernel_mapped (calling s) = kernel_mapped s"
  by (simp add: kernel_mapped_def)

text \<open>What \<open>execute\<close> finds: a name of the directory, and the file behind it.\<close>

definition finds_file :: "'a kernel_scheme \<Rightarrow> u8 list \<Rightarrow> u32 \<Rightarrow> u8 list \<Rightarrow> bool" where
  "finds_file s name inode bs \<longleftrightarrow> (\<exists>ds e. directory s ds \<and> name \<noteq> [] \<and> length name \<le> 32
     \<and> find (\<lambda>e. dentry_name e = name) ds = Some e \<and> inode_num e = inode \<and> kernel_file s inode bs)"

lemma finds_file_same: "same_image s t \<Longrightarrow> finds_file s = finds_file t"
  by (simp add: finds_file_def fun_eq_iff kernel_file_same [of s t] same_image_reads(2) [of s t])

lemma finds_file_lookup:
  assumes "finds_file s name inode bs" and "0 \<notin> set name"
  shows "\<exists>e. read_dentry_by_name (arr (name @ 0 # ys)) zero_dentry (calling s) = Some (0, e) \<and> inode_num e = inode"
proof -
  from assms(1) obtain ds e where f: "directory s ds" "name \<noteq> []" "length name \<le> 32"
    "find (\<lambda>e. dentry_name e = name) ds = Some e" "inode_num e = inode" by (auto simp: finds_file_def)
  have "directory (calling s) ds" using f(1) same_image_reads(2) [of "calling s" s] by simp
  from read_dentry_by_name_lookup [OF this, of "arr (name @ 0 # ys)" name zero_dentry] f assms(2) show ?thesis by simp
qed

lemma execute_runs:
  assumes con: "wf_console s" and k: "kernel_mapped s" and ps: "length (process s) = 6"
    and free: "n \<in> {1..5}" "process s ! n = 0" "\<forall>j \<in> {1..<n}. process s ! j \<noteq> 0"
    and at: "cstr_at command xs" and arg: "length (first_word (after_word xs)) < 128"
    and f: "finds_file s (first_word xs) inode bs" and magic: "take 4 bs = exe_magic_number" and len: "28 \<le> length bs" "length bs \<le> 0x3B8000"
    and pcb: "wf_pcb (pcb_at s (pcb_addr (int n)))" and junk: "length (fst junk) = 4" "length (snd junk) = 4"
  shows "\<exists>s'. execute junk (Some command) s = Some (Enter_user (le32 (bs ! 24) (bs ! 25) (bs ! 26) (bs ! 27)), s')
    \<and> started (int n) bs (first_word (after_word xs)) (calling s) s'"
proof -
  have slot: "free_process (process s) 1 6 = Some (Some n)"
    by (rule free_process_finds) (use free ps in auto)
  have name: "length (first_word xs) < 128" using f by (auto simp: finds_file_def)
  have kf: "kernel_file s inode bs" using f by (auto simp: finds_file_def)
  then have fd: "file_data (calling s) inode bs" by (simp add: kernel_file_def)
  from execute_parsed [OF con slot at name arg, of junk] obtain ys zs where
    ex: "execute junk (Some command) s
      = check_program junk n (first_word xs @ 0 # ys) (first_word (after_word xs) @ 0 # zs) (calling s)"
    and nz: "0 \<notin> set (first_word xs)" "0 \<notin> set (first_word (after_word xs))" by auto
  from finds_file_lookup [OF f nz(1), of ys] obtain e where
    e: "read_dentry_by_name (arr (first_word xs @ 0 # ys)) zero_dentry (calling s) = Some (0, e)" "inode_num e = inode" by blast
  have h: "read_data_local inode 0 (fst junk) 4 (calling s) = Some (4, exe_magic_number)"
    using read_data_local_delivers [OF fd, of 0 4 "fst junk"] magic len(1) junk(1) by (simp add: file_slice_def exe_magic_number_def)
  have t: "read_data_local inode 24 (snd junk) 4 (calling s) = Some (4, take 4 (drop 24 bs))"
    using read_data_local_delivers [OF fd, of 24 4 "snd junk"] len(1) junk(2) by (simp add: file_slice_def)
  have en: "take 4 (drop 24 bs) ! 0 = bs ! 24" "take 4 (drop 24 bs) ! 1 = bs ! 25" "take 4 (drop 24 bs) ! 2 = bs ! 26" "take 4 (drop 24 bs) ! 3 = bs ! 27"
    using len(1) by simp_all
  have "execute junk (Some command) s = start_process inode n (le32 (bs ! 24) (bs ! 25) (bs ! 26) (bs ! 27)) (first_word (after_word xs) @ 0 # zs) (calling s)"
    unfolding ex check_program_def by (simp only: e h t en bind.bind_lunit prod.case simp_thms if_False not_not)
  moreover from start_process_runs [of "calling s" inode bs n "first_word (after_word xs)" "le32 (bs ! 24) (bs ! 25) (bs ! 26) (bs ! 27)" zs]
  obtain s' where "start_process inode n (le32 (bs ! 24) (bs ! 25) (bs ! 26) (bs ! 27)) (first_word (after_word xs) @ 0 # zs) (calling s)
      = Some (Enter_user (le32 (bs ! 24) (bs ! 25) (bs ! 26) (bs ! 27)), s')" "started (int n) bs (first_word (after_word xs)) (calling s) s'"
    using con k kf len(2) free(1) ps pcb nz(2) arg by auto
  ultimately show ?thesis by simp
qed

text \<open>
  Claim C2. \<open>execute\<close> starts a program: with a free process number \<open>n\<close> below 6 (the lowest one), a command whose
  first word names an executable file (ELF magic, up to the end of the program page) and any second word, the
  call enters user mode at the entry point found in bytes 24 to 27 of the file. The whole file is then at
  0x8048000, the program page is mapped to the frame of process \<open>n\<close>, no byte of memory outside that frame
  and no other control block has changed, the second word is the argument in the control block,
  descriptors 0 and 1 are the terminal, and parent, stack registers, process table, terminal entry and kernel
  stack are recorded.
\<close>

theorem execute_starts_program:
  assumes "wf_console s" and "kernel_mapped s" and "length (process s) = 6"
    and "n \<in> {1..5}" and "process s ! n = 0" and "\<forall>j \<in> {1..<n}. process s ! j \<noteq> 0"
    and "cstr_at command xs" and "length (first_word (after_word xs)) < 128"
    and "finds_file s (first_word xs) inode bs" and "take 4 bs = exe_magic_number" and "28 \<le> length bs" and "length bs \<le> 0x3B8000"
    and "wf_pcb (pcb_at s (pcb_addr (int n)))" and "length (fst junk) = 4" and "length (snd junk) = 4"
  shows "\<exists>s'. execute junk (Some command) s = Some (Enter_user (le32 (bs ! 24) (bs ! 25) (bs ! 26) (bs ! 27)), s')
    \<and> started (int n) bs (first_word (after_word xs)) (calling s) s'"
  by (rule execute_runs [OF assms])

lemma execute_rejects:
  assumes "wf_console s" and "length (process s) = 6"
    and "n \<in> {1..5}" and "process s ! n = 0" and "\<forall>j \<in> {1..<n}. process s ! j \<noteq> 0"
    and "cstr_at command xs" and "length (first_word xs) < 128" and "length (first_word (after_word xs)) < 128"
    and "directory s ds" and "length (fst junk) = 4"
    and "first_word xs = [] \<or> 32 < length (first_word xs) \<or> first_word xs \<notin> dentry_name ` set ds
      \<or> (\<exists>inode bs. finds_file s (first_word xs) inode bs \<and> 4 \<le> length bs \<and> take 4 bs \<noteq> exe_magic_number)"
  shows "execute junk (Some command) s = Some (Return (-1), calling s)"
proof -
  have slot: "free_process (process s) 1 6 = Some (Some n)" by (rule free_process_finds) (use assms in auto)
  from execute_parsed [OF assms(1) slot assms(6-8), of junk] obtain ys zs where
    ex: "execute junk (Some command) s
      = check_program junk n (first_word xs @ 0 # ys) (first_word (after_word xs) @ 0 # zs) (calling s)"
    and nz: "0 \<notin> set (first_word xs)" by auto
  have dir: "directory (calling s) ds" using assms(9) same_image_reads(2) [of "calling s" s] by simp
  have look: "read_dentry_by_name (arr (first_word xs @ 0 # ys)) zero_dentry (calling s) =
    (if first_word xs = [] \<or> 32 < length (first_word xs) then Some (-1, zero_dentry)
     else Some (case find (\<lambda>e. dentry_name e = first_word xs) ds of None \<Rightarrow> (-1, zero_dentry) | Some e \<Rightarrow> (0, e)))"
    using read_dentry_by_name_lookup [OF dir, of "arr (first_word xs @ 0 # ys)" "first_word xs" zero_dentry] nz by simp
  show ?thesis
  proof (cases "\<exists>inode bs. finds_file s (first_word xs) inode bs \<and> 4 \<le> length bs \<and> take 4 bs \<noteq> exe_magic_number")
    case True
    then obtain inode bs where f: "finds_file s (first_word xs) inode bs" "4 \<le> length bs" "take 4 bs \<noteq> exe_magic_number" by blast
    from finds_file_lookup [OF f(1) nz, of ys] obtain e where
      e: "read_dentry_by_name (arr (first_word xs @ 0 # ys)) zero_dentry (calling s) = Some (0, e)" "inode_num e = inode" by blast
    have "kernel_file (calling s) inode bs" using f(1) by (auto simp: finds_file_def)
    then have "read_data_local inode 0 (fst junk) 4 (calling s) = Some (4, take 4 bs)"
      using read_data_local_delivers [of "calling s" inode bs 0 4 "fst junk"] f(2) assms(10) by (simp add: file_slice_def kernel_file_def)
    then show ?thesis unfolding ex check_program_def using e f(3) by simp
  next
    case False
    then have "find (\<lambda>e. dentry_name e = first_word xs) ds = None" if "first_word xs \<noteq> []" "length (first_word xs) \<le> 32"
      using assms(11) that by (force simp: find_None_iff)
    then show ?thesis unfolding ex check_program_def look by auto
  qed
qed

text \<open>
  Claim C33. \<open>execute\<close> refuses what it cannot run: when the first word of the command is empty, longer than 32
  bytes or in no directory entry, or names a file of at least four bytes that does not begin with the ELF magic,
  the call returns -1 and nothing of the kernel has changed but the number of the caller and the interrupt
  flag, which stays off.
\<close>

theorem execute_refuses:
  assumes "wf_console s" and "length (process s) = 6"
    and "n \<in> {1..5}" and "process s ! n = 0" and "\<forall>j \<in> {1..<n}. process s ! j \<noteq> 0"
    and "cstr_at command xs" and "length (first_word xs) < 128" and "length (first_word (after_word xs)) < 128"
    and "directory s ds" and "length (fst junk) = 4"
    and "first_word xs = [] \<or> 32 < length (first_word xs) \<or> first_word xs \<notin> dentry_name ` set ds
      \<or> (\<exists>inode bs. finds_file s (first_word xs) inode bs \<and> 4 \<le> length bs \<and> take 4 bs \<noteq> exe_magic_number)"
  shows "execute junk (Some command) s = Some (Return (-1), calling s)"
  by (rule execute_rejects [OF assms])

text \<open>
  Claim C34. The process table: \<open>execute\<close> searches \<open>process[1]\<close> to \<open>process[6]\<close> in an array of six entries, so
  with five processes running every call with a command reads past the end of the array, whatever the command;
  the message and the return value meant for a full table are not reached within the array.
\<close>

theorem execute_full_table_overruns:
  assumes "wf_console s" and "length (process s) = 6" and "\<forall>j \<in> {1..5}. process s ! j \<noteq> 0"
  shows "execute junk (Some command) s = None"
proof -
  have "free_process (process s) 1 6 = None" by (rule free_process_overrun) (use assms in auto)
  then show ?thesis
    using wf_console_term [OF assms(1)] wf_console_num [OF assms(1)] by (auto simp: execute_def Let_def bind_eq_None_conv)
qed

section \<open>Halting\<close>

definition put_fds :: "file_desc_t list \<Rightarrow> 'a kernel_scheme \<Rightarrow> 'a kernel_scheme" where
  "put_fds ds s = s\<lparr>pcb_at := (pcb_at s)(cur_pcb s := (pcb_at s (cur_pcb s))\<lparr>file_desc_array := ds\<rparr>)\<rparr>"

text \<open>Open descriptors of the running process have a table of operations.\<close>

definition closable :: "'a kernel_scheme \<Rightarrow> bool" where
  "closable s \<longleftrightarrow> (\<forall>i. 2 \<le> i \<and> i < 8 \<and> flags (fd_of s i) = 1 \<longrightarrow> fops (fd_of s i) \<noteq> None)"

lemma close_all_fds:
  fixes s :: "'a kernel_scheme"
  assumes wf: "wf_fds s" and cl: "closable s"
  shows "\<exists>ds. for_range 2 (nat 8) (\<lambda>i t. do {
            d \<leftarrow> aget (file_desc_array (pcb_at t (cur_pcb s))) (int i);
            if flags d = 1 then do { (r, t) \<leftarrow> sys_close (int i) t; Some t } else Some t
          }) s = Some (put_fds ds s) \<and> length ds = 8 \<and> (\<forall>i < 8. flags (ds ! i) = (if 2 \<le> i \<and> flags (fd_of s (int i)) = 1 then 0 else flags (fd_of s (int i))))"
proof -
  let ?d = "\<lambda>i. fd_of s (int i)"
  let ?I = "\<lambda>k t. \<exists>ds. t = put_fds ds s \<and> length ds = 8
    \<and> (\<forall>i < 8. ds ! i = (if 2 \<le> i \<and> i < k \<and> flags (?d i) = 1 then (?d i)\<lparr>flags := 0\<rparr> else ?d i))"
  have "\<exists>t'. for_range 2 8 (\<lambda>i t. do {
            d \<leftarrow> aget (file_desc_array (pcb_at t (cur_pcb s))) (int i);
            if flags d = 1 then do { (r, t) \<leftarrow> sys_close (int i) t; Some t } else Some t
          }) s = Some t' \<and> ?I 8 t'"
  proof (rule for_range_total [where I = ?I])
    have "s = put_fds (file_desc_array (pcb_at s (cur_pcb s))) s" by (simp add: put_fds_def)
    then show "?I 2 s" using wf by (intro exI [of _ "file_desc_array (pcb_at s (cur_pcb s))"]) (auto simp: wf_fds_def fd_of_def)
    fix k t assume k: "2 \<le> k" "k < (8 :: nat)" and "?I k t"
    then obtain ds where t: "t = put_fds ds s" and ds: "length ds = 8"
      "\<forall>i < 8. ds ! i = (if 2 \<le> i \<and> i < k \<and> flags (?d i) = 1 then (?d i)\<lparr>flags := 0\<rparr> else ?d i)" by blast
    have cur: "cur_pcb t = cur_pcb s" "file_desc_array (pcb_at t (cur_pcb s)) = ds" by (simp_all add: t put_fds_def cur_pcb_def)
    have wft: "wf_fds t" using ds(1) cur by (simp add: wf_fds_def)
    have dk: "fd_of t (int k) = ?d k" "ds ! k = ?d k" using k ds(2) cur by (simp_all add: fd_of_def)
    show "\<exists>t'. (do { d \<leftarrow> aget (file_desc_array (pcb_at t (cur_pcb s))) (int k);
            if flags d = 1 then do { (r, t) \<leftarrow> sys_close (int k) t; Some t } else Some t }) = Some t' \<and> ?I (Suc k) t'"
    proof (cases "flags (?d k) = 1")
      case True
      with cl [unfolded closable_def, rule_format, of "int k"] k obtain f where f: "fops (fd_of t (int k)) = Some f" using dk(1) by auto
      have "put_fd (int k) ((?d k)\<lparr>flags := 0\<rparr>) t = put_fds (ds[k := (?d k)\<lparr>flags := 0\<rparr>]) s"
        by (simp add: put_fd_def put_fds_def cur cur_pcb_def t)
      moreover have "sys_close (int k) t = Some (0, put_fd (int k) ((?d k)\<lparr>flags := 0\<rparr>) t)"
        using close_open_fd [OF wft _ _ _ f] k True dk(1) by simp
      moreover have "\<forall>i < 8. ds[k := (?d k)\<lparr>flags := 0\<rparr>] ! i = (if 2 \<le> i \<and> i < Suc k \<and> flags (?d i) = 1 then (?d i)\<lparr>flags := 0\<rparr> else ?d i)"
        using ds k True by (auto simp: nth_list_update less_Suc_eq)
      ultimately show ?thesis using True dk k ds(1) cur(2)
        by (intro exI [of _ "put_fds (ds[k := (?d k)\<lparr>flags := 0\<rparr>]) s"]) (auto simp: aget_def intro!: exI [of _ "ds[k := (?d k)\<lparr>flags := 0\<rparr>]"])
    next
      case False
      then have "\<forall>i < 8. ds ! i = (if 2 \<le> i \<and> i < Suc k \<and> flags (?d i) = 1 then (?d i)\<lparr>flags := 0\<rparr> else ?d i)"
        using ds(2) by (auto simp: less_Suc_eq)
      then show ?thesis using False dk k ds(1) cur(2) t by (intro exI [of _ t]) (auto simp: aget_def)
    qed
  qed simp
  then show ?thesis by fastforce
qed

text \<open>What \<open>halt\<close> leaves behind, as a predicate on the states before and after.\<close>

definition back_in_parent :: "'a kernel_scheme \<Rightarrow> 'a kernel_scheme \<Rightarrow> bool" where
  "back_in_parent s s' \<longleftrightarrow> (let i = terminal_num s; t = term_at s i; p = pcb_at s (cur_pcb s); m = process_num_prev p in
     process s' = (process s)[nat (process_num t) := 0]
     \<and> terminal_t s' = (terminal_t s)[nat i := t\<lparr>total_process := total_process t - 1, process_num := m\<rparr>] \<and> terminal_num s' = i
     \<and> tss_esp0 s' = stack_top m \<and> cur_pcb s' = pcb_addr m
     \<and> (\<forall>va. translate s' va = (if drop_bit 22 va = 32 then Some (program_phys m va) else translate s va))
     \<and> phys s' = phys s \<and> video_mem s' = video_mem s \<and> terminal_displayed s' = terminal_displayed s
     \<and> (\<forall>a. a \<noteq> cur_pcb s \<longrightarrow> pcb_at s' a = pcb_at s a)
     \<and> (\<forall>j. 2 \<le> j \<and> j < 8 \<longrightarrow> flags (file_desc_array (pcb_at s' (cur_pcb s)) ! j) \<noteq> 1))"

lemma halt_runs:
  assumes con: "wf_console s" and on: "paging_on s" and ps: "length (process s) = 6"
    and t: "0 \<le> process_num (term_at s (terminal_num s))" "process_num (term_at s (terminal_num s)) < 6"
      "total_process (term_at s (terminal_num s)) \<noteq> 1"
    and fds: "wf_fds s" "closable s" and m: "process_num_prev (pcb_at s (cur_pcb s)) \<in> {1..6}"
  shows "\<exists>s'. halt junk status s = Some (Return_to_parent status (esp_prev (pcb_at s (cur_pcb s))) (ebp_prev (pcb_at s (cur_pcb s))), s')
    \<and> back_in_parent s s'"
proof -
  let ?i = "terminal_num s" and ?t = "term_at s (terminal_num s)" and ?p = "pcb_at s (cur_pcb s)" and ?m = "process_num_prev (pcb_at s (cur_pcb s))"
  let ?t' = "?t\<lparr>total_process := total_process ?t - 1, process_num := ?m\<rparr>"
  let ?s1 = "s\<lparr>current_process_num := process_num ?t, process := (process s)[nat (process_num ?t) := 0],
    terminal_t := (terminal_t s)[nat ?i := ?t'], PageDirectory := (PageDirectory s)[32 := user_pde ?m]\<rparr>"
  note num = wf_console_num [OF con]
  have t3: "length (terminal_t s) = 3" using con by (simp add: wf_console_def)
  have cur: "cur_pcb ?s1 = cur_pcb s" by (simp add: cur_pcb_def)
  have f1: "fd_of ?s1 = fd_of s" "wf_fds ?s1" "closable ?s1"
    using fds by (simp_all add: fd_of_def wf_fds_def closable_def cur fun_eq_iff)
  from close_all_fds [OF f1(2,3)] obtain ds where
    ds: "for_range 2 8 (\<lambda>i t. do {
            d \<leftarrow> aget (file_desc_array (pcb_at t (cur_pcb s))) (int i);
            if flags d = 1 then do { (r, t) \<leftarrow> sys_close (int i) t; Some t } else Some t
          }) ?s1 = Some (put_fds ds ?s1)" "length ds = 8"
      "\<forall>i < 8. flags (ds ! i) = (if 2 \<le> i \<and> flags (fd_of s (int i)) = 1 then 0 else flags (fd_of s (int i)))"
    unfolding cur f1(1) by auto
  let ?s' = "(put_fds ds ?s1)\<lparr>tss_esp0 := stack_top ?m\<rparr>"
  have st: "8396796 - 8192 * word_of_int ?m = stack_top ?m" by (simp add: stack_top_def)
  let ?s0 = "s\<lparr>current_process_num := process_num ?t, process := (process s)[nat (process_num ?t) := 0],
      terminal_t := (terminal_t s)[nat ?i := ?t']\<rparr>"
  have p0: "same_paging ?s0 s" by (simp add: same_paging_def)
  have on0: "paging_on ?s0" using on paging_on_same [OF p0] by blast
  have mp: "map_program_page ?m ?s0 = Some ?s1" using map_program_page_Some [OF on0, of ?m] by simp
  let ?sa = "s\<lparr>current_process_num := process_num ?t, process := (process s)[nat (process_num ?t) := 0],
      terminal_t := (terminal_t s)[nat ?i := ?t\<lparr>total_process := total_process ?t - 1\<rparr>]\<rparr>"
  have "halt junk status s = halt_to_parent status ?sa"
    using t num t3 ps by (simp add: halt_def aget_def aset_def set_terminal_def term_at_def Let_def)
  also have "aget (terminal_t ?sa) ?i = Some (?t\<lparr>total_process := total_process ?t - 1\<rparr>)"
    using num t3 by (simp add: aget_def)
  then have "halt_to_parent status ?sa = Some (Return_to_parent status (esp_prev ?p) (ebp_prev ?p), ?s')"
    using num t3 ds(1) mp st cur_pcb_def [of ?sa] cur_pcb_def [of s]
    by (simp add: halt_to_parent_def aset_def set_terminal_def Let_def)
  finally have run: "halt junk status s = Some (Return_to_parent status (esp_prev ?p) (ebp_prev ?p), ?s')" .
  have tr: "translate ?s' va = (if drop_bit 22 va = 32 then Some (program_phys ?m va) else translate s va)" for va
  proof -
    have "same_paging ?s' ?s1" by (simp add: same_paging_def put_fds_def)
    then have "translate ?s' va = translate ?s1 va" by (rule translate_same)
    moreover have "translate ?s1 va = (if drop_bit 22 va = 32 then Some (program_phys ?m va) else translate ?s0 va)"
      by (rule translate_map_program_page [OF on0 mp]) (use m in simp_all)
    moreover have "translate ?s0 va = translate s va" by (rule translate_same [OF p0])
    ultimately show ?thesis by (simp only:)
  qed
  have "cur_pcb ?s' = pcb_addr ?m" using pcb_of_stack [of ?m] m by (simp add: cur_pcb_def)
  moreover have "flags (file_desc_array (pcb_at ?s' (cur_pcb s)) ! j) \<noteq> 1" if "2 \<le> j" "j < 8" for j
    using ds(3) that by (simp add: put_fds_def cur)
  ultimately have "back_in_parent s ?s'" using tr by (simp add: back_in_parent_def put_fds_def cur Let_def)
  with run show ?thesis by blast
qed

text \<open>
  \<open>halt\<close> of a process that is not the last of its terminal: control returns from the parent's call of
  \<open>execute\<close> with the status and the stack registers saved there; the process number is free again, the
  terminal runs the parent, the program page and the kernel stack are the parent's, the descriptors of
  the process are closed, and memory and all other control blocks are unchanged.
\<close>

theorem halt_returns_to_parent:
  assumes "wf_console s" and "paging_on s" and "length (process s) = 6"
    and "0 \<le> process_num (term_at s (terminal_num s))" and "process_num (term_at s (terminal_num s)) < 6"
    and "total_process (term_at s (terminal_num s)) \<noteq> 1" and "wf_fds s" and "closable s"
    and "process_num_prev (pcb_at s (cur_pcb s)) \<in> {1..6}"
  shows "\<exists>s'. halt junk status s = Some (Return_to_parent status (esp_prev (pcb_at s (cur_pcb s))) (ebp_prev (pcb_at s (cur_pcb s))), s')
    \<and> back_in_parent s s'"
  by (rule halt_runs [OF assms])

text \<open>The state in which the last process of a terminal has left the process table.\<close>

definition last_exit :: "'a kernel_scheme \<Rightarrow> 'a kernel_scheme" where
  "last_exit s = (let t = term_at s (terminal_num s) in
     s\<lparr>current_process_num := process_num t, process := (process s)[nat (process_num t) := 0],
       terminal_t := (terminal_t s)[nat (terminal_num s) := t\<lparr>total_process := 0, process_num := 0\<rparr>]\<rparr>)"

lemma words_of_name: "\<forall>c \<in> set w. \<not> is_sep c \<Longrightarrow> first_word w = w \<and> after_word w = []"
  by (cases w) (auto simp: first_word_def after_word_def is_sep_def)

text \<open>
  Claim C31. \<open>halt\<close> of the last process of a terminal starts a new shell instead of returning: when the image
  has an executable file \<open>shell\<close>, the call enters it, in the lowest process number that is free once the
  process has left, with no argument and with process 0 as its parent.
\<close>

theorem halt_restarts_shell:
  assumes con: "wf_console s" and k: "kernel_mapped s" and ps: "length (process s) = 6"
    and t: "process_num (term_at s (terminal_num s)) \<in> {0..5}" "total_process (term_at s (terminal_num s)) = 1"
    and free: "n \<in> {1..5}" "process (last_exit s) ! n = 0" "\<forall>j \<in> {1..<n}. process (last_exit s) ! j \<noteq> 0"
    and f: "finds_file s (lit ''shell'') inode bs" "take 4 bs = exe_magic_number" "28 \<le> length bs" "length bs \<le> 0x3B8000"
    and pcb: "wf_pcb (pcb_at s (pcb_addr (int n)))" and junk: "length (fst junk) = 4" "length (snd junk) = 4"
  shows "\<exists>s'. halt junk status s = Some (Enter_user (le32 (bs ! 24) (bs ! 25) (bs ! 26) (bs ! 27)), s')
    \<and> started (int n) bs [] (calling (last_exit s)) s' \<and> process_num_prev (pcb_at s' (pcb_addr (int n))) = 0"
proof -
  let ?c = "arr (lit ''shell'' @ [0])"
  have num: "0 \<le> terminal_num s" "terminal_num s < 3" "length (terminal_t s) = 3"
    using con wf_console_num [OF con] by (auto simp: wf_console_def)
  have le: "same_image (last_exit s) s" "kernel_mapped (last_exit s)" "wf_console (last_exit s)" "length (process (last_exit s)) = 6"
    "pcb_at (last_exit s) = pcb_at s" "term_at (last_exit s) (terminal_num (last_exit s)) = (term_at s (terminal_num s))\<lparr>total_process := 0, process_num := 0\<rparr>"
  proof -
    show i: "same_image (last_exit s) s" by (simp add: last_exit_def same_image_def same_mem_def same_paging_def Let_def)
    then have "same_paging (last_exit s) s" by (simp add: same_image_def same_mem_def)
    then show "kernel_mapped (last_exit s)"
      using k translate_same [of "last_exit s" s] paging_on_same [of "last_exit s" s] by (simp add: kernel_mapped_def)
    show "wf_console (last_exit s)"
      by (rule wf_console_update [OF con, of "(term_at s (terminal_num s))\<lparr>total_process := 0, process_num := 0\<rparr>" _ "nat (terminal_num s)"])
         (use wf_console_term [OF con num(1,2)] in \<open>simp_all add: last_exit_def Let_def\<close>)
  qed (use ps num in \<open>simp_all add: last_exit_def Let_def term_at_def\<close>)
  have w: "first_word (lit ''shell'') = lit ''shell''" "first_word (after_word (lit ''shell'')) = []"
    using words_of_name [of "lit ''shell''"] words_of_name [of "[]"] by (simp_all add: is_sep_def lit_def byte_of_def)
  have "cstr_at ?c (lit ''shell'')" by (rule cstr_at_arr) (simp add: lit_def byte_of_def)
  from execute_runs [OF le(3,2,4) free this _ _ f(2-4), of inode junk] finds_file_same [OF le(1)] f(1) pcb junk w le(5)
  obtain s' where ex: "execute junk (Some ?c) (last_exit s) = Some (Enter_user (le32 (bs ! 24) (bs ! 25) (bs ! 26) (bs ! 27)), s')"
    "started (int n) bs [] (calling (last_exit s)) s'" by auto
  have "halt junk status s = do { (c, s) \<leftarrow> execute junk (Some ?c) (last_exit s);
      case c of Enter_user e \<Rightarrow> Some (c, s) | _ \<Rightarrow> halt_to_parent status s }"
    using num t ps by (simp add: halt_def aget_def aset_def set_terminal_def term_at_def Let_def last_exit_def)
  moreover have "process_num_prev (pcb_at s' (pcb_addr (int n))) = 0" using ex(2) le(6) by (simp add: started_def)
  ultimately show ?thesis using ex by simp
qed

text \<open>
  Claim C3. \<open>execute\<close> and \<open>halt\<close> fit together: when process \<open>m\<close> executes a program as process \<open>n\<close> and that program,
  having changed memory of its own frame only, halts, then the caller continues where it called \<open>execute\<close>,
  with the status as the result, in the address space, with the process table, kernel stack, terminal
  entry and control blocks it had before (only the terminal's \<open>flag\<close> is set and the block of process
  \<open>n\<close> was used), and no memory outside the frame of process \<open>n\<close> has changed.
\<close>

theorem execute_halt_round_trip:
  assumes con: "wf_console s" and k: "kernel_mapped s" and ps: "length (process s) = 6"
    and free: "n \<in> {1..5}" "process s ! n = 0" "\<forall>j \<in> {1..<n}. process s ! j \<noteq> 0"
    and at: "cstr_at command xs" "length (first_word (after_word xs)) < 128"
    and f: "finds_file s (first_word xs) inode bs" "take 4 bs = exe_magic_number" "28 \<le> length bs" "length bs \<le> 0x3B8000"
    and pcb: "wf_pcb (pcb_at s (pcb_addr (int n)))" "\<forall>j \<in> {2..<8}. flags (file_desc_array (pcb_at s (pcb_addr (int n))) ! j) \<noteq> 1"
    and junk: "length (fst junk) = 4" "length (snd junk) = 4"
    and parent: "process_num (term_at s (terminal_num s)) = m" "m \<in> {1..5}" "total_process (term_at s (terminal_num s)) > 0"
      "\<forall>va. drop_bit 22 va = 32 \<longrightarrow> translate s va = Some (program_phys m va)" "tss_esp0 s = stack_top m"
    and ex: "execute junk (Some command) s = Some (c, s1)" and user: "only_mem {q. in_frame (int n + 1) q} s1 s2"
  shows "\<exists>s3. halt junk status s2 = Some (Return_to_parent status (reg_esp s) (reg_ebp s), s3)
    \<and> translate s3 = translate s \<and> process s3 = process s \<and> tss_esp0 s3 = tss_esp0 s
    \<and> terminal_t s3 = (terminal_t s)[nat (terminal_num s) := (term_at s (terminal_num s))\<lparr>flag := 1\<rparr>]
    \<and> (\<forall>a. a \<noteq> pcb_addr (int n) \<longrightarrow> pcb_at s3 a = pcb_at s a) \<and> (\<forall>q. \<not> in_frame (int n + 1) q \<longrightarrow> phys s3 q = phys s q)"
proof -
  let ?i = "terminal_num s" and ?t = "term_at s (terminal_num s)" and ?n = "int n"
  have num: "0 \<le> ?i" "?i < 3" "length (terminal_t s) = 3" using con wf_console_num [OF con] by (auto simp: wf_console_def)
  have n6: "1 \<le> ?n" "?n \<le> 6" using free(1) by auto
  from execute_runs [OF con k ps free at f pcb(1) junk] ex have st: "started ?n bs (first_word (after_word xs)) (calling s) s1" by auto
  note st' = st [unfolded started_def calling_same]
  from user obtain g where s2: "s2 = s1\<lparr>phys := g\<rparr>" and g: "\<forall>q. \<not> in_frame (?n + 1) q \<longrightarrow> g q = phys s1 q"
    by (auto simp: only_mem_def)
  have same: "cur_pcb s2 = pcb_addr ?n" "fd_of s2 = fd_of s1" "wf_console s2" "wf_fds s2"
  proof -
    have c: "cur_pcb s2 = cur_pcb s1" "pcb_at s2 = pcb_at s1" by (simp_all add: s2 cur_pcb_def)
    have "cur_pcb s1 = pcb_addr ?n" "wf_fds s1" using st' by blast+
    then show "cur_pcb s2 = pcb_addr ?n" "fd_of s2 = fd_of s1" "wf_fds s2" using c by (simp_all add: fd_of_def wf_fds_def fun_eq_iff)
    have "wf_console s2 = wf_console s1" by (simp add: s2 wf_console_def)
    then show "wf_console s2" using st' by blast
  qed
  have on: "paging_on s2" using st' paging_on_same [of s2 s1] by (simp add: s2)
  have t2: "term_at s2 (terminal_num s2) = ?t\<lparr>flag := 1, process_num := ?n, total_process := total_process ?t + 1\<rparr>"
    using st' num by (simp add: s2 term_at_def)
  have "flags (fd_of s2 j) \<noteq> 1" if "2 \<le> j" "j < 8" for j
    using st' pcb(2) [rule_format, of "nat j"] that unfolding same(2) by (simp add: nat_less_iff)
  then have cl: "closable s2" by (auto simp: closable_def)
  have p2: "pcb_at s2 (cur_pcb s2) = pcb_at s1 (pcb_addr ?n)" unfolding same(1) by (simp add: s2)
  obtain s3 where s3: "halt junk status s2 = Some (Return_to_parent status (reg_esp s) (reg_ebp s), s3)" "back_in_parent s2 s3"
    using halt_runs [OF same(3) on _ _ _ _ same(4) cl, of junk status] st' ps t2 p2 parent n6 free(1) by (auto simp: s2)
  have prev: "process_num_prev (pcb_at s1 (pcb_addr ?n)) = m" using st' parent(1) by simp
  have s12: "pcb_at s2 = pcb_at s1" "translate s2 = translate s1" by (simp_all add: s2 fun_eq_iff)
  note b = s3(2) [unfolded back_in_parent_def Let_def t2 same(1) s12 prev]
  have "translate s3 va = translate s va" for va
    using b st' parent(4) by (cases "drop_bit 22 va = 32") simp_all
  moreover have "process s3 = process s" using b st' list_update_id [of "process s" n] free(2) by (simp add: s2)
  moreover have "terminal_t s3 = (terminal_t s)[nat ?i := ?t\<lparr>flag := 1\<rparr>]"
    using b st' num by (simp add: s2 parent(1) [symmetric])
  ultimately show ?thesis
    using s3(1) b st' g parent(5) by (intro exI [of _ s3]) (simp add: s2 fun_eq_iff)
qed

section \<open>A machine with a shell\<close>

text \<open>
  Paging is on, process 1 runs in terminal 0, and the image at 0x410000 has one file, \<open>shell\<close>, of 28 bytes.
\<close>

definition shell_file :: "u8 list" where
  "shell_file = exe_magic_number @ replicate 20 0 @ [0x00, 0x80, 0x04, 0x08]"

definition shell_image :: "(u32 \<times> u8) list" where
  "shell_image = [(0x410000, 1), (0x410004, 1), (0x410008, 1), (0x410040, 115), (0x410041, 104), (0x410042, 101),
     (0x410043, 108), (0x410044, 108), (0x410060, 2), (0x411000, 28), (0x412000, 0x7F), (0x412001, 0x45),
     (0x412002, 0x4C), (0x412003, 0x46), (0x412019, 0x80), (0x41201A, 0x04), (0x41201B, 0x08)]"

definition shell_phys :: "u32 \<Rightarrow> u8" where
  "shell_phys a = (case map_of shell_image a of Some b \<Rightarrow> b | None \<Rightarrow> 0)"

definition shell_kernel :: "'a \<Rightarrow> 'a kernel_scheme" where
  "shell_kernel x = (sample_user x)\<lparr>phys := shell_phys, filesystem_start := 0x410000, boot_block := 0x410000, to_test := 0x410000,
     terminal_t := [blank_terminal\<lparr>process_num := 1, total_process := 1, flag := 1\<rparr>, blank_terminal, blank_terminal]\<rparr>"

lemma shell_fields [simp]:
  "phys (shell_kernel x) = shell_phys" "boot_block (shell_kernel x) = 0x410000" "filesystem_start (shell_kernel x) = 0x410000"
  "process (shell_kernel x) = [1, 1, 0, 0, 0, 0]" "tss_esp0 (shell_kernel x) = 0x7FFFFC" "pcb_at (shell_kernel x) = (\<lambda>_. shell_pcb)"
  "terminal_num (shell_kernel x) = 0" "terminal_displayed (shell_kernel x) = 0" "length (video_mem (shell_kernel x)) = 4000"
  "terminal_t (shell_kernel x) = [blank_terminal\<lparr>process_num := 1, total_process := 1, flag := 1\<rparr>, blank_terminal, blank_terminal]"
  by (simp_all add: shell_kernel_def sample_user_def sample_kernel_def sample_fs_def blank_rtc_def blank_defs)

lemma shell_same: "same_paging (shell_kernel x) (sample_user x)"
  by (simp add: same_paging_def shell_kernel_def)

lemma shell_translate:
  "drop_bit 22 va = 32 \<Longrightarrow> translate (shell_kernel x) va = Some (program_phys 1 va)"
  "kernel_page va \<Longrightarrow> translate (shell_kernel x) va = Some va"
proof -
  assume "drop_bit 22 va = 32"
  then show "translate (shell_kernel x) va = Some (program_phys 1 va)"
    using translate_same [OF shell_same [of x]] sample_user_translate [of va x] by simp
next
  assume k: "kernel_page va"
  let ?u = "sample_user x"
  have u: "length (PageDirectory ?u) = 1024" "cr3 ?u = PageDirectory_at ?u" "bit (cr4 ?u) 4" "PageDirectory ?u ! 1 = 0x400083" "bit (cr0 ?u) 31"
    by (simp_all add: sample_user_def sample_kernel_def sample_fs_def blank_rtc_def blank_defs)
  have "walk ?u va = Some (push_bit 22 (drop_bit 22 0x400083) OR take_bit 22 va, bit (0x400083 :: u32) 2)"
    by (rule walk_page_4MB) (use u k in \<open>simp_all add: kernel_page_def\<close>)
  then have "translate ?u va = Some va" using u(5) k push_drop_or_take [of 22 va] by (simp add: translate_def kernel_page_def)
  then show "translate (shell_kernel x) va = Some va" using translate_same [OF shell_same [of x]] by simp
qed

lemma shell_mapped: "kernel_mapped (shell_kernel x)"
  using shell_translate(2) [of _ x] sample_user_on(1) [of x] paging_on_same [OF shell_same [of x]] by (auto simp: kernel_mapped_def)

lemma load8_shell: "kernel_page a \<Longrightarrow> load8 (shell_kernel x) a = Some (shell_phys a)"
  by (simp add: load8_Some [OF shell_translate(2)])

text \<open>Any state that sees this image in the kernel page.\<close>

definition shell_view :: "'a filesys_scheme \<Rightarrow> bool" where
  "shell_view s \<longleftrightarrow> (\<forall>a. kernel_page a \<longrightarrow> load8 s a = Some (shell_phys a)) \<and> filesystem_start s = 0x410000 \<and> boot_block s = 0x410000"

lemma shell_viewD: "shell_view s \<Longrightarrow> kernel_page a \<Longrightarrow> load8 s a = Some (shell_phys a)" "shell_view s \<Longrightarrow> filesystem_start s = 0x410000"
  "shell_view s \<Longrightarrow> boot_block s = 0x410000"
  by (simp_all add: shell_view_def)

lemma shell_viewed: "shell_view (shell_kernel x)"
  by (simp add: shell_view_def load8_shell)

lemma shell_words:
  assumes "shell_view s"
  shows "dir_count s = Some 1" "inode_count s = Some 1" "load32 s 0x411000 = Some 28" "load32 s 0x411004 = Some 0"
  by (simp_all add: dir_count_def inode_count_def load32_def shell_viewD [OF assms] kernel_page_def shell_phys_def shell_image_def)

lemma shell_addr:
  assumes "n < 0x10000"
  shows "kernel_page (0x410000 + of_nat n)"
proof -
  have u: "unat (0x410000 + of_nat n :: u32) = 0x410000 + n" using assms by (simp add: unat_word_ariths of_nat_u32)
  have "unat (drop_bit 22 (0x410000 + of_nat n :: u32)) = unat (0x410000 + of_nat n :: u32) div 2 ^ 22"
    using unat_drop_bit_eq [of 22 "0x410000 + of_nat n :: u32"] drop_bit_eq_div [of 22 "unat (0x410000 + of_nat n :: u32)"] by (rule trans)
  also have "\<dots> = 1" unfolding u by (rule div_nat_eqI) (use assms in simp_all)
  finally have "unat (drop_bit 22 (0x410000 + of_nat n :: u32)) = unat (1 :: u32)" by simp
  then show ?thesis unfolding kernel_page_def by (rule unsigned_word_eqI)
qed

definition shell_dir :: "dentry list" where
  "shell_dir = [dentry_of (map (\<lambda>i. shell_phys (0x410040 + of_nat i)) [0..<64])]"

lemma shell_directory:
  assumes "shell_view s"
  shows "directory s shell_dir"
proof -
  have "load8 s (0x410040 + of_nat i) = Some (shell_phys (0x410040 + of_nat i))" if "i < 64" for i
    by (rule shell_viewD(1) [OF assms]) (use shell_addr [of "0x40 + i"] that in simp)
  then have "load_bytes s 0x410040 64 = Some (map (\<lambda>i. shell_phys (0x410040 + of_nat i)) [0..<64])"
    by (intro load_bytes_ptr) (simp_all add: ptr_def)
  moreover have "shell_phys 0x41007F = 0" by (simp add: shell_phys_def shell_image_def)
  then have "0 \<in> set (map (\<lambda>i. shell_phys (0x410040 + of_nat i)) [0..<64])"
    unfolding set_map by (intro image_eqI [of _ _ 63]) simp_all
  ultimately show ?thesis by (auto simp: directory_def shell_dir_def shell_words [OF assms] shell_viewD(3) [OF assms])
qed

lemma shell_names: "map dentry_name shell_dir = [lit ''shell'']" "map inode_num shell_dir = [0]"
  by code_simp+

lemma shell_bytes: "map (\<lambda>i. shell_phys (0x412000 + of_nat i)) [0..<28] = shell_file"
  by code_simp

lemma small_block: "k < 4096 \<Longrightarrow> (of_nat k :: u32) div 4096 = 0 \<and> (of_nat k :: u32) mod 4096 = of_nat k"
  by (simp add: div_word_less mod_word_less word_less_nat_alt of_nat_u32)

lemma shell_kernel_file:
  assumes "shell_view s"
  shows "kernel_file s 0 shell_file"
proof -
  note v = shell_viewD [OF assms] and w = shell_words [OF assms]
  have len: "length shell_file = 28" by (simp add: shell_file_def exe_magic_number_def)
  have nth: "shell_file ! k = shell_phys (0x412000 + of_nat k)" if "k < 28" for k
    using that by (simp add: shell_bytes [symmetric])
  have page: "kernel_page (0x412000 + of_nat k)" if "k < 28" for k using shell_addr [of "0x2000 + k"] that by simp
  have "file_data s 0 shell_file"
    using page small_block by (auto simp: file_data_def w len inode_at_def data_at_def data_byte_def nth v)
  moreover have "file_in kernel_page s 0 28"
    using page small_block by (auto simp: file_in_def word_in_def inode_at_def data_at_def w v(2,3) kernel_page_def)
  ultimately show ?thesis by (simp add: kernel_file_def len)
qed

lemma shell_in_view:
  assumes "shell_view s"
  shows "finds_file s (lit ''shell'') 0 shell_file"
proof -
  obtain e where e: "shell_dir = [e]" "dentry_name e = lit ''shell''" "inode_num e = 0"
    using shell_names by (auto simp: shell_dir_def)
  have "directory s [e]" using shell_directory [OF assms] unfolding e(1) .
  then show ?thesis unfolding finds_file_def
    by (intro exI [of _ "[e]"] exI [of _ e]) (use e(2,3) shell_kernel_file [OF assms] in \<open>simp_all add: lit_def\<close>)
qed

lemmas shell_found = shell_in_view [OF shell_viewed]

lemma wf_console_shell: "wf_console (shell_kernel x)"
  by (simp add: wf_console_def wf_terminal_def wf_cursor_def blank_terminal_def)

lemma wf_pcb_shell: "wf_pcb shell_pcb"
  by (simp add: wf_pcb_def shell_pcb_def lit_def)

lemma length_hi: "length (lit ''hi'') = 2"
  by (simp add: lit_def)

lemma words_shell_hi: "first_word (lit ''shell hi'') = lit ''shell''" "first_word (after_word (lit ''shell hi'')) = lit ''hi''"
  by code_simp+

lemma shell_file_facts: "take 4 shell_file = exe_magic_number" "length shell_file = 28"
  "le32 (shell_file ! 24) (shell_file ! 25) (shell_file ! 26) (shell_file ! 27) = 0x8048000"
  by code_simp+

lemma cstr_shell_hi: "cstr_at (arr (lit ''shell hi'' @ [0])) (lit ''shell hi'')"
  by (rule cstr_at_arr) (simp add: lit_def byte_of_def)

theorem execute_starts_program_witness:
  "\<exists>s'. execute (replicate 4 0, replicate 4 0) (Some (arr (lit ''shell hi'' @ [0]))) (shell_kernel ()) = Some (Enter_user 0x8048000, s')
    \<and> started 2 shell_file (lit ''hi'') (calling (shell_kernel ())) s'"
  using execute_starts_program [of "shell_kernel ()" 2 _ _ 0 shell_file "(replicate 4 0, replicate 4 0)", OF wf_console_shell shell_mapped _ _ _ _ cstr_shell_hi]
    shell_found [of "()"] wf_pcb_shell
  by (simp add: words_shell_hi shell_file_facts length_hi)

theorem execute_refuses_witness:
  "execute (replicate 4 0, replicate 4 0) (Some (arr (lit ''ls'' @ [0]))) (shell_kernel ()) = Some (Return (-1), calling (shell_kernel ()))"
proof -
  have "cstr_at (arr (lit ''ls'' @ [0])) (lit ''ls'')" by (rule cstr_at_arr) (simp add: lit_def byte_of_def)
  moreover have w: "first_word (lit ''ls'') = lit ''ls''" "first_word (after_word (lit ''ls'')) = []" by code_simp+
  moreover have "dentry_name ` set shell_dir = {lit ''shell''}" using shell_names(1) by (metis list.set(1,2) set_map)
  then have "lit ''ls'' \<notin> dentry_name ` set shell_dir" by (simp add: lit_def)
  ultimately show ?thesis
    using execute_refuses [of "shell_kernel ()" 2 "arr (lit ''ls'' @ [0])" "lit ''ls''" shell_dir "(replicate 4 0, replicate 4 0)"]
      wf_console_shell [of "()"] shell_directory [OF shell_viewed [of "()"]]
    by (simp add: lit_def)
qed

theorem execute_full_table_overruns_witness:
  "execute (replicate 4 0, replicate 4 0) (Some (arr [0])) ((shell_kernel ())\<lparr>process := [1, 1, 1, 1, 1, 1]\<rparr>) = None"
proof -
  have "wf_console ((shell_kernel ())\<lparr>process := [1, 1, 1, 1, 1, 1]\<rparr>)" using wf_console_shell [of "()"] by (simp add: wf_console_def)
  moreover have "\<forall>j \<in> {1..5}. [1, 1, 1, 1, 1, 1 :: int] ! j \<noteq> 0" by (auto simp: nth_Cons' )
  ultimately show ?thesis by (intro execute_full_table_overruns) simp_all
qed

text \<open>The same machine with process 2 running on behalf of process 1.\<close>

definition child_kernel :: "'a \<Rightarrow> 'a kernel_scheme" where
  "child_kernel x = (shell_kernel x)\<lparr>tss_esp0 := stack_top 2, process := [1, 1, 1, 0, 0, 0],
     pcb_at := \<lambda>_. shell_pcb\<lparr>process_num_prev := 1, esp_prev := 0x7FFF00, ebp_prev := 0x7FFF40\<rparr>,
     terminal_t := [blank_terminal\<lparr>process_num := 2, total_process := 2, flag := 1\<rparr>, blank_terminal, blank_terminal]\<rparr>"

lemma closable_pcb: "file_desc_array (pcb_at s (cur_pcb s)) = file_desc_array shell_pcb \<Longrightarrow> closable s \<and> wf_fds s"
proof -
  assume a: "file_desc_array (pcb_at s (cur_pcb s)) = file_desc_array shell_pcb"
  have "flags (fd_of s i) = 0" if "2 \<le> i" "i < 8" for i
    using that by (simp add: fd_of_def a shell_pcb_def nth_append closed_fd_def nat_diff_distrib)
  then show ?thesis using a by (auto simp: closable_def wf_fds_def shell_pcb_def)
qed

theorem halt_returns_to_parent_witness:
  "\<exists>s'. halt (replicate 4 0, replicate 4 0) 7 (child_kernel ()) = Some (Return_to_parent 7 0x7FFF00 0x7FFF40, s') \<and> back_in_parent (child_kernel ()) s'"
proof -
  have "wf_console (child_kernel ())" by (simp add: child_kernel_def wf_console_def wf_terminal_def wf_cursor_def blank_terminal_def)
  moreover have "paging_on (child_kernel ())"
    using shell_mapped [of "()"] paging_on_same [of "child_kernel ()" "shell_kernel ()"] by (simp add: kernel_mapped_def child_kernel_def same_paging_def)
  moreover have "closable (child_kernel ()) \<and> wf_fds (child_kernel ())" by (rule closable_pcb) (simp add: child_kernel_def)
  ultimately show ?thesis
    using halt_returns_to_parent [of "child_kernel ()" "(replicate 4 0, replicate 4 0)" 7] by (simp add: child_kernel_def term_at_def)
qed

theorem halt_restarts_shell_witness:
  "\<exists>s'. halt (replicate 4 0, replicate 4 0) 0 (shell_kernel ()) = Some (Enter_user 0x8048000, s')
    \<and> process_num_prev (pcb_at s' (pcb_addr 1)) = 0"
  using halt_restarts_shell [of "shell_kernel ()" 1 0 shell_file "(replicate 4 0, replicate 4 0)" 0, OF wf_console_shell shell_mapped]
    shell_found [of "()"] wf_pcb_shell
  by (auto simp: shell_file_facts last_exit_def term_at_def)

theorem execute_halt_round_trip_witness:
  "\<exists>c s1 s3. execute (replicate 4 0, replicate 4 0) (Some (arr (lit ''shell hi'' @ [0]))) (shell_kernel ()) = Some (c, s1)
    \<and> halt (replicate 4 0, replicate 4 0) 9 s1 = Some (Return_to_parent 9 (reg_esp (shell_kernel ())) (reg_ebp (shell_kernel ())), s3)
    \<and> translate s3 = translate (shell_kernel ()) \<and> process s3 = [1, 1, 0, 0, 0, 0]"
proof -
  let ?j = "(replicate 4 0, replicate 4 0) :: u8 list \<times> u8 list"
  from execute_runs [of "shell_kernel ()" 2 _ _ 0 shell_file ?j, OF wf_console_shell shell_mapped _ _ _ _ cstr_shell_hi]
    shell_found [of "()"] wf_pcb_shell
  obtain s1 where ex: "execute ?j (Some (arr (lit ''shell hi'' @ [0]))) (shell_kernel ()) = Some (Enter_user 0x8048000, s1)"
    by (auto simp: words_shell_hi shell_file_facts length_hi)
  have "\<forall>j \<in> {2..<8}. flags (file_desc_array shell_pcb ! j) \<noteq> 1"
    by (auto simp: shell_pcb_def nth_append closed_fd_def)
  with execute_halt_round_trip [of "shell_kernel ()" 2 _ _ 0 shell_file ?j 1 _ s1 s1 9, OF wf_console_shell shell_mapped _ _ _ _ cstr_shell_hi]
    shell_found [of "()"] wf_pcb_shell ex shell_translate(1) [of _ "()"]
  show ?thesis by (auto simp: words_shell_hi shell_file_facts length_hi term_at_def stack_top_def)
qed

end
