(* ===== verification/Keyboard.thy ===== *)
theory Keyboard
  imports Process
begin

text \<open>
  The keyboard driver student-distrib/keyboard.c and \<open>switch_terminal\<close> of lib.c: scan codes become characters
  on the screen and in the line buffer of the displayed terminal, modifiers are tracked, and Alt with a
  function key changes the displayed terminal, which starts a shell in a terminal that has none.

  The scan code is the byte that the handler reads from port 0x60. When the handler ends in \<open>execute\<close> it does
  not return; the result says where control goes.
\<close>

abbreviation (input) TAB_SIZE :: nat where "TAB_SIZE \<equiv> 4"
abbreviation (input) IRQ_KEYBOARD :: u32 where "IRQ_KEYBOARD \<equiv> 1"
abbreviation (input) KEYBOARD_DATA :: u16 where "KEYBOARD_DATA \<equiv> 0x60"

abbreviation (input) BACKSPACE_KEY :: u8 where "BACKSPACE_KEY \<equiv> 0x0E"
abbreviation (input) TAB_KEY :: u8 where "TAB_KEY \<equiv> 0x0F"
abbreviation (input) ENTER_KEY :: u8 where "ENTER_KEY \<equiv> 0x1C"
abbreviation (input) CTRL_KEY :: u8 where "CTRL_KEY \<equiv> 0x1D"
abbreviation (input) SHIFT_L :: u8 where "SHIFT_L \<equiv> 0x2A"
abbreviation (input) SHIFT_R :: u8 where "SHIFT_R \<equiv> 0x36"
abbreviation (input) ALT_KEY :: u8 where "ALT_KEY \<equiv> 0x38"
abbreviation (input) CAPSLOCK_KEY :: u8 where "CAPSLOCK_KEY \<equiv> 0x3A"
abbreviation (input) F1_KEY :: u8 where "F1_KEY \<equiv> 0x3B"
abbreviation (input) F2_KEY :: u8 where "F2_KEY \<equiv> 0x3C"
abbreviation (input) F3_KEY :: u8 where "F3_KEY \<equiv> 0x3D"
abbreviation (input) KEYBOARD_RELEASE :: u8 where "KEYBOARD_RELEASE \<equiv> 0x80"

section \<open>State and tables\<close>

record keyboard = kernel +
  CTRL_PRESS :: int
  CAPSLOCK_PRESS :: int
  SHIFT_PRESS :: int
  ALT_PRESS :: int

definition keyboard_original :: "u8 list" where
  "keyboard_original =
     [0, 27] @ lit ''1234567890-='' @ [8, 9]
     @ lit ''qwertyuiop[]'' @ [10, 0]
     @ lit ''asdfghjkl;'' @ [39, 96, 0]
     @ [92] @ lit ''zxcvbnm,./'' @ [0]
     @ lit ''*'' @ [0] @ lit '' '' @ [0]
     @ replicate 10 0 @ replicate 5 0
     @ lit ''-'' @ [0, 0, 0] @ lit ''+'' @ replicate 49 0"

definition keyboard_capslock :: "u8 list" where
  "keyboard_capslock =
     [0, 27] @ lit ''1234567890-='' @ [8, 9]
     @ lit ''QWERTYUIOP[]'' @ [10, 0]
     @ lit ''ASDFGHJKL;'' @ [39, 96, 0]
     @ [92] @ lit ''ZXCVBNM,./'' @ [0]
     @ lit ''*'' @ [0] @ lit '' '' @ [0]
     @ replicate 10 0 @ replicate 5 0
     @ lit ''-'' @ [0, 0, 0] @ lit ''+'' @ replicate 49 0"

definition keyboard_shift :: "u8 list" where
  "keyboard_shift =
     [0, 27] @ lit ''!@#$%^&*()_+'' @ [8, 9]
     @ lit ''QWERTYUIOP{}'' @ [10, 0]
     @ lit ''ASDFGHJKL:'' @ [34, 126, 0]
     @ lit ''|ZXCVBNM<>?'' @ [0]
     @ lit ''*'' @ [0] @ lit '' '' @ [0]
     @ replicate 10 0 @ replicate 5 0
     @ lit ''-'' @ [0, 0, 0] @ lit ''+'' @ replicate 49 0"

definition keyboard_capsshift :: "u8 list" where
  "keyboard_capsshift =
     [0, 27] @ lit ''!@#$%^&*()_+'' @ [8, 9]
     @ lit ''qwertyuiop{}'' @ [10, 0]
     @ lit ''asdfghjkl:'' @ [34, 126, 0]
     @ lit ''|zxcvbnm<>?'' @ [0]
     @ lit ''*'' @ [0] @ lit '' '' @ [0]
     @ replicate 10 0 @ replicate 5 0
     @ lit ''-'' @ [0, 0, 0] @ lit ''+'' @ replicate 49 0"

section \<open>Operations\<close>

definition keyboard_init :: "'a irqs_scheme \<Rightarrow> 'a irqs_scheme option" where
  "keyboard_init s = add_irq (int (unat IRQ_KEYBOARD)) Keyboard_handler s"

text \<open>A copy of a whole screen between two arrays.\<close>

definition copy_screen :: "u8 list \<Rightarrow> u8 list \<Rightarrow> u8 list option" where
  "copy_screen dest src = for_range 0 4000 (\<lambda>i d. do { b \<leftarrow> aget src (int i); aset d (int i) b }) dest"

definition switch_terminal ::
  "u8 list \<times> u8 list \<Rightarrow> int \<Rightarrow> 'a kernel_scheme \<Rightarrow> (control \<times> 'a kernel_scheme) option" where
  "switch_terminal junk new_terminal s = do {
     let s = cli s;
     t \<leftarrow> aget (terminal_t s) (terminal_displayed s);
     v \<leftarrow> copy_screen (video_memory t) (video_mem s);
     s \<leftarrow> set_terminal (terminal_displayed s) (t\<lparr>video_memory := v\<rparr>) s;
     t \<leftarrow> aget (terminal_t s) new_terminal;
     v \<leftarrow> copy_screen (video_mem s) (video_memory t);
     let s = s\<lparr>video_mem := v, terminal_displayed := new_terminal\<rparr>;
     s \<leftarrow> draw_cursor s;
     if new_terminal \<noteq> 0 \<and> flag t = 0 then do {
       let pcb_ptr = cur_pcb s;
       let s = s\<lparr>pcb_at := (pcb_at s)(pcb_ptr := (pcb_at s pcb_ptr)\<lparr>pcb_esp := reg_esp s, pcb_ebp := reg_ebp s\<rparr>)\<rparr>;
       let old = terminal_num s;
       let s = s\<lparr>terminal_num := new_terminal\<rparr>;
       s \<leftarrow> clear s;
       (c, s) \<leftarrow> execute junk (Some (arr (lit ''shell'' @ [0]))) s;
       case c of Enter_user e \<Rightarrow> Some (c, s) | _ \<Rightarrow> Some (Return 0, sti (s\<lparr>terminal_num := old\<rparr>))
     } else Some (Return 0, sti s)
   }"

text \<open>A change of the entry of the displayed terminal.\<close>

definition upd_displayed :: "(terminal \<Rightarrow> terminal option) \<Rightarrow> 'a console_scheme \<Rightarrow> 'a console_scheme option" where
  "upd_displayed f s = do {
     t \<leftarrow> aget (terminal_t s) (terminal_displayed s);
     t \<leftarrow> f t;
     set_terminal (terminal_displayed s) t s
   }"

text \<open>A character to the screen and into the line buffer; nothing for a key without a character.\<close>

definition echo_key :: "u8 \<Rightarrow> 'a console_scheme \<Rightarrow> 'a console_scheme option" where
  "echo_key c s = do {
     s \<leftarrow> putc2screen c s;
     upd_displayed (key_store c) s
   }"

definition clear_displayed :: "'a console_scheme \<Rightarrow> 'a console_scheme option" where
  "clear_displayed s = do {
     s \<leftarrow> for_range 0 (nat KEYBOARD_BUF_SIZE) (\<lambda>i. upd_displayed (\<lambda>t. do {
            kb \<leftarrow> aset (key_buf t) (int i) 0;
            Some (t\<lparr>key_buf := kb\<rparr>)
          })) s;
     s \<leftarrow> upd_displayed (\<lambda>t. Some (t\<lparr>num_buf := 0, buf_flag := 0, screen_x := 0, screen_y := 0, start_line_ptr := 0\<rparr>)) s;
     let s = cli s;
     let temp = terminal_num s;
     let s = s\<lparr>terminal_num := terminal_displayed s\<rparr>;
     s \<leftarrow> clear s;
     Some (sti (s\<lparr>terminal_num := temp\<rparr>))
   }"

definition keyboard_print :: "u8 \<Rightarrow> 'a keyboard_scheme \<Rightarrow> 'a keyboard_scheme option" where
  "keyboard_print scancode s =
     (if scancode \<ge> 0x60 then Some s
      else do {
        original \<leftarrow> aget keyboard_original (uint scancode);
        if CTRL_PRESS s \<noteq> 0 \<and> original = byte_of CHR ''l'' then clear_displayed s
        else do {
          t \<leftarrow> aget (terminal_t s) (terminal_displayed s);
          if num_buf t \<ge> KEYBOARD_BUF_SIZE - 1 then Some s
          else if CAPSLOCK_PRESS s \<noteq> 0 \<and> SHIFT_PRESS s = 0 then do {
            c \<leftarrow> aget keyboard_capslock (uint scancode);
            if c \<noteq> 0 then echo_key c s else Some s
          } else if CAPSLOCK_PRESS s = 0 \<and> SHIFT_PRESS s \<noteq> 0 then do {
            c \<leftarrow> aget keyboard_shift (uint scancode);
            if c \<noteq> 0 then echo_key c s else Some s
          } else if CAPSLOCK_PRESS s \<noteq> 0 \<and> SHIFT_PRESS s \<noteq> 0 then do {
            c \<leftarrow> aget keyboard_capsshift (uint scancode);
            if c \<noteq> 0 then echo_key c s else Some s
          } else if original \<noteq> 0 then echo_key original s else Some s
        }
      })"

text \<open>The \<open>switch\<close> of the handler on the scan code.\<close>

definition keyboard_dispatch ::
  "u8 list \<times> u8 list \<Rightarrow> u8 \<Rightarrow> 'a keyboard_scheme \<Rightarrow> (control \<times> 'a keyboard_scheme) option" where
  "keyboard_dispatch junk scancode s =
     (if scancode = CTRL_KEY then Some (Return 0, s\<lparr>CTRL_PRESS := 1\<rparr>)
      else if scancode = SHIFT_L \<or> scancode = SHIFT_R then Some (Return 0, s\<lparr>SHIFT_PRESS := 1\<rparr>)
      else if scancode = ALT_KEY then Some (Return 0, s\<lparr>ALT_PRESS := 1\<rparr>)
      else if scancode = CAPSLOCK_KEY then Some (Return 0, s\<lparr>CAPSLOCK_PRESS := 1 - CAPSLOCK_PRESS s\<rparr>)
      else if scancode = CTRL_KEY + KEYBOARD_RELEASE then Some (Return 0, s\<lparr>CTRL_PRESS := 0\<rparr>)
      else if scancode = SHIFT_L + KEYBOARD_RELEASE \<or> scancode = SHIFT_R + KEYBOARD_RELEASE then
        Some (Return 0, s\<lparr>SHIFT_PRESS := 0\<rparr>)
      else if scancode = ALT_KEY + KEYBOARD_RELEASE then Some (Return 0, s\<lparr>ALT_PRESS := 0\<rparr>)
      else if scancode = F1_KEY then
        if ALT_PRESS s \<noteq> 0 \<and> terminal_displayed s \<noteq> 0 then switch_terminal junk 0 s else Some (Return 0, s)
      else if scancode = F2_KEY then
        if ALT_PRESS s \<noteq> 0 \<and> terminal_displayed s \<noteq> 1 then switch_terminal junk 1 s else Some (Return 0, s)
      else if scancode = F3_KEY then
        if ALT_PRESS s \<noteq> 0 \<and> terminal_displayed s \<noteq> 2 then switch_terminal junk 2 s else Some (Return 0, s)
      else if scancode = TAB_KEY then do {
        s \<leftarrow> for_range 0 TAB_SIZE (\<lambda>i. echo_key SPACE) s;
        Some (Return 0, s)
      } else if scancode = BACKSPACE_KEY then do {
        t \<leftarrow> aget (terminal_t s) (terminal_displayed s);
        if num_buf t > 0 then do {
          c \<leftarrow> aget keyboard_original (uint scancode);
          s \<leftarrow> putc2screen c s;
          s \<leftarrow> upd_displayed (\<lambda>t. Some (t\<lparr>num_buf := num_buf t - 1\<rparr>)) s;
          Some (Return 0, s)
        } else Some (Return 0, s)
      } else if scancode = ENTER_KEY then do {
        t \<leftarrow> aget (terminal_t s) (terminal_displayed s);
        if num_buf t = KEYBOARD_BUF_SIZE then Some (Return 0, s)
        else do {
          c \<leftarrow> aget keyboard_original (uint scancode);
          s \<leftarrow> upd_displayed (key_store c) s;
          s \<leftarrow> putc2screen c s;
          s \<leftarrow> upd_displayed (\<lambda>t. Some (t\<lparr>buf_flag := buf_flag t + 1\<rparr>)) s;
          Some (Return 0, s)
        }
      } else do {
        s \<leftarrow> keyboard_print scancode s;
        Some (Return 0, s)
      })"

definition keyboard_handler ::
  "u8 list \<times> u8 list \<Rightarrow> u8 \<Rightarrow> 'a keyboard_scheme \<Rightarrow> (control \<times> 'a keyboard_scheme) option" where
  "keyboard_handler junk scancode s = do {
     let saved = eflags_IF s;
     let s = cli s;
     let s = send_eoi IRQ_KEYBOARD s;
     let s = inb KEYBOARD_DATA s;
     (c, s) \<leftarrow> keyboard_dispatch junk scancode s;
     case c of
       Enter_user e \<Rightarrow> Some (c, s)
     | _ \<Rightarrow> Some (Return 0, (sti s)\<lparr>eflags_IF := saved\<rparr>)
   }"

section \<open>Tables\<close>

lemma table_lengths: "length keyboard_original = 128" "length keyboard_capslock = 128" "length keyboard_shift = 128" "length keyboard_capsshift = 128"
  by (simp_all add: keyboard_original_def keyboard_capslock_def keyboard_shift_def keyboard_capsshift_def lit_def)

text \<open>The character that a scan code stands for under the modifiers of \<open>s\<close>; 0 for none.\<close>

definition key_char :: "'a keyboard_scheme \<Rightarrow> u8 \<Rightarrow> u8" where
  "key_char s scancode =
     (if CAPSLOCK_PRESS s \<noteq> 0 then if SHIFT_PRESS s \<noteq> 0 then keyboard_capsshift else keyboard_capslock
      else if SHIFT_PRESS s \<noteq> 0 then keyboard_shift else keyboard_original) ! unat scancode"

definition upper :: "u8 \<Rightarrow> u8" where
  "upper c = (if 97 \<le> c \<and> c \<le> 122 then c - 32 else c)"

definition lower :: "u8 \<Rightarrow> u8" where
  "lower c = (if 65 \<le> c \<and> c \<le> 90 then c + 32 else c)"

text \<open>Keys that the handler passes on to \<open>keyboard_print\<close>, as characters and not as Control-L.\<close>

definition special_keys :: "u8 list" where
  "special_keys = [0x0E, 0x0F, 0x1C, 0x1D, 0x2A, 0x36, 0x38, 0x3A, 0x3B, 0x3C, 0x3D, 0x9D, 0xAA, 0xB6, 0xB8]"

definition char_key :: "'a keyboard_scheme \<Rightarrow> u8 \<Rightarrow> bool" where
  "char_key s scancode \<longleftrightarrow> scancode < 0x60 \<and> scancode \<notin> set special_keys
     \<and> (CTRL_PRESS s = 0 \<or> keyboard_original ! unat scancode \<noteq> 108) \<and> key_char s scancode \<noteq> 0"

lemma uint_less_128: "scancode < 0x60 \<Longrightarrow> unat (scancode :: u8) < 96" "scancode < 0x60 \<Longrightarrow> uint scancode = int (unat scancode)"
  by (simp_all add: word_less_nat_alt)

text \<open>Only the backspace key has the backspace character, and only the enter key the new line.\<close>

lemma table_chars:
  "\<forall>t \<in> {keyboard_original, keyboard_capslock, keyboard_shift, keyboard_capsshift}. \<forall>i < 96.
     (i \<noteq> 14 \<longrightarrow> t ! i \<noteq> 8) \<and> (i \<noteq> 28 \<longrightarrow> t ! i \<noteq> 10)"
proof -
  have "list_all (\<lambda>t. list_all (\<lambda>i. (i \<noteq> 14 \<longrightarrow> t ! i \<noteq> 8) \<and> (i \<noteq> 28 \<longrightarrow> t ! i \<noteq> 10)) [0..<96])
    [keyboard_original, keyboard_capslock, keyboard_shift, keyboard_capsshift]" by code_simp
  then show ?thesis unfolding list_all_iff set_upt list.set by (metis atLeastLessThan_iff le0)
qed

lemma char_key_char: "char_key s scancode \<Longrightarrow> key_char s scancode \<noteq> 8 \<and> key_char s scancode \<noteq> 10"
proof -
  assume k: "char_key s scancode"
  then have "unat scancode < 96" "scancode \<noteq> 14" "scancode \<noteq> 28" by (auto simp: char_key_def special_keys_def uint_less_128)
  then have "unat scancode < 96" "unat scancode \<noteq> 14" "unat scancode \<noteq> 28" using unsigned_word_eqI [of scancode 14] unsigned_word_eqI [of scancode 28] by auto
  then show ?thesis using table_chars by (auto simp: key_char_def)
qed

section \<open>Changes of the displayed terminal\<close>

text \<open>
  \<open>keyed S t s s'\<close>: the step from \<open>s\<close> to \<open>s'\<close> changes the displayed terminal only, which becomes \<open>t\<close> and shows \<open>S\<close>.
\<close>

definition keyed :: "screen \<Rightarrow> terminal \<Rightarrow> 'a console_scheme \<Rightarrow> 'a console_scheme \<Rightarrow> bool" where
  "keyed S t s s' \<longleftrightarrow> console_frame s' = console_frame s \<and> wf_console s'
     \<and> terminal_t s' = (terminal_t s)[nat (terminal_displayed s) := t] \<and> shown s' (terminal_displayed s) = S"

lemma keyed_displayed: "keyed S t s s' \<Longrightarrow> terminal_displayed s' = terminal_displayed s \<and> terminal_num s' = terminal_num s"
  by (auto simp: keyed_def dest: console_frameD)

lemma keyed_term:
  assumes "keyed S t s s'"
  shows "term_at s' (terminal_displayed s) = t" and "0 \<le> j \<Longrightarrow> j \<noteq> terminal_displayed s \<Longrightarrow> term_at s' j = term_at s j"
    and "wf_console s'"
proof -
  from assms have w: "wf_console s'" and ts: "terminal_t s' = (terminal_t s)[nat (terminal_displayed s) := t]" by (auto simp: keyed_def)
  have d: "0 \<le> terminal_displayed s" "terminal_displayed s < 3" "length (terminal_t s) = 3"
    using wf_console_num [OF w] keyed_displayed [OF assms] w ts by (auto simp: wf_console_def)
  show "term_at s' (terminal_displayed s) = t" using d ts by (simp add: term_at_def)
  show "0 \<le> j \<Longrightarrow> j \<noteq> terminal_displayed s \<Longrightarrow> term_at s' j = term_at s j" using d ts by (simp add: term_at_def eq_nat_nat_iff)
qed (use assms in \<open>simp add: keyed_def\<close>)

lemma keyed_wf_terminal:
  assumes "keyed S t s s'"
  shows "wf_terminal t"
proof -
  note k = keyed_displayed [OF assms] keyed_term [OF assms]
  have "0 \<le> terminal_displayed s" "terminal_displayed s < 3" using wf_console_num [OF k(4)] k(1) by auto
  then show ?thesis using wf_console_term(2) [OF k(4)] k(2) by blast
qed

lemma keyed_trans: "keyed S t s s' \<Longrightarrow> keyed S' t' s' s'' \<Longrightarrow> keyed S' t' s s''"
  using keyed_displayed [of S t s s'] by (auto simp: keyed_def)

lemma keyed_refl: "wf_console s \<Longrightarrow> keyed (shown s (terminal_displayed s)) (term_at s (terminal_displayed s)) s s"
  by (simp add: keyed_def term_at_def)

lemma putc2screen_keyed:
  assumes "wf_console s" and "put_safe c (shown s (terminal_displayed s))"
  shows "\<exists>t s'. putc2screen c s = Some s' \<and> keyed (spec_put c (shown s (terminal_displayed s))) t s s'
    \<and> same_input t (term_at s (terminal_displayed s))"
proof -
  let ?d = "terminal_displayed s"
  from putc2screen_outputs [OF assms] obtain t s' where
    r: "putc2screen c s = Some s'" "console_frame s' = console_frame s" "terminal_t s' = (terminal_t s)[nat ?d := t]"
      "same_input t (term_at s ?d)" "wf_terminal t" "length (video_mem s') = 4000" "screen_of t (video_mem s') = spec_put c (shown s ?d)"
    by blast
  note d = wf_console_num(3,4) [OF assms(1)] and f = console_frameD(1,2) [OF r(2)]
  have "wf_console s'" using wf_console_upd [OF assms(1) r(5,6), of ?d] r(3) f by (simp add: wf_console_def)
  moreover have "shown s' ?d = spec_put c (shown s ?d)"
    using r(3,7) d f assms(1) by (simp add: shown_def screen_buf_def term_at_def wf_console_def)
  ultimately show ?thesis using r by (auto simp: keyed_def)
qed

lemma upd_displayed_keyed:
  assumes wf: "wf_console s" and f: "f (term_at s (terminal_displayed s)) = Some t" and t: "wf_terminal t"
    and same: "screen_of t (video_mem s) = screen_of (term_at s (terminal_displayed s)) (video_mem s)"
  shows "\<exists>s'. upd_displayed f s = Some s' \<and> keyed (shown s (terminal_displayed s)) t s s'"
proof -
  let ?d = "terminal_displayed s"
  note d = wf_console_num(3,4) [OF wf]
  let ?s' = "s\<lparr>terminal_t := (terminal_t s)[nat ?d := t]\<rparr>"
  have "upd_displayed f s = Some ?s'"
    using wf_console_term(1) [OF wf d] f set_terminal_Some [OF wf d] by (simp add: upd_displayed_def)
  moreover have "wf_console ?s'" by (rule wf_console_update [OF wf t]) simp_all
  moreover have "shown ?s' ?d = shown s ?d"
    using same d wf by (simp add: shown_def screen_buf_def term_at_def wf_console_def)
  ultimately show ?thesis by (auto simp: keyed_def console_frame_def)
qed

lemma key_store_append:
  assumes "wf_terminal t" and "wf_keys t" and "num_buf t < 128"
  shows "\<exists>kb. key_store c t = Some (t\<lparr>key_buf := kb, num_buf := num_buf t + 1\<rparr>) \<and> length kb = 128
    \<and> pending_keys (t\<lparr>key_buf := kb, num_buf := num_buf t + 1\<rparr>) = pending_keys t @ [c]"
proof -
  have "length (pending_keys t) < 128" using assms(2,3) by (auto simp: pending_keys_def wf_keys_def)
  from keys.append [OF assms(2) this, of c] obtain t' where t': "key_store c t = Some t'" "wf_keys t'" "pending_keys t' = pending_keys t @ [c]" by blast
  from t'(1) obtain kb where "t' = t\<lparr>key_buf := kb, num_buf := num_buf t + 1\<rparr>" by (auto simp: key_store_def bind_eq_Some_conv)
  with t' show ?thesis by (auto simp: wf_keys_def)
qed

lemma terminal_keys_simps [simp]:
  "length kb = 128 \<Longrightarrow> wf_terminal t \<Longrightarrow> wf_terminal (t\<lparr>key_buf := kb\<rparr>)"
  "wf_terminal (t\<lparr>num_buf := n\<rparr>) = wf_terminal t" "wf_terminal (t\<lparr>buf_flag := f\<rparr>) = wf_terminal t"
  "screen_of (t\<lparr>key_buf := kb\<rparr>) v = screen_of t v" "screen_of (t\<lparr>num_buf := n\<rparr>) v = screen_of t v"
  "screen_of (t\<lparr>buf_flag := f\<rparr>) v = screen_of t v"
  by (simp_all add: wf_terminal_def wf_cursor_def screen_of_def)

text \<open>Fields of a terminal that belong to its process.\<close>

definition same_proc :: "terminal \<Rightarrow> terminal \<Rightarrow> bool" where
  "same_proc t u \<longleftrightarrow> process_num t = process_num u \<and> flag t = flag u \<and> total_process t = total_process u"

lemma buf_flag_keys [simp]:
  "pending_keys (t\<lparr>buf_flag := f\<rparr>) = pending_keys t" "wf_keys (t\<lparr>buf_flag := f\<rparr>) = wf_keys t" "same_proc (t\<lparr>buf_flag := f\<rparr>) u = same_proc t u"
  "same_proc (t\<lparr>num_buf := n\<rparr>) u = same_proc t u" "same_proc (t\<lparr>key_buf := kb\<rparr>) u = same_proc t u" "same_proc t t"
  by (simp_all add: pending_keys_def wf_keys_def same_proc_def)

lemma same_proc_right [simp]:
  "same_proc t (u\<lparr>num_buf := n\<rparr>) = same_proc t u" "same_proc t (u\<lparr>key_buf := kb\<rparr>) = same_proc t u" "same_proc t (u\<lparr>buf_flag := f\<rparr>) = same_proc t u"
  by (simp_all add: same_proc_def)

lemma same_input_keys: "same_input t u \<Longrightarrow> pending_keys t = pending_keys u \<and> wf_keys t = wf_keys u \<and> buf_flag t = buf_flag u
    \<and> num_buf t = num_buf u \<and> same_proc t u"
  by (simp add: same_input_def pending_keys_def wf_keys_def same_proc_def)

lemma echo_key_keyed:
  assumes wf: "wf_console s" and keys: "wf_keys (term_at s (terminal_displayed s))"
    and room: "num_buf (term_at s (terminal_displayed s)) < 128" and c: "c \<noteq> BS"
  shows "\<exists>t s'. echo_key c s = Some s' \<and> keyed (spec_put c (shown s (terminal_displayed s))) t s s'
    \<and> wf_keys t \<and> pending_keys t = pending_keys (term_at s (terminal_displayed s)) @ [c]
    \<and> num_buf t = num_buf (term_at s (terminal_displayed s)) + 1
    \<and> buf_flag t = buf_flag (term_at s (terminal_displayed s)) \<and> same_proc t (term_at s (terminal_displayed s))"
proof -
  let ?d = "terminal_displayed s"
  from putc2screen_keyed [OF wf, of c] c obtain t1 s1 where
    s1: "putc2screen c s = Some s1" "keyed (spec_put c (shown s ?d)) t1 s s1" "same_input t1 (term_at s ?d)"
    by (auto simp: put_safe_def)
  note k1 = keyed_displayed [OF s1(2)] keyed_term [OF s1(2)] same_input_keys [OF s1(3)]
  have "wf_terminal t1" by (rule keyed_wf_terminal [OF s1(2)])
  then obtain kb where kb: "key_store c t1 = Some (t1\<lparr>key_buf := kb, num_buf := num_buf t1 + 1\<rparr>)" "length kb = 128"
    "pending_keys (t1\<lparr>key_buf := kb, num_buf := num_buf t1 + 1\<rparr>) = pending_keys t1 @ [c]"
    using key_store_append [of t1 c] keys room k1(5) by auto
  let ?t2 = "t1\<lparr>key_buf := kb, num_buf := num_buf t1 + 1\<rparr>"
  have "key_store c (term_at s1 (terminal_displayed s1)) = Some ?t2" "wf_terminal ?t2"
    using kb(1,2) k1(1,2) \<open>wf_terminal t1\<close> by simp_all
  from upd_displayed_keyed [where f = "key_store c" and t = ?t2, OF k1(4) this] k1(1,2) obtain s2 where
    s2: "upd_displayed (key_store c) s1 = Some s2" "keyed (shown s1 (terminal_displayed s1)) ?t2 s1 s2" by auto
  have "shown s1 (terminal_displayed s1) = spec_put c (shown s ?d)" using s1(2) k1(1) by (simp add: keyed_def)
  then have "keyed (spec_put c (shown s ?d)) ?t2 s s2" using keyed_trans [OF s1(2) s2(2)] by simp
  moreover have "echo_key c s = Some s2" using s1(1) s2(1) by (simp add: echo_key_def)
  moreover have "wf_keys ?t2" using kb(2) keys room k1(5) by (simp add: wf_keys_def)
  ultimately show ?thesis using kb(3) k1(5) by (intro exI [of _ ?t2] exI [of _ s2]) (simp add: same_proc_def)
qed

section \<open>The handler around its dispatch\<close>

definition entered :: "'a keyboard_scheme \<Rightarrow> 'a keyboard_scheme" where
  "entered s = inb KEYBOARD_DATA (send_eoi IRQ_KEYBOARD (cli s))"

lemma entered_eq: "\<exists>ps. entered s = s\<lparr>ports := ps, eflags_IF := False\<rparr>"
  by (rule exI [of _ "ports s @ [Outb 32 97, Inb 96]"]) (simp add: entered_def send_eoi_def cpu_defs)

lemma entered_views [simp]:
  "wf_console (entered s) = wf_console s" "shown (entered s) = shown s" "screen_buf (entered s) = screen_buf s" "term_at (entered s) = term_at s"
  "terminal_t (entered s) = terminal_t s" "terminal_displayed (entered s) = terminal_displayed s" "terminal_num (entered s) = terminal_num s"
  "CTRL_PRESS (entered s) = CTRL_PRESS s" "SHIFT_PRESS (entered s) = SHIFT_PRESS s" "CAPSLOCK_PRESS (entered s) = CAPSLOCK_PRESS s"
  "ALT_PRESS (entered s) = ALT_PRESS s" "key_char (entered s) = key_char s" "char_key (entered s) = char_key s"
  "console_frame (entered s) = (console_frame s)\<lparr>eflags_IF := False\<rparr>"
  "process (entered s) = process s" "video_mem (entered s) = video_mem s"
  using entered_eq [of s] by (auto simp: wf_console_def shown_def screen_buf_def term_at_def key_char_def char_key_def console_frame_def fun_eq_iff)

lemma handler_returns:
  "keyboard_dispatch junk scancode (entered s) = Some (Return r, s1) \<Longrightarrow>
   keyboard_handler junk scancode s = Some (Return 0, s1\<lparr>eflags_IF := eflags_IF s\<rparr>)"
  by (simp add: keyboard_handler_def entered_def Let_def cpu_defs)

lemma handler_keyed:
  assumes d: "keyboard_dispatch junk scancode (entered s) = Some (Return r, s1)" and k: "keyed S t (entered s) s1"
  shows "\<exists>s'. keyboard_handler junk scancode s = Some (Return 0, s') \<and> keyed S t s s'"
proof -
  have "console_frame (s1\<lparr>eflags_IF := eflags_IF s\<rparr>) = (console_frame s1)\<lparr>eflags_IF := eflags_IF s\<rparr>" by (simp add: console_frame_def)
  also have "\<dots> = console_frame s" using k by (simp add: keyed_def) (simp add: console_frame_def)
  finally have "keyed S t s (s1\<lparr>eflags_IF := eflags_IF s\<rparr>)" using k by (simp add: keyed_def)
  with handler_returns [OF d] show ?thesis by blast
qed

lemma dispatch_char:
  assumes "scancode \<notin> set special_keys"
  shows "keyboard_dispatch junk scancode s = do { s \<leftarrow> keyboard_print scancode s; Some (Return 0, s) }"
proof -
  have r: "CTRL_KEY + KEYBOARD_RELEASE = 0x9D" "SHIFT_L + KEYBOARD_RELEASE = 0xAA" "SHIFT_R + KEYBOARD_RELEASE = 0xB6" "ALT_KEY + KEYBOARD_RELEASE = 0xB8"
    by simp_all
  have n: "scancode \<noteq> 0x0E" "scancode \<noteq> 0x0F" "scancode \<noteq> 0x1C" "scancode \<noteq> 0x1D" "scancode \<noteq> 0x2A" "scancode \<noteq> 0x36" "scancode \<noteq> 0x38"
    "scancode \<noteq> 0x3A" "scancode \<noteq> 0x3B" "scancode \<noteq> 0x3C" "scancode \<noteq> 0x3D" "scancode \<noteq> 0x9D" "scancode \<noteq> 0xAA" "scancode \<noteq> 0xB6" "scancode \<noteq> 0xB8"
    using assms unfolding special_keys_def list.set by (simp_all only: insert_iff empty_iff simp_thms de_Morgan_disj)
  show ?thesis unfolding keyboard_dispatch_def r by (simp only: n if_False simp_thms)
qed

lemma print_char:
  assumes wf: "wf_console s" and k: "char_key s scancode" and room: "num_buf (term_at s (terminal_displayed s)) < 127"
  shows "keyboard_print scancode s = echo_key (key_char s scancode) s"
proof -
  have u: "unat scancode < 96" "uint scancode = int (unat scancode)" "scancode < 0x60"
    using k uint_less_128 [of scancode] unfolding char_key_def by blast+
  have t: "aget (terminal_t s) (terminal_displayed s) = Some (term_at s (terminal_displayed s))"
    using wf_console_term(1) [OF wf] wf_console_num [OF wf] by blast
  have g: "aget keyboard_original (uint scancode) = Some (keyboard_original ! unat scancode)"
    "aget keyboard_capslock (uint scancode) = Some (keyboard_capslock ! unat scancode)"
    "aget keyboard_shift (uint scancode) = Some (keyboard_shift ! unat scancode)"
    "aget keyboard_capsshift (uint scancode) = Some (keyboard_capsshift ! unat scancode)"
  proof -
    have "uint scancode < 128" unfolding u(2) using u(1) by linarith
    then show "aget keyboard_original (uint scancode) = Some (keyboard_original ! unat scancode)"
      "aget keyboard_capslock (uint scancode) = Some (keyboard_capslock ! unat scancode)"
      "aget keyboard_shift (uint scancode) = Some (keyboard_shift ! unat scancode)"
      "aget keyboard_capsshift (uint scancode) = Some (keyboard_capsshift ! unat scancode)"
      by (simp_all add: aget_def table_lengths)
  qed
  have l: "byte_of CHR ''l'' = 108" by (simp add: byte_of_def)
  show ?thesis using k room u(3) unfolding keyboard_print_def g l t
    by (auto simp: char_key_def key_char_def not_le)
qed

lemma handler_types:
  assumes wf: "wf_console s" and keys: "wf_keys (term_at s (terminal_displayed s))" and k: "char_key s scancode"
    and room: "num_buf (term_at s (terminal_displayed s)) < 127"
  shows "\<exists>t s'. keyboard_handler junk scancode s = Some (Return 0, s') \<and> keyed (spec_put (key_char s scancode) (shown s (terminal_displayed s))) t s s'
    \<and> wf_keys t \<and> pending_keys t = pending_keys (term_at s (terminal_displayed s)) @ [key_char s scancode]
    \<and> num_buf t = num_buf (term_at s (terminal_displayed s)) + 1
    \<and> buf_flag t = buf_flag (term_at s (terminal_displayed s)) \<and> same_proc t (term_at s (terminal_displayed s))"
proof -
  have "keyboard_dispatch junk scancode (entered s) = do { s \<leftarrow> echo_key (key_char s scancode) (entered s); Some (Return 0, s) }"
    using dispatch_char [of scancode junk "entered s"] print_char [of "entered s" scancode] wf k room by (simp add: char_key_def)
  moreover from echo_key_keyed [of "entered s" "key_char s scancode"] wf keys room char_key_char [OF k] obtain t s1 where
    e: "echo_key (key_char s scancode) (entered s) = Some s1" "keyed (spec_put (key_char s scancode) (shown s (terminal_displayed s))) t (entered s) s1"
      "wf_keys t" "pending_keys t = pending_keys (term_at s (terminal_displayed s)) @ [key_char s scancode]"
      "num_buf t = num_buf (term_at s (terminal_displayed s)) + 1"
      "buf_flag t = buf_flag (term_at s (terminal_displayed s))" "same_proc t (term_at s (terminal_displayed s))" by auto
  ultimately have "keyboard_dispatch junk scancode (entered s) = Some (Return 0, s1)" by simp
  from handler_keyed [OF this e(2)] e(3-) show ?thesis by blast
qed

lemma enter_keyed:
  assumes wf: "wf_console s" and keys: "wf_keys (term_at s (terminal_displayed s))"
    and room: "num_buf (term_at s (terminal_displayed s)) < 128"
  shows "\<exists>t s'. keyboard_handler junk ENTER_KEY s = Some (Return 0, s') \<and> keyed (spec_put NL (shown s (terminal_displayed s))) t s s'
    \<and> wf_keys t \<and> pending_keys t = pending_keys (term_at s (terminal_displayed s)) @ [NL]
    \<and> num_buf t = num_buf (term_at s (terminal_displayed s)) + 1
    \<and> buf_flag t = buf_flag (term_at s (terminal_displayed s)) + 1 \<and> same_proc t (term_at s (terminal_displayed s))"
proof -
  let ?e = "entered s" and ?d = "terminal_displayed s" and ?t = "term_at s (terminal_displayed s)"
  have wfe: "wf_console ?e" using wf by simp
  note num = wf_console_num [OF wf]
  have wft: "wf_terminal ?t" by (rule wf_console_term(2) [OF wf num(3,4)])
  obtain kb where kb: "key_store NL ?t = Some (?t\<lparr>key_buf := kb, num_buf := num_buf ?t + 1\<rparr>)" "length kb = 128"
    "pending_keys (?t\<lparr>key_buf := kb, num_buf := num_buf ?t + 1\<rparr>) = pending_keys ?t @ [NL]"
    using key_store_append [OF wft keys room, of NL] by blast
  let ?t1 = "?t\<lparr>key_buf := kb, num_buf := num_buf ?t + 1\<rparr>"
  from upd_displayed_keyed [OF wfe, of "key_store NL" ?t1] kb wft obtain s1 where
    s1: "upd_displayed (key_store NL) ?e = Some s1" "keyed (shown s ?d) ?t1 ?e s1" by auto
  note k1 = keyed_displayed [OF s1(2)] keyed_term [OF s1(2)]
  from putc2screen_keyed [OF k1(4), of NL] obtain t2 s2 where
    s2: "putc2screen NL s1 = Some s2" "keyed (spec_put NL (shown s1 ?d)) t2 s1 s2" "same_input t2 ?t1" using k1 by (auto simp: put_safe_def)
  note k2 = keyed_displayed [OF s2(2)] keyed_term [OF s2(2)]
  have wft2: "wf_terminal t2" by (rule keyed_wf_terminal [OF s2(2)])
  let ?f = "\<lambda>t. Some (t\<lparr>buf_flag := buf_flag t + 1\<rparr>)"
  from upd_displayed_keyed [OF k2(4), of ?f "t2\<lparr>buf_flag := buf_flag t2 + 1\<rparr>"] wft2 k1(1) k2(1,2) obtain s3 where
    s3: "upd_displayed ?f s2 = Some s3" "keyed (shown s2 ?d) (t2\<lparr>buf_flag := buf_flag t2 + 1\<rparr>) s2 s3" by auto
  have "shown s2 ?d = spec_put NL (shown s ?d)" using s1(2) s2(2) k1(1) by (simp add: keyed_def)
  then have k3: "keyed (spec_put NL (shown s ?d)) (t2\<lparr>buf_flag := buf_flag t2 + 1\<rparr>) ?e s3"
    using keyed_trans [OF keyed_trans [OF s1(2) s2(2)] s3(2)] by simp
  have c: "aget keyboard_original 28 = Some NL" by code_simp
  have "aget (terminal_t ?e) (terminal_displayed ?e) = Some ?t" using wf_console_term(1) [OF wf num(3,4)] by simp
  then have "keyboard_dispatch junk ENTER_KEY ?e = Some (Return 0, s3)"
    using room c s1(1) s2(1) s3(1) by (simp add: keyboard_dispatch_def)
  from handler_keyed [OF this k3] obtain s' where
    "keyboard_handler junk ENTER_KEY s = Some (Return 0, s')" "keyed (spec_put NL (shown s ?d)) (t2\<lparr>buf_flag := buf_flag t2 + 1\<rparr>) s s'" by blast
  moreover have "wf_keys ?t1" using kb(2) keys room by (simp add: wf_keys_def)
  ultimately show ?thesis using same_input_keys [OF s2(3)] kb(3)
    by (intro exI [of _ "t2\<lparr>buf_flag := buf_flag t2 + 1\<rparr>"] exI [of _ s']) simp
qed

lemma putc2screen_safe:
  assumes wf: "wf_console s" and r: "putc2screen c s = Some s'"
  shows "put_safe c (shown s (terminal_displayed s))"
proof (rule ccontr)
  let ?t = "term_at s (terminal_displayed s)"
  assume "\<not> ?thesis"
  then have c: "c = BS" and z: "cursor (shown s (terminal_displayed s)) = 0" "line_start (shown s (terminal_displayed s)) \<noteq> 0"
    by (auto simp: put_safe_def)
  note n = wf_console_num [OF wf]
  have "wf_cursor ?t" using wf_console_term(2) [OF wf n(3,4)] by (simp add: wf_terminal_def)
  then have "screen_x ?t = 0" "screen_y ?t = 0" "start_line_ptr ?t \<noteq> 0"
    using z by (auto simp: shown_def screen_of_def wf_cursor_def)
  then have "emit BS ?t v = None" for v by (simp add: emit_def aset_def)
  then show False using r wf_console_term(1) [OF wf n(3,4)] by (simp add: putc2screen_def c)
qed

lemma pending_butlast:
  assumes "wf_keys t" and "num_buf t > 0"
  shows "pending_keys (t\<lparr>num_buf := num_buf t - 1\<rparr>) = butlast (pending_keys t)" and "wf_keys (t\<lparr>num_buf := num_buf t - 1\<rparr>)"
proof -
  have "nat (num_buf t) = Suc (nat (num_buf t - 1))" using assms(2) by linarith
  moreover have "nat (num_buf t) \<le> length (key_buf t)" using assms by (auto simp: wf_keys_def)
  ultimately show "pending_keys (t\<lparr>num_buf := num_buf t - 1\<rparr>) = butlast (pending_keys t)" by (simp add: pending_keys_def butlast_take)
  show "wf_keys (t\<lparr>num_buf := num_buf t - 1\<rparr>)" using assms by (simp add: wf_keys_def)
qed

lemma backspace_keyed:
  assumes wf: "wf_console s" and keys: "wf_keys (term_at s (terminal_displayed s))"
    and some: "num_buf (term_at s (terminal_displayed s)) > 0" and safe: "put_safe BS (shown s (terminal_displayed s))"
  shows "\<exists>t s'. keyboard_handler junk BACKSPACE_KEY s = Some (Return 0, s') \<and> keyed (spec_put BS (shown s (terminal_displayed s))) t s s'
    \<and> wf_keys t \<and> pending_keys t = butlast (pending_keys (term_at s (terminal_displayed s)))
    \<and> num_buf t = num_buf (term_at s (terminal_displayed s)) - 1 \<and> key_buf t = key_buf (term_at s (terminal_displayed s))
    \<and> buf_flag t = buf_flag (term_at s (terminal_displayed s)) \<and> same_proc t (term_at s (terminal_displayed s))"
proof -
  let ?e = "entered s" and ?d = "terminal_displayed s" and ?t = "term_at s (terminal_displayed s)"
  note num = wf_console_num [OF wf]
  from putc2screen_keyed [of ?e BS] wf safe obtain t1 s1 where
    s1: "putc2screen BS ?e = Some s1" "keyed (spec_put BS (shown s ?d)) t1 ?e s1" "same_input t1 ?t" by auto
  note k1 = keyed_displayed [OF s1(2)] keyed_term [OF s1(2)] same_input_keys [OF s1(3)]
  have wft1: "wf_terminal t1" by (rule keyed_wf_terminal [OF s1(2)])
  let ?f = "\<lambda>t. Some (t\<lparr>num_buf := num_buf t - 1\<rparr>)" and ?t2 = "t1\<lparr>num_buf := num_buf t1 - 1\<rparr>"
  from upd_displayed_keyed [where f = ?f and t = ?t2, OF k1(4)] wft1 k1(1,2) obtain s2 where
    s2: "upd_displayed ?f s1 = Some s2" "keyed (shown s1 ?d) ?t2 s1 s2" by auto
  have "shown s1 ?d = spec_put BS (shown s ?d)" using s1(2) by (simp add: keyed_def)
  then have k2: "keyed (spec_put BS (shown s ?d)) ?t2 ?e s2" using keyed_trans [OF s1(2) s2(2)] by simp
  have c: "aget keyboard_original 14 = Some BS" by code_simp
  have "aget (terminal_t ?e) (terminal_displayed ?e) = Some ?t" using wf_console_term(1) [OF wf num(3,4)] by simp
  then have "keyboard_dispatch junk BACKSPACE_KEY ?e = Some (Return 0, s2)"
    using some c s1(1) s2(1) by (simp add: keyboard_dispatch_def)
  from handler_keyed [OF this k2] obtain s' where
    "keyboard_handler junk BACKSPACE_KEY s = Some (Return 0, s')" "keyed (spec_put BS (shown s ?d)) ?t2 s s'" by blast
  then show ?thesis using pending_butlast [of t1] keys some k1(5) s1(3)
    by (intro exI [of _ ?t2] exI [of _ s']) (simp add: same_input_def)
qed

lemma copy_screen_Some:
  assumes "length dest = 4000" and "length src = 4000"
  shows "copy_screen dest src = Some src"
proof -
  let ?I = "\<lambda>k d. length d = 4000 \<and> take k d = take k src"
  have "\<exists>d. copy_screen dest src = Some d \<and> ?I 4000 d"
    unfolding copy_screen_def
  proof (rule for_range_total [where I = ?I])
    fix k d assume k: "k < (4000 :: nat)" and I: "?I k d"
    then have "take (Suc k) (d[k := src ! k]) = take (Suc k) src" using assms by (simp add: take_Suc_conv_app_nth)
    then show "\<exists>d'. do { b \<leftarrow> aget src (int k); aset d (int k) b } = Some d' \<and> ?I (Suc k) d'"
      using k I assms by (simp add: aget_def aset_def)
  qed (use assms in auto)
  then show ?thesis using assms by auto
qed

lemma clear_key_buf:
  assumes wf: "wf_console s"
  shows "\<exists>s' kb. for_range 0 (nat KEYBOARD_BUF_SIZE) (\<lambda>i. upd_displayed (\<lambda>t. do { kb \<leftarrow> aset (key_buf t) (int i) 0; Some (t\<lparr>key_buf := kb\<rparr>) })) s = Some s'
    \<and> length kb = 128 \<and> keyed (shown s (terminal_displayed s)) ((term_at s (terminal_displayed s))\<lparr>key_buf := kb\<rparr>) s s'"
proof -
  let ?d = "terminal_displayed s" and ?t = "term_at s (terminal_displayed s)"
  note num = wf_console_num [OF wf]
  have wft: "wf_terminal ?t" by (rule wf_console_term(2) [OF wf num(3,4)])
  let ?I = "\<lambda>k s'. \<exists>kb. length kb = 128 \<and> keyed (shown s ?d) (?t\<lparr>key_buf := kb\<rparr>) s s'"
  have "\<exists>s'. for_range 0 (nat KEYBOARD_BUF_SIZE) (\<lambda>i. upd_displayed (\<lambda>t. do { kb \<leftarrow> aset (key_buf t) (int i) 0; Some (t\<lparr>key_buf := kb\<rparr>) })) s = Some s'
      \<and> ?I (nat KEYBOARD_BUF_SIZE) s'"
  proof (rule for_range_total [where I = ?I])
    have "?t\<lparr>key_buf := key_buf ?t\<rparr> = ?t" by simp
    then show "?I 0 s" using keyed_refl [OF wf] wft by (intro exI [of _ "key_buf ?t"]) (simp add: wf_terminal_def)
    fix k u assume k: "k < nat KEYBOARD_BUF_SIZE" and "?I k u"
    then obtain kb where kb: "length kb = 128" "keyed (shown s ?d) (?t\<lparr>key_buf := kb\<rparr>) s u" by blast
    note ku = keyed_displayed [OF kb(2)] keyed_term [OF kb(2)]
    let ?f = "\<lambda>t. do { kb \<leftarrow> aset (key_buf t) (int k) 0; Some (t\<lparr>key_buf := kb\<rparr>) }" and ?t' = "?t\<lparr>key_buf := kb[k := 0]\<rparr>"
    have "?f (term_at u (terminal_displayed u)) = Some ?t'" using k kb(1) ku(1,2) by (simp add: aset_def)
    from upd_displayed_keyed [where f = ?f and t = ?t', OF ku(4) this] kb(1) wft ku(1,2) obtain u' where
      u': "upd_displayed ?f u = Some u'" "keyed (shown u ?d) ?t' u u'" by auto
    have "shown u ?d = shown s ?d" using kb(2) by (simp add: keyed_def)
    with u' keyed_trans [OF kb(2) u'(2)] kb(1) show "\<exists>u'. upd_displayed ?f u = Some u' \<and> ?I (Suc k) u'"
      by (intro exI [of _ u'] conjI exI [of _ "kb[k := 0]"]) auto
  qed simp
  then show ?thesis by blast
qed

lemma terminal_list_eq:
  assumes "length ts = 3" and "length us = 3" and "0 \<le> d" and "d < 3"
    and "\<And>j. 0 \<le> j \<Longrightarrow> j < 3 \<Longrightarrow> ts ! nat j = (if j = d then t else us ! nat j)"
  shows "ts = us[nat d := t]"
proof (rule nth_equalityI)
  fix i assume "i < length ts"
  then show "ts ! i = us[nat d := t] ! i" using assms(5) [of "int i"] assms(1-4) by (auto simp: nth_list_update)
qed (use assms in simp)

lemma clear_displayed_keyed:
  assumes wf: "wf_console s"
  shows "\<exists>t s'. clear_displayed s = Some s' \<and> keyed blank_screen t (s\<lparr>eflags_IF := True\<rparr>) s'
    \<and> wf_keys t \<and> pending_keys t = [] \<and> num_buf t = 0 \<and> buf_flag t = 0 \<and> same_proc t (term_at s (terminal_displayed s))"
proof -
  let ?d = "terminal_displayed s" and ?t = "term_at s (terminal_displayed s)"
  note num = wf_console_num [OF wf]
  from clear_key_buf [OF wf] obtain s1 kb where
    s1: "for_range 0 (nat KEYBOARD_BUF_SIZE) (\<lambda>i. upd_displayed (\<lambda>t. do { kb \<leftarrow> aset (key_buf t) (int i) 0; Some (t\<lparr>key_buf := kb\<rparr>) })) s = Some s1"
      "length kb = 128" "keyed (shown s ?d) (?t\<lparr>key_buf := kb\<rparr>) s s1" by blast
  note k1 = keyed_displayed [OF s1(3)] keyed_term [OF s1(3)] keyed_wf_terminal [OF s1(3)]
  let ?t2 = "?t\<lparr>key_buf := kb, num_buf := 0, buf_flag := 0, screen_x := 0, screen_y := 0, start_line_ptr := 0\<rparr>"
  have wft2: "wf_terminal ?t2" using k1(5) by (simp add: wf_terminal_def wf_cursor_def)
  let ?s2 = "s1\<lparr>terminal_t := (terminal_t s1)[nat ?d := ?t2]\<rparr>"
  have "aget (terminal_t s1) (terminal_displayed s1) = Some (?t\<lparr>key_buf := kb\<rparr>)"
    using wf_console_term(1) [OF k1(4)] num k1(1,2) by simp
  then have s2: "upd_displayed (\<lambda>t. Some (t\<lparr>num_buf := 0, buf_flag := 0, screen_x := 0, screen_y := 0, start_line_ptr := 0\<rparr>)) s1 = Some ?s2"
    using set_terminal_Some [OF k1(4)] num k1(1) by (simp add: upd_displayed_def)
  have wf2: "wf_console ?s2" by (rule wf_console_update [OF k1(4) wft2]) simp_all
  let ?s3 = "(cli ?s2)\<lparr>terminal_num := ?d\<rparr>"
  have "wf_console ?s3" using wf2 num by (simp add: wf_console_def cpu_defs)
  from clear_outputs [OF this] obtain s4 where s4: "clear ?s3 = Some s4" "outputs blank_screen ?s3 s4" by blast
  let ?s' = "sti (s4\<lparr>terminal_num := terminal_num s\<rparr>)"
  have run: "clear_displayed s = Some ?s'"
    using s1(1) s2 s4(1) k1(1) by (simp add: clear_displayed_def Let_def cpu_defs)
  have o: "console_frame s4 = console_frame ?s3" "wf_console s4" "shown s4 ?d = blank_screen"
    "same_input (term_at s4 ?d) ((term_at ?s3 ?d)\<lparr>video_memory := video_memory (term_at s4 ?d)\<rparr>)"
    "\<And>j. 0 \<le> j \<Longrightarrow> j < 3 \<Longrightarrow> j \<noteq> ?d \<Longrightarrow> term_at s4 j = term_at ?s3 j"
    using s4(2) num by (auto simp: outputs_def)
  have t3: "term_at ?s3 ?d = ?t2" "\<And>j. 0 \<le> j \<Longrightarrow> j \<noteq> ?d \<Longrightarrow> term_at ?s3 j = term_at s j"
    using wf2 num k1(3) by (simp_all add: cpu_defs term_at_def wf_console_def eq_nat_nat_iff)
  have fr: "console_frame ?s' = console_frame (s\<lparr>eflags_IF := True\<rparr>)"
  proof -
    have "console_frame ?s' = (console_frame s4)\<lparr>terminal_num := terminal_num s, eflags_IF := True\<rparr>" by (simp add: console_frame_def cpu_defs)
    also have "\<dots> = (console_frame s1)\<lparr>terminal_num := terminal_num s, eflags_IF := True\<rparr>" unfolding o(1) by (simp add: console_frame_def cpu_defs)
    also have "\<dots> = (console_frame s)\<lparr>terminal_num := terminal_num s, eflags_IF := True\<rparr>" using s1(3) by (simp add: keyed_def)
    finally show ?thesis by (simp add: console_frame_def)
  qed
  have ts: "terminal_t s4 = (terminal_t s)[nat ?d := term_at s4 ?d]"
    by (rule terminal_list_eq) (use o(2,5) t3(2) wf num in \<open>auto simp: wf_console_def term_at_def\<close>)
  have d4: "terminal_displayed s4 = ?d" using console_frameD(2) [OF o(1)] k1(1) by (simp add: cpu_defs)
  have "keyed blank_screen (term_at s4 ?d) (s\<lparr>eflags_IF := True\<rparr>) ?s'"
    using fr ts o(2,3) d4 num by (simp add: keyed_def cpu_defs) (simp add: wf_console_def shown_def screen_buf_def term_at_def)
  moreover have "wf_keys (term_at s4 ?d) \<and> pending_keys (term_at s4 ?d) = [] \<and> num_buf (term_at s4 ?d) = 0 \<and> buf_flag (term_at s4 ?d) = 0
      \<and> same_proc (term_at s4 ?d) ?t"
    using o(4) s1(2) unfolding t3(1) by (simp add: same_input_def wf_keys_def pending_keys_def same_proc_def)
  ultimately show ?thesis using run by blast
qed

section \<open>Switching terminals\<close>

text \<open>The part of \<open>switch_terminal\<close> before the test for a terminal without a shell.\<close>

definition displayed :: "int \<Rightarrow> 'a kernel_scheme \<Rightarrow> 'a kernel_scheme \<Rightarrow> bool" where
  "displayed n s s' \<longleftrightarrow> wf_console s' \<and> terminal_displayed s' = n \<and> terminal_num s' = terminal_num s
     \<and> (\<forall>j. 0 \<le> j \<and> j < 3 \<longrightarrow> shown s' j = shown s j
          \<and> (term_at s' j)\<lparr>video_memory := []\<rparr> = (term_at s j)\<lparr>video_memory := []\<rparr>)
     \<and> (\<exists>ts ps v b. s' = s\<lparr>terminal_t := ts, ports := ps, video_mem := v, terminal_displayed := n, eflags_IF := b\<rparr>)"

lemma switch_terminal_split:
  assumes wf: "wf_console s" and n: "0 \<le> n" "n < 3"
  shows "\<exists>s'. displayed n s s' \<and> switch_terminal junk n s =
    (if n \<noteq> 0 \<and> flag (term_at s n) = 0 then do {
       let pcb_ptr = cur_pcb s';
       let u = s'\<lparr>pcb_at := (pcb_at s')(pcb_ptr := (pcb_at s' pcb_ptr)\<lparr>pcb_esp := reg_esp s', pcb_ebp := reg_ebp s'\<rparr>)\<rparr>;
       u \<leftarrow> clear (u\<lparr>terminal_num := n\<rparr>);
       (c, u) \<leftarrow> execute junk (Some (arr (lit ''shell'' @ [0]))) u;
       case c of Enter_user e \<Rightarrow> Some (c, u) | _ \<Rightarrow> Some (Return 0, sti (u\<lparr>terminal_num := terminal_num s\<rparr>))
     } else Some (Return 0, sti s'))"
proof -
  let ?d = "terminal_displayed s" and ?t = "term_at s (terminal_displayed s)"
  note num = wf_console_num [OF wf]
  have len: "length (terminal_t s) = 3" "length (video_mem s) = 4000" using wf by (auto simp: wf_console_def)
  have wfc: "wf_console (cli s)" using wf by (simp add: cpu_defs)
  have wft: "wf_terminal ?t" "wf_terminal (term_at s n)" using wf_console_term(2) [OF wf] num n by auto
  let ?t1 = "?t\<lparr>video_memory := video_mem s\<rparr>"
  let ?ts = "(terminal_t s)[nat ?d := ?t1]"
  let ?tn = "?ts ! nat n"
  let ?s2 = "(cli s)\<lparr>terminal_t := ?ts, video_mem := video_memory ?tn, terminal_displayed := n\<rparr>"
  have tn: "?tn = (if n = ?d then ?t1 else term_at s n)" using n num len by (simp add: nth_list_update eq_nat_nat_iff term_at_def)
  have vn: "length (video_memory ?tn) = 4000" "flag ?tn = flag (term_at s n)" using tn wft len by (auto simp: wf_terminal_def)
  have wf1: "wf_console ((cli s)\<lparr>terminal_t := ?ts\<rparr>)"
    by (rule wf_console_update [OF wfc, of ?t1]) (use wft(1) len in \<open>simp_all add: cpu_defs wf_terminal_def wf_cursor_def\<close>)
  then have wf2: "wf_console ?s2" using vn n by (simp add: wf_console_def)
  obtain s' where s': "draw_cursor ?s2 = Some s'" "\<exists>ps. s' = ?s2\<lparr>ports := ps\<rparr>" using draw_cursor_Some [OF wf2] by blast
  have "displayed n s s'"
  proof -
    from s'(2) obtain ps where e: "s' = ?s2\<lparr>ports := ps\<rparr>" by blast
    have t: "term_at s' j = (if j = ?d then ?t1 else term_at s j)" if "0 \<le> j" "j < 3" for j
      using that num len by (simp add: e term_at_def nth_list_update eq_nat_nat_iff)
    have sc: "screen_of (u\<lparr>video_memory := x\<rparr>) w = screen_of u w" for u x w by (simp add: screen_of_def)
    have "shown s' j = shown s j" if "0 \<le> j" "j < 3" for j
      using t [OF that] tn sc by (auto simp: shown_def screen_buf_def e)
    moreover have "(term_at s' j)\<lparr>video_memory := []\<rparr> = (term_at s j)\<lparr>video_memory := []\<rparr>" if "0 \<le> j" "j < 3" for j
      using t [OF that] by simp
    moreover have "\<exists>ts ps v b. s' = s\<lparr>terminal_t := ts, ports := ps, video_mem := v, terminal_displayed := n, eflags_IF := b\<rparr>"
      unfolding e by (intro exI [of _ ?ts] exI [of _ ps] exI [of _ "video_memory ?tn"] exI [of _ False]) (simp add: cpu_defs)
    ultimately show ?thesis using wf2 by (simp add: displayed_def e cpu_defs)
  qed
  moreover have "aget (terminal_t s) ?d = Some ?t" by (rule wf_console_term(1) [OF wf num(3,4)])
  moreover have "aget ?ts n = Some ?tn" using n len by (simp add: aget_def)
  moreover have "terminal_num s' = terminal_num s" using s'(2) by (auto simp: cpu_defs)
  ultimately show ?thesis
    using copy_screen_Some [of "video_memory ?t" "video_mem s"] copy_screen_Some [of "video_mem s" "video_memory ?tn"]
      wft len vn set_terminal_Some [OF wfc, of ?d] num s'(1)
    by (intro exI [of _ s']) (simp add: switch_terminal_def wf_terminal_def cpu_defs Let_def cong: if_cong control.case_cong)
qed

section \<open>The invariant of the keyboard\<close>

lemma free_process_not_none: "i \<le> length ps \<Longrightarrow> length ps < i + k \<Longrightarrow> free_process ps i k \<noteq> Some None"
  by (induction k arbitrary: i) (auto simp: aget_def bind_eq_Some_conv split: if_splits)

lemma check_program_Return: "check_program junk n cmd arg s = Some (Return r, s') \<Longrightarrow> s' = s"
  by (auto simp: check_program_def start_process_def bind_eq_Some_conv Let_def split: if_splits prod.splits)

lemma execute_Return:
  assumes "execute junk (Some command) s = Some (Return r, s')" and "length (process s) = 6"
  shows "\<exists>i b. s' = s\<lparr>current_process_num := i, eflags_IF := b\<rparr>"
proof -
  have "free_process (process s) 1 6 \<noteq> Some None" by (rule free_process_not_none) (simp_all add: assms(2))
  then obtain n cmd arg and t :: terminal where "check_program junk n cmd arg (cli (s\<lparr>current_process_num := process_num t\<rparr>)) = Some (Return r, s')"
    using assms(1) by (cases "free_process (process s) 1 6") (auto simp: execute_def Let_def bind_eq_Some_conv split: option.splits)
  from check_program_Return [OF this] show ?thesis
    by (intro exI [of _ "process_num t"] exI [of _ False]) (simp add: cpu_defs)
qed

lemma execute_never_parent: "execute junk command s \<noteq> Some (Return_to_parent a b c, s')"
  by (cases command)
     (auto simp: execute_def check_program_def start_process_def bind_eq_Some_conv Let_def split: if_splits prod.splits option.splits)

definition kbd_inv :: "'a kernel_scheme \<Rightarrow> bool" where
  "kbd_inv s \<longleftrightarrow> wf_console s \<and> (\<forall>j. 0 \<le> j \<and> j < 3 \<longrightarrow> wf_keys (term_at s j)) \<and> length (process s) = 6"

lemma kbd_inv_keyed:
  assumes "kbd_inv s" and "keyed S t s s'" and "wf_keys t"
  shows "kbd_inv s'"
proof -
  have f: "console_frame s' = console_frame s" using assms(2) by (simp add: keyed_def)
  have "process s' = process s" using arg_cong [OF f, of process] by (simp add: console_frame_def)
  moreover have "wf_keys (term_at s' j)" if "0 \<le> j" "j < 3" for j
    using keyed_term(1,2) [OF assms(2)] assms(1,3) that by (cases "j = terminal_displayed s") (auto simp: kbd_inv_def)
  ultimately show ?thesis using keyed_term(3) [OF assms(2)] assms(1) by (simp add: kbd_inv_def)
qed

lemma wf_keys_video [simp]: "wf_keys (t\<lparr>video_memory := v\<rparr>) = wf_keys t"
  by (simp add: wf_keys_def)

lemma kbd_inv_displayed:
  assumes "kbd_inv s" and "displayed n s s'"
  shows "kbd_inv s'"
proof -
  have "wf_keys (term_at s' j)" if "0 \<le> j" "j < 3" for j
    using assms that wf_keys_video [where t = "term_at s' j" and v = "[]"] wf_keys_video [where t = "term_at s j" and v = "[]"] by (auto simp: kbd_inv_def displayed_def)
  moreover have "process s' = process s"
  proof -
    from assms(2) obtain ts ps v b where "s' = s\<lparr>terminal_t := ts, ports := ps, video_mem := v, terminal_displayed := n, eflags_IF := b\<rparr>"
      unfolding displayed_def by blast
    then show ?thesis by simp
  qed
  ultimately show ?thesis using assms by (simp add: kbd_inv_def displayed_def)
qed

lemma kbd_inv_outputs:
  assumes "kbd_inv s" and "outputs S s s'"
  shows "kbd_inv s'"
proof -
  have f: "console_frame s' = console_frame s" using assms(2) by (simp add: outputs_def)
  have "process s' = process s" using arg_cong [OF f, of process] by (simp add: console_frame_def)
  moreover have "wf_keys (term_at s' j)" if "0 \<le> j" "j < 3" for j
    using assms that by (auto simp: kbd_inv_def outputs_def same_input_def wf_keys_def)
  ultimately show ?thesis using assms by (simp add: kbd_inv_def outputs_def)
qed

lemma kbd_inv_fields [simp]:
  "kbd_inv (s\<lparr>pcb_at := f\<rparr>) = kbd_inv s" "kbd_inv (s\<lparr>current_process_num := i\<rparr>) = kbd_inv s" "kbd_inv (s\<lparr>eflags_IF := b\<rparr>) = kbd_inv s"
  "kbd_inv (sti s) = kbd_inv s" "kbd_inv (cli s) = kbd_inv s"
  by (simp_all add: kbd_inv_def wf_console_def term_at_def cpu_defs)

lemma kbd_inv_num: "0 \<le> n \<Longrightarrow> n < 3 \<Longrightarrow> kbd_inv s \<Longrightarrow> kbd_inv (s\<lparr>terminal_num := n\<rparr>)"
  by (simp add: kbd_inv_def wf_console_def term_at_def)

lemma kbd_inv_switch:
  assumes inv: "kbd_inv s" and n: "0 \<le> n" "n < 3" and r: "switch_terminal junk n s = Some (Return r, s')"
  shows "kbd_inv s'"
proof -
  from inv have wf: "wf_console s" by (simp add: kbd_inv_def)
  from switch_terminal_split [OF wf n, of junk] obtain s1 where d: "displayed n s s1" and
    e: "switch_terminal junk n s = (if n \<noteq> 0 \<and> flag (term_at s n) = 0 then do {
       let pcb_ptr = cur_pcb s1;
       let u = s1\<lparr>pcb_at := (pcb_at s1)(pcb_ptr := (pcb_at s1 pcb_ptr)\<lparr>pcb_esp := reg_esp s1, pcb_ebp := reg_ebp s1\<rparr>)\<rparr>;
       u \<leftarrow> clear (u\<lparr>terminal_num := n\<rparr>);
       (c, u) \<leftarrow> execute junk (Some (arr (lit ''shell'' @ [0]))) u;
       case c of Enter_user e \<Rightarrow> Some (c, u) | _ \<Rightarrow> Some (Return 0, sti (u\<lparr>terminal_num := terminal_num s\<rparr>))
     } else Some (Return 0, sti s1))" by blast
  note i1 = kbd_inv_displayed [OF inv d]
  show ?thesis
  proof (cases "n \<noteq> 0 \<and> flag (term_at s n) = 0")
    case False
    then show ?thesis using r i1 unfolding e if_not_P [OF False] by auto
  next
    case True
    let ?u = "s1\<lparr>pcb_at := (pcb_at s1)(cur_pcb s1 := (pcb_at s1 (cur_pcb s1))\<lparr>pcb_esp := reg_esp s1, pcb_ebp := reg_ebp s1\<rparr>), terminal_num := n\<rparr>"
    have "kbd_inv ?u" using kbd_inv_num [OF n, of "s1\<lparr>pcb_at := _\<rparr>"] i1 by simp
    then have "wf_console ?u" by (simp only: kbd_inv_def)
    from clear_outputs [OF this] obtain u2 where u2: "clear ?u = Some u2" "outputs blank_screen ?u u2" by blast
    have i2: "kbd_inv u2" by (rule kbd_inv_outputs [OF \<open>kbd_inv ?u\<close> u2(2)])
    from r True u2(1) obtain c u3 where
      x: "execute junk (Some (arr (lit ''shell'' @ [0]))) u2 = Some (c, u3)"
        "(case c of Enter_user e \<Rightarrow> Some (c, u3) | _ \<Rightarrow> Some (Return 0, sti (u3\<lparr>terminal_num := terminal_num s\<rparr>))) = Some (Return r, s')"
      unfolding e if_P [OF True] by (auto simp: Let_def bind_eq_Some_conv)
    show ?thesis
    proof (cases c)
      case (Return q)
      with execute_Return [of junk "arr (lit ''shell'' @ [0])" u2 q u3] x(1) i2 obtain i b where "u3 = u2\<lparr>current_process_num := i, eflags_IF := b\<rparr>"
        by (auto simp: kbd_inv_def)
      then show ?thesis using x(2) Return i2 kbd_inv_num [of "terminal_num s" "u2\<lparr>current_process_num := i, eflags_IF := b\<rparr>"]
          wf_console_num(1,2) [OF wf] by auto
    qed (use x execute_never_parent [of junk "Some (arr (lit ''shell'' @ [0]))" u2 _ _ _ u3] in auto)
  qed
qed

lemma kbd_inv_entered [simp]: "kbd_inv (entered s) = kbd_inv s"
  by (simp add: kbd_inv_def)

lemma kbd_inv_modifiers [simp]:
  "kbd_inv (s\<lparr>CTRL_PRESS := i\<rparr>) = kbd_inv s" "kbd_inv (s\<lparr>SHIFT_PRESS := i\<rparr>) = kbd_inv s"
  "kbd_inv (s\<lparr>ALT_PRESS := i\<rparr>) = kbd_inv s" "kbd_inv (s\<lparr>CAPSLOCK_PRESS := i\<rparr>) = kbd_inv s"
  by (simp_all add: kbd_inv_def wf_console_def term_at_def)

lemma kbd_inv_print:
  assumes inv: "kbd_inv s" and r: "keyboard_print scancode s = Some s'" and k: "scancode \<notin> set special_keys"
  shows "kbd_inv s'"
proof -
  from inv have wf: "wf_console s" and keys: "wf_keys (term_at s (terminal_displayed s))"
    using wf_console_num [of s] by (auto simp: kbd_inv_def)
  have t: "aget (terminal_t s) (terminal_displayed s) = Some (term_at s (terminal_displayed s))"
    using wf_console_term(1) [OF wf] wf_console_num [OF wf] by blast
  from clear_displayed_keyed [OF wf] obtain t1 s1 where
    c: "clear_displayed s = Some s1" "keyed blank_screen t1 (s\<lparr>eflags_IF := True\<rparr>) s1" "wf_keys t1" by blast
  have c': "kbd_inv s1" by (rule kbd_inv_keyed [OF _ c(2,3)]) (simp add: inv)
  have echo: "kbd_inv s2" if "echo_key c s = Some s2" "c \<noteq> BS" "num_buf (term_at s (terminal_displayed s)) < 127" for c s2
    using echo_key_keyed [OF wf keys _ that(2)] that(1,3) kbd_inv_keyed [OF inv] by auto
  have bs: "x \<noteq> BS" if "aget tab (uint scancode) = Some x" "tab \<in> {keyboard_original, keyboard_capslock, keyboard_shift, keyboard_capsshift}"
    "\<not> 0x60 \<le> scancode" for tab x
  proof -
    have "unat scancode < 96" using that(3) by (simp add: word_le_nat_alt)
    moreover have "unat scancode \<noteq> 14" using k unsigned_word_eqI [of scancode 14] by (auto simp: special_keys_def)
    ultimately show ?thesis using table_chars that(1,2) by (auto simp: aget_def split: if_splits)
  qed
  show ?thesis using r t c(1) c' echo bs inv unfolding keyboard_print_def
    by (auto simp: bind_eq_Some_conv not_le split: if_splits)
qed

lemma handler_Return:
  assumes "keyboard_handler junk scancode s = Some (Return r, s')"
  shows "\<exists>q s1. keyboard_dispatch junk scancode (entered s) = Some (q, s1) \<and> (\<forall>e. q \<noteq> Enter_user e) \<and> s' = s1\<lparr>eflags_IF := eflags_IF s\<rparr>"
proof -
  from assms obtain q s1 where d: "keyboard_dispatch junk scancode (entered s) = Some (q, s1)"
    "(case q of Enter_user e \<Rightarrow> Some (q, s1) | _ \<Rightarrow> Some (Return 0, (sti s1)\<lparr>eflags_IF := eflags_IF s\<rparr>)) = Some (Return r, s')"
    unfolding keyboard_handler_def entered_def [symmetric] Let_def by (auto simp: bind_eq_Some_conv)
  then show ?thesis by (cases q) (auto simp: cpu_defs)
qed

lemma dispatch_never_parent: "keyboard_dispatch junk scancode s \<noteq> Some (Return_to_parent a b c, s')"
proof -
  have "switch_terminal junk n u \<noteq> Some (Return_to_parent a b c, u')" for n u u'
    by (auto simp: switch_terminal_def bind_eq_Some_conv Let_def execute_never_parent split: if_splits prod.splits control.splits)
  then show ?thesis unfolding keyboard_dispatch_def
    by (simp split: if_split) (auto simp: bind_eq_Some_conv)
qed

lemma kbd_inv_handler:
  assumes inv: "kbd_inv s" and tab: "scancode \<noteq> TAB_KEY" and r: "keyboard_handler junk scancode s = Some (Return r, s')"
  shows "kbd_inv s'"
proof -
  from handler_Return [OF r] obtain q s1 where
    q: "keyboard_dispatch junk scancode (entered s) = Some (q, s1)" "\<forall>e. q \<noteq> Enter_user e" "s' = s1\<lparr>eflags_IF := eflags_IF s\<rparr>" by blast
  then obtain p where d: "keyboard_dispatch junk scancode (entered s) = Some (Return p, s1)"
    using dispatch_never_parent [of junk scancode "entered s" _ _ _ s1] by (cases q) auto
  from inv have wf: "wf_console s" and keys: "wf_keys (term_at s (terminal_displayed s))" and inve: "kbd_inv (entered s)"
    using wf_console_num [of s] by (auto simp: kbd_inv_def)
  have t: "aget (terminal_t (entered s)) (terminal_displayed (entered s)) = Some (term_at s (terminal_displayed s))"
    using wf_console_term(1) [OF wf] wf_console_num [OF wf] by simp
  consider "scancode = BACKSPACE_KEY" | "scancode = ENTER_KEY" | "scancode = F1_KEY" | "scancode = F2_KEY" | "scancode = F3_KEY"
    | "scancode \<in> {0x1D, 0x2A, 0x36, 0x38, 0x3A, 0x9D, 0xAA, 0xB6, 0xB8}" | "scancode \<notin> set special_keys"
    using tab by (auto simp: special_keys_def)
  then show ?thesis
  proof cases
    case 1
    show ?thesis
    proof (cases "num_buf (term_at s (terminal_displayed s)) > 0")
      case True
      have "put_safe BS (shown s (terminal_displayed s))"
      proof -
        have "aget keyboard_original 14 = Some BS" by code_simp
        then obtain u where "putc2screen BS (entered s) = Some u"
          using d 1 t True by (auto simp: keyboard_dispatch_def bind_eq_Some_conv)
        from putc2screen_safe [OF _ this] wf show ?thesis by simp
      qed
      from backspace_keyed [OF wf keys True this, of junk] r 1 kbd_inv_keyed [OF inv] show ?thesis by auto
    next
      case False
      then have "s1 = entered s" using d t by (simp add: 1 keyboard_dispatch_def)
      then show ?thesis using q(3) inve by simp
    qed
  next
    case 2
    show ?thesis
    proof (cases "num_buf (term_at s (terminal_displayed s)) = 128")
      case True
      then have "s1 = entered s" using d t by (simp add: 2 keyboard_dispatch_def)
      then show ?thesis using q(3) inve by simp
    next
      case False
      then have "num_buf (term_at s (terminal_displayed s)) < 128" using keys by (simp add: wf_keys_def)
      from enter_keyed [OF wf keys this, of junk] r 2 kbd_inv_keyed [OF inv] show ?thesis by auto
    qed
  next
    case 3
    then show ?thesis using d kbd_inv_switch [OF inve, of 0 junk p s1] inve q(3) by (auto simp: keyboard_dispatch_def split: if_splits)
  next
    case 4
    then show ?thesis using d kbd_inv_switch [OF inve, of 1 junk p s1] inve q(3) by (auto simp: keyboard_dispatch_def split: if_splits)
  next
    case 5
    then show ?thesis using d kbd_inv_switch [OF inve, of 2 junk p s1] inve q(3) by (auto simp: keyboard_dispatch_def split: if_splits)
  next
    case 6
    then have "kbd_inv s1" using d inve by (auto simp: keyboard_dispatch_def)
    then show ?thesis using q(3) by simp
  next
    case 7
    then have "kbd_inv s1" using d dispatch_char [OF 7, of junk "entered s"] kbd_inv_print [OF inve _ 7] by (auto simp: bind_eq_Some_conv)
    then show ?thesis using q(3) by simp
  qed
qed

section \<open>Typing while a read waits\<close>

definition key_event :: "u8 list \<times> u8 list \<Rightarrow> u8 \<Rightarrow> 'a keyboard_scheme \<Rightarrow> 'a keyboard_scheme option" where
  "key_event junk scancode s = (case keyboard_handler junk scancode s of Some (Return r, s') \<Rightarrow> Some s' | _ \<Rightarrow> None)"

lemma keyed_modifiers:
  assumes "keyed S t s s'"
  shows "key_char s' = key_char s" and "char_key s' = char_key s" and "same_paging s' s" and "phys s' = phys s"
proof -
  have f: "console_frame s' = console_frame s" using assms by (simp add: keyed_def)
  have "CTRL_PRESS s' = CTRL_PRESS s" "SHIFT_PRESS s' = SHIFT_PRESS s" "CAPSLOCK_PRESS s' = CAPSLOCK_PRESS s"
    using arg_cong [OF f, of CTRL_PRESS] arg_cong [OF f, of SHIFT_PRESS] arg_cong [OF f, of CAPSLOCK_PRESS] by (simp_all add: console_frame_def)
  then show "key_char s' = key_char s" "char_key s' = char_key s" by (simp_all add: key_char_def char_key_def fun_eq_iff)
  show "same_paging s' s" "phys s' = phys s" using console_frameD [OF f] by auto
qed

abbreviation (input) no_line :: "'a console_scheme \<Rightarrow> bool option" where
  "no_line s \<equiv> map_option (\<lambda>t. buf_flag t = 0) (aget (terminal_t s) (terminal_num s))"

lemma typing_waits:
  assumes "wf_console s" and "terminal_num s = terminal_displayed s" and "wf_keys (term_at s (terminal_displayed s))"
    and "buf_flag (term_at s (terminal_displayed s)) = 0" and "\<forall>k \<in> set scs. char_key s k"
    and "num_buf (term_at s (terminal_displayed s)) + int (length scs) \<le> 127"
  shows "\<exists>t s'. spin no_line (map (key_event junk) scs @ evs) s = spin no_line evs s'
    \<and> keyed (spec_text (map (key_char s) scs) (shown s (terminal_displayed s))) t s s' \<and> wf_keys t
    \<and> pending_keys t = pending_keys (term_at s (terminal_displayed s)) @ map (key_char s) scs
    \<and> num_buf t = num_buf (term_at s (terminal_displayed s)) + int (length scs) \<and> buf_flag t = 0"
  using assms
proof (induction scs arbitrary: s)
  case Nil
  then show ?case using keyed_refl [OF Nil.prems(1)] by (intro exI conjI) auto
next
  case (Cons k scs)
  let ?t = "term_at s (terminal_displayed s)"
  note num = wf_console_num [OF Cons.prems(1)]
  have w: "no_line s = Some True" using wf_console_term(1) [OF Cons.prems(1) num(1,2)] Cons.prems(2,4) by simp
  let ?S = "spec_put (key_char s k) (shown s (terminal_displayed s))"
  from handler_types [OF Cons.prems(1,3), of k junk] Cons.prems(5,6) obtain t1 s1 where
    h: "keyboard_handler junk k s = Some (Return 0, s1)" "keyed ?S t1 s s1" "wf_keys t1"
      "pending_keys t1 = pending_keys ?t @ [key_char s k]" "num_buf t1 = num_buf ?t + 1" "buf_flag t1 = 0"
    using Cons.prems(4) by auto
  note k1 = keyed_displayed [OF h(2)] keyed_term [OF h(2)] keyed_modifiers [OF h(2)]
  have e: "key_event junk k s = Some s1" using h(1) by (simp add: key_event_def)
  have "shown s1 (terminal_displayed s1) = ?S" using h(2) k1(1) by (simp add: keyed_def)
  with Cons.IH [of s1] k1 h Cons.prems obtain t s' where
    r: "spin no_line (map (key_event junk) scs @ evs) s1 = spin no_line evs s'" "keyed (spec_text (map (key_char s) scs) ?S) t s1 s'" "wf_keys t"
      "pending_keys t = pending_keys t1 @ map (key_char s) scs" "num_buf t = num_buf t1 + int (length scs)" "buf_flag t = 0" by auto
  have "spin no_line (map (key_event junk) (k # scs) @ evs) s = spin no_line evs s'"
    using spin_wait(1) [where waiting = "\<lambda>s. no_line s" and s = s, OF w, of "key_event junk k" "map (key_event junk) scs @ evs"] e r(1) by simp
  with keyed_trans [OF h(2) r(2)] r h show ?case by (intro exI conjI) auto
qed

lemma terminal_read_spin:
  "spin no_line xs s = spin no_line evs s' \<Longrightarrow> terminal_read xs buf nbytes s = terminal_read evs buf nbytes s'"
  by (simp add: terminal_read_def)

text \<open>
  A read that waits while a line is typed: the line is shown on the terminal as it is typed and then delivered; everything else is as before,
  except the interrupt flag and the bytes of the buffer.
\<close>

lemma typed_line_session:
  assumes wf: "wf_console s" and fg: "terminal_num s = terminal_displayed s" and keys: "wf_keys (term_at s (terminal_displayed s))"
    and empty: "pending_keys (term_at s (terminal_displayed s)) = []" "buf_flag (term_at s (terminal_displayed s)) = 0"
    and scs: "\<forall>k \<in> set scs. char_key s k" "length scs \<le> 127" and "0 \<le> nbytes"
  defines "line \<equiv> map (key_char s) scs" and "n \<equiv> min (nat nbytes) (Suc (length scs))"
  assumes w: "writable s buf n"
  shows "\<exists>s2 s' t f. terminal_read (map (key_event junk) (scs @ [ENTER_KEY]) @ evs) buf nbytes s = Some (int n, s', evs)
    \<and> load_bytes s' buf n = Some (take (nat nbytes) (line @ [NL])) \<and> wf_console s'
    \<and> keyed (spec_text (line @ [NL]) (shown s (terminal_displayed s))) t s s2
    \<and> s' = s2\<lparr>phys := f, terminal_t := (terminal_t s2)[nat (terminal_num s) := term_at s' (terminal_num s)], eflags_IF := True\<rparr>
    \<and> term_at s' (terminal_num s) = t\<lparr>key_buf := key_buf (term_at s' (terminal_num s)), num_buf := num_buf (term_at s' (terminal_num s)), buf_flag := 0\<rparr>
    \<and> (\<forall>q. q \<notin> buffer_addrs s buf n \<longrightarrow> f q = phys s q)
    \<and> wf_keys (term_at s' (terminal_num s)) \<and> pending_keys (term_at s' (terminal_num s)) = drop n (line @ [NL])"
proof -
  let ?d = "terminal_displayed s"
  let ?t = "term_at s ?d"
  have n0: "num_buf ?t = 0" using empty(1) keys by (auto simp: pending_keys_def wf_keys_def)
  from typing_waits [OF wf fg keys empty(2) scs(1), of junk "key_event junk ENTER_KEY # evs"] scs(2) n0 empty(1) obtain t1 s1 where
    a: "spin no_line (map (key_event junk) scs @ key_event junk ENTER_KEY # evs) s = spin no_line (key_event junk ENTER_KEY # evs) s1"
      "keyed (spec_text line (shown s ?d)) t1 s s1" "wf_keys t1" "pending_keys t1 = line" "num_buf t1 = int (length scs)" "buf_flag t1 = 0" by (auto simp: line_def)
  note k1 = keyed_displayed [OF a(2)] keyed_term [OF a(2)]
  from enter_keyed [OF k1(4), of junk] a k1(1,2) scs(2) obtain t2 s2 where
    b: "keyboard_handler junk ENTER_KEY s1 = Some (Return 0, s2)" "keyed (spec_put NL (shown s1 (terminal_displayed s1))) t2 s1 s2"
      "wf_keys t2" "pending_keys t2 = line @ [NL]" "buf_flag t2 = 1" by auto
  note k2 = keyed_displayed [OF b(2)] keyed_term [OF b(2)]
  have k: "keyed (spec_text (line @ [NL]) (shown s ?d)) t2 s s2" using keyed_trans [OF a(2) b(2)] a(2) k1(1) by (simp add: keyed_def)
  note num1 = wf_console_num [OF k1(4)]
  have "no_line s1 = Some True" using wf_console_term(1) [OF k1(4) num1(1,2)] k1(1,2) fg a(6) by simp
  from spin_wait(1) [where waiting = "\<lambda>s. no_line s" and s = s1, OF this, of "key_event junk ENTER_KEY" evs] b(1) a(1)
  have "spin no_line (map (key_event junk) (scs @ [ENTER_KEY]) @ evs) s = spin no_line evs s2" by (simp add: key_event_def)
  note r = terminal_read_spin [OF this, of buf nbytes]
  have ta: "term_at s2 (terminal_num s2) = t2" "terminal_num s2 = terminal_num s" using k1(1) k2(1,2) fg by auto
  have nl: "NL \<notin> set line" using char_key_char [of s] scs(1) by (fastforce simp: line_def)
  have m: "buffer_addrs s2 buf n = buffer_addrs s buf n" "phys s2 = phys s" "writable s2 buf n = writable s buf n"
    using translate_same [OF keyed_modifiers(3) [OF k]] keyed_modifiers(4) [OF k] by (simp_all add: buffer_addrs_def writable_def)
  have ln: "length line = length scs" by (simp add: line_def)
  have n: "min (nat nbytes) (Suc (length line)) = n" by (simp add: n_def ln)
  have p: "wf_keys (term_at s2 (terminal_num s2))" "pending_keys (term_at s2 (terminal_num s2)) = line @ NL # []" "buf_flag (term_at s2 (terminal_num s2)) \<noteq> 0"
    "writable s2 buf (min (nat nbytes) (Suc (length line)))" using ta(1) b(3-5) w m(3) n by simp_all
  from terminal_read_line [OF k2(4) p(1,2) nl p(3) \<open>0 \<le> nbytes\<close> p(4), of evs, unfolded n m ta(2) ta(1) [unfolded ta(2)]] obtain s' t f where
    s': "terminal_read evs buf nbytes s2 = Some (int n, s', evs)" "load_bytes s' buf n = Some (take n (line @ [NL]))" "wf_keys t"
      "pending_keys t = drop n (line @ [NL])" "buf_flag t = buf_flag t2 - 1" "wf_console s'" "\<forall>q. q \<notin> buffer_addrs s buf n \<longrightarrow> f q = phys s q"
      "s' = s2\<lparr>phys := f, terminal_t := (terminal_t s2)[nat (terminal_num s) := t], eflags_IF := True\<rparr>"
      "t = t2\<lparr>key_buf := key_buf t, num_buf := num_buf t, buf_flag := buf_flag t\<rparr>" by blast
  have f0: "buf_flag t = 0" using s'(5) b(5) by simp
  have t: "term_at s' (terminal_num s) = t" using s'(8) wf_console_num [OF wf] k2(4) by (simp add: term_at_def wf_console_def)
  have "take n (line @ [NL]) = take (nat nbytes) (line @ [NL])"
    by (cases "nat nbytes \<le> Suc (length scs)") (simp_all add: n_def ln min_def del: take_append)
  with s'(1-4,6-8) s'(9) [unfolded f0] r k show ?thesis unfolding t [symmetric]
    by (intro exI [of _ s2] exI [of _ s'] exI [of _ t2] exI [of _ f] conjI) (simp_all only:)
qed

section \<open>Properties of the keyboard\<close>

definition sample_kbd :: "'a \<Rightarrow> 'a keyboard_scheme" where
  "sample_kbd x = shell_kernel \<lparr>CTRL_PRESS = 0, CAPSLOCK_PRESS = 0, SHIFT_PRESS = 1, ALT_PRESS = 0, \<dots> = x\<rparr>"

lemma sample_kbd_fields [simp]:
  "CTRL_PRESS (sample_kbd x) = 0" "CAPSLOCK_PRESS (sample_kbd x) = 0" "SHIFT_PRESS (sample_kbd x) = 1" "ALT_PRESS (sample_kbd x) = 0"
  "terminal_num (sample_kbd x) = 0" "terminal_displayed (sample_kbd x) = 0" "process (sample_kbd x) = [1, 1, 0, 0, 0, 0]"
  "term_at (sample_kbd x) 0 = blank_terminal\<lparr>process_num := 1, total_process := 1, flag := 1\<rparr>"
  "term_at (sample_kbd x) 1 = blank_terminal" "term_at (sample_kbd x) 2 = blank_terminal"
  by (simp_all add: sample_kbd_def term_at_def) (simp_all add: shell_kernel_def sample_user_def sample_kernel_def sample_fs_def blank_rtc_def blank_defs)

lemma wf_sample_kbd: "wf_console (sample_kbd x)"
  by (simp add: sample_kbd_def wf_console_shell)

lemma keys_blank: "wf_keys (blank_terminal\<lparr>process_num := i, total_process := j, flag := f\<rparr>)" "wf_keys blank_terminal"
  "pending_keys (blank_terminal\<lparr>process_num := i, total_process := j, flag := f\<rparr>) = []" "num_buf blank_terminal = 0" "buf_flag blank_terminal = 0"
  by (simp_all add: wf_keys_def pending_keys_def blank_terminal_def)

lemma char_keys_hi: "\<forall>k \<in> set [0x23, 0x17]. char_key (sample_kbd x) k" "map (key_char (sample_kbd x)) [0x23, 0x17] = lit ''HI''"
proof -
  have "keyboard_shift ! 35 = 72 \<and> keyboard_shift ! 23 = 73" by code_simp
  then show "\<forall>k \<in> set [0x23, 0x17]. char_key (sample_kbd x) k" "map (key_char (sample_kbd x)) [0x23, 0x17] = lit ''HI''"
    by (simp_all add: char_key_def key_char_def special_keys_def lit_def byte_of_def)
qed

text \<open>
  Claim C23. A read that waits is served by typing: when the running terminal is displayed and its line buffer is
  empty, \<open>terminal_read\<close> waits through the interrupts of the keys of any line of at most 127 characters, and returns
  after the one of Enter, with exactly the characters that the scan codes stand for under the modifiers
  in force, and the new line, in the caller's buffer (or the first \<open>nbytes\<close> of them).
\<close>

theorem read_waits_for_typed_line:
  assumes "wf_console s" and "terminal_num s = terminal_displayed s" and "wf_keys (term_at s (terminal_displayed s))"
    and "pending_keys (term_at s (terminal_displayed s)) = []" and "buf_flag (term_at s (terminal_displayed s)) = 0"
    and "\<forall>k \<in> set scs. char_key s k" and "length scs \<le> 127" and "0 \<le> nbytes"
    and "writable s buf (min (nat nbytes) (Suc (length scs)))"
  shows "\<exists>s'. terminal_read (map (key_event junk) (scs @ [ENTER_KEY]) @ evs) buf nbytes s = Some (int (min (nat nbytes) (Suc (length scs))), s', evs)
    \<and> load_bytes s' buf (min (nat nbytes) (Suc (length scs))) = Some (take (nat nbytes) (map (key_char s) scs @ [NL]))"
  using typed_line_session [OF assms(1-9), of junk evs] by blast

lemma writable_program:
  assumes tr: "\<And>va. drop_bit 22 va = 32 \<Longrightarrow> translate s va = Some (program_phys n va)" and n: "1 \<le> n" "n \<le> 6" and len: "len \<le> 0x3B8000"
  shows "writable s PROGRAM_IMAGE_ADDR len"
proof -
  have t: "translate s (PROGRAM_IMAGE_ADDR + of_nat i) = Some (program_phys n (PROGRAM_IMAGE_ADDR + of_nat i))" if "i < len" for i
    by (rule tr) (use program_addr [of i] that len in simp)
  have "i = j" if "i < len" "j < len" "program_phys n (PROGRAM_IMAGE_ADDR + of_nat i) = program_phys n (PROGRAM_IMAGE_ADDR + of_nat j)" for i j
  proof -
    have "PROGRAM_IMAGE_ADDR + of_nat i = (PROGRAM_IMAGE_ADDR + of_nat j :: u32)"
      by (rule program_phys_inj [OF n _ that(3)]) (use program_addr [of i] program_addr [of j] that len in simp)
    then have "(of_nat i :: u32) = of_nat j" by simp
    moreover have "i < 4294967296" "j < 4294967296" using that len by simp_all
    ultimately show ?thesis using of_nat_u32 [of i] of_nat_u32 [of j] by metis
  qed
  with t show ?thesis unfolding writable_def by auto
qed

theorem read_waits_for_typed_line_witness:
  "\<exists>s'. terminal_read (map (key_event ([], [])) [0x23, 0x17, 0x1C]) 0x8048000 80 (sample_kbd ()) = Some (3, s', [])
    \<and> load_bytes s' 0x8048000 3 = Some (lit ''HI'' @ [NL])"
proof -
  have "writable (sample_kbd ()) PROGRAM_IMAGE_ADDR 3"
    by (rule writable_program [of _ 1]) (simp_all add: sample_kbd_def shell_translate)
  then have "\<exists>s'. terminal_read (map (key_event ([], [])) ([0x23, 0x17] @ [ENTER_KEY]) @ []) PROGRAM_IMAGE_ADDR 80 (sample_kbd ())
      = Some (int (min (nat 80) (Suc (length [0x23, 0x17 :: u8]))), s', [])
    \<and> load_bytes s' PROGRAM_IMAGE_ADDR (min (nat 80) (Suc (length [0x23, 0x17 :: u8]))) = Some (take (nat 80) (map (key_char (sample_kbd ())) [0x23, 0x17] @ [NL]))"
    by (intro read_waits_for_typed_line wf_sample_kbd char_keys_hi) (simp_all add: keys_blank numeral_3_eq_3)
  then show ?thesis unfolding char_keys_hi(2) by (simp add: lit_def numeral_3_eq_3)
qed

text \<open>
  A character key: the handler shows the character that the scan code stands for on the displayed
  terminal and appends it to its line buffer, as long as 127 characters are not yet pending; no other terminal
  and nothing else of the kernel changes, and the interrupt flag is as before. With 127 or more pending
  the key does nothing.
\<close>

theorem keyboard_types_character:
  assumes "wf_console s" and "wf_keys (term_at s (terminal_displayed s))" and "char_key s scancode"
  shows "\<exists>s'. keyboard_handler junk scancode s = Some (Return 0, s') \<and> console_frame s' = console_frame s \<and> wf_console s'
    \<and> (\<forall>j. 0 \<le> j \<and> j < 3 \<and> j \<noteq> terminal_displayed s \<longrightarrow> term_at s' j = term_at s j)
    \<and> (if num_buf (term_at s (terminal_displayed s)) < 127
       then shown s' (terminal_displayed s) = spec_put (key_char s scancode) (shown s (terminal_displayed s))
         \<and> pending_keys (term_at s' (terminal_displayed s)) = pending_keys (term_at s (terminal_displayed s)) @ [key_char s scancode]
         \<and> buf_flag (term_at s' (terminal_displayed s)) = buf_flag (term_at s (terminal_displayed s))
       else terminal_t s' = terminal_t s \<and> video_mem s' = video_mem s)"
proof (cases "num_buf (term_at s (terminal_displayed s)) < 127")
  case True
  from handler_types [OF assms True, of junk] obtain t s' where
    h: "keyboard_handler junk scancode s = Some (Return 0, s')" "keyed (spec_put (key_char s scancode) (shown s (terminal_displayed s))) t s s'"
      "pending_keys t = pending_keys (term_at s (terminal_displayed s)) @ [key_char s scancode]"
      "buf_flag t = buf_flag (term_at s (terminal_displayed s))" by blast
  with keyed_term [OF h(2)] True show ?thesis by (intro exI [of _ s']) (auto simp: keyed_def)
next
  case False
  let ?e = "entered s"
  have u: "unat scancode < 96" "uint scancode = int (unat scancode)" "scancode < 0x60" "scancode \<notin> set special_keys"
    using assms(3) uint_less_128 [of scancode] unfolding char_key_def by blast+
  have "uint scancode < 128" unfolding u(2) using u(1) by linarith
  then have g: "aget keyboard_original (uint scancode) = Some (keyboard_original ! unat scancode)" by (simp add: aget_def table_lengths)
  have t: "aget (terminal_t ?e) (terminal_displayed ?e) = Some (term_at s (terminal_displayed s))"
    using wf_console_term(1) [OF assms(1)] wf_console_num [OF assms(1)] by simp
  have "byte_of CHR ''l'' = 108" by (simp add: byte_of_def)
  then have "keyboard_print scancode ?e = Some ?e"
    using assms(3) False u(3) g t by (auto simp: keyboard_print_def char_key_def)
  then have "keyboard_dispatch junk scancode ?e = Some (Return 0, ?e)" using dispatch_char [OF u(4), of junk ?e] by simp
  from handler_returns [OF this] have "keyboard_handler junk scancode s = Some (Return 0, ?e\<lparr>eflags_IF := eflags_IF s\<rparr>)" .
  moreover have "console_frame (?e\<lparr>eflags_IF := eflags_IF s\<rparr>) = console_frame s"
    using entered_eq [of s] by (auto simp: console_frame_def)
  ultimately show ?thesis using False assms(1) by (intro exI [of _ "?e\<lparr>eflags_IF := eflags_IF s\<rparr>"]) auto
qed

theorem keyboard_types_character_witness:
  "\<exists>s'. keyboard_handler ([], []) 0x23 (sample_kbd ()) = Some (Return 0, s') \<and> pending_keys (term_at s' 0) = lit ''H''"
proof -
  have "char_key (sample_kbd ()) 0x23" "key_char (sample_kbd ()) 0x23 = 72" using char_keys_hi [of "()"] by (simp_all add: lit_def byte_of_def)
  with keyboard_types_character [of "sample_kbd ()" "0x23" "([], [])", OF wf_sample_kbd] show ?thesis
    by (auto simp: keys_blank lit_def byte_of_def)
qed

text \<open>
  The four scan code tables agree: the Caps Lock table is the plain one with its letters in
  upper case, the table for Caps Lock and Shift is the Shift table with its letters in lower case, Shift gives the
  upper case of every letter, and a key has a character in one table exactly when it has one in every table.
\<close>

theorem keyboard_tables_agree:
  "keyboard_capslock = map upper keyboard_original \<and> keyboard_capsshift = map lower keyboard_shift
   \<and> list_all2 (\<lambda>c d. (upper c = c \<or> d = upper c) \<and> (d = 0) = (c = 0)) keyboard_original keyboard_shift
   \<and> length keyboard_original = 128"
proof -
  have "keyboard_capslock = map upper keyboard_original" by code_simp
  moreover have "keyboard_capsshift = map lower keyboard_shift" by code_simp
  moreover have "list_all2 (\<lambda>c d. (upper c = c \<or> d = upper c) \<and> (d = 0) = (c = 0)) keyboard_original keyboard_shift" by code_simp
  ultimately show ?thesis by (simp add: table_lengths)
qed

text \<open>Runs of the keyboard handler from \<open>s\<close>, over any scan codes but the one of Tab.\<close>

inductive key_run :: "u8 list \<times> u8 list \<Rightarrow> 'a keyboard_scheme \<Rightarrow> 'a keyboard_scheme \<Rightarrow> bool" for junk s where
  start: "key_run junk s s"
| key: "key_run junk s s' \<Longrightarrow> scancode \<noteq> TAB_KEY \<Longrightarrow> keyboard_handler junk scancode s' = Some (Return r, s'') \<Longrightarrow> key_run junk s s''"


lemma kbd_inv_sample: "kbd_inv (sample_kbd x)"
proof -
  have "wf_keys (term_at (sample_kbd x) j)" if "0 \<le> j" "j < 3" for j
  proof -
    have "j = 0 \<or> j = 1 \<or> j = 2" using that by linarith
    then show ?thesis by (auto simp: keys_blank)
  qed
  then show ?thesis using wf_sample_kbd [of x] by (simp add: kbd_inv_def)
qed


text \<open>
  Claim C37. Tab can leave the line buffer: with 125 or more characters pending, the four spaces of the Tab key are
  stored past the end of the buffer, because the handler does not test for room.
\<close>

theorem tab_overruns_buffer:
  assumes "wf_console s" and "wf_keys (term_at s (terminal_displayed s))" and "125 \<le> num_buf (term_at s (terminal_displayed s))"
  shows "keyboard_handler junk TAB_KEY s = None"
proof -
  have full: "echo_key SPACE u = None" if "wf_console u" "num_buf (term_at u (terminal_displayed u)) = 128" "wf_keys (term_at u (terminal_displayed u))"
    for u :: "'a keyboard_scheme"
  proof -
    from putc2screen_keyed [OF that(1), of SPACE] obtain t v where
      k: "putc2screen SPACE u = Some v" "keyed (spec_put SPACE (shown u (terminal_displayed u))) t u v" "same_input t (term_at u (terminal_displayed u))"
      by (auto simp: put_safe_def)
    note kk = keyed_displayed [OF k(2)] keyed_term [OF k(2)] same_input_keys [OF k(3)]
    have "key_store SPACE t = None" using that(2,3) kk(5) by (simp add: key_store_def aset_def wf_keys_def)
    then have "upd_displayed (key_store SPACE) v = None"
      using wf_console_term(1) [OF kk(4)] wf_console_num [OF kk(4)] kk(1,2) by (simp add: upd_displayed_def)
    then show ?thesis using k(1) by (simp add: echo_key_def)
  qed
  have step: "\<exists>v. echo_key SPACE u = Some v \<and> wf_console v \<and> wf_keys (term_at v (terminal_displayed v))
      \<and> num_buf (term_at v (terminal_displayed v)) = num_buf (term_at u (terminal_displayed u)) + 1"
    if "wf_console u" "wf_keys (term_at u (terminal_displayed u))" "num_buf (term_at u (terminal_displayed u)) < 128" for u :: "'a keyboard_scheme"
  proof -
    from echo_key_keyed [OF that, of SPACE] obtain S t v where e: "echo_key SPACE u = Some v" "keyed S t u v" "wf_keys t"
      "num_buf t = num_buf (term_at u (terminal_displayed u)) + 1" by auto
    then show ?thesis using keyed_displayed [OF e(2)] keyed_term [OF e(2)] by auto
  qed
  have "for_n i k (\<lambda>i. echo_key SPACE) u = None" if "wf_console u" "wf_keys (term_at u (terminal_displayed u))"
    "128 < num_buf (term_at u (terminal_displayed u)) + int k" for i k and u :: "'a keyboard_scheme"
    using that
  proof (induction k arbitrary: i u)
    case 0
    then show ?case by (simp add: wf_keys_def)
  next
    case (Suc k)
    show ?case
    proof (cases "num_buf (term_at u (terminal_displayed u)) < 128")
      case True
      with step [OF Suc.prems(1,2)] Suc.IH [of _ "Suc i"] Suc.prems(3) show ?thesis by force
    next
      case False
      with full [OF Suc.prems(1)] Suc.prems(2) show ?thesis by (simp add: wf_keys_def)
    qed
  qed
  from this [of "entered s" 4 0] assms have "for_range 0 4 (\<lambda>i. echo_key SPACE) (entered s) = None" by (simp add: for_range_def del: for_n_numeral)
  then have "keyboard_dispatch junk TAB_KEY (entered s) = None" by (simp add: keyboard_dispatch_def)
  then show ?thesis by (simp add: keyboard_handler_def entered_def Let_def)
qed

theorem tab_overruns_buffer_witness:
  "keyboard_handler ([], []) 0x0F ((sample_kbd ())\<lparr>terminal_t := [blank_terminal\<lparr>num_buf := 125\<rparr>, blank_terminal, blank_terminal]\<rparr>) = None"
proof (rule tab_overruns_buffer)
  let ?s = "(sample_kbd ())\<lparr>terminal_t := [blank_terminal\<lparr>num_buf := 125\<rparr>, blank_terminal, blank_terminal]\<rparr>"
  have t: "term_at ?s (terminal_displayed ?s) = blank_terminal\<lparr>num_buf := 125\<rparr>" by (simp add: term_at_def)
  show "wf_console ?s" using wf_sample_kbd [of "()"] wf_blank_terminal by (simp add: wf_console_def)
  show "wf_keys (term_at ?s (terminal_displayed ?s))" "125 \<le> num_buf (term_at ?s (terminal_displayed ?s))"
    unfolding t by (simp_all add: wf_keys_def blank_terminal_def)
qed

text \<open>A read in a terminal whose line was deleted after Enter: the new line is still in the buffer.\<close>

lemma terminal_read_stale:
  assumes wf: "wf_console s" and t: "term_at s (terminal_num s) = t" and kb: "length (key_buf t) = 128" "key_buf t ! 0 = NL"
    and flag: "buf_flag t \<noteq> 0" and "1 \<le> nbytes" and w: "writable s buf 1"
  shows "\<exists>s'. terminal_read evs buf nbytes s = Some (1, s', evs) \<and> num_buf (term_at s' (terminal_num s)) = num_buf t - 1"
proof -
  note num = wf_console_num [OF wf]
  have get: "aget (terminal_t s) (terminal_num s) = Some t" using wf_console_term(1) [OF wf num(1,2)] t by simp
  have "take (Suc (length [])) (key_buf t) = [] @ [NL]" using kb by (simp add: take_Suc_conv_app_nth)
  moreover have "min (0 + nat nbytes) (Suc (length ([] :: u8 list))) = 1" using \<open>1 \<le> nbytes\<close> by simp
  moreover have "writable (cli s) buf 1" using w by (simp add: writable_def)
  ultimately obtain s1 where s1: "key_copy buf (key_buf t) 0 (nat nbytes) (cli s) = Some (1, s1)" "only_mem (buffer_addrs (cli s) buf 1) (cli s) s1"
    using key_copy_line [of "[]" "key_buf t" 0 "cli s" buf "nat nbytes"] by auto
  have one: "nat (KEYBOARD_BUF_SIZE - int 1) = 127" by simp
  from key_shift_clear [of "drop 1 (key_buf t) @ drop (128 - 1) (key_buf t)" 1] kb(1) obtain kb' where
    sh: "key_shift 1 t = Some (t\<lparr>key_buf := kb', num_buf := num_buf t - 1, buf_flag := buf_flag t - 1\<rparr>)"
    using key_shift_buf [OF kb(1), of 1] by (auto simp: key_shift_def)
  let ?t' = "t\<lparr>key_buf := kb', num_buf := num_buf t - 1, buf_flag := buf_flag t - 1\<rparr>"
  have t1: "terminal_t s1 = terminal_t s" "terminal_num s1 = terminal_num s" using only_mem_console [OF s1(2)] by (simp_all add: cpu_defs)
  have len: "length (terminal_t s) = 3" using wf by (simp add: wf_console_def)
  have "set_terminal (terminal_num s1) ?t' s1 = Some (s1\<lparr>terminal_t := (terminal_t s)[nat (terminal_num s) := ?t']\<rparr>)"
    using num len by (simp add: set_terminal_def aset_def t1)
  then have "terminal_read evs buf nbytes s = Some (1, sti (s1\<lparr>terminal_t := (terminal_t s)[nat (terminal_num s) := ?t']\<rparr>), evs)"
    using get flag s1(1) sh by (simp add: terminal_read_def) (simp add: cli_def)
  then show ?thesis using num len by (simp add: term_at_def cpu_defs)
qed

text \<open>
  Enter and Backspace can break the count of the line buffer: on an empty line buffer of the running and
  displayed terminal, Enter followed by Backspace leaves a line announced that is no longer pending; the
  next read delivers the deleted new line and leaves the fill count at -1, outside the buffer.
\<close>

theorem enter_backspace_breaks_count:
  assumes wf: "wf_console s" and fg: "terminal_num s = terminal_displayed s" and keys: "wf_keys (term_at s (terminal_displayed s))"
    and empty: "pending_keys (term_at s (terminal_displayed s)) = []" "buf_flag (term_at s (terminal_displayed s)) = 0"
    and "1 \<le> nbytes" and w: "writable s buf 1"
  shows "\<exists>s1 s2 s3. keyboard_handler junk ENTER_KEY s = Some (Return 0, s1) \<and> keyboard_handler junk BACKSPACE_KEY s1 = Some (Return 0, s2)
    \<and> pending_keys (term_at s2 (terminal_displayed s)) = [] \<and> terminal_read [] buf nbytes s2 = Some (1, s3, [])
    \<and> num_buf (term_at s3 (terminal_displayed s)) = -1"
proof -
  let ?d = "terminal_displayed s" and ?t = "term_at s (terminal_displayed s)"
  have n0: "num_buf ?t = 0" using empty(1) keys by (auto simp: pending_keys_def wf_keys_def)
  from enter_keyed [OF wf keys, of junk] n0 empty obtain t1 s1 where
    a: "keyboard_handler junk ENTER_KEY s = Some (Return 0, s1)" "keyed (spec_put NL (shown s ?d)) t1 s s1" "wf_keys t1"
      "pending_keys t1 = [NL]" "num_buf t1 = 1" "buf_flag t1 = 1" by auto
  note k1 = keyed_displayed [OF a(2)] keyed_term [OF a(2)]
  have "put_safe BS (spec_put NL (shown s ?d))" by (auto simp: put_safe_def spec_put_def spec_advance_def Let_def)
  then have safe: "put_safe BS (shown s1 (terminal_displayed s1))" using a(2) k1(1) by (simp add: keyed_def)
  from backspace_keyed [OF k1(4) _ _ safe, of junk] a k1(1,2) obtain S t2 s2 where
    b: "keyboard_handler junk BACKSPACE_KEY s1 = Some (Return 0, s2)" "keyed S t2 s1 s2" "wf_keys t2"
      "pending_keys t2 = []" "num_buf t2 = 0" "key_buf t2 = key_buf t1" "buf_flag t2 = 1" by auto
  note k2 = keyed_displayed [OF b(2)] keyed_term [OF b(2)]
  have "key_buf t1 ! 0 = NL" using arg_cong [OF a(4), of "\<lambda>xs. xs ! 0"] a(5) by (simp add: pending_keys_def)
  moreover have "writable s2 buf 1"
    using w translate_same [OF keyed_modifiers(3) [OF keyed_trans [OF a(2) b(2)]]] by (simp add: writable_def)
  moreover have t2: "term_at s2 (terminal_num s2) = t2" using k1(1) k2(1,2) fg by simp
  ultimately obtain s3 where "terminal_read [] buf nbytes s2 = Some (1, s3, [])" "num_buf (term_at s3 (terminal_num s2)) = -1"
    using terminal_read_stale [OF k2(4) t2, of nbytes buf "[]"] b \<open>1 \<le> nbytes\<close> by (auto simp: wf_keys_def)
  with a(1) b t2 k1(1) k2(1) fg show ?thesis by (intro exI [of _ s1] exI [of _ s2] exI [of _ s3]) auto
qed

theorem enter_backspace_breaks_count_witness:
  "\<exists>s1 s2 s3. keyboard_handler ([], []) 0x1C (sample_kbd ()) = Some (Return 0, s1) \<and> keyboard_handler ([], []) 0x0E s1 = Some (Return 0, s2)
    \<and> terminal_read [] 0x8048000 10 s2 = Some (1, s3, []) \<and> num_buf (term_at s3 0) = -1"
proof -
  have "writable (sample_kbd ()) PROGRAM_IMAGE_ADDR 1"
    by (rule writable_program [of _ 1]) (simp_all add: sample_kbd_def shell_translate)
  with enter_backspace_breaks_count [OF wf_sample_kbd, of "()" 10 PROGRAM_IMAGE_ADDR "([], [])"] show ?thesis
    by (auto simp: keys_blank)
qed

section \<open>Properties of switching terminals\<close>

text \<open>
  Claim C35. Switching to a terminal that runs a shell, or to the first one: afterwards it is the displayed
  one, every terminal shows what it showed before (the old screen is saved, the new one restored), every line buffer is
  as it was, and the running process has not changed.
\<close>

theorem switch_terminal_keeps_screens:
  assumes "wf_console s" and "0 \<le> n" and "n < 3" and "n = 0 \<or> flag (term_at s n) \<noteq> 0"
  shows "\<exists>s'. switch_terminal junk n s = Some (Return 0, s') \<and> terminal_displayed s' = n \<and> terminal_num s' = terminal_num s
    \<and> (\<forall>j. 0 \<le> j \<and> j < 3 \<longrightarrow> shown s' j = shown s j \<and> pending_keys (term_at s' j) = pending_keys (term_at s j)
         \<and> buf_flag (term_at s' j) = buf_flag (term_at s j) \<and> process_num (term_at s' j) = process_num (term_at s j))
    \<and> wf_console s' \<and> phys s' = phys s \<and> pcb_at s' = pcb_at s \<and> process s' = process s"
proof -
  from switch_terminal_split [OF assms(1-3), of junk] assms(4) obtain s1 where
    s1: "displayed n s s1" "switch_terminal junk n s = Some (Return 0, sti s1)" by auto
  have f: "pending_keys (t\<lparr>video_memory := []\<rparr>) = pending_keys t" "buf_flag (t\<lparr>video_memory := []\<rparr>) = buf_flag t"
    "process_num (t\<lparr>video_memory := []\<rparr>) = process_num t" for t by (simp_all add: pending_keys_def)
  have t: "pending_keys (term_at s1 j) = pending_keys (term_at s j) \<and> buf_flag (term_at s1 j) = buf_flag (term_at s j)
      \<and> process_num (term_at s1 j) = process_num (term_at s j) \<and> shown s1 j = shown s j" if "0 \<le> j" "j < 3" for j
    using s1(1) that f [of "term_at s1 j"] f [of "term_at s j"] unfolding displayed_def by metis
  from s1(1) obtain ts ps v b where e: "s1 = s\<lparr>terminal_t := ts, ports := ps, video_mem := v, terminal_displayed := n, eflags_IF := b\<rparr>"
    unfolding displayed_def by blast
  have "phys s1 = phys s" "pcb_at s1 = pcb_at s" "process s1 = process s" "terminal_num s1 = terminal_num s" "terminal_displayed s1 = n"
    unfolding e by simp_all
  with t s1 show ?thesis by (intro exI [of _ "sti s1"]) (simp add: cpu_defs displayed_def)
qed

theorem switch_terminal_keeps_screens_witness:
  "\<exists>s'. switch_terminal ([], []) 0 ((sample_kbd ())\<lparr>terminal_displayed := 2\<rparr>) = Some (Return 0, s') \<and> terminal_displayed s' = 0
    \<and> shown s' 2 = shown ((sample_kbd ())\<lparr>terminal_displayed := 2\<rparr>) 2"
  using switch_terminal_keeps_screens [of "(sample_kbd ())\<lparr>terminal_displayed := 2\<rparr>" 0 "([], [])"] wf_sample_kbd [of "()"]
  by (auto simp: wf_console_def)

text \<open>
  Switching to a terminal without a shell starts one there: the screen of the terminal is blank and
  displayed, control enters the shell in a new process that belongs to this terminal, and the registers of the
  interrupted process are saved in its control block; the other terminals show what they showed.
\<close>

theorem switch_terminal_starts_shell:
  assumes con: "wf_console s" and k: "kernel_mapped s" and ps: "length (process s) = 6"
    and n: "n \<in> {1, 2}" "flag (term_at s n) = 0"
    and free: "p \<in> {1..5}" "process s ! p = 0" "\<forall>j \<in> {1..<p}. process s ! j \<noteq> 0"
    and f: "finds_file s (lit ''shell'') inode bs" "take 4 bs = exe_magic_number" "28 \<le> length bs" "length bs \<le> 0x3B8000"
    and pcb: "wf_pcb (pcb_at s (pcb_addr (int p)))" and junk: "length (fst junk) = 4" "length (snd junk) = 4"
    and cur: "cur_pcb s \<noteq> pcb_addr (int p)"
  shows "\<exists>s'. switch_terminal junk n s = Some (Enter_user (le32 (bs ! 24) (bs ! 25) (bs ! 26) (bs ! 27)), s')
    \<and> terminal_displayed s' = n \<and> terminal_num s' = n \<and> shown s' n = blank_screen
    \<and> flag (term_at s' n) = 1 \<and> process_num (term_at s' n) = int p \<and> process s' = (process s)[p := 1]
    \<and> load_bytes s' PROGRAM_IMAGE_ADDR (length bs) = Some bs \<and> tss_esp0 s' = stack_top (int p)
    \<and> pcb_esp (pcb_at s' (cur_pcb s)) = reg_esp s \<and> pcb_ebp (pcb_at s' (cur_pcb s)) = reg_ebp s
    \<and> (\<forall>j. 0 \<le> j \<and> j < 3 \<and> j \<noteq> n \<longrightarrow> shown s' j = shown s j)"
proof -
  have n3: "0 \<le> n" "n < 3" "n \<noteq> 0" using n(1) by auto
  from switch_terminal_split [OF con n3(1,2), of junk] n(2) n3(3) obtain s1 where d: "displayed n s s1" and
    e: "switch_terminal junk n s = do {
       let pcb_ptr = cur_pcb s1;
       let u = s1\<lparr>pcb_at := (pcb_at s1)(pcb_ptr := (pcb_at s1 pcb_ptr)\<lparr>pcb_esp := reg_esp s1, pcb_ebp := reg_ebp s1\<rparr>)\<rparr>;
       u \<leftarrow> clear (u\<lparr>terminal_num := n\<rparr>);
       (c, u) \<leftarrow> execute junk (Some (arr (lit ''shell'' @ [0]))) u;
       case c of Enter_user e \<Rightarrow> Some (c, u) | _ \<Rightarrow> Some (Return 0, sti (u\<lparr>terminal_num := terminal_num s\<rparr>))
     }" by auto
  from d obtain ts ps' v b where s1: "s1 = s\<lparr>terminal_t := ts, ports := ps', video_mem := v, terminal_displayed := n, eflags_IF := b\<rparr>"
    unfolding displayed_def by blast
  let ?pcbs = "(pcb_at s)(cur_pcb s := (pcb_at s (cur_pcb s))\<lparr>pcb_esp := reg_esp s, pcb_ebp := reg_ebp s\<rparr>)"
  let ?u = "s1\<lparr>pcb_at := ?pcbs, terminal_num := n\<rparr>"
  have cu: "cur_pcb s1 = cur_pcb s" "pcb_at s1 = pcb_at s" "reg_esp s1 = reg_esp s" "reg_ebp s1 = reg_ebp s" by (simp_all add: s1 cur_pcb_def)
  have "wf_console ?u" using d n3 by (simp add: displayed_def wf_console_def)
  from clear_outputs [OF this] obtain u2 where u2: "clear ?u = Some u2" "outputs blank_screen ?u u2" by blast
  have fr: "console_frame u2 = console_frame ?u" and wf2: "wf_console u2" using u2(2) by (auto simp: outputs_def)
  have eqs: "process u2 = process s" "pcb_at u2 = ?pcbs" "terminal_num u2 = n" "terminal_displayed u2 = n"
      "filesystem_start u2 = filesystem_start s" "boot_block u2 = boot_block s" "to_test u2 = to_test s"
    using arg_cong [OF fr, of process] arg_cong [OF fr, of pcb_at] arg_cong [OF fr, of terminal_num] arg_cong [OF fr, of terminal_displayed]
      arg_cong [OF fr, of filesystem_start] arg_cong [OF fr, of boot_block] arg_cong [OF fr, of to_test]
    by (simp_all add: console_frame_def s1)
  have sp: "same_paging u2 s" "phys u2 = phys s" using console_frameD [OF fr] by (simp_all add: s1 same_paging_def)
  then have si: "same_image u2 s" using eqs by (simp add: same_image_def same_mem_def)
  have k2: "kernel_mapped u2" using k paging_on_same [OF sp(1)] translate_same [OF sp(1)] by (simp add: kernel_mapped_def)
  have w: "first_word (lit ''shell'') = lit ''shell''" "first_word (after_word (lit ''shell'')) = []"
    using words_of_name [of "lit ''shell''"] words_of_name [of "[]"] by (simp_all add: is_sep_def lit_def byte_of_def)
  have c: "cstr_at (arr (lit ''shell'' @ [0])) (lit ''shell'')" by (rule cstr_at_arr) (simp add: lit_def byte_of_def)
  have "\<exists>s'. execute junk (Some (arr (lit ''shell'' @ [0]))) u2 = Some (Enter_user (le32 (bs ! 24) (bs ! 25) (bs ! 26) (bs ! 27)), s')
      \<and> started (int p) bs (first_word (after_word (lit ''shell''))) (calling u2) s'"
    by (rule execute_runs [OF wf2 k2 _ free(1) _ _ c _ _ f(2-4)])
       (use ps free f(1) finds_file_same [OF si] pcb cur junk eqs w in auto)
  then obtain s' where x: "execute junk (Some (arr (lit ''shell'' @ [0]))) u2 = Some (Enter_user (le32 (bs ! 24) (bs ! 25) (bs ! 26) (bs ! 27)), s')"
    "started (int p) bs [] (calling u2) s'" unfolding w by blast
  note st = x(2) [unfolded started_def calling_same eqs]
  have len: "length (terminal_t u2) = 3" using wf2 by (simp add: wf_console_def)
  have t: "term_at s' j = (if j = n then (term_at u2 n)\<lparr>flag := 1, process_num := int p, total_process := total_process (term_at u2 n) + 1\<rparr> else term_at u2 j)"
    if "0 \<le> j" "j < 3" for j
    using st n3 that len by (simp add: term_at_def nth_list_update eq_nat_nat_iff)
  have sc: "screen_of (t\<lparr>flag := a, process_num := b, total_process := c\<rparr>) w = screen_of t w" for t a b c w by (simp add: screen_of_def)
  have sh: "shown s' j = shown u2 j" if "0 \<le> j" "j < 3" for j
    using t [OF that] st n3 sc eqs(4) by (simp add: shown_def screen_buf_def)
  have un: "shown u2 n = blank_screen" "\<And>j. 0 \<le> j \<Longrightarrow> j < 3 \<Longrightarrow> j \<noteq> n \<Longrightarrow> shown u2 j = shown ?u j"
    using u2(2) unfolding outputs_def shown_def by auto
  have su: "shown ?u j = shown s j" if "0 \<le> j" "j < 3" for j
  proof -
    have "shown ?u j = shown s1 j" by (simp add: shown_def screen_buf_def term_at_def)
    then show ?thesis using d that by (simp add: displayed_def)
  qed
  have "switch_terminal junk n s = Some (Enter_user (le32 (bs ! 24) (bs ! 25) (bs ! 26) (bs ! 27)), s')"
    using u2(1) x(1) by (simp add: e cu Let_def)
  moreover have "pcb_at s' (cur_pcb s) = ?pcbs (cur_pcb s)" using st cur by auto
  then have "pcb_esp (pcb_at s' (cur_pcb s)) = reg_esp s" "pcb_ebp (pcb_at s' (cur_pcb s)) = reg_ebp s" by simp_all
  moreover have "process s' = (process s)[p := 1]" "load_bytes s' PROGRAM_IMAGE_ADDR (length bs) = Some bs" "tss_esp0 s' = stack_top (int p)"
    "terminal_displayed s' = n" "terminal_num s' = n" using st by auto
  moreover have "flag (term_at s' n) = 1" "process_num (term_at s' n) = int p" using t [OF n3(1,2)] by simp_all
  moreover have "shown s' n = blank_screen" using sh [OF n3(1,2)] un(1) by simp
  moreover have "\<forall>j. 0 \<le> j \<and> j < 3 \<and> j \<noteq> n \<longrightarrow> shown s' j = shown s j" using sh un(2) su by simp
  ultimately show ?thesis by (intro exI [of _ s'] conjI)
qed

theorem switch_terminal_starts_shell_witness:
  "\<exists>s'. switch_terminal (replicate 4 0, replicate 4 0) 1 (sample_kbd ()) = Some (Enter_user 0x8048000, s') \<and> terminal_num s' = 1
    \<and> shown s' 1 = blank_screen \<and> process s' = [1, 1, 1, 0, 0, 0]"
proof -
  have "cur_pcb (sample_kbd ()) \<noteq> pcb_addr 2" by (simp add: cur_pcb_def sample_kbd_def pcb_addr_def)
  with switch_terminal_starts_shell [of "sample_kbd ()" 1 2 0 shell_file "(replicate 4 0, replicate 4 0)", OF wf_sample_kbd]
    shell_found [of "\<lparr>CTRL_PRESS = 0, CAPSLOCK_PRESS = 0, SHIFT_PRESS = 1, ALT_PRESS = 0\<rparr>"]
    shell_mapped [of "\<lparr>CTRL_PRESS = 0, CAPSLOCK_PRESS = 0, SHIFT_PRESS = 1, ALT_PRESS = 0\<rparr>"] wf_pcb_shell
  show ?thesis by (auto simp: shell_file_facts blank_terminal_def) (auto simp: sample_kbd_def)
qed

text \<open>
  Control-L: the displayed terminal becomes blank with the cursor at the top left, and its line buffer
  empty with no line announced; the running terminal, the other terminals and the memory are unchanged.
\<close>

theorem control_l_clears:
  assumes wf: "wf_console s" and "CTRL_PRESS s \<noteq> 0"
  shows "\<exists>s'. keyboard_handler junk 0x26 s = Some (Return 0, s') \<and> shown s' (terminal_displayed s) = blank_screen
    \<and> pending_keys (term_at s' (terminal_displayed s)) = [] \<and> buf_flag (term_at s' (terminal_displayed s)) = 0
    \<and> (\<forall>j. 0 \<le> j \<and> j \<noteq> terminal_displayed s \<longrightarrow> term_at s' j = term_at s j) \<and> console_frame s' = console_frame s"
proof -
  let ?e = "entered s"
  from clear_displayed_keyed [of ?e] wf obtain t s1 where
    c: "clear_displayed ?e = Some s1" "keyed blank_screen t (?e\<lparr>eflags_IF := True\<rparr>) s1" "pending_keys t = []" "buf_flag t = 0" by auto
  have l: "aget keyboard_original 38 = Some 108" "byte_of CHR ''l'' = 108" by code_simp+
  have "keyboard_print 0x26 ?e = Some s1" using c(1) assms(2) l by (simp add: keyboard_print_def)
  then have "keyboard_dispatch junk 0x26 ?e = Some (Return 0, s1)"
    using dispatch_char [of "0x26" junk ?e] by (simp add: special_keys_def)
  note h = handler_returns [OF this]
  let ?s' = "s1\<lparr>eflags_IF := eflags_IF s\<rparr>"
  have "console_frame ?s' = (console_frame s1)\<lparr>eflags_IF := eflags_IF s\<rparr>" by (simp add: console_frame_def)
  also have "\<dots> = console_frame s" using c(2) entered_eq [of s] by (auto simp: keyed_def console_frame_def)
  finally have "keyed blank_screen t s ?s'" using c(2) by (simp add: keyed_def)
  from h keyed_term [OF this] this c(3,4) show ?thesis by (intro exI [of _ ?s']) (simp add: keyed_def)
qed

theorem control_l_clears_witness:
  "\<exists>s'. keyboard_handler ([], []) 0x26 ((sample_kbd ())\<lparr>CTRL_PRESS := 1\<rparr>) = Some (Return 0, s') \<and> shown s' 0 = blank_screen"
  using control_l_clears [of "(sample_kbd ())\<lparr>CTRL_PRESS := 1\<rparr>" "([], [])"] wf_sample_kbd [of "()"] by (auto simp: wf_console_def)

end
