(* ===== verification/Pit.thy ===== *)
theory Pit
  imports Keyboard
begin

text \<open>
  The timer and the scheduler, student-distrib/pit.c: every timer interrupt hands the processor to the next
  terminal that has a running process, with its program page, its video page, its kernel stack and its saved
  stack registers.

  \<open>esp\<close> and \<open>ebp\<close> are the registers of the kernel stack frame of the handler. Loading them switches to the
  frame of the other process, so that the handler returns into that process.
\<close>

abbreviation (input) IRQ_PIT :: u32 where "IRQ_PIT \<equiv> 0"
abbreviation (input) CH0_PORT :: u16 where "CH0_PORT \<equiv> 0x40"
abbreviation (input) CMD_PORT :: u16 where "CMD_PORT \<equiv> 0x43"
abbreviation (input) PIT_MASK :: int where "PIT_MASK \<equiv> 0xFF"

section \<open>State and operations\<close>

text \<open>The address at which the linker places \<open>terminal_t\<close>; an entry of it has 4160 bytes and starts with \<open>video_memory\<close>.\<close>

record sched = keyboard +
  terminal_t_at :: u32

definition PIT_RATE :: int where
  "PIT_RATE = 1193180 div 20"

definition pit_init :: "'a irqs_scheme \<Rightarrow> 'a irqs_scheme option" where
  "pit_init s = do {
     let s = outb 0x36 CMD_PORT s;
     let s = outb (word_of_int (PIT_RATE AND PIT_MASK)) CH0_PORT s;
     let s = outb (word_of_int (drop_bit 8 PIT_RATE)) CH0_PORT s;
     add_irq (int (unat IRQ_PIT)) Pit_handler s
   }"

text \<open>\<open>while (!terminal_t[terminal_num].flag) terminal_num = (terminal_num + 1) % 3;\<close>\<close>

partial_function (option) next_running :: "terminal list \<Rightarrow> int \<Rightarrow> int option" where
  "next_running ts n = do {
     t \<leftarrow> aget ts n;
     if flag t = 0 then next_running ts ((n + 1) mod 3) else Some n
   }"

definition video_memory_at :: "int \<Rightarrow> 'a sched_scheme \<Rightarrow> u32" where
  "video_memory_at n s = terminal_t_at s + 4160 * word_of_int n"

text \<open>The video page of the program of a terminal that is not displayed.\<close>

definition map_background_page :: "int \<Rightarrow> 'a sched_scheme \<Rightarrow> 'a sched_scheme option" where
  "map_background_page n s = do {
     pd \<leftarrow> aset (PageDirectory s) (uint (MB_132 div FOUR_MB)) (VideoPageTable_at s OR (RW_ENABLE OR PRESENT) OR USER_ENABLE);
     pt \<leftarrow> aset (VideoPageTable s) 0 (video_memory_at n s OR (RW_ENABLE OR PRESENT) OR USER_ENABLE);
     Some (s\<lparr>PageDirectory := pd, VideoPageTable := pt\<rparr>)
   }"

definition pit_handler :: "'a sched_scheme \<Rightarrow> 'a sched_scheme option" where
  "pit_handler s = do {
     let s = send_eoi IRQ_PIT s;
     let s = cli s;
     t1 \<leftarrow> aget (terminal_t s) 1;
     t2 \<leftarrow> aget (terminal_t s) 2;
     if flag t1 = 0 \<and> flag t2 = 0 then Some (sti s)
     else do {
       n \<leftarrow> next_running (terminal_t s) ((terminal_num s + 1) mod 3);
       let s = s\<lparr>terminal_num := n\<rparr>;
       t \<leftarrow> aget (terminal_t s) (terminal_num s);
       let next_process = process_num t;
       s \<leftarrow> map_program_page next_process s;
       s \<leftarrow> (if terminal_num s = terminal_displayed s then map_video_page s else map_background_page (terminal_num s) s);
       let pcb_ptr = cur_pcb s;
       let s = s\<lparr>pcb_at := (pcb_at s)(pcb_ptr := (pcb_at s pcb_ptr)\<lparr>pcb_esp := reg_esp s, pcb_ebp := reg_ebp s\<rparr>)\<rparr>;
       let s = s\<lparr>tss_ss0 := KERNEL_DS, tss_esp0 := EIGHT_MB - EIGHT_KB * (word_of_int next_process - 1) - 4\<rparr>;
       let pcb_ptr = cur_pcb s;
       let s = s\<lparr>reg_esp := pcb_esp (pcb_at s pcb_ptr), reg_ebp := pcb_ebp (pcb_at s pcb_ptr)\<rparr>;
       Some (sti s)
     }
   }"

section \<open>The next terminal\<close>

definition running :: "'a console_scheme \<Rightarrow> int \<Rightarrow> bool" where
  "running s i \<longleftrightarrow> 0 \<le> i \<and> i < 3 \<and> flag (term_at s i) \<noteq> 0"

definition next_term :: "'a console_scheme \<Rightarrow> int" where
  "next_term s =
     (if running s ((terminal_num s + 1) mod 3) then (terminal_num s + 1) mod 3
      else if running s ((terminal_num s + 2) mod 3) then (terminal_num s + 2) mod 3
      else terminal_num s)"

lemma mod3_cases: "0 \<le> n \<Longrightarrow> n < 3 \<Longrightarrow> n = 0 \<or> n = 1 \<or> n = (2 :: int)"
  by auto

lemma next_running_finds:
  assumes "wf_console s" and "running s (terminal_num s)"
  shows "next_running (terminal_t s) ((terminal_num s + 1) mod 3) = Some (next_term s)"
proof -
  have g: "aget (terminal_t s) i = Some (term_at s i)" if "0 \<le> i" "i < 3" for i using wf_console_term(1) [OF assms(1) that] .
  have r: "flag (term_at s i) = 0 \<longleftrightarrow> \<not> running s i" if "0 \<le> i" "i < 3" for i using that by (auto simp: running_def)
  show ?thesis using mod3_cases [OF wf_console_num(1,2) [OF assms(1)]] assms(2)
    by (elim disjE) (simp_all add: next_running.simps g r next_term_def)
qed

lemma next_term_running:
  assumes "running s (terminal_num s)"
  shows "running s (next_term s)" and "next_term s = terminal_num s \<longleftrightarrow> (\<forall>i. i \<noteq> terminal_num s \<longrightarrow> \<not> running s i)"
proof -
  have n: "0 \<le> terminal_num s" "terminal_num s < 3" using assms by (auto simp: running_def)
  show "running s (next_term s)" using assms by (simp add: next_term_def)
  have "running s i \<Longrightarrow> i \<noteq> terminal_num s \<Longrightarrow> i = (terminal_num s + 1) mod 3 \<or> i = (terminal_num s + 2) mod 3" for i
    using mod3_cases [OF n] by (auto simp: running_def)
  moreover have "(terminal_num s + 1) mod 3 \<noteq> terminal_num s" "(terminal_num s + 2) mod 3 \<noteq> terminal_num s"
    using mod3_cases [OF n] by auto
  ultimately show "next_term s = terminal_num s \<longleftrightarrow> (\<forall>i. i \<noteq> terminal_num s \<longrightarrow> \<not> running s i)"
    by (auto simp: next_term_def)
qed

section \<open>The invariant of the scheduler\<close>

text \<open>The process in front on terminal \<open>i\<close>.\<close>

abbreviation proc :: "'a console_scheme \<Rightarrow> int \<Rightarrow> int" where
  "proc s i \<equiv> process_num (term_at s i)"

definition sched_inv :: "'a sched_scheme \<Rightarrow> bool" where
  "sched_inv s \<longleftrightarrow> wf_console s \<and> paging_on s \<and> running s (terminal_num s)
     \<and> (\<forall>i. running s i \<longrightarrow> 1 \<le> proc s i \<and> proc s i \<le> 6)
     \<and> (\<forall>i j. running s i \<and> running s j \<and> proc s i = proc s j \<longrightarrow> i = j)
     \<and> tss_esp0 s = stack_top (proc s (terminal_num s))
     \<and> (\<forall>va. drop_bit 22 va = 32 \<longrightarrow> translate s va = Some (program_phys (proc s (terminal_num s)) va))"

lemma sched_invD:
  assumes "sched_inv s"
  shows "wf_console s" "paging_on s" "running s (terminal_num s)" "running s i \<Longrightarrow> 1 \<le> proc s i" "running s i \<Longrightarrow> proc s i \<le> 6"
    "running s i \<Longrightarrow> running s j \<Longrightarrow> proc s i = proc s j \<Longrightarrow> i = j" "tss_esp0 s = stack_top (proc s (terminal_num s))"
    "drop_bit 22 va = 32 \<Longrightarrow> translate s va = Some (program_phys (proc s (terminal_num s)) va)" "cur_pcb s = pcb_addr (proc s (terminal_num s))"
  using assms pcb_of_stack [of "proc s (terminal_num s)"] by (auto simp: sched_inv_def cur_pcb_def)

text \<open>The address space of process \<open>p\<close> on terminal \<open>n\<close>.\<close>

definition space :: "int \<Rightarrow> int \<Rightarrow> 'a sched_scheme \<Rightarrow> 'a sched_scheme" where
  "space p n s = (if n = terminal_displayed s
     then s\<lparr>PageDirectory := (PageDirectory s)[32 := user_pde p, 33 := UserPageTable_at s OR 7],
            UserPageTable := (UserPageTable s)[0 := VIDEO_MEM OR 7]\<rparr>
     else s\<lparr>PageDirectory := (PageDirectory s)[32 := user_pde p, 33 := VideoPageTable_at s OR 7],
            VideoPageTable := (VideoPageTable s)[0 := video_memory_at n s OR 7]\<rparr>)"

lemma space_fields [simp]:
  "terminal_t (space p n s) = terminal_t s" "terminal_num (space p n s) = terminal_num s"
  "terminal_displayed (space p n s) = terminal_displayed s" "video_mem (space p n s) = video_mem s"
  "phys (space p n s) = phys s" "pcb_at (space p n s) = pcb_at s" "tss_esp0 (space p n s) = tss_esp0 s"
  "reg_esp (space p n s) = reg_esp s" "reg_ebp (space p n s) = reg_ebp s" "process (space p n s) = process s"
  "term_at (space p n s) i = term_at s i" "wf_console (space p n s) = wf_console s"
  by (simp_all add: space_def term_at_def wf_console_def)

lemma paging_on_space [simp]: "paging_on s \<Longrightarrow> paging_on (space p n s)"
  by (simp add: space_def paging_on_def tables_wf_def)

lemma space_program [simp]: "paging_on s \<Longrightarrow> PageDirectory (space p n s) ! 32 = user_pde p"
  by (simp add: space_def paging_on_def tables_wf_def)

lemma map_space:
  assumes "paging_on s" and "terminal_num s = n"
  shows "do { s \<leftarrow> map_program_page p s;
      if terminal_num s = terminal_displayed s then map_video_page s else map_background_page (terminal_num s) s } = Some (space p n s)"
proof -
  let ?t = "s\<lparr>PageDirectory := (PageDirectory s)[32 := user_pde p]\<rparr>"
  have m: "map_program_page p s = Some ?t" using assms by (simp add: map_program_page_Some)
  then have "paging_on ?t" using map_program_page_on assms(1) by blast
  then have v: "map_video_page ?t = Some (?t\<lparr>PageDirectory := (PageDirectory ?t)[33 := UserPageTable_at ?t OR 7],
      UserPageTable := (UserPageTable ?t)[0 := VIDEO_MEM OR 7]\<rparr>)" by (rule map_video_page_Some)
  show ?thesis using assms v
    by (auto simp: m space_def map_background_page_def video_memory_at_def paging_on_def tables_wf_def aset_def or.assoc)
qed

lemma walk_program_pde:
  assumes "paging_on s" and "PageDirectory s ! 32 = user_pde p" and "1 \<le> p" and "p \<le> 6" and "drop_bit 22 va = 32"
  shows "walk s va = Some (program_phys p va, True)" and "translate s va = Some (program_phys p va)"
proof -
  have "walk s va = Some (push_bit 22 (drop_bit 22 (user_pde p)) OR take_bit 22 va, bit (user_pde p) 2)"
    by (rule walk_page_4MB)
       (use assms user_pde_bits [OF assms(3,4)] in \<open>simp_all add: paging_on_def tables_wf_def\<close>)
  then show "walk s va = Some (program_phys p va, True)" using user_pde_bits [OF assms(3,4)] by (simp add: program_phys_def)
  then show "translate s va = Some (program_phys p va)" using assms(1) by (simp add: translate_def paging_on_def)
qed

text \<open>What the handler does when more than the first terminal has a process.\<close>

definition saved :: "'a sched_scheme \<Rightarrow> u32 \<Rightarrow> pcb_t" where
  "saved s = (pcb_at s)(cur_pcb s := (pcb_at s (cur_pcb s))\<lparr>pcb_esp := reg_esp s, pcb_ebp := reg_ebp s\<rparr>)"

definition switched :: "'a sched_scheme \<Rightarrow> 'a sched_scheme" where
  "switched s = (let n = next_term s; p = pcb_addr (proc s n) in
     (space (proc s n) n (s\<lparr>ports := ports s @ [Outb MASTER_8259_COMMAND 0x60], terminal_num := n\<rparr>))
       \<lparr>eflags_IF := True, pcb_at := saved s, tss_ss0 := KERNEL_DS, tss_esp0 := stack_top (proc s n),
        reg_esp := pcb_esp (saved s p), reg_ebp := pcb_ebp (saved s p)\<rparr>)"

definition ticked :: "'a sched_scheme \<Rightarrow> 'a sched_scheme" where
  "ticked s = (if running s 1 \<or> running s 2 then switched s
     else s\<lparr>ports := ports s @ [Outb MASTER_8259_COMMAND 0x60], eflags_IF := True\<rparr>)"

lemma pit_handler_ticked:
  assumes "sched_inv s"
  shows "pit_handler s = Some (ticked s)"
proof -
  note inv = sched_invD [OF assms]
  let ?s = "s\<lparr>ports := ports s @ [Outb MASTER_8259_COMMAND 0x60], eflags_IF := False\<rparr>"
  let ?n = "next_term s"
  let ?t = "?s\<lparr>terminal_num := ?n\<rparr>"
  have e: "cli (send_eoi IRQ_PIT s) = ?s" by (simp add: send_eoi_def outb_def cli_def)
  have g: "aget (terminal_t s) i = Some (term_at s i)" if "0 \<le> i" "i < 3" for i using wf_console_term(1) [OF inv(1) that] .
  have n: "running s ?n" by (rule next_term_running(1) [OF inv(3)])
  then have n3: "0 \<le> ?n" "?n < 3" by (auto simp: running_def)
  have "paging_on ?t" using inv(2) by (simp add: paging_on_def tables_wf_def)
  then have m: "do { s \<leftarrow> map_program_page (proc s ?n) ?t;
      if terminal_num s = terminal_displayed s then map_video_page s else map_background_page (terminal_num s) s } = Some (space (proc s ?n) ?n ?t)"
    by (rule map_space) simp
  have c': "stack_top (proc s ?n) AND PCB_MASK = pcb_addr (proc s ?n)" using inv(4,5) [OF n] by (rule pcb_of_stack)
  show ?thesis
  proof (cases "running s 1 \<or> running s 2")
    case False
    then show ?thesis unfolding pit_handler_def Let_def e by (auto simp: g running_def ticked_def sti_def)
  next
    case True
    from m obtain u where u: "map_program_page (proc s ?n) ?t = Some u"
      "(if terminal_num u = terminal_displayed u then map_video_page u else map_background_page (terminal_num u) u) = Some (space (proc s ?n) ?n ?t)"
      by (auto simp: bind_eq_Some_conv)
    have "\<not> (flag (term_at s 1) = 0 \<and> flag (term_at s 2) = 0)" using True by (auto simp: running_def)
    then have "pit_handler s = Some ((space (proc s ?n) ?n ?t)\<lparr>pcb_at := saved s, tss_ss0 := KERNEL_DS, tss_esp0 := stack_top (proc s ?n),
        reg_esp := pcb_esp (saved s (pcb_addr (proc s ?n))), reg_ebp := pcb_ebp (saved s (pcb_addr (proc s ?n))), eflags_IF := True\<rparr>)"
      unfolding pit_handler_def Let_def e stack_top_def [symmetric]
      using next_running_finds [OF inv(1,3)] u
      by (simp add: g g [OF n3] saved_def sti_def cur_pcb_def c') blast
    then show ?thesis using True by (simp add: ticked_def switched_def Let_def space_def video_memory_at_def)
  qed
qed

lemma ticked_fields [simp]:
  "terminal_t (ticked s) = terminal_t s" "terminal_displayed (ticked s) = terminal_displayed s" "video_mem (ticked s) = video_mem s"
  "phys (ticked s) = phys s" "process (ticked s) = process s" "term_at (ticked s) i = term_at s i" "running (ticked s) i = running s i"
  "eflags_IF (ticked s)"
  by (simp_all add: ticked_def switched_def Let_def term_at_def running_def)

lemma ticked_num: "sched_inv s \<Longrightarrow> terminal_num (ticked s) = next_term s"
proof -
  assume "sched_inv s"
  note r = sched_invD(3) [OF this]
  have "terminal_num s = 0" if "\<not> running s 1" "\<not> running s 2" using r that mod3_cases [of "terminal_num s"] by (auto simp: running_def)
  then show ?thesis by (auto simp: ticked_def switched_def Let_def next_term_def)
qed

lemma ticked_pcb:
  assumes "sched_inv s"
  shows "a \<noteq> cur_pcb s \<Longrightarrow> pcb_at (ticked s) a = pcb_at s a"
    and "next_term s \<noteq> terminal_num s \<Longrightarrow> pcb_at (ticked s) = saved s"
    and "next_term s \<noteq> terminal_num s \<Longrightarrow> reg_esp (ticked s) = pcb_esp (pcb_at s (pcb_addr (proc s (next_term s))))"
    and "next_term s \<noteq> terminal_num s \<Longrightarrow> reg_ebp (ticked s) = pcb_ebp (pcb_at s (pcb_addr (proc s (next_term s))))"
proof -
  note inv = sched_invD [OF assms]
  show "a \<noteq> cur_pcb s \<Longrightarrow> pcb_at (ticked s) a = pcb_at s a" by (simp add: ticked_def switched_def Let_def saved_def)
  assume ne: "next_term s \<noteq> terminal_num s"
  have n: "running s (next_term s)" by (rule next_term_running(1) [OF inv(3)])
  have "running s 1 \<or> running s 2" using ne ticked_num [OF assms] by (auto simp: ticked_def split: if_splits)
  then have t: "ticked s = switched s" by (simp add: ticked_def)
  have "pcb_addr (proc s (next_term s)) \<noteq> cur_pcb s"
    using pcb_addr_inj [OF inv(4,5) [OF n] inv(4,5) [OF inv(3)]] inv(6) [OF n inv(3)] ne by (auto simp: inv(9))
  then show "pcb_at (ticked s) = saved s" "reg_esp (ticked s) = pcb_esp (pcb_at s (pcb_addr (proc s (next_term s))))"
    "reg_ebp (ticked s) = pcb_ebp (pcb_at s (pcb_addr (proc s (next_term s))))"
    by (simp_all add: t switched_def Let_def saved_def)
qed

lemma sched_inv_ticked: "sched_inv s \<Longrightarrow> sched_inv (ticked s)"
proof -
  assume s: "sched_inv s"
  note inv = sched_invD [OF s]
  have n: "running s (next_term s)" by (rule next_term_running(1) [OF inv(3)])
  then have n3: "0 \<le> next_term s" "next_term s < 3" by (auto simp: running_def)
  have e: "ticked s = switched s \<or> ticked s = s\<lparr>ports := ports s @ [Outb MASTER_8259_COMMAND 0x60], eflags_IF := True\<rparr>"
    by (simp add: ticked_def)
  let ?n = "next_term s"
  let ?t = "s\<lparr>ports := ports s @ [Outb MASTER_8259_COMMAND 0x60], terminal_num := ?n\<rparr>"
  have t: "paging_on ?t" "wf_console ?t" using inv(1,2) n3 by (simp_all add: paging_on_def tables_wf_def wf_console_def)
  have u: "paging_on (space (proc s ?n) ?n ?t)" "PageDirectory (space (proc s ?n) ?n ?t) ! 32 = user_pde (proc s ?n)"
    using paging_on_space [OF t(1)] space_program [OF t(1)] by simp_all
  have q: "same_paging (switched s) (space (proc s ?n) ?n ?t)" by (simp add: same_paging_def switched_def Let_def)
  have "wf_console (ticked s) \<and> paging_on (ticked s) \<and> tss_esp0 (ticked s) = stack_top (proc s ?n)
      \<and> (\<forall>va. drop_bit 22 va = 32 \<longrightarrow> translate (ticked s) va = Some (program_phys (proc s ?n) va))"
    using e
  proof
    assume e: "ticked s = switched s"
    have "wf_console (switched s)" using t(2) by (simp add: switched_def Let_def wf_console_def)
    moreover have "tss_esp0 (switched s) = stack_top (proc s ?n)" by (simp add: switched_def Let_def)
    ultimately show ?thesis unfolding e
      using paging_on_same [OF q] translate_same [OF q] u walk_program_pde(2) [OF u inv(4,5) [OF n]] by simp
  next
    assume e: "ticked s = s\<lparr>ports := ports s @ [Outb MASTER_8259_COMMAND 0x60], eflags_IF := True\<rparr>"
    have m: "?n = terminal_num s" using ticked_num [OF s] unfolding e by simp
    have q: "same_paging (ticked s) s" by (simp add: same_paging_def e)
    have "wf_console (ticked s)" "tss_esp0 (ticked s) = tss_esp0 s" using inv(1) by (simp_all add: e wf_console_def)
    then show ?thesis using paging_on_same [OF q] translate_same [OF q] inv(2,7,8) by (simp add: m)
  qed
  then show "sched_inv (ticked s)" using inv(4,5,6) n unfolding sched_inv_def ticked_num [OF s] by simp
qed

section \<open>Runs of the scheduler\<close>

text \<open>
  What a process does between two interrupts of the timer, in user mode or in the kernel: it stays on its
  terminal, keeps the invariant, and leaves alone the terminal entry, the control block and the
  program page of the process in front on every other terminal.
\<close>

definition others_kept :: "'a sched_scheme \<Rightarrow> 'a sched_scheme \<Rightarrow> bool" where
  "others_kept s u \<longleftrightarrow> (\<forall>i. running s i \<and> i \<noteq> terminal_num s \<longrightarrow> running u i \<and> proc u i = proc s i
     \<and> pcb_at u (pcb_addr (proc s i)) = pcb_at s (pcb_addr (proc s i))
     \<and> (\<forall>q. in_frame (proc s i + 1) q \<longrightarrow> phys u q = phys s q))"

definition runs :: "'a sched_scheme \<Rightarrow> 'a sched_scheme \<Rightarrow> bool" where
  "runs s u \<longleftrightarrow> terminal_num u = terminal_num s \<and> sched_inv u \<and> others_kept s u"

text \<open>A run, with the terminals that the ticks of the timer chose, the latest first.\<close>

inductive turns :: "'a sched_scheme \<Rightarrow> int list \<Rightarrow> 'a sched_scheme \<Rightarrow> bool" for s where
  start: "turns s [] s"
| tick: "turns s ns t \<Longrightarrow> pit_handler t = Some u \<Longrightarrow> turns s (terminal_num u # ns) u"
| run: "turns s ns t \<Longrightarrow> runs t u \<Longrightarrow> turns s ns u"

text \<open>A run during which terminal \<open>n\<close> does not get the processor.\<close>

inductive away :: "int \<Rightarrow> 'a sched_scheme \<Rightarrow> 'a sched_scheme \<Rightarrow> bool" for n s where
  start: "terminal_num s \<noteq> n \<Longrightarrow> away n s s"
| tick: "away n s t \<Longrightarrow> pit_handler t = Some u \<Longrightarrow> terminal_num u \<noteq> n \<Longrightarrow> away n s u"
| run: "away n s t \<Longrightarrow> runs t u \<Longrightarrow> away n s u"

lemma runs_running: "runs t u \<Longrightarrow> running t i \<Longrightarrow> running u i"
  by (cases "i = terminal_num t") (auto simp: runs_def others_kept_def dest: sched_invD(3))

lemma turns_inv:
  assumes "sched_inv s" and "turns s ns t"
  shows "sched_inv t" and "running s i \<Longrightarrow> running t i"
proof -
  have "sched_inv t \<and> (\<forall>i. running s i \<longrightarrow> running t i)"
    using assms(2)
  proof induction
    case (tick ns t u)
    then have "u = ticked t" by (simp add: pit_handler_ticked)
    with tick show ?case by (simp add: sched_inv_ticked)
  qed (use assms(1) runs_running in \<open>auto simp: runs_def\<close>)
  then show "sched_inv t" and "running s i \<Longrightarrow> running t i" by auto
qed

text \<open>How many ticks at most until terminal \<open>i\<close> has its next turn, when \<open>m\<close> has the processor.\<close>

definition until_turn :: "int \<Rightarrow> int \<Rightarrow> nat" where
  "until_turn i m = (if m = i then 3 else nat ((i - m) mod 3))"

lemma until_turn_pos: "0 \<le> i \<Longrightarrow> i < 3 \<Longrightarrow> 0 \<le> m \<Longrightarrow> m < 3 \<Longrightarrow> 0 < until_turn i m \<and> until_turn i m \<le> 3"
  by (auto simp: until_turn_def dest!: mod3_cases)

lemma until_turn_tick:
  assumes "running s (terminal_num s)" and "running s i" and "next_term s \<noteq> i"
  shows "Suc (until_turn i (next_term s)) \<le> until_turn i (terminal_num s)"
proof -
  have "terminal_num s = 0 \<or> terminal_num s = 1 \<or> terminal_num s = 2" "i = 0 \<or> i = 1 \<or> i = 2"
    using assms(1,2) mod3_cases by (auto simp: running_def)
  then show ?thesis using assms by (elim disjE) (auto simp: next_term_def until_turn_def split: if_splits)
qed

lemma turns_wait:
  assumes "sched_inv s" and "turns s ns t" and "running s i" and "j \<le> length ns" and "i \<notin> set (take j ns)"
  shows "until_turn i (terminal_num t) + j \<le> 3"
  using assms(2,4,5)
proof (induction arbitrary: j)
  case start
  then show ?case using until_turn_pos [of i "terminal_num s"] assms(3) sched_invD(3) [OF assms(1)] by (auto simp: running_def)
next
  case (tick ns t u)
  note t = turns_inv [OF assms(1) tick.hyps(1)]
  have u: "u = ticked t" using tick.hyps(2) by (simp add: pit_handler_ticked [OF t(1)])
  show ?case
  proof (cases j)
    case 0
    then show ?thesis using until_turn_pos [of i "terminal_num u"] t(2) [OF assms(3)] next_term_running(1) [OF sched_invD(3) [OF t(1)]]
      by (auto simp: running_def u ticked_num [OF t(1)])
  next
    case (Suc k)
    with tick.prems tick.IH [of k] have "until_turn i (terminal_num t) + k \<le> 3" "next_term t \<noteq> i" by (auto simp: u ticked_num [OF t(1)])
    with until_turn_tick [OF sched_invD(3) [OF t(1)] t(2) [OF assms(3)]] show ?thesis by (simp add: u ticked_num [OF t(1)] Suc)
  qed
next
  case (run ns t u)
  then show ?case by (simp add: runs_def)
qed

lemma away_keeps:
  assumes "sched_inv s" and "running s n" and "away n s t"
  shows "sched_inv t" and "terminal_num t \<noteq> n" and "running t n" and "proc t n = proc s n"
    and "pcb_at t (pcb_addr (proc s n)) = pcb_at s (pcb_addr (proc s n))"
    and "in_frame (proc s n + 1) q \<Longrightarrow> phys t q = phys s q"
proof -
  have "sched_inv t \<and> terminal_num t \<noteq> n \<and> running t n \<and> proc t n = proc s n
      \<and> pcb_at t (pcb_addr (proc s n)) = pcb_at s (pcb_addr (proc s n)) \<and> (\<forall>q. in_frame (proc s n + 1) q \<longrightarrow> phys t q = phys s q)"
    using assms(3)
  proof induction
    case start
    then show ?case using assms by simp
  next
    case (tick t u)
    note t = sched_invD [of t]
    have "u = ticked t" using tick by (simp add: pit_handler_ticked)
    moreover have "pcb_addr (proc t n) \<noteq> cur_pcb t"
      using pcb_addr_inj [of "proc t n" "proc t (terminal_num t)"] t(3-6,9) tick by metis
    ultimately show ?case using tick by (simp add: sched_inv_ticked ticked_pcb(1))
  next
    case (run t u)
    then show ?case by (auto simp: runs_def others_kept_def)
  qed
  then show "sched_inv t" and "terminal_num t \<noteq> n" and "running t n" and "proc t n = proc s n"
    and "pcb_at t (pcb_addr (proc s n)) = pcb_at s (pcb_addr (proc s n))"
    and "in_frame (proc s n + 1) q \<Longrightarrow> phys t q = phys s q" by auto
qed

section \<open>Pages of the process that gets the processor\<close>

lemma switched_walk:
  "walk (switched s) = walk (space (proc s (next_term s)) (next_term s) (s\<lparr>ports := ports s @ [Outb MASTER_8259_COMMAND 0x60], terminal_num := next_term s\<rparr>))"
  by (rule ext, rule walk_same) (simp add: same_paging_def switched_def Let_def)

lemma space_video_page:
  assumes "paging_on s" and "n = terminal_displayed s" and "drop_bit 12 va = drop_bit 12 MB_132"
  shows "walk (space p n s) va = Some (VIDEO_MEM OR take_bit 12 va, True)"
proof -
  let ?t = "s\<lparr>PageDirectory := (PageDirectory s)[32 := user_pde p]\<rparr>"
  have t: "paging_on ?t" using assms(1) by (simp add: paging_on_def tables_wf_def)
  have "map_video_page ?t = Some (space p n s)" using assms(2) by (simp add: map_video_page_Some [OF t] space_def)
  from walk_video_page [OF t this assms(3)] show ?thesis .
qed

lemma space_background_page:
  assumes on: "paging_on s" and n: "n \<noteq> terminal_displayed s" and va: "drop_bit 12 va = drop_bit 12 MB_132"
  shows "walk (space p n s) va = Some ((video_memory_at n s AND 0xFFFFF000) OR take_bit 12 va, True)"
proof -
  let ?a = "video_memory_at n s"
  have d: "drop_bit 12 va = 0x8400" using va by simp
  have "drop_bit 10 (drop_bit 12 va) = drop_bit 10 0x8400" unfolding d ..
  then have va22: "drop_bit 22 va = 33" by simp
  have va10: "take_bit 10 (drop_bit 12 va) = 0" unfolding d by simp
  note wf = on [unfolded paging_on_def tables_wf_def]
  have b: "bit (?a OR 7) 0" "bit (?a OR 7) 2" by (simp_all add: bit_or_iff)
  have "drop_bit 12 (?a OR 7) = drop_bit 12 ?a" by (rule bit_word_eqI) (simp add: bit_simps)
  moreover have "walk (space p n s) va = (if bit (?a OR 7) 0
    then Some (push_bit 12 (drop_bit 12 (?a OR 7)) OR take_bit 12 va, bit (7 :: u32) 2 \<and> bit (?a OR 7) 2) else None)"
    by (rule walk_page_4KB [where ta = "VideoPageTable_at s" and pt = "(VideoPageTable s)[0 := ?a OR 7]"])
       (use n wf va22 va10 in \<open>auto simp: space_def table_at_def\<close>)
  ultimately show ?thesis using b by (simp add: and_high12)
qed

lemma switched_pages:
  assumes "sched_inv s" and "next_term s \<noteq> terminal_num s"
  shows "drop_bit 22 va = 32 \<Longrightarrow> user_translate (ticked s) va = Some (program_phys (proc s (next_term s)) va)"
    and "next_term s = terminal_displayed s \<Longrightarrow> drop_bit 12 va = drop_bit 12 MB_132 \<Longrightarrow>
      user_translate (ticked s) va = Some (VIDEO_MEM OR take_bit 12 va)"
    and "next_term s \<noteq> terminal_displayed s \<Longrightarrow> drop_bit 12 va = drop_bit 12 MB_132 \<Longrightarrow>
      user_translate (ticked s) va = Some ((video_memory_at (next_term s) s AND 0xFFFFF000) OR take_bit 12 va)"
proof -
  note inv = sched_invD [OF assms(1)]
  let ?n = "next_term s"
  let ?t = "s\<lparr>ports := ports s @ [Outb MASTER_8259_COMMAND 0x60], terminal_num := ?n\<rparr>"
  have t: "paging_on ?t" using inv(2) by (simp add: paging_on_def tables_wf_def)
  have n: "running s ?n" by (rule next_term_running(1) [OF inv(3)])
  have e: "ticked s = switched s" using assms(2) ticked_num [OF assms(1)] by (auto simp: ticked_def split: if_splits)
  show "drop_bit 22 va = 32 \<Longrightarrow> user_translate (ticked s) va = Some (program_phys (proc s ?n) va)"
    using walk_program_pde(1) [OF paging_on_space [OF t] space_program [OF t] inv(4,5) [OF n], of va ?n]
    by (simp add: user_translate_def e switched_walk)
  show "?n = terminal_displayed s \<Longrightarrow> drop_bit 12 va = drop_bit 12 MB_132 \<Longrightarrow> user_translate (ticked s) va = Some (VIDEO_MEM OR take_bit 12 va)"
    using space_video_page [OF t, of ?n va "proc s ?n"] by (simp add: user_translate_def e switched_walk)
  show "?n \<noteq> terminal_displayed s \<Longrightarrow> drop_bit 12 va = drop_bit 12 MB_132 \<Longrightarrow>
      user_translate (ticked s) va = Some ((video_memory_at ?n s AND 0xFFFFF000) OR take_bit 12 va)"
    using space_background_page [OF t, of ?n va "proc s ?n"] by (simp add: user_translate_def e switched_walk video_memory_at_def)
qed

section \<open>A state with two processes\<close>

definition sample_sched :: sched where
  "sample_sched = (sample_kbd \<lparr>terminal_t_at = 0x420000\<rparr>)
     \<lparr>process := [1, 1, 1, 0, 0, 0],
      terminal_t := [blank_terminal\<lparr>process_num := 1, total_process := 1, flag := 1\<rparr>,
        blank_terminal\<lparr>process_num := 2, total_process := 1, flag := 1\<rparr>, blank_terminal]\<rparr>"

lemma sample_sched_fields [simp]:
  "terminal_num sample_sched = 0" "terminal_displayed sample_sched = 0" "terminal_t_at sample_sched = 0x420000"
  "process sample_sched = [1, 1, 1, 0, 0, 0]" "proc sample_sched 0 = 1" "proc sample_sched 1 = 2"
  "running sample_sched i \<longleftrightarrow> i = 0 \<or> i = 1" "pcb_at sample_sched = (\<lambda>_. shell_pcb)"
proof -
  have f: "flag blank_terminal = 0" by (simp add: blank_terminal_def)
  show "running sample_sched i \<longleftrightarrow> i = 0 \<or> i = 1"
    using mod3_cases [of i] f by (auto simp: running_def sample_sched_def term_at_def)
  show "terminal_t_at sample_sched = 0x420000"
    by (simp add: sample_sched_def sample_kbd_def shell_kernel_def sample_user_def sample_kernel_def sample_fs_def blank_rtc_def blank_defs)
qed (simp_all add: sample_sched_def sample_kbd_def term_at_def)

lemma sched_inv_sample: "sched_inv sample_sched"
proof -
  let ?k = "sample_kbd \<lparr>terminal_t_at = 0x420000\<rparr>"
  have q: "same_paging sample_sched ?k" by (simp add: same_paging_def sample_sched_def)
  have k: "paging_on ?k" "\<forall>va. drop_bit 22 va = 32 \<longrightarrow> translate ?k va = Some (program_phys 1 va)"
    by (simp_all add: sample_kbd_def paging_on_same [OF shell_same] sample_user_on shell_translate(1))
  have w: "wf_console sample_sched"
    using wf_sample_kbd [of "\<lparr>terminal_t_at = 0x420000\<rparr>"] by (auto simp: wf_console_def sample_sched_def wf_blank_terminal)
  have t: "tss_esp0 sample_sched = stack_top (proc sample_sched (terminal_num sample_sched))"
    by (simp add: sample_sched_def sample_kbd_def stack_top_def term_at_def)
  have p: "\<forall>i. running sample_sched i \<longrightarrow> 1 \<le> proc sample_sched i \<and> proc sample_sched i \<le> 6" by auto
  have d: "\<forall>i j. running sample_sched i \<and> running sample_sched j \<and> proc sample_sched i = proc sample_sched j \<longrightarrow> i = j"
    unfolding sample_sched_fields by (metis one_eq_numeral_iff sample_sched_fields(5,6) semiring_norm(83))
  have r: "running sample_sched (terminal_num sample_sched)" by simp
  have m: "\<forall>va. drop_bit 22 va = 32 \<longrightarrow> translate sample_sched va = Some (program_phys (proc sample_sched (terminal_num sample_sched)) va)"
    using k(2) by (simp add: translate_same [OF q])
  from k(1) have "paging_on sample_sched" by (simp only: paging_on_same [OF q])
  with w r p d t m show ?thesis unfolding sched_inv_def by blast
qed

section \<open>Properties of the scheduler\<close>

text \<open>
  Claim C27. A tick with another terminal to serve: the handler saves the stack registers of the running process
  in its control block and changes no other block, moves to the next terminal in order that has a
  process, loads the registers that the block of that process holds, and installs its kernel stack and its
  program page, and, when the terminal is displayed, video memory at 132 MB. Memory, terminals and
  screens are untouched, and interrupts are on again.
\<close>

theorem pit_handler_switches:
  assumes "sched_inv s" and "running s i" and "i \<noteq> terminal_num s"
  shows "\<exists>s'. pit_handler s = Some s' \<and> terminal_num s' = next_term s \<and> next_term s \<noteq> terminal_num s \<and> running s (next_term s)
    \<and> pcb_at s' = (pcb_at s)(cur_pcb s := (pcb_at s (cur_pcb s))\<lparr>pcb_esp := reg_esp s, pcb_ebp := reg_ebp s\<rparr>)
    \<and> reg_esp s' = pcb_esp (pcb_at s (cur_pcb s')) \<and> reg_ebp s' = pcb_ebp (pcb_at s (cur_pcb s'))
    \<and> cur_pcb s' = pcb_addr (proc s (next_term s)) \<and> tss_esp0 s' = stack_top (proc s (next_term s))
    \<and> (\<forall>va. drop_bit 22 va = 32 \<longrightarrow> user_translate s' va = Some (program_phys (proc s (next_term s)) va))
    \<and> (next_term s = terminal_displayed s \<longrightarrow>
         (\<forall>va. drop_bit 12 va = drop_bit 12 MB_132 \<longrightarrow> user_translate s' va = Some (VIDEO_MEM OR take_bit 12 va)))
    \<and> phys s' = phys s \<and> terminal_t s' = terminal_t s \<and> video_mem s' = video_mem s \<and> eflags_IF s'"
proof -
  have n: "next_term s \<noteq> terminal_num s" using next_term_running(2) [OF sched_invD(3) [OF assms(1)]] assms(2,3) by blast
  note t = sched_invD [OF sched_inv_ticked [OF assms(1)], unfolded ticked_num [OF assms(1)]]
  from switched_pages [OF assms(1) n] ticked_pcb(2-4) [OF assms(1) n] t(3,7,9) n show ?thesis
    by (simp add: pit_handler_ticked [OF assms(1)] ticked_num [OF assms(1)] saved_def)
qed

theorem pit_handler_switches_witness:
  "\<exists>s'. pit_handler sample_sched = Some s' \<and> terminal_num s' = 1 \<and> cur_pcb s' = 0x7FC000"
proof -
  have "next_term sample_sched = 1" by (simp add: next_term_def)
  with pit_handler_switches [OF sched_inv_sample, of 1] show ?thesis by (auto simp: pcb_addr_def)
qed

text \<open>
  Claim C5. The scheduler is fair: in a run of any length, of timer interrupts and of steps of the processes that
  have the processor, the handler always completes, and of any three consecutive ticks one gives the
  processor to each terminal that has a process.
\<close>

theorem scheduler_is_fair:
  assumes "sched_inv s" and "turns s ns t" and "running s i"
  shows "(\<exists>u. pit_handler t = Some u) \<and> (3 \<le> length ns \<longrightarrow> i \<in> set (take 3 ns))"
proof -
  note t = turns_inv [OF assms(1,2)]
  have "i \<in> set (take 3 ns)" if "3 \<le> length ns"
  proof (rule ccontr)
    assume "i \<notin> set (take 3 ns)"
    from turns_wait [OF assms that this] until_turn_pos [of i "terminal_num t"] t(2) [OF assms(3)] sched_invD(3) [OF t(1)]
    show False by (auto simp: running_def)
  qed
  then show ?thesis using pit_handler_ticked [OF t(1)] by blast
qed

lemma ticks_sample: "turns sample_sched [1, 0, 1] (ticked (ticked (ticked sample_sched)))"
proof -
  have r: "running (ticked s) = running s" for s :: sched by (rule ext) simp
  have n: "next_term (ticked s) = (if next_term s = 0 then 1 else 0)" if "sched_inv s" "\<forall>i. running s i \<longleftrightarrow> i = 0 \<or> i = 1" for s :: sched
  proof -
    have "next_term s = 0 \<or> next_term s = 1" using next_term_running(1) [OF sched_invD(3) [OF that(1)]] that(2) by blast
    with that(2) show ?thesis by (elim disjE) (simp_all add: next_term_def [of "ticked s"] ticked_num [OF that(1)])
  qed
  let ?s = sample_sched
  note i0 = sched_inv_sample and i1 = sched_inv_ticked [OF sched_inv_sample]
  note i2 = sched_inv_ticked [OF i1]
  have n0: "next_term ?s = 1" by (simp add: next_term_def)
  have n1: "next_term (ticked ?s) = 0" using n [OF i0] n0 by simp
  have n2: "next_term (ticked (ticked ?s)) = 1" using n [OF i1] n1 by simp
  show ?thesis
    using turns.tick [OF turns.tick [OF turns.tick [OF turns.start pit_handler_ticked [OF i0]] pit_handler_ticked [OF i1]] pit_handler_ticked [OF i2]]
    by (simp add: ticked_num i0 i1 i2 n0 n1 n2)
qed

theorem scheduler_is_fair_witness:
  "\<exists>u. pit_handler (ticked (ticked (ticked sample_sched))) = Some u"
  using scheduler_is_fair [OF sched_inv_sample ticks_sample, of 1] by simp


lemma sched_inv_registers: "sched_inv (s\<lparr>reg_esp := a\<rparr>) = sched_inv s"
proof -
  have q: "same_paging (s\<lparr>reg_esp := a\<rparr>) s" by (simp add: same_paging_def)
  have "wf_console (s\<lparr>reg_esp := a\<rparr>) = wf_console s" by (simp add: wf_console_def)
  then show ?thesis by (simp add: sched_inv_def paging_on_same [OF q] translate_same [OF q] running_def term_at_def)
qed


lemma started_runs:
  assumes s: "sched_inv s" and taken: "\<forall>i. running s i \<longrightarrow> process s ! nat (proc s i) \<noteq> 0"
    and n: "1 \<le> n" "n \<le> 5" "process s ! n = 0" "length (process s) = 6" and st: "started (int n) bs w (calling s) s'"
  shows "runs s s'" and "proc s' (terminal_num s) = int n" and "running s' i \<Longrightarrow> process s' ! nat (proc s' i) \<noteq> 0"
proof -
  note inv = sched_invD [OF s]
  let ?m = "terminal_num s" and ?t = "(term_at s (terminal_num s))\<lparr>flag := 1, process_num := int n, total_process := total_process (term_at s (terminal_num s)) + 1\<rparr>"
  have f: "terminal_t s' = (terminal_t s)[nat ?m := ?t]" "terminal_num s' = ?m" "wf_console s'" "paging_on s'" "tss_esp0 s' = stack_top (int n)"
    "process s' = (process s)[n := 1]" "\<forall>a. a \<noteq> pcb_addr (int n) \<longrightarrow> pcb_at s' a = pcb_at s a"
    "\<forall>q. \<not> in_frame (int n + 1) q \<longrightarrow> phys s' q = phys s q" "\<forall>va. drop_bit 22 va = 32 \<longrightarrow> translate s' va = Some (program_phys (int n) va)"
    using st by (simp_all add: started_def calling_def term_at_def)
  have l: "length (terminal_t s) = 3" "0 \<le> ?m" "?m < 3" using inv(1,3) by (auto simp: wf_console_def running_def)
  have t: "term_at s' i = (if i = ?m then ?t else term_at s i)" if "0 \<le> i" for i using f(1) l that by (auto simp: term_at_def eq_nat_nat_iff)
  have r: "running s' i = running s i" for i using t [of i] inv(3) by (cases "i = ?m") (auto simp: running_def)
  have p: "proc s' i = (if i = ?m then int n else proc s i)" if "running s i" for i using t [of i] that by (cases "i = ?m") (auto simp: running_def)
  have ne: "proc s i \<noteq> int n" if "running s i" for i using taken n(3) that by (metis nat_int)
  have "\<forall>i. running s i \<longrightarrow> 1 \<le> proc s' i \<and> proc s' i \<le> 6" using inv(4,5) p n by simp
  moreover have "\<forall>i j. running s i \<and> running s j \<and> proc s' i = proc s' j \<longrightarrow> i = j" by (metis p ne inv(6))
  ultimately have "sched_inv s'"
    unfolding sched_inv_def r f(2) p [OF inv(3)] using f(3-5,9) inv(3) by simp
  moreover have "others_kept s s'"
    unfolding others_kept_def r
  proof (intro allI impI conjI)
    fix i q assume i: "running s i \<and> i \<noteq> ?m"
    then show "running s i" "proc s' i = proc s i" using p by simp_all
    have "pcb_addr (proc s i) \<noteq> pcb_addr (int n)" using pcb_addr_inj [of "proc s i" "int n"] inv(4,5) ne i n by auto
    then show "pcb_at s' (pcb_addr (proc s i)) = pcb_at s (pcb_addr (proc s i))" using f(7) by blast
    show "phys s' q = phys s q" if "in_frame (proc s i + 1) q" using f(8) ne i that by (auto simp: in_frame_def)
  qed
  ultimately show "runs s s'" using f(2) by (simp add: runs_def)
  show "proc s' ?m = int n" using p [OF inv(3)] by simp
  show "process s' ! nat (proc s' i) \<noteq> 0" if "running s' i"
    using that taken n inv(4,5) p unfolding r f(6) by (auto simp: nth_list_update)
qed

text \<open>
  Claim C28. Starting a program is a step that the other terminals survive: under the invariant of the scheduler, when the
  process table marks the processes in front as taken, \<open>execute\<close> starts the new program in front of the running
  terminal, the invariant and the marks hold again, and the processes of the other terminals keep their entries,
  control blocks and program pages.
\<close>

theorem execute_under_scheduler:
  assumes "sched_inv s" and "\<forall>i. running s i \<longrightarrow> process s ! nat (proc s i) \<noteq> 0"
    and "kernel_mapped s" and "length (process s) = 6"
    and "n \<in> {1..5}" and "process s ! n = 0" and "\<forall>j \<in> {1..<n}. process s ! j \<noteq> 0"
    and "cstr_at command xs" and "length (first_word (after_word xs)) < 128"
    and "finds_file s (first_word xs) inode bs" and "take 4 bs = exe_magic_number" and "28 \<le> length bs" and "length bs \<le> 0x3B8000"
    and "wf_pcb (pcb_at s (pcb_addr (int n)))" and "length (fst junk) = 4" and "length (snd junk) = 4"
  shows "\<exists>e s'. execute junk (Some command) s = Some (Enter_user e, s') \<and> runs s s' \<and> proc s' (terminal_num s) = int n
    \<and> (\<forall>i. running s' i \<longrightarrow> process s' ! nat (proc s' i) \<noteq> 0)"
proof -
  note inv = sched_invD [OF assms(1)]
  from execute_runs [OF inv(1) assms(3-16)] obtain e s' where
    x: "execute junk (Some command) s = Some (Enter_user e, s')" and st: "started (int n) bs (first_word (after_word xs)) (calling s) s'" by blast
  show ?thesis using x started_runs [OF assms(1,2) _ _ assms(6,4) st] assms(5) by auto
qed

lemma sample_sched_file:
  "kernel_mapped sample_sched" "finds_file sample_sched (lit ''shell'') 0 shell_file"
proof -
  let ?k = "sample_kbd \<lparr>terminal_t_at = 0x420000\<rparr>"
  have i: "same_image sample_sched ?k" by (simp add: same_image_def same_mem_def same_paging_def sample_sched_def)
  have q: "same_paging sample_sched ?k" by (simp add: same_paging_def sample_sched_def)
  have "kernel_mapped ?k" "finds_file ?k (lit ''shell'') 0 shell_file"
    by (simp_all add: sample_kbd_def shell_mapped shell_found)
  then show "kernel_mapped sample_sched" "finds_file sample_sched (lit ''shell'') 0 shell_file"
    using finds_file_same [OF i] by (simp_all add: kernel_mapped_def translate_same [OF q] paging_on_same [OF q])
qed

theorem execute_under_scheduler_witness:
  "\<exists>e s'. execute (replicate 4 0, replicate 4 0) (Some (arr (lit ''shell hi'' @ [0]))) sample_sched = Some (Enter_user e, s')
    \<and> runs sample_sched s' \<and> proc s' 0 = 3"
proof -
  have "\<exists>e s'. execute (replicate 4 0, replicate 4 0) (Some (arr (lit ''shell hi'' @ [0]))) sample_sched = Some (Enter_user e, s')
    \<and> runs sample_sched s' \<and> proc s' (terminal_num sample_sched) = int 3
    \<and> (\<forall>i. running s' i \<longrightarrow> process s' ! nat (proc s' i) \<noteq> 0)"
    by (rule execute_under_scheduler [OF sched_inv_sample _ sample_sched_file(1) _ _ _ _ cstr_shell_hi, where inode = 0 and bs = shell_file])
       (use sample_sched_file(2) wf_pcb_shell in \<open>auto simp: words_shell_hi shell_file_facts length_hi nth_Cons'\<close>)
  then show ?thesis by auto
qed

lemma take_bit_add_u32: "take_bit 12 (a + b :: u32) = take_bit 12 (take_bit 12 a + take_bit 12 b)"
  by transfer (simp add: take_bit_add)

text \<open>
  Claim C30. The video page of a background program: its page at 132 MB is mapped to the page frame in which the saved
  screen of its terminal starts, so a write at offset \<open>k\<close> reaches byte \<open>k\<close> of the saved screen only if that buffer is
  page aligned; of the three buffers, which lie 4160 bytes apart, at most one can be.
\<close>

theorem background_video_page:
  assumes "sched_inv s" and "pit_handler s = Some s'" and "terminal_num s' \<noteq> terminal_num s" and "terminal_num s' \<noteq> terminal_displayed s"
  shows "(\<forall>va. drop_bit 12 va = drop_bit 12 MB_132 \<longrightarrow>
      user_translate s' va = Some ((video_memory_at (terminal_num s') s AND 0xFFFFF000) OR take_bit 12 va))
    \<and> (\<forall>i j. {i, j} \<subseteq> {0, 1, 2} \<and> take_bit 12 (video_memory_at i s) = 0 \<and> take_bit 12 (video_memory_at j s) = 0 \<longrightarrow> i = j)"
proof -
  have s': "s' = ticked s" using assms(2) by (simp add: pit_handler_ticked [OF assms(1)])
  have n: "terminal_num s' = next_term s" by (simp add: s' ticked_num [OF assms(1)])
  have d: "take_bit 12 (a + 4160) \<noteq> 0 \<and> take_bit 12 (a + 8320) \<noteq> 0" if "take_bit 12 a = 0" for a :: u32
  proof -
    have "take_bit 12 (a + b) = take_bit 12 b" for b using that take_bit_add_u32 [of a b] by simp
    moreover have "take_bit 12 (4160 :: u32) \<noteq> 0" "take_bit 12 (8320 :: u32) \<noteq> 0" by code_simp+
    ultimately show ?thesis by metis
  qed
  have e: "i = j" if "i \<in> {0, 1, 2}" "j \<in> {0, 1, 2}" "take_bit 12 (video_memory_at i s) = 0" "take_bit 12 (video_memory_at j s) = 0" for i j
    using that d [of "terminal_t_at s"] d [of "terminal_t_at s + 4160"] by (auto simp: video_memory_at_def add.commute)
  have "\<forall>i j. {i, j} \<subseteq> {0, 1, 2} \<and> take_bit 12 (video_memory_at i s) = 0 \<and> take_bit 12 (video_memory_at j s) = 0 \<longrightarrow> i = j"
    by (intro allI impI e) (elim conjE, simp)+
  moreover have "user_translate s' va = Some ((video_memory_at (terminal_num s') s AND 0xFFFFF000) OR take_bit 12 va)"
    if "drop_bit 12 va = drop_bit 12 MB_132" for va
    using switched_pages(3) [OF assms(1) _ _ that] assms(3,4) unfolding n by (simp only: s' simp_thms not_False_eq_True)
  ultimately show ?thesis by blast
qed

theorem background_video_page_witness:
  "user_translate (ticked sample_sched) (MB_132 + 5) = Some 0x421005 \<and> video_memory_at 1 sample_sched = 0x421040"
proof -
  have n: "terminal_num (ticked sample_sched) = 1" by (simp add: ticked_num [OF sched_inv_sample] next_term_def)
  then have "user_translate (ticked sample_sched) (MB_132 + 5)
      = Some ((video_memory_at 1 sample_sched AND 0xFFFFF000) OR take_bit 12 (MB_132 + 5))"
    using background_video_page [OF sched_inv_sample pit_handler_ticked [OF sched_inv_sample], THEN conjunct1, rule_format, of "MB_132 + 5"] by simp
  then show ?thesis by (simp add: video_memory_at_def)
qed

end
