(* ===== verification/Idt.thy ===== *)
theory Idt
  imports Pit
begin

text \<open>
  The interrupt descriptor table and the handlers of the processor's exceptions, student-distrib/idt.c and the
  descriptor format of x86_desc.h, with the system call entry of handler_in_asbly.S.

  The addresses of the assembly entry points are chosen by the linker: a function \<open>addr\<close> from their names.
\<close>

abbreviation (input) NUM_VEC :: nat where "NUM_VEC \<equiv> 256"
abbreviation (input) IDT_SYSCALL :: nat where "IDT_SYSCALL \<equiv> 0x80"
abbreviation (input) KERNEL_CS :: u16 where "KERNEL_CS \<equiv> 0x0010"

section \<open>The descriptor table\<close>

datatype entry_point =
    ITR_DE | ITR_DB | ITR_NMI | ITR_BP | ITR_OF | ITR_BR | ITR_UD | ITR_NM | ITR_DF | ITR_CSO | ITR_TS | ITR_NP | ITR_SS
  | ITR_GP | ITR_PF | ITR_RES1 | ITR_MF | ITR_AC | ITR_MC | ITR_XF | Entry_EXC_RES2
  | ITR_IRQ0 | ITR_IRQ1 | ITR_IRQ2 | ITR_IRQ3 | ITR_IRQ4 | ITR_IRQ5 | ITR_IRQ6 | ITR_IRQ7 | ITR_IRQ8 | ITR_IRQ9
  | ITR_IRQA | ITR_IRQB | ITR_IRQC | ITR_IRQD | ITR_IRQE | ITR_IRQF | ITR_SYS

record idt_desc_t =
  offset_15_00 :: u16
  seg_selector :: u16
  reserved4 :: u8
  reserved3 :: "1 word"
  reserved2 :: "1 word"
  reserved1 :: "1 word"
  size_bit :: "1 word"
  reserved0 :: "1 word"
  dpl :: "2 word"
  present :: "1 word"
  offset_31_16 :: u16

record machine = sched +
  idt :: "idt_desc_t list"
  idt_loaded :: bool

definition SET_IDT_ENTRY :: "u32 \<Rightarrow> idt_desc_t \<Rightarrow> idt_desc_t" where
  "SET_IDT_ENTRY handler str = str\<lparr>offset_31_16 := ucast (drop_bit 16 (handler AND 0xFFFF0000)), offset_15_00 := ucast (handler AND 0xFFFF)\<rparr>"

text \<open>The settings that the first loop gives to every descriptor.\<close>

definition idt_settings :: "nat \<Rightarrow> idt_desc_t \<Rightarrow> idt_desc_t" where
  "idt_settings i d = (let
     d = d\<lparr>seg_selector := KERNEL_CS, reserved4 := 0, reserved3 := 1, reserved2 := 1, reserved1 := 1, size_bit := 1,
           reserved0 := 0, dpl := 0, present := 1\<rparr>;
     d = (if i \<ge> 32 then d\<lparr>reserved3 := 0\<rparr> else d)
     in if i = IDT_SYSCALL then d\<lparr>dpl := 3, reserved3 := 1\<rparr> else d)"

definition idt_upd :: "int \<Rightarrow> (idt_desc_t \<Rightarrow> idt_desc_t) \<Rightarrow> idt_desc_t list \<Rightarrow> idt_desc_t list option" where
  "idt_upd i f t = do { d \<leftarrow> aget t i; aset t i (f d) }"

text \<open>A sequence of \<open>SET_IDT_ENTRY\<close> statements.\<close>

primrec set_entries :: "(entry_point \<Rightarrow> u32) \<Rightarrow> (int \<times> entry_point) list \<Rightarrow> idt_desc_t list \<Rightarrow> idt_desc_t list option" where
  "set_entries addr [] t = Some t"
| "set_entries addr (e # es) t = do {
     t \<leftarrow> idt_upd (fst e) (SET_IDT_ENTRY (addr (snd e))) t;
     set_entries addr es t
   }"

definition exception_entries :: "(int \<times> entry_point) list" where
  "exception_entries =
     [(0, ITR_DE), (1, ITR_DB), (2, ITR_NMI), (3, ITR_BP), (4, ITR_OF), (5, ITR_BR), (6, ITR_UD), (7, ITR_NM), (8, ITR_DF),
      (9, ITR_CSO), (10, ITR_TS), (11, ITR_NP), (12, ITR_SS), (13, ITR_GP), (14, ITR_PF), (15, ITR_RES1), (16, ITR_MF),
      (17, ITR_AC), (18, ITR_MC), (19, ITR_XF)]"

definition irq_entries :: "(int \<times> entry_point) list" where
  "irq_entries =
     [(0x20, ITR_IRQ0), (0x21, ITR_IRQ1), (0x22, ITR_IRQ2), (0x23, ITR_IRQ3), (0x24, ITR_IRQ4), (0x25, ITR_IRQ5),
      (0x26, ITR_IRQ6), (0x27, ITR_IRQ7), (0x28, ITR_IRQ8), (0x29, ITR_IRQ9), (0x2A, ITR_IRQA), (0x2B, ITR_IRQB),
      (0x2C, ITR_IRQC), (0x2D, ITR_IRQD), (0x2E, ITR_IRQE), (0x2F, ITR_IRQF)]"

definition idt_init :: "(entry_point \<Rightarrow> u32) \<Rightarrow> 'a machine_scheme \<Rightarrow> 'a machine_scheme option" where
  "idt_init addr s = do {
     t \<leftarrow> for_range 0 NUM_VEC (\<lambda>i. idt_upd (int i) (idt_settings i)) (idt s);
     t \<leftarrow> set_entries addr exception_entries t;
     t \<leftarrow> for_range 20 32 (\<lambda>i. idt_upd (int i) (SET_IDT_ENTRY (addr Entry_EXC_RES2))) t;
     t \<leftarrow> set_entries addr irq_entries t;
     t \<leftarrow> idt_upd 0x80 (SET_IDT_ENTRY (addr ITR_SYS)) t;
     s \<leftarrow> init_syscall (s\<lparr>idt := t\<rparr>);
     Some (s\<lparr>idt_loaded := True\<rparr>)
   }"

section \<open>Exceptions\<close>

text \<open>The body of the handlers: \<open>clear(); printf(message); halt(256);\<close>.\<close>

type_synonym 'a handler = "u8 list \<times> u8 list \<Rightarrow> 'a kernel_scheme \<Rightarrow> (control \<times> 'a kernel_scheme) option"

definition exception :: "string \<Rightarrow> 'a handler" where
  "exception message junk s = do {
     s \<leftarrow> clear s;
     (n, s) \<leftarrow> printf (\<lambda>_ _. None) message [] s;
     halt junk 256 s
   }"

definition EXC_DE :: "'a handler" where
  "EXC_DE = exception ''Divide Error''"

definition EXC_DB :: "'a handler" where
  "EXC_DB = exception ''Reserved''"

definition EXC_NMI :: "'a handler" where
  "EXC_NMI = exception ''NMI''"

definition EXC_BP :: "'a handler" where
  "EXC_BP = exception ''Breakpoint''"

definition EXC_OF :: "'a handler" where
  "EXC_OF = exception ''Overflow''"

definition EXC_BR :: "'a handler" where
  "EXC_BR = exception ''BOUND Range Exceeded''"

definition EXC_UD :: "'a handler" where
  "EXC_UD = exception ''Undefined Opcode''"

definition EXC_NM :: "'a handler" where
  "EXC_NM = exception ''No Math Coprocessor''"

definition EXC_DF :: "'a handler" where
  "EXC_DF = exception ''Double Fault''"

definition EXC_CSO :: "'a handler" where
  "EXC_CSO = exception ''Coprocessor Segment Overrun''"

definition EXC_TS :: "'a handler" where
  "EXC_TS = exception ''Invalid TSS''"

definition EXC_NP :: "'a handler" where
  "EXC_NP = exception ''Segment Not Present''"

definition EXC_SS :: "'a handler" where
  "EXC_SS = exception ''Stack-Segment Fault''"

definition EXC_GP :: "'a handler" where
  "EXC_GP = exception ''General Protection''"

text \<open>The page fault handler leaves the screen as it is.\<close>

definition EXC_PF :: "'a handler" where
  "EXC_PF junk s = do {
     (n, s) \<leftarrow> printf (\<lambda>_ _. None) (''Page Fault'' @ [CHR 0x0A]) [] s;
     halt junk 256 s
   }"

definition EXC_RES1 :: "'a handler" where
  "EXC_RES1 = exception ''reserved 1''"

definition EXC_MF :: "'a handler" where
  "EXC_MF = exception ''Math Fault''"

definition EXC_AC :: "'a handler" where
  "EXC_AC = exception ''Alignment Check''"

definition EXC_MC :: "'a handler" where
  "EXC_MC = exception ''Machine Check''"

definition EXC_XF :: "'a handler" where
  "EXC_XF = exception ''Floating-Point Exception''"

definition EXC_RES2 :: "'a handler" where
  "EXC_RES2 = exception ''reserved 2''"

lemmas EXC_defs = EXC_DE_def EXC_DB_def EXC_NMI_def EXC_BP_def EXC_OF_def EXC_BR_def EXC_UD_def EXC_NM_def EXC_DF_def
  EXC_CSO_def EXC_TS_def EXC_NP_def EXC_SS_def EXC_GP_def EXC_RES1_def EXC_MF_def EXC_AC_def EXC_MC_def EXC_XF_def EXC_RES2_def

section \<open>System calls\<close>

text \<open>
  \<open>ITR_SYS\<close>: the number in \<open>eax\<close> is checked (signed) against 1 and 8, the registers \<open>ebx\<close>, \<open>ecx\<close>, \<open>edx\<close> are the three
  arguments, and the call goes through \<open>syscall_jumptable\<close>. \<open>cmos\<close> is the byte that a clock driver reads
  and \<open>evs\<close> the interrupts that arrive while the call waits.
\<close>

definition cstr_arg :: "'a vm_scheme \<Rightarrow> u32 \<Rightarrow> cstr option" where
  "cstr_arg s a = (if a = 0 then None else Some (ptr s a))"

definition with_result :: "(int \<times> 's) option \<Rightarrow> (control \<times> 's) option" where
  "with_result r = map_option (\<lambda>(x, s). (Return x, s)) r"

definition syscall ::
  "u8 list \<times> u8 list \<Rightarrow> u8 \<Rightarrow> 'a interrupts \<Rightarrow> u32 \<Rightarrow> u32 \<Rightarrow> u32 \<Rightarrow> syscall_fn \<Rightarrow> 'a kernel_scheme \<Rightarrow> (control \<times> 'a kernel_scheme) option" where
  "syscall junk cmos evs ebx ecx edx f s = (case f of
      Sys_halt \<Rightarrow> halt junk ebx s
    | Sys_execute \<Rightarrow> execute junk (cstr_arg s ebx) s
    | Sys_read \<Rightarrow> with_result (map_option (\<lambda>(r, s, es). (r, s)) (sys_read evs (sint ebx) ecx (sint edx) s))
    | Sys_write \<Rightarrow> with_result (sys_write cmos (sint ebx) ecx (sint edx) s)
    | Sys_open \<Rightarrow> with_result (sys_open cmos ebx s)
    | Sys_close \<Rightarrow> with_result (sys_close (sint ebx) s)
    | Sys_getargs \<Rightarrow> with_result (getargs ebx (sint ecx) s)
    | Sys_vidmap \<Rightarrow> with_result (vidmap ebx s))"

definition ITR_SYS_entry ::
  "u8 list \<times> u8 list \<Rightarrow> u8 \<Rightarrow> 'a interrupts \<Rightarrow> u32 \<Rightarrow> u32 \<Rightarrow> u32 \<Rightarrow> u32 \<Rightarrow> 'a kernel_scheme \<Rightarrow> (control \<times> 'a kernel_scheme) option" where
  "ITR_SYS_entry junk cmos evs eax ebx ecx edx s =
     (if sint eax < 1 \<or> sint eax > 8 then Some (Return (-1), s)
      else do {
        f \<leftarrow> aget (syscall_jumptable s) (sint eax);
        f \<leftarrow> f;
        syscall junk cmos evs ebx ecx edx f s
      })"

section \<open>The gates\<close>

text \<open>
  What the processor reads in a descriptor: whether it is present, the privilege it takes to raise it by software,
  whether it is a trap gate (which leaves the interrupt flag alone) or an interrupt gate (which clears it), the code
  segment, and the address of the handler.
\<close>

datatype gate = Gate (gate_trap: bool) (gate_level: nat) (gate_segment: u16) (gate_target: u32)

definition gate_of :: "idt_desc_t \<Rightarrow> gate option" where
  "gate_of d = (if present d = 1 \<and> reserved0 d = 0 \<and> size_bit d = 1 \<and> reserved1 d = 1 \<and> reserved2 d = 1
     then Some (Gate (reserved3 d = 1) (unat (dpl d)) (seg_selector d) (push_bit 16 (ucast (offset_31_16 d)) OR ucast (offset_15_00 d)))
     else None)"

lemma offset_halves: "push_bit 16 (ucast (ucast (drop_bit 16 (a AND 0xFFFF0000)) :: u16)) OR ucast (ucast (a AND 0xFFFF) :: u16) = (a :: u32)"
proof (rule bit_word_eqI)
  fix n assume n: "n < LENGTH(32)"
  have m: "(0xFFFF0000 :: u32) = NOT (mask 16)" "(0xFFFF :: u32) = mask 16" by code_simp+
  show "bit (push_bit 16 (ucast (ucast (drop_bit 16 (a AND 0xFFFF0000)) :: u16)) OR ucast (ucast (a AND 0xFFFF) :: u16) :: u32) n = bit a n"
    unfolding m using n by (cases "n < 16") (auto simp: bit_simps)
qed

lemma gate_of_entry: "gate_of (SET_IDT_ENTRY a (idt_settings i d))
   = Some (Gate (i < 32 \<or> i = IDT_SYSCALL) (if i = IDT_SYSCALL then 3 else 0) KERNEL_CS a)"
  using offset_halves [of a] by (simp add: gate_of_def SET_IDT_ENTRY_def idt_settings_def Let_def)

text \<open>A descriptor whose handler is never set points at address \<open>a\<close> that its offset fields held.\<close>

lemma gate_of_settings: "gate_of (idt_settings i d)
   = Some (Gate (i < 32 \<or> i = IDT_SYSCALL) (if i = IDT_SYSCALL then 3 else 0) KERNEL_CS (push_bit 16 (ucast (offset_31_16 d)) OR ucast (offset_15_00 d)))"
  by (simp add: gate_of_def idt_settings_def Let_def)

text \<open>The entry that serves a vector.\<close>

definition entry_of :: "nat \<Rightarrow> entry_point option" where
  "entry_of v = (if 20 \<le> v \<and> v < 32 then Some Entry_EXC_RES2 else if v = 0x80 then Some ITR_SYS
     else map_of (exception_entries @ irq_entries) (int v))"

lemma idt_loop:
  assumes "i \<le> j" and "j \<le> length t"
  shows "for_range i j (\<lambda>k. idt_upd (int k) (f k)) t = Some (map (\<lambda>k. if i \<le> k \<and> k < j then f k (t ! k) else t ! k) [0..<length t])"
proof -
  have "\<exists>t'. for_range i j (\<lambda>k. idt_upd (int k) (f k)) t = Some t' \<and> length t' = length t
      \<and> (\<forall>k < length t. t' ! k = (if i \<le> k \<and> k < j then f k (t ! k) else t ! k))"
    by (rule for_range_total [where I = "\<lambda>n t'. length t' = length t \<and> (\<forall>k < length t. t' ! k = (if i \<le> k \<and> k < n then f k (t ! k) else t ! k))"])
       (use assms in \<open>auto simp: idt_upd_def aget_def aset_def nth_list_update less_Suc_eq\<close>)
  then obtain t' where "for_range i j (\<lambda>k. idt_upd (int k) (f k)) t = Some t'" "length t' = length t"
    "\<forall>k < length t. t' ! k = (if i \<le> k \<and> k < j then f k (t ! k) else t ! k)" by blast
  then show ?thesis by (auto intro!: nth_equalityI)
qed

lemma set_entries_at:
  assumes "\<forall>e \<in> set es. 0 \<le> fst e \<and> fst e < int (length t)" and "distinct (map fst es)"
  shows "\<exists>t'. set_entries addr es t = Some t' \<and> length t' = length t
    \<and> (\<forall>k < length t. t' ! k = (case map_of es (int k) of None \<Rightarrow> t ! k | Some e \<Rightarrow> SET_IDT_ENTRY (addr e) (t ! k)))"
  using assms
proof (induction es arbitrary: t)
  case (Cons e es)
  let ?t = "t[nat (fst e) := SET_IDT_ENTRY (addr (snd e)) (t ! nat (fst e))]"
  have u: "idt_upd (fst e) (SET_IDT_ENTRY (addr (snd e))) t = Some ?t" using Cons.prems(1) by (simp add: idt_upd_def aget_def aset_def)
  from Cons.IH [of ?t] Cons.prems obtain t' where
    t': "set_entries addr es ?t = Some t'" "length t' = length t"
      "\<forall>k < length t. t' ! k = (case map_of es (int k) of None \<Rightarrow> ?t ! k | Some e \<Rightarrow> SET_IDT_ENTRY (addr e) (?t ! k))" by auto
  have "map_of es (fst e) = None" using Cons.prems(2) by (simp add: map_of_eq_None_iff)
  then have "t' ! k = (case map_of (e # es) (int k) of None \<Rightarrow> t ! k | Some e \<Rightarrow> SET_IDT_ENTRY (addr e) (t ! k))" if "k < length t" for k
    using t'(3) that Cons.prems(1) by (cases "int k = fst e") (auto simp: nth_list_update split: option.splits)
  with t'(1,2) u show ?case by auto
qed simp

lemma entries_in_range:
  "\<forall>e \<in> set exception_entries. 0 \<le> fst e \<and> fst e < 256" "distinct (map fst exception_entries)"
  "\<forall>e \<in> set irq_entries. 0 \<le> fst e \<and> fst e < 256" "distinct (map fst irq_entries)"
  "\<forall>e \<in> set exception_entries. fst e < 20" "\<forall>e \<in> set irq_entries. 32 \<le> fst e \<and> fst e < 48"
  by (simp_all add: exception_entries_def irq_entries_def)

lemma idt_init_table:
  assumes "length (idt s) = 256"
  shows "\<exists>t. idt_init addr s = do { s \<leftarrow> init_syscall (s\<lparr>idt := t\<rparr>); Some (s\<lparr>idt_loaded := True\<rparr>) } \<and> length t = 256
    \<and> (\<forall>v < 256. t ! v = (case entry_of v of None \<Rightarrow> idt_settings v (idt s ! v) | Some e \<Rightarrow> SET_IDT_ENTRY (addr e) (idt_settings v (idt s ! v))))"
proof -
  let ?base = "map (\<lambda>k. if 0 \<le> k \<and> k < 256 then idt_settings k (idt s ! k) else idt s ! k) [0..<length (idt s)]"
  have t0: "for_range 0 256 (\<lambda>i. idt_upd (int i) (idt_settings i)) (idt s) = Some ?base" by (rule idt_loop) (simp_all add: assms)
  have l0: "length ?base = 256" using assms by simp
  from set_entries_at [of exception_entries ?base addr] entries_in_range(1,2) obtain t1 where
    t1: "set_entries addr exception_entries ?base = Some t1" "length t1 = 256"
      "\<forall>k < 256. t1 ! k = (case map_of exception_entries (int k) of None \<Rightarrow> ?base ! k | Some e \<Rightarrow> SET_IDT_ENTRY (addr e) (?base ! k))"
    unfolding l0 by auto
  let ?r = "SET_IDT_ENTRY (addr Entry_EXC_RES2)"
  let ?mid = "map (\<lambda>k. if 20 \<le> k \<and> k < 32 then ?r (t1 ! k) else t1 ! k) [0..<length t1]"
  have t2: "for_range 20 32 (\<lambda>i. idt_upd (int i) ?r) t1 = Some ?mid" by (rule idt_loop) (simp_all add: t1)
  have l2: "length ?mid = 256" using t1(2) by simp
  from set_entries_at [of irq_entries ?mid addr] entries_in_range(3,4) obtain t3 where
    t3: "set_entries addr irq_entries ?mid = Some t3" "length t3 = 256"
      "\<forall>k < 256. t3 ! k = (case map_of irq_entries (int k) of None \<Rightarrow> ?mid ! k | Some e \<Rightarrow> SET_IDT_ENTRY (addr e) (?mid ! k))"
    unfolding l2 by auto
  let ?t = "t3[0x80 := SET_IDT_ENTRY (addr ITR_SYS) (t3 ! 0x80)]"
  have t4: "idt_upd 0x80 (SET_IDT_ENTRY (addr ITR_SYS)) t3 = Some ?t" using t3(2) by (simp add: idt_upd_def aget_def aset_def)
  have run: "idt_init addr s = do { s \<leftarrow> init_syscall (s\<lparr>idt := ?t\<rparr>); Some (s\<lparr>idt_loaded := True\<rparr>) }"
    by (simp only: idt_init_def t0 t1(1) t2 t3(1) t4 bind.bind_lunit)
  have e: "map_of exception_entries (int v) = None" if "20 \<le> v" for v using entries_in_range(5) that by (fastforce simp: map_of_eq_None_iff)
  have q: "map_of irq_entries (int v) = None" if "v < 32 \<or> 48 \<le> v" for v using entries_in_range(6) that by (fastforce simp: map_of_eq_None_iff)
  have "?t ! v = (case entry_of v of None \<Rightarrow> idt_settings v (idt s ! v) | Some e \<Rightarrow> SET_IDT_ENTRY (addr e) (idt_settings v (idt s ! v)))"
    if v: "v < 256" for v
  proof -
    have a0: "?base ! v = idt_settings v (idt s ! v)" using v assms by simp
    note a1 = t1(3) [rule_format, OF v, unfolded a0]
    have a2: "?mid ! v = (if 20 \<le> v \<and> v < 32 then ?r (t1 ! v) else t1 ! v)" using v t1(2) by simp
    note a3 = t3(3) [rule_format, OF v, unfolded a2]
    consider "v < 20" | "20 \<le> v" "v < 32" | "32 \<le> v" "v \<noteq> 0x80" | "v = 0x80" by linarith
    then show ?thesis
    proof cases
      case 1
      then show ?thesis using a1 a3 q [of v] by (simp add: entry_of_def map_add_def split: option.splits)
    next
      case 2
      then show ?thesis using a1 a3 q [of v] e [of v] by (simp add: entry_of_def)
    next
      case 3
      then show ?thesis using a1 a3 e [of v] by (simp add: entry_of_def map_add_def split: option.splits)
    next
      case 4
      then show ?thesis using a1 a3 e [of v] q [of v] t3(2) by (simp add: entry_of_def)
    qed
  qed
  then show ?thesis using run t3(2) by (intro exI [of _ ?t]) simp
qed

text \<open>The table of system calls as \<open>init_syscall\<close> leaves it.\<close>

definition syscalls :: "syscall_fn option list" where
  "syscalls = [None, Some Sys_halt, Some Sys_execute, Some Sys_read, Some Sys_write, Some Sys_open, Some Sys_close,
     Some Sys_getargs, Some Sys_vidmap]"

lemma init_syscall_table:
  assumes "length (syscall_jumptable s) = 10" and "length (process s) = 6"
  shows "init_syscall s = Some (s\<lparr>syscall_jumptable := syscalls @ [syscall_jumptable s ! 9], process := (process s)[0 := 1]\<rparr>)"
proof -
  have "syscall_jumptable s = map (\<lambda>i. syscall_jumptable s ! i) [0..<10]" using assms(1) by (metis map_nth)
  then obtain a0 a1 a2 a3 a4 a5 a6 a7 a8 a9 where t: "syscall_jumptable s = [a0, a1, a2, a3, a4, a5, a6, a7, a8, a9]"
    by (simp add: upt_rec)
  show ?thesis using assms(2) by (simp add: init_syscall_def t syscalls_def aset_def)
qed


definition blank_desc :: idt_desc_t where
  "blank_desc = \<lparr>offset_15_00 = 0, seg_selector = 0, reserved4 = 0, reserved3 = 0, reserved2 = 0, reserved1 = 0, size_bit = 0,
     reserved0 = 0, dpl = 0, present = 0, offset_31_16 = 0\<rparr>"

definition sample_machine :: machine where
  "sample_machine = (child_kernel \<lparr>CTRL_PRESS = 0, CAPSLOCK_PRESS = 0, SHIFT_PRESS = 0, ALT_PRESS = 0, terminal_t_at = 0x420000,
     idt = replicate 256 blank_desc, idt_loaded = False\<rparr>)\<lparr>syscall_jumptable := replicate 10 None\<rparr>"

lemma sample_machine_fields [simp]: "idt sample_machine = replicate 256 blank_desc" "length (process sample_machine) = 6"
  "syscall_jumptable sample_machine = replicate 10 None"
  by (simp_all add: sample_machine_def child_kernel_def)
    (simp add: shell_kernel_def sample_user_def sample_kernel_def sample_fs_def blank_rtc_def blank_defs)


section \<open>An exception ends the program\<close>

text \<open>The running process has a parent to return to.\<close>

definition has_parent :: "'a kernel_scheme \<Rightarrow> bool" where
  "has_parent s \<longleftrightarrow> wf_console s \<and> paging_on s \<and> length (process s) = 6 \<and> wf_fds s \<and> closable s
     \<and> process_num (term_at s (terminal_num s)) \<in> {0..5} \<and> total_process (term_at s (terminal_num s)) \<noteq> 1
     \<and> process_num_prev (pcb_at s (cur_pcb s)) \<in> {1..6}"

lemma has_parent_outputs:
  assumes "has_parent s" and o: "outputs S s s1"
  shows "has_parent s1" "pcb_at s1 = pcb_at s" "cur_pcb s1 = cur_pcb s"
proof -
  have fr: "console_frame s1 = console_frame s" and w: "wf_console s1" using o by (simp_all add: outputs_def)
  note f = arg_cong [OF fr, of pcb_at] arg_cong [OF fr, of tss_esp0] arg_cong [OF fr, of process]
  show p: "pcb_at s1 = pcb_at s" and c: "cur_pcb s1 = cur_pcb s" using f by (simp_all add: console_frame_def cur_pcb_def)
  have "fd_of s1 = fd_of s" by (rule ext) (simp add: fd_of_def p c)
  then have d: "wf_fds s1 = wf_fds s" "closable s1 = closable s" by (simp_all add: wf_fds_def closable_def p c)
  note n = console_frameD [OF fr] and m = wf_console_num [of s]
  have "same_input (term_at s1 (terminal_num s)) ((term_at s (terminal_num s))\<lparr>video_memory := video_memory (term_at s1 (terminal_num s))\<rparr>)"
    using o m assms(1) by (auto simp: outputs_def has_parent_def)
  then show "has_parent s1" using assms(1) w d f n(1) paging_on_same [OF n(3)]
    by (simp add: has_parent_def p c same_input_def console_frame_def)
qed

lemma printf_text:
  assumes "wf_console s" and "\<forall>c \<in> set (lit msg). c \<noteq> 0 \<and> c \<noteq> 37 \<and> c \<noteq> BS"
  shows "\<exists>s'. printf str msg [] s = Some (int (length msg), s') \<and> outputs (spec_text (lit msg) (shown s (terminal_num s))) s s'"
proof -
  have a: "concat (map item_args (map Chr xs)) = []" "concat (map item_fmt (map Chr xs)) = xs" "concat (map (item_text (\<lambda>_. [])) (map Chr xs)) = xs" for xs
    by (induction xs) simp_all
  have "\<forall>it \<in> set (map Chr (lit msg)). item_ok str (\<lambda>_. []) it" using assms(2) by (auto simp: item_ok_def conv_chars)
  from prints_format [OF this assms(1)] show ?thesis unfolding a by (auto simp: printf_def prints_def)
qed

text \<open>The handlers with their messages, and whether they clear the screen first.\<close>

definition exceptions :: "('a handler \<times> bool \<times> string) list" where
  "exceptions =
     [(EXC_DE, True, ''Divide Error''), (EXC_DB, True, ''Reserved''), (EXC_NMI, True, ''NMI''), (EXC_BP, True, ''Breakpoint''),
      (EXC_OF, True, ''Overflow''), (EXC_BR, True, ''BOUND Range Exceeded''), (EXC_UD, True, ''Undefined Opcode''),
      (EXC_NM, True, ''No Math Coprocessor''), (EXC_DF, True, ''Double Fault''), (EXC_CSO, True, ''Coprocessor Segment Overrun''),
      (EXC_TS, True, ''Invalid TSS''), (EXC_NP, True, ''Segment Not Present''), (EXC_SS, True, ''Stack-Segment Fault''),
      (EXC_GP, True, ''General Protection''), (EXC_PF, False, ''Page Fault'' @ [CHR 0x0A]), (EXC_RES1, True, ''reserved 1''),
      (EXC_MF, True, ''Math Fault''), (EXC_AC, True, ''Alignment Check''), (EXC_MC, True, ''Machine Check''),
      (EXC_XF, True, ''Floating-Point Exception''), (EXC_RES2, True, ''reserved 2'')]"

lemma exceptions_bodies:
  assumes "(f, clears, msg) \<in> set exceptions"
  shows "f junk s = do { s \<leftarrow> (if clears then clear s else Some s); (n, s) \<leftarrow> printf (\<lambda>_ _. None) msg [] s; halt junk 256 s }"
  using assms by (auto simp: exceptions_def EXC_defs EXC_PF_def exception_def)

lemma exceptions_messages: "list_all (\<lambda>(clears, msg). list_all (\<lambda>c. c \<noteq> 0 \<and> c \<noteq> 37 \<and> c \<noteq> 8) (lit msg)) (map snd exceptions)"
  by (simp add: exceptions_def lit_def byte_of_def)

lemma exception_message:
  assumes "(f, clears, msg) \<in> set exceptions"
  shows "\<forall>c \<in> set (lit msg). c \<noteq> 0 \<and> c \<noteq> 37 \<and> c \<noteq> 8"
  using exceptions_messages assms unfolding list_all_iff by fastforce

text \<open>
  Claim C22. An exception ends the program and not the system: for each of the 21 handlers, when the running process has a parent,
  the handler clears the screen of its terminal (all but the one for page faults, which goes on below what is there),
  shows its message, and returns from the parent's call of \<open>execute\<close> with status 256, with the process gone and the
  parent's page, stack and terminal in place.
\<close>

theorem exception_ends_program:
  assumes "has_parent s" and "(f, clears, msg) \<in> set exceptions"
  shows "\<exists>s1 s'. f junk s = Some (Return_to_parent 256 (esp_prev (pcb_at s (cur_pcb s))) (ebp_prev (pcb_at s (cur_pcb s))), s')
    \<and> outputs (spec_text (lit msg) (if clears then blank_screen else shown s (terminal_num s))) s s1 \<and> back_in_parent s1 s'
    \<and> shown s' (terminal_num s) = spec_text (lit msg) (if clears then blank_screen else shown s (terminal_num s))"
proof -
  have w: "wf_console s" using assms(1) by (simp add: has_parent_def)
  let ?S = "if clears then blank_screen else shown s (terminal_num s)"
  obtain s0 where s0: "(if clears then clear s else Some s) = Some s0" "outputs ?S s s0"
    using clear_outputs [OF w] outputs_refl [OF w] by (cases clears) auto
  note o0 = outputs_wf [OF s0(2)]
  from printf_text [of s0 msg "\<lambda>_ _. None"] exception_message [OF assms(2)] o0 obtain s1 where
    s1: "printf (\<lambda>_ _. None) msg [] s0 = Some (int (length msg), s1)" "outputs (spec_text (lit msg) ?S) s0 s1" by auto
  have o: "outputs (spec_text (lit msg) ?S) s s1" using outputs_trans [OF s0(2) s1(2)] .
  note hp = has_parent_outputs [OF assms(1) o]
  from halt_runs [of s1 junk 256] hp(1) obtain s' where
    h: "halt junk 256 s1 = Some (Return_to_parent 256 (esp_prev (pcb_at s (cur_pcb s))) (ebp_prev (pcb_at s (cur_pcb s))), s')" "back_in_parent s1 s'"
    by (auto simp: has_parent_def hp(2,3))
  have "shown s' (terminal_num s) = shown s1 (terminal_num s)"
    using h(2) outputs_wf [OF o] by (auto simp: back_in_parent_def shown_def screen_buf_def term_at_def screen_of_def Let_def wf_console_def nth_list_update)
  then show ?thesis using h o s0(1) s1(1) outputs_wf [OF o] by (auto simp: exceptions_bodies [OF assms(2)])
qed

lemma has_parent_child: "has_parent (child_kernel x)"
proof -
  have "wf_console (child_kernel x)" by (simp add: child_kernel_def wf_console_def wf_terminal_def wf_cursor_def blank_terminal_def)
  moreover have "paging_on (child_kernel x)"
    using shell_mapped [of x] paging_on_same [of "child_kernel x" "shell_kernel x"] by (simp add: kernel_mapped_def child_kernel_def same_paging_def)
  moreover have "closable (child_kernel x) \<and> wf_fds (child_kernel x)" by (rule closable_pcb) (simp add: child_kernel_def)
  ultimately show ?thesis by (simp add: has_parent_def) (simp add: child_kernel_def term_at_def)
qed

theorem exception_ends_program_witness:
  "\<exists>s'. EXC_DE (replicate 4 0, replicate 4 0) (child_kernel ()) = Some (Return_to_parent 256 0x7FFF00 0x7FFF40, s')
    \<and> shown s' 0 = spec_text (lit ''Divide Error'') blank_screen"
proof -
  have "(EXC_DE, True, ''Divide Error'') \<in> set (exceptions :: (unit handler \<times> bool \<times> string) list)" by (simp add: exceptions_def)
  from exception_ends_program [OF has_parent_child this, of "(replicate 4 0, replicate 4 0)"] show ?thesis
    by (auto simp: child_kernel_def)
qed

section \<open>A system call\<close>

text \<open>
  A program's \<open>int $0x80\<close> with 4 in \<open>eax\<close> and 1 in \<open>ebx\<close> writes to its terminal: with the table that \<open>init_syscall\<close>
  leaves, an open standard output and a readable buffer of bytes without backspaces, the call returns their number, and the terminal
  shows exactly these bytes after what it showed; the other terminals and all line buffers are as before. A number
  outside 1 to 8 (as a signed word) returns -1 and does nothing.
\<close>

theorem system_call_write:
  assumes "take 9 (syscall_jumptable s) = syscalls" and "wf_console s" and "wf_fds s" and "fops (fd_of s 1) = Some Term_ops"
    and "load_bytes s ecx (length xs) = Some xs" and "BS \<notin> set xs" and "ecx \<noteq> 0" and "length xs < 2 ^ 31"
  shows "(\<exists>s'. ITR_SYS_entry junk cmos evs 4 1 ecx (of_nat (length xs)) s = Some (Return (int (length xs)), s')
      \<and> shown s' (terminal_num s) = spec_text xs (shown s (terminal_num s))
      \<and> (\<forall>j. 0 \<le> j \<and> j < 3 \<longrightarrow> (j \<noteq> terminal_num s \<longrightarrow> shown s' j = shown s j) \<and> pending_keys (term_at s' j) = pending_keys (term_at s j)))
    \<and> (sint eax < 1 \<or> sint eax > 8 \<longrightarrow> ITR_SYS_entry junk cmos evs eax ebx ecx edx s = Some (Return (-1), s))"
proof -
  have "length (take 9 (syscall_jumptable s)) = 9" using assms(1) by (simp add: syscalls_def)
  then have l: "9 \<le> length (syscall_jumptable s)" by simp
  have "take 9 (syscall_jumptable s) ! 4 = Some Sys_write" by (simp add: assms(1) syscalls_def)
  then have f: "aget (syscall_jumptable s) 4 = Some (Some Sys_write)" using l by (simp add: aget_def)
  have n: "sint (of_nat (length xs) :: u32) = int (length xs)" using assms(8) by (simp add: signed_of_nat signed_take_bit_int_eq_self_iff)
  have g: "get_fd 1 s = Some (fd_of s 1)" using assms(3) by (simp add: get_fd_in)
  obtain s' where s': "terminal_write ecx (int (length xs)) s = Some (int (length xs), s')"
    "shown s' (terminal_num s) = spec_text xs (shown s (terminal_num s))"
    "\<forall>j. 0 \<le> j \<and> j < 3 \<longrightarrow> (j \<noteq> terminal_num s \<longrightarrow> shown s' j = shown s j) \<and> pending_keys (term_at s' j) = pending_keys (term_at s j)"
    using terminal_write_shows [OF assms(2,5,6)] by blast
  have "sys_write cmos 1 ecx (int (length xs)) s = Some (int (length xs), s')"
    using s'(1) assms(4,7) by (simp add: sys_write_def g fops_write_def)
  then have "ITR_SYS_entry junk cmos evs 4 1 ecx (of_nat (length xs)) s = Some (Return (int (length xs)), s')"
    by (simp add: ITR_SYS_entry_def f syscall_def with_result_def n)
  then show ?thesis using s'(2,3) by (auto simp: ITR_SYS_entry_def)
qed

theorem system_call_write_witness:
  "\<exists>s'. ITR_SYS_entry ([], []) 0 [] 4 1 0x410040 5 ((child_kernel ())\<lparr>syscall_jumptable := syscalls\<rparr>) = Some (Return 5, s')
    \<and> shown s' 0 = spec_text (lit ''shell'') (shown ((child_kernel ())\<lparr>syscall_jumptable := syscalls\<rparr>) 0)"
proof -
  let ?s = "(child_kernel ())\<lparr>syscall_jumptable := syscalls\<rparr>"
  note p = has_parent_child [of "()", unfolded has_parent_def]
  have w: "wf_console ?s" "wf_fds ?s" using p by (simp_all add: wf_console_def wf_fds_def cur_pcb_def)
  have q: "same_mem ?s (shell_kernel ())" by (simp add: same_mem_def same_paging_def child_kernel_def)
  have k: "kernel_page a \<Longrightarrow> load8 ?s a = Some (shell_phys a)" for a using same_mem_reads [OF q] load8_shell [of a "()"] by simp
  have l: "length (lit ''shell'') = 5" by simp
  have d: "load_bytes ?s 0x410040 (length (lit ''shell'')) = Some (lit ''shell'')"
    by (simp add: load_bytes_def upt_rec k kernel_page_def shell_phys_def shell_image_def lit_def byte_of_def)
  have f: "fops (fd_of ?s 1) = Some Term_ops" by (simp add: fd_of_def child_kernel_def shell_pcb_def term_fd_def)
  have t: "take 9 (syscall_jumptable ?s) = syscalls" by (simp add: syscalls_def)
  have b: "BS \<notin> set (lit ''shell'')" by (simp add: lit_def byte_of_def)
  have n: "terminal_num ?s = 0" by (simp add: child_kernel_def)
  from system_call_write [OF t w f d b, THEN conjunct1, of "([], [])" 0 "[]"] show ?thesis unfolding l n by auto
qed

end
