(* ===== verification/Memops.thy ===== *)
theory Memops
  imports Descriptors
begin

text \<open>
  The memory routines of student-distrib/lib.c (\<open>memset\<close>, \<open>memset_word\<close>, \<open>memset_dword\<close>, \<open>memcpy\<close>, \<open>memmove\<close>), which are
  inline assembly, and \<open>test_interrupts\<close>. The loops are written instruction by instruction over the registers they
  use; \<open>rep\<close> prefixes count down \<open>ecx\<close>. A store to an address that is not mapped faults (\<open>None\<close>).
\<close>

section \<open>String instructions\<close>

definition store16 :: "'a vm_scheme \<Rightarrow> u32 \<Rightarrow> u16 \<Rightarrow> 'a vm_scheme option" where
  "store16 s a w = do {
     s \<leftarrow> store8 s a (ucast w);
     store8 s (a + 1) (ucast (drop_bit 8 w))
   }"

primrec rep_stosl :: "nat \<Rightarrow> u32 \<Rightarrow> u32 \<Rightarrow> 'a vm_scheme \<Rightarrow> (u32 \<times> 'a vm_scheme) option" where
  "rep_stosl 0 eax edi s = Some (edi, s)"
| "rep_stosl (Suc ecx) eax edi s = do {
     s \<leftarrow> store32 s edi eax;
     rep_stosl ecx eax (edi + 4) s
   }"

primrec rep_stosw :: "nat \<Rightarrow> u16 \<Rightarrow> u32 \<Rightarrow> 'a vm_scheme \<Rightarrow> (u32 \<times> 'a vm_scheme) option" where
  "rep_stosw 0 ax edi s = Some (edi, s)"
| "rep_stosw (Suc ecx) ax edi s = do {
     s \<leftarrow> store16 s edi ax;
     rep_stosw ecx ax (edi + 2) s
   }"

primrec rep_movsl :: "nat \<Rightarrow> u32 \<Rightarrow> u32 \<Rightarrow> 'a vm_scheme \<Rightarrow> (u32 \<times> u32 \<times> 'a vm_scheme) option" where
  "rep_movsl 0 esi edi s = Some (esi, edi, s)"
| "rep_movsl (Suc ecx) esi edi s = do {
     w \<leftarrow> load32 s esi;
     s \<leftarrow> store32 s edi w;
     rep_movsl ecx (esi + 4) (edi + 4) s
   }"

text \<open>\<open>rep movsb\<close> upwards, or downwards when the direction flag is set.\<close>

primrec rep_movsb :: "bool \<Rightarrow> nat \<Rightarrow> u32 \<Rightarrow> u32 \<Rightarrow> 'a vm_scheme \<Rightarrow> 'a vm_scheme option" where
  "rep_movsb df 0 esi edi s = Some s"
| "rep_movsb df (Suc ecx) esi edi s = do {
     b \<leftarrow> load8 s esi;
     s \<leftarrow> store8 s edi b;
     rep_movsb df ecx (if df then esi - 1 else esi + 1) (if df then edi - 1 else edi + 1) s
   }"

section \<open>Operations\<close>

text \<open>The loop at \<open>.memset_top\<close>, up to the first aligned address.\<close>

function memset_top :: "u8 \<Rightarrow> u32 \<Rightarrow> u32 \<Rightarrow> 'a vm_scheme \<Rightarrow> (u32 \<times> u32 \<times> 'a vm_scheme) option" where
  "memset_top al edi ecx s =
     (if ecx = 0 then Some (edi, ecx, s)
      else if edi AND 3 = 0 then Some (edi, ecx, s)
      else do {
        s \<leftarrow> store8 s edi al;
        memset_top al (edi + 1) (ecx - 1) s
      })"
  by pat_completeness auto
termination
  by (relation "measure (\<lambda>(al, edi, ecx, s). unat ecx)") (auto simp: unat_minus_one unat_gt_0 intro!: diff_less)

primrec memset_bottom :: "u8 \<Rightarrow> u32 \<Rightarrow> nat \<Rightarrow> 'a vm_scheme \<Rightarrow> 'a vm_scheme option" where
  "memset_bottom al edi 0 s = Some s"
| "memset_bottom al edi (Suc edx) s = do {
     s \<leftarrow> store8 s edi al;
     memset_bottom al (edi + 1) edx s
   }"

definition memset :: "u32 \<Rightarrow> u32 \<Rightarrow> u32 \<Rightarrow> 'a vm_scheme \<Rightarrow> (u32 \<times> 'a vm_scheme) option" where
  "memset str c n s = do {
     let c = c AND 0xFF;
     let eax = push_bit 24 c OR push_bit 16 c OR push_bit 8 c OR c;
     (edi, ecx, s) \<leftarrow> memset_top (ucast eax) str n s;
     if ecx = 0 then Some (str, s)
     else do {
       let edx = ecx AND 3;
       (edi, s) \<leftarrow> rep_stosl (unat (drop_bit 2 ecx)) eax edi s;
       s \<leftarrow> memset_bottom (ucast eax) edi (unat edx) s;
       Some (str, s)
     }
   }"

definition memset_word :: "u32 \<Rightarrow> u32 \<Rightarrow> u32 \<Rightarrow> 'a vm_scheme \<Rightarrow> (u32 \<times> 'a vm_scheme) option" where
  "memset_word str c n s = do {
     (edi, s) \<leftarrow> rep_stosw (unat n) (ucast c) str s;
     Some (str, s)
   }"

definition memset_dword :: "u32 \<Rightarrow> u32 \<Rightarrow> u32 \<Rightarrow> 'a vm_scheme \<Rightarrow> (u32 \<times> 'a vm_scheme) option" where
  "memset_dword str c n s = do {
     (edi, s) \<leftarrow> rep_stosl (unat n) c str s;
     Some (str, s)
   }"

function memcpy_top :: "u32 \<Rightarrow> u32 \<Rightarrow> u32 \<Rightarrow> 'a vm_scheme \<Rightarrow> (u32 \<times> u32 \<times> u32 \<times> 'a vm_scheme) option" where
  "memcpy_top esi edi ecx s =
     (if ecx = 0 then Some (esi, edi, ecx, s)
      else if edi AND 3 = 0 then Some (esi, edi, ecx, s)
      else do {
        al \<leftarrow> load8 s esi;
        s \<leftarrow> store8 s edi al;
        memcpy_top (esi + 1) (edi + 1) (ecx - 1) s
      })"
  by pat_completeness auto
termination
  by (relation "measure (\<lambda>(esi, edi, ecx, s). unat ecx)") (auto simp: unat_minus_one unat_gt_0 intro!: diff_less)

primrec memcpy_bottom :: "u32 \<Rightarrow> u32 \<Rightarrow> nat \<Rightarrow> 'a vm_scheme \<Rightarrow> 'a vm_scheme option" where
  "memcpy_bottom esi edi 0 s = Some s"
| "memcpy_bottom esi edi (Suc edx) s = do {
     al \<leftarrow> load8 s esi;
     s \<leftarrow> store8 s edi al;
     memcpy_bottom (esi + 1) (edi + 1) edx s
   }"

definition memcpy :: "u32 \<Rightarrow> u32 \<Rightarrow> u32 \<Rightarrow> 'a vm_scheme \<Rightarrow> (u32 \<times> 'a vm_scheme) option" where
  "memcpy dest src n s = do {
     (esi, edi, ecx, s) \<leftarrow> memcpy_top src dest n s;
     if ecx = 0 then Some (dest, s)
     else do {
       let edx = ecx AND 3;
       (esi, edi, s) \<leftarrow> rep_movsl (unat (drop_bit 2 ecx)) esi edi s;
       s \<leftarrow> memcpy_bottom esi edi (unat edx) s;
       Some (dest, s)
     }
   }"

text \<open>\<open>memmove\<close>; the result says in which state the direction flag is left.\<close>

definition memmove :: "u32 \<Rightarrow> u32 \<Rightarrow> u32 \<Rightarrow> 'a vm_scheme \<Rightarrow> (u32 \<times> bool \<times> 'a vm_scheme) option" where
  "memmove dest src n s =
     (if src \<ge> dest then do {
        s \<leftarrow> rep_movsb False (unat n) src dest s;
        Some (dest, False, s)
      } else do {
        s \<leftarrow> rep_movsb True (unat n) (src + n - 1) (dest + n - 1) s;
        Some (dest, True, s)
      })"

definition test_interrupts :: "'a console_scheme \<Rightarrow> 'a console_scheme option" where
  "test_interrupts s = do {
     v \<leftarrow> for_range 0 (nat (NUM_ROWS * NUM_COLS)) (\<lambda>i v. do {
            b \<leftarrow> aget v (int (2 * i));
            aset v (int (2 * i)) (b + 1)
          }) (video_mem s);
     Some (s\<lparr>video_mem := v\<rparr>)
   }"

declare memset_top.simps [simp del] memcpy_top.simps [simp del]

section \<open>Filling\<close>

text \<open>The reference: one store per byte, upwards.\<close>

primrec byte_fill :: "u8 \<Rightarrow> u32 \<Rightarrow> nat \<Rightarrow> 'a vm_scheme \<Rightarrow> 'a vm_scheme option" where
  "byte_fill b a 0 s = Some s"
| "byte_fill b a (Suc n) s = do { s \<leftarrow> store8 s a b; byte_fill b (a + 1) n s }"

lemma byte_fill_add: "byte_fill b a (m + n) s = do { s \<leftarrow> byte_fill b a m s; byte_fill b (a + of_nat m) n s }"
  by (induction m arbitrary: a s) (simp_all add: ac_simps Option.bind_assoc)

lemma byte_fill_4: "byte_fill b a 4 s = do { s \<leftarrow> store8 s a b; s \<leftarrow> store8 s (a + 1) b; s \<leftarrow> store8 s (a + 2) b; store8 s (a + 3) b }"
  by (simp add: numeral_eq_Suc add.assoc)

lemma memset_bottom_fill: "memset_bottom b a n s = byte_fill b a n s"
  by (induction n arbitrary: a s) simp_all

lemma memset_top_fill:
  "do { (edi', ecx', s') \<leftarrow> memset_top b edi ecx s; byte_fill b edi' (unat ecx') s' } = byte_fill b edi (unat ecx) s"
proof (induction b edi ecx s rule: memset_top.induct)
  case (1 b edi ecx s)
  show ?case
  proof (cases "ecx = 0 \<or> edi AND 3 = 0")
    case True
    then show ?thesis by (subst memset_top.simps) auto
  next
    case False
    then have "unat ecx = Suc (unat (ecx - 1))" by (simp add: unat_minus_one unat_gt_0)
    with False 1 show ?thesis by (subst memset_top.simps) (simp add: Option.bind_assoc cong: Option.bind_cong)
  qed
qed

lemma spread_byte:
  fixes c :: u32
  defines "w \<equiv> push_bit 24 (c AND 0xFF) OR push_bit 16 (c AND 0xFF) OR push_bit 8 (c AND 0xFF) OR (c AND 0xFF)"
  shows "ucast w = (ucast c :: u8)" "ucast (drop_bit 8 w) = (ucast c :: u8)" "ucast (drop_bit 16 w) = (ucast c :: u8)" "ucast (drop_bit 24 w) = (ucast c :: u8)"
proof -
  have m: "(0xFF :: u32) = mask 8" by code_simp
  show "ucast w = (ucast c :: u8)" "ucast (drop_bit 8 w) = (ucast c :: u8)" "ucast (drop_bit 16 w) = (ucast c :: u8)" "ucast (drop_bit 24 w) = (ucast c :: u8)"
    unfolding w_def m by (rule bit_word_eqI; auto simp: bit_simps)+
qed

lemma rep_stosl_fill:
  assumes "ucast w = b" "ucast (drop_bit 8 w) = b" "ucast (drop_bit 16 w) = b" "ucast (drop_bit 24 w) = b"
  shows "rep_stosl n w a s = map_option (\<lambda>s. (a + 4 * of_nat n, s)) (byte_fill b a (4 * n) s)"
proof (induction n arbitrary: a s)
  case (Suc n)
  have "byte_fill b a 4 s = store32 s a w" by (simp only: byte_fill_4 store32_def assms)
  then have "byte_fill b a (4 * Suc n) s = do { s \<leftarrow> store32 s a w; byte_fill b (a + 4) (4 * n) s }"
    using byte_fill_add [of b a 4 "4 * n" s] by simp
  then show ?case by (cases "store32 s a w") (simp_all add: Suc.IH algebra_simps)
qed simp

lemma quarters: "unat (n :: u32) = 4 * unat (drop_bit 2 n) + unat (n AND 3)"
proof -
  have "n AND 3 = take_bit 2 n" by (simp add: take_bit_eq_mask mask_eq_exp_minus_1)
  then have "unat (n AND 3) = take_bit 2 (unat n)" using unsigned_take_bit_eq [of 2 n] by (simp only:)
  also have "\<dots> = unat n mod 4" using take_bit_eq_mod [of 2 "unat n"] by simp
  finally have "unat (n AND 3) = unat n mod 4" .
  moreover have "unat (drop_bit 2 n) = unat n div 4" using unat_drop_bit_eq [of 2 n] by (simp add: drop_bit_eq_div)
  ultimately show ?thesis by simp
qed

section \<open>Copying\<close>

text \<open>A set of addresses over which memory behaves like an array: all mapped, no two to the same byte.\<close>

definition flat :: "'a vm_scheme \<Rightarrow> u32 set \<Rightarrow> bool" where
  "flat s A \<longleftrightarrow> (\<forall>a \<in> A. translate s a \<noteq> None) \<and> inj_on (translate s) A"

lemma flat_load: "flat s A \<Longrightarrow> a \<in> A \<Longrightarrow> \<exists>b. load8 s a = Some b"
  by (auto simp: flat_def load8_def)

lemma flat_store:
  assumes "flat s A" and "a \<in> A"
  obtains s' where "store8 s a b = Some s'" "flat s' A" "\<And>a'. a' \<in> A \<Longrightarrow> load8 s' a' = (if a' = a then Some b else load8 s a')"
proof -
  from assms obtain p where "translate s a = Some p" by (auto simp: flat_def)
  then have st: "store8 s a b = Some (s\<lparr>phys := (phys s)(p := b)\<rparr>)" by (rule store8_Some)
  note l = load8_store8 [OF st] and tr = translate_store8 [OF st]
  have "flat (s\<lparr>phys := (phys s)(p := b)\<rparr>) A" using assms(1) tr by (simp add: flat_def inj_on_def)
  moreover have "load8 (s\<lparr>phys := (phys s)(p := b)\<rparr>) a' = (if a' = a then Some b else load8 s a')" if "a' \<in> A" for a'
    using l [of a'] assms that by (auto simp: flat_def inj_on_def)
  ultimately show ?thesis using that st by blast
qed

definition span :: "u32 \<Rightarrow> nat \<Rightarrow> u32 set" where
  "span a n = (\<lambda>i. a + of_nat i) ` {..<n}"

lemma unat_offset: "unat a + n < 2 ^ 32 \<Longrightarrow> unat (a + of_nat n :: u32) = unat a + n"
  by (simp add: unat_word_ariths(1) unat_of_nat)

lemma span_iff:
  assumes "unat a + n < 2 ^ 32"
  shows "x \<in> span a n \<longleftrightarrow> unat a \<le> unat x \<and> unat x < unat a + n"
proof
  assume "x \<in> span a n"
  then obtain i where "i < n" "x = a + of_nat i" by (auto simp: span_def)
  with unat_offset [of a i] assms show "unat a \<le> unat x \<and> unat x < unat a + n" by simp
next
  assume x: "unat a \<le> unat x \<and> unat x < unat a + n"
  then have "unat (a + of_nat (unat x - unat a)) = unat x" using unat_offset [of a "unat x - unat a"] assms by simp
  then have "x = a + of_nat (unat x - unat a)" by (metis unsigned_word_eqI)
  moreover have "unat x - unat a < n" using x by linarith
  ultimately show "x \<in> span a n" by (auto simp: span_def)
qed

text \<open>A copy upwards that overwrites no byte before it is read.\<close>

definition upward :: "u32 set \<Rightarrow> u32 \<Rightarrow> u32 \<Rightarrow> nat \<Rightarrow> bool" where
  "upward A d r n \<longleftrightarrow> span d n \<subseteq> A \<and> span r n \<subseteq> A \<and> unat d + n < 2 ^ 32 \<and> unat r + n < 2 ^ 32
     \<and> (unat d \<le> unat r \<or> unat r + n \<le> unat d)"

lemma span_add: "span a m \<subseteq> span a (m + n)" "span (a + of_nat m) n \<subseteq> span a (m + n)"
proof -
  show "span a m \<subseteq> span a (m + n)" by (auto simp: span_def)
  show "span (a + of_nat m) n \<subseteq> span a (m + n)"
  proof
    fix x assume "x \<in> span (a + of_nat m) n"
    then obtain i where "i < n" "x = a + of_nat (m + i)" by (auto simp: span_def add.assoc)
    then show "x \<in> span a (m + n)" unfolding span_def by (intro image_eqI [of _ _ "m + i"]) simp_all
  qed
qed

lemma upwardD:
  assumes "upward A d r n"
  shows "span d n \<subseteq> A" "span r n \<subseteq> A" "unat d + n < 2 ^ 32" "unat r + n < 2 ^ 32" "unat d \<le> unat r \<or> unat r + n \<le> unat d"
  using assms by (simp_all add: upward_def)

lemma upward_add:
  assumes "upward A d r (m + n)"
  shows "upward A d r m" and "upward A (d + of_nat m) (r + of_nat m) n"
proof -
  note u = upwardD [OF assms]
  show "upward A d r m"
    unfolding upward_def using u(3-5) subset_trans [OF span_add(1) u(1)] subset_trans [OF span_add(1) u(2)] by auto
  have un: "unat (d + of_nat m) = unat d + m" "unat (r + of_nat m) = unat r + m" using unat_offset [of d m] unat_offset [of r m] u(3,4) by simp_all
  show "upward A (d + of_nat m) (r + of_nat m) n"
    unfolding upward_def un using u(3-5) subset_trans [OF span_add(2) u(1)] subset_trans [OF span_add(2) u(2)] by auto
qed

lemma upward_ne:
  assumes "upward A d r n" and "i < j" and "j < n"
  shows "r + of_nat j \<noteq> d + of_nat i"
proof
  assume e: "r + of_nat j = d + of_nat i"
  note u = upwardD [OF assms(1)]
  have "unat (r + of_nat j) = unat r + j" "unat (d + of_nat i) = unat d + i"
    using unat_offset [of r j] unat_offset [of d i] u(3,4) assms(2,3) by simp_all
  with e have "unat r + j = unat d + i" by simp
  with u(5) assms(2,3) show False by linarith
qed

lemma upward_in: "upward A d r n \<Longrightarrow> i < n \<Longrightarrow> d + of_nat i \<in> A \<and> r + of_nat i \<in> A"
  by (auto simp: upward_def span_def)

text \<open>The contents after \<open>n\<close> bytes have gone from \<open>r\<close> to \<open>d\<close>.\<close>

definition moved :: "u32 set \<Rightarrow> u32 \<Rightarrow> u32 \<Rightarrow> nat \<Rightarrow> 'a vm_scheme \<Rightarrow> 'a vm_scheme \<Rightarrow> bool" where
  "moved A d r n s s' \<longleftrightarrow> flat s' A
     \<and> (\<forall>a \<in> A. load8 s' a = (if unat d \<le> unat a \<and> unat a < unat d + n then load8 s (r + (a - d)) else load8 s a))"

lemma unat_shift:
  assumes "unat r + n < 2 ^ 32" and "unat d \<le> unat a" and "unat a < unat d + n"
  shows "unat (r + (a - d) :: u32) = unat r + (unat a - unat d)"
proof -
  have "unat (a - d) = unat a - unat d" using assms(2) by (simp add: unat_sub word_le_nat_alt)
  moreover have "of_nat (unat (a - d)) = a - d" by simp
  ultimately have "a - d = of_nat (unat a - unat d)" by (simp only:)
  then show ?thesis using unat_offset [of r "unat a - unat d"] assms by simp
qed

lemma copy_up:
  assumes "flat s A" and "upward A d r n"
  shows "\<exists>s'. rep_movsb False n r d s = Some s' \<and> moved A d r n s s'"
  using assms
proof (induction n arbitrary: d r s)
  case 0
  then show ?case by (auto simp: moved_def)
next
  case (Suc n)
  note u = upwardD [OF Suc.prems(2)]
  have i: "d \<in> A" "r \<in> A" using upward_in [OF Suc.prems(2), of 0] by simp_all
  obtain b where b: "load8 s r = Some b" using flat_load [OF Suc.prems(1) i(2)] by blast
  obtain s1 where s1: "store8 s d b = Some s1" "flat s1 A" "\<And>a'. a' \<in> A \<Longrightarrow> load8 s1 a' = (if a' = d then Some b else load8 s a')"
    using flat_store [OF Suc.prems(1) i(1)] by metis
  have up: "upward A (d + 1) (r + 1) n" using upward_add(2) [of A d r 1 n] Suc.prems(2) by simp
  from Suc.IH [OF s1(2) up] obtain s' where s': "rep_movsb False n (r + 1) (d + 1) s1 = Some s'" "moved A (d + 1) (r + 1) n s1 s'" by blast
  have d1: "unat (d + 1) = Suc (unat d)" using unat_offset [of d 1] u(3) by simp
  have "load8 s' a = (if unat d \<le> unat a \<and> unat a < unat d + Suc n then load8 s (r + (a - d)) else load8 s a)" if a: "a \<in> A" for a
  proof -
    have l: "load8 s' a = (if Suc (unat d) \<le> unat a \<and> unat a < unat d + Suc n then load8 s1 (r + (a - d)) else load8 s1 a)"
      using s'(2) a by (simp add: moved_def d1)
    consider "a = d" | "unat d < unat a" "unat a < unat d + Suc n" | "unat a < unat d \<or> unat d + Suc n \<le> unat a"
      by (metis linorder_neqE_nat not_less unsigned_word_eqI)
    then show ?thesis
    proof cases
      case 2
      then have "unat (r + (a - d)) = unat r + (unat a - unat d)" using unat_shift [OF u(4)] by simp
      moreover from this have "r + (a - d) \<in> A" using u(2,4) span_iff [OF u(4), of "r + (a - d)"] 2 by auto
      moreover have "unat r + (unat a - unat d) \<noteq> unat d" using u(5) 2 by linarith
      then have "r + (a - d) \<noteq> d" using calculation(1) by metis
      ultimately show ?thesis using l 2 s1(3) by simp
    qed (use l s1(3) a b in auto)
  qed
  then have "moved A d r (Suc n) s s'" using s'(2) by (simp add: moved_def)
  then show ?case using b s1(1) s'(1) by simp
qed

lemma copy_down:
  assumes "flat s A" and "span d n \<subseteq> A" and "span r n \<subseteq> A" and "unat d + n < 2 ^ 32" and "unat r < unat d"
  shows "\<exists>s'. rep_movsb True n (r + of_nat n - 1) (d + of_nat n - 1) s = Some s' \<and> moved A d r n s s'"
  using assms
proof (induction n arbitrary: s)
  case 0
  then show ?case by (auto simp: moved_def)
next
  case (Suc n)
  let ?d = "d + of_nat n" and ?r = "r + of_nat n"
  have e: "d + of_nat (Suc n) - 1 = ?d" "r + of_nat (Suc n) - 1 = ?r" by (simp_all add: algebra_simps)
  have i: "?d \<in> A" "?r \<in> A" using Suc.prems(2,3) by (auto simp: span_def)
  have un: "unat ?d = unat d + n" using unat_offset [of d n] Suc.prems(4) by simp
  obtain b where b: "load8 s ?r = Some b" using flat_load [OF Suc.prems(1) i(2)] by blast
  obtain s1 where s1: "store8 s ?d b = Some s1" "flat s1 A" "\<And>a'. a' \<in> A \<Longrightarrow> load8 s1 a' = (if a' = ?d then Some b else load8 s a')"
    using flat_store [OF Suc.prems(1) i(1)] by metis
  have sp: "span d n \<subseteq> A" "span r n \<subseteq> A" using Suc.prems(2,3) span_add(1) [of d n 1] span_add(1) [of r n 1] by auto
  from Suc.IH [OF s1(2) sp _ Suc.prems(5)] Suc.prems(4) obtain s' where
    s': "rep_movsb True n (?r - 1) (?d - 1) s1 = Some s'" "moved A d r n s1 s'" by auto
  have r32: "unat r + n < 2 ^ 32" using Suc.prems(4,5) by linarith
  have "load8 s' a = (if unat d \<le> unat a \<and> unat a < unat d + Suc n then load8 s (r + (a - d)) else load8 s a)" if a: "a \<in> A" for a
  proof -
    have l: "load8 s' a = (if unat d \<le> unat a \<and> unat a < unat d + n then load8 s1 (r + (a - d)) else load8 s1 a)"
      using s'(2) a by (simp add: moved_def)
    consider "a = ?d" | "unat d \<le> unat a" "unat a < unat d + n" | "unat a < unat d \<or> unat d + Suc n \<le> unat a"
      using un by (metis Suc_leI add_Suc_right linorder_neqE_nat not_less unsigned_word_eqI)
    then show ?thesis
    proof cases
      case 1
      then show ?thesis using l s1(3) [OF a] b un by simp
    next
      case 2
      then have x: "unat (r + (a - d)) = unat r + (unat a - unat d)" using unat_shift [OF r32] by simp
      then have "r + (a - d) \<in> A" using sp(2) span_iff [OF r32, of "r + (a - d)"] 2 by auto
      moreover have "r + (a - d) \<noteq> ?d" using x un 2 Suc.prems(5) by (metis add_less_mono le_add_diff_inverse nat_add_left_cancel_less order_less_irrefl)
      ultimately show ?thesis using l 2 s1(3) by simp
    next
      case 3
      then have "a \<noteq> ?d" using un by auto
      then show ?thesis using l s1(3) [OF a] 3 by auto
    qed
  qed
  then have "moved A d r (Suc n) s s'" using s'(2) by (simp add: moved_def)
  then show ?case unfolding e using b s1(1) s'(1) by simp
qed

lemma movsb_add: "rep_movsb False (m + n) esi edi s = do { s \<leftarrow> rep_movsb False m esi edi s; rep_movsb False n (esi + of_nat m) (edi + of_nat m) s }"
  by (induction m arbitrary: esi edi s) (simp_all add: ac_simps Option.bind_assoc cong: Option.bind_cong)

lemma memcpy_bottom_movsb: "memcpy_bottom esi edi n s = rep_movsb False n esi edi s"
  by (induction n arbitrary: esi edi s) simp_all

text \<open>A double word at a time is the same as its four bytes one by one, when no byte is overwritten before it is read.\<close>

lemma movsl_movsb:
  assumes "flat s A" and "upward A d r 4"
  shows "do { w \<leftarrow> load32 s r; store32 s d w } = rep_movsb False 4 r d s"
proof -
  have i: "d \<in> A" "d + 1 \<in> A" "d + 2 \<in> A" "d + 3 \<in> A" "r \<in> A" "r + 1 \<in> A" "r + 2 \<in> A" "r + 3 \<in> A"
    using upward_in [OF assms(2), of 0] upward_in [OF assms(2), of 1] upward_in [OF assms(2), of 2] upward_in [OF assms(2), of 3] by simp_all
  have ne: "r + 1 \<noteq> d" "r + 2 \<noteq> d" "r + 3 \<noteq> d" "r + 2 \<noteq> d + 1" "r + 3 \<noteq> d + 1" "r + 3 \<noteq> d + 2"
    using upward_ne [OF assms(2), of 0 1] upward_ne [OF assms(2), of 0 2] upward_ne [OF assms(2), of 0 3]
      upward_ne [OF assms(2), of 1 2] upward_ne [OF assms(2), of 1 3] upward_ne [OF assms(2), of 2 3] by simp_all
  obtain b0 b1 b2 b3 where b: "load8 s r = Some b0" "load8 s (r + 1) = Some b1" "load8 s (r + 2) = Some b2" "load8 s (r + 3) = Some b3"
    using flat_load [OF assms(1)] i by metis
  obtain s0 where s0: "store8 s d b0 = Some s0" "flat s0 A" "\<And>a'. a' \<in> A \<Longrightarrow> load8 s0 a' = (if a' = d then Some b0 else load8 s a')"
    using flat_store [OF assms(1) i(1)] by metis
  obtain s1 where s1: "store8 s0 (d + 1) b1 = Some s1" "flat s1 A" "\<And>a'. a' \<in> A \<Longrightarrow> load8 s1 a' = (if a' = d + 1 then Some b1 else load8 s0 a')"
    using flat_store [OF s0(2) i(2)] by metis
  obtain s2 where s2: "store8 s1 (d + 2) b2 = Some s2" "\<And>a'. a' \<in> A \<Longrightarrow> load8 s2 a' = (if a' = d + 2 then Some b2 else load8 s1 a')"
    using flat_store [OF s1(2) i(3)] by metis
  have l: "load8 s0 (r + 1) = Some b1" "load8 s1 (r + 2) = Some b2" "load8 s2 (r + 3) = Some b3"
    using s0(3) s1(3) s2(2) i ne b by simp_all
  have "rep_movsb False 4 r d s = store8 s2 (d + 3) b3"
    using b(1) s0(1) s1(1) s2(1) l by (simp add: numeral_eq_Suc add.assoc)
  moreover have "load32 s r = Some (le32 b0 b1 b2 b3)" using b by (simp add: load32_def le32_def)
  moreover have "store32 s d (le32 b0 b1 b2 b3) = store8 s2 (d + 3) b3"
    using le_bytes_le32 [of b0 b1 b2 b3] s0(1) s1(1) s2(1) by (simp add: store32_def le_bytes_def)
  ultimately show ?thesis by simp
qed

lemma rep_movsl_movsb:
  assumes "flat s A" and "upward A d r (4 * n)"
  shows "rep_movsl n r d s = map_option (\<lambda>s. (r + 4 * of_nat n, d + 4 * of_nat n, s)) (rep_movsb False (4 * n) r d s)"
  using assms
proof (induction n arbitrary: d r s)
  case (Suc n)
  have e: "4 * Suc n = 4 + 4 * n" by simp
  note u = upward_add [OF Suc.prems(2) [unfolded e]]
  from copy_up [OF Suc.prems(1) u(1)] obtain s1 where s1: "rep_movsb False 4 r d s = Some s1" "flat s1 A" by (auto simp: moved_def)
  have m: "do { w \<leftarrow> load32 s r; store32 s d w } = Some s1" using movsl_movsb [OF Suc.prems(1) u(1)] s1(1) by simp
  then have "rep_movsl (Suc n) r d s = rep_movsl n (r + 4) (d + 4) s1" by (auto simp: bind_eq_Some_conv)
  also have "\<dots> = map_option (\<lambda>s. (r + 4 + 4 * of_nat n, d + 4 + 4 * of_nat n, s)) (rep_movsb False (4 * n) (r + 4) (d + 4) s1)"
    using Suc.IH [OF s1(2)] u(2) by simp
  also have "rep_movsb False (4 * n) (r + 4) (d + 4) s1 = rep_movsb False (4 * Suc n) r d s"
    unfolding e movsb_add s1(1) by simp
  finally show ?case by (simp add: algebra_simps)
qed simp

definition memcpy_aligned :: "u32 \<Rightarrow> u32 \<Rightarrow> u32 \<Rightarrow> 'a vm_scheme \<Rightarrow> 'a vm_scheme option" where
  "memcpy_aligned esi edi ecx s = (if ecx = 0 then Some s else do {
     (esi, edi, s) \<leftarrow> rep_movsl (unat (drop_bit 2 ecx)) esi edi s;
     memcpy_bottom esi edi (unat (ecx AND 3)) s
   })"

lemma memcpy_aligned_movsb:
  assumes "flat s A" and "upward A edi esi (unat ecx)"
  shows "memcpy_aligned esi edi ecx s = rep_movsb False (unat ecx) esi edi s"
proof (cases "ecx = 0")
  case False
  let ?n = "unat (drop_bit 2 ecx)"
  have u: "upward A edi esi (4 * ?n)" using upward_add(1) [of A edi esi "4 * ?n"] assms(2) quarters [of ecx] by simp
  have "memcpy_aligned esi edi ecx s = do { s \<leftarrow> rep_movsb False (4 * ?n) esi edi s;
      rep_movsb False (unat (ecx AND 3)) (esi + of_nat (4 * ?n)) (edi + of_nat (4 * ?n)) s }"
    using False by (simp add: memcpy_aligned_def rep_movsl_movsb [OF assms(1) u] memcpy_bottom_movsb bind_map_option comp_def)
  also have "\<dots> = rep_movsb False (4 * ?n + unat (ecx AND 3)) esi edi s" by (rule movsb_add [symmetric])
  finally show ?thesis using quarters [of ecx] by simp
qed (simp add: memcpy_aligned_def)

lemma memcpy_top_movsb:
  assumes "flat s A" and "upward A edi esi (unat ecx)"
  shows "do { (esi', edi', ecx', s') \<leftarrow> memcpy_top esi edi ecx s; memcpy_aligned esi' edi' ecx' s' } = rep_movsb False (unat ecx) esi edi s"
  using assms
proof (induction esi edi ecx s rule: memcpy_top.induct)
  case (1 esi edi ecx s)
  show ?case
  proof (cases "ecx = 0 \<or> edi AND 3 = 0")
    case True
    then have "memcpy_top esi edi ecx s = Some (esi, edi, ecx, s)" by (subst memcpy_top.simps) auto
    then show ?thesis using memcpy_aligned_movsb [OF 1(2,3)] by simp
  next
    case False
    then have n: "unat ecx = Suc (unat (ecx - 1))" by (simp add: unat_minus_one unat_gt_0)
    then have u: "upward A edi esi 1" "upward A (edi + 1) (esi + 1) (unat (ecx - 1))" using upward_add [of A edi esi 1 "unat (ecx - 1)"] 1(3) by simp_all
    from copy_up [OF 1(2) u(1)] obtain s1 where s1: "rep_movsb False 1 esi edi s = Some s1" "flat s1 A" by (auto simp: moved_def)
    then obtain b where b: "load8 s esi = Some b" "store8 s edi b = Some s1" by (auto simp: bind_eq_Some_conv)
    have "memcpy_top esi edi ecx s = memcpy_top (esi + 1) (edi + 1) (ecx - 1) s1" using False b by (subst memcpy_top.simps) simp
    then show ?thesis using 1(1) [OF _ _ b s1(2) u(2)] False n b by simp
  qed
qed

lemma memcpy_movsb:
  assumes "flat s A" and "upward A dest src (unat n)"
  shows "memcpy dest src n s = map_option (Pair dest) (rep_movsb False (unat n) src dest s)"
proof -
  have "memcpy dest src n s = map_option (Pair dest) (do { (esi', edi', ecx', s') \<leftarrow> memcpy_top src dest n s; memcpy_aligned esi' edi' ecx' s' })"
    by (cases "memcpy_top src dest n s") (auto simp: memcpy_def memcpy_aligned_def Let_def map_option_bind comp_def case_prod_unfold map_conv_bind_option)
  then show ?thesis using memcpy_top_movsb [OF assms] by simp
qed

lemma moved_bytes:
  assumes "moved A d r n s s'" and "span d n \<subseteq> A" and "unat d + n < 2 ^ 32"
  shows "\<forall>i < n. load8 s' (d + of_nat i) = load8 s (r + of_nat i)" and "\<forall>a \<in> A - span d n. load8 s' a = load8 s a"
proof -
  have "load8 s' (d + of_nat i) = load8 s (r + of_nat i)" if "i < n" for i
  proof -
    have "d + of_nat i \<in> span d n" using that by (auto simp: span_def)
    with assms span_iff [OF assms(3), of "d + of_nat i"] show ?thesis by (auto simp: moved_def)
  qed
  then show "\<forall>i < n. load8 s' (d + of_nat i) = load8 s (r + of_nat i)" by blast
  show "\<forall>a \<in> A - span d n. load8 s' a = load8 s a"
    using assms(1) span_iff [OF assms(3)] by (auto simp: moved_def)
qed

section \<open>Properties of the memory routines\<close>

text \<open>
  Claim C25. The optimised \<open>memset\<close>, which stores single bytes up to an aligned address, then double words, then the remaining bytes, is
  the loop that stores the low byte of \<open>c\<close> at each of the \<open>n\<close> addresses in turn: same memory at the end, same fault when
  one of them is not mapped, for every alignment and length.
\<close>

theorem memset_fills:
  "memset str c n s = map_option (Pair str) (byte_fill (ucast c) str (unat n) s)"
proof -
  let ?w = "push_bit 24 (c AND 0xFF) OR push_bit 16 (c AND 0xFF) OR push_bit 8 (c AND 0xFF) OR (c AND 0xFF)"
  let ?rest = "\<lambda>edi (ecx :: u32) s. if ecx = 0 then Some s else do {
      (edi, s) \<leftarrow> rep_stosl (unat (drop_bit 2 ecx)) ?w edi s; memset_bottom (ucast c) edi (unat (ecx AND 3)) s }"
  have rest: "?rest edi ecx s = byte_fill (ucast c) edi (unat ecx) s" for edi ecx :: u32 and s :: "'a vm_scheme"
  proof (cases "ecx = 0")
    case False
    let ?n = "unat (drop_bit 2 ecx)"
    have "?rest edi ecx s = do { s \<leftarrow> byte_fill (ucast c) edi (4 * ?n) s; byte_fill (ucast c) (edi + of_nat (4 * ?n)) (unat (ecx AND 3)) s }"
      using False unfolding rep_stosl_fill [OF spread_byte] memset_bottom_fill by (simp add: bind_map_option comp_def)
    also have "\<dots> = byte_fill (ucast c) edi (4 * ?n + unat (ecx AND 3)) s" by (rule byte_fill_add [symmetric])
    finally show ?thesis using quarters [of ecx] by simp
  qed simp
  have "memset str c n s = map_option (Pair str) (do { (edi, ecx, s) \<leftarrow> memset_top (ucast c) str n s; ?rest edi ecx s })"
    using spread_byte(1) [of c]
    by (cases "memset_top (ucast c) str n s")
      (auto simp: memset_def Let_def map_option_bind comp_def case_prod_unfold map_conv_bind_option)
  then show ?thesis unfolding rest memset_top_fill .
qed

text \<open>
  \<open>memmove\<close> moves \<open>n\<close> bytes whatever the overlap: on mapped memory in which the two areas behave like parts of one array, every byte
  of the destination ends up with the byte that the source held before, and the rest of the source is unchanged. The
  direction flag is left set exactly when the source lies below the destination.
\<close>

theorem memmove_moves:
  assumes "flat s (span dest (unat n) \<union> span src (unat n))" and "unat dest + unat n < 2 ^ 32" and "unat src + unat n < 2 ^ 32"
  shows "\<exists>s'. memmove dest src n s = Some (dest, src < dest, s')
    \<and> (\<forall>i < unat n. load8 s' (dest + of_nat i) = load8 s (src + of_nat i))
    \<and> (\<forall>a \<in> span src (unat n) - span dest (unat n). load8 s' a = load8 s a)"
proof -
  let ?A = "span dest (unat n) \<union> span src (unat n)"
  have "\<exists>s'. memmove dest src n s = Some (dest, src < dest, s') \<and> moved ?A dest src (unat n) s s'"
  proof (cases "src < dest")
    case True
    then have "unat src < unat dest" by (simp add: word_less_nat_alt)
    from copy_down [OF assms(1) _ _ assms(2) this] obtain s' where
      "rep_movsb True (unat n) (src + n - 1) (dest + n - 1) s = Some s'" "moved ?A dest src (unat n) s s'" by auto
    then show ?thesis using True leD by (auto simp: memmove_def)
  next
    case False
    then have "upward ?A dest src (unat n)" using assms by (auto simp: upward_def word_less_nat_alt)
    from copy_up [OF assms(1) this] False show ?thesis by (auto simp: memmove_def)
  qed
  then obtain s' where s': "memmove dest src n s = Some (dest, src < dest, s')" "moved ?A dest src (unat n) s s'" by blast
  from moved_bytes [OF s'(2) _ assms(2)] s'(1) show ?thesis by auto
qed

text \<open>
  \<open>memcpy\<close> in double words is the byte-by-byte copy, provided that no byte is overwritten before it is read (the areas are apart, or
  the destination begins below the source): every byte of the destination ends up with the byte that the source held before.
\<close>

theorem memcpy_copies:
  assumes "flat s (span dest (unat n) \<union> span src (unat n))" and "unat dest + unat n < 2 ^ 32" and "unat src + unat n < 2 ^ 32"
    and "unat dest \<le> unat src \<or> unat src + unat n \<le> unat dest"
  shows "\<exists>s'. memcpy dest src n s = Some (dest, s') \<and> rep_movsb False (unat n) src dest s = Some s'
    \<and> (\<forall>i < unat n. load8 s' (dest + of_nat i) = load8 s (src + of_nat i))
    \<and> (\<forall>a \<in> span src (unat n) - span dest (unat n). load8 s' a = load8 s a)"
proof -
  let ?A = "span dest (unat n) \<union> span src (unat n)"
  have u: "upward ?A dest src (unat n)" using assms by (auto simp: upward_def)
  from copy_up [OF assms(1) u] obtain s' where s': "rep_movsb False (unat n) src dest s = Some s'" "moved ?A dest src (unat n) s s'" by blast
  from moved_bytes [OF s'(2) _ assms(2)] s'(1) memcpy_movsb [OF assms(1) u] show ?thesis by auto
qed

definition counting_vm :: vm where
  "counting_vm = (blank_vm ())\<lparr>phys := ucast\<rparr>"

lemma counting_translate: "translate counting_vm a = Some a" "load8 counting_vm a = Some (ucast a)"
  by (simp_all add: counting_vm_def load8_def translate_def blank_vm_def)

lemma flat_counting: "flat counting_vm A"
  by (simp add: flat_def inj_on_def counting_translate)

theorem memmove_moves_witness:
  "\<exists>s'. memmove 0x1002 0x1000 4 counting_vm = Some (0x1002, True, s') \<and> load8 s' 0x1005 = Some 3"
proof -
  from memmove_moves [OF flat_counting, of "0x1002" 4 "0x1000"] obtain s' where
    s': "memmove 0x1002 0x1000 4 counting_vm = Some (0x1002, True, s')"
      "\<forall>i < 4. load8 s' (0x1002 + of_nat i) = load8 counting_vm (0x1000 + of_nat i)" by auto
  from s'(2) [rule_format, of 3] s'(1) show ?thesis by (simp add: counting_translate)
qed

theorem memcpy_copies_witness:
  "\<exists>s'. memcpy 0x1001 0x1002 9 counting_vm = Some (0x1001, s') \<and> load8 s' 0x1006 = Some 7"
proof -
  from memcpy_copies [OF flat_counting, of "0x1001" 9 "0x1002"] obtain s' where
    s': "memcpy 0x1001 0x1002 9 counting_vm = Some (0x1001, s')"
      "\<forall>i < 9. load8 s' (0x1001 + of_nat i) = load8 counting_vm (0x1002 + of_nat i)" by auto
  from s'(2) [rule_format, of 5] s'(1) show ?thesis by (simp add: counting_translate)
qed

section \<open>Incrementing the screen\<close>

text \<open>\<open>test_interrupts\<close> adds one to every character of the screen and keeps the attributes.\<close>

lemma test_interrupts_increments:
  assumes "length (video_mem s) = 4000"
  shows "\<exists>v. test_interrupts s = Some (s\<lparr>video_mem := v\<rparr>) \<and> length v = 4000
    \<and> (\<forall>i < 2000. cells v i = cells (video_mem s) i + 1 \<and> attrs v i = attrs (video_mem s) i)"
proof -
  let ?I = "\<lambda>k v. length v = 4000 \<and> (\<forall>i < 2000. v ! (2 * i) = video_mem s ! (2 * i) + (if i < k then 1 else 0) \<and> v ! (2 * i + 1) = video_mem s ! (2 * i + 1))"
  have "\<exists>v. for_range 0 2000 (\<lambda>i v. do { b \<leftarrow> aget v (int (2 * i)); aset v (int (2 * i)) (b + 1) }) (video_mem s) = Some v \<and> ?I 2000 v"
  proof (rule for_range_total [where I = ?I])
    fix k v assume "k < 2000" "?I k v"
    then show "\<exists>v'. (do { b \<leftarrow> aget v (int (2 * k)); aset v (int (2 * k)) (b + 1) }) = Some v' \<and> ?I (Suc k) v'"
      by (intro exI [of _ "v[2 * k := v ! (2 * k) + 1]"]) (auto simp: aget_def aset_def nth_list_update less_Suc_eq nat_mult_distrib)
  qed (use assms in auto)
  then show ?thesis by (auto simp: test_interrupts_def cells_def attrs_def)
qed

end
