(* ===== verification/Kernel.thy ===== *)
theory Kernel
  imports Idt Memops
begin

text \<open>
  The kernel's C entry point, student-distrib/kernel.c: the report on what the boot loader left, the descriptors of the local
  descriptor table and of the task state, the initialisation of all components in order, and the first program.

  The variable \<open>filesystem_start\<close> of this file is another one than the static variable of the same name in filesystem.c; it is
  \<open>module_start\<close> here. The boot loader's structures are read from memory with the layout of multiboot.h; what the loops over them
  test is read once per turn, since printing changes only the screen. The addresses and sizes of the local
  descriptor table and of the task state are the linker's. The byte that the clock driver reads from its device is a parameter.
\<close>

abbreviation (input) MULTIBOOT_BOOTLOADER_MAGIC :: u32 where "MULTIBOOT_BOOTLOADER_MAGIC \<equiv> 0x2BADB002"
abbreviation (input) KERNEL_TSS :: u16 where "KERNEL_TSS \<equiv> 0x0030"
abbreviation (input) KERNEL_LDT :: u16 where "KERNEL_LDT \<equiv> 0x0038"
abbreviation (input) TSS_SIZE :: u32 where "TSS_SIZE \<equiv> 104"
abbreviation (input) newline :: string where "newline \<equiv> [CHR 0x0A]"

section \<open>State\<close>

record seg_desc_t =
  seg_lim_15_00 :: u16
  base_15_00 :: u16
  base_23_16 :: u8
  seg_type :: "4 word"
  seg_sys :: "1 word"
  seg_dpl :: "2 word"
  seg_present :: "1 word"
  seg_lim_19_16 :: "4 word"
  seg_avail :: "1 word"
  seg_reserved :: "1 word"
  seg_opsize :: "1 word"
  seg_granularity :: "1 word"
  base_31_24 :: u8

record boot = machine +
  module_start :: u32
  ldt_desc_ptr :: seg_desc_t
  tss_desc_ptr :: seg_desc_t
  ldt_at :: u32
  ldt_size :: u32
  tss_at :: u32
  tss_size :: u32
  tss_ldt_segment_selector :: u16
  ldtr :: u16
  tr :: u16

text \<open>How the entry point ends: it returns, it halts in the idle loop, or the first program runs.\<close>

datatype boot_end = Stopped | Idle | Running u32

section \<open>Operations\<close>

definition SET_LDT_PARAMS :: "u32 \<Rightarrow> u32 \<Rightarrow> seg_desc_t \<Rightarrow> seg_desc_t" where
  "SET_LDT_PARAMS addr lim str = str\<lparr>base_31_24 := ucast (drop_bit 24 (addr AND 0xFF000000)),
     base_23_16 := ucast (drop_bit 16 (addr AND 0x00FF0000)), base_15_00 := ucast (addr AND 0x0000FFFF),
     seg_lim_19_16 := ucast (drop_bit 16 (lim AND 0x000F0000)), seg_lim_15_00 := ucast (lim AND 0x0000FFFF)\<rparr>"

definition SET_TSS_PARAMS :: "u32 \<Rightarrow> u32 \<Rightarrow> seg_desc_t \<Rightarrow> seg_desc_t" where
  "SET_TSS_PARAMS addr lim str = str\<lparr>base_31_24 := ucast (drop_bit 24 (addr AND 0xFF000000)),
     base_23_16 := ucast (drop_bit 16 (addr AND 0x00FF0000)), base_15_00 := ucast (addr AND 0x0000FFFF),
     seg_lim_19_16 := ucast (drop_bit 16 (lim AND 0x000F0000)), seg_lim_15_00 := ucast (lim AND 0x0000FFFF)\<rparr>"

definition CHECK_FLAG :: "u32 \<Rightarrow> nat \<Rightarrow> bool" where
  "CHECK_FLAG word i = (word AND push_bit i 1 \<noteq> 0)"

text \<open>A call of \<open>printf\<close> whose result is not used; string arguments are read from memory.\<close>

definition say :: "string \<Rightarrow> u32 list \<Rightarrow> 'a console_scheme \<Rightarrow> 'a console_scheme option" where
  "say fmt args s = do { (n, s) \<leftarrow> printf (ptr s) fmt args s; Some s }"

text \<open>The loop over the boot modules: \<open>k\<close> modules are left, \<open>i\<close> is \<open>mod_count\<close>.\<close>

definition print_module :: "u32 \<Rightarrow> u32 \<Rightarrow> 'a boot_scheme \<Rightarrow> 'a boot_scheme option" where
  "print_module i module s = do {
     mod_start \<leftarrow> load32 s module;
     s \<leftarrow> say (''Module %d loaded at address: 0x%#x'' @ newline) [i, mod_start] s;
     mod_end \<leftarrow> load32 s (module + 4);
     s \<leftarrow> say (''Module %d ends at address: 0x%#x'' @ newline) [i, mod_end] s;
     s \<leftarrow> say (''First few bytes of module:'' @ newline) [] s;
     let s = s\<lparr>module_start := mod_start\<rparr>;
     s \<leftarrow> for_range 0 16 (\<lambda>j s. do {
            b \<leftarrow> load8 s (mod_start + of_nat j);
            say ''0x%x '' [scast b] s
          }) s;
     say newline [] s
   }"

primrec print_modules :: "nat \<Rightarrow> u32 \<Rightarrow> u32 \<Rightarrow> 'a boot_scheme \<Rightarrow> 'a boot_scheme option" where
  "print_modules 0 i module s = Some s"
| "print_modules (Suc k) i module s = do {
     s \<leftarrow> print_module i module s;
     print_modules k (i + 1) (module + 16) s
   }"

text \<open>The loop over the memory map up to the address \<open>stop\<close>.\<close>

partial_function (option) print_mmap :: "u32 \<Rightarrow> u32 \<Rightarrow> 'a boot_scheme \<Rightarrow> 'a boot_scheme option" where
  "print_mmap stop mmap s =
     (if mmap < stop then do {
        size \<leftarrow> load32 s mmap;
        base_addr_low \<leftarrow> load32 s (mmap + 4);
        base_addr_high \<leftarrow> load32 s (mmap + 8);
        length_low \<leftarrow> load32 s (mmap + 12);
        length_high \<leftarrow> load32 s (mmap + 16);
        type \<leftarrow> load32 s (mmap + 20);
        s \<leftarrow> say (''    size = 0x%x, base_addr = 0x%#x%#x'' @ newline @ ''    type = 0x%x,  length    = 0x%#x%#x'' @ newline)
               [size, base_addr_high, base_addr_low, type, length_high, length_low] s;
        print_mmap stop (mmap + size + 4) s
      } else Some s)"

text \<open>The report; \<open>False\<close> when the loader's flags contradict each other and the kernel gives up.\<close>

definition report :: "u32 \<Rightarrow> 'a boot_scheme \<Rightarrow> (bool \<times> 'a boot_scheme) option" where
  "report mbi s = do {
     flags \<leftarrow> load32 s mbi;
     s \<leftarrow> say (''flags = 0x%#x'' @ newline) [flags] s;
     s \<leftarrow> (if CHECK_FLAG flags 0 then do {
            mem_lower \<leftarrow> load32 s (mbi + 4);
            mem_upper \<leftarrow> load32 s (mbi + 8);
            say (''mem_lower = %uKB, mem_upper = %uKB'' @ newline) [mem_lower, mem_upper] s
          } else Some s);
     s \<leftarrow> (if CHECK_FLAG flags 1 then do {
            boot_device \<leftarrow> load32 s (mbi + 12);
            say (''boot_device = 0x%#x'' @ newline) [boot_device] s
          } else Some s);
     s \<leftarrow> (if CHECK_FLAG flags 2 then do {
            cmdline \<leftarrow> load32 s (mbi + 16);
            say (''cmdline = %s'' @ newline) [cmdline] s
          } else Some s);
     s \<leftarrow> (if CHECK_FLAG flags 3 then do {
            mods_addr \<leftarrow> load32 s (mbi + 24);
            mods_count \<leftarrow> load32 s (mbi + 20);
            print_modules (unat mods_count) 0 mods_addr s
          } else Some s);
     if CHECK_FLAG flags 4 \<and> CHECK_FLAG flags 5 then do {
       s \<leftarrow> say (''Both bits 4 and 5 are set.'' @ newline) [] s;
       Some (False, s)
     } else do {
       s \<leftarrow> (if CHECK_FLAG flags 5 then do {
              num \<leftarrow> load32 s (mbi + 28);
              size \<leftarrow> load32 s (mbi + 32);
              addr \<leftarrow> load32 s (mbi + 36);
              shndx \<leftarrow> load32 s (mbi + 40);
              say (''elf_sec: num = %u, size = 0x%#x, addr = 0x%#x, shndx = 0x%#x'' @ newline) [num, size, addr, shndx] s
            } else Some s);
       s \<leftarrow> (if CHECK_FLAG flags 6 then do {
              mmap_addr \<leftarrow> load32 s (mbi + 48);
              mmap_length \<leftarrow> load32 s (mbi + 44);
              s \<leftarrow> say (''mmap_addr = 0x%#x, mmap_length = 0x%x'' @ newline) [mmap_addr, mmap_length] s;
              print_mmap (mmap_addr + mmap_length) mmap_addr s
            } else Some s);
       Some (True, s)
     }
   }"

text \<open>The descriptors of the local descriptor table and of the task state.\<close>

definition the_ldt_desc :: "u32 \<Rightarrow> u32 \<Rightarrow> seg_desc_t" where
  "the_ldt_desc addr lim = SET_LDT_PARAMS addr lim
     \<lparr>seg_lim_15_00 = 0, base_15_00 = 0, base_23_16 = 0, seg_type = 2, seg_sys = 0, seg_dpl = 0, seg_present = 1,
      seg_lim_19_16 = 0, seg_avail = 0, seg_reserved = 0, seg_opsize = 1, seg_granularity = 0, base_31_24 = 0\<rparr>"

definition the_tss_desc :: "u32 \<Rightarrow> u32 \<Rightarrow> seg_desc_t" where
  "the_tss_desc addr lim = SET_TSS_PARAMS addr lim
     \<lparr>seg_lim_15_00 = ucast (TSS_SIZE AND 0x0000FFFF), base_15_00 = 0, base_23_16 = 0, seg_type = 9, seg_sys = 0, seg_dpl = 0, seg_present = 1,
      seg_lim_19_16 = ucast (TSS_SIZE AND 0x000F0000), seg_avail = 0, seg_reserved = 0, seg_opsize = 0, seg_granularity = 0, base_31_24 = 0\<rparr>"

definition set_descriptors :: "'a boot_scheme \<Rightarrow> 'a boot_scheme" where
  "set_descriptors s = s\<lparr>ldt_desc_ptr := the_ldt_desc (ldt_at s) (ldt_size s), ldtr := KERNEL_LDT,
     tss_desc_ptr := the_tss_desc (tss_at s) (tss_size s), tss_ldt_segment_selector := KERNEL_LDT,
     tss_ss0 := KERNEL_DS, tss_esp0 := 0x800000, tr := KERNEL_TSS\<rparr>"

text \<open>The initialisation of the components.\<close>

definition init_components :: "(entry_point \<Rightarrow> u32) \<Rightarrow> u8 \<Rightarrow> 'a boot_scheme \<Rightarrow> 'a boot_scheme option" where
  "init_components addr cmos s = do {
     let s = filesystem_init (module_start s) s;
     let s = i8259_init s;
     s \<leftarrow> idt_init addr s;
     s \<leftarrow> page_init s;
     s \<leftarrow> keyboard_init s;
     s \<leftarrow> rtc_init cmos s;
     pit_init s
   }"

definition entry ::
  "u8 list \<times> u8 list \<Rightarrow> (entry_point \<Rightarrow> u32) \<Rightarrow> u8 \<Rightarrow> u32 \<Rightarrow> u32 \<Rightarrow> 'a boot_scheme \<Rightarrow> (boot_end \<times> 'a boot_scheme) option" where
  "entry junk addr cmos magic mbi s = do {
     s \<leftarrow> clear s;
     if magic \<noteq> MULTIBOOT_BOOTLOADER_MAGIC then do {
       s \<leftarrow> say (''Invalid magic number: 0x%#x'' @ newline) [magic] s;
       Some (Stopped, s)
     } else do {
       (ok, s) \<leftarrow> report mbi s;
       if \<not> ok then Some (Stopped, s)
       else do {
         s \<leftarrow> init_components addr cmos (set_descriptors s);
         (c, s) \<leftarrow> execute junk (Some (arr (lit ''shell'' @ [0]))) s;
         case c of Enter_user e \<Rightarrow> Some (Running e, s) | _ \<Rightarrow> Some (Idle, s)
       }
     }
   }"

section \<open>Formats\<close>

text \<open>The items of a format with its arguments; \<open>None\<close> when the format is not one of those that always print.\<close>

definition conversion :: "u8 list \<Rightarrow> u32 \<Rightarrow> (item \<times> u8 list) option" where
  "conversion cs w = (case cs of [] \<Rightarrow> None
     | d # ds \<Rightarrow>
         if d = 120 then Some (Hex w, ds)
         else if d = 117 then Some (Unsigned w, ds)
         else if d = 100 then Some (Signed w, ds)
         else if d = 115 then Some (String_arg w, ds)
         else if d = 35 \<and> ds \<noteq> [] \<and> hd ds = 120 then Some (Hex8 w, tl ds)
         else None)"

fun parse_fmt :: "u8 list \<Rightarrow> u32 list \<Rightarrow> item list option" where
  "parse_fmt [] [] = Some []"
| "parse_fmt [] (w # ws) = None"
| "parse_fmt (c # cs) [] = (if c = 37 \<or> c = 0 \<or> c = BS then None else map_option ((#) (Chr c)) (parse_fmt cs []))"
| "parse_fmt (c # cs) (w # ws) =
     (if c = 37 then do { (it, ds) \<leftarrow> conversion cs w; map_option ((#) it) (parse_fmt ds ws) }
      else if c = 0 \<or> c = BS then None
      else map_option ((#) (Chr c)) (parse_fmt cs (w # ws)))"

lemma conversion_item:
  assumes "conversion cs w = Some (it, ds)"
  shows "item_fmt it @ ds = 37 # cs" and "item_args it = [w]"
    and "(\<forall>p. it = String_arg p \<longrightarrow> cstr_at (str p) (strs p) \<and> BS \<notin> set (strs p)) \<Longrightarrow> item_ok str strs it"
proof -
  from assms obtain d es where cs: "cs = d # es" by (cases cs) (simp_all add: conversion_def)
  have e: "es \<noteq> [] \<Longrightarrow> hd es = x \<Longrightarrow> es = x # tl es" for x by (cases es) simp_all
  show "item_fmt it @ ds = 37 # cs" and "item_args it = [w]"
    using assms by (auto simp: cs conversion_def item_chars dest: e split: if_splits)
  assume "\<forall>p. it = String_arg p \<longrightarrow> cstr_at (str p) (strs p) \<and> BS \<notin> set (strs p)"
  then show "item_ok str strs it" using assms by (auto simp: cs conversion_def item_ok_def text_clean split: if_splits)
qed

lemma parse_fmt_items:
  assumes "parse_fmt cs ws = Some its" and "\<forall>p. String_arg p \<in> set its \<longrightarrow> cstr_at (str p) (strs p) \<and> BS \<notin> set (strs p)"
  shows "cs = concat (map item_fmt its)" and "ws = concat (map item_args its)" and "\<forall>it \<in> set its. item_ok str strs it"
proof -
  have "cs = concat (map item_fmt its) \<and> ws = concat (map item_args its) \<and> (\<forall>it \<in> set its. item_ok str strs it)"
    using assms
  proof (induction cs ws arbitrary: its rule: parse_fmt.induct)
    case (3 c cs)
    then show ?case by (auto simp: item_ok_def conv_chars split: if_splits)
  next
    case (4 c cs w ws)
    show ?case
    proof (cases "c = 37")
      case False
      with 4 show ?thesis by (auto simp: item_ok_def conv_chars split: if_splits)
    next
      case True
      with 4(3) obtain it ds ks where k: "conversion cs w = Some (it, ds)" "parse_fmt ds ws = Some ks" "its = it # ks"
        by (auto simp: bind_eq_Some_conv)
      have "ds = concat (map item_fmt ks) \<and> ws = concat (map item_args ks) \<and> (\<forall>it \<in> set ks. item_ok str strs it)"
        by (rule 4(1) [OF True k(1) refl k(2)]) (use 4(4) k(3) in auto)
      with conversion_item(1,2) [OF k(1)] conversion_item(3) [OF k(1), of str strs] 4(4) k(3) True show ?thesis by auto
    qed
  qed auto
  then show "cs = concat (map item_fmt its)" and "ws = concat (map item_args its)" and "\<forall>it \<in> set its. item_ok str strs it" by auto
qed

lemma say_outputs:
  assumes "wf_console s" and "parse_fmt (lit fmt) args = Some its" and "\<forall>p. String_arg p \<in> set its \<longrightarrow> cstr_at (ptr s p) (strs p) \<and> BS \<notin> set (strs p)"
  shows "\<exists>s' S. say fmt args s = Some s' \<and> outputs S s s'"
proof -
  note i = parse_fmt_items [OF assms(2,3)]
  from prints_format [OF i(3) assms(1)] show ?thesis unfolding i(1) [symmetric] i(2) [symmetric]
    by (auto simp: say_def printf_def prints_def)
qed

section \<open>The report\<close>

text \<open>Before paging is on, memory is read directly.\<close>

definition raw :: "'a vm_scheme \<Rightarrow> bool" where
  "raw s \<longleftrightarrow> \<not> bit (cr0 s) 31"

definition word_at :: "'a vm_scheme \<Rightarrow> u32 \<Rightarrow> u32" where
  "word_at s a = le32 (phys s a) (phys s (a + 1)) (phys s (a + 2)) (phys s (a + 3))"

lemma raw_loads: "raw s \<Longrightarrow> load8 s a = Some (phys s a)" "raw s \<Longrightarrow> load32 s a = Some (word_at s a)"
  by (simp_all add: raw_def load8_def load32_def translate_def word_at_def le32_def)

text \<open>\<open>told s x t\<close>: from \<open>s\<close> to \<open>t\<close> only text has been shown, and the last module seen starts at \<open>x\<close>.\<close>

definition told :: "'a boot_scheme \<Rightarrow> u32 \<Rightarrow> 'a boot_scheme \<Rightarrow> bool" where
  "told s x t \<longleftrightarrow> (\<exists>S. outputs S (s\<lparr>module_start := x\<rparr>) t)"

lemma told_facts:
  assumes "told s x t"
  shows "wf_console t" "phys t = phys s" "raw t = raw s" "word_at t = word_at s" "ptr t = ptr s" "module_start t = x" "console_frame t = console_frame (s\<lparr>module_start := x\<rparr>)"
proof -
  from assms obtain S where o: "outputs S (s\<lparr>module_start := x\<rparr>) t" by (auto simp: told_def)
  then show f: "console_frame t = console_frame (s\<lparr>module_start := x\<rparr>)" and "wf_console t" by (simp_all add: outputs_def)
  note d = console_frameD [OF f]
  show p: "phys t = phys s" using d(4) by simp
  then show "word_at t = word_at s" by (simp add: word_at_def fun_eq_iff)
  have q: "same_paging t s" using d(3) by (simp add: same_paging_def)
  then show "raw t = raw s" by (simp add: raw_def same_paging_def)
  have "load8 t = load8 s" by (rule ext) (simp add: load8_def translate_same [OF q] p)
  then show "ptr t = ptr s" by (simp add: ptr_def fun_eq_iff)
  show "module_start t = x" using arg_cong [OF f, of module_start] by (simp add: console_frame_def)
qed

lemma told_refl: "wf_console s \<Longrightarrow> told s (module_start s) s"
  unfolding told_def using outputs_refl [of s] by auto

lemma told_outputs: "told s x t \<Longrightarrow> outputs S t u \<Longrightarrow> told s x u"
  unfolding told_def using outputs_trans by blast

lemma module_views: "term_at (s\<lparr>module_start := y\<rparr>) = term_at s" "screen_buf (s\<lparr>module_start := y\<rparr>) = screen_buf s"
  "shown (s\<lparr>module_start := y\<rparr>) = shown s" "wf_console (s\<lparr>module_start := y\<rparr>) = wf_console s"
  by (auto simp: term_at_def screen_buf_def shown_def wf_console_def fun_eq_iff)

lemma told_set: "told s x t \<Longrightarrow> told s y (t\<lparr>module_start := y\<rparr>)"
proof -
  assume "told s x t"
  then obtain S where o: "outputs S (s\<lparr>module_start := x\<rparr>) t" by (auto simp: told_def)
  have "console_frame (t\<lparr>module_start := y\<rparr>) = (console_frame t)\<lparr>module_start := y\<rparr>" by (simp add: console_frame_def)
  also have "\<dots> = (console_frame (s\<lparr>module_start := x\<rparr>))\<lparr>module_start := y\<rparr>" using o by (simp add: outputs_def)
  also have "\<dots> = console_frame (s\<lparr>module_start := y\<rparr>)" by (simp add: console_frame_def)
  finally have "outputs S (s\<lparr>module_start := y\<rparr>) (t\<lparr>module_start := y\<rparr>)"
    using o by (simp add: outputs_def module_views)
  then show ?thesis by (auto simp: told_def)
qed

lemma told_say:
  assumes "told s x t" and "parse_fmt (lit fmt) args = Some its" and "\<forall>p. String_arg p \<in> set its \<longrightarrow> cstr_at (ptr s p) (strs p) \<and> BS \<notin> set (strs p)"
  shows "\<exists>u. say fmt args t = Some u \<and> told s x u"
  using say_outputs [OF told_facts(1) [OF assms(1)] assms(2), of strs] assms(3) told_facts(5) [OF assms(1)] told_outputs [OF assms(1)] by auto

lemma fmt_chars: "lit [] = []" "lit (c # cs) = byte_of c # lit cs" "lit (xs @ ys) = lit xs @ lit ys"
  by (simp_all add: lit_def)

lemmas fmt_simps = fmt_chars byte_of_def conversion_def

definition plain_fmt :: "string \<Rightarrow> u32 list \<Rightarrow> bool" where
  "plain_fmt fmt args = (case parse_fmt (lit fmt) args of None \<Rightarrow> False
     | Some its \<Rightarrow> list_all (\<lambda>it. case it of String_arg p \<Rightarrow> False | _ \<Rightarrow> True) its)"

lemma told_plain:
  assumes "told s x t" and "plain_fmt fmt args"
  obtains u where "say fmt args t = Some u" "told s x u"
proof -
  from assms(2) obtain its where i: "parse_fmt (lit fmt) args = Some its" "list_all (\<lambda>it. case it of String_arg p \<Rightarrow> False | _ \<Rightarrow> True) its"
    by (auto simp: plain_fmt_def split: option.splits)
  from i(2) have "\<forall>p. String_arg p \<notin> set its" by (auto simp: list_all_iff)
  with told_say [OF assms(1) i(1), of "\<lambda>_. []"] that show ?thesis by auto
qed

lemma told_module:
  assumes "told s x t" and "raw s"
  shows "\<exists>u. print_module i m t = Some u \<and> told s (word_at s m) u"
proof -
  have r: "raw t" "word_at t = word_at s" using told_facts [OF assms(1)] assms(2) by auto
  obtain t1 where
    t1: "say (''Module %d loaded at address: 0x%#x'' @ newline) [i, word_at s m] t = Some t1" "told s x t1"
    by (rule told_plain [OF assms(1), of "''Module %d loaded at address: 0x%#x'' @ newline" "[i, word_at s m]"]) (simp add: plain_fmt_def fmt_simps)
  have r1: "raw t1" "word_at t1 = word_at s" using told_facts [OF t1(2)] assms(2) by auto
  obtain t2 where
    t2: "say (''Module %d ends at address: 0x%#x'' @ newline) [i, word_at s (m + 4)] t1 = Some t2" "told s x t2"
    by (rule told_plain [OF t1(2), of "''Module %d ends at address: 0x%#x'' @ newline" "[i, word_at s (m + 4)]"]) (simp add: plain_fmt_def fmt_simps)
  obtain t3 where
    t3: "say (''First few bytes of module:'' @ newline) [] t2 = Some t3" "told s x t3"
    by (rule told_plain [OF t2(2), of "''First few bytes of module:'' @ newline" "[]"]) (simp add: plain_fmt_def fmt_simps)
  let ?body = "\<lambda>j u. do { b \<leftarrow> load8 u (word_at s m + of_nat j); say ''0x%x '' [scast b] u }"
  have "\<exists>u. for_range 0 16 ?body (t3\<lparr>module_start := word_at s m\<rparr>) = Some u \<and> told s (word_at s m) u"
  proof (rule for_range_total [where I = "\<lambda>_. told s (word_at s m)"])
    fix k u assume u: "told s (word_at s m) u"
    have "load8 u (word_at s m + of_nat k) = Some (phys s (word_at s m + of_nat k))" using told_facts(2,3) [OF u] assms(2) raw_loads(1) [of u] by simp
    moreover obtain u' where "say ''0x%x '' [scast (phys s (word_at s m + of_nat k))] u = Some u'" "told s (word_at s m) u'"
      by (rule told_plain [OF u, of "''0x%x ''" "[scast (phys s (word_at s m + of_nat k))]"]) (simp add: plain_fmt_def fmt_simps)
    ultimately show "\<exists>u'. ?body k u = Some u' \<and> told s (word_at s m) u'" by simp
  qed (use told_set [OF t3(2)] in auto)
  then obtain t4 where t4: "for_range 0 16 ?body (t3\<lparr>module_start := word_at s m\<rparr>) = Some t4" "told s (word_at s m) t4" by blast
  obtain t5 where "say newline [] t4 = Some t5" "told s (word_at s m) t5"
    by (rule told_plain [OF t4(2), of newline "[]"]) (simp add: plain_fmt_def fmt_simps)
  then show ?thesis using t1(1) t2(1) t3(1) t4(1) r r1 by (simp add: print_module_def raw_loads Let_def)
qed

lemma told_modules:
  assumes "told s x t" and "raw s"
  shows "\<exists>u. print_modules k i m t = Some u \<and> told s (if k = 0 then x else word_at s (m + 16 * of_nat (k - 1))) u"
  using assms(1)
proof (induction k arbitrary: i m x t)
  case (Suc k)
  from told_module [OF Suc.prems assms(2), of i m] obtain t1 where t1: "print_module i m t = Some t1" "told s (word_at s m) t1" by blast
  from Suc.IH [OF t1(2), of "i + 1" "m + 16"] obtain u where
    "print_modules k (i + 1) (m + 16) t1 = Some u" "told s (if k = 0 then word_at s m else word_at s (m + 16 + 16 * of_nat (k - 1))) u" by blast
  moreover have "k \<noteq> 0 \<Longrightarrow> m + 16 + 16 * of_nat (k - 1) = m + 16 * of_nat k" by (cases k) (simp_all add: algebra_simps)
  ultimately show ?case using t1(1) by (auto split: if_splits)
qed simp

text \<open>The entries of the memory map lead past its end.\<close>

inductive mmap_ends :: "'a vm_scheme \<Rightarrow> u32 \<Rightarrow> u32 \<Rightarrow> bool" for s stop where
  past: "\<not> a < stop \<Longrightarrow> mmap_ends s stop a"
| more: "a < stop \<Longrightarrow> mmap_ends s stop (a + word_at s a + 4) \<Longrightarrow> mmap_ends s stop a"

lemma told_mmap:
  assumes "mmap_ends s stop a" and "told s x t" and "raw s"
  shows "\<exists>u. print_mmap stop a t = Some u \<and> told s x u"
  using assms(1,2)
proof (induction arbitrary: t)
  case (past a)
  then show ?case by (subst print_mmap.simps) auto
next
  case (more a)
  have r: "raw t" "word_at t = word_at s" using told_facts [OF more.prems] assms(3) by auto
  let ?fmt = "''    size = 0x%x, base_addr = 0x%#x%#x'' @ newline @ ''    type = 0x%x,  length    = 0x%#x%#x'' @ newline"
  let ?args = "[word_at s a, word_at s (a + 8), word_at s (a + 4), word_at s (a + 20), word_at s (a + 16), word_at s (a + 12)]"
  obtain t1 where t1: "say ?fmt ?args t = Some t1" "told s x t1"
    by (rule told_plain [OF more.prems, of ?fmt ?args]) (simp add: plain_fmt_def fmt_simps)
  from more.IH [OF t1(2)] obtain u where u: "print_mmap stop (a + word_at s a + 4) t1 = Some u" "told s x u" by blast
  have "print_mmap stop a t = print_mmap stop (a + word_at s a + 4) t1"
    using more.hyps(1) r t1(1) by (subst print_mmap.simps) (simp add: raw_loads)
  with u show ?case by simp
qed

text \<open>
  What the report relies on: the flags are consistent, the command line is a string without backspaces, and the memory map ends.
  The address of the last module, which becomes the file system image.
\<close>

definition multiboot_ok :: "'a vm_scheme \<Rightarrow> u32 \<Rightarrow> bool" where
  "multiboot_ok s mbi \<longleftrightarrow> \<not> (CHECK_FLAG (word_at s mbi) 4 \<and> CHECK_FLAG (word_at s mbi) 5)
     \<and> (CHECK_FLAG (word_at s mbi) 2 \<longrightarrow> (\<exists>xs. cstr_at (ptr s (word_at s (mbi + 16))) xs \<and> BS \<notin> set xs))
     \<and> (CHECK_FLAG (word_at s mbi) 6 \<longrightarrow> mmap_ends s (word_at s (mbi + 48) + word_at s (mbi + 44)) (word_at s (mbi + 48)))"

definition image_start :: "'a boot_scheme \<Rightarrow> u32 \<Rightarrow> u32" where
  "image_start s mbi = (if CHECK_FLAG (word_at s mbi) 3 \<and> word_at s (mbi + 20) \<noteq> 0
     then word_at s (word_at s (mbi + 24) + 16 * (word_at s (mbi + 20) - 1)) else module_start s)"

lemma told_if:
  assumes "told s x t" and "c \<Longrightarrow> \<exists>u. f = Some u \<and> told s x u"
  obtains u where "(if c then f else Some t) = Some u" "told s x u" "raw u = raw s" "word_at u = word_at s"
proof (cases c)
  case True
  then obtain u where u: "f = Some u" "told s x u" using assms(2) by blast
  show ?thesis by (rule that [of u]) (use True u told_facts [OF u(2)] in auto)
next
  case False
  show ?thesis by (rule that [of t]) (use False assms(1) told_facts [OF assms(1)] in auto)
qed

lemma told_if_plain:
  assumes "told s x t" and "plain_fmt fmt args"
  obtains u where "(if c then say fmt args t else Some t) = Some u" "told s x u" "raw u = raw s" "word_at u = word_at s"
proof (rule told_if [OF assms(1)])
  show "\<exists>u. say fmt args t = Some u \<and> told s x u" using told_plain [OF assms] by metis
qed

lemma report_told:
  assumes wf: "wf_console s" and raw: "raw s" and ok: "multiboot_ok s mbi"
  shows "\<exists>t. report mbi s = Some (True, t) \<and> told s (image_start s mbi) t"
proof -
  let ?f = "word_at s mbi" and ?x = "module_start s" and ?y = "image_start s mbi"
  obtain t0 where t0: "say (''flags = 0x%#x'' @ newline) [?f] s = Some t0" "told s ?x t0"
    by (rule told_plain [OF told_refl [OF wf], of "''flags = 0x%#x'' @ newline" "[?f]"]) (simp add: plain_fmt_def fmt_simps)
  have r0: "raw t0" "word_at t0 = word_at s" using told_facts [OF t0(2)] raw by auto
  obtain t1 where t1: "(if CHECK_FLAG ?f 0 then say (''mem_lower = %uKB, mem_upper = %uKB'' @ newline) [word_at s (mbi + 4), word_at s (mbi + 8)] t0 else Some t0) = Some t1"
    and n1: "told s ?x t1" "raw t1 = raw s" "word_at t1 = word_at s"
    by (rule told_if_plain [OF t0(2), of "''mem_lower = %uKB, mem_upper = %uKB'' @ newline" "[word_at s (mbi + 4), word_at s (mbi + 8)]" "CHECK_FLAG ?f 0"])
      (simp_all add: plain_fmt_def fmt_simps)
  obtain t2 where t2: "(if CHECK_FLAG ?f 1 then say (''boot_device = 0x%#x'' @ newline) [word_at s (mbi + 12)] t1 else Some t1) = Some t2"
    and n2: "told s ?x t2" "raw t2 = raw s" "word_at t2 = word_at s"
    by (rule told_if_plain [OF n1(1), of "''boot_device = 0x%#x'' @ newline" "[word_at s (mbi + 12)]" "CHECK_FLAG ?f 1"]) (simp_all add: plain_fmt_def fmt_simps)
  have "\<exists>u. say (''cmdline = %s'' @ newline) [word_at s (mbi + 16)] t2 = Some u \<and> told s ?x u" if c: "CHECK_FLAG ?f 2"
  proof -
    from ok c obtain xs where "cstr_at (ptr s (word_at s (mbi + 16))) xs" "BS \<notin> set xs" by (auto simp: multiboot_ok_def)
    with told_say [OF n2(1), of "''cmdline = %s'' @ newline" "[word_at s (mbi + 16)]" _ "\<lambda>_. xs"] show ?thesis by (simp add: fmt_simps)
  qed
  then obtain t3 where t3: "(if CHECK_FLAG ?f 2 then say (''cmdline = %s'' @ newline) [word_at s (mbi + 16)] t2 else Some t2) = Some t3"
    and n3: "told s ?x t3" "raw t3 = raw s" "word_at t3 = word_at s" using told_if [OF n2(1)] by metis
  obtain t4 where t4: "(if CHECK_FLAG ?f 3 then print_modules (unat (word_at s (mbi + 20))) 0 (word_at s (mbi + 24)) t3 else Some t3) = Some t4" "told s ?y t4"
  proof (cases "CHECK_FLAG ?f 3")
    case True
    have "of_nat (unat c - 1) = c - 1" if "c \<noteq> 0" for c :: u32
      using that by (metis One_nat_def unat_minus_one ucast_id unsigned_of_nat take_bit_word_eq_self word_unat_eq_iff of_nat_unat)
    then have "(if unat (word_at s (mbi + 20)) = 0 then ?x else word_at s (word_at s (mbi + 24) + 16 * of_nat (unat (word_at s (mbi + 20)) - 1))) = ?y"
      unfolding image_start_def unat_eq_zero using True by (cases "word_at s (mbi + 20) = 0") (simp_all only: simp_thms if_True if_False)
    with told_modules [OF n3(1) raw, of "unat (word_at s (mbi + 20))" 0 "word_at s (mbi + 24)"] True show ?thesis
      using that by auto
  next
    case False
    then show ?thesis using that n3(1) by (simp add: image_start_def)
  qed
  have n4: "raw t4" "word_at t4 = word_at s" using told_facts [OF t4(2)] raw by auto
  obtain t5 where t5: "(if CHECK_FLAG ?f 5 then say (''elf_sec: num = %u, size = 0x%#x, addr = 0x%#x, shndx = 0x%#x'' @ newline)
        [word_at s (mbi + 28), word_at s (mbi + 32), word_at s (mbi + 36), word_at s (mbi + 40)] t4 else Some t4) = Some t5"
    and n5: "told s ?y t5" "raw t5 = raw s" "word_at t5 = word_at s"
    by (rule told_if_plain [OF t4(2), of "''elf_sec: num = %u, size = 0x%#x, addr = 0x%#x, shndx = 0x%#x'' @ newline"
        "[word_at s (mbi + 28), word_at s (mbi + 32), word_at s (mbi + 36), word_at s (mbi + 40)]" "CHECK_FLAG ?f 5"]) (simp_all add: plain_fmt_def fmt_simps)
  let ?a = "word_at s (mbi + 48)" and ?l = "word_at s (mbi + 44)"
  have "\<exists>u. do { t \<leftarrow> say (''mmap_addr = 0x%#x, mmap_length = 0x%x'' @ newline) [?a, ?l] t5; print_mmap (?a + ?l) ?a t } = Some u \<and> told s ?y u"
    if c: "CHECK_FLAG ?f 6"
  proof -
    obtain u where u: "say (''mmap_addr = 0x%#x, mmap_length = 0x%x'' @ newline) [?a, ?l] t5 = Some u" "told s ?y u"
      by (rule told_plain [OF n5(1), of "''mmap_addr = 0x%#x, mmap_length = 0x%x'' @ newline" "[?a, ?l]"]) (simp add: plain_fmt_def fmt_simps)
    have "mmap_ends s (?a + ?l) ?a" using ok c by (simp add: multiboot_ok_def)
    from told_mmap [OF this u(2) raw] u(1) show ?thesis by auto
  qed
  then obtain t6 where t6: "(if CHECK_FLAG ?f 6 then do { t \<leftarrow> say (''mmap_addr = 0x%#x, mmap_length = 0x%x'' @ newline) [?a, ?l] t5; print_mmap (?a + ?l) ?a t } else Some t5) = Some t6"
    "told s ?y t6" using told_if [OF n5(1)] by metis
  have nb: "\<not> (CHECK_FLAG ?f 4 \<and> CHECK_FLAG ?f 5)" using ok by (simp add: multiboot_ok_def)
  have "report mbi s = Some (True, t6)"
    unfolding report_def
    using raw r0 n1 n2 n3 n4 n5 nb t0(1) t1 t2 t3 t4(1) t5 t6(1)
    by (simp add: raw_loads cong: if_cong) blast
  then show ?thesis using t6(2) by blast
qed

section \<open>The initialisation\<close>

lemma i8259_init_state: "\<exists>p. i8259_init s = s\<lparr>master_mask := master_mask s AND NOT 4, ports := p\<rparr>"
  by (rule exI [of _ "ports (i8259_init s)"]) (simp add: i8259_init_def enable_irq_def outb_def cli_def sti_def irq_bit_def Let_def)

lemma devices_state:
  assumes "length (irq_handler_jumptable s) = 16"
  shows "\<exists>p. do { s \<leftarrow> keyboard_init s; s \<leftarrow> rtc_init cmos s; pit_init s } = Some (s\<lparr>eflags_IF := True, slave_mask := slave_mask s AND NOT 1,
    irq_handler_jumptable := (irq_handler_jumptable s)[1 := Keyboard_handler, 8 := Rtc_handler, 0 := Pit_handler],
    master_mask := (master_mask s AND NOT 2) AND NOT 1, ports := p\<rparr>)"
proof -
  have "irq_handler_jumptable s \<noteq> []" using assms by auto
  with assms show ?thesis
    by (simp add: keyboard_init_def rtc_init_def pit_init_def add_irq_def aset_def enable_irq_def outb_def inb_def cli_def sti_def irq_bit_def Let_def)
      (rule exI, rule refl)
qed

lemma idt_init_state:
  assumes "length (idt s) = 256" and "length (syscall_jumptable s) = 10" and "length (process s) = 6"
  shows "\<exists>t. idt_init addr s = Some (s\<lparr>idt := t, syscall_jumptable := syscalls @ [syscall_jumptable s ! 9], process := (process s)[0 := 1], idt_loaded := True\<rparr>)"
proof -
  from idt_init_table [OF assms(1), of addr] obtain t where
    t: "idt_init addr s = do { s \<leftarrow> init_syscall (s\<lparr>idt := t\<rparr>); Some (s\<lparr>idt_loaded := True\<rparr>) }" by blast
  show ?thesis using init_syscall_table [of "s\<lparr>idt := t\<rparr>"] assms(2,3) by (intro exI [of _ t]) (simp add: t)
qed

text \<open>The tables that the linker lays out, and the state of the machine when the kernel is entered.\<close>

definition tables_ok :: "'a boot_scheme \<Rightarrow> bool" where
  "tables_ok s \<longleftrightarrow> tables_wf s \<and> length (idt s) = 256 \<and> length (syscall_jumptable s) = 10 \<and> length (process s) = 6
     \<and> length (irq_handler_jumptable s) = 16"

lemma init_components_state:
  assumes "tables_ok s"
  shows "\<exists>u. init_components addr cmos s = Some u \<and> paging_on u
    \<and> (\<forall>va. translate u va = (if drop_bit 22 va = 1 \<or> drop_bit 12 va = 0xB8 then Some va else None))
    \<and> phys u = phys s \<and> filesystem_start u = module_start s \<and> boot_block u = module_start s
    \<and> process u = (process s)[0 := 1] \<and> terminal_t u = terminal_t s \<and> terminal_num u = terminal_num s
    \<and> terminal_displayed u = terminal_displayed s \<and> video_mem u = video_mem s \<and> pcb_at u = pcb_at s
    \<and> idt_loaded u \<and> irq_handler_jumptable u = (irq_handler_jumptable s)[1 := Keyboard_handler, 8 := Rtc_handler, 0 := Pit_handler]
    \<and> master_mask u = ((master_mask s AND NOT 4) AND NOT 2) AND NOT 1 \<and> slave_mask u = slave_mask s AND NOT 1"
proof -
  note ok = assms [unfolded tables_ok_def]
  let ?s0 = "filesystem_init (module_start s) s"
  obtain p1 where s1: "i8259_init ?s0 = ?s0\<lparr>master_mask := master_mask ?s0 AND NOT 4, ports := p1\<rparr>" using i8259_init_state [of ?s0] by blast
  let ?s1 = "?s0\<lparr>master_mask := master_mask ?s0 AND NOT 4, ports := p1\<rparr>"
  obtain t where s2: "idt_init addr ?s1 = Some (?s1\<lparr>idt := t, syscall_jumptable := syscalls @ [syscall_jumptable ?s1 ! 9], process := (process ?s1)[0 := 1], idt_loaded := True\<rparr>)"
    using idt_init_state [of ?s1 addr] ok by (auto simp: filesystem_init_def)
  let ?s2 = "?s1\<lparr>idt := t, syscall_jumptable := syscalls @ [syscall_jumptable ?s1 ! 9], process := (process ?s1)[0 := 1], idt_loaded := True\<rparr>"
  have wf: "tables_wf ?s2" using ok by (simp add: tables_wf_def filesystem_init_def)
  from page_init_tables [OF wf] obtain pd pt where s3: "page_init ?s2 = Some (?s2\<lparr>PageDirectory := pd, PageTable := pt, cr3 := PageDirectory_at ?s2,
       cr4 := cr4 ?s2 OR 0x10, cr0 := cr0 ?s2 OR 0x80000000\<rparr>)" by blast
  let ?s3 = "?s2\<lparr>PageDirectory := pd, PageTable := pt, cr3 := PageDirectory_at ?s2, cr4 := cr4 ?s2 OR 0x10, cr0 := cr0 ?s2 OR 0x80000000\<rparr>"
  have "length (irq_handler_jumptable ?s3) = 16" using ok by (simp add: filesystem_init_def)
  from devices_state [OF this, of cmos] obtain p where s4: "do { s \<leftarrow> keyboard_init ?s3; s \<leftarrow> rtc_init cmos s; pit_init s } = Some (?s3\<lparr>eflags_IF := True, slave_mask := slave_mask ?s3 AND NOT 1,
    irq_handler_jumptable := (irq_handler_jumptable ?s3)[1 := Keyboard_handler, 8 := Rtc_handler, 0 := Pit_handler],
    master_mask := (master_mask ?s3 AND NOT 2) AND NOT 1, ports := p\<rparr>)" (is "_ = Some ?u") by blast
  have run: "init_components addr cmos s = Some ?u"
    using s4 unfolding init_components_def Let_def s1 by (simp only: s2 s3 bind.bind_lunit)
  have q: "same_paging ?u ?s3" by (simp add: same_paging_def)
  have "paging_on ?u" using page_init_on [OF wf s3] paging_on_same [OF q] by simp
  moreover have "translate ?u va = (if drop_bit 22 va = 1 \<or> drop_bit 12 va = 0xB8 then Some va else None)" for va
    using page_init_translate(1) [OF wf s3] translate_same [OF q] by simp
  ultimately show ?thesis using run by (intro exI [of _ ?u]) (simp add: filesystem_init_def)
qed

section \<open>The first program\<close>

lemma told_state:
  assumes "told s x t"
  shows "process t = process s" "pcb_at t = pcb_at s" "terminal_num t = terminal_num s" "idt t = idt s" "syscall_jumptable t = syscall_jumptable s"
    "irq_handler_jumptable t = irq_handler_jumptable s" "master_mask t = master_mask s" "slave_mask t = slave_mask s" "tables_wf t = tables_wf s"
    "0 \<le> j \<Longrightarrow> j < 3 \<Longrightarrow> flag (term_at t j) = flag (term_at s j)"
proof -
  note f = told_facts(7) [OF assms]
  show "process t = process s" "pcb_at t = pcb_at s" "terminal_num t = terminal_num s" "idt t = idt s" "syscall_jumptable t = syscall_jumptable s"
    "irq_handler_jumptable t = irq_handler_jumptable s" "master_mask t = master_mask s" "slave_mask t = slave_mask s"
    using arg_cong [OF f, of process] arg_cong [OF f, of pcb_at] arg_cong [OF f, of terminal_num] arg_cong [OF f, of idt] arg_cong [OF f, of syscall_jumptable]
      arg_cong [OF f, of irq_handler_jumptable] arg_cong [OF f, of master_mask] arg_cong [OF f, of slave_mask]
    by (simp_all add: console_frame_def)
  show "tables_wf t = tables_wf s" using arg_cong [OF f, of tables_wf] by (simp add: console_frame_def tables_wf_def)
  assume "0 \<le> j" "j < 3"
  moreover from assms obtain S where "outputs S (s\<lparr>module_start := x\<rparr>) t" by (auto simp: told_def)
  ultimately show "flag (term_at t j) = flag (term_at s j)" by (simp add: outputs_def same_input_def module_views)
qed

text \<open>The image at \<open>x\<close>, once the kernel page is mapped, has an executable file \<open>shell\<close> with the bytes \<open>bs\<close>.\<close>

definition bootable :: "'a boot_scheme \<Rightarrow> u32 \<Rightarrow> u32 \<Rightarrow> u8 list \<Rightarrow> bool" where
  "bootable s x inode bs \<longleftrightarrow> take 4 bs = exe_magic_number \<and> 28 \<le> length bs \<and> length bs \<le> 0x3B8000
     \<and> (\<forall>t :: 'a boot_scheme. kernel_mapped t \<and> phys t = phys s \<and> filesystem_start t = x \<and> boot_block t = x \<longrightarrow> finds_file t (lit ''shell'') inode bs)"

text \<open>The state in which the kernel is entered: no process, no terminal in use.\<close>

definition fresh :: "'a boot_scheme \<Rightarrow> bool" where
  "fresh s \<longleftrightarrow> wf_console s \<and> raw s \<and> tables_ok s \<and> process s = replicate 6 0 \<and> terminal_num s = 0
     \<and> flag (term_at s 1) = 0 \<and> flag (term_at s 2) = 0 \<and> wf_pcb (pcb_at s (pcb_addr 1))"

lemma shell_command: "cstr_at (arr (lit ''shell'' @ [0])) (lit ''shell'')" "first_word (lit ''shell'') = lit ''shell''" "after_word (lit ''shell'') = []" "first_word [] = []"
  by (rule cstr_at_arr, simp add: lit_def byte_of_def) code_simp+

lemma execute_first:
  assumes con: "wf_console u" and k: "kernel_mapped u" and ps: "process u = [1, 0, 0, 0, 0, 0]" and tn: "terminal_num u = 0"
    and fl: "flag (term_at u 1) = 0" "flag (term_at u 2) = 0" and pcb: "wf_pcb (pcb_at u (pcb_addr 1))"
    and f: "finds_file u (lit ''shell'') inode bs" and bs: "take 4 bs = exe_magic_number" "28 \<le> length bs" "length bs \<le> 0x3B8000"
    and junk: "length (fst junk) = 4" "length (snd junk) = 4"
  shows "\<exists>s'. execute junk (Some (arr (lit ''shell'' @ [0]))) u = Some (Enter_user (le32 (bs ! 24) (bs ! 25) (bs ! 26) (bs ! 27)), s')
    \<and> load_bytes s' PROGRAM_IMAGE_ADDR (length bs) = Some bs \<and> sched_inv s' \<and> process s' = [1, 1, 0, 0, 0, 0] \<and> proc s' 0 = 1
    \<and> (\<forall>i. running s' i \<longleftrightarrow> i = 0) \<and> eflags_IF s' \<and> kernel.more s' = kernel.more u
    \<and> irq_handler_jumptable s' = irq_handler_jumptable u \<and> master_mask s' = master_mask u \<and> slave_mask s' = slave_mask u"
proof -
  obtain s' where ex: "execute junk (Some (arr (lit ''shell'' @ [0]))) u = Some (Enter_user (le32 (bs ! 24) (bs ! 25) (bs ! 26) (bs ! 27)), s')"
    and st: "started (int 1) bs (first_word (after_word (lit ''shell''))) (calling u) s'"
    using execute_runs [of u 1 "arr (lit ''shell'' @ [0])" "lit ''shell''" inode bs junk] con k ps f bs pcb junk shell_command by (auto simp: shell_command)
  have len: "length (terminal_t u) = 3" using con by (simp add: wf_console_def)
  have t: "flag (term_at s' i) = (if i = 0 then 1 else flag (term_at u i))" "i = 0 \<Longrightarrow> proc s' i = 1" if "0 \<le> i" "i < 3" for i
    using st that len tn by (auto simp: started_def calling_def term_at_def)
  have three: "i = 0 \<or> i = 1 \<or> i = 2" if "0 \<le> i" "i < 3" for i :: int using that by arith
  have run: "running s' i \<longleftrightarrow> i = 0" for i using t(1) [of i] three [of i] fl by (auto simp: running_def)
  have one: "proc s' 0 = 1" using t(2) [of 0] by simp
  have num: "terminal_num s' = 0" using st tn by (simp add: started_def calling_def)
  have inv: "sched_inv s'" unfolding sched_inv_def run num one using st run one by (simp add: started_def)
  have more: "kernel.more (calling u) = kernel.more u" "irq_handler_jumptable (calling u) = irq_handler_jumptable u" "master_mask (calling u) = master_mask u"
    "slave_mask (calling u) = slave_mask u" "process (calling u) = process u"
    by (simp_all add: calling_def)
  show ?thesis using ex inv run one st unfolding started_def more ps by simp
qed

lemma flags_fresh:
  assumes "flag (term_at s 1) = 0" "flag (term_at s 2) = 0" and "told s x t"
  shows "flag (term_at t 1) = 0" "flag (term_at t 2) = 0"
  using told_state(10) [OF assms(3), of 1] told_state(10) [OF assms(3), of 2] assms(1,2) by simp_all

lemma mmap_ends_words: "mmap_ends s stop a \<Longrightarrow> word_at t = word_at s \<Longrightarrow> mmap_ends t stop a"
  by (induction rule: mmap_ends.induct) (auto intro: mmap_ends.intros)

lemma mmap_ends_same: "word_at t = word_at s \<Longrightarrow> mmap_ends t stop a = mmap_ends s stop a"
  by (rule iffI; erule mmap_ends_words) simp_all

lemma more_idt_loaded: "idt_loaded s = idt_loaded t" if "kernel.more s = kernel.more t" for s t :: "'a machine_scheme"
  using that by (cases s, cases t) (simp add: machine.defs)

text \<open>
  Claim C1. The kernel boots into its shell: entered with the boot loader's magic number from a fresh state, with consistent flags, a
  command line without backspaces, a memory map that ends and, in the last boot module, a file system image that has an executable file
  \<open>shell\<close>, the entry point reports, sets up the descriptors and all components, and ends in user mode at the entry point of that file.
  The file is then at 0x8048000, process 1 is the only one and runs on terminal 0, the invariant of the scheduler holds, interrupts are
  on, the interrupt table is loaded, and the lines of the timer, the keyboard, the cascade and the clock are unmasked and have
  their handlers.
\<close>

theorem boot_starts_shell:
  assumes "fresh s" and "multiboot_ok s mbi" and "bootable s (image_start s mbi) inode bs" and "length (fst junk) = 4" and "length (snd junk) = 4"
  shows "\<exists>s'. entry junk addr cmos MULTIBOOT_BOOTLOADER_MAGIC mbi s = Some (Running (le32 (bs ! 24) (bs ! 25) (bs ! 26) (bs ! 27)), s')
    \<and> load_bytes s' PROGRAM_IMAGE_ADDR (length bs) = Some bs \<and> process s' = [1, 1, 0, 0, 0, 0]
    \<and> (\<forall>i. running s' i \<longleftrightarrow> i = 0) \<and> proc s' 0 = 1 \<and> sched_inv s' \<and> eflags_IF s' \<and> idt_loaded s'
    \<and> irq_handler_jumptable s' = (irq_handler_jumptable s)[1 := Keyboard_handler, 8 := Rtc_handler, 0 := Pit_handler]
    \<and> master_mask s' = master_mask s AND NOT 7 \<and> slave_mask s' = slave_mask s AND NOT 1"
proof -
  note fr = assms(1) [unfolded fresh_def]
  have wf: "wf_console s" and raw: "raw s" using fr by auto
  obtain s1 S where s1: "clear s = Some s1" "outputs S s s1" using clear_outputs [OF wf] by blast
  have t1: "told s (module_start s) s1" by (rule told_outputs [OF told_refl [OF wf] s1(2)])
  note k = told_facts [OF t1]
  have "raw s1" using k(3) raw by simp
  moreover have "multiboot_ok s1 mbi" using assms(2) mmap_ends_same [OF k(4)] unfolding multiboot_ok_def k(4,5) by simp
  moreover have img: "image_start s1 mbi = image_start s mbi" unfolding image_start_def k(4,6) ..
  ultimately obtain t where t: "report mbi s1 = Some (True, t)" "told s1 (image_start s mbi) t" using report_told [OF k(1), of mbi] by metis
  note k' = told_facts [OF t(2)] and st = told_state [OF t(2)] told_state [OF t1]
  let ?d = "set_descriptors t"
  have ok: "tables_ok ?d" using fr st by (simp add: tables_ok_def set_descriptors_def tables_wf_def)
  from init_components_state [OF ok, of addr cmos] obtain u where u: "init_components addr cmos ?d = Some u" "paging_on u"
    "\<forall>va. translate u va = (if drop_bit 22 va = 1 \<or> drop_bit 12 va = 0xB8 then Some va else None)"
    "phys u = phys ?d" "filesystem_start u = module_start ?d" "boot_block u = module_start ?d"
    "process u = (process ?d)[0 := 1]" "terminal_t u = terminal_t ?d" "terminal_num u = terminal_num ?d"
    "terminal_displayed u = terminal_displayed ?d" "video_mem u = video_mem ?d" "pcb_at u = pcb_at ?d"
    "idt_loaded u" "irq_handler_jumptable u = (irq_handler_jumptable ?d)[1 := Keyboard_handler, 8 := Rtc_handler, 0 := Pit_handler]"
    "master_mask u = ((master_mask ?d AND NOT 4) AND NOT 2) AND NOT 1" "slave_mask u = slave_mask ?d AND NOT 1" by blast
  have d: "phys ?d = phys s" "module_start ?d = image_start s mbi" "process ?d = process s" "pcb_at ?d = pcb_at s" "terminal_num ?d = 0"
    "irq_handler_jumptable ?d = irq_handler_jumptable s" "master_mask ?d = master_mask s" "slave_mask ?d = slave_mask s"
    using st k k' fr by (simp_all add: set_descriptors_def)
  have con: "wf_console u" using k'(1) u(8-11) by (simp add: wf_console_def set_descriptors_def)
  have km: "kernel_mapped u" using u(2,3) by (simp add: kernel_mapped_def kernel_page_def)
  have fl: "flag (term_at u 1) = 0" "flag (term_at u 2) = 0"
    using flags_fresh [OF flags_fresh [OF _ _ t1] t(2)] fr u(8) by (simp_all add: term_at_def set_descriptors_def)
  have b: "take 4 bs = exe_magic_number" "28 \<le> length bs" "length bs \<le> 0x3B8000" "finds_file u (lit ''shell'') inode bs"
    using assms(3) km u(4-6) d(1,2) by (simp_all add: bootable_def)
  have tn: "terminal_num u = 0" and pcb: "wf_pcb (pcb_at u (pcb_addr 1))" using u(9,12) d(4,5) fr by simp_all
  have p: "process u = [1, 0, 0, 0, 0, 0]" using u(7) d(3) fr by (simp add: numeral_eq_Suc)
  obtain s' where s': "execute junk (Some (arr (lit ''shell'' @ [0]))) u = Some (Enter_user (le32 (bs ! 24) (bs ! 25) (bs ! 26) (bs ! 27)), s')"
    "load_bytes s' PROGRAM_IMAGE_ADDR (length bs) = Some bs" "sched_inv s'" "process s' = [1, 1, 0, 0, 0, 0]" "proc s' 0 = 1"
    "\<forall>i. running s' i \<longleftrightarrow> i = 0" "eflags_IF s'" "kernel.more s' = kernel.more u"
    "irq_handler_jumptable s' = irq_handler_jumptable u" "master_mask s' = master_mask u" "slave_mask s' = slave_mask u"
    using execute_first [OF con km p tn fl pcb b(4,1-3) assms(4,5)] by (elim exE conjE) (rule that)
  have "idt_loaded s'" using more_idt_loaded [OF s'(8)] u(13) by simp
  moreover have "entry junk addr cmos MULTIBOOT_BOOTLOADER_MAGIC mbi s = Some (Running (le32 (bs ! 24) (bs ! 25) (bs ! 26) (bs ! 27)), s')"
    unfolding entry_def using s1(1) t(1) u(1) s'(1) by simp
  moreover have "master_mask s' = master_mask s AND NOT 7" using s'(10) u(15) d(7) by (simp add: and.assoc)
  ultimately show ?thesis using s' u(14,16) d(6,8) by simp
qed

text \<open>
  A machine as the boot loader leaves it: the loader's structure at 0x9000 names one module, the image with the shell at 0x410000.
\<close>

definition boot_phys :: "u32 \<Rightarrow> u8" where
  "boot_phys a = (case map_of [(0x9000, 8), (0x9014, 1), (0x9019, 0x91), (0x9102, 0x41)] a of Some b \<Rightarrow> b | None \<Rightarrow> shell_phys a)"

definition blank_seg :: seg_desc_t where
  "blank_seg = \<lparr>seg_lim_15_00 = 0, base_15_00 = 0, base_23_16 = 0, seg_type = 0, seg_sys = 0, seg_dpl = 0, seg_present = 0,
     seg_lim_19_16 = 0, seg_avail = 0, seg_reserved = 0, seg_opsize = 0, seg_granularity = 0, base_31_24 = 0\<rparr>"

definition boot_machine :: boot where
  "boot_machine = (blank_rtc \<lparr>filesystem_start = 0, boot_block = 0, to_test = 0, dir_index = 0, pcb_at = (\<lambda>_. shell_pcb), tss_esp0 = 0, tss_ss0 = 0,
     process = replicate 6 0, current_process_num = 0, syscall_jumptable = replicate 10 None,
     CTRL_PRESS = 0, CAPSLOCK_PRESS = 0, SHIFT_PRESS = 0, ALT_PRESS = 0, terminal_t_at = 0x420000, idt = replicate 256 blank_desc, idt_loaded = False,
     module_start = 0, ldt_desc_ptr = blank_seg, tss_desc_ptr = blank_seg, ldt_at = 0x405000, ldt_size = 0, tss_at = 0x405100, tss_size = 104,
     tss_ldt_segment_selector = 0, ldtr = 0, tr = 0\<rparr>)\<lparr>phys := boot_phys\<rparr>"

lemma boot_fields [simp]: "phys boot_machine = boot_phys" "module_start boot_machine = 0"
  "irq_handler_jumptable boot_machine = replicate 16 EXC_FINISHED" "master_mask boot_machine = 0xFF" "slave_mask boot_machine = 0xFF"
  by (simp_all add: boot_machine_def blank_rtc_def blank_defs)

lemma boot_phys_image: "kernel_page a \<Longrightarrow> boot_phys a = shell_phys a"
  by (auto simp: boot_phys_def kernel_page_def)

lemma boot_words: "word_at boot_machine 0x9000 = 8" "word_at boot_machine 0x9014 = 1" "word_at boot_machine 0x9018 = 0x9100"
  "word_at boot_machine 0x9100 = 0x410000"
  by (simp_all add: word_at_def boot_phys_def shell_phys_def shell_image_def le32_def)

lemma boot_loaded: "multiboot_ok boot_machine 0x9000" "image_start boot_machine 0x9000 = 0x410000"
  by (simp_all add: multiboot_ok_def image_start_def CHECK_FLAG_def boot_words)

lemma boot_fresh: "fresh boot_machine"
  using wf_blank_terminal
  by (simp add: fresh_def tables_ok_def tables_wf_def raw_def boot_machine_def blank_rtc_def blank_defs wf_console_def term_at_def blank_terminal_def wf_pcb_shell)

lemma boot_image: "bootable boot_machine 0x410000 0 shell_file"
proof -
  have "finds_file t (lit ''shell'') 0 shell_file"
    if "kernel_mapped t" "phys t = boot_phys" "filesystem_start t = 0x410000" "boot_block t = 0x410000" for t :: boot
    by (rule shell_in_view) (use that in \<open>simp add: shell_view_def kernel_mapped_def load8_def boot_phys_image\<close>)
  then show ?thesis by (simp add: bootable_def shell_file_facts)
qed

theorem boot_starts_shell_witness:
  "\<exists>s'. entry (replicate 4 0, replicate 4 0) (\<lambda>_. 0x400100) 0 MULTIBOOT_BOOTLOADER_MAGIC 0x9000 boot_machine = Some (Running 0x8048000, s')
    \<and> process s' = [1, 1, 0, 0, 0, 0] \<and> sched_inv s' \<and> master_mask s' = 0xF8 \<and> slave_mask s' = 0xFE"
  using boot_starts_shell [OF boot_fresh boot_loaded(1), of 0 shell_file "(replicate 4 0, replicate 4 0)" "\<lambda>_. 0x400100" 0] boot_image
  by (simp add: boot_loaded(2) shell_file_facts) blast

end
