(* ===== verification/User_Lib.thy ===== *)
theory User_Lib
  imports Lib_Str
begin

text \<open>
  The support library of the user programs, syscalls/ece391support.c (fish/ece391support.c has the first five routines in the same
  form), and the system calls that a user program sees, syscalls/ece391syscall.h.

  A pointer argument of a system call is the array it points into, from the pointer on; a call that writes through the pointer
  returns the new contents. The calls are a record of functions on the state of the system, so that the programs do not depend on
  what implements them. \<open>None\<close> is a call that does not come back.
\<close>

section \<open>Strings\<close>

partial_function (option) ece391_strlen_loop :: "cstr \<Rightarrow> nat \<Rightarrow> nat option" where
  "ece391_strlen_loop s len = do {
     c \<leftarrow> s len;
     if 0 \<noteq> c then ece391_strlen_loop s (Suc len) else Some len
   }"

definition ece391_strlen :: "cstr \<Rightarrow> nat option" where
  "ece391_strlen s = ece391_strlen_loop s 0"

text \<open>\<open>while ('\0' != (*dst++ = *src++));\<close> over a memory with a reader of the source and a writer of the destination.\<close>

partial_function (option) ece391_strcpy_loop ::
  "('m \<Rightarrow> nat \<Rightarrow> u8 option) \<Rightarrow> ('m \<Rightarrow> nat \<Rightarrow> u8 \<Rightarrow> 'm option) \<Rightarrow> nat \<Rightarrow> 'm \<Rightarrow> 'm option" where
  "ece391_strcpy_loop src dst i m = do {
     c \<leftarrow> src m i;
     m \<leftarrow> dst m i c;
     if 0 \<noteq> c then ece391_strcpy_loop src dst (Suc i) m else Some m
   }"

definition ece391_strcpy ::
  "('m \<Rightarrow> nat \<Rightarrow> u8 option) \<Rightarrow> ('m \<Rightarrow> nat \<Rightarrow> u8 \<Rightarrow> 'm option) \<Rightarrow> 'm \<Rightarrow> 'm option" where
  "ece391_strcpy src dst m = ece391_strcpy_loop src dst 0 m"

partial_function (option) ece391_strcmp_loop :: "cstr \<Rightarrow> cstr \<Rightarrow> nat \<Rightarrow> int option" where
  "ece391_strcmp_loop s1 s2 i = do {
     a \<leftarrow> s1 i;
     b \<leftarrow> s2 i;
     if a = b then if a = 0 then Some 0 else ece391_strcmp_loop s1 s2 (Suc i)
     else Some (uint a - uint b)
   }"

definition ece391_strcmp :: "cstr \<Rightarrow> cstr \<Rightarrow> int option" where
  "ece391_strcmp s1 s2 = ece391_strcmp_loop s1 s2 0"

text \<open>\<open>n\<close> characters are left; the loop is entered with \<open>n \<noteq> 0\<close>.\<close>

primrec ece391_strncmp_loop :: "cstr \<Rightarrow> cstr \<Rightarrow> nat \<Rightarrow> nat \<Rightarrow> int option" where
  "ece391_strncmp_loop s1 s2 i 0 = Some 0"
| "ece391_strncmp_loop s1 s2 i (Suc n) = do {
     a \<leftarrow> s1 i;
     b \<leftarrow> s2 i;
     if a = b then if a = 0 \<or> n = 0 then Some 0 else ece391_strncmp_loop s1 s2 (Suc i) n
     else Some (uint a - uint b)
   }"

definition ece391_strncmp :: "cstr \<Rightarrow> cstr \<Rightarrow> nat \<Rightarrow> int option" where
  "ece391_strncmp s1 s2 n = (if n = 0 then Some 0 else ece391_strncmp_loop s1 s2 0 n)"

section \<open>Numbers\<close>

function ece391_strrev_loop :: "int \<Rightarrow> int \<Rightarrow> u8 list \<Rightarrow> u8 list option" where
  "ece391_strrev_loop beg end s =
     (if beg < end then do {
        tmp \<leftarrow> aget s end;
        b \<leftarrow> aget s beg;
        s \<leftarrow> aset s end b;
        s \<leftarrow> aset s beg tmp;
        ece391_strrev_loop (beg + 1) (end - 1) s
      } else Some s)"
  by pat_completeness auto
termination
  by (relation "measure (\<lambda>(beg, end, s). nat (end - beg))") auto

declare ece391_strrev_loop.simps [simp del]

definition ece391_strrev :: "u8 list \<Rightarrow> u8 list option" where
  "ece391_strrev s = do {
     n \<leftarrow> ece391_strlen (arr s);
     let end = int n - 1;
     if end \<le> 0 then Some s else ece391_strrev_loop 0 end s
   }"

definition ece391_lookup :: "u8 list" where
  "ece391_lookup = lit ''0123456789ABCDEFGHIJKLMNOPQRSTUVWXYZ'' @ [0]"

text \<open>\<open>newval % radix\<close> with an unsigned and a signed operand is unsigned; a zero radix raises the divide exception.\<close>

partial_function (option) ece391_itoa_loop :: "u32 \<Rightarrow> u32 \<Rightarrow> nat \<Rightarrow> u8 list \<Rightarrow> (nat \<times> u8 list) option" where
  "ece391_itoa_loop newval radix pos buf =
     (if newval > 0 then
        if radix = 0 then None
        else do {
          d \<leftarrow> aget ece391_lookup (uint (newval mod radix));
          buf \<leftarrow> aset buf (int pos) d;
          ece391_itoa_loop (newval div radix) radix (Suc pos) buf
        }
      else Some (pos, buf))"

definition ece391_itoa :: "u32 \<Rightarrow> u8 list \<Rightarrow> u32 \<Rightarrow> u8 list option" where
  "ece391_itoa value buf radix =
     (if value = 0 then do {
        buf \<leftarrow> aset buf 0 (byte_of (CHR ''0''));
        aset buf 1 0
      } else do {
        (pos, buf) \<leftarrow> ece391_itoa_loop value radix 0 buf;
        buf \<leftarrow> aset buf (int pos) 0;
        ece391_strrev buf
      })"

section \<open>System calls\<close>

record 'k calls =
  ece391_execute :: "u8 list \<Rightarrow> 'k \<Rightarrow> (int \<times> 'k) option"
  ece391_read :: "int \<Rightarrow> u8 list \<Rightarrow> int \<Rightarrow> 'k \<Rightarrow> (int \<times> u8 list \<times> 'k) option"
  ece391_write :: "int \<Rightarrow> u8 list \<Rightarrow> int \<Rightarrow> 'k \<Rightarrow> (int \<times> 'k) option"
  ece391_open :: "u8 list \<Rightarrow> 'k \<Rightarrow> (int \<times> 'k) option"
  ece391_close :: "int \<Rightarrow> 'k \<Rightarrow> (int \<times> 'k) option"
  ece391_getargs :: "u8 list \<Rightarrow> int \<Rightarrow> 'k \<Rightarrow> (int \<times> u8 list \<times> 'k) option"
  ece391_vidmap :: "u32 \<Rightarrow> 'k \<Rightarrow> (int \<times> 'k) option"
  ece391_number :: "int \<Rightarrow> 'k \<Rightarrow> (int \<times> 'k) option"

text \<open>
  \<open>ece391_vidmap\<close> has the address of the pointer to be set, \<open>ece391_number\<close> is \<open>int $0x80\<close> with an arbitrary call number.
  A string literal of a program, with its terminating NUL; \<open>line\<close> is one that ends in \<open>\n\<close>.
\<close>

definition literal :: "string \<Rightarrow> u8 list" where
  "literal t = lit t @ [0]"

definition line :: "string \<Rightarrow> u8 list" where
  "line t = lit t @ [10, 0]"

definition ece391_fdputs :: "'k calls \<Rightarrow> int \<Rightarrow> u8 list \<Rightarrow> 'k \<Rightarrow> 'k option" where
  "ece391_fdputs C fd s k = do {
     n \<leftarrow> ece391_strlen (arr s);
     (r, k) \<leftarrow> ece391_write C fd s (int n) k;
     Some k
   }"

section \<open>The library against the kernel's\<close>

lemma option_eqI: "(\<And>y. a = Some y \<Longrightarrow> b = Some y) \<Longrightarrow> (\<And>y. b = Some y \<Longrightarrow> a = Some y) \<Longrightarrow> a = b"
  by (cases a; cases b) auto

lemma ece391_strlen_loop_eq: "ece391_strlen_loop s i = strlen_loop s i"
proof (rule option_eqI)
  fix n
  show "ece391_strlen_loop s i = Some n \<Longrightarrow> strlen_loop s i = Some n"
    by (erule ece391_strlen_loop.raw_induct [where P = "\<lambda>s i n. strlen_loop s i = Some n", rotated])
      (subst strlen_loop.simps, auto simp: bind_eq_Some_conv split: if_splits)
  show "strlen_loop s i = Some n \<Longrightarrow> ece391_strlen_loop s i = Some n"
    by (erule strlen_loop.raw_induct [where P = "\<lambda>s i n. ece391_strlen_loop s i = Some n", rotated])
      (subst ece391_strlen_loop.simps, auto simp: bind_eq_Some_conv split: if_splits)
qed

lemma ece391_strlen_eq: "ece391_strlen s = strlen s"
  by (simp add: ece391_strlen_def strlen_def ece391_strlen_loop_eq)

lemma ece391_strrev_loop_eq: "ece391_strrev_loop b e t = strrev_loop b e t"
proof (induction b e t rule: ece391_strrev_loop.induct)
  case (1 b e t)
  then show ?case
    by (subst ece391_strrev_loop.simps, subst strrev_loop.simps) (auto split: Option.bind_splits cong: Option.bind_cong)
qed

lemma ece391_strrev_eq: "ece391_strrev s = strrev s"
proof -
  have "strrev_loop 0 e t = Some t" if "e \<le> 0" for e t using that by (subst strrev_loop.simps) simp
  then show ?thesis unfolding ece391_strrev_def strrev_def ece391_strlen_eq Let_def ece391_strrev_loop_eq
    by (cases "strlen (arr s)") auto
qed

lemma ece391_itoa_loop_eq: "ece391_itoa_loop v r p buf = itoa_loop v r p buf"
proof (rule option_eqI)
  have l: "ece391_lookup = lookup" by (simp add: ece391_lookup_def lookup_def)
  fix y
  show "ece391_itoa_loop v r p buf = Some y \<Longrightarrow> itoa_loop v r p buf = Some y"
    by (erule ece391_itoa_loop.raw_induct [where P = "\<lambda>v r p buf y. itoa_loop v r p buf = Some y", rotated])
      (subst itoa_loop.simps, auto simp: l bind_eq_Some_conv split: if_splits)
  show "itoa_loop v r p buf = Some y \<Longrightarrow> ece391_itoa_loop v r p buf = Some y"
    by (erule itoa_loop.raw_induct [where P = "\<lambda>v r p buf y. ece391_itoa_loop v r p buf = Some y", rotated])
      (subst ece391_itoa_loop.simps, auto simp: l bind_eq_Some_conv split: if_splits)
qed

lemma ece391_itoa_eq: "ece391_itoa v buf radix = itoa v buf radix"
  unfolding ece391_itoa_def itoa_def ece391_itoa_loop_eq by (simp add: ece391_strrev_eq fun_eq_iff cong: Option.bind_cong)

text \<open>The length of a text up to its NUL, and what \<open>fdputs\<close> writes.\<close>

lemma fdputs_write: "0 \<notin> set xs \<Longrightarrow> ece391_fdputs C fd (xs @ 0 # ys) k
    = do { (r, k) \<leftarrow> ece391_write C fd (xs @ 0 # ys) (int (length xs)) k; Some k }"
  by (simp add: ece391_fdputs_def ece391_strlen_eq)

section \<open>Comparison\<close>

lemma strcmp_loop_suffix:
  assumes "cstr_at s1 xs" and "cstr_at s2 ys" and "i \<le> length xs" and "i \<le> length ys" and "take i xs = take i ys"
  shows "\<exists>d. ece391_strcmp_loop s1 s2 i = Some d \<and> (d = 0 \<longleftrightarrow> xs = ys)"
  using assms(3-)
proof (induction "length xs - i" arbitrary: i)
  case 0
  then have i: "i = length xs" by simp
  define b where "b = (if i < length ys then ys ! i else 0)"
  have b: "s2 i = Some b" "b = 0 \<longleftrightarrow> length ys = i" using assms(2) 0 cstr_at_nonzero [OF assms(2), of i] by (auto simp: b_def cstr_at_def le_less)
  have a: "s1 i = Some 0" using assms(1) i by (simp add: cstr_at_def)
  have "xs = ys \<longleftrightarrow> length ys = i" using i 0 by auto
  moreover have "uint b = 0 \<longleftrightarrow> b = 0" by (simp add: word_uint_eq_iff)
  ultimately show ?case using a b by (subst ece391_strcmp_loop.simps) auto
next
  case (Suc n)
  then have i: "i < length xs" by simp
  have a: "s1 i = Some (xs ! i)" "xs ! i \<noteq> 0" using assms(1) i cstr_at_nonzero by (auto simp: cstr_at_def)
  show ?case
  proof (cases "i < length ys \<and> xs ! i = ys ! i")
    case True
    then have "s2 i = Some (xs ! i)" using assms(2) by (simp add: cstr_at_def)
    moreover have "take (Suc i) xs = take (Suc i) ys" using Suc.prems True i by (simp add: take_Suc_conv_app_nth)
    ultimately show ?thesis using Suc.hyps(1) [of "Suc i"] Suc.hyps(2) True i a by (subst ece391_strcmp_loop.simps) auto
  next
    case False
    define b where "b = (if i < length ys then ys ! i else 0)"
    have b: "s2 i = Some b" "xs ! i \<noteq> b" using assms(2) Suc.prems(2) False a by (auto simp: b_def cstr_at_def le_less)
    then have "ece391_strcmp_loop s1 s2 i = Some (uint (xs ! i) - uint b)" using a by (subst ece391_strcmp_loop.simps) simp
    moreover have "uint (xs ! i) \<noteq> uint b" using b(2) by (simp add: word_uint_eq_iff)
    moreover have "xs \<noteq> ys" using False i by auto
    ultimately show ?thesis by simp
  qed
qed

lemma strcmp_decides:
  assumes "cstr_at s1 xs" and "cstr_at s2 ys"
  shows "\<exists>d. ece391_strcmp s1 s2 = Some d \<and> (d = 0 \<longleftrightarrow> xs = ys)"
  using strcmp_loop_suffix [OF assms, of 0] by (simp add: ece391_strcmp_def)

lemma strncmp_loop_prefix:
  assumes "cstr_at s2 ys" and "\<And>j. j \<le> n \<Longrightarrow> i + j < m \<Longrightarrow> s1 (i + j) = Some (f (i + j)) \<and> f (i + j) \<noteq> 0" and "s1 m = Some 0" and "i \<le> m"
    and "i + n = length ys" and "0 < n"
  shows "\<exists>d. ece391_strncmp_loop s1 s2 i n = Some d \<and> (d = 0 \<longleftrightarrow> i + n \<le> m \<and> (\<forall>j. i \<le> j \<and> j < i + n \<longrightarrow> f j = ys ! j))"
  using assms(2-)
proof (induction n arbitrary: i)
  case (Suc n)
  have b: "s2 i = Some (ys ! i)" "ys ! i \<noteq> 0" using Suc.prems(4) assms(1) cstr_at_nonzero [OF assms(1), of i] by (auto simp: cstr_at_def)
  show ?case
  proof (cases "i < m \<and> f i = ys ! i")
    case True
    then have a: "s1 i = Some (ys ! i)" using Suc.prems(1) [of 0] by simp
    show ?thesis
    proof (cases "n = 0")
      case True
      then have "j = i" if "i \<le> j" "j < i + Suc n" for j using that by simp
      then have "\<forall>j. i \<le> j \<and> j < i + Suc n \<longrightarrow> f j = ys ! j" using \<open>i < m \<and> f i = ys ! i\<close> by blast
      with True a b \<open>i < m \<and> f i = ys ! i\<close> show ?thesis by simp
    next
      case False
      have "\<exists>d. ece391_strncmp_loop s1 s2 (Suc i) n = Some d \<and> (d = 0 \<longleftrightarrow> Suc i + n \<le> m \<and> (\<forall>j. Suc i \<le> j \<and> j < Suc i + n \<longrightarrow> f j = ys ! j))"
        by (rule Suc.IH) (use Suc.prems(2,4) Suc.prems(1) [of "Suc _"] True False in auto)
      moreover have "(\<forall>j. i \<le> j \<and> j < i + Suc n \<longrightarrow> f j = ys ! j) \<longleftrightarrow> (\<forall>j. Suc i \<le> j \<and> j < Suc i + n \<longrightarrow> f j = ys ! j)"
        using True by (metis Suc_leI add_Suc_right add_Suc le_neq_implies_less Suc_leD)
      ultimately show ?thesis using a b False by auto
    qed
  next
    case False
    define a where "a = (if i < m then f i else 0)"
    have a: "s1 i = Some a" "a \<noteq> ys ! i" using Suc.prems(1) [of 0] Suc.prems(2,3) False b(2) by (auto simp: a_def)
    then have "ece391_strncmp_loop s1 s2 i (Suc n) = Some (uint a - uint (ys ! i))" using b by simp
    moreover have "uint a \<noteq> uint (ys ! i)" using a(2) by (simp add: word_uint_eq_iff)
    moreover have "\<not> (i + Suc n \<le> m \<and> (\<forall>j. i \<le> j \<and> j < i + Suc n \<longrightarrow> f j = ys ! j))" using False by auto
    ultimately show ?thesis by simp
  qed
qed simp

end
