(* ===== verification/Programs.thy ===== *)
theory Programs
  imports User_Lib
begin

text \<open>
  The user programs of syscalls/: \<open>cat\<close>, \<open>ls\<close>, \<open>grep\<close>, \<open>hello\<close>, \<open>shell\<close>, \<open>counter\<close>, \<open>testprint\<close>, \<open>pingpong\<close> and \<open>syserr\<close>, each as a
  function of the system calls \<open>C\<close>, the contents that its local arrays happen to have, and the state of the system. The result is
  the value that \<open>main\<close> returns with the final state.
\<close>

section \<open>cat\<close>

partial_function (option) cat_loop :: "'k calls \<Rightarrow> int \<Rightarrow> u8 list \<Rightarrow> 'k \<Rightarrow> (int \<times> 'k) option" where
  "cat_loop C fd buf k = do {
     (cnt, buf, k) \<leftarrow> ece391_read C fd buf 1024 k;
     if cnt = 0 then Some (0, k)
     else if cnt = -1 then do {
       k \<leftarrow> ece391_fdputs C 1 (line ''file read failed'') k;
       Some (3, k)
     } else do {
       (r, k) \<leftarrow> ece391_write C 1 buf cnt k;
       if r = -1 then Some (3, k) else cat_loop C fd buf k
     }
   }"

definition cat_main :: "'k calls \<Rightarrow> u8 list \<Rightarrow> 'k \<Rightarrow> (int \<times> 'k) option" where
  "cat_main C buf k = do {
     (r, buf, k) \<leftarrow> ece391_getargs C buf 1024 k;
     if r \<noteq> 0 then do {
       k \<leftarrow> ece391_fdputs C 1 (line ''could not read arguments'') k;
       Some (3, k)
     } else do {
       (fd, k) \<leftarrow> ece391_open C buf k;
       if fd = -1 then do {
         k \<leftarrow> ece391_fdputs C 1 (line ''file not found'') k;
         Some (2, k)
       } else cat_loop C fd buf k
     }
   }"

section \<open>ls\<close>

partial_function (option) ls_loop :: "'k calls \<Rightarrow> int \<Rightarrow> u8 list \<Rightarrow> 'k \<Rightarrow> (int \<times> 'k) option" where
  "ls_loop C fd buf k = do {
     (cnt, buf, k) \<leftarrow> ece391_read C fd buf 32 k;
     if cnt = 0 then Some (0, k)
     else if cnt = -1 then do {
       k \<leftarrow> ece391_fdputs C 1 (line ''directory entry read failed'') k;
       Some (3, k)
     } else do {
       buf \<leftarrow> aset buf cnt 10;
       (r, k) \<leftarrow> ece391_write C 1 buf (cnt + 1) k;
       if r = -1 then Some (3, k) else ls_loop C fd buf k
     }
   }"

definition ls_main :: "'k calls \<Rightarrow> u8 list \<Rightarrow> 'k \<Rightarrow> (int \<times> 'k) option" where
  "ls_main C buf k = do {
     (fd, k) \<leftarrow> ece391_open C (literal ''.'') k;
     if fd = -1 then do {
       k \<leftarrow> ece391_fdputs C 1 (line ''directory open failed'') k;
       Some (2, k)
     } else ls_loop C fd buf k
   }"

section \<open>grep\<close>

text \<open>
  \<open>while (line_end < last && '\n' != data[line_end]) line_end++;\<close>, with \<open>n\<close> positions left before \<open>last\<close>.
\<close>

primrec find_line_end :: "u8 list \<Rightarrow> nat \<Rightarrow> int \<Rightarrow> int option" where
  "find_line_end data 0 line_end = Some line_end"
| "find_line_end data (Suc n) line_end = do {
     c \<leftarrow> aget data line_end;
     if 10 \<noteq> c then find_line_end data n (line_end + 1) else Some line_end
   }"

text \<open>
  The search of one line: \<open>n\<close> positions are left, \<open>check\<close> is the current one. The first character is compared as a signed \<open>char\<close>
  with an unsigned byte.
\<close>

primrec search_line :: "'k calls \<Rightarrow> u8 list \<Rightarrow> u8 list \<Rightarrow> nat \<Rightarrow> u8 list \<Rightarrow> int \<Rightarrow> nat \<Rightarrow> int \<Rightarrow> 'k \<Rightarrow> 'k option" where
  "search_line C s fname s_len data line_start 0 check k = Some k"
| "search_line C s fname s_len data line_start (Suc n) check k = do {
     a \<leftarrow> aget s 0;
     b \<leftarrow> aget data check;
     found \<leftarrow> (if sint a = uint b then do {
                 d \<leftarrow> ece391_strncmp (arr (drop (nat check) data)) (arr s) s_len;
                 Some (d = 0)
               } else Some False);
     if found then do {
       k \<leftarrow> ece391_fdputs C 1 fname k;
       k \<leftarrow> ece391_fdputs C 1 (literal '':'') k;
       k \<leftarrow> ece391_fdputs C 1 (drop (nat line_start) data) k;
       ece391_fdputs C 1 [10, 0] k
     } else search_line C s fname s_len data line_start n (check + 1) k
   }"

text \<open>The loop over the lines of the buffer; the result is the number of bytes kept, the buffer and the state.\<close>

partial_function (option) grep_lines ::
  "'k calls \<Rightarrow> u8 list \<Rightarrow> u8 list \<Rightarrow> nat \<Rightarrow> int \<Rightarrow> int \<Rightarrow> u8 list \<Rightarrow> int \<Rightarrow> 'k \<Rightarrow> (int \<times> u8 list \<times> 'k) option" where
  "grep_lines C s fname s_len cnt last' data line_start k = do {
     line_end \<leftarrow> find_line_end data (nat (last' - line_start)) line_start;
     c \<leftarrow> aget data line_end;
     if 10 \<noteq> c \<and> 0 \<noteq> cnt \<and> line_start \<noteq> 0 then do {
       data \<leftarrow> aset data line_end 0;
       data \<leftarrow> ece391_strcpy (\<lambda>d i. arr d (nat line_start + i)) arr_wr data;
       Some (last' - line_start, data, k)
     } else do {
       data \<leftarrow> aset data line_end 0;
       k \<leftarrow> search_line C s fname s_len data line_start (nat (line_end - line_start)) line_start k;
       let line_start = line_end + 1;
       if line_start \<ge> last' then Some (0, data, k)
       else grep_lines C s fname s_len cnt last' data line_start k
     }
   }"

partial_function (option) grep_loop ::
  "'k calls \<Rightarrow> u8 list \<Rightarrow> u8 list \<Rightarrow> nat \<Rightarrow> int \<Rightarrow> int \<Rightarrow> u8 list \<Rightarrow> 'k \<Rightarrow> (int \<times> 'k) option" where
  "grep_loop C s fname s_len fd last' data k = do {
     (cnt, rest, k) \<leftarrow> ece391_read C fd (drop (nat last') data) (1024 - last') k;
     let data = take (nat last') data @ rest;
     if cnt = -1 then do {
       k \<leftarrow> ece391_fdputs C 1 (line ''file read failed'') k;
       Some (-1, k)
     } else do {
       (last', data, k) \<leftarrow> grep_lines C s fname s_len cnt (last' + cnt) data 0 k;
       if cnt = 0 then do {
         (r, k) \<leftarrow> ece391_close C fd k;
         if r = -1 then do {
           k \<leftarrow> ece391_fdputs C 1 (line ''file close failed'') k;
           Some (-1, k)
         } else Some (0, k)
       } else grep_loop C s fname s_len fd last' data k
     }
   }"

definition do_one_file :: "'k calls \<Rightarrow> u8 list \<Rightarrow> u8 list \<Rightarrow> u8 list \<Rightarrow> 'k \<Rightarrow> (int \<times> 'k) option" where
  "do_one_file C data s fname k = do {
     s_len \<leftarrow> ece391_strlen (arr s);
     (fd, k) \<leftarrow> ece391_open C fname k;
     if fd = -1 then do {
       k \<leftarrow> ece391_fdputs C 1 (line ''file open failed'') k;
       Some (-1, k)
     } else grep_loop C s fname s_len fd 0 data k
   }"

text \<open>The loop over the directory; \<open>junk n\<close> is what the buffer of the call for the \<open>n\<close>-th entry happens to hold.\<close>

partial_function (option) grep_files :: "'k calls \<Rightarrow> (nat \<Rightarrow> u8 list) \<Rightarrow> nat \<Rightarrow> u8 list \<Rightarrow> int \<Rightarrow> u8 list \<Rightarrow> 'k \<Rightarrow> (int \<times> 'k) option" where
  "grep_files C junk n search fd buf k = do {
     (cnt, buf, k) \<leftarrow> ece391_read C fd buf 32 k;
     if cnt = 0 then Some (0, k)
     else if cnt = -1 then do {
       k \<leftarrow> ece391_fdputs C 1 (line ''directory entry read failed'') k;
       Some (3, k)
     } else do {
       c \<leftarrow> aget buf 0;
       if byte_of (CHR ''.'') = c then grep_files C junk (Suc n) search fd buf k
       else do {
         buf \<leftarrow> aset buf cnt 0;
         (r, k) \<leftarrow> do_one_file C (junk n) search buf k;
         if r \<noteq> 0 then Some (3, k) else grep_files C junk (Suc n) search fd buf k
       }
     }
   }"

definition grep_main :: "'k calls \<Rightarrow> (nat \<Rightarrow> u8 list) \<Rightarrow> u8 list \<Rightarrow> u8 list \<Rightarrow> 'k \<Rightarrow> (int \<times> 'k) option" where
  "grep_main C junk buf search k = do {
     (r, search, k) \<leftarrow> ece391_getargs C search 1024 k;
     if r \<noteq> 0 then do {
       k \<leftarrow> ece391_fdputs C 1 (line ''could not read argument'') k;
       Some (3, k)
     } else do {
       (fd, k) \<leftarrow> ece391_open C (literal ''.'') k;
       if fd = -1 then do {
         k \<leftarrow> ece391_fdputs C 1 (line ''directory open failed'') k;
         Some (2, k)
       } else grep_files C junk 0 search fd buf k
     }
   }"

section \<open>hello and testprint\<close>

definition hello_main :: "'k calls \<Rightarrow> u8 list \<Rightarrow> 'k \<Rightarrow> (int \<times> 'k) option" where
  "hello_main C buf k = do {
     k \<leftarrow> ece391_fdputs C 1 (literal ''Hi, what's your name? '') k;
     (cnt, buf, k) \<leftarrow> ece391_read C 0 buf 1023 k;
     if cnt = -1 then do {
       k \<leftarrow> ece391_fdputs C 1 (line ''Can't read name from keyboard.'') k;
       Some (3, k)
     } else do {
       buf \<leftarrow> aset buf cnt 0;
       k \<leftarrow> ece391_fdputs C 1 (literal ''Hello, '') k;
       k \<leftarrow> ece391_fdputs C 1 buf k;
       Some (0, k)
     }
   }"

definition testprint_main :: "'k calls \<Rightarrow> 'k \<Rightarrow> (int \<times> 'k) option" where
  "testprint_main C k = do {
     k \<leftarrow> ece391_fdputs C 1 (line ''Hello, if this ran, the program was correct. Yay!'') k;
     Some (0, k)
   }"

section \<open>shell\<close>

definition report_status :: "'k calls \<Rightarrow> int \<Rightarrow> 'k \<Rightarrow> 'k option" where
  "report_status C rval k =
     (if rval = -1 then ece391_fdputs C 1 (line ''no such command'') k
      else if rval = 256 then ece391_fdputs C 1 (line ''program terminated by exception'') k
      else if rval \<noteq> 0 then ece391_fdputs C 1 (line ''program terminated abnormally'') k
      else Some k)"

partial_function (option) shell_loop :: "'k calls \<Rightarrow> u8 list \<Rightarrow> 'k \<Rightarrow> (int \<times> 'k) option" where
  "shell_loop C buf k = do {
     k \<leftarrow> ece391_fdputs C 1 (literal ''391OS> '') k;
     (cnt, buf, k) \<leftarrow> ece391_read C 0 buf 1023 k;
     if cnt = -1 then do {
       k \<leftarrow> ece391_fdputs C 1 (line ''read from keyboard failed'') k;
       Some (3, k)
     } else do {
       cnt \<leftarrow> (if cnt > 0 then do { c \<leftarrow> aget buf (cnt - 1); Some (if c = 10 then cnt - 1 else cnt) } else Some cnt);
       buf \<leftarrow> aset buf cnt 0;
       d \<leftarrow> ece391_strcmp (arr buf) (arr (literal ''exit''));
       if d = 0 then Some (0, k)
       else do {
         c \<leftarrow> aget buf 0;
         if c = 0 then shell_loop C buf k
         else do {
           (rval, k) \<leftarrow> ece391_execute C buf k;
           k \<leftarrow> report_status C rval k;
           shell_loop C buf k
         }
       }
     }
   }"

definition shell_main :: "'k calls \<Rightarrow> u8 list \<Rightarrow> 'k \<Rightarrow> (int \<times> 'k) option" where
  "shell_main C buf k = do {
     k \<leftarrow> ece391_fdputs C 1 (line ''Starting 391 Shell'') k;
     shell_loop C buf k
   }"

section \<open>counter\<close>

definition counter_max :: "u8 \<Rightarrow> nat" where
  "counter_max c = (if c = byte_of (CHR ''0'') then 100 else if c = byte_of (CHR ''1'') then 10000
     else if c = byte_of (CHR ''2'') then 100000 else 0)"

definition counter_main :: "'k calls \<Rightarrow> u8 list \<Rightarrow> 'k \<Rightarrow> (int \<times> 'k) option" where
  "counter_main C buf k = do {
     k \<leftarrow> ece391_fdputs C 1 (line ''Enter the Test Number: (0): 100, (1): 10000, (2): 100000'') k;
     (cnt, buf, k) \<leftarrow> ece391_read C 0 buf 1023 k;
     if cnt = -1 then do {
       k \<leftarrow> ece391_fdputs C 1 (line ''Can't read the number from keyboard.'') k;
       Some (3, k)
     } else do {
       buf \<leftarrow> aset buf cnt 0;
       n \<leftarrow> ece391_strlen (arr buf);
       c \<leftarrow> aget buf 0;
       if n > 2 \<or> n = 2 \<and> (c < byte_of (CHR ''0'') \<or> c > byte_of (CHR ''2'')) then do {
         k \<leftarrow> ece391_fdputs C 1 (line ''Wrong Choice!'') k;
         Some (0, k)
       } else do {
         (buf, k) \<leftarrow> for_range 0 (counter_max c) (\<lambda>i (buf, k). do {
             buf \<leftarrow> ece391_itoa (of_nat i + 1) buf 10;
             k \<leftarrow> ece391_fdputs C 1 buf k;
             k \<leftarrow> ece391_fdputs C 1 [10, 0] k;
             Some (buf, k)
           }) (buf, k);
         Some (0, k)
       }
     }
   }"

section \<open>pingpong\<close>

text \<open>The buffer with its walls, and one picture with the character at position \<open>j\<close>, after which the program waits for a tick.\<close>

definition pingpong_buf :: "u8 list \<Rightarrow> u8 list option" where
  "pingpong_buf buf = do {
     buf \<leftarrow> for_range 0 81 (\<lambda>i buf. aset buf (int i) 32) buf;
     buf \<leftarrow> aset buf 80 0;
     buf \<leftarrow> aset buf 79 10;
     buf \<leftarrow> aset buf 78 124;
     aset buf 1 124
   }"

definition pingpong_frame :: "'k calls \<Rightarrow> int \<Rightarrow> u8 list \<Rightarrow> u8 \<Rightarrow> nat \<Rightarrow> u8 list \<times> 'k \<Rightarrow> (u8 list \<times> 'k) option" where
  "pingpong_frame C rtc_fd garbage curchar j bk = do {
     let (buf, k) = bk;
     buf \<leftarrow> for_range 2 78 (\<lambda>i buf. aset buf (int i) 32) buf;
     buf \<leftarrow> aset buf (int j) curchar;
     k \<leftarrow> ece391_fdputs C 1 buf k;
     (r, g, k) \<leftarrow> ece391_read C rtc_fd garbage 4 k;
     Some (buf, k)
   }"

text \<open>One round: out from 2 to 77, back from 77 to 2.\<close>

definition pingpong_round :: "'k calls \<Rightarrow> int \<Rightarrow> u8 list \<Rightarrow> u8 \<Rightarrow> u8 list \<times> 'k \<Rightarrow> (u8 list \<times> 'k) option" where
  "pingpong_round C rtc_fd garbage curchar bk = do {
     bk \<leftarrow> for_range 2 78 (pingpong_frame C rtc_fd garbage curchar) bk;
     for_range 2 78 (\<lambda>i. pingpong_frame C rtc_fd garbage curchar (79 - i)) bk
   }"

definition next_char :: "u8 \<Rightarrow> u8" where
  "next_char curchar = (if curchar = byte_of (CHR ''Z'') then byte_of (CHR ''A'') else curchar + 1)"

partial_function (option) pingpong_loop :: "'k calls \<Rightarrow> int \<Rightarrow> u8 list \<Rightarrow> u8 \<Rightarrow> u8 list \<times> 'k \<Rightarrow> (int \<times> 'k) option" where
  "pingpong_loop C rtc_fd garbage curchar bk = do {
     bk \<leftarrow> pingpong_round C rtc_fd garbage curchar bk;
     pingpong_loop C rtc_fd garbage (next_char curchar) bk
   }"

definition pingpong_main :: "'k calls \<Rightarrow> u8 list \<Rightarrow> u8 list \<Rightarrow> 'k \<Rightarrow> (int \<times> 'k) option" where
  "pingpong_main C garbage buf k = do {
     buf \<leftarrow> pingpong_buf buf;
     (rtc_fd, k) \<leftarrow> ece391_open C (literal ''rtc'') k;
     (r, k) \<leftarrow> ece391_write C rtc_fd [32, 0, 0, 0] 4 k;
     pingpong_loop C rtc_fd garbage (byte_of (CHR ''A'')) (buf, k)
   }"

section \<open>syserr\<close>

text \<open>
  A check that a call returns -1: \<open>expect msg fail r k\<close> prints the message and sets \<open>fail\<close> to 2 when the result \<open>r\<close> is another one;
  the verdict at the end of a test.
\<close>

definition expect :: "'k calls \<Rightarrow> string \<Rightarrow> int \<Rightarrow> int \<Rightarrow> 'k \<Rightarrow> (int \<times> 'k) option" where
  "expect C msg fail r k = (if -1 \<noteq> r then do { k \<leftarrow> ece391_fdputs C 1 (line msg) k; Some (2, k) } else Some (fail, k))"

definition verdict :: "'k calls \<Rightarrow> string \<Rightarrow> int \<Rightarrow> 'k \<Rightarrow> (int \<times> 'k) option" where
  "verdict C name fail k = do {
     k \<leftarrow> ece391_fdputs C 1 (line (name @ (if fail \<noteq> 0 then '': FAIL'' else '': PASS''))) k;
     Some (fail, k)
   }"

definition err_fd :: "string \<Rightarrow> int \<Rightarrow> 'k calls \<Rightarrow> u8 list \<Rightarrow> 'k \<Rightarrow> (int \<times> 'k) option" where
  "err_fd name fd C buf k = do {
     (r, buf, k) \<leftarrow> ece391_read C fd buf 31 k;
     (fail, k) \<leftarrow> expect C ''read fail'' 0 r k;
     (r, k) \<leftarrow> ece391_write C fd buf 31 k;
     (fail, k) \<leftarrow> expect C ''write fail'' fail r k;
     (r, k) \<leftarrow> ece391_close C fd k;
     (fail, k) \<leftarrow> expect C ''close fail'' fail r k;
     verdict C name fail k
   }"

definition err_neg_fd :: "'k calls \<Rightarrow> u8 list \<Rightarrow> 'k \<Rightarrow> (int \<times> 'k) option" where
  "err_neg_fd = err_fd ''err_neg_fd'' (-1073741823)"

definition err_big_fd :: "'k calls \<Rightarrow> u8 list \<Rightarrow> 'k \<Rightarrow> (int \<times> 'k) option" where
  "err_big_fd = err_fd ''err_big_fd'' 1073741823"

definition err_open_lots :: "'k calls \<Rightarrow> 'k \<Rightarrow> (int \<times> 'k) option" where
  "err_open_lots C k = do {
     (cnt, k) \<leftarrow> for_range 0 7 (\<lambda>i (cnt, k). do {
         (r, k) \<leftarrow> ece391_open C (literal ''.'') k;
         Some (if -1 = r then cnt + 1 else cnt, k)
       }) (0 :: int, k);
     k \<leftarrow> for_range 2 8 (\<lambda>i k. do { (r, k) \<leftarrow> ece391_close C (int i) k; Some k }) k;
     if cnt = 1 then do { k \<leftarrow> ece391_fdputs C 1 (line ''err_open_lots: PASS'') k; Some (0, k) }
     else do { k \<leftarrow> ece391_fdputs C 1 (line ''err_open_lots: FAIL'') k; Some (2, k) }
   }"

definition err_open :: "'k calls \<Rightarrow> 'k \<Rightarrow> (int \<times> 'k) option" where
  "err_open C k = do {
     (r, k) \<leftarrow> ece391_open C (literal ''helloo'') k;
     (fail, k) \<leftarrow> expect C (CHR 0x27 # ''helloo'' @ CHR 0x27 # '' fail'') 0 r k;
     (r, k) \<leftarrow> ece391_open C (literal ''shel'') k;
     (fail, k) \<leftarrow> expect C (CHR 0x27 # ''shel'' @ CHR 0x27 # '' fail'') fail r k;
     (r, k) \<leftarrow> ece391_open C (literal []) k;
     (fail, k) \<leftarrow> expect C ''empty string fail'' fail r k;
     verdict C ''err_open'' fail k
   }"

definition err_unopened :: "'k calls \<Rightarrow> u8 list \<Rightarrow> 'k \<Rightarrow> (int \<times> 'k) option" where
  "err_unopened C buf k = do {
     (fail, k) \<leftarrow> for_range 0 8 (\<lambda>i (fail, k). do {
         (r, k) \<leftarrow> ece391_close C (int i) k;
         expect C ''close unopened or invalid fd fail'' fail r k
       }) (0 :: int, k);
     (buf, fail, k) \<leftarrow> for_range 2 8 (\<lambda>i (buf, fail, k). do {
         (r, buf, k) \<leftarrow> ece391_read C (int i) buf 31 k;
         (fail, k) \<leftarrow> expect C ''read from unopened fd fail'' fail r k;
         Some (buf, fail, k)
       }) (buf, fail, k);
     (fail, k) \<leftarrow> for_range 2 8 (\<lambda>i (fail, k). do {
         (r, k) \<leftarrow> ece391_write C (int i) buf 31 k;
         expect C ''write to unopened fd fail'' fail r k
       }) (fail, k);
     verdict C ''err_unopened'' fail k
   }"

definition err_vidmap :: "'k calls \<Rightarrow> 'k \<Rightarrow> (int \<times> 'k) option" where
  "err_vidmap C k = do {
     (r, k) \<leftarrow> ece391_vidmap C 0 k;
     (fail, k) \<leftarrow> expect C ''Null pointer fail'' 0 r k;
     (r, k) \<leftarrow> ece391_vidmap C 0x400000 k;
     (fail, k) \<leftarrow> expect C ''Kernel pointer fail fail'' fail r k;
     verdict C ''err_vidmap'' fail k
   }"

definition err_stdin_out :: "'k calls \<Rightarrow> u8 list \<Rightarrow> 'k \<Rightarrow> (int \<times> 'k) option" where
  "err_stdin_out C buf k = do {
     (r, k) \<leftarrow> ece391_write C 0 buf 31 k;
     (fail, k) \<leftarrow> expect C ''write to stdin fail'' 0 r k;
     (r, buf, k) \<leftarrow> ece391_read C 1 buf 31 k;
     (fail, k) \<leftarrow> expect C ''read from stdout fail'' fail r k;
     verdict C ''err_stdin_out'' fail k
   }"

definition err_syscall_num :: "'k calls \<Rightarrow> 'k \<Rightarrow> (int \<times> 'k) option" where
  "err_syscall_num C k = do {
     (r, k) \<leftarrow> ece391_number C 1073741823 k;
     (fail, k) \<leftarrow> expect C ''syscall 0 fail'' 0 r k;
     (r, k) \<leftarrow> ece391_number C (-1073741823) k;
     (fail, k) \<leftarrow> expect C ''big num syscall fail'' fail r k;
     (r, k) \<leftarrow> ece391_number C 0 k;
     (fail, k) \<leftarrow> expect C ''neg num syscall fail'' fail r k;
     verdict C ''err_syscall_num'' fail k
   }"

text \<open>\<open>junk n\<close> is what the buffer of test \<open>n\<close> happens to hold.\<close>

definition syserr_all :: "'k calls \<Rightarrow> (nat \<Rightarrow> u8 list) \<Rightarrow> 'k \<Rightarrow> (int \<times> 'k) option" where
  "syserr_all C junk k = do {
     (f1, k) \<leftarrow> err_neg_fd C (junk 1) k;
     (f2, k) \<leftarrow> err_big_fd C (junk 2) k;
     (f3, k) \<leftarrow> err_open_lots C k;
     (f4, k) \<leftarrow> err_open C k;
     (f5, k) \<leftarrow> err_unopened C (junk 5) k;
     (f6, k) \<leftarrow> err_vidmap C k;
     (f7, k) \<leftarrow> err_stdin_out C (junk 7) k;
     (f8, k) \<leftarrow> err_syscall_num C k;
     let fail = f1 + f2 + f3 + f4 + f5 + f6 + f7 + f8;
     k \<leftarrow> ece391_fdputs C 1 (10 # line (if fail \<noteq> 0 then ''Overall Tests: FAIL'' else ''Overall Tests: PASS'')) k;
     Some (fail, k)
   }"

definition syserr_main :: "'k calls \<Rightarrow> (nat \<Rightarrow> u8 list) \<Rightarrow> u8 list \<Rightarrow> 'k \<Rightarrow> (int \<times> 'k) option" where
  "syserr_main C junk buf k = do {
     k \<leftarrow> ece391_fdputs C 1 (literal ''Choose from tests 1-8. 0 to run all: '') k;
     (cnt, buf, k) \<leftarrow> ece391_read C 0 buf 127 k;
     if cnt = -1 then do {
       k \<leftarrow> ece391_fdputs C 1 (line ''Can't read test #'') k;
       Some (2, k)
     } else do {
       c \<leftarrow> aget buf 0;
       let select = uint c - 48;
       if select = 0 then syserr_all C junk k
       else if select = 1 then err_neg_fd C (junk 1) k
       else if select = 2 then err_big_fd C (junk 2) k
       else if select = 3 then err_open_lots C k
       else if select = 4 then err_open C k
       else if select = 5 then err_unopened C (junk 5) k
       else if select = 6 then err_vidmap C k
       else if select = 7 then err_stdin_out C (junk 7) k
       else if select = 8 then err_syscall_num C k
       else do {
         k \<leftarrow> ece391_fdputs C 1 (literal ''Invalid test number. Choose from tests 1-8 or 0'') k;
         Some (0, k)
       }
     }
   }"

end
