(* ===== verification/User_Calls.thy ===== *)
theory User_Calls
  imports Programs
begin

text \<open>
  What the user programs rely on: the system calls as an interface with laws, and what the programs do on every system that keeps
  these laws. The first locale has the terminal, the second the files, the directory and the argument of the program.

  \<open>emits F xs k k'\<close> says that from \<open>k\<close> to \<open>k'\<close> the text \<open>xs\<close> was shown and nothing else visible happened, except that the descriptors
  in \<open>F\<close> were used; \<open>-1\<close> in \<open>F\<close> stands for the position in the directory, which all descriptors share.
\<close>

text \<open>A literal of the program; \<open>plain\<close> is checked by evaluation.\<close>

definition plain :: "string \<Rightarrow> bool" where
  "plain t = list_all (\<lambda>c. byte_of c \<noteq> 0 \<and> byte_of c \<noteq> 8) t"

lemma plain_lit: "plain t \<Longrightarrow> 0 \<notin> set (lit t) \<and> 8 \<notin> set (lit t)"
  by (auto simp: plain_def lit_def list_all_iff image_iff)

text \<open>The shell names the outcome of a command.\<close>

definition outcome :: "int \<Rightarrow> u8 list" where
  "outcome rval = (if rval = -1 then lit ''no such command'' @ [10] else if rval = 256 then lit ''program terminated by exception'' @ [10]
     else if rval \<noteq> 0 then lit ''program terminated abnormally'' @ [10] else [])"

section \<open>The terminal\<close>

locale terminal_calls =
  fixes C :: "'k calls"
    and ok :: "'k \<Rightarrow> bool"
    and emits :: "int set \<Rightarrow> u8 list \<Rightarrow> 'k \<Rightarrow> 'k \<Rightarrow> bool"
    and room :: nat
  assumes emits_refl: "ok k \<Longrightarrow> emits F [] k k"
    and emits_trans: "emits F xs k k' \<Longrightarrow> emits F ys k' k'' \<Longrightarrow> emits F (xs @ ys) k k''"
    and emits_mono: "emits F xs k k' \<Longrightarrow> F \<subseteq> G \<Longrightarrow> emits G xs k k'"
    and emits_ok: "emits F xs k k' \<Longrightarrow> ok k'"
    and write_emits: "ok k \<Longrightarrow> 8 \<notin> set xs \<Longrightarrow> length xs + length ys \<le> room \<Longrightarrow>
      \<exists>k'. ece391_write C 1 (xs @ ys) (int (length xs)) k = Some (int (length xs), k') \<and> emits {} xs k k'"
begin

lemma emits_any: "emits {} xs k k' \<Longrightarrow> emits F xs k k'"
  by (erule emits_mono) simp

lemma fdputs_emits:
  assumes "ok k" and "0 \<notin> set xs" and "8 \<notin> set xs" and "length xs + length ys < room"
  shows "\<exists>k'. ece391_fdputs C 1 (xs @ 0 # ys) k = Some k' \<and> emits {} xs k k'"
proof -
  have "length xs + length (0 # ys) \<le> room" using assms(4) by simp
  from write_emits [OF assms(1,3) this] obtain k' where
    k': "ece391_write C 1 (xs @ 0 # ys) (int (length xs)) k = Some (int (length xs), k')" "emits {} xs k k'" by blast
  have "ece391_fdputs C 1 (xs @ 0 # ys) k = Some k'" using k'(1) assms(2) by (simp add: fdputs_write)
  with k'(2) show ?thesis by blast
qed

lemma literal_emits: "ok k \<Longrightarrow> plain t \<Longrightarrow> length t < room \<Longrightarrow> \<exists>k'. ece391_fdputs C 1 (literal t) k = Some k' \<and> emits {} (lit t) k k'"
  using fdputs_emits [of k "lit t" "[]"] plain_lit [of t] by (auto simp: literal_def)

lemma line_emits: "ok k \<Longrightarrow> plain t \<Longrightarrow> Suc (length t) < room \<Longrightarrow> \<exists>k'. ece391_fdputs C 1 (line t) k = Some k' \<and> emits {} (lit t @ [10]) k k'"
  using fdputs_emits [of k "lit t @ [10]" "[]"] plain_lit [of t] by (auto simp: line_def)

lemma testprint_emits:
  assumes "ok k" and "64 \<le> room"
  shows "\<exists>k'. testprint_main C k = Some (0, k') \<and> emits {} (lit ''Hello, if this ran, the program was correct. Yay!'' @ [10]) k k'"
proof -
  let ?t = "''Hello, if this ran, the program was correct. Yay!''"
  have "plain ?t" by (simp add: plain_def byte_of_def)
  from line_emits [OF assms(1) this] assms(2) show ?thesis by (auto simp: testprint_main_def)
qed

lemma report_status_emits:
  assumes "ok k" and "64 \<le> room"
  shows "\<exists>k'. report_status C rval k = Some k' \<and> emits {} (outcome rval) k k'"
proof -
  have p: "plain ''no such command''" "plain ''program terminated by exception''" "plain ''program terminated abnormally''"
    by (simp_all add: plain_def byte_of_def)
  show ?thesis using line_emits [OF assms(1) p(1)] line_emits [OF assms(1) p(2)] line_emits [OF assms(1) p(3)] emits_refl [OF assms(1)] assms(2)
    by (auto simp: report_status_def outcome_def)
qed

end

section \<open>Files\<close>

text \<open>
  \<open>at_file k fd bs\<close>: \<open>fd\<close> is open on a file and stands before the bytes \<open>bs\<close>. \<open>at_dir k fd ns\<close>: \<open>fd\<close> is open on the directory and the names
  \<open>ns\<close> are still to be listed. \<open>named k xs bs\<close>: a file \<open>xs\<close> with contents \<open>bs\<close> can be opened; \<open>listed k ns\<close>: the directory has the
  names \<open>ns\<close> and can be opened; \<open>absent k xs\<close>: there is no such file; \<open>argument k xs\<close>: the program was started with the argument \<open>xs\<close>.
\<close>

locale file_calls = terminal_calls C ok emits room
  for C :: "'k calls" and ok :: "'k \<Rightarrow> bool" and emits :: "int set \<Rightarrow> u8 list \<Rightarrow> 'k \<Rightarrow> 'k \<Rightarrow> bool" and room :: nat +
  fixes at_file :: "'k \<Rightarrow> int \<Rightarrow> u8 list \<Rightarrow> bool"
    and at_dir :: "'k \<Rightarrow> int \<Rightarrow> u8 list list \<Rightarrow> bool"
    and named :: "'k \<Rightarrow> u8 list \<Rightarrow> u8 list \<Rightarrow> bool"
    and listed :: "'k \<Rightarrow> u8 list list \<Rightarrow> bool"
    and absent :: "'k \<Rightarrow> u8 list \<Rightarrow> bool"
    and argument :: "'k \<Rightarrow> u8 list \<Rightarrow> bool"
  assumes file_kept: "emits F xs k k' \<Longrightarrow> fd \<notin> F \<Longrightarrow> at_file k fd bs \<Longrightarrow> at_file k' fd bs"
    and dir_kept: "emits F xs k k' \<Longrightarrow> fd \<notin> F \<Longrightarrow> -1 \<notin> F \<Longrightarrow> at_dir k fd ns \<Longrightarrow> at_dir k' fd ns"
    and named_kept: "emits {} xs k k' \<Longrightarrow> named k ys bs \<Longrightarrow> named k' ys bs"
    and absent_kept: "emits {} xs k k' \<Longrightarrow> absent k ys \<Longrightarrow> absent k' ys"
    and read_file: "ok k \<Longrightarrow> at_file k fd bs \<Longrightarrow> n \<le> length buf \<Longrightarrow> length buf \<le> room \<Longrightarrow>
      \<exists>k'. ece391_read C fd buf (int n) k = Some (int (min n (length bs)), take n bs @ drop (min n (length bs)) buf, k')
        \<and> emits {fd} [] k k' \<and> at_file k' fd (drop n bs)"
    and read_dir: "ok k \<Longrightarrow> at_dir k fd ns \<Longrightarrow> 32 \<le> n \<Longrightarrow> n \<le> length buf \<Longrightarrow> length buf \<le> room \<Longrightarrow>
      (case ns of [] \<Rightarrow> \<exists>k'. ece391_read C fd buf (int n) k = Some (0, buf, k') \<and> emits {fd, -1} [] k k' \<and> at_dir k' fd []
       | x # ns \<Rightarrow> length x \<le> 32 \<and> (\<exists>k'. ece391_read C fd buf (int n) k = Some (int (length x), x @ drop (length x) buf, k')
           \<and> emits {fd, -1} [] k k' \<and> at_dir k' fd ns))"
    and open_file: "ok k \<Longrightarrow> named k xs bs \<Longrightarrow> length xs + length ys < room \<Longrightarrow>
      \<exists>fd k'. ece391_open C (xs @ 0 # ys) k = Some (fd, k') \<and> 2 \<le> fd \<and> emits {fd} [] k k' \<and> at_file k' fd bs"
    and open_dir: "ok k \<Longrightarrow> listed k ns \<Longrightarrow> 1 < room \<Longrightarrow>
      \<exists>fd k'. ece391_open C (literal ''.'') k = Some (fd, k') \<and> 2 \<le> fd \<and> emits {fd, -1} [] k k' \<and> at_dir k' fd ns"
    and open_absent: "ok k \<Longrightarrow> absent k xs \<Longrightarrow> 0 \<notin> set xs \<Longrightarrow> length xs + length ys < room \<Longrightarrow>
      \<exists>k'. ece391_open C (xs @ 0 # ys) k = Some (-1, k') \<and> emits {} [] k k'"
    and read_argument: "ok k \<Longrightarrow> argument k xs \<Longrightarrow> length xs < n \<Longrightarrow> length buf = n \<Longrightarrow> n \<le> room \<Longrightarrow>
      \<exists>ys k'. ece391_getargs C buf (int n) k = (if xs = [] then Some (-1, buf, k') else Some (0, xs @ 0 # ys, k'))
        \<and> length xs + Suc (length ys) = n \<and> emits {} [] k k'"
begin

lemma emits_empty_trans: "emits F [] k k' \<Longrightarrow> emits F xs k' k'' \<Longrightarrow> emits F xs k k''"
  using emits_trans [of F "[]" k k' xs k''] by simp

lemma emits_trans_empty: "emits F xs k k' \<Longrightarrow> emits F [] k' k'' \<Longrightarrow> emits F xs k k''"
  using emits_trans [of F xs k k' "[]" k''] by simp

lemma cat_loop_step:
  assumes "ece391_read C fd buf 1024 k = Some (int m, buf', k1)" and "m \<noteq> 0" and "ece391_write C 1 buf' (int m) k1 = Some (int m, k2)"
  shows "cat_loop C fd buf k = cat_loop C fd buf' k2"
  using assms by (subst cat_loop.simps) simp

lemma cat_loop_emits:
  assumes "ok k" and "at_file k fd bs" and "8 \<notin> set bs" and "length buf = 1024" and "1024 \<le> room"
  shows "\<exists>k'. cat_loop C fd buf k = Some (0, k') \<and> emits {fd} bs k k'"
  using assms(1-4)
proof (induction "length bs" arbitrary: bs buf k rule: less_induct)
  case less
  let ?xs = "take 1024 bs" and ?ys = "drop (min 1024 (length bs)) buf"
  have b: "length buf = 1024" using less.prems by simp
  from read_file [OF less.prems(1,2), of 1024 buf] b assms(5) obtain k1 where
    k1: "ece391_read C fd buf 1024 k = Some (int (min 1024 (length bs)), ?xs @ ?ys, k1)" "emits {fd} [] k k1" "at_file k1 fd (drop 1024 bs)" by auto
  show ?case
  proof (cases "bs = []")
    case True
    then have "cat_loop C fd buf k = Some (0, k1)" using k1(1) by (subst cat_loop.simps) simp
    then show ?thesis using k1(2) True by auto
  next
    case False
    have n: "min 1024 (length bs) = length ?xs" "length ?xs \<noteq> 0" using False by auto
    have "8 \<notin> set ?xs" using less.prems(3) by (meson in_set_takeD)
    moreover have "length ?xs + length ?ys \<le> room" using b assms(5) by simp
    ultimately obtain k2 where k2: "ece391_write C 1 (?xs @ ?ys) (int (length ?xs)) k1 = Some (int (length ?xs), k2)" "emits {} ?xs k1 k2"
      using write_emits [OF emits_ok [OF k1(2)], of ?xs ?ys] by blast
    have f2: "at_file k2 fd (drop 1024 bs)" by (rule file_kept [OF k2(2) _ k1(3)]) simp
    have "\<exists>k'. cat_loop C fd (?xs @ ?ys) k2 = Some (0, k') \<and> emits {fd} (drop 1024 bs) k2 k'"
      by (rule less.hyps) (use False less.prems emits_ok [OF k2(2)] f2 b in \<open>auto dest: in_set_dropD\<close>)
    then obtain k' where k': "cat_loop C fd (?xs @ ?ys) k2 = Some (0, k')" "emits {fd} (drop 1024 bs) k2 k'" by blast
    have "emits {fd} (?xs @ drop 1024 bs) k k'"
      using emits_trans [OF emits_empty_trans [OF k1(2) emits_any [OF k2(2)]] k'(2)] .
    moreover have "cat_loop C fd buf k = cat_loop C fd (?xs @ ?ys) k2"
      by (rule cat_loop_step [OF k1(1) _ k2(1) [folded n(1)]]) (use False in simp)
    ultimately show ?thesis using k'(1) by auto
  qed
qed

text \<open>\<open>cat\<close> emits exactly the bytes of the file that its argument names.\<close>

lemma cat_emits:
  assumes "ok k" and "argument k xs" and "xs \<noteq> []" and "length xs < 128" and "named k xs bs" and "8 \<notin> set bs"
    and "length buf = 1024" and "1024 \<le> room"
  shows "\<exists>k' fd. cat_main C buf k = Some (0, k') \<and> emits {fd} bs k k'"
proof -
  obtain ys k1 where k1: "ece391_getargs C buf 1024 k = Some (0, xs @ 0 # ys, k1)" "emits {} [] k k1" and ys: "length xs + Suc (length ys) = 1024"
    using read_argument [OF assms(1,2), of 1024 buf] assms(3,4,7,8) by auto
  have "length xs + length ys < room" using ys assms(8) by simp
  from open_file [OF emits_ok [OF k1(2)] named_kept [OF k1(2) assms(5)] this] obtain fd k2 where
    k2: "ece391_open C (xs @ 0 # ys) k1 = Some (fd, k2)" "2 \<le> fd" "emits {fd} [] k1 k2" "at_file k2 fd bs" by blast
  have "length (xs @ 0 # ys) = 1024" using ys by simp
  from cat_loop_emits [OF emits_ok [OF k2(3)] k2(4) assms(6) this assms(8)] obtain k' where
    k': "cat_loop C fd (xs @ 0 # ys) k2 = Some (0, k')" "emits {fd} bs k2 k'" by blast
  have "cat_main C buf k = Some (0, k')" using k1(1) k2(1,2) k'(1) by (simp add: cat_main_def)
  moreover have "emits {fd} bs k k'" using emits_empty_trans [OF emits_any [OF k1(2)] emits_empty_trans [OF k2(3) k'(2)]] .
  ultimately show ?thesis by blast
qed

lemma cat_absent:
  assumes "ok k" and "argument k xs" and "length xs < 128" and "0 \<notin> set xs" and "absent k xs" and "length buf = 1024" and "1024 \<le> room"
  shows "\<exists>k'. cat_main C buf k = Some (if xs = [] then 3 else 2, k')
    \<and> emits {} (if xs = [] then lit ''could not read arguments'' @ [10] else lit ''file not found'' @ [10]) k k'"
proof -
  have p: "plain ''could not read arguments''" "plain ''file not found''" by (simp_all add: plain_def byte_of_def)
  obtain ys k1 where k1: "ece391_getargs C buf 1024 k = (if xs = [] then Some (-1, buf, k1) else Some (0, xs @ 0 # ys, k1))" "emits {} [] k k1"
    and ys: "length xs + Suc (length ys) = 1024"
    using read_argument [OF assms(1,2), of 1024 buf] assms(3,6,7) by auto
  show ?thesis
  proof (cases "xs = []")
    case True
    with line_emits [OF emits_ok [OF k1(2)] p(1)] assms(7) k1 emits_empty_trans show ?thesis by (fastforce simp: cat_main_def)
  next
    case False
    have "length xs + length ys < room" using ys assms(7) by simp
    from open_absent [OF emits_ok [OF k1(2)] absent_kept [OF k1(2) assms(5)] assms(4) this] obtain k2 where
      k2: "ece391_open C (xs @ 0 # ys) k1 = Some (-1, k2)" "emits {} [] k1 k2" by blast
    with line_emits [OF emits_ok [OF k2(2)] p(2)] assms(7) k1 False emits_empty_trans [OF emits_empty_trans [OF k1(2) k2(2)]]
    show ?thesis by (fastforce simp: cat_main_def)
  qed
qed

lemma ls_loop_emits:
  assumes "ok k" and "at_dir k fd ns" and "\<forall>x \<in> set ns. x \<noteq> [] \<and> 8 \<notin> set x" and "length buf = 33" and "33 \<le> room"
  shows "\<exists>k'. ls_loop C fd buf k = Some (0, k') \<and> emits {fd, -1} (concat (map (\<lambda>x. x @ [10]) ns)) k k'"
  using assms(1-4)
proof (induction ns arbitrary: buf k)
  case Nil
  from read_dir [OF Nil(1,2), of 32 buf] Nil(4) assms(5) show ?case by (subst ls_loop.simps) auto
next
  case (Cons x ns)
  let ?b = "x @ drop (length x) buf"
  from read_dir [OF Cons.prems(1,2), of 32 buf] Cons.prems(4) assms(5) obtain k1 where
    k1: "length x \<le> 32" "ece391_read C fd buf 32 k = Some (int (length x), ?b, k1)" "emits {fd, -1} [] k k1" "at_dir k1 fd ns" by auto
  let ?ys = "drop (Suc (length x)) buf"
  have x: "x \<noteq> []" "8 \<notin> set (x @ [10])" using Cons.prems(3) by auto
  have "aset ?b (int (length x)) 10 = Some ((x @ [10]) @ ?ys)"
    using k1(1) Cons.prems(4) by (simp add: aset_def list_update_append Cons_nth_drop_Suc [symmetric])
  moreover obtain k2 where k2: "ece391_write C 1 ((x @ [10]) @ ?ys) (int (length (x @ [10]))) k1 = Some (int (length (x @ [10])), k2)"
    "emits {} (x @ [10]) k1 k2"
    using write_emits [OF emits_ok [OF k1(3)] x(2), of ?ys] k1(1) Cons.prems(4) assms(5) by auto
  moreover have "at_dir k2 fd ns" using dir_kept [OF k2(2) _ _ k1(4)] by simp
  moreover have "length ((x @ [10]) @ ?ys) = 33" using k1(1) Cons.prems(4) by simp
  ultimately obtain k' where k': "ls_loop C fd ((x @ [10]) @ ?ys) k2 = Some (0, k')"
    "emits {fd, -1} (concat (map (\<lambda>x. x @ [10]) ns)) k2 k'"
    using Cons.IH [OF emits_ok [OF k2(2)], of "(x @ [10]) @ ?ys"] Cons.prems(3) by auto
  have "ls_loop C fd buf k = ls_loop C fd ((x @ [10]) @ ?ys) k2"
    using k1(2) k2(1) x(1) \<open>aset ?b (int (length x)) 10 = Some ((x @ [10]) @ ?ys)\<close> by (subst ls_loop.simps) (simp add: add.commute)
  then show ?case using k'(1) emits_trans [OF emits_empty_trans [OF k1(3) emits_any [OF k2(2)]] k'(2)] by auto
qed

text \<open>\<open>ls\<close> emits the names of the directory, one per line.\<close>

lemma ls_emits:
  assumes "ok k" and "listed k ns" and "\<forall>x \<in> set ns. x \<noteq> [] \<and> 8 \<notin> set x" and "length buf = 33" and "33 \<le> room"
  shows "\<exists>k' fd. ls_main C buf k = Some (0, k') \<and> emits {fd, -1} (concat (map (\<lambda>x. x @ [10]) ns)) k k'"
proof -
  from open_dir [OF assms(1,2)] assms(5) obtain fd k1 where
    k1: "ece391_open C (literal ''.'') k = Some (fd, k1)" "2 \<le> fd" "emits {fd, -1} [] k k1" "at_dir k1 fd ns" by auto
  from ls_loop_emits [OF emits_ok [OF k1(3)] k1(4) assms(3-5)] obtain k' where
    k': "ls_loop C fd buf k1 = Some (0, k')" "emits {fd, -1} (concat (map (\<lambda>x. x @ [10]) ns)) k1 k'" by blast
  have "ls_main C buf k = Some (0, k')" using k1(1,2) k'(1) by (simp add: ls_main_def)
  with emits_empty_trans [OF k1(3) k'(2)] show ?thesis by blast
qed

end

end
