(* ===== verification/User_Kernel.thy ===== *)
theory User_Kernel
  imports Kernel User_Calls
begin

text \<open>
  The system calls of this kernel, as its user programs see them: the wrappers of syscalls/ece391syscall.S put the arguments into
  registers and raise \<open>int $0x80\<close>. A program's array is in its memory at the address \<open>a\<close> during the call. A child program that is
  executed runs to its end before \<open>execute\<close> returns; what it does is a parameter. \<open>script\<close> has, for each call of \<open>read\<close>, the interrupts
  that arrive while it waits.
\<close>

section \<open>The calls\<close>

definition put_bytes :: "u32 \<Rightarrow> u8 list \<Rightarrow> 'a vm_scheme \<Rightarrow> 'a vm_scheme option" where
  "put_bytes a bs s = for_range 0 (length bs) (\<lambda>i s. do { b \<leftarrow> Some (bs ! i); ptr_wr a s i b }) s"

type_synonym 'a user = "'a kernel_scheme \<times> 'a interrupts list"

record 'a platform =
  at :: u32
  junk :: "u8 list \<times> u8 list"
  cmos :: u8
  registers :: "u32 \<times> u32 \<times> u32"
  child :: "u32 \<Rightarrow> 'a user \<Rightarrow> (int \<times> 'a user) option"

definition DO_CALL :: "'a platform \<Rightarrow> 'a interrupts \<Rightarrow> u32 \<Rightarrow> u32 \<Rightarrow> u32 \<Rightarrow> u32 \<Rightarrow> 'a kernel_scheme \<Rightarrow> (int \<times> 'a kernel_scheme) option" where
  "DO_CALL P evs number ebx ecx edx s = do {
     (c, s) \<leftarrow> ITR_SYS_entry (junk P) (cmos P) evs number ebx ecx edx s;
     case c of Return r \<Rightarrow> Some (r, s) | _ \<Rightarrow> None
   }"

definition next_events :: "'a interrupts list \<Rightarrow> 'a interrupts" where
  "next_events sc = (case sc of [] \<Rightarrow> [] | evs # sc \<Rightarrow> evs)"

definition kernel_read :: "'a platform \<Rightarrow> int \<Rightarrow> u8 list \<Rightarrow> int \<Rightarrow> 'a user \<Rightarrow> (int \<times> u8 list \<times> 'a user) option" where
  "kernel_read P fd buf n k = do {
     s \<leftarrow> put_bytes (at P) buf (fst k);
     (r, s) \<leftarrow> DO_CALL P (next_events (snd k)) 3 (word_of_int fd) (at P) (word_of_int n) s;
     buf \<leftarrow> load_bytes s (at P) (length buf);
     Some (r, buf, (s, tl (snd k)))
   }"

definition kernel_write :: "'a platform \<Rightarrow> int \<Rightarrow> u8 list \<Rightarrow> int \<Rightarrow> 'a user \<Rightarrow> (int \<times> 'a user) option" where
  "kernel_write P fd buf n k = do {
     s \<leftarrow> put_bytes (at P) buf (fst k);
     (r, s) \<leftarrow> DO_CALL P [] 4 (word_of_int fd) (at P) (word_of_int n) s;
     Some (r, (s, snd k))
   }"

definition kernel_open :: "'a platform \<Rightarrow> u8 list \<Rightarrow> 'a user \<Rightarrow> (int \<times> 'a user) option" where
  "kernel_open P filename k = do {
     s \<leftarrow> put_bytes (at P) filename (fst k);
     (r, s) \<leftarrow> DO_CALL P [] 5 (at P) 0 0 s;
     Some (r, (s, snd k))
   }"

definition kernel_close :: "'a platform \<Rightarrow> int \<Rightarrow> 'a user \<Rightarrow> (int \<times> 'a user) option" where
  "kernel_close P fd k = do {
     (r, s) \<leftarrow> DO_CALL P [] 6 (word_of_int fd) 0 0 (fst k);
     Some (r, (s, snd k))
   }"

definition kernel_getargs :: "'a platform \<Rightarrow> u8 list \<Rightarrow> int \<Rightarrow> 'a user \<Rightarrow> (int \<times> u8 list \<times> 'a user) option" where
  "kernel_getargs P buf n k = do {
     s \<leftarrow> put_bytes (at P) buf (fst k);
     (r, s) \<leftarrow> DO_CALL P [] 7 (at P) (word_of_int n) 0 s;
     buf \<leftarrow> load_bytes s (at P) (length buf);
     Some (r, buf, (s, snd k))
   }"

definition kernel_vidmap :: "'a platform \<Rightarrow> u32 \<Rightarrow> 'a user \<Rightarrow> (int \<times> 'a user) option" where
  "kernel_vidmap P screen_start k = do {
     (r, s) \<leftarrow> DO_CALL P [] 8 screen_start 0 0 (fst k);
     Some (r, (s, snd k))
   }"

text \<open>\<open>call_sys\<close> of syserr sets only \<open>eax\<close>; the other registers hold what they happen to hold.\<close>

definition kernel_number :: "'a platform \<Rightarrow> int \<Rightarrow> 'a user \<Rightarrow> (int \<times> 'a user) option" where
  "kernel_number P num k = do {
     let (ebx, ecx, edx) = registers P;
     (r, s) \<leftarrow> DO_CALL P [] (word_of_int num) ebx ecx edx (fst k);
     Some (r, (s, snd k))
   }"

definition kernel_execute :: "'a platform \<Rightarrow> u8 list \<Rightarrow> 'a user \<Rightarrow> (int \<times> 'a user) option" where
  "kernel_execute P command k = do {
     s \<leftarrow> put_bytes (at P) command (fst k);
     (c, s) \<leftarrow> ITR_SYS_entry (junk P) (cmos P) [] 2 (at P) 0 0 s;
     case c of Return r \<Rightarrow> Some (r, (s, snd k)) | Enter_user e \<Rightarrow> child P e (s, snd k) | _ \<Rightarrow> None
   }"

definition kernel_calls :: "'a platform \<Rightarrow> 'a user calls" where
  "kernel_calls P = \<lparr>ece391_execute = kernel_execute P, ece391_read = kernel_read P, ece391_write = kernel_write P, ece391_open = kernel_open P,
     ece391_close = kernel_close P, ece391_getargs = kernel_getargs P, ece391_vidmap = kernel_vidmap P, ece391_number = kernel_number P\<rparr>"

lemma kernel_calls_simps [simp]:
  "ece391_execute (kernel_calls P) = kernel_execute P" "ece391_read (kernel_calls P) = kernel_read P" "ece391_write (kernel_calls P) = kernel_write P"
  "ece391_open (kernel_calls P) = kernel_open P" "ece391_close (kernel_calls P) = kernel_close P" "ece391_getargs (kernel_calls P) = kernel_getargs P"
  "ece391_vidmap (kernel_calls P) = kernel_vidmap P" "ece391_number (kernel_calls P) = kernel_number P"
  by (simp_all add: kernel_calls_def)

section \<open>A user program's view of the kernel\<close>

text \<open>The buffers of a program, one page at \<open>a\<close>.\<close>

abbreviation (input) ROOM :: nat where "ROOM \<equiv> 4096"

definition buffers :: "u32 \<Rightarrow> 'a kernel_scheme \<Rightarrow> u32 set" where
  "buffers a s0 = buffer_addrs s0 a ROOM"

text \<open>
  \<open>in_user a s0 s\<close>: since \<open>s0\<close> the running program has only used its buffers and descriptors and the screen has changed.
\<close>

definition in_user :: "u32 \<Rightarrow> 'a kernel_scheme \<Rightarrow> 'a kernel_scheme \<Rightarrow> bool" where
  "in_user a s0 s \<longleftrightarrow> a \<noteq> 0 \<and> writable s0 a ROOM \<and> take 9 (syscall_jumptable s0) = syscalls
     \<and> same_paging s s0 \<and> (\<forall>q. q \<notin> buffers a s0 \<longrightarrow> phys s q = phys s0 q)
     \<and> filesystem_start s = filesystem_start s0 \<and> boot_block s = boot_block s0 \<and> to_test s = to_test s0
     \<and> tss_esp0 s = tss_esp0 s0 \<and> syscall_jumptable s = syscall_jumptable s0 \<and> terminal_num s = terminal_num s0
     \<and> wf_console s \<and> wf_fds s \<and> fops (fd_of s 1) = Some Term_ops
     \<and> pcb_argument (pcb_at s (cur_pcb s)) = pcb_argument (pcb_at s0 (cur_pcb s0))"

lemma in_userD:
  assumes "in_user a s0 s"
  shows "a \<noteq> 0" "wf_console s" "wf_fds s" "fops (fd_of s 1) = Some Term_ops" "terminal_num s = terminal_num s0" "cur_pcb s = cur_pcb s0"
    "to_test s = to_test s0" "boot_block s = boot_block s0" "take 9 (syscall_jumptable s) = syscalls"
    "pcb_argument (pcb_at s (cur_pcb s)) = pcb_argument (pcb_at s0 (cur_pcb s0))"
  using assms by (auto simp: in_user_def cur_pcb_def)

lemma in_user_mem:
  assumes "in_user a s0 s"
  shows "translate s = translate s0" "buffer_addrs s = buffer_addrs s0" "writable s = writable s0" "n \<le> ROOM \<Longrightarrow> writable s a n"
    "n \<le> ROOM \<Longrightarrow> buffer_addrs s a n \<subseteq> buffers a s0"
    "file_data s0 inode bs \<Longrightarrow> file_addrs s0 inode (length bs) \<inter> buffers a s0 = {} \<Longrightarrow> file_data s inode bs"
    "file_data s0 inode bs \<Longrightarrow> file_addrs s0 inode (length bs) \<inter> buffers a s0 = {} \<Longrightarrow> file_addrs s inode (length bs) = file_addrs s0 inode (length bs)"
    "directory s0 ds \<Longrightarrow> dir_addrs s0 (length ds) \<inter> buffers a s0 = {} \<Longrightarrow> directory s ds"
    "dir_addrs s = dir_addrs s0"
proof -
  let ?t = "s0\<lparr>phys := phys s\<rparr>"
  have m: "only_mem (buffers a s0) s0 ?t" using assms by (auto simp: only_mem_def in_user_def)
  have i: "same_image s ?t" using assms by (simp add: same_image_def same_mem_def same_paging_def in_user_def)
  then have mm: "same_mem s ?t" by (simp add: same_image_def)
  note r = same_mem_reads [OF mm] and ri = same_image_reads [OF i] and o = only_mem_addrs [OF m]
  show "translate s = translate s0" using r(1) only_mem_translate [OF m] by (simp add: fun_eq_iff)
  show b: "buffer_addrs s = buffer_addrs s0" using r(6) o(1) by simp
  show w: "writable s = writable s0" using r(8) o(3) by simp
  show "n \<le> ROOM \<Longrightarrow> writable s a n" unfolding w using assms by (auto simp: in_user_def writable_def)
  show "n \<le> ROOM \<Longrightarrow> buffer_addrs s a n \<subseteq> buffers a s0" unfolding b buffers_def by (rule buffer_addrs_mono)
  show "dir_addrs s = dir_addrs s0" using ri dir_addrs_same [OF m] by simp
  show "file_data s0 inode bs \<Longrightarrow> file_addrs s0 inode (length bs) \<inter> buffers a s0 = {} \<Longrightarrow> file_data s inode bs"
    using ri file_data_outside [OF m] by simp
  show "file_data s0 inode bs \<Longrightarrow> file_addrs s0 inode (length bs) \<inter> buffers a s0 = {} \<Longrightarrow> file_addrs s inode (length bs) = file_addrs s0 inode (length bs)"
    using ri file_addrs_outside [OF m] by simp
  show "directory s0 ds \<Longrightarrow> dir_addrs s0 (length ds) \<inter> buffers a s0 = {} \<Longrightarrow> directory s ds"
    using ri directory_outside [OF m] by simp
qed

text \<open>The relation of the interface: what was shown, and which descriptors were used.\<close>

definition kernel_emits :: "u32 \<Rightarrow> 'a kernel_scheme \<Rightarrow> int set \<Rightarrow> u8 list \<Rightarrow> 'a user \<Rightarrow> 'a user \<Rightarrow> bool" where
  "kernel_emits a s0 F xs k k' \<longleftrightarrow> in_user a s0 (fst k')
     \<and> shown (fst k') (terminal_num s0) = spec_text xs (shown (fst k) (terminal_num s0))
     \<and> (\<forall>j. 0 \<le> j \<and> j < 3 \<and> j \<noteq> terminal_num s0 \<longrightarrow> shown (fst k') j = shown (fst k) j)
     \<and> (\<forall>fd. 0 \<le> fd \<and> fd < 8 \<and> fd \<notin> F \<longrightarrow> fd_of (fst k') fd = fd_of (fst k) fd)
     \<and> (-1 \<notin> F \<longrightarrow> dir_index (fst k') = dir_index (fst k))"

definition kernel_ok :: "u32 \<Rightarrow> 'a kernel_scheme \<Rightarrow> 'a user \<Rightarrow> bool" where
  "kernel_ok a s0 k \<longleftrightarrow> in_user a s0 (fst k)"

lemma emits_trans': "kernel_emits a s0 F xs k k' \<Longrightarrow> kernel_emits a s0 F ys k' k'' \<Longrightarrow> kernel_emits a s0 F (xs @ ys) k k''"
  by (simp add: kernel_emits_def)

text \<open>Steps that change only the buffers, only the screen, or only a descriptor.\<close>

lemma emits_mem:
  assumes u: "in_user a s0 s" and m: "only_mem (buffer_addrs s a n) s s'" and n: "n \<le> ROOM"
  shows "kernel_emits a s0 F [] (s, sc) (s', sc')" "in_user a s0 s'"
proof -
  from m obtain f where f: "s' = s\<lparr>phys := f\<rparr>" "\<forall>q. q \<notin> buffer_addrs s a n \<longrightarrow> f q = phys s q" by (auto simp: only_mem_def)
  have o: "\<forall>q. q \<notin> buffers a s0 \<longrightarrow> f q = phys s0 q" using f(2) in_user_mem(5) [OF u n] u by (auto simp: in_user_def)
  have e: "shown s' = shown s" "wf_console s' = wf_console s" "fd_of s' = fd_of s" "wf_fds s' = wf_fds s" "cur_pcb s' = cur_pcb s"
    by (auto simp: f(1) shown_def screen_buf_def term_at_def wf_console_def fd_of_def wf_fds_def cur_pcb_def fun_eq_iff)
  show "in_user a s0 s'" using u o e by (simp add: in_user_def f(1) same_paging_def)
  then show "kernel_emits a s0 F [] (s, sc) (s', sc')" using e by (simp add: kernel_emits_def f(1))
qed

lemma emits_console:
  assumes u: "in_user a s0 s" and f: "console_frame s' = console_frame (s\<lparr>eflags_IF := True\<rparr>)" and w: "wf_console s'"
    and o: "shown s' (terminal_num s) = spec_text xs (shown s (terminal_num s))" "\<forall>j. 0 \<le> j \<and> j < 3 \<and> j \<noteq> terminal_num s \<longrightarrow> shown s' j = shown s j"
  shows "kernel_emits a s0 F xs (s, sc) (s', sc')"
proof -
  have e: "same_paging s' s" "phys s' = phys s" "terminal_num s' = terminal_num s" "filesystem_start s' = filesystem_start s" "boot_block s' = boot_block s"
    "to_test s' = to_test s" "tss_esp0 s' = tss_esp0 s" "syscall_jumptable s' = syscall_jumptable s" "pcb_at s' = pcb_at s" "dir_index s' = dir_index s"
    using console_frameD [OF f] arg_cong [OF f, of filesystem_start] arg_cong [OF f, of boot_block] arg_cong [OF f, of to_test] arg_cong [OF f, of tss_esp0]
      arg_cong [OF f, of syscall_jumptable] arg_cong [OF f, of pcb_at] arg_cong [OF f, of dir_index]
    by (simp_all add: console_frame_def same_paging_def)
  have d: "cur_pcb s' = cur_pcb s" "fd_of s' = fd_of s" "wf_fds s' = wf_fds s" using e by (auto simp: cur_pcb_def fd_of_def wf_fds_def fun_eq_iff)
  have i: "in_user a s0 s'" using u e d w by (simp add: in_user_def same_paging_def)
  then show ?thesis using o u d e by (simp add: kernel_emits_def in_user_def)
qed

lemma emits_outputs:
  assumes u: "in_user a s0 s" and o: "outputs (spec_text xs (shown s (terminal_num s))) (s\<lparr>eflags_IF := True\<rparr>) s'"
  shows "kernel_emits a s0 F xs (s, sc) (s', sc')"
  by (rule emits_console [OF u]) (use o in \<open>auto simp: outputs_def shown_def\<close>)

lemma emits_put_fd:
  assumes u: "in_user a s0 s" and fd: "2 \<le> fd" "fd < 8" and F: "fd \<in> F"
  shows "kernel_emits a s0 F [] (s, sc) (put_fd fd d s, sc')"
proof -
  note w = in_userD [OF u]
  have f: "\<forall>j. 0 \<le> j \<and> j \<noteq> fd \<longrightarrow> fd_of (put_fd fd d s) j = fd_of s j" using fd_of_put_fd(2) [OF w(3), of fd] fd by auto
  then have "fops (fd_of (put_fd fd d s) 1) = Some Term_ops" using w(4) fd by simp
  moreover have "pcb_argument (pcb_at (put_fd fd d s) (cur_pcb s)) = pcb_argument (pcb_at s (cur_pcb s))" by (simp add: put_fd_def)
  moreover have "same_paging (put_fd fd d s) s" "filesystem_start (put_fd fd d s) = filesystem_start s" "boot_block (put_fd fd d s) = boot_block s"
    "to_test (put_fd fd d s) = to_test s" "syscall_jumptable (put_fd fd d s) = syscall_jumptable s"
    by (simp_all add: put_fd_def same_paging_def)
  ultimately have "in_user a s0 (put_fd fd d s)" using u by (simp add: in_user_def same_paging_def)
  moreover have "shown (put_fd fd d s) = shown s" by (auto simp: put_fd_def shown_def screen_buf_def term_at_def fun_eq_iff)
  ultimately show ?thesis using f F by (auto simp: kernel_emits_def)
qed

lemma put_bytes_user:
  assumes u: "in_user a s0 s" and n: "length bs \<le> ROOM"
  shows "\<exists>s'. put_bytes a bs s = Some s' \<and> load_bytes s' a (length bs) = Some bs \<and> in_user a s0 s' \<and> kernel_emits a s0 F [] (s, sc) (s', sc')"
proof -
  have w: "ptr_ok (\<lambda>_. arr bs) a (length bs) s" by (rule ptr_ok_const) (rule in_user_mem(4) [OF u n])
  have "\<exists>s'. for_range 0 (length bs) (\<lambda>j s. do { b \<leftarrow> Some (bs ! j); ptr_wr a s j b }) s = Some s' \<and> ptr_ok (\<lambda>_. arr bs) a (length bs) s'
    \<and> arr bs = arr bs \<and> (\<forall>j < length bs. ptr s' a j = (if 0 \<le> j then Some (bs ! j) else ptr s a j))"
    by (rule ptr_copy.copy_range [OF w, of 0 "\<lambda>_ j. Some (bs ! j)" "\<lambda>j. bs ! j"]) simp_all
  then obtain s' where s': "put_bytes a bs s = Some s'" "\<forall>j < length bs. ptr s' a j = Some (bs ! j)"
    unfolding put_bytes_def by (simp only: le0 if_True) blast
  have "only_mem (buffer_addrs s a (length bs)) s s'" using s'(1) unfolding put_bytes_def by (rule only_mem_loop)
  note e = emits_mem [OF u this n]
  show ?thesis using s'(1) load_bytes_ptr [of "length bs" s' a bs] s'(2) e by blast
qed

lemma put_bytes_mem: "put_bytes a bs s = Some s' \<Longrightarrow> \<exists>f. s' = s\<lparr>phys := f\<rparr>"
proof -
  assume "put_bytes a bs s = Some s'"
  then have "only_mem (buffer_addrs s a (length bs)) s s'" unfolding put_bytes_def by (rule only_mem_loop)
  then show ?thesis by (auto simp: only_mem_def)
qed

lemma put_bytes_fds: "put_bytes a bs s = Some s' \<Longrightarrow> fd_of s' = fd_of s \<and> lowest_free s' = lowest_free s \<and> dir_index s' = dir_index s"
proof -
  assume "put_bytes a bs s = Some s'"
  then have m: "only_mem (buffer_addrs s a (length bs)) s s'" unfolding put_bytes_def by (rule only_mem_loop)
  then show ?thesis using only_mem_kernel(3) [OF m] by (auto simp: lowest_free_def only_mem_def)
qed

text \<open>What is in the buffer after a call has written its first \<open>m\<close> bytes.\<close>

lemma load_bytes_overwritten:
  assumes m: "only_mem (buffer_addrs s a m) s s'" and w: "writable s a n" and n: "m \<le> n"
    and old: "load_bytes s a n = Some buf" and new: "load_bytes s' a m = Some xs" and l: "length xs = m" "length buf = n"
  shows "load_bytes s' a n = Some (xs @ drop m buf)"
proof (rule load_bytes_ptr)
  show "\<forall>j < n. ptr s' a j = Some ((xs @ drop m buf) ! j)"
  proof (intro allI impI)
    fix j assume j: "j < n"
    show "ptr s' a j = Some ((xs @ drop m buf) ! j)"
    proof (cases "j < m")
      case True
      then show ?thesis using load_bytes_nth [OF new] l by (simp add: ptr_def nth_append)
    next
      case False
      have "translate s (a + of_nat i) \<noteq> translate s (a + of_nat j)" if "i < m" for i
      proof
        assume "translate s (a + of_nat i) = translate s (a + of_nat j)"
        then have "i = j" using w j n that unfolding writable_def by (meson order.strict_trans2)
        then show False using that False by simp
      qed
      then have "{q. translate s (a + of_nat j) = Some q} \<inter> buffer_addrs s a m = {}" by (auto simp: buffer_addrs_def)
      then have "load8 s' (a + of_nat j) = load8 s (a + of_nat j)" by (rule load8_outside [OF m])
      then show ?thesis using load_bytes_nth [OF old j] False l j n by (simp add: ptr_def nth_append)
    qed
  qed
qed (use l n in simp)

section \<open>The calls one by one\<close>

lemma syscall_table:
  assumes "take 9 (syscall_jumptable s) = syscalls" and "n < 9"
  shows "aget (syscall_jumptable s) (int n) = Some (syscalls ! n)"
proof -
  have "length (take 9 (syscall_jumptable s)) = 9" using assms(1) by (simp add: syscalls_def)
  then have l: "9 \<le> length (syscall_jumptable s)" by simp
  have "syscall_jumptable s ! n = take 9 (syscall_jumptable s) ! n" using assms(2) by simp
  then show ?thesis using assms l by (simp add: aget_def)
qed

lemma sint_range: "- (2 ^ 31) \<le> i \<Longrightarrow> i < 2 ^ 31 \<Longrightarrow> sint (word_of_int i :: u32) = i"
  by (simp add: sint_sbintrunc' signed_take_bit_int_eq_self_iff)

lemma do_calls:
  assumes "in_user a s0 s"
  shows "- (2 ^ 31) \<le> fd \<Longrightarrow> fd < 2 ^ 31 \<Longrightarrow> - (2 ^ 31) \<le> n \<Longrightarrow> n < 2 ^ 31 \<Longrightarrow>
      DO_CALL P evs 3 (word_of_int fd) b (word_of_int n) s = map_option (\<lambda>(r, s, es). (r, s)) (sys_read evs fd b n s)"
    "- (2 ^ 31) \<le> fd \<Longrightarrow> fd < 2 ^ 31 \<Longrightarrow> - (2 ^ 31) \<le> n \<Longrightarrow> n < 2 ^ 31 \<Longrightarrow>
      DO_CALL P evs 4 (word_of_int fd) b (word_of_int n) s = sys_write (cmos P) fd b n s"
    "DO_CALL P evs 5 b c d s = sys_open (cmos P) b s"
    "- (2 ^ 31) \<le> fd \<Longrightarrow> fd < 2 ^ 31 \<Longrightarrow> DO_CALL P evs 6 (word_of_int fd) c d s = sys_close fd s"
    "- (2 ^ 31) \<le> n \<Longrightarrow> n < 2 ^ 31 \<Longrightarrow> DO_CALL P evs 7 b (word_of_int n) d s = getargs b n s"
    "DO_CALL P evs 8 b c d s = vidmap b s"
    "sint eax < 1 \<or> 8 < sint eax \<Longrightarrow> DO_CALL P evs eax b c d s = Some (-1, s)"
proof -
  note t = syscall_table [OF in_userD(9) [OF assms]]
  have tab: "aget (syscall_jumptable s) 3 = Some (Some Sys_read)" "aget (syscall_jumptable s) 4 = Some (Some Sys_write)"
    "aget (syscall_jumptable s) 5 = Some (Some Sys_open)" "aget (syscall_jumptable s) 6 = Some (Some Sys_close)"
    "aget (syscall_jumptable s) 7 = Some (Some Sys_getargs)" "aget (syscall_jumptable s) 8 = Some (Some Sys_vidmap)"
    using t [of 3] t [of 4] t [of 5] t [of 6] t [of 7] t [of 8] by (simp_all add: syscalls_def)
  have w: "do { (c, s) \<leftarrow> with_result x; case c of Return r \<Rightarrow> Some (r, s) | _ \<Rightarrow> None } = x" for x :: "(int \<times> 'a kernel_scheme) option"
    by (cases x) (auto simp: with_result_def)
  note d = DO_CALL_def ITR_SYS_entry_def tab syscall_def w sint_range
  show "- (2 ^ 31) \<le> fd \<Longrightarrow> fd < 2 ^ 31 \<Longrightarrow> - (2 ^ 31) \<le> n \<Longrightarrow> n < 2 ^ 31 \<Longrightarrow>
      DO_CALL P evs 3 (word_of_int fd) b (word_of_int n) s = map_option (\<lambda>(r, s, es). (r, s)) (sys_read evs fd b n s)"
    "- (2 ^ 31) \<le> fd \<Longrightarrow> fd < 2 ^ 31 \<Longrightarrow> - (2 ^ 31) \<le> n \<Longrightarrow> n < 2 ^ 31 \<Longrightarrow>
      DO_CALL P evs 4 (word_of_int fd) b (word_of_int n) s = sys_write (cmos P) fd b n s"
    "DO_CALL P evs 5 b c d s = sys_open (cmos P) b s"
    "- (2 ^ 31) \<le> fd \<Longrightarrow> fd < 2 ^ 31 \<Longrightarrow> DO_CALL P evs 6 (word_of_int fd) c d s = sys_close fd s"
    "- (2 ^ 31) \<le> n \<Longrightarrow> n < 2 ^ 31 \<Longrightarrow> DO_CALL P evs 7 b (word_of_int n) d s = getargs b n s"
    "DO_CALL P evs 8 b c d s = vidmap b s"
    "sint eax < 1 \<or> 8 < sint eax \<Longrightarrow> DO_CALL P evs eax b c d s = Some (-1, s)"
    by (simp_all add: d)
qed

lemma write_user_steps:
  assumes u: "in_user a s0 s" and at: "at P = a" and xs: "8 \<notin> set xs" and n: "length xs + length ys \<le> ROOM"
  shows "\<exists>s1 s2. kernel_write P 1 (xs @ ys) (int (length xs)) (s, sc) = Some (int (length xs), (s2, sc)) \<and> put_bytes a (xs @ ys) s = Some s1
    \<and> in_user a s0 s1 \<and> kernel_emits a s0 {} [] (s, sc) (s1, sc) \<and> outputs (spec_text xs (shown s1 (terminal_num s1))) (s1\<lparr>eflags_IF := True\<rparr>) s2"
proof -
  from put_bytes_user [OF u, of "xs @ ys" "{}" sc sc] n obtain s1 where
    s1: "put_bytes a (xs @ ys) s = Some s1" "load_bytes s1 a (length (xs @ ys)) = Some (xs @ ys)" "in_user a s0 s1" "kernel_emits a s0 {} [] (s, sc) (s1, sc)"
    by auto
  note w = in_userD [OF s1(3)]
  have l: "load_bytes s1 a (length xs) = Some xs"
    by (rule load_bytes_ptr) (use load_bytes_nth [OF s1(2)] in \<open>auto simp: ptr_def nth_append\<close>)
  from terminal_write_outputs [OF w(2) l] xs obtain s2 where
    s2: "terminal_write a (int (length xs)) s1 = Some (int (length xs), s2)" "outputs (spec_text xs (shown s1 (terminal_num s1))) (s1\<lparr>eflags_IF := True\<rparr>) s2" by auto
  have "sys_write (cmos P) 1 a (int (length xs)) s1 = Some (int (length xs), s2)"
    using s2(1) w(1,3,4) by (simp add: sys_write_def get_fd_in fops_write_def)
  moreover have "DO_CALL P [] 4 (word_of_int 1) a (word_of_int (int (length xs))) s1 = sys_write (cmos P) 1 a (int (length xs)) s1"
    using n by (intro do_calls(2) [OF s1(3)]) auto
  ultimately have "kernel_write P 1 (xs @ ys) (int (length xs)) (s, sc) = Some (int (length xs), (s2, sc))"
    using s1(1) at by (simp add: kernel_write_def)
  with s1 s2(2) show ?thesis by blast
qed

lemma write_user:
  assumes k: "kernel_ok a s0 k" and at: "at P = a" and xs: "8 \<notin> set xs" and n: "length xs + length ys \<le> ROOM"
  shows "\<exists>k'. kernel_write P 1 (xs @ ys) (int (length xs)) k = Some (int (length xs), k') \<and> kernel_emits a s0 {} xs k k'"
proof -
  obtain s sc where s: "k = (s, sc)" by fastforce
  have u: "in_user a s0 s" using k by (simp add: kernel_ok_def s)
  from write_user_steps [OF u at xs n, of sc] obtain s1 s2 where
    w: "kernel_write P 1 (xs @ ys) (int (length xs)) (s, sc) = Some (int (length xs), (s2, sc))" "in_user a s0 s1" "kernel_emits a s0 {} [] (s, sc) (s1, sc)"
      "outputs (spec_text xs (shown s1 (terminal_num s1))) (s1\<lparr>eflags_IF := True\<rparr>) s2" by blast
  have "kernel_emits a s0 {} ([] @ xs) (s, sc) (s2, sc)" by (rule emits_trans' [OF w(3) emits_outputs [OF w(2,4)]])
  with w(1) show ?thesis by (auto simp: s)
qed

text \<open>The predicates of the interface on this kernel.\<close>

definition image_dir :: "u32 \<Rightarrow> 'a kernel_scheme \<Rightarrow> dentry list \<Rightarrow> bool" where
  "image_dir a s0 ds \<longleftrightarrow> directory s0 ds \<and> dir_addrs s0 (length ds) \<inter> buffers a s0 = {} \<and> to_test s0 = boot_block s0"

definition image_file :: "u32 \<Rightarrow> 'a kernel_scheme \<Rightarrow> u32 \<Rightarrow> u8 list \<Rightarrow> bool" where
  "image_file a s0 inode bs \<longleftrightarrow> file_data s0 inode bs \<and> file_addrs s0 inode (length bs) \<inter> buffers a s0 = {}"

definition kernel_file_at :: "u32 \<Rightarrow> 'a kernel_scheme \<Rightarrow> 'a user \<Rightarrow> int \<Rightarrow> u8 list \<Rightarrow> bool" where
  "kernel_file_at a s0 k fd bs \<longleftrightarrow> 2 \<le> fd \<and> fd < 8 \<and> fops (fd_of (fst k) fd) = Some File_ops \<and> flags (fd_of (fst k) fd) \<noteq> 0
     \<and> (\<exists>all off. file_pos (fd_of (fst k) fd) = of_nat off \<and> off \<le> length all \<and> bs = drop off all
         \<and> image_file a s0 (fd_inode (fd_of (fst k) fd)) all)"

definition kernel_dir_at :: "u32 \<Rightarrow> 'a kernel_scheme \<Rightarrow> 'a user \<Rightarrow> int \<Rightarrow> u8 list list \<Rightarrow> bool" where
  "kernel_dir_at a s0 k fd ns \<longleftrightarrow> 2 \<le> fd \<and> fd < 8 \<and> fops (fd_of (fst k) fd) = Some Dir_ops \<and> flags (fd_of (fst k) fd) \<noteq> 0
     \<and> (\<exists>ds i. image_dir a s0 ds \<and> dir_index (fst k) = int i \<and> i \<le> length ds \<and> ns = map dentry_name (drop i ds))"

definition has_entry :: "u32 \<Rightarrow> 'a kernel_scheme \<Rightarrow> u8 list \<Rightarrow> dentry \<Rightarrow> dentry list \<Rightarrow> bool" where
  "has_entry a s0 xs e ds \<longleftrightarrow> image_dir a s0 ds \<and> xs \<noteq> [] \<and> length xs \<le> 32 \<and> 0 \<notin> set xs \<and> find (\<lambda>e. dentry_name e = xs) ds = Some e"

definition kernel_named :: "u32 \<Rightarrow> 'a kernel_scheme \<Rightarrow> 'a user \<Rightarrow> u8 list \<Rightarrow> u8 list \<Rightarrow> bool" where
  "kernel_named a s0 k xs bs \<longleftrightarrow> (\<exists>ds e. has_entry a s0 xs e ds \<and> file_type e = FILE_TYPE_FILE \<and> image_file a s0 (inode_num e) bs)
     \<and> lowest_free (fst k) \<noteq> None"

definition kernel_listed :: "u32 \<Rightarrow> 'a kernel_scheme \<Rightarrow> 'a user \<Rightarrow> u8 list list \<Rightarrow> bool" where
  "kernel_listed a s0 k ns \<longleftrightarrow> (\<exists>ds e. has_entry a s0 (lit ''.'') e ds \<and> file_type e = FILE_TYPE_DIR \<and> ns = map dentry_name ds)
     \<and> lowest_free (fst k) \<noteq> None"

definition kernel_absent :: "u32 \<Rightarrow> 'a kernel_scheme \<Rightarrow> 'a user \<Rightarrow> u8 list \<Rightarrow> bool" where
  "kernel_absent a s0 k xs \<longleftrightarrow> (\<exists>ds. image_dir a s0 ds \<and> (xs = [] \<or> 32 < length xs \<or> xs \<notin> dentry_name ` set ds))"

definition kernel_argument :: "u32 \<Rightarrow> 'a kernel_scheme \<Rightarrow> 'a user \<Rightarrow> u8 list \<Rightarrow> bool" where
  "kernel_argument a s0 k xs \<longleftrightarrow> 0 \<notin> set xs \<and> (\<exists>ys. pcb_argument (pcb_at s0 (cur_pcb s0)) = xs @ 0 # ys)"

lemma read_file_user:
  assumes k: "kernel_ok a s0 k" and at: "at P = a" and f: "kernel_file_at a s0 k fd bs" and n: "n \<le> length buf" "length buf \<le> ROOM"
  shows "\<exists>k'. kernel_read P fd buf (int n) k = Some (int (min n (length bs)), take n bs @ drop (min n (length bs)) buf, k')
    \<and> kernel_emits a s0 {fd} [] k k' \<and> kernel_file_at a s0 k' fd (drop n bs)"
proof -
  obtain s sc where s: "k = (s, sc)" by fastforce
  have u: "in_user a s0 s" using k by (simp add: kernel_ok_def s)
  from f obtain inode all off where fd: "2 \<le> fd" "fd < 8" "fops (fd_of s fd) = Some File_ops" "flags (fd_of s fd) \<noteq> 0" "fd_inode (fd_of s fd) = inode"
    "file_pos (fd_of s fd) = of_nat off" "off \<le> length all" "bs = drop off all" "image_file a s0 inode all" by (auto simp: kernel_file_at_def s)
  from put_bytes_user [OF u n(2), of "{fd}" sc sc] obtain s1 where
    s1: "put_bytes a buf s = Some s1" "load_bytes s1 a (length buf) = Some buf" "in_user a s0 s1" "kernel_emits a s0 {fd} [] (s, sc) (s1, sc)" by blast
  have d1: "fd_of s1 fd = fd_of s fd" using put_bytes_fds [OF s1(1)] by simp
  note m = in_user_mem [OF s1(3)] and w = in_userD [OF s1(3)]
  have fdat: "file_data s1 inode all" "file_addrs s1 inode (length all) = file_addrs s0 inode (length all)" "length all < 2 ^ 31"
    using m(6,7) fd(9) by (auto simp: image_file_def file_data_def)
  let ?xs = "file_slice all off n"
  have xs: "?xs = take n bs" "length ?xs = min n (length bs)" by (simp_all add: file_slice_def fd(8))
  have un: "unat (word_of_int (int n) :: u32) = n" using n by (simp add: of_nat_u32)
  have lx: "length ?xs \<le> ROOM" "length ?xs \<le> length buf" using xs n by auto
  have "file_addrs s1 inode (length all) \<inter> buffer_addrs s1 a (length ?xs) = {}"
    using fd(9) fdat(2) m(5) [OF lx(1)] by (auto simp: image_file_def)
  from read_data_mem_delivers [OF fdat(1), of off a "word_of_int (int n)"] m(4) [OF lx(1)] this fd(7) fdat(3) obtain s2 where
    s2: "read_data_mem inode (of_nat off) a (word_of_int (int n)) s1 = Some (int (length ?xs), s2)" "load_bytes s2 a (length ?xs) = Some ?xs"
      "only_mem (buffer_addrs s1 a (length ?xs)) s1 s2" unfolding un by auto
  note e2 = emits_mem [OF s1(3) s2(3) lx(1)] and k2 = only_mem_kernel [OF s2(3)]
  let ?d = "(fd_of s fd)\<lparr>file_pos := of_nat off + of_nat (length ?xs)\<rparr>"
  have "sys_read (next_events sc) fd a (int n) s1 = Some (int (length ?xs), put_fd fd ?d s2, next_events sc)"
    using fd(1-6) s2(1) d1 w(1,3) k2 by (simp add: sys_read_def get_fd_in fops_read_def file_read_def set_fd_in Let_def)
  moreover have "DO_CALL P (next_events sc) 3 (word_of_int fd) a (word_of_int (int n)) s1
      = map_option (\<lambda>(r, s, es). (r, s)) (sys_read (next_events sc) fd a (int n) s1)"
    using n fd(1,2) by (intro do_calls(1) [OF s1(3)]) auto
  ultimately have c: "DO_CALL P (next_events sc) 3 (word_of_int fd) a (word_of_int (int n)) s1 = Some (int (length ?xs), put_fd fd ?d s2)" by simp
  have "load_bytes s2 a (length buf) = Some (?xs @ drop (length ?xs) buf)"
    by (rule load_bytes_overwritten [OF s2(3) m(4) [OF n(2)] lx(2) s1(2) s2(2)]) simp_all
  moreover have "same_mem (put_fd fd ?d s2) s2" using put_fd_simps(3) [of fd ?d s2] unfolding same_image_def by blast
  ultimately have l: "load_bytes (put_fd fd ?d s2) a (length buf) = Some (?xs @ drop (length ?xs) buf)" using same_mem_reads(4) by metis
  have "kernel_read P fd buf (int n) k = Some (int (length ?xs), ?xs @ drop (length ?xs) buf, (put_fd fd ?d s2, tl sc))"
    using s1(1) c l at by (simp add: kernel_read_def s)
  moreover have e: "kernel_emits a s0 {fd} [] (s, sc) (put_fd fd ?d s2, tl sc)"
    using emits_trans' [OF s1(4) emits_trans' [OF e2(1) emits_put_fd [OF e2(2) fd(1,2)]]] by simp
  moreover have "kernel_file_at a s0 (put_fd fd ?d s2, tl sc) fd (drop n bs)"
  proof -
    have dd: "fd_of (put_fd fd ?d s2) fd = ?d" by (rule fd_of_put_fd(1)) (use k2(2) w(3) fd in auto)
    have "drop n bs = drop (off + length ?xs) all" unfolding fd(8) xs(2) by (simp add: fd(8) min_def add.commute)
    moreover have "off + length ?xs \<le> length all" using fd(7) unfolding xs(2) fd(8) by simp
    ultimately show ?thesis unfolding kernel_file_at_def fst_conv dd using fd(1-5,9) by (auto intro!: exI [of _ all] exI [of _ "off + length ?xs"])
  qed
  ultimately show ?thesis unfolding xs s by (auto simp: s xs min.commute)
qed

lemma fd_of_dir_index [simp]: "fd_of (s\<lparr>dir_index := i\<rparr>) = fd_of s"
  by (simp add: fd_of_def cur_pcb_def fun_eq_iff)

lemma emits_dir_index:
  assumes "in_user a s0 s" and "-1 \<in> F"
  shows "kernel_emits a s0 F [] (s, sc) (s\<lparr>dir_index := i\<rparr>, sc')" "in_user a s0 (s\<lparr>dir_index := i\<rparr>)"
proof -
  have e: "shown (s\<lparr>dir_index := i\<rparr>) = shown s" "wf_console (s\<lparr>dir_index := i\<rparr>) = wf_console s" "fd_of (s\<lparr>dir_index := i\<rparr>) = fd_of s"
    "wf_fds (s\<lparr>dir_index := i\<rparr>) = wf_fds s" "cur_pcb (s\<lparr>dir_index := i\<rparr>) = cur_pcb s"
    by (auto simp: shown_def screen_buf_def term_at_def wf_console_def fd_of_def wf_fds_def cur_pcb_def fun_eq_iff)
  show "in_user a s0 (s\<lparr>dir_index := i\<rparr>)" using assms e by (simp add: in_user_def same_paging_def)
  then show "kernel_emits a s0 F [] (s, sc) (s\<lparr>dir_index := i\<rparr>, sc')" using assms(2) e by (simp add: kernel_emits_def)
qed

lemma read_dir_user:
  assumes k: "kernel_ok a s0 k" and at: "at P = a" and f: "kernel_dir_at a s0 k fd ns" and n: "32 \<le> n" "n \<le> length buf" "length buf \<le> ROOM"
  shows "case ns of [] \<Rightarrow> \<exists>k'. kernel_read P fd buf (int n) k = Some (0, buf, k') \<and> kernel_emits a s0 {fd, -1} [] k k' \<and> kernel_dir_at a s0 k' fd []
    | x # ns \<Rightarrow> length x \<le> 32 \<and> (\<exists>k'. kernel_read P fd buf (int n) k = Some (int (length x), x @ drop (length x) buf, k')
        \<and> kernel_emits a s0 {fd, -1} [] k k' \<and> kernel_dir_at a s0 k' fd ns)"
proof -
  obtain s sc where s: "k = (s, sc)" by fastforce
  have u: "in_user a s0 s" using k by (simp add: kernel_ok_def s)
  from f obtain ds i where fd: "2 \<le> fd" "fd < 8" "fops (fd_of s fd) = Some Dir_ops" "flags (fd_of s fd) \<noteq> 0"
    "image_dir a s0 ds" "dir_index s = int i" "i \<le> length ds" "ns = map dentry_name (drop i ds)" by (auto simp: kernel_dir_at_def s)
  from put_bytes_user [OF u n(3), of "{fd, -1}" sc sc] obtain s1 where
    s1: "put_bytes a buf s = Some s1" "load_bytes s1 a (length buf) = Some buf" "in_user a s0 s1" "kernel_emits a s0 {fd, -1} [] (s, sc) (s1, sc)" by blast
  note d1 = put_bytes_fds [OF s1(1)] and m = in_user_mem [OF s1(3)] and w = in_userD [OF s1(3)]
  have dr: "directory s1 ds" "to_test s1 = boot_block s1" using fd(5) m(8) w(7,8) by (auto simp: image_dir_def)
  have c: "DO_CALL P (next_events sc) 3 (word_of_int fd) a (word_of_int (int n)) s1
      = map_option (\<lambda>(r, s, es). (r, s)) (sys_read (next_events sc) fd a (int n) s1)"
    using n fd(1,2) by (intro do_calls(1) [OF s1(3)]) auto
  have r: "sys_read (next_events sc) fd a (int n) s1 = do { (r, s) \<leftarrow> dir_read a (int n) s1; Some (r, s, next_events sc) }"
    using fd(1-4) d1 w(1,3) by (simp add: sys_read_def get_fd_in fops_read_def)
  show ?thesis
  proof (cases "i = length ds")
    case True
    have "dir_read a (int n) s1 = Some (0, s1)"
      using dr d1 fd(6) True by (simp add: dir_read_def directory_def dir_count_def word_le_nat_alt of_nat_u32)
    then have "kernel_read P fd buf (int n) k = Some (0, buf, (s1, tl sc))" using s1(1,2) c r at by (simp add: kernel_read_def s)
    moreover have "kernel_emits a s0 {fd, -1} [] (s, sc) (s1, tl sc)" using s1(4) by (simp add: kernel_emits_def)
    moreover have "kernel_dir_at a s0 (s1, tl sc) fd []" using fd d1 True by (auto simp: kernel_dir_at_def)
    ultimately show ?thesis using fd(8) True by (auto simp: s)
  next
    case False
    then have i: "i < length ds" using fd(7) by simp
    let ?x = "dentry_name (ds ! i)"
    have x: "length ?x \<le> 32" using dr(1) i length_dentry_name unfolding directory_def by metis
    then have mn: "min (length ?x) (nat (int n)) = length ?x" "length ?x \<le> ROOM" "length ?x \<le> length buf" using n by auto
    from dir_read_next [OF dr, of i "int n" a] d1 fd(6) i n mn(1) m(4) [OF mn(2)] obtain s2 where
      s2: "dir_read a (int n) s1 = Some (int (length ?x), s2\<lparr>dir_index := int (Suc i)\<rparr>)" "only_mem (buffer_addrs s1 a (length ?x)) s1 s2"
      "load_bytes s2 a (length ?x) = Some ?x" using x by auto
    note e2 = emits_mem [OF s1(3) s2(2) mn(2)]
    let ?s = "s2\<lparr>dir_index := int (Suc i)\<rparr>"
    have "load_bytes s2 a (length buf) = Some (?x @ drop (length ?x) buf)"
      by (rule load_bytes_overwritten [OF s2(2) m(4) [OF n(3)] mn(3) s1(2) s2(3)]) simp_all
    then have "kernel_read P fd buf (int n) k = Some (int (length ?x), ?x @ drop (length ?x) buf, (?s, tl sc))"
      using s1(1) s2(1) c r at by (simp add: kernel_read_def s)
    moreover have "kernel_emits a s0 {fd, -1} [] (s, sc) (?s, tl sc)"
      using emits_trans' [OF s1(4) emits_trans' [OF e2(1) emits_dir_index(1) [OF e2(2)]]] by simp
    moreover have "kernel_dir_at a s0 (?s, tl sc) fd (map dentry_name (drop (Suc i) ds))"
      using fd(1-5) i d1 only_mem_kernel(3) [OF s2(2)] by (auto simp: kernel_dir_at_def intro!: exI [of _ ds] exI [of _ "Suc i"])
    moreover have "ns = ?x # map dentry_name (drop (Suc i) ds)" using fd(8) i by (simp add: Cons_nth_drop_Suc [symmetric])
    ultimately show ?thesis using x by (auto simp: s)
  qed
qed

lemma open_entry:
  assumes u: "in_user a s0 s" and e: "has_entry a s0 xs e ds" and name: "cstr_at (ptr s a) xs" and i: "lowest_free s = Some i"
  shows "file_type e = FILE_TYPE_FILE \<Longrightarrow> sys_open cm a s = Some (int i, put_fd (int i) (opened_fd e) s)"
    "file_type e = FILE_TYPE_DIR \<Longrightarrow> sys_open cm a s = Some (int i, put_fd (int i) (opened_fd e) (s\<lparr>dir_index := 0\<rparr>))"
proof -
  note w = in_userD [OF u] and h = e [unfolded has_entry_def image_dir_def]
  have i8: "0 \<le> int i" "int i < 8" using lowest_free_least [OF i] by auto
  have "directory s ds" using in_user_mem(8) [OF u] h by simp
  from read_dentry_by_name_lookup [OF this name, of zero_dentry] h have look: "read_dentry_by_name (ptr s a) zero_dentry s = Some (0, e)" by auto
  have ff: "free_fd (file_desc_array (pcb_at s (cur_pcb s))) 2 6 = Some (Some i)" using free_fd_8 [OF w(3)] i by (simp add: lowest_free_def)
  have d: "x\<lparr>fops := f, fd_inode := n, flags := 1, file_pos := 0\<rparr> = \<lparr>fops = f, fd_inode = n, file_pos = 0, flags = 1\<rparr>" for x :: file_desc_t and f n
    by simp
  note o = sys_open_def look ff get_fd_in [OF w(3) i8] open_type_def file_open_def dir_open_def
  show "sys_open cm a s = Some (int i, put_fd (int i) (opened_fd e) s)" if "file_type e = FILE_TYPE_FILE"
    using that w(1) set_fd_in [OF w(3) i8] by (simp add: o opened_fd_def ops_of_type_def d)
  have "wf_fds (s\<lparr>dir_index := 0\<rparr>)" using w(3) by (simp add: wf_fds_def cur_pcb_def)
  from set_fd_in [OF this i8]
  show "sys_open cm a s = Some (int i, put_fd (int i) (opened_fd e) (s\<lparr>dir_index := 0\<rparr>))" if "file_type e = FILE_TYPE_DIR"
    using that w(1) by (simp add: o opened_fd_def ops_of_type_def d)
qed

text \<open>A name in the program's buffer.\<close>

lemma put_name:
  assumes k: "kernel_ok a s0 k" and xs: "0 \<notin> set xs" and n: "length xs + length ys < ROOM"
  obtains s1 where "put_bytes a (xs @ 0 # ys) (fst k) = Some s1" "cstr_at (ptr s1 a) xs" "in_user a s0 s1"
    "\<And>F. kernel_emits a s0 F [] k (s1, snd k)" "lowest_free s1 = lowest_free (fst k)"
proof -
  have u: "in_user a s0 (fst k)" using k by (simp add: kernel_ok_def)
  have l: "length (xs @ 0 # ys) \<le> ROOM" using n by simp
  from put_bytes_user [OF u l, of "{}" "snd k" "snd k"] obtain s1 where
    s1: "put_bytes a (xs @ 0 # ys) (fst k) = Some s1" "load_bytes s1 a (length (xs @ 0 # ys)) = Some (xs @ 0 # ys)" "in_user a s0 s1"
    "kernel_emits a s0 {} [] k (s1, snd k)" by auto
  have "cstr_at (ptr s1 a) xs" using load_bytes_nth [OF s1(2)] xs by (auto simp: cstr_at_def ptr_def nth_append)
  moreover have "kernel_emits a s0 F [] k (s1, snd k)" for F using s1(4) by (simp add: kernel_emits_def)
  ultimately show ?thesis using that s1(1,3) put_bytes_fds [OF s1(1)] by blast
qed

lemma open_file_user:
  assumes k: "kernel_ok a s0 k" and at: "at P = a" and f: "kernel_named a s0 k xs bs" and n: "length xs + length ys < ROOM"
  shows "\<exists>fd k'. kernel_open P (xs @ 0 # ys) k = Some (fd, k') \<and> 2 \<le> fd \<and> kernel_emits a s0 {fd} [] k k' \<and> kernel_file_at a s0 k' fd bs"
proof -
  from f obtain ds e i where e: "has_entry a s0 xs e ds" "file_type e = FILE_TYPE_FILE" "image_file a s0 (inode_num e) bs" "lowest_free (fst k) = Some i"
    by (auto simp: kernel_named_def)
  have "0 \<notin> set xs" using e(1) by (simp add: has_entry_def)
  from put_name [OF k this n] obtain s1 where s1: "put_bytes a (xs @ 0 # ys) (fst k) = Some s1" "cstr_at (ptr s1 a) xs" "in_user a s0 s1"
    "\<And>F. kernel_emits a s0 F [] k (s1, snd k)" "lowest_free s1 = lowest_free (fst k)" by metis
  have i: "2 \<le> int i" "int i < 8" using lowest_free_least [OF e(4)] by auto
  let ?s = "put_fd (int i) (opened_fd e) s1"
  have "sys_open (cmos P) a s1 = Some (int i, ?s)" using open_entry(1) [OF s1(3) e(1) s1(2)] s1(5) e(2,4) by simp
  then have "kernel_open P (xs @ 0 # ys) k = Some (int i, (?s, snd k))" using s1(1) at by (simp add: kernel_open_def do_calls(3) [OF s1(3)])
  moreover have "kernel_emits a s0 {int i} [] k (?s, snd k)"
    using emits_trans' [OF s1(4) emits_put_fd [OF s1(3) i]] by simp
  moreover have "fd_of ?s (int i) = opened_fd e" by (rule fd_of_put_fd(1)) (use in_userD(3) [OF s1(3)] i in auto)
  then have "kernel_file_at a s0 (?s, snd k) (int i) bs"
    using e(2,3) i by (auto simp: kernel_file_at_def opened_fd_def ops_of_type_def intro!: exI [of _ bs] exI [of _ 0])
  ultimately show ?thesis using i by blast
qed

lemma open_dot_user:
  assumes k: "kernel_ok a s0 k" and at: "at P = a" and e: "has_entry a s0 (lit ''.'') e ds" "file_type e = FILE_TYPE_DIR" and low: "lowest_free (fst k) = Some i"
  shows "\<exists>k'. kernel_open P (literal ''.'') k = Some (int i, k') \<and> kernel_emits a s0 {int i, -1} [] k k'
    \<and> fd_of (fst k') (int i) = opened_fd e \<and> dir_index (fst k') = 0"
proof -
  have "0 \<notin> set (lit ''.'')" "length (lit ''.'') + length ([] :: u8 list) < ROOM" using e(1) by (simp_all add: has_entry_def)
  from put_name [OF k this] obtain s1 where s1: "put_bytes a (lit ''.'' @ 0 # []) (fst k) = Some s1" "cstr_at (ptr s1 a) (lit ''.'')" "in_user a s0 s1"
    "\<And>F. kernel_emits a s0 F [] k (s1, snd k)" "lowest_free s1 = lowest_free (fst k)" by metis
  have i: "2 \<le> int i" "int i < 8" using lowest_free_least [OF low] by auto
  let ?t = "s1\<lparr>dir_index := 0\<rparr>" and ?F = "{int i, -1}"
  let ?s = "put_fd (int i) (opened_fd e) ?t"
  have "sys_open (cmos P) a s1 = Some (int i, ?s)" using open_entry(2) [OF s1(3) e(1) s1(2)] s1(5) e(2) low by simp
  then have "kernel_open P (literal ''.'') k = Some (int i, (?s, snd k))" using s1(1) at by (simp add: kernel_open_def do_calls(3) [OF s1(3)] literal_def)
  moreover have t: "kernel_emits a s0 ?F [] (s1, snd k) (?t, snd k)" "in_user a s0 ?t"
    using emits_dir_index [OF s1(3), of ?F] by simp_all
  have "kernel_emits a s0 ?F [] k (?s, snd k)"
    using emits_trans' [OF s1(4) emits_trans' [OF t(1) emits_put_fd [OF t(2) i]]] by simp
  moreover have "fd_of ?s (int i) = opened_fd e" by (rule fd_of_put_fd(1)) (use in_userD(3) [OF t(2)] i in auto)
  ultimately show ?thesis by auto
qed

lemma open_dir_user:
  assumes k: "kernel_ok a s0 k" and at: "at P = a" and f: "kernel_listed a s0 k ns"
  shows "\<exists>fd k'. kernel_open P (literal ''.'') k = Some (fd, k') \<and> 2 \<le> fd \<and> kernel_emits a s0 {fd, -1} [] k k' \<and> kernel_dir_at a s0 k' fd ns"
proof -
  from f obtain ds e i where e: "has_entry a s0 (lit ''.'') e ds" "file_type e = FILE_TYPE_DIR" "ns = map dentry_name ds" "lowest_free (fst k) = Some i"
    by (auto simp: kernel_listed_def)
  from open_dot_user [OF k at e(1,2,4)] obtain k' where
    k': "kernel_open P (literal ''.'') k = Some (int i, k')" "kernel_emits a s0 {int i, -1} [] k k'" "fd_of (fst k') (int i) = opened_fd e" "dir_index (fst k') = 0" by blast
  have i: "2 \<le> int i" "int i < 8" using lowest_free_least [OF e(4)] by auto
  have "kernel_dir_at a s0 k' (int i) ns"
    using e k'(3,4) i by (auto simp: kernel_dir_at_def has_entry_def opened_fd_def ops_of_type_def intro!: exI [of _ ds])
  then show ?thesis using k'(1,2) i by blast
qed

text \<open>With all descriptors in use, \<open>open\<close> fails.\<close>

lemma open_full_user:
  assumes k: "kernel_ok a s0 k" and at: "at P = a" and e: "has_entry a s0 xs e ds" and full: "lowest_free (fst k) = None" and n: "length xs + length ys < ROOM"
  shows "\<exists>k'. kernel_open P (xs @ 0 # ys) k = Some (-1, k') \<and> kernel_emits a s0 {} [] k k'"
proof -
  note h = e [unfolded has_entry_def image_dir_def]
  have "0 \<notin> set xs" using h by simp
  from put_name [OF k this n] obtain s1 where s1: "put_bytes a (xs @ 0 # ys) (fst k) = Some s1" "cstr_at (ptr s1 a) xs" "in_user a s0 s1"
    "\<And>F. kernel_emits a s0 F [] k (s1, snd k)" "lowest_free s1 = lowest_free (fst k)" by metis
  have "directory s1 ds" using in_user_mem(8) [OF s1(3)] h by simp
  from read_dentry_by_name_lookup [OF this s1(2), of zero_dentry] h have look: "read_dentry_by_name (ptr s1 a) zero_dentry s1 = Some (0, e)" by auto
  have "free_fd (file_desc_array (pcb_at s1 (cur_pcb s1))) 2 6 = Some None" using free_fd_8 [OF in_userD(3) [OF s1(3)]] s1(5) full by (simp add: lowest_free_def)
  then have "sys_open (cmos P) a s1 = Some (-1, s1)" using look in_userD(1) [OF s1(3)] by (simp add: sys_open_def)
  then have "kernel_open P (xs @ 0 # ys) k = Some (-1, (s1, snd k))" using s1(1) at by (simp add: kernel_open_def do_calls(3) [OF s1(3)])
  then show ?thesis using s1(4) by blast
qed

lemma open_absent_user:
  assumes k: "kernel_ok a s0 k" and at: "at P = a" and f: "kernel_absent a s0 k xs" and xs: "0 \<notin> set xs" and n: "length xs + length ys < ROOM"
  shows "\<exists>k'. kernel_open P (xs @ 0 # ys) k = Some (-1, k') \<and> kernel_emits a s0 {} [] k k'"
proof -
  from f obtain ds where ds: "image_dir a s0 ds" "xs = [] \<or> 32 < length xs \<or> xs \<notin> dentry_name ` set ds" by (auto simp: kernel_absent_def)
  from put_name [OF k xs n] obtain s1 where s1: "put_bytes a (xs @ 0 # ys) (fst k) = Some s1" "cstr_at (ptr s1 a) xs" "in_user a s0 s1"
    "\<And>F. kernel_emits a s0 F [] k (s1, snd k)" by metis
  have d: "directory s1 ds" using in_user_mem(8) [OF s1(3)] ds(1) by (simp add: image_dir_def)
  have "find (\<lambda>e. dentry_name e = xs) ds = None" if "xs \<notin> dentry_name ` set ds" using that by (auto simp: find_None_iff)
  then have "read_dentry_by_name (ptr s1 a) zero_dentry s1 = Some (-1, zero_dentry)"
    using read_dentry_by_name_lookup [OF d s1(2), of zero_dentry] ds(2) by auto
  then have "sys_open (cmos P) a s1 = Some (-1, s1)" by (simp add: sys_open_def)
  then have "kernel_open P (xs @ 0 # ys) k = Some (-1, (s1, snd k))" using s1(1) at by (simp add: kernel_open_def do_calls(3) [OF s1(3)])
  then show ?thesis using s1(4) by blast
qed

lemma argument_user_mem:
  assumes k: "kernel_ok a s0 k" and at: "at P = a" and f: "kernel_argument a s0 k xs" and n: "length xs < n" "length buf = n" "n \<le> ROOM"
  shows "\<exists>ys k'. kernel_getargs P buf (int n) k = (if xs = [] then Some (-1, buf, k') else Some (0, xs @ 0 # ys, k'))
    \<and> length xs + Suc (length ys) = n \<and> kernel_emits a s0 {} [] k k' \<and> (\<exists>f. k' = ((fst k)\<lparr>phys := f\<rparr>, snd k))"
proof -
  from f obtain ys where xs: "0 \<notin> set xs" "pcb_argument (pcb_at s0 (cur_pcb s0)) = xs @ 0 # ys" by (auto simp: kernel_argument_def)
  have u: "in_user a s0 (fst k)" using k by (simp add: kernel_ok_def)
  from put_bytes_user [OF u, of buf "{}" "snd k" "snd k"] n obtain s1 where
    s1: "put_bytes a buf (fst k) = Some s1" "load_bytes s1 a n = Some buf" "in_user a s0 s1" "kernel_emits a s0 {} [] k (s1, snd k)" by auto
  note w = in_userD [OF s1(3)] and m = in_user_mem [OF s1(3)]
  obtain g1 where g1: "s1 = (fst k)\<lparr>phys := g1\<rparr>" using put_bytes_mem [OF s1(1)] by blast
  have c: "DO_CALL P [] 7 a (word_of_int (int n)) 0 s1 = getargs a (int n) s1" using n by (intro do_calls(5) [OF s1(3)]) auto
  from getargs_copies [of s1 xs ys a n] w(1,10) xs m(4) [OF n(3)]
  have g: "if xs = [] then getargs a (int n) s1 = Some (-1, s1)
    else \<exists>s'. getargs a (int n) s1 = Some (0, s') \<and> only_mem (buffer_addrs s1 a n) s1 s' \<and> load_bytes s' a n = Some (take n xs @ replicate (n - length xs) 0)" by simp
  show ?thesis
  proof (cases "xs = []")
    case True
    then have "kernel_getargs P buf (int n) k = Some (-1, buf, (s1, snd k))" using s1(1,2) c g at n(2) by (simp add: kernel_getargs_def)
    then show ?thesis using s1(4) True n(1) g1 by (auto intro!: exI [of _ "replicate (n - 1) 0"])
  next
    case False
    with g obtain s' where s': "getargs a (int n) s1 = Some (0, s')" "only_mem (buffer_addrs s1 a n) s1 s'"
      "load_bytes s' a n = Some (take n xs @ replicate (n - length xs) 0)" by auto
    let ?ys = "replicate (n - Suc (length xs)) (0 :: u8)"
    have "replicate (n - length xs) (0 :: u8) = 0 # ?ys" using n(1) by (simp add: replicate_Suc [symmetric] Suc_diff_Suc del: replicate_Suc)
    then have "kernel_getargs P buf (int n) k = Some (0, xs @ 0 # ?ys, (s', snd k))"
      using s1(1) s'(1,3) c at n by (simp add: kernel_getargs_def)
    moreover have "length xs + Suc (length ?ys) = n" using n(1) by simp
    moreover have "kernel_emits a s0 {} [] k (s', snd k)" using emits_trans' [OF s1(4) emits_mem(1) [OF s1(3) s'(2) n(3)]] by simp
    moreover have "\<exists>f. s' = (fst k)\<lparr>phys := f\<rparr>" using s'(2) g1 by (auto simp: only_mem_def)
    ultimately show ?thesis using False by (auto intro!: exI [of _ ?ys])
  qed
qed

lemma argument_user:
  assumes k: "kernel_ok a s0 k" and at: "at P = a" and f: "kernel_argument a s0 k xs" and n: "length xs < n" "length buf = n" "n \<le> ROOM"
  shows "\<exists>ys k'. kernel_getargs P buf (int n) k = (if xs = [] then Some (-1, buf, k') else Some (0, xs @ 0 # ys, k'))
    \<and> length xs + Suc (length ys) = n \<and> kernel_emits a s0 {} [] k k'"
  using argument_user_mem [OF assms] by blast

section \<open>The kernel provides the interface\<close>

interpretation kuser: file_calls "kernel_calls P" "kernel_ok (at P) s0" "kernel_emits (at P) s0" ROOM "kernel_file_at (at P) s0" "kernel_dir_at (at P) s0"
  "kernel_named (at P) s0" "kernel_listed (at P) s0" "kernel_absent (at P) s0" "kernel_argument (at P) s0" for P s0
proof
  fix k k' k'' :: "'a user" and F G :: "int set" and xs ys bs buf :: "u8 list" and fd :: int and n :: nat and ns
  let ?a = "at P"
  show "kernel_ok ?a s0 k \<Longrightarrow> kernel_emits ?a s0 F [] k k" by (simp add: kernel_ok_def kernel_emits_def)
  show "kernel_emits ?a s0 F xs k k' \<Longrightarrow> kernel_emits ?a s0 F ys k' k'' \<Longrightarrow> kernel_emits ?a s0 F (xs @ ys) k k''" by (rule emits_trans')
  show "kernel_emits ?a s0 F xs k k' \<Longrightarrow> F \<subseteq> G \<Longrightarrow> kernel_emits ?a s0 G xs k k'" by (auto simp: kernel_emits_def)
  show "kernel_emits ?a s0 F xs k k' \<Longrightarrow> kernel_ok ?a s0 k'" by (simp add: kernel_emits_def kernel_ok_def)
  show "kernel_emits ?a s0 F xs k k' \<Longrightarrow> fd \<notin> F \<Longrightarrow> kernel_file_at ?a s0 k fd bs \<Longrightarrow> kernel_file_at ?a s0 k' fd bs"
    by (auto simp: kernel_emits_def kernel_file_at_def)
  show "kernel_emits ?a s0 F xs k k' \<Longrightarrow> fd \<notin> F \<Longrightarrow> -1 \<notin> F \<Longrightarrow> kernel_dir_at ?a s0 k fd ns \<Longrightarrow> kernel_dir_at ?a s0 k' fd ns"
    by (auto simp: kernel_emits_def kernel_dir_at_def)
  have free: "lowest_free (fst k') = lowest_free (fst k)" if "kernel_emits ?a s0 {} xs k k'"
    using that by (auto simp: kernel_emits_def lowest_free_def intro!: find_cong)
  show "kernel_emits ?a s0 {} xs k k' \<Longrightarrow> kernel_named ?a s0 k ys bs \<Longrightarrow> kernel_named ?a s0 k' ys bs" using free by (simp add: kernel_named_def)
  show "kernel_emits ?a s0 {} xs k k' \<Longrightarrow> kernel_absent ?a s0 k ys \<Longrightarrow> kernel_absent ?a s0 k' ys" by (simp add: kernel_absent_def)
  show "kernel_ok ?a s0 k \<Longrightarrow> 8 \<notin> set xs \<Longrightarrow> length xs + length ys \<le> ROOM \<Longrightarrow>
      \<exists>k'. ece391_write (kernel_calls P) 1 (xs @ ys) (int (length xs)) k = Some (int (length xs), k') \<and> kernel_emits ?a s0 {} xs k k'"
    using write_user [OF _ refl] by simp
  show "kernel_ok ?a s0 k \<Longrightarrow> kernel_absent ?a s0 k xs \<Longrightarrow> 0 \<notin> set xs \<Longrightarrow> length xs + length ys < ROOM \<Longrightarrow>
      \<exists>k'. ece391_open (kernel_calls P) (xs @ 0 # ys) k = Some (-1, k') \<and> kernel_emits ?a s0 {} [] k k'"
    using open_absent_user [OF _ refl] by simp
qed (simp_all only: kernel_calls_simps read_file_user [OF _ refl] read_dir_user [OF _ refl] open_file_user [OF _ refl]
    open_dir_user [OF _ refl] argument_user [OF _ refl])

section \<open>Programs on the kernel\<close>

text \<open>A program is running, with its buffers in a page at \<open>a\<close> and standard output on its terminal.\<close>

definition runs_user :: "u32 \<Rightarrow> 'a kernel_scheme \<Rightarrow> bool" where
  "runs_user a s \<longleftrightarrow> a \<noteq> 0 \<and> writable s a ROOM \<and> take 9 (syscall_jumptable s) = syscalls \<and> wf_console s \<and> wf_fds s \<and> fops (fd_of s 1) = Some Term_ops"

lemma runs_user_ok: "runs_user a s \<Longrightarrow> kernel_ok a s (s, sc)"
  by (simp add: runs_user_def kernel_ok_def in_user_def)

text \<open>
  Claim C9. \<open>cat\<close> on this kernel shows the file: a program with a free descriptor whose argument names a file of the image runs \<open>main\<close>
  of \<open>cat\<close> to its end, with value 0, through the system calls of the kernel, and its terminal then shows exactly the bytes of the file
  (free of backspaces) after what it showed; the other terminals show what they showed. With an argument that names no file it shows
  the message for that and returns 2, with no argument the message for that and returns 3.
\<close>

theorem cat_shows_file:
  assumes "runs_user (at P) s" and "pcb_argument (pcb_at s (cur_pcb s)) = xs @ 0 # ys" and "0 \<notin> set xs" and "length xs < 128" and "length buf = 1024"
    and "image_dir (at P) s ds"
  shows "(has_entry (at P) s xs e ds \<and> file_type e = FILE_TYPE_FILE \<and> image_file (at P) s (inode_num e) bs \<and> lowest_free s \<noteq> None \<and> BS \<notin> set bs \<longrightarrow>
      (\<exists>s' sc'. cat_main (kernel_calls P) buf (s, sc) = Some (0, (s', sc')) \<and> shown s' (terminal_num s) = spec_text bs (shown s (terminal_num s))
        \<and> (\<forall>j. 0 \<le> j \<and> j < 3 \<and> j \<noteq> terminal_num s \<longrightarrow> shown s' j = shown s j)))
    \<and> (xs = [] \<or> 32 < length xs \<or> xs \<notin> dentry_name ` set ds \<longrightarrow>
      (\<exists>s' sc'. cat_main (kernel_calls P) buf (s, sc) = Some (if xs = [] then 3 else 2, (s', sc'))
        \<and> shown s' (terminal_num s) = spec_text (if xs = [] then lit ''could not read arguments'' @ [10] else lit ''file not found'' @ [10]) (shown s (terminal_num s))))"
proof (intro conjI impI)
  note ok = runs_user_ok [OF assms(1), of sc]
  have arg: "kernel_argument (at P) s (s, sc) xs" using assms(2,3) by (auto simp: kernel_argument_def)
  {
    assume A: "has_entry (at P) s xs e ds \<and> file_type e = FILE_TYPE_FILE \<and> image_file (at P) s (inode_num e) bs \<and> lowest_free s \<noteq> None \<and> BS \<notin> set bs"
    then have "kernel_named (at P) s (s, sc) xs bs" "xs \<noteq> []" by (auto simp: kernel_named_def has_entry_def)
    from kuser.cat_emits [OF ok arg this(2) assms(4) this(1) _ assms(5)] A
    show "\<exists>s' sc'. cat_main (kernel_calls P) buf (s, sc) = Some (0, (s', sc')) \<and> shown s' (terminal_num s) = spec_text bs (shown s (terminal_num s))
        \<and> (\<forall>j. 0 \<le> j \<and> j < 3 \<and> j \<noteq> terminal_num s \<longrightarrow> shown s' j = shown s j)" by (fastforce simp: kernel_emits_def)
  }
  assume "xs = [] \<or> 32 < length xs \<or> xs \<notin> dentry_name ` set ds"
  then have "kernel_absent (at P) s (s, sc) xs" using assms(6) by (auto simp: kernel_absent_def)
  from kuser.cat_absent [OF ok arg assms(4,3) this assms(5)]
  show "\<exists>s' sc'. cat_main (kernel_calls P) buf (s, sc) = Some (if xs = [] then 3 else 2, (s', sc'))
        \<and> shown s' (terminal_num s) = spec_text (if xs = [] then lit ''could not read arguments'' @ [10] else lit ''file not found'' @ [10]) (shown s (terminal_num s))"
    by (fastforce simp: kernel_emits_def)
qed

text \<open>
  Claim C10. \<open>ls\<close> on this kernel lists the directory: run by a program with a free descriptor on an image whose directory has an entry
  \<open>.\<close> of the type directory, it returns 0 and its terminal shows the names of all entries in order, one per line, up to 32 characters each
  and with the entries themselves untouched; the other terminals show what they showed.
\<close>

theorem ls_lists_directory:
  assumes "runs_user (at P) s" and "has_entry (at P) s (lit ''.'') e ds" and "file_type e = FILE_TYPE_DIR" and "lowest_free s \<noteq> None"
    and "\<forall>d \<in> set ds. dentry_name d \<noteq> [] \<and> BS \<notin> set (dentry_name d)" and "length buf = 33"
  shows "\<exists>s' sc'. ls_main (kernel_calls P) buf (s, sc) = Some (0, (s', sc'))
    \<and> shown s' (terminal_num s) = spec_text (concat (map (\<lambda>d. dentry_name d @ [10]) ds)) (shown s (terminal_num s))
    \<and> (\<forall>j. 0 \<le> j \<and> j < 3 \<and> j \<noteq> terminal_num s \<longrightarrow> shown s' j = shown s j)"
proof -
  have "kernel_listed (at P) s (s, sc) (map dentry_name ds)" using assms(2-4) by (auto simp: kernel_listed_def)
  from kuser.ls_emits [OF runs_user_ok [OF assms(1)] this _ assms(6)] assms(5) show ?thesis
    by (fastforce simp: kernel_emits_def o_def)
qed

text \<open>The process of the small image, with its argument \<open>hi\<close> and its buffers at 0x20000.\<close>

definition sample_platform :: "unit platform" where
  "sample_platform = \<lparr>at = 0x20000, junk = ([], []), cmos = 0, registers = (0, 0, 0), child = (\<lambda>e k. None)\<rparr>"

definition sample_process :: "unit kernel_scheme" where
  "sample_process = (sample_kernel ())\<lparr>syscall_jumptable := syscalls @ [None]\<rparr>"

lemma sample_process_same: "same_image sample_process (sample_kernel ())" "fd_of sample_process = fd_of (sample_kernel ())"
  "wf_fds sample_process = wf_fds (sample_kernel ())" "wf_console sample_process = wf_console (sample_kernel ())" "lowest_free sample_process = lowest_free (sample_kernel ())"
  "terminal_num sample_process = 0"
  by (simp_all add: sample_process_def same_image_def same_mem_def same_paging_def fd_of_def wf_fds_def cur_pcb_def wf_console_def lowest_free_def fun_eq_iff)
    (simp add: sample_kernel_def sample_fs_def blank_rtc_def blank_defs)

lemma sample_at [simp]: "at sample_platform = 0x20000"
  by (simp add: sample_platform_def)

lemma sample_process_reads:
  "buffers 0x20000 sample_process = buffer_addrs (sample_fs \<lparr>pcb_at = (\<lambda>_. shell_pcb), tss_esp0 = 0x7FFFFC, tss_ss0 = 0x18,
     process = [1, 1, 0, 0, 0, 0], current_process_num = 1, syscall_jumptable = replicate 10 None\<rparr>) 0x20000 ROOM"
  "writable sample_process = writable (sample_kernel ())" "directory sample_process = directory (sample_kernel ())"
  "file_data sample_process = file_data (sample_kernel ())" "file_addrs sample_process = file_addrs (sample_kernel ())" "dir_addrs sample_process = dir_addrs (sample_kernel ())"
proof -
  note i = sample_process_same(1)
  then have m: "same_mem sample_process (sample_kernel ())" by (simp add: same_image_def)
  show "buffers 0x20000 sample_process = buffer_addrs (sample_fs \<lparr>pcb_at = (\<lambda>_. shell_pcb), tss_esp0 = 0x7FFFFC, tss_ss0 = 0x18,
     process = [1, 1, 0, 0, 0, 0], current_process_num = 1, syscall_jumptable = replicate 10 None\<rparr>) 0x20000 ROOM"
    unfolding buffers_def same_mem_reads(6) [OF m] sample_kernel_def ..
  show "writable sample_process = writable (sample_kernel ())" by (rule same_mem_reads(8) [OF m])
  show "directory sample_process = directory (sample_kernel ())" "file_data sample_process = file_data (sample_kernel ())"
    "file_addrs sample_process = file_addrs (sample_kernel ())" "dir_addrs sample_process = dir_addrs (sample_kernel ())"
    using same_image_reads [OF i] by simp_all
qed

lemma sample_runs: "runs_user 0x20000 sample_process"
proof -
  have "writable (sample_kernel ()) 0x20000 ROOM" unfolding sample_kernel_def by (rule writable_sample) simp
  moreover have "wf_console (sample_kernel ())" using wf_blank_terminal by (simp add: sample_kernel_def sample_fs_def blank_rtc_def blank_defs wf_console_def)
  moreover have "fops (fd_of (sample_kernel ()) 1) = Some Term_ops" by (simp add: fd_of_sample term_fd_def)
  ultimately show ?thesis using wf_fds_sample [of "()"]
    by (simp add: runs_user_def sample_process_same sample_process_reads) (simp add: sample_process_def syscalls_def)
qed

lemma sample_image_dir: "image_dir 0x20000 sample_process sample_dir"
proof -
  have "dir_addrs (sample_kernel ()) (length sample_dir) \<inter> buffers 0x20000 sample_process = {}"
    unfolding sample_process_reads(1) sample_kernel_def using sample_dir_addrs sample_buffer [of ROOM] by fastforce
  moreover have "to_test sample_process = boot_block sample_process" by (simp add: sample_process_def sample_kernel_def)
  ultimately show ?thesis using sample_open(1) by (simp add: image_dir_def sample_process_reads(3-6))
qed

lemma sample_has_hi: "has_entry 0x20000 sample_process (lit ''hi'') (sample_dir ! 1) sample_dir" "image_file 0x20000 sample_process (inode_num (sample_dir ! 1)) (lit ''abc'')"
proof -
  show "has_entry 0x20000 sample_process (lit ''hi'') (sample_dir ! 1) sample_dir"
    using sample_image_dir sample_open(3) by (simp add: has_entry_def lit_def byte_of_def)
  have "inode_num (sample_dir ! 1) = 0" by (simp add: sample_dir_def dentry_of_def le32_def sample_phys_def sample_image_def)
  moreover have "file_addrs (sample_kernel ()) 0 3 \<inter> buffers 0x20000 sample_process = {}"
    unfolding sample_process_reads(1) sample_kernel_def using sample_file_addrs sample_buffer [of ROOM] by fastforce
  moreover have "file_data (sample_kernel ()) 0 (lit ''abc'')" unfolding sample_kernel_def by (rule sample_file)
  ultimately show "image_file 0x20000 sample_process (inode_num (sample_dir ! 1)) (lit ''abc'')"
    by (simp add: image_file_def sample_process_reads(4,5) numeral_3_eq_3)
qed

lemma sample_dot: "\<exists>e. has_entry 0x20000 sample_process (lit ''.'') e sample_dir \<and> file_type e = FILE_TYPE_DIR"
proof -
  obtain d0 d1 where d: "sample_dir = [d0, d1]" by (simp add: sample_dir_def)
  have nm: "dentry_name d0 = lit ''.''" "dentry_name d1 = lit ''hi''" using sample_names unfolding d by simp_all
  have "file_type (sample_dir ! 0) = FILE_TYPE_DIR" by (simp add: sample_dir_def dentry_of_def le32_def sample_phys_def sample_image_def)
  then have "file_type d0 = FILE_TYPE_DIR" by (simp add: d)
  moreover have "has_entry 0x20000 sample_process (lit ''.'') d0 sample_dir"
    using sample_image_dir nm by (simp add: has_entry_def d lit_def byte_of_def)
  ultimately show ?thesis by blast
qed

lemma sample_free: "\<forall>j. 2 \<le> j \<and> j < 8 \<longrightarrow> flags (fd_of sample_process j) = 0 \<and> fops (fd_of sample_process j) = None"
proof (intro allI impI)
  fix j :: int assume "2 \<le> j \<and> j < 8"
  then have "j \<in> {2, 3, 4, 5, 6, 7}" by auto
  then show "flags (fd_of sample_process j) = 0 \<and> fops (fd_of sample_process j) = None"
    by (auto simp: sample_process_same fd_of_sample closed_fd_def)
qed

theorem cat_shows_file_witness:
  "\<exists>s' sc'. cat_main (kernel_calls sample_platform) (replicate 1024 0) (sample_process, []) = Some (0, (s', sc'))
    \<and> shown s' 0 = spec_text (lit ''abc'') (shown sample_process 0)"
proof -
  have a: "pcb_argument (pcb_at sample_process (cur_pcb sample_process)) = lit ''hi'' @ 0 # replicate 125 0"
    by (simp add: sample_process_def shell_pcb_def numeral_eq_Suc)
  have n: "0 \<notin> set (lit ''hi'')" "length (lit ''hi'') < 128" "length (replicate 1024 (0 :: u8)) = 1024" "BS \<notin> set (lit ''abc'')"
    by (simp_all add: lit_def byte_of_def)
  have r: "runs_user (at sample_platform) sample_process" "image_dir (at sample_platform) sample_process sample_dir" using sample_runs sample_image_dir by simp_all
  from cat_shows_file [OF r(1) a n(1-3) r(2), of "sample_dir ! 1" "lit ''abc''" "[]", THEN conjunct1]
  show ?thesis using sample_has_hi sample_open(4,5) n(4) sample_process_same(5,6) by auto
qed

theorem ls_lists_directory_witness:
  "\<exists>s' sc'. ls_main (kernel_calls sample_platform) (replicate 33 0) (sample_process, []) = Some (0, (s', sc'))
    \<and> shown s' 0 = spec_text (lit ''.'' @ [10] @ lit ''hi'' @ [10]) (shown sample_process 0)"
proof -
  from sample_dot obtain e where h: "has_entry (at sample_platform) sample_process (lit ''.'') e sample_dir" "file_type e = FILE_TYPE_DIR" by auto
  have n: "\<forall>x \<in> set sample_dir. dentry_name x \<noteq> [] \<and> BS \<notin> set (dentry_name x)" using sample_names by (auto simp: sample_dir_def lit_def byte_of_def)
  have r: "runs_user (at sample_platform) sample_process" using sample_runs by simp
  from ls_lists_directory [OF r h _ n, of "replicate 33 0" "[]"] sample_open(5) sample_process_same(5,6) sample_names show ?thesis by (auto simp: sample_dir_def)
qed

end
