(* ===== verification/Syserr.thy ===== *)
theory Syserr
  imports User_Kernel
begin

text \<open>
  The kernel against the repository's own test program, syscalls/ece391syserr.c: what each of its eight tests reports when it runs on
  this kernel.
\<close>

section \<open>Calls that are refused\<close>

context terminal_calls
begin

lemma emits_empty: "emits F [] k k' \<Longrightarrow> emits F xs k' k'' \<Longrightarrow> emits F xs k k''"
  using emits_trans [of F "[]" k k' xs k''] by simp

lemma expect_refused: "expect C msg fail (-1) k = Some (fail, k)"
  by (simp add: expect_def)

lemma verdict_pass:
  assumes "ok k" and "plain name" and "length name + 8 < room"
  shows "\<exists>k'. verdict C name 0 k = Some (0, k') \<and> emits {} (lit (name @ '': PASS'') @ [10]) k k'"
proof -
  have "plain (name @ '': PASS'')" using assms(2) by (simp add: plain_def byte_of_def)
  from line_emits [OF assms(1) this] assms(3) show ?thesis by (auto simp: verdict_def)
qed

end

locale guarded_calls = terminal_calls C ok emits room
  for C :: "'k calls" and ok :: "'k \<Rightarrow> bool" and emits :: "int set \<Rightarrow> u8 list \<Rightarrow> 'k \<Rightarrow> 'k \<Rightarrow> bool" and room :: nat +
  assumes read_refused: "ok k \<Longrightarrow> fd < 0 \<or> 8 \<le> fd \<or> fd = 1 \<Longrightarrow> - (2 ^ 31) \<le> fd \<Longrightarrow> fd < 2 ^ 31 \<Longrightarrow> length buf \<le> room \<Longrightarrow>
      \<exists>k'. ece391_read C fd buf 31 k = Some (-1, buf, k') \<and> emits {} [] k k'"
    and write_refused: "ok k \<Longrightarrow> fd < 0 \<or> 8 \<le> fd \<or> fd = 0 \<Longrightarrow> - (2 ^ 31) \<le> fd \<Longrightarrow> fd < 2 ^ 31 \<Longrightarrow> length buf \<le> room \<Longrightarrow>
      \<exists>k'. ece391_write C fd buf 31 k = Some (-1, k') \<and> emits {} [] k k'"
    and close_refused: "ok k \<Longrightarrow> fd < 2 \<or> 8 \<le> fd \<Longrightarrow> - (2 ^ 31) \<le> fd \<Longrightarrow> fd < 2 ^ 31 \<Longrightarrow>
      \<exists>k'. ece391_close C fd k = Some (-1, k') \<and> emits {} [] k k'"
    and vidmap_refused: "ok k \<Longrightarrow> a < 0x8000000 \<Longrightarrow> \<exists>k'. ece391_vidmap C a k = Some (-1, k') \<and> emits {} [] k k'"
    and number_refused: "ok k \<Longrightarrow> n < 1 \<or> 8 < n \<Longrightarrow> - (2 ^ 31) \<le> n \<Longrightarrow> n < 2 ^ 31 \<Longrightarrow>
      \<exists>k'. ece391_number C n k = Some (-1, k') \<and> emits {} [] k k'"
begin

lemma err_fd_passes:
  assumes "ok k" and "fd < 0 \<or> 8 \<le> fd" and "- (2 ^ 31) \<le> fd" and "fd < 2 ^ 31" and "length buf = 32" and "plain name" and "length name + 8 < room" and "32 \<le> room"
  shows "\<exists>k'. err_fd name fd C buf k = Some (0, k') \<and> emits {} (lit (name @ '': PASS'') @ [10]) k k'"
proof -
  from read_refused [OF assms(1) _ assms(3,4), of buf] assms(2,5,8) obtain k1 where k1: "ece391_read C fd buf 31 k = Some (-1, buf, k1)" "emits {} [] k k1" by auto
  from write_refused [OF emits_ok [OF k1(2)] _ assms(3,4), of buf] assms(2,5,8) obtain k2 where k2: "ece391_write C fd buf 31 k1 = Some (-1, k2)" "emits {} [] k1 k2" by auto
  from close_refused [OF emits_ok [OF k2(2)] _ assms(3,4)] assms(2) obtain k3 where k3: "ece391_close C fd k2 = Some (-1, k3)" "emits {} [] k2 k3" by auto
  from verdict_pass [OF emits_ok [OF k3(2)] assms(6,7)] obtain k' where k': "verdict C name 0 k3 = Some (0, k')" "emits {} (lit (name @ '': PASS'') @ [10]) k3 k'" by blast
  have "err_fd name fd C buf k = Some (0, k')" using k1(1) k2(1) k3(1) k'(1) by (simp add: err_fd_def expect_refused)
  then show ?thesis using emits_empty [OF emits_empty [OF emits_empty [OF k1(2) k2(2)] k3(2)] k'(2)] by blast
qed

lemma err_vidmap_passes:
  assumes "ok k" and "32 \<le> room"
  shows "\<exists>k'. err_vidmap C k = Some (0, k') \<and> emits {} (lit ''err_vidmap: PASS'' @ [10]) k k'"
proof -
  have p: "plain ''err_vidmap''" by (simp add: plain_def byte_of_def)
  from vidmap_refused [OF assms(1), of 0] obtain k1 where k1: "ece391_vidmap C 0 k = Some (-1, k1)" "emits {} [] k k1" by auto
  from vidmap_refused [OF emits_ok [OF k1(2)], of "0x400000"] obtain k2 where k2: "ece391_vidmap C 0x400000 k1 = Some (-1, k2)" "emits {} [] k1 k2" by auto
  from verdict_pass [OF emits_ok [OF k2(2)] p] assms(2) obtain k' where k': "verdict C ''err_vidmap'' 0 k2 = Some (0, k')" "emits {} (lit ''err_vidmap: PASS'' @ [10]) k2 k'" by auto
  have "err_vidmap C k = Some (0, k')" using k1(1) k2(1) k'(1) by (simp add: err_vidmap_def expect_refused)
  then show ?thesis using emits_empty [OF emits_empty [OF k1(2) k2(2)] k'(2)] by blast
qed

lemma err_stdin_out_passes:
  assumes "ok k" and "length buf = 32" and "32 \<le> room"
  shows "\<exists>k'. err_stdin_out C buf k = Some (0, k') \<and> emits {} (lit ''err_stdin_out: PASS'' @ [10]) k k'"
proof -
  have p: "plain ''err_stdin_out''" by (simp add: plain_def byte_of_def)
  from write_refused [OF assms(1), of 0 buf] assms(2,3) obtain k1 where k1: "ece391_write C 0 buf 31 k = Some (-1, k1)" "emits {} [] k k1" by auto
  from read_refused [OF emits_ok [OF k1(2)], of 1 buf] assms(2,3) obtain k2 where k2: "ece391_read C 1 buf 31 k1 = Some (-1, buf, k2)" "emits {} [] k1 k2" by auto
  from verdict_pass [OF emits_ok [OF k2(2)] p] assms(3) obtain k' where k': "verdict C ''err_stdin_out'' 0 k2 = Some (0, k')" "emits {} (lit ''err_stdin_out: PASS'' @ [10]) k2 k'" by auto
  have "err_stdin_out C buf k = Some (0, k')" using k1(1) k2(1) k'(1) by (simp add: err_stdin_out_def expect_refused)
  then show ?thesis using emits_empty [OF emits_empty [OF k1(2) k2(2)] k'(2)] by blast
qed

lemma err_syscall_num_passes:
  assumes "ok k" and "32 \<le> room"
  shows "\<exists>k'. err_syscall_num C k = Some (0, k') \<and> emits {} (lit ''err_syscall_num: PASS'' @ [10]) k k'"
proof -
  have p: "plain ''err_syscall_num''" by (simp add: plain_def byte_of_def)
  from number_refused [OF assms(1), of 1073741823] obtain k1 where k1: "ece391_number C 1073741823 k = Some (-1, k1)" "emits {} [] k k1" by auto
  from number_refused [OF emits_ok [OF k1(2)], of "-1073741823"] obtain k2 where k2: "ece391_number C (-1073741823) k1 = Some (-1, k2)" "emits {} [] k1 k2" by auto
  from number_refused [OF emits_ok [OF k2(2)], of 0] obtain k3 where k3: "ece391_number C 0 k2 = Some (-1, k3)" "emits {} [] k2 k3" by auto
  from verdict_pass [OF emits_ok [OF k3(2)] p] assms(2) obtain k' where k': "verdict C ''err_syscall_num'' 0 k3 = Some (0, k')" "emits {} (lit ''err_syscall_num: PASS'' @ [10]) k3 k'" by auto
  have "err_syscall_num C k = Some (0, k')" using k1(1) k2(1) k3(1) k'(1) by (simp add: err_syscall_num_def expect_refused)
  then show ?thesis using emits_empty [OF emits_empty [OF emits_empty [OF k1(2) k2(2)] k3(2)] k'(2)] by blast
qed

end

context file_calls
begin

lemma err_open_passes:
  assumes "ok k" and "absent k (lit ''helloo'')" and "absent k (lit ''shel'')" and "absent k []" and "32 \<le> room"
  shows "\<exists>k'. err_open C k = Some (0, k') \<and> emits {} (lit ''err_open: PASS'' @ [10]) k k'"
proof -
  have p: "plain ''err_open''" and n: "0 \<notin> set (lit ''helloo'')" "0 \<notin> set (lit ''shel'')" by (simp_all add: plain_def lit_def byte_of_def)
  from open_absent [OF assms(1,2) n(1), of "[]"] assms(5) obtain k1 where k1: "ece391_open C (literal ''helloo'') k = Some (-1, k1)" "emits {} [] k k1" by (auto simp: literal_def)
  from open_absent [OF emits_ok [OF k1(2)] absent_kept [OF k1(2) assms(3)] n(2), of "[]"] assms(5) obtain k2 where
    k2: "ece391_open C (literal ''shel'') k1 = Some (-1, k2)" "emits {} [] k1 k2" by (auto simp: literal_def)
  from open_absent [OF emits_ok [OF k2(2)] absent_kept [OF k2(2) absent_kept [OF k1(2) assms(4)]], of "[]"] assms(5) obtain k3 where
    k3: "ece391_open C (literal []) k2 = Some (-1, k3)" "emits {} [] k2 k3" by (auto simp: literal_def lit_def)
  from verdict_pass [OF emits_ok [OF k3(2)] p] assms(5) obtain k' where k': "verdict C ''err_open'' 0 k3 = Some (0, k')" "emits {} (lit ''err_open: PASS'' @ [10]) k3 k'" by auto
  have "err_open C k = Some (0, k')" using k1(1) k2(1) k3(1) k'(1) by (simp add: err_open_def expect_refused)
  then show ?thesis using emits_empty [OF emits_empty [OF emits_empty [OF k1(2) k2(2)] k3(2)] k'(2)] by blast
qed

end

interpretation kguard: guarded_calls "kernel_calls P" "kernel_ok (at P) s0" "kernel_emits (at P) s0" ROOM for P s0
proof
  fix k :: "'a user" and fd n :: int and buf :: "u8 list" and a :: u32
  let ?a = "at P"
  have u: "in_user ?a s0 (fst k)" if "kernel_ok ?a s0 k" using that by (simp add: kernel_ok_def)
  have e: "kernel_emits ?a s0 {} [] k (fst k, snd k)" if "kernel_ok ?a s0 k" using kuser.emits_refl [OF that] by simp
  show "\<exists>k'. ece391_close (kernel_calls P) fd k = Some (-1, k') \<and> kernel_emits ?a s0 {} [] k k'"
    if k: "kernel_ok ?a s0 k" and fd: "fd < 2 \<or> 8 \<le> fd" "- (2 ^ 31) \<le> fd" "fd < 2 ^ 31"
  proof -
    have "sys_close fd (fst k) = Some (-1, fst k)" using fd(1) by (auto simp: sys_close_def)
    then show ?thesis using e [OF k] do_calls(4) [OF u [OF k] fd(2,3)] by (auto simp: kernel_close_def)
  qed
  show "\<exists>k'. ece391_number (kernel_calls P) n k = Some (-1, k') \<and> kernel_emits ?a s0 {} [] k k'"
    if k: "kernel_ok ?a s0 k" and n: "n < 1 \<or> 8 < n" "- (2 ^ 31) \<le> n" "n < 2 ^ 31"
  proof -
    obtain b c d where r: "registers P = (b, c, d)" by (cases "registers P") auto
    have "DO_CALL P [] (word_of_int n) b c d (fst k) = Some (-1, fst k)"
      by (rule do_calls(7) [OF u [OF k]]) (use n sint_range [OF n(2,3)] in simp)
    then show ?thesis using e [OF k] by (auto simp: kernel_number_def r)
  qed
  show "\<exists>k'. ece391_vidmap (kernel_calls P) a k = Some (-1, k') \<and> kernel_emits ?a s0 {} [] k k'" if k: "kernel_ok ?a s0 k" and a: "a < 0x8000000"
  proof -
    have "vidmap a (fst k) = Some (-1, fst k)" using a by (simp add: vidmap_def)
    then show ?thesis using e [OF k] do_calls(6) [OF u [OF k]] by (auto simp: kernel_vidmap_def)
  qed
  show "\<exists>k'. ece391_write (kernel_calls P) fd buf 31 k = Some (-1, k') \<and> kernel_emits ?a s0 {} [] k k'"
    if k: "kernel_ok ?a s0 k" and fd: "fd < 0 \<or> 8 \<le> fd \<or> fd = 0" "- (2 ^ 31) \<le> fd" "fd < 2 ^ 31" and l: "length buf \<le> ROOM"
  proof -
    from put_bytes_user [OF u [OF k] l, of "{}" "snd k" "snd k"] obtain s1 where
      s1: "put_bytes ?a buf (fst k) = Some s1" "in_user ?a s0 s1" "kernel_emits ?a s0 {} [] k (s1, snd k)" by auto
    have "sys_write (cmos P) fd ?a 31 s1 = Some (-1, s1)" using fd(1) by (auto simp: sys_write_def)
    then show ?thesis using s1(1,3) do_calls(2) [OF s1(2) fd(2,3), of 31] by (auto simp: kernel_write_def)
  qed
  show "\<exists>k'. ece391_read (kernel_calls P) fd buf 31 k = Some (-1, buf, k') \<and> kernel_emits ?a s0 {} [] k k'"
    if k: "kernel_ok ?a s0 k" and fd: "fd < 0 \<or> 8 \<le> fd \<or> fd = 1" "- (2 ^ 31) \<le> fd" "fd < 2 ^ 31" and l: "length buf \<le> ROOM"
  proof -
    from put_bytes_user [OF u [OF k] l, of "{}" "snd k" "tl (snd k)"] obtain s1 where
      s1: "put_bytes ?a buf (fst k) = Some s1" "load_bytes s1 ?a (length buf) = Some buf" "in_user ?a s0 s1" "kernel_emits ?a s0 {} [] k (s1, tl (snd k))" by auto
    have "sys_read (next_events (snd k)) fd ?a 31 s1 = Some (-1, s1, next_events (snd k))" using fd(1) by (auto simp: sys_read_def)
    then show ?thesis using s1(1,2,4) do_calls(1) [OF s1(3) fd(2,3), of 31] by (auto simp: kernel_read_def)
  qed
qed

section \<open>All descriptors in use\<close>

definition all_fds :: "int set" where
  "all_fds = {-1} \<union> {2..<8}"

text \<open>The descriptors from 2 on: \<open>n\<close> opened for the entry \<open>e\<close>, the others free. All closed again, with the operations of a directory left.\<close>

definition opened_to :: "int \<Rightarrow> dentry \<Rightarrow> 'a kernel_scheme \<Rightarrow> bool" where
  "opened_to n e s \<longleftrightarrow> (\<forall>j. 2 \<le> j \<and> j < n \<longrightarrow> fd_of s j = opened_fd e) \<and> (\<forall>j. n \<le> j \<and> j < 8 \<longrightarrow> flags (fd_of s j) = 0)"

definition closed_dirs :: "'a kernel_scheme \<Rightarrow> bool" where
  "closed_dirs s \<longleftrightarrow> (\<forall>j. 2 \<le> j \<and> j < 8 \<longrightarrow> flags (fd_of s j) = 0 \<and> fops (fd_of s j) = Some Dir_ops)"

lemma lowest_free_opened:
  assumes "opened_to n e s" and "2 \<le> n"
  shows "n < 8 \<Longrightarrow> lowest_free s = Some (nat n)" and "n = 8 \<Longrightarrow> lowest_free s = None"
proof -
  have o: "flags (fd_of s j) \<noteq> 0" if "2 \<le> j" "j < n" for j using assms(1) that by (simp add: opened_to_def opened_fd_def)
  show "lowest_free s = Some (nat n)" if "n < 8"
  proof (cases "lowest_free s")
    case None
    have i: "nat n \<in> {2..<8}" using assms(2) that by auto
    from None have "\<forall>j \<in> {2..<8}. flags (fd_of s (int j)) \<noteq> 0" by (simp only: lowest_free_def find_None_iff set_upt) blast
    from bspec [OF this i] have "flags (fd_of s n) \<noteq> 0" using assms(2) by simp
    then show ?thesis using assms(1) that by (simp add: opened_to_def)
  next
    case (Some i)
    note l = lowest_free_least [OF Some]
    have "\<not> int i < n" using o [of "int i"] l by auto
    moreover have "\<not> n < int i"
    proof
      assume "n < int i"
      then have "nat n \<in> {2..<i}" using assms(2) by auto
      with l have "flags (fd_of s (int (nat n))) \<noteq> 0" by blast
      then have "flags (fd_of s n) \<noteq> 0" using assms(2) by simp
      then show False using assms(1) that by (simp add: opened_to_def)
    qed
    ultimately show ?thesis using Some by simp
  qed
  show "lowest_free s = None" if "n = 8" using o that by (auto simp: lowest_free_def find_None_iff)
qed

lemma emits_all: "kernel_emits a s0 F xs k k' \<Longrightarrow> F \<subseteq> all_fds \<Longrightarrow> kernel_emits a s0 all_fds xs k k'"
  by (auto simp: kernel_emits_def)

lemma open_lots:
  assumes k: "kernel_ok (at P) s0 k" and e: "has_entry (at P) s0 (lit ''.'') e ds" "file_type e = FILE_TYPE_DIR" and free: "opened_to 2 e (fst k)"
  shows "\<exists>k'. for_range 0 7 (\<lambda>i (cnt, k). do { (r, k) \<leftarrow> ece391_open (kernel_calls P) (literal ''.'') k; Some (if -1 = r then cnt + 1 else cnt, k) }) (0 :: int, k) = Some (1, k')
    \<and> kernel_emits (at P) s0 all_fds [] k k' \<and> opened_to 8 e (fst k')"
proof -
  let ?f = "\<lambda>i (cnt, k). do { (r, k) \<leftarrow> ece391_open (kernel_calls P) (literal ''.'') k; Some (if -1 = r then cnt + 1 else cnt, k) }"
  let ?I = "\<lambda>n (cnt :: int, k'). kernel_emits (at P) s0 all_fds [] k k' \<and> (if n < 7 then cnt = 0 \<and> opened_to (2 + int n) e (fst k') else cnt = 1 \<and> opened_to 8 e (fst k'))"
  have "\<exists>r. for_range 0 7 ?f (0 :: int, k) = Some r \<and> ?I 7 r"
  proof (rule for_range_total [where I = ?I])
    show "?I 0 (0, k)" using free kuser.emits_refl [OF k] by simp
    fix n :: nat and t assume n: "n < 7" and t: "?I n t"
    obtain k1 where t': "t = (0, k1)" "kernel_emits (at P) s0 all_fds [] k k1" "opened_to (2 + int n) e (fst k1)" using t n by (cases t) auto
    have ok: "kernel_ok (at P) s0 k1" using kuser.emits_ok [OF t'(2)] .
    show "\<exists>t'. ?f n t = Some t' \<and> ?I (Suc n) t'"
    proof (cases "n < 6")
      case True
      let ?i = "2 + int n"
      have "lowest_free (fst k1) = Some (nat ?i)" using lowest_free_opened(1) [OF t'(3)] True by simp
      from open_dot_user [OF ok refl e this] obtain k2 where
        k2: "kernel_open P (literal ''.'') k1 = Some (?i, k2)" "kernel_emits (at P) s0 {?i, -1} [] k1 k2" "fd_of (fst k2) ?i = opened_fd e" by auto
      have kept: "fd_of (fst k2) j = fd_of (fst k1) j" if "2 \<le> j" "j < 8" "j \<noteq> ?i" for j using k2(2) that by (auto simp: kernel_emits_def)
      have "opened_to (?i + 1) e (fst k2)"
        unfolding opened_to_def
      proof (intro conjI allI impI)
        fix j assume "2 \<le> j \<and> j < ?i + 1"
        then show "fd_of (fst k2) j = opened_fd e" using k2(3) kept [of j] t'(3) True by (cases "j = ?i") (auto simp: opened_to_def)
      next
        fix j assume "?i + 1 \<le> j \<and> j < 8"
        then show "flags (fd_of (fst k2) j) = 0" using kept [of j] t'(3) by (auto simp: opened_to_def)
      qed
      moreover have "kernel_emits (at P) s0 all_fds [] k k2"
        using emits_trans' [OF t'(2) emits_all [OF k2(2)]] True by (simp add: all_fds_def)
      ultimately show ?thesis using k2(1) True by (auto simp: t'(1) algebra_simps)
    next
      case False
      then have n6: "n = 6" using n by simp
      have full: "lowest_free (fst k1) = None" using lowest_free_opened(2) [OF t'(3)] n6 by simp
      have "length (lit ''.'') + length ([] :: u8 list) < ROOM" by simp
      from open_full_user [OF ok refl e(1) full this] obtain k2 where
        k2: "kernel_open P (literal ''.'') k1 = Some (-1, k2)" "kernel_emits (at P) s0 {} [] k1 k2" by (auto simp: literal_def)
      have "opened_to 8 e (fst k2)" using k2(2) t'(3) n6 by (simp add: opened_to_def kernel_emits_def)
      moreover have "kernel_emits (at P) s0 all_fds [] k k2" using emits_trans' [OF t'(2) emits_all [OF k2(2)]] by simp
      ultimately show ?thesis using k2(1) n6 by (auto simp: t'(1))
    qed
  qed simp
  then show ?thesis by auto
qed

lemma close_lots:
  assumes k: "kernel_ok (at P) s0 k" and e: "file_type e = FILE_TYPE_DIR" and o: "opened_to 8 e (fst k)"
  shows "\<exists>k'. for_range 2 8 (\<lambda>i k. do { (r, k) \<leftarrow> ece391_close (kernel_calls P) (int i) k; Some k }) k = Some k'
    \<and> kernel_emits (at P) s0 all_fds [] k k' \<and> closed_dirs (fst k')"
proof -
  let ?f = "\<lambda>i k. do { (r, k) \<leftarrow> ece391_close (kernel_calls P) (int i) k; Some k }"
  let ?I = "\<lambda>n k'. kernel_emits (at P) s0 all_fds [] k k' \<and> (\<forall>j. 2 \<le> j \<and> j < int n \<longrightarrow> flags (fd_of (fst k') j) = 0 \<and> fops (fd_of (fst k') j) = Some Dir_ops)
    \<and> (\<forall>j. int n \<le> j \<and> j < 8 \<longrightarrow> fd_of (fst k') j = opened_fd e)"
  have "\<exists>k'. for_range 2 8 ?f k = Some k' \<and> ?I 8 k'"
  proof (rule for_range_total [where I = ?I])
    show "?I 2 k" using o kuser.emits_refl [OF k] by (auto simp: opened_to_def)
    fix n k1 assume n: "2 \<le> n" "n < 8" and I: "?I n k1"
    have u: "in_user (at P) s0 (fst k1)" using I by (simp add: kernel_emits_def)
    note w = in_userD [OF u]
    let ?fd = "int n" and ?s = "put_fd (int n) ((opened_fd e)\<lparr>flags := 0\<rparr>) (fst k1)"
    have d: "fd_of (fst k1) ?fd = opened_fd e" using I n by simp
    have "sys_close ?fd (fst k1) = Some (0, ?s)" using close_open_fd [OF w(3), of ?fd Dir_ops] n d e by (simp add: opened_fd_def ops_of_type_def)
    moreover have "DO_CALL P [] 6 (word_of_int ?fd) 0 0 (fst k1) = sys_close ?fd (fst k1)" using n by (intro do_calls(4) [OF u]) auto
    ultimately have "kernel_close P ?fd k1 = Some (0, (?s, snd k1))" by (simp add: kernel_close_def)
    moreover have "kernel_emits (at P) s0 all_fds [] k (?s, snd k1)"
    proof -
      have "kernel_emits (at P) s0 all_fds [] (fst k1, snd k1) (?s, snd k1)" using n by (intro emits_put_fd [OF u]) (auto simp: all_fds_def)
      then show ?thesis using emits_trans' [of "at P" s0 all_fds "[]" k k1 "[]" "(?s, snd k1)"] I by simp
    qed
    moreover have f: "fd_of ?s ?fd = (opened_fd e)\<lparr>flags := 0\<rparr>" "\<And>j. 0 \<le> j \<Longrightarrow> j \<noteq> ?fd \<Longrightarrow> fd_of ?s j = fd_of (fst k1) j"
      using fd_of_put_fd [OF w(3), of ?fd] n by auto
    have "flags (fd_of ?s j) = 0 \<and> fops (fd_of ?s j) = Some Dir_ops" if "2 \<le> j" "j < int (Suc n)" for j
      using f(1) f(2) [of j] I e that by (cases "j = ?fd") (auto simp: opened_fd_def ops_of_type_def)
    moreover have "fd_of ?s j = opened_fd e" if "int (Suc n) \<le> j" "j < 8" for j using f(2) [of j] I that by auto
    ultimately show "\<exists>k'. ?f n k1 = Some k' \<and> ?I (Suc n) k'" by (intro exI [of _ "(?s, snd k1)"]) (simp del: of_nat_Suc)
  qed simp
  then show ?thesis by (auto simp: closed_dirs_def)
qed

lemma err_open_lots_passes:
  assumes k: "kernel_ok (at P) s0 k" and e: "has_entry (at P) s0 (lit ''.'') e ds" "file_type e = FILE_TYPE_DIR" and free: "opened_to 2 e (fst k)"
  shows "\<exists>k'. err_open_lots (kernel_calls P) k = Some (0, k') \<and> kernel_emits (at P) s0 all_fds (lit ''err_open_lots: PASS'' @ [10]) k k' \<and> closed_dirs (fst k')"
proof -
  have p: "plain ''err_open_lots: PASS''" by (simp add: plain_def byte_of_def)
  from open_lots [OF assms] obtain k1 where k1: "for_range 0 7 (\<lambda>i (cnt, k). do { (r, k) \<leftarrow> ece391_open (kernel_calls P) (literal ''.'') k; Some (if -1 = r then cnt + 1 else cnt, k) }) (0 :: int, k) = Some (1, k1)"
    "kernel_emits (at P) s0 all_fds [] k k1" "opened_to 8 e (fst k1)" by blast
  from close_lots [OF kuser.emits_ok [OF k1(2)] e(2) k1(3)] obtain k2 where
    k2: "for_range 2 8 (\<lambda>i k. do { (r, k) \<leftarrow> ece391_close (kernel_calls P) (int i) k; Some k }) k1 = Some k2" "kernel_emits (at P) s0 all_fds [] k1 k2" "closed_dirs (fst k2)" by blast
  from kuser.line_emits [OF kuser.emits_ok [OF k2(2)] p] obtain k' where
    k': "ece391_fdputs (kernel_calls P) 1 (line ''err_open_lots: PASS'') k2 = Some k'" "kernel_emits (at P) s0 {} (lit ''err_open_lots: PASS'' @ [10]) k2 k'" by auto
  have "err_open_lots (kernel_calls P) k = Some (0, k')" unfolding err_open_lots_def k1(1) using k2(1) k'(1) by simp
  moreover have "closed_dirs (fst k')" using k2(3) k'(2) by (simp add: closed_dirs_def kernel_emits_def)
  ultimately show ?thesis using emits_trans' [OF k1(2) emits_trans' [OF k2(2) emits_all [OF k'(2)]]] by simp
qed

section \<open>Descriptors that are not open\<close>

lemma closed_dirs_kept: "kernel_emits a s0 {} xs k k' \<Longrightarrow> closed_dirs (fst k) \<Longrightarrow> closed_dirs (fst k')"
  by (simp add: closed_dirs_def kernel_emits_def)

lemma closed_close:
  assumes k: "kernel_ok (at P) s0 k" and fd: "0 \<le> fd" "fd < 8" and f: "2 \<le> fd \<Longrightarrow> flags (fd_of (fst k) fd) = 0"
  shows "\<exists>k'. ece391_close (kernel_calls P) fd k = Some (-1, k') \<and> kernel_emits (at P) s0 {} [] k k'"
proof -
  have u: "in_user (at P) s0 (fst k)" using k by (simp add: kernel_ok_def)
  have "sys_close fd (fst k) = Some (-1, fst k)" using fd f get_fd_in [OF in_userD(3) [OF u]] by (auto simp: sys_close_def)
  moreover have "DO_CALL P [] 6 (word_of_int fd) 0 0 (fst k) = sys_close fd (fst k)" using fd by (intro do_calls(4) [OF u]) auto
  ultimately show ?thesis using kuser.emits_refl [OF k, of "{}"] by (simp add: kernel_close_def)
qed

lemma closed_read:
  assumes k: "kernel_ok (at P) s0 k" and fd: "2 \<le> fd" "fd < 8" and f: "flags (fd_of (fst k) fd) = 0" and l: "length buf \<le> ROOM"
  shows "\<exists>k'. ece391_read (kernel_calls P) fd buf 31 k = Some (-1, buf, k') \<and> kernel_emits (at P) s0 {} [] k k'"
proof -
  have u: "in_user (at P) s0 (fst k)" using k by (simp add: kernel_ok_def)
  from put_bytes_user [OF u l, of "{}" "snd k" "tl (snd k)"] obtain s1 where
    s1: "put_bytes (at P) buf (fst k) = Some s1" "load_bytes s1 (at P) (length buf) = Some buf" "in_user (at P) s0 s1" "kernel_emits (at P) s0 {} [] k (s1, tl (snd k))" by auto
  have "flags (fd_of s1 fd) = 0" using put_bytes_fds [OF s1(1)] f by simp
  then have "sys_read (next_events (snd k)) fd (at P) 31 s1 = Some (-1, s1, next_events (snd k))"
    using fd get_fd_in [OF in_userD(3) [OF s1(3)]] by (simp add: sys_read_def)
  moreover have "DO_CALL P (next_events (snd k)) 3 (word_of_int fd) (at P) (word_of_int 31) s1
      = map_option (\<lambda>(r, s, es). (r, s)) (sys_read (next_events (snd k)) fd (at P) 31 s1)"
    using fd by (intro do_calls(1) [OF s1(3)]) auto
  ultimately show ?thesis using s1(1,2,4) by (auto simp: kernel_read_def)
qed

text \<open>\<open>write\<close> does not look at the flags: it calls through the operations that the slot was left with.\<close>

lemma closed_write:
  assumes k: "kernel_ok (at P) s0 k" and fd: "2 \<le> fd" "fd < 8" and l: "length buf \<le> ROOM"
  shows "fops (fd_of (fst k) fd) = Some Dir_ops \<Longrightarrow> \<exists>k'. ece391_write (kernel_calls P) fd buf 31 k = Some (-1, k') \<and> kernel_emits (at P) s0 {} [] k k'"
    "fops (fd_of (fst k) fd) = None \<Longrightarrow> ece391_write (kernel_calls P) fd buf 31 k = None"
proof -
  have u: "in_user (at P) s0 (fst k)" using k by (simp add: kernel_ok_def)
  from put_bytes_user [OF u l, of "{}" "snd k" "snd k"] obtain s1 where
    s1: "put_bytes (at P) buf (fst k) = Some s1" "in_user (at P) s0 s1" "kernel_emits (at P) s0 {} [] k (s1, snd k)" by auto
  have f: "fd_of s1 fd = fd_of (fst k) fd" using put_bytes_fds [OF s1(1)] by simp
  have c: "DO_CALL P [] 4 (word_of_int fd) (at P) (word_of_int 31) s1 = sys_write (cmos P) fd (at P) 31 s1"
    using fd by (intro do_calls(2) [OF s1(2)]) auto
  have w: "sys_write (cmos P) fd (at P) 31 s1 = do { f \<leftarrow> fops (fd_of (fst k) fd); fops_write f (cmos P) fd (at P) 31 s1 }"
    using fd f get_fd_in [OF in_userD(3) [OF s1(2)]] in_userD(1) [OF s1(2)] by (simp add: sys_write_def)
  show "\<exists>k'. ece391_write (kernel_calls P) fd buf 31 k = Some (-1, k') \<and> kernel_emits (at P) s0 {} [] k k'" if "fops (fd_of (fst k) fd) = Some Dir_ops"
    using that s1(1,3) c w by (simp add: kernel_write_def fops_write_def dir_write_def)
  show "ece391_write (kernel_calls P) fd buf 31 k = None" if "fops (fd_of (fst k) fd) = None" using that s1(1) c w by (simp add: kernel_write_def)
qed

text \<open>The first two loops of the test: only flags matter.\<close>

lemma unopened_loops:
  assumes k: "kernel_ok (at P) s0 k" and f: "\<forall>j. 2 \<le> j \<and> j < 8 \<longrightarrow> flags (fd_of (fst k) j) = 0" and l: "length buf \<le> ROOM"
  shows "\<exists>k'. for_range 0 8 (\<lambda>i (fail, k). do { (r, k) \<leftarrow> ece391_close (kernel_calls P) (int i) k; expect (kernel_calls P) ''close unopened or invalid fd fail'' fail r k }) (0 :: int, k)
      = Some (0, k') \<and> kernel_emits (at P) s0 {} [] k k'"
    "\<exists>k'. for_range 2 8 (\<lambda>i (buf, fail, k). do { (r, buf, k) \<leftarrow> ece391_read (kernel_calls P) (int i) buf 31 k;
        (fail, k) \<leftarrow> expect (kernel_calls P) ''read from unopened fd fail'' fail r k; Some (buf, fail, k) }) (buf, 0 :: int, k)
      = Some (buf, 0, k') \<and> kernel_emits (at P) s0 {} [] k k'"
proof -
  let ?E = "kernel_emits (at P) s0 {} []"
  have kept: "flags (fd_of (fst k') j) = 0" if "?E k k'" "2 \<le> j" "j < 8" for k' j using that f by (auto simp: kernel_emits_def)
  have trans: "?E k k''" if "?E k k'" "?E k' k''" for k' k'' using emits_trans' [OF that] by simp
  let ?f = "\<lambda>i (fail, k). do { (r, k) \<leftarrow> ece391_close (kernel_calls P) (int i) k; expect (kernel_calls P) ''close unopened or invalid fd fail'' fail r k }"
  let ?I = "\<lambda>n (fail :: int, k'). fail = 0 \<and> ?E k k'"
  have "\<exists>r. for_range 0 8 ?f (0 :: int, k) = Some r \<and> ?I 8 r"
  proof (rule for_range_total [where I = ?I])
    show "?I 0 (0, k)" using kuser.emits_refl [OF k] by simp
    fix n :: nat and t assume n: "n < 8" and t: "?I n t"
    obtain k1 where t': "t = (0, k1)" "?E k k1" using t by (cases t) auto
    from closed_close [OF kuser.emits_ok [OF t'(2)], of "int n"] n kept [OF t'(2)] obtain k2 where
      k2: "ece391_close (kernel_calls P) (int n) k1 = Some (-1, k2)" "?E k1 k2" by auto
    then show "\<exists>t'. ?f n t = Some t' \<and> ?I (Suc n) t'" using trans [OF t'(2)] by (simp add: t'(1) kuser.expect_refused del: kernel_calls_simps)
  qed simp
  then show "\<exists>k'. for_range 0 8 ?f (0 :: int, k) = Some (0, k') \<and> ?E k k'" by auto
  let ?g = "\<lambda>i (buf, fail, k). do { (r, buf, k) \<leftarrow> ece391_read (kernel_calls P) (int i) buf 31 k;
        (fail, k) \<leftarrow> expect (kernel_calls P) ''read from unopened fd fail'' fail r k; Some (buf, fail, k) }"
  let ?J = "\<lambda>n (buf', fail :: int, k'). buf' = buf \<and> fail = 0 \<and> ?E k k'"
  have "\<exists>r. for_range 2 8 ?g (buf, 0 :: int, k) = Some r \<and> ?J 8 r"
  proof (rule for_range_total [where I = ?J])
    show "?J 2 (buf, 0, k)" using kuser.emits_refl [OF k] by simp
    fix n :: nat and t assume n: "2 \<le> n" "n < 8" and t: "?J n t"
    obtain k1 where t': "t = (buf, 0, k1)" "?E k k1" using t by (cases t) auto
    from closed_read [OF kuser.emits_ok [OF t'(2)], of "int n" buf] n kept [OF t'(2)] l obtain k2 where
      k2: "ece391_read (kernel_calls P) (int n) buf 31 k1 = Some (-1, buf, k2)" "?E k1 k2" by auto
    then show "\<exists>t'. ?g n t = Some t' \<and> ?J (Suc n) t'" using trans [OF t'(2)] by (simp add: t'(1) kuser.expect_refused del: kernel_calls_simps)
  qed simp
  then show "\<exists>k'. for_range 2 8 ?g (buf, 0 :: int, k) = Some (buf, 0, k') \<and> ?E k k'" by auto
qed

lemma unopened_writes:
  assumes k: "kernel_ok (at P) s0 k" and f: "closed_dirs (fst k)" and l: "length buf \<le> ROOM"
  shows "\<exists>k'. for_range 2 8 (\<lambda>i (fail, k). do { (r, k) \<leftarrow> ece391_write (kernel_calls P) (int i) buf 31 k; expect (kernel_calls P) ''write to unopened fd fail'' fail r k }) (0 :: int, k)
      = Some (0, k') \<and> kernel_emits (at P) s0 {} [] k k'"
proof -
  let ?E = "kernel_emits (at P) s0 {} []"
  let ?f = "\<lambda>i (fail, k). do { (r, k) \<leftarrow> ece391_write (kernel_calls P) (int i) buf 31 k; expect (kernel_calls P) ''write to unopened fd fail'' fail r k }"
  let ?I = "\<lambda>n (fail :: int, k'). fail = 0 \<and> ?E k k'"
  have "\<exists>r. for_range 2 8 ?f (0 :: int, k) = Some r \<and> ?I 8 r"
  proof (rule for_range_total [where I = ?I])
    show "?I 2 (0, k)" using kuser.emits_refl [OF k] by simp
    fix n :: nat and t assume n: "2 \<le> n" "n < 8" and t: "?I n t"
    obtain k1 where t': "t = (0, k1)" "?E k k1" using t by (cases t) auto
    have "fops (fd_of (fst k1) (int n)) = Some Dir_ops" using closed_dirs_kept [OF t'(2) f] n by (simp add: closed_dirs_def)
    from closed_write(1) [OF kuser.emits_ok [OF t'(2)] _ _ l this] n obtain k2 where
      k2: "ece391_write (kernel_calls P) (int n) buf 31 k1 = Some (-1, k2)" "?E k1 k2" by auto
    then show "\<exists>t'. ?f n t = Some t' \<and> ?I (Suc n) t'" using emits_trans' [OF t'(2) k2(2)] by (simp add: t'(1) kuser.expect_refused del: kernel_calls_simps)
  qed simp
  then show ?thesis by auto
qed

lemma err_unopened_passes:
  assumes k: "kernel_ok (at P) s0 k" and f: "closed_dirs (fst k)" and l: "length buf = 32"
  shows "\<exists>k'. err_unopened (kernel_calls P) buf k = Some (0, k') \<and> kernel_emits (at P) s0 {} (lit ''err_unopened: PASS'' @ [10]) k k'"
proof -
  have p: "plain ''err_unopened''" by (simp add: plain_def byte_of_def)
  have b: "length buf \<le> ROOM" using l by simp
  have fl: "\<forall>j. 2 \<le> j \<and> j < 8 \<longrightarrow> flags (fd_of (fst k') j) = 0" if "closed_dirs (fst k')" for k' :: "'a user" using that by (simp add: closed_dirs_def)
  from unopened_loops(1) [OF k fl [OF f] b] obtain k1 where
    k1: "for_range 0 8 (\<lambda>i (fail, k). do { (r, k) \<leftarrow> ece391_close (kernel_calls P) (int i) k; expect (kernel_calls P) ''close unopened or invalid fd fail'' fail r k }) (0 :: int, k)
      = Some (0, k1)" "kernel_emits (at P) s0 {} [] k k1" by blast
  note f1 = closed_dirs_kept [OF k1(2) f]
  from unopened_loops(2) [OF kuser.emits_ok [OF k1(2)] fl [OF f1] b] obtain k2 where
    k2: "for_range 2 8 (\<lambda>i (buf, fail, k). do { (r, buf, k) \<leftarrow> ece391_read (kernel_calls P) (int i) buf 31 k;
        (fail, k) \<leftarrow> expect (kernel_calls P) ''read from unopened fd fail'' fail r k; Some (buf, fail, k) }) (buf, 0 :: int, k1)
      = Some (buf, 0, k2)" "kernel_emits (at P) s0 {} [] k1 k2" by blast
  from unopened_writes [OF kuser.emits_ok [OF k2(2)] closed_dirs_kept [OF k2(2) f1] b] obtain k3 where
    k3: "for_range 2 8 (\<lambda>i (fail, k). do { (r, k) \<leftarrow> ece391_write (kernel_calls P) (int i) buf 31 k; expect (kernel_calls P) ''write to unopened fd fail'' fail r k }) (0 :: int, k2)
      = Some (0, k3)" "kernel_emits (at P) s0 {} [] k2 k3" by blast
  from kuser.verdict_pass [OF kuser.emits_ok [OF k3(2)] p] obtain k' where
    k': "verdict (kernel_calls P) ''err_unopened'' 0 k3 = Some (0, k')" "kernel_emits (at P) s0 {} (lit ''err_unopened: PASS'' @ [10]) k3 k'" by auto
  have "err_unopened (kernel_calls P) buf k = Some (0, k')" unfolding err_unopened_def k1(1) using k2(1) k3(1) k'(1) by (simp del: kernel_calls_simps)
  then show ?thesis using kuser.emits_empty [OF kuser.emits_empty [OF kuser.emits_empty [OF k1(2) k2(2)] k3(2)] k'(2)] by blast
qed

section \<open>The whole test program\<close>

definition passed :: "string \<Rightarrow> u8 list" where
  "passed name = lit (name @ '': PASS'') @ [10]"

definition all_passed :: "u8 list" where
  "all_passed = passed ''err_neg_fd'' @ passed ''err_big_fd'' @ passed ''err_open_lots'' @ passed ''err_open'' @ passed ''err_unopened''
     @ passed ''err_vidmap'' @ passed ''err_stdin_out'' @ passed ''err_syscall_num'' @ [10] @ lit ''Overall Tests: PASS'' @ [10]"

text \<open>The two descriptors out of range.\<close>

lemma err_fd_kernel:
  assumes "kernel_ok (at P) s0 k" and "length buf = 32"
  shows "\<exists>k'. err_neg_fd (kernel_calls P) buf k = Some (0, k') \<and> kernel_emits (at P) s0 all_fds (passed ''err_neg_fd'') k k' \<and> kernel_emits (at P) s0 {} (passed ''err_neg_fd'') k k'"
    "\<exists>k'. err_big_fd (kernel_calls P) buf k = Some (0, k') \<and> kernel_emits (at P) s0 all_fds (passed ''err_big_fd'') k k' \<and> kernel_emits (at P) s0 {} (passed ''err_big_fd'') k k'"
proof -
  have p: "plain ''err_neg_fd''" "plain ''err_big_fd''" by (simp_all add: plain_def byte_of_def)
  show "\<exists>k'. err_neg_fd (kernel_calls P) buf k = Some (0, k') \<and> kernel_emits (at P) s0 all_fds (passed ''err_neg_fd'') k k' \<and> kernel_emits (at P) s0 {} (passed ''err_neg_fd'') k k'"
    unfolding err_neg_fd_def passed_def using kguard.err_fd_passes [OF assms(1) _ _ _ assms(2) p(1), of "-1073741823"] emits_all by fastforce
  show "\<exists>k'. err_big_fd (kernel_calls P) buf k = Some (0, k') \<and> kernel_emits (at P) s0 all_fds (passed ''err_big_fd'') k k' \<and> kernel_emits (at P) s0 {} (passed ''err_big_fd'') k k'"
    unfolding err_big_fd_def passed_def using kguard.err_fd_passes [OF assms(1) _ _ _ assms(2) p(2), of 1073741823] emits_all by fastforce
qed

lemma opened_to_kept: "kernel_emits a s0 {} xs k k' \<Longrightarrow> opened_to 2 e (fst k) \<Longrightarrow> opened_to 2 e (fst k')"
  by (simp add: opened_to_def kernel_emits_def)

text \<open>
  Claim C8. The kernel passes the repository's own test of its system calls: on an image with an entry \<open>.\<close> of the type directory and
  without files \<open>helloo\<close> and \<open>shel\<close>, a program whose descriptors from 2 on are free runs all eight tests of \<open>syserr\<close> to the end. Each
  test reports success, the sum of the failures is 0, and the terminal shows exactly the nine lines of a full success and an empty one.
\<close>

theorem syserr_all_passes:
  assumes "runs_user (at P) s" and "has_entry (at P) s (lit ''.'') e ds" and "file_type e = FILE_TYPE_DIR" and "\<forall>j. 2 \<le> j \<and> j < 8 \<longrightarrow> flags (fd_of s j) = 0"
    and "lit ''helloo'' \<notin> dentry_name ` set ds" and "lit ''shel'' \<notin> dentry_name ` set ds" and "\<forall>n. length (bufs n) = 32"
  shows "\<exists>s' sc'. syserr_all (kernel_calls P) bufs (s, sc) = Some (0, (s', sc')) \<and> shown s' (terminal_num s) = spec_text all_passed (shown s (terminal_num s))
    \<and> (\<forall>j. 0 \<le> j \<and> j < 3 \<and> j \<noteq> terminal_num s \<longrightarrow> shown s' j = shown s j)"
proof -
  let ?E = "kernel_emits (at P) s all_fds" and ?C = "kernel_calls P"
  note ok = runs_user_ok [OF assms(1), of sc]
  have b: "length (bufs n) = 32" for n using assms(7) by simp
  from err_fd_kernel(1) [OF ok b [of 1]] obtain k1 where
    k1: "err_neg_fd ?C (bufs 1) (s, sc) = Some (0, k1)" "?E (passed ''err_neg_fd'') (s, sc) k1" "kernel_emits (at P) s {} (passed ''err_neg_fd'') (s, sc) k1" by blast
  from err_fd_kernel(2) [OF kuser.emits_ok [OF k1(2)] b [of 2]] obtain k2 where
    k2: "err_big_fd ?C (bufs 2) k1 = Some (0, k2)" "?E (passed ''err_big_fd'') k1 k2" "kernel_emits (at P) s {} (passed ''err_big_fd'') k1 k2" by blast
  have "opened_to 2 e (fst (s, sc))" using assms(4) by (auto simp: opened_to_def)
  then have "opened_to 2 e (fst k2)" by (rule opened_to_kept [OF k2(3) opened_to_kept [OF k1(3)]])
  from err_open_lots_passes [OF kuser.emits_ok [OF k2(2)] assms(2,3) this] obtain k3 where
    k3: "err_open_lots ?C k2 = Some (0, k3)" "?E (passed ''err_open_lots'') k2 k3" "closed_dirs (fst k3)" by (auto simp: passed_def)
  have "kernel_absent (at P) s k3 xs" if "xs = [] \<or> xs \<notin> dentry_name ` set ds" for xs using assms(2) that by (auto simp: kernel_absent_def has_entry_def)
  from kuser.err_open_passes [OF kuser.emits_ok [OF k3(2)] this this this] assms(5,6) obtain k4 where
    k4: "err_open ?C k3 = Some (0, k4)" "kernel_emits (at P) s {} (passed ''err_open'') k3 k4" by (auto simp: passed_def)
  from err_unopened_passes [OF kuser.emits_ok [OF k4(2)] closed_dirs_kept [OF k4(2) k3(3)] b [of 5]] obtain k5 where
    k5: "err_unopened ?C (bufs 5) k4 = Some (0, k5)" "kernel_emits (at P) s {} (passed ''err_unopened'') k4 k5" by (auto simp: passed_def)
  from kguard.err_vidmap_passes [OF kuser.emits_ok [OF k5(2)]] obtain k6 where
    k6: "err_vidmap ?C k5 = Some (0, k6)" "kernel_emits (at P) s {} (passed ''err_vidmap'') k5 k6" by (auto simp: passed_def)
  from kguard.err_stdin_out_passes [OF kuser.emits_ok [OF k6(2)] b [of 7]] obtain k7 where
    k7: "err_stdin_out ?C (bufs 7) k6 = Some (0, k7)" "kernel_emits (at P) s {} (passed ''err_stdin_out'') k6 k7" by (auto simp: passed_def)
  from kguard.err_syscall_num_passes [OF kuser.emits_ok [OF k7(2)]] obtain k8 where
    k8: "err_syscall_num ?C k7 = Some (0, k8)" "kernel_emits (at P) s {} (passed ''err_syscall_num'') k7 k8" by (auto simp: passed_def)
  have "plain (CHR 10 # ''Overall Tests: PASS'')" by (simp add: plain_def byte_of_def)
  from kuser.line_emits [OF kuser.emits_ok [OF k8(2)] this] obtain k9 where
    k9: "ece391_fdputs ?C 1 (10 # line ''Overall Tests: PASS'') k8 = Some k9" "kernel_emits (at P) s {} ([10] @ lit ''Overall Tests: PASS'' @ [10]) k8 k9"
    by (auto simp: line_def lit_def byte_of_def)
  have "syserr_all ?C bufs (s, sc) = Some (0, k9)" using k1(1) k2(1) k3(1) k4(1) k5(1) k6(1) k7(1) k8(1) k9(1) by (simp add: syserr_all_def)
  moreover note any = emits_all [OF _ empty_subsetI]
  have "?E all_passed (s, sc) k9" unfolding all_passed_def
    by (rule emits_trans' [OF k1(2) emits_trans' [OF k2(2) emits_trans' [OF k3(2) emits_trans' [OF any [OF k4(2)] emits_trans' [OF any [OF k5(2)]
      emits_trans' [OF any [OF k6(2)] emits_trans' [OF any [OF k7(2)] emits_trans' [OF any [OF k8(2)] any [OF k9(2)]]]]]]]]])
  ultimately show ?thesis by (cases k9) (auto simp: kernel_emits_def)
qed

theorem syserr_all_passes_witness:
  "\<exists>s' sc'. syserr_all (kernel_calls sample_platform) (\<lambda>_. replicate 32 0) (sample_process, []) = Some (0, (s', sc'))
    \<and> shown s' 0 = spec_text all_passed (shown sample_process 0)"
proof -
  from sample_dot obtain e where e: "has_entry (at sample_platform) sample_process (lit ''.'') e sample_dir" "file_type e = FILE_TYPE_DIR" by auto
  have f: "\<forall>j. 2 \<le> j \<and> j < 8 \<longrightarrow> flags (fd_of sample_process j) = 0" using sample_free by blast
  have n: "lit ''helloo'' \<notin> dentry_name ` set sample_dir" "lit ''shel'' \<notin> dentry_name ` set sample_dir"
    using sample_names by (auto simp: sample_dir_def lit_def byte_of_def)
  have r: "runs_user (at sample_platform) sample_process" using sample_runs by simp
  from syserr_all_passes [OF r e f n, of "\<lambda>_. replicate 32 0" "[]"] sample_process_same(6) show ?thesis by auto
qed

text \<open>
  Claim C32. Run on its own, test 5 ends in a fault: when descriptor 2 was never opened since its process control block was cleared, it has no
  operations, and \<open>write\<close>, which unlike \<open>read\<close> and \<open>close\<close> does not look at the flags of the descriptor, calls through the null pointer.
\<close>

theorem unopened_write_faults:
  assumes "runs_user (at P) s" and "\<forall>j. 2 \<le> j \<and> j < 8 \<longrightarrow> flags (fd_of s j) = 0" and "fops (fd_of s 2) = None" and "length buf = 32"
  shows "err_unopened (kernel_calls P) buf (s, sc) = None"
proof -
  note ok = runs_user_ok [OF assms(1), of sc]
  have b: "length buf \<le> ROOM" using assms(4) by simp
  from unopened_loops(1) [OF ok _ b] assms(2) obtain k1 where
    k1: "for_range 0 8 (\<lambda>i (fail, k). do { (r, k) \<leftarrow> ece391_close (kernel_calls P) (int i) k; expect (kernel_calls P) ''close unopened or invalid fd fail'' fail r k }) (0 :: int, (s, sc))
      = Some (0, k1)" "kernel_emits (at P) s {} [] (s, sc) k1" by auto
  have f1: "\<forall>j. 2 \<le> j \<and> j < 8 \<longrightarrow> flags (fd_of (fst k1) j) = 0" using k1(2) assms(2) by (simp add: kernel_emits_def)
  from unopened_loops(2) [OF kuser.emits_ok [OF k1(2)] f1 b] obtain k2 where
    k2: "for_range 2 8 (\<lambda>i (buf, fail, k). do { (r, buf, k) \<leftarrow> ece391_read (kernel_calls P) (int i) buf 31 k;
        (fail, k) \<leftarrow> expect (kernel_calls P) ''read from unopened fd fail'' fail r k; Some (buf, fail, k) }) (buf, 0 :: int, k1)
      = Some (buf, 0, k2)" "kernel_emits (at P) s {} [] k1 k2" by blast
  have "fops (fd_of (fst k2) 2) = None" using k1(2) k2(2) assms(3) by (simp add: kernel_emits_def)
  from closed_write(2) [OF kuser.emits_ok [OF k2(2)] _ _ b this] have w: "ece391_write (kernel_calls P) 2 buf 31 k2 = None" by simp
  have "for_range 2 8 (\<lambda>i (fail, k). do { (r, k) \<leftarrow> ece391_write (kernel_calls P) (int i) buf 31 k; expect (kernel_calls P) ''write to unopened fd fail'' fail r k }) (0 :: int, k2) = None"
    using w by (simp add: for_range_def numeral_eq_Suc del: kernel_calls_simps)
  then show ?thesis unfolding err_unopened_def k1(1) using k2(1) by (simp del: kernel_calls_simps)
qed

theorem unopened_write_faults_witness: "err_unopened (kernel_calls sample_platform) (replicate 32 0) (sample_process, []) = None"
proof -
  have f: "\<forall>j. 2 \<le> j \<and> j < 8 \<longrightarrow> flags (fd_of sample_process j) = 0" "fops (fd_of sample_process 2) = None" using sample_free by auto
  have r: "runs_user (at sample_platform) sample_process" using sample_runs by simp
  from unopened_write_faults [OF r f, of "replicate 32 0"] show ?thesis by simp
qed

end
