(* ===== verification/Sessions.thy ===== *)
theory Sessions
  imports User_Kernel
begin

text \<open>
  Programs that have several files open: the laws of \<open>open\<close> and \<open>close\<close> that count the free descriptors, on top of the laws of
  \<open>file_calls\<close>, and their proof for this kernel.

  \<open>stored k xs bs\<close>: the image has a file \<open>xs\<close> with contents \<open>bs\<close>; \<open>spare k n\<close>: at least \<open>n\<close> descriptors are free; \<open>shut k fd\<close>: \<open>fd\<close> is not open.
\<close>

locale session_calls = file_calls C ok emits room at_file at_dir named listed absent argument
  for C :: "'k calls" and ok :: "'k \<Rightarrow> bool" and emits :: "int set \<Rightarrow> u8 list \<Rightarrow> 'k \<Rightarrow> 'k \<Rightarrow> bool" and room :: nat
    and at_file :: "'k \<Rightarrow> int \<Rightarrow> u8 list \<Rightarrow> bool" and at_dir :: "'k \<Rightarrow> int \<Rightarrow> u8 list list \<Rightarrow> bool" and named :: "'k \<Rightarrow> u8 list \<Rightarrow> u8 list \<Rightarrow> bool"
    and listed :: "'k \<Rightarrow> u8 list list \<Rightarrow> bool" and absent :: "'k \<Rightarrow> u8 list \<Rightarrow> bool" and argument :: "'k \<Rightarrow> u8 list \<Rightarrow> bool" +
  fixes stored :: "'k \<Rightarrow> u8 list \<Rightarrow> u8 list \<Rightarrow> bool"
    and spare :: "'k \<Rightarrow> nat \<Rightarrow> bool"
    and shut :: "'k \<Rightarrow> int \<Rightarrow> bool"
  assumes stored_kept: "emits F xs k k' \<Longrightarrow> stored k ys bs \<Longrightarrow> stored k' ys bs"
    and spare_kept: "emits {} xs k k' \<Longrightarrow> spare k n \<Longrightarrow> spare k' n"
    and spare_file: "emits {fd} xs k k' \<Longrightarrow> at_file k fd bs \<Longrightarrow> at_file k' fd bs' \<Longrightarrow> spare k n \<Longrightarrow> spare k' n"
    and spare_dir: "emits {fd, -1} xs k k' \<Longrightarrow> at_dir k fd ns \<Longrightarrow> at_dir k' fd ns' \<Longrightarrow> spare k n \<Longrightarrow> spare k' n"
    and spare_listed: "listed k ns \<Longrightarrow> spare k (Suc n) \<Longrightarrow> ok k \<Longrightarrow> 1 < room \<Longrightarrow>
      \<exists>fd k'. ece391_open C (literal ''.'') k = Some (fd, k') \<and> 2 \<le> fd \<and> emits {fd, -1} [] k k' \<and> at_dir k' fd ns \<and> spare k' n"
    and open_stored: "ok k \<Longrightarrow> stored k xs bs \<Longrightarrow> spare k (Suc n) \<Longrightarrow> length xs + length ys < room \<Longrightarrow>
      \<exists>fd k'. ece391_open C (xs @ 0 # ys) k = Some (fd, k') \<and> 2 \<le> fd \<and> emits {fd} [] k k' \<and> at_file k' fd bs \<and> spare k' n
        \<and> (\<forall>fd' bs'. at_file k fd' bs' \<longrightarrow> fd' \<noteq> fd) \<and> (\<forall>fd' ns. at_dir k fd' ns \<longrightarrow> fd' \<noteq> fd)"
    and close_file: "ok k \<Longrightarrow> at_file k fd bs \<Longrightarrow> spare k n \<Longrightarrow>
      \<exists>k'. ece391_close C fd k = Some (0, k') \<and> emits {fd} [] k k' \<and> shut k' fd \<and> spare k' (Suc n)"
    and close_shut: "ok k \<Longrightarrow> shut k fd \<Longrightarrow> \<exists>k'. ece391_close C fd k = Some (-1, k') \<and> emits {} [] k k'"
    and spare_zero: "ok k \<Longrightarrow> spare k 0"
    and shut_kept: "emits F xs k k' \<Longrightarrow> fd \<notin> F \<Longrightarrow> shut k fd \<Longrightarrow> shut k' fd"

section \<open>Lines\<close>

text \<open>The lines of a text; a text that ends in a new line has an empty last one.\<close>

function lines :: "u8 list \<Rightarrow> u8 list list" where
  "lines bs = takeWhile (\<lambda>c. c \<noteq> 10) bs # (if 10 \<in> set bs then lines (tl (dropWhile (\<lambda>c. c \<noteq> 10) bs)) else [])"
  by pat_completeness auto
termination
proof (relation "measure length")
  fix bs :: "u8 list" assume "10 \<in> set bs"
  then have "dropWhile (\<lambda>c. c \<noteq> 10) bs \<noteq> []" by auto
  then have "length (tl (dropWhile (\<lambda>c. c \<noteq> 10) bs)) < length (dropWhile (\<lambda>c. c \<noteq> 10) bs)" by simp
  then show "(tl (dropWhile (\<lambda>c. c \<noteq> 10) bs), bs) \<in> measure length" using length_dropWhile_le [of "\<lambda>c. c \<noteq> 10" bs] by simp
qed simp

declare lines.simps [simp del]

lemma lines_newline: "10 \<notin> set l \<Longrightarrow> lines (l @ 10 # r) = l # lines r"
  by (subst lines.simps) (simp add: takeWhile_tail dropWhile_append)

lemma lines_last: "10 \<notin> set l \<Longrightarrow> lines l = [l]"
  by (subst lines.simps) (auto simp: takeWhile_eq_all_conv)

lemma split_newline: "10 \<in> set xs \<Longrightarrow> \<exists>l r. xs = l @ (10 :: u8) # r \<and> 10 \<notin> set l"
  by (rule split_list_first)

section \<open>The laws on this kernel\<close>

definition free_fds :: "'a kernel_scheme \<Rightarrow> int set" where
  "free_fds s = {j. 2 \<le> j \<and> j < 8 \<and> flags (fd_of s j) = 0}"

definition kernel_stored :: "u32 \<Rightarrow> 'a kernel_scheme \<Rightarrow> 'a user \<Rightarrow> u8 list \<Rightarrow> u8 list \<Rightarrow> bool" where
  "kernel_stored a s0 k xs bs \<longleftrightarrow> (\<exists>ds e. has_entry a s0 xs e ds \<and> file_type e = FILE_TYPE_FILE \<and> image_file a s0 (inode_num e) bs)"

definition kernel_spare :: "'a user \<Rightarrow> nat \<Rightarrow> bool" where
  "kernel_spare k n \<longleftrightarrow> n \<le> card (free_fds (fst k))"

definition kernel_shut :: "'a user \<Rightarrow> int \<Rightarrow> bool" where
  "kernel_shut k fd \<longleftrightarrow> 2 \<le> fd \<and> fd < 8 \<and> flags (fd_of (fst k) fd) = 0"

lemma finite_free_fds [simp]: "finite (free_fds s)"
  by (rule finite_subset [of _ "{2..<8}"]) (auto simp: free_fds_def)

lemma free_fds_lowest: "free_fds s \<noteq> {} \<longleftrightarrow> lowest_free s \<noteq> None"
proof -
  have "j \<in> free_fds s \<longleftrightarrow> (\<exists>i \<in> {2..<8}. j = int i \<and> flags (fd_of s (int i)) = 0)" for j
    by (auto simp: free_fds_def intro!: bexI [of _ "nat j"])
  then show ?thesis by (simp only: lowest_free_def find_None_iff set_upt) blast
qed

lemma free_fds_insert:
  assumes "\<And>j. 2 \<le> j \<Longrightarrow> j < 8 \<Longrightarrow> j \<noteq> fd \<Longrightarrow> fd_of s' j = fd_of s j" and "2 \<le> fd" "fd < 8" and "flags (fd_of s fd) = 0" and "flags (fd_of s' fd) \<noteq> 0"
  shows "card (free_fds s) = Suc (card (free_fds s'))"
proof -
  have "x \<in> free_fds s \<longleftrightarrow> x = fd \<or> x \<in> free_fds s'" for x using assms by (cases "x = fd") (auto simp: free_fds_def)
  then have "free_fds s = insert fd (free_fds s')" by blast
  moreover have "fd \<notin> free_fds s'" using assms(5) by (simp add: free_fds_def)
  ultimately show ?thesis by simp
qed

lemma free_fds_cong: "(\<And>j. 2 \<le> j \<Longrightarrow> j < 8 \<Longrightarrow> (flags (fd_of s j) = 0) = (flags (fd_of s' j) = 0)) \<Longrightarrow> free_fds s = free_fds s'"
  by (auto simp: free_fds_def)

lemma free_fds_used:
  assumes "kernel_emits a s0 F xs k k'" and "F \<subseteq> {fd, -1}" and "2 \<le> fd" and "flags (fd_of (fst k) fd) \<noteq> 0" and "flags (fd_of (fst k') fd) \<noteq> 0"
  shows "free_fds (fst k') = free_fds (fst k)"
proof (rule free_fds_cong)
  fix j :: int assume j: "2 \<le> j" "j < 8"
  show "(flags (fd_of (fst k') j) = 0) = (flags (fd_of (fst k) j) = 0)"
  proof (cases "j = fd")
    case False
    then have "j \<notin> F" using assms(2) j by auto
    then show ?thesis using assms(1) j by (simp add: kernel_emits_def)
  qed (use assms(4,5) in simp)
qed

lemma free_fds_open:
  assumes "kernel_emits a s0 F xs k k'" and "F \<subseteq> {fd, -1}" and "2 \<le> fd" and "fd < 8" and "flags (fd_of (fst k) fd) = 0" and "flags (fd_of (fst k') fd) \<noteq> 0"
  shows "card (free_fds (fst k)) = Suc (card (free_fds (fst k')))"
proof -
  have "j \<notin> F" if "j \<noteq> fd" "0 \<le> j" for j :: int using assms(2) that by auto
  then have "fd_of (fst k') j = fd_of (fst k) j" if "2 \<le> j" "j < 8" "j \<noteq> fd" for j using assms(1) that by (simp add: kernel_emits_def)
  then show ?thesis by (rule free_fds_insert [OF _ assms(3-6)])
qed

lemma open_stored_user:
  assumes k: "kernel_ok (at P) s0 k" and f: "kernel_stored (at P) s0 k xs bs" and n: "length xs + length ys < ROOM" and sp: "kernel_spare k (Suc n)"
  shows "\<exists>fd k'. kernel_open P (xs @ 0 # ys) k = Some (fd, k') \<and> 2 \<le> fd \<and> kernel_emits (at P) s0 {fd} [] k k' \<and> kernel_file_at (at P) s0 k' fd bs
    \<and> kernel_spare k' n \<and> (\<forall>fd' bs'. kernel_file_at (at P) s0 k fd' bs' \<longrightarrow> fd' \<noteq> fd) \<and> (\<forall>fd' ns. kernel_dir_at (at P) s0 k fd' ns \<longrightarrow> fd' \<noteq> fd)"
proof -
  from f obtain ds e where e: "has_entry (at P) s0 xs e ds" "file_type e = FILE_TYPE_FILE" "image_file (at P) s0 (inode_num e) bs" by (auto simp: kernel_stored_def)
  have "free_fds (fst k) \<noteq> {}" using sp by (auto simp: kernel_spare_def)
  then obtain i where i: "lowest_free (fst k) = Some i" using free_fds_lowest by blast
  have nm: "kernel_named (at P) s0 k xs bs" using e i by (auto simp: kernel_named_def)
  from put_name [OF k _ n] e(1) obtain s1 where s1: "put_bytes (at P) (xs @ 0 # ys) (fst k) = Some s1" "cstr_at (ptr s1 (at P)) xs" "in_user (at P) s0 s1"
    "\<And>F. kernel_emits (at P) s0 F [] k (s1, snd k)" "lowest_free s1 = lowest_free (fst k)" unfolding has_entry_def by metis
  let ?s = "put_fd (int i) (opened_fd e) s1"
  have l: "2 \<le> int i" "int i < 8" "flags (fd_of (fst k) (int i)) = 0" using lowest_free_least [OF i] by auto
  have "sys_open (cmos P) (at P) s1 = Some (int i, ?s)" using open_entry(1) [OF s1(3) e(1) s1(2)] s1(5) e(2) i by simp
  then have o: "kernel_open P (xs @ 0 # ys) k = Some (int i, (?s, snd k))" using s1(1) by (simp add: kernel_open_def do_calls(3) [OF s1(3)])
  from open_file_user [OF k refl nm n] o have fa: "kernel_emits (at P) s0 {int i} [] k (?s, snd k)" "kernel_file_at (at P) s0 (?s, snd k) (int i) bs" by auto
  have "card (free_fds (fst k)) = Suc (card (free_fds ?s))"
    using free_fds_open [OF fa(1) _ l] fa(2) by (simp add: kernel_file_at_def)
  then have "kernel_spare (?s, snd k) n" using sp by (simp add: kernel_spare_def)
  moreover have "(\<forall>fd' bs'. kernel_file_at (at P) s0 k fd' bs' \<longrightarrow> fd' \<noteq> int i) \<and> (\<forall>fd' ns. kernel_dir_at (at P) s0 k fd' ns \<longrightarrow> fd' \<noteq> int i)"
    using l(3) by (auto simp: kernel_file_at_def kernel_dir_at_def)
  ultimately show ?thesis using o fa l(1) by blast
qed

lemma close_file_user:
  assumes k: "kernel_ok (at P) s0 k" and f: "kernel_file_at (at P) s0 k fd bs" and sp: "kernel_spare k n"
  shows "\<exists>k'. kernel_close P fd k = Some (0, k') \<and> kernel_emits (at P) s0 {fd} [] k k' \<and> kernel_shut k' fd \<and> kernel_spare k' (Suc n)"
proof -
  have u: "in_user (at P) s0 (fst k)" using k by (simp add: kernel_ok_def)
  note w = in_userD [OF u]
  have fd: "2 \<le> fd" "fd < 8" "0 \<le> fd" "flags (fd_of (fst k) fd) \<noteq> 0" "fops (fd_of (fst k) fd) = Some File_ops" using f by (auto simp: kernel_file_at_def)
  let ?s = "put_fd fd ((fd_of (fst k) fd)\<lparr>flags := 0\<rparr>) (fst k)"
  have "sys_close fd (fst k) = Some (0, ?s)" using close_open_fd [OF w(3) fd(1,2,4,5)] .
  moreover have "DO_CALL P [] 6 (word_of_int fd) 0 0 (fst k) = sys_close fd (fst k)" using fd by (intro do_calls(4) [OF u]) auto
  ultimately have c: "kernel_close P fd k = Some (0, (?s, snd k))" by (simp add: kernel_close_def)
  have e: "kernel_emits (at P) s0 {fd} [] (fst k, snd k) (?s, snd k)" by (rule emits_put_fd [OF u fd(1,2)]) simp
  have g: "fd_of ?s fd = (fd_of (fst k) fd)\<lparr>flags := 0\<rparr>" "\<And>j. 0 \<le> j \<Longrightarrow> j \<noteq> fd \<Longrightarrow> fd_of ?s j = fd_of (fst k) j" using fd_of_put_fd [OF w(3) fd(3,2)] by auto
  have "card (free_fds ?s) = Suc (card (free_fds (fst k)))" by (rule free_fds_insert [of fd]) (use g fd in auto)
  then have "kernel_spare (?s, snd k) (Suc n)" using sp by (simp add: kernel_spare_def)
  moreover have "kernel_shut (?s, snd k) fd" using g(1) fd by (simp add: kernel_shut_def)
  ultimately show ?thesis using c e by auto
qed

interpretation ksession: session_calls "kernel_calls P" "kernel_ok (at P) s0" "kernel_emits (at P) s0" ROOM "kernel_file_at (at P) s0" "kernel_dir_at (at P) s0"
  "kernel_named (at P) s0" "kernel_listed (at P) s0" "kernel_absent (at P) s0" "kernel_argument (at P) s0" "kernel_stored (at P) s0" kernel_spare kernel_shut for P s0
proof
  fix k k' :: "'a user" and F :: "int set" and xs ys bs bs' :: "u8 list" and fd :: int and n :: nat and ns ns'
  let ?a = "at P"
  show "kernel_emits ?a s0 F xs k k' \<Longrightarrow> kernel_stored ?a s0 k ys bs \<Longrightarrow> kernel_stored ?a s0 k' ys bs" by (simp add: kernel_stored_def)
  show "kernel_spare k' n" if "kernel_emits ?a s0 {} xs k k'" "kernel_spare k n"
    using that free_fds_cong [of "fst k'" "fst k"] by (simp add: kernel_spare_def kernel_emits_def)
  show "kernel_spare k' n" if "kernel_emits ?a s0 {fd} xs k k'" "kernel_file_at ?a s0 k fd bs" "kernel_file_at ?a s0 k' fd bs'" "kernel_spare k n"
    using that(2-) free_fds_used [OF that(1), of fd] by (auto simp: kernel_spare_def kernel_file_at_def)
  show "kernel_spare k' n" if "kernel_emits ?a s0 {fd, -1} xs k k'" "kernel_dir_at ?a s0 k fd ns" "kernel_dir_at ?a s0 k' fd ns'" "kernel_spare k n"
    using that(2-) free_fds_used [OF that(1), of fd] by (auto simp: kernel_spare_def kernel_dir_at_def)
  show "\<exists>fd k'. ece391_open (kernel_calls P) (literal ''.'') k = Some (fd, k') \<and> 2 \<le> fd \<and> kernel_emits ?a s0 {fd, -1} [] k k' \<and> kernel_dir_at ?a s0 k' fd ns \<and> kernel_spare k' n"
    if l: "kernel_listed ?a s0 k ns" and sp: "kernel_spare k (Suc n)" and k: "kernel_ok ?a s0 k"
  proof -
    from l obtain ds e i where e: "has_entry ?a s0 (lit ''.'') e ds" "file_type e = FILE_TYPE_DIR" "ns = map dentry_name ds" "lowest_free (fst k) = Some i"
      by (auto simp: kernel_listed_def)
    from open_dot_user [OF k refl e(1,2,4)] obtain k' where
      k': "kernel_open P (literal ''.'') k = Some (int i, k')" "kernel_emits ?a s0 {int i, -1} [] k k'" "fd_of (fst k') (int i) = opened_fd e" "dir_index (fst k') = 0" by blast
    have i: "2 \<le> int i" "int i < 8" "flags (fd_of (fst k) (int i)) = 0" using lowest_free_least [OF e(4)] by auto
    have "kernel_dir_at ?a s0 k' (int i) ns"
      using e k'(3,4) i by (auto simp: kernel_dir_at_def has_entry_def opened_fd_def ops_of_type_def intro!: exI [of _ ds])
    moreover have "kernel_spare k' n" using sp free_fds_open [OF k'(2) _ i] k'(3) by (simp add: kernel_spare_def opened_fd_def)
    ultimately show ?thesis using k'(1,2) i(1) by auto
  qed
  show "\<exists>k'. ece391_close (kernel_calls P) fd k = Some (-1, k') \<and> kernel_emits ?a s0 {} [] k k'" if k: "kernel_ok ?a s0 k" and fd: "kernel_shut k fd"
  proof -
    have u: "in_user ?a s0 (fst k)" using k by (simp add: kernel_ok_def)
    have "sys_close fd (fst k) = Some (-1, fst k)" using fd get_fd_in [OF in_userD(3) [OF u]] by (auto simp: sys_close_def kernel_shut_def)
    moreover have "DO_CALL P [] 6 (word_of_int fd) 0 0 (fst k) = sys_close fd (fst k)" using fd by (intro do_calls(4) [OF u]) (auto simp: kernel_shut_def)
    ultimately show ?thesis using kuser.emits_refl [OF k, of "{}"] by (simp add: kernel_close_def)
  qed
  show "kernel_spare k 0" by (simp add: kernel_spare_def)
  show "kernel_emits ?a s0 F xs k k' \<Longrightarrow> fd \<notin> F \<Longrightarrow> kernel_shut k fd \<Longrightarrow> kernel_shut k' fd" by (simp add: kernel_shut_def kernel_emits_def)
qed (simp_all only: kernel_calls_simps open_stored_user close_file_user)

end
