(* ===== verification/Grep.thy ===== *)
theory Grep
  imports Sessions "HOL-Library.Sublist"
begin

text \<open>
  What \<open>grep\<close> of syscalls/ece391grep.c shows: for every file of the directory the lines that contain the text it searches, on every
  system that keeps the laws of \<open>session_calls\<close>, and on this kernel.
\<close>

section \<open>What is to be shown\<close>

definition hit :: "u8 list \<Rightarrow> u8 list \<Rightarrow> u8 list \<Rightarrow> u8 list" where
  "hit name pat l = (if sublist pat l then name @ [byte_of (CHR '':'')] @ l @ [10] else [])"

definition hits :: "u8 list \<Rightarrow> u8 list \<Rightarrow> u8 list \<Rightarrow> u8 list" where
  "hits name pat bs = concat (map (hit name pat) (lines bs))"

text \<open>The buffer of \<open>grep\<close> holds lines of less than 1024 characters.\<close>

definition short :: "u8 list \<Rightarrow> bool" where
  "short bs \<longleftrightarrow> (\<forall>l \<in> set (lines bs). length l < 1024)"

definition is_dot :: "u8 list \<Rightarrow> bool" where
  "is_dot x \<longleftrightarrow> hd x = byte_of (CHR ''.'')"

lemma hits_newline: "10 \<notin> set l \<Longrightarrow> hits name pat (l @ 10 # r) = hit name pat l @ hits name pat r"
  by (simp add: hits_def lines_newline)

lemma hits_last: "10 \<notin> set l \<Longrightarrow> hits name pat l = hit name pat l"
  by (simp add: hits_def lines_last)

lemma hits_nil: "pat \<noteq> [] \<Longrightarrow> hits name pat [] = []"
  by (simp add: hits_last hit_def)

lemma short_newline: "10 \<notin> set l \<Longrightarrow> short (l @ 10 # r) \<longleftrightarrow> length l < 1024 \<and> short r"
  by (simp add: short_def lines_newline)

lemma short_first: "10 \<notin> set l \<Longrightarrow> short (l @ r) \<Longrightarrow> length l < 1024"
proof (cases "10 \<in> set r")
  case True
  assume l: "10 \<notin> set l" "short (l @ r)"
  from split_newline [OF True] obtain r1 r2 where "r = r1 @ 10 # r2" "10 \<notin> set r1" by blast
  then show ?thesis using l short_newline [of "l @ r1" r2] by simp
next
  case False
  assume "10 \<notin> set l" "short (l @ r)"
  then show ?thesis using False by (simp add: short_def lines_last)
qed

lemma sublist_drop: "pat \<noteq> [] \<Longrightarrow> sublist pat l \<longleftrightarrow> (\<exists>j < length l. prefix pat (drop j l))"
proof
  assume "sublist pat l" "pat \<noteq> []"
  then obtain ps ss where "l = ps @ pat @ ss" by (auto simp: sublist_def)
  then have "length ps < length l \<and> prefix pat (drop (length ps) l)" using \<open>pat \<noteq> []\<close> by simp
  then show "\<exists>j < length l. prefix pat (drop j l)" by blast
next
  assume "\<exists>j < length l. prefix pat (drop j l)"
  then obtain j zs where "drop j l = pat @ zs" by (auto simp: prefix_def)
  then have "l = take j l @ pat @ zs" by (metis append_take_drop_id)
  then show "sublist pat l" unfolding sublist_def by blast
qed

section \<open>Moving a text to the front\<close>

lemma strcpy_loop_down:
  assumes d: "drop p data = rem @ 0 # ys" and p: "0 < p" "p \<le> length data" and "0 \<notin> set rem"
  shows "i \<le> length rem \<Longrightarrow> ece391_strcpy_loop (\<lambda>d i. arr d (p + i)) arr_wr i (take i rem @ drop i data) = Some (rem @ 0 # drop (Suc (length rem)) data)"
proof (induction "length rem - i" arbitrary: i)
  case 0
  then have i: "i = length rem" by simp
  have l: "length data = p + Suc (length rem + length ys)" using arg_cong [OF d, of length] p(2) by simp
  have "drop p data ! length rem = 0" using d by simp
  then have n: "data ! (p + length rem) = 0" using p(2) by simp
  have "arr (rem @ drop (length rem) data) (p + length rem) = Some 0" using l p n by (simp add: arr_def nth_append add.commute)
  moreover have "(rem @ drop (length rem) data)[length rem := 0] = rem @ 0 # drop (Suc (length rem)) data"
    using l by (simp add: list_update_append Cons_nth_drop_Suc [symmetric])
  ultimately show ?case unfolding i using l by (subst ece391_strcpy_loop.simps) simp
next
  case (Suc n)
  then have i: "i < length rem" by simp
  have l: "length data = p + Suc (length rem + length ys)" using arg_cong [OF d, of length] p(2) by simp
  have "drop p data ! i = rem ! i" using d i by (simp add: nth_append)
  then have n: "data ! (p + i) = rem ! i" using p(2) by simp
  have a: "arr (take i rem @ drop i data) (p + i) = Some (rem ! i)" using l p i n by (simp add: arr_def nth_append add.commute)
  have z: "rem ! i \<noteq> 0" using assms(4) i by (metis nth_mem)
  have w: "(take i rem @ drop i data)[i := rem ! i] = take (Suc i) rem @ drop (Suc i) data"
    using l i by (simp add: list_update_append Cons_nth_drop_Suc [symmetric] take_Suc_conv_app_nth)
  have len: "i < length (take i rem @ drop i data)" using l i by simp
  show ?case using Suc.hyps(1) [of "Suc i"] Suc.hyps(2) i a z w len by (subst ece391_strcpy_loop.simps) simp
qed

lemma strcpy_down:
  "drop p data = rem @ 0 # ys \<Longrightarrow> 0 < p \<Longrightarrow> p \<le> length data \<Longrightarrow> 0 \<notin> set rem \<Longrightarrow>
    ece391_strcpy (\<lambda>d i. arr d (p + i)) arr_wr data = Some (rem @ 0 # drop (Suc (length rem)) data)"
  using strcpy_loop_down [of p data rem ys 0] by (simp add: ece391_strcpy_def)

section \<open>One line\<close>

lemma find_line_end_eq:
  "le + n \<le> length data \<Longrightarrow> find_line_end data n (int le) = Some (int (le + length (takeWhile (\<lambda>c. c \<noteq> 10) (take n (drop le data)))))"
proof (induction n arbitrary: le)
  case (Suc n)
  have d: "drop le data = data ! le # drop (Suc le) data" using Suc.prems by (simp add: Cons_nth_drop_Suc)
  have "find_line_end data n (int le + 1) = Some (int (Suc le + length (takeWhile (\<lambda>c. c \<noteq> 10) (take n (drop (Suc le) data)))))"
    using Suc.IH [of "Suc le"] Suc.prems by (simp add: add.commute)
  then show ?case using Suc.prems by (simp add: d)
qed simp

lemma prefix_nth: "prefix pat l \<longleftrightarrow> length pat \<le> length l \<and> (\<forall>j < length pat. l ! j = pat ! j)"
proof
  show "prefix pat l \<Longrightarrow> length pat \<le> length l \<and> (\<forall>j < length pat. l ! j = pat ! j)" by (auto simp: prefix_def nth_append)
  assume "length pat \<le> length l \<and> (\<forall>j < length pat. l ! j = pat ! j)"
  then have "take (length pat) l = pat" by (intro nth_equalityI) auto
  then show "prefix pat l" using take_is_prefix [of "length pat" l] by simp
qed

lemma ece391_strncmp_prefix:
  assumes "cstr_at (arr s) pat" and "pat \<noteq> []" and "0 \<notin> set l"
  shows "\<exists>d. ece391_strncmp (arr (l @ 0 # ys)) (arr s) (length pat) = Some d \<and> (d = 0 \<longleftrightarrow> prefix pat l)"
proof -
  have "\<exists>d. ece391_strncmp_loop (arr (l @ 0 # ys)) (arr s) 0 (length pat) = Some d \<and> (d = 0 \<longleftrightarrow> 0 + length pat \<le> length l \<and> (\<forall>j. 0 \<le> j \<and> j < 0 + length pat \<longrightarrow> l ! j = pat ! j))"
    by (rule strncmp_loop_prefix [OF assms(1)]) (use assms(2,3) in \<open>auto simp: nth_append in_set_conv_nth\<close>)
  then show ?thesis using assms(2) prefix_nth [of pat l] by (auto simp: ece391_strncmp_def)
qed

lemma sint_ascii: "(a :: u8) < 0x80 \<Longrightarrow> sint a = uint a"
proof -
  assume "a < 0x80"
  then have "uint a < 0x80" by (simp add: word_less_def)
  moreover have "- 128 \<le> uint a" by (rule order_trans [of _ 0]) simp_all
  ultimately show ?thesis by (simp add: sint_uint signed_take_bit_int_eq_self_iff)
qed

lemma prefix_drop_Suc: "\<not> prefix pat (drop i l) \<Longrightarrow> (\<exists>j. i \<le> j \<and> j < length l \<and> prefix pat (drop j l)) \<longleftrightarrow> (\<exists>j. Suc i \<le> j \<and> j < length l \<and> prefix pat (drop j l))"
  by (metis Suc_leD not_less_eq_eq le_antisym)

context session_calls
begin

lemma hit_emits:
  assumes "ok k" and "0 \<notin> set name" and "8 \<notin> set name" and "0 \<notin> set l" and "8 \<notin> set l" and "length name + length ns < room" and "length l + length ys < room" and "2 \<le> room"
  shows "\<exists>k'. do { k \<leftarrow> ece391_fdputs C 1 (name @ 0 # ns) k; k \<leftarrow> ece391_fdputs C 1 (literal '':'') k; k \<leftarrow> ece391_fdputs C 1 (l @ 0 # ys) k; ece391_fdputs C 1 [10, 0] k } = Some k'
    \<and> emits {} (name @ [byte_of (CHR '':'')] @ l @ [10]) k k'"
proof -
  have p: "plain '':''" "lit '':'' = [byte_of (CHR '':'')]" by (simp_all add: plain_def byte_of_def lit_def)
  from fdputs_emits [OF assms(1-3,6)] obtain k1 where k1: "ece391_fdputs C 1 (name @ 0 # ns) k = Some k1" "emits {} name k k1" by blast
  from literal_emits [OF emits_ok [OF k1(2)] p(1)] assms(8) obtain k2 where k2: "ece391_fdputs C 1 (literal '':'') k1 = Some k2" "emits {} [byte_of (CHR '':'')] k1 k2" by (auto simp: p(2))
  from fdputs_emits [OF emits_ok [OF k2(2)] assms(4,5,7)] obtain k3 where k3: "ece391_fdputs C 1 (l @ 0 # ys) k2 = Some k3" "emits {} l k2 k3" by blast
  from fdputs_emits [OF emits_ok [OF k3(2)], of "[10]" "[]"] assms(8) obtain k' where k': "ece391_fdputs C 1 [10, 0] k3 = Some k'" "emits {} [10] k3 k'" by auto
  show ?thesis using k1(1) k2(1) k3(1) k'(1) emits_trans [OF k1(2) emits_trans [OF k2(2) emits_trans [OF k3(2) k'(2)]]] by auto
qed

lemma search_line_emits:
  assumes "cstr_at (arr s) pat" and "pat \<noteq> []" and "hd pat < 0x80" and fname: "fname = name @ 0 # ns" "0 \<notin> set name" "8 \<notin> set name" "length name + length ns < room"
    and l: "0 \<notin> set l" "8 \<notin> set l" "drop ls data = l @ 0 # ys" "ls \<le> length data" "length data \<le> room" and room: "2 \<le> room"
  shows "ok k \<Longrightarrow> i + n = length l \<Longrightarrow> \<exists>k'. search_line C s fname (length pat) data (int ls) n (int (ls + i)) k = Some k'
    \<and> emits {} (if \<exists>j. i \<le> j \<and> j < length l \<and> prefix pat (drop j l) then name @ [byte_of (CHR '':'')] @ l @ [10] else []) k k'"
proof (induction n arbitrary: i)
  case 0
  then have "i = length l" by simp
  then have "\<not> (\<exists>j. i \<le> j \<and> j < length l \<and> prefix pat (drop j l))" by (simp add: not_less [symmetric])
  then show ?case using emits_refl [OF 0(1)] by (subst if_not_P) auto
next
  case (Suc n)
  have i: "i < length l" using Suc.prems(2) by simp
  have "drop (ls + i) data = drop i (drop ls data)" by (simp add: add.commute)
  then have at: "drop (ls + i) data = drop i l @ 0 # ys" using l(3) i by simp
  have "0 < length (drop (ls + i) data)" unfolding at by simp
  then have len: "ls + i < length data" by simp
  have "drop ls data ! i = l ! i" using l(3) i by (simp add: nth_append)
  then have b: "data ! (ls + i) = l ! i" using l(4) by simp
  have "arr s 0 = Some (hd pat)" using assms(1,2) by (simp add: cstr_at_def hd_conv_nth)
  then have a: "aget s 0 = Some (hd pat)" by (simp add: arr_def aget_def split: if_splits)
  have first: "hd pat = l ! i" if "prefix pat (drop i l)" using that assms(2) i by (auto simp: prefix_nth hd_conv_nth elim!: allE [of _ 0])
  from ece391_strncmp_prefix [OF assms(1,2), of "drop i l" ys] l(1) obtain d where
    d: "ece391_strncmp (arr (drop i l @ 0 # ys)) (arr s) (length pat) = Some d" "d = 0 \<longleftrightarrow> prefix pat (drop i l)" by (meson in_set_dropD)
  have f: "(if sint (hd pat) = uint (data ! (ls + i)) then do { d \<leftarrow> ece391_strncmp (arr (drop (nat (int (ls + i))) data)) (arr s) (length pat); Some (d = 0) } else Some False)
      = Some (prefix pat (drop i l))"
    using d first sint_ascii [OF assms(3)] unfolding nat_int at b by (auto simp: word_uint_eq_iff)
  have n: "nat (int ls) = ls" "aget data (int (ls + i)) = Some (data ! (ls + i))" using len by (simp_all only: aget_in of_nat_0_le_iff of_nat_less_iff nat_int)
  have s: "search_line C s fname (length pat) data (int ls) (Suc n) (int (ls + i)) k = (if prefix pat (drop i l) then
      do { k \<leftarrow> ece391_fdputs C 1 fname k; k \<leftarrow> ece391_fdputs C 1 (literal '':'') k; k \<leftarrow> ece391_fdputs C 1 (l @ 0 # ys) k; ece391_fdputs C 1 [10, 0] k }
      else search_line C s fname (length pat) data (int ls) n (int (ls + Suc i)) k)"
    unfolding search_line.simps a n f Option.bind_lunit l(3) by (simp add: algebra_simps)
  show ?case
  proof (cases "prefix pat (drop i l)")
    case True
    have "length l + length ys < room" using arg_cong [OF l(3), of length] l(5) by simp
    note h = hit_emits [OF Suc.prems(1) fname(2,3) l(1,2) fname(4) this room, folded fname(1)]
    have "\<exists>j. i \<le> j \<and> j < length l \<and> prefix pat (drop j l)" using True i by blast
    then show ?thesis unfolding s using True h by (simp only: if_True)
  next
    case False
    from Suc.IH [OF Suc.prems(1), of "Suc i"] Suc.prems(2) show ?thesis unfolding s using False prefix_drop_Suc [OF False] by simp
  qed
qed

lemma search_line_hit:
  assumes "cstr_at (arr s) pat" and "pat \<noteq> []" and "hd pat < 0x80" and fname: "fname = name @ 0 # ns" "0 \<notin> set name" "8 \<notin> set name" "length name + length ns < room"
    and l: "0 \<notin> set l" "8 \<notin> set l" "drop ls data = l @ 0 # ys" "ls \<le> length data" "length data \<le> room" and room: "2 \<le> room" and ok: "ok k"
  shows "\<exists>k'. search_line C s fname (length pat) data (int ls) (length l) (int ls) k = Some k' \<and> emits {} (hit name pat l) k k'"
  using search_line_emits [OF assms(1-13) ok, of 0 "length l"] sublist_drop [OF assms(2), of l] by (simp add: hit_def)

text \<open>The end of a line in the buffer, and the text from \<open>ls\<close> on with the line cut off.\<close>

lemma line_end_at:
  assumes "length data = 1025" and "last' \<le> 1024" and "ls \<le> last'" and "drop ls (take last' data) = l @ r" and "10 \<notin> set l" and "r = [] \<or> hd r = 10"
  shows "find_line_end data (nat (int last' - int ls)) (int ls) = Some (int (ls + length l))"
    "drop ls (data[ls + length l := 0]) = l @ 0 # drop (Suc (ls + length l)) data" "r \<noteq> [] \<Longrightarrow> data ! (ls + length l) = 10" "ls + length l \<le> last'"
proof -
  have len: "last' - ls = length l + length r" using arg_cong [OF assms(4), of length] assms(1,2) by simp
  then show le: "ls + length l \<le> last'" using assms(3) by simp
  have "takeWhile (\<lambda>c. c \<noteq> 10) (l @ r) = l @ takeWhile (\<lambda>c. c \<noteq> 10) r" by (rule takeWhile_append2) (use assms(5) in auto)
  then have "takeWhile (\<lambda>c. c \<noteq> 10) (l @ r) = l" using assms(6) by (cases r) auto
  moreover have "take (last' - ls) (drop ls data) = l @ r" using assms(4) by (simp add: drop_take)
  ultimately show "find_line_end data (nat (int last' - int ls)) (int ls) = Some (int (ls + length l))"
    using find_line_end_eq [of ls "last' - ls" data] assms(1-3) by (simp add: nat_diff_distrib')
  have n: "drop ls data ! j = (l @ r) ! j" if "j < length (l @ r)" for j
    using assms(4) that len by (metis drop_take length_append nth_take)
  show "drop ls (data[ls + length l := 0]) = l @ 0 # drop (Suc (ls + length l)) data"
  proof -
    have "drop ls data = take (length l) (drop ls data) @ drop (length l) (drop ls data)" by (simp only: append_take_drop_id)
    moreover have "take (length l) (drop ls data) = l"
      by (rule nth_equalityI) (use n assms(1-3) len in \<open>auto simp: nth_append\<close>)
    moreover have "drop (length l) (drop ls data) = data ! (ls + length l) # drop (Suc (ls + length l)) data"
      using assms(1,2) le by (simp add: Cons_nth_drop_Suc add.commute)
    ultimately have "drop ls data = l @ data ! (ls + length l) # drop (Suc (ls + length l)) data" by simp
    then show ?thesis using drop_update_swap [of ls "ls + length l" data] by simp
  qed
  show "data ! (ls + length l) = 10" if "r \<noteq> []"
    using n [of "length l"] that assms(1,2,6) le len by (cases r) (auto simp: nth_append)
qed

text \<open>
  The lines in the buffer from \<open>ls\<close> on, before the unread rest \<open>bs\<close> of the file. The buffer is full or nothing is unread. What is kept
  is a line that may go on; all other lines are searched. First the end of the buffer.
\<close>

lemma grep_lines_end:
  assumes P: "cstr_at (arr s) pat" "pat \<noteq> []" "hd pat < 0x80" and fname: "fname = name @ 0 # ns" "0 \<notin> set name" "8 \<notin> set name" "length name + length ns < room"
    and room: "1025 \<le> room" and last: "last' \<le> 1024" "last' = 1024 \<or> bs = []" "cnt = 0 \<Longrightarrow> bs = []"
    and ok: "ok k" and data: "length data = 1025" "data ! 1024 \<noteq> 10" "ls < last' \<or> ls = 0" "drop ls (take last' data) = rem"
    and rem: "0 \<notin> set rem" "8 \<notin> set rem" "short (rem @ bs)" "10 \<notin> set rem"
  shows "\<exists>m data' out k'. grep_lines C s fname (length pat) cnt (int last') data (int ls) k = Some (int m, data', k') \<and> emits {} out k k'
      \<and> length data' = 1025 \<and> data' ! 1024 \<noteq> 10 \<and> m < 1024 \<and> 0 \<notin> set (take m data') \<and> 8 \<notin> set (take m data') \<and> (cnt = 0 \<longrightarrow> m = 0)
      \<and> hits name pat (rem @ bs) = out @ hits name pat (take m data' @ bs) \<and> short (take m data' @ bs)"
proof -
  have ls: "ls \<le> last'" using data(3) by auto
  have len: "length rem = last' - ls" "ls + length rem = last'" using data(1,4) last(1) ls by auto
  note e = line_end_at [OF data(1) last(1) ls, of rem "[]", unfolded len(2)]
  let ?d = "data[last' := 0]"
  have f: "find_line_end data (nat (int last' - int ls)) (int ls) = Some (int last')" and dl: "drop ls ?d = rem @ 0 # drop (Suc last') data" using e data(4) rem(4) by auto
  have a: "aget data (int last') = Some (data ! last')" "aset data (int last') 0 = Some ?d" using data(1) last(1) by simp_all
  have n: "nat (int last' - int ls) = length rem" using len by simp
  have d1024: "?d ! 1024 \<noteq> 10" using data(1,2) by (cases "last' = 1024") auto
  have lsd: "ls \<le> length ?d" using ls last(1) data(1) by simp
  show ?thesis
  proof (cases "data ! last' \<noteq> 10 \<and> cnt \<noteq> 0 \<and> ls \<noteq> 0")
    case True
    let ?e = "rem @ 0 # drop (Suc (length rem)) ?d"
    have "ece391_strcpy (\<lambda>d i. arr d (ls + i)) arr_wr ?d = Some ?e" using strcpy_down [OF dl _ lsd rem(1)] True by simp
    then have "grep_lines C s fname (length pat) cnt (int last') data (int ls) k = Some (int (length rem), ?e, k)"
      using True ls len by (subst grep_lines.simps) (simp add: f a of_nat_diff)
    moreover have "0 < ls" using True by simp
    then have l: "length rem < 1024" using len(2) last(1) by linarith
    have "?e ! 1024 \<noteq> 10"
    proof -
      have "?e ! 1024 = ?d ! 1024" if "length rem \<noteq> 1023" using l that data(1) by (simp add: nth_append nth_Cons')
      moreover have "?e ! 1024 = drop 1024 ?d ! 0" if "length rem = 1023" using that by (simp add: nth_append)
      ultimately show ?thesis using d1024 data(1) by (cases "length rem = 1023") auto
    qed
    moreover have "length ?e = 1025" using l data(1) by simp
    ultimately show ?thesis using l rem(1-3) True emits_refl [OF ok] by (intro exI [of _ "length rem"] exI [of _ ?e] exI [of _ "[]"] exI [of _ k]) simp
  next
    case False
    have bs: "bs = []"
    proof (rule ccontr)
      assume "bs \<noteq> []"
      then have "last' = 1024" "cnt \<noteq> 0" using last(2,3) by auto
      then have "ls = 0" using False data(2) by simp
      then show False using len short_first [OF rem(4,3)] \<open>last' = 1024\<close> by simp
    qed
    have "length ?d \<le> room" "2 \<le> room" using data(1) room by simp_all
    from search_line_hit [OF P fname rem(1,2) dl lsd this ok] obtain k1 where
      k1: "search_line C s fname (length pat) ?d (int ls) (length rem) (int ls) k = Some k1" "emits {} (hit name pat rem) k k1" by blast
    have c: "(10 \<noteq> data ! last' \<and> 0 \<noteq> cnt \<and> int ls \<noteq> 0) = False" using False by auto
    have "grep_lines C s fname (length pat) cnt (int last') data (int ls) k = Some (int 0, ?d, k1)"
      by (subst grep_lines.simps) (simp only: f Option.bind_lunit a c if_False, simp add: n k1(1))
    moreover have "hits name pat (rem @ bs) = hit name pat rem @ hits name pat (take 0 ?d @ bs)" "short (take 0 ?d @ bs)"
      using bs hits_last [OF rem(4)] hits_nil [OF P(2)] by (simp_all add: short_def lines_last)
    ultimately show ?thesis using d1024 data(1) k1(2) by (intro exI [of _ 0] exI [of _ ?d] exI [of _ "hit name pat rem"] exI [of _ k1]) simp
  qed
qed

lemma grep_lines_emits:
  assumes P: "cstr_at (arr s) pat" "pat \<noteq> []" "hd pat < 0x80" and fname: "fname = name @ 0 # ns" "0 \<notin> set name" "8 \<notin> set name" "length name + length ns < room"
    and room: "1025 \<le> room" and last: "last' \<le> 1024" "last' = 1024 \<or> bs = []" "cnt = 0 \<Longrightarrow> bs = []"
  shows "ok k \<Longrightarrow> length data = 1025 \<Longrightarrow> data ! 1024 \<noteq> 10 \<Longrightarrow> ls < last' \<or> ls = 0 \<Longrightarrow> drop ls (take last' data) = rem \<Longrightarrow> 0 \<notin> set rem \<Longrightarrow> 8 \<notin> set rem \<Longrightarrow> short (rem @ bs) \<Longrightarrow>
    \<exists>m data' out k'. grep_lines C s fname (length pat) cnt (int last') data (int ls) k = Some (int m, data', k') \<and> emits {} out k k'
      \<and> length data' = 1025 \<and> data' ! 1024 \<noteq> 10 \<and> m < 1024 \<and> 0 \<notin> set (take m data') \<and> 8 \<notin> set (take m data') \<and> (cnt = 0 \<longrightarrow> m = 0)
      \<and> hits name pat (rem @ bs) = out @ hits name pat (take m data' @ bs) \<and> short (take m data' @ bs)"
proof (induction "length rem" arbitrary: rem ls data k rule: less_induct)
  case less
  note prems = less.prems
  show ?case
  proof (cases "10 \<in> set rem")
    case True
    from split_newline [OF True] obtain l r where r: "rem = l @ 10 # r" "10 \<notin> set l" by blast
    let ?le = "ls + length l" and ?d = "data[ls + length l := 0]"
    have ls: "ls \<le> last'" using prems(4) by auto
    have e: "find_line_end data (nat (int last' - int ls)) (int ls) = Some (int ?le)" "drop ls ?d = l @ 0 # drop (Suc ?le) data" "data ! ?le = 10" "?le \<le> last'"
      using line_end_at [OF prems(2) last(1) ls, of l "10 # r"] prems(5) r by auto
    have lrem: "last' - ls = Suc (length l + length r)" using arg_cong [OF prems(5), of length] prems(2) last(1) r(1) by simp
    have lr: "0 \<notin> set l" "8 \<notin> set l" "0 \<notin> set r" "8 \<notin> set r" using prems(6,7) r(1) by auto
    have room2: "length ?d \<le> room" "ls \<le> length ?d" "2 \<le> room" using prems(2) room last(1) ls by auto
    from search_line_hit [OF P fname lr(1,2) e(2) room2(2,1,3) prems(1)] obtain k1 where
      k1: "search_line C s fname (length pat) ?d (int ls) (length l) (int ls) k = Some k1" "emits {} (hit name pat l) k k1" by blast
    have a: "aget data (int ?le) = Some 10" "aset data (int ?le) 0 = Some ?d" "nat (int ?le - int ls) = length l"
      using e(3) e(4) prems(2) last(1) by (simp_all add: aget_def aset_def nat_int_add)
    have g: "grep_lines C s fname (length pat) cnt (int last') data (int ls) k =
        (if int ?le + 1 \<ge> int last' then Some (0, ?d, k1) else grep_lines C s fname (length pat) cnt (int last') ?d (int ?le + 1) k1)"
      by (subst grep_lines.simps) (simp only: e(1) a k1(1) Option.bind_lunit Let_def simp_thms if_False)
    have d1024: "?d ! 1024 \<noteq> 10" using prems(2,3) by (cases "?le = 1024") auto
    have h: "hits name pat (rem @ bs) = hit name pat l @ hits name pat (r @ bs)" "short (r @ bs)" using hits_newline [OF r(2)] prems(8) short_newline [OF r(2)] by (simp_all add: r(1))
    show ?thesis
    proof (cases "Suc ?le \<ge> last'")
      case True
      then have "length r = 0" using lrem by linarith
      then have "r = []" by simp
      then have "hits name pat (rem @ bs) = hit name pat l @ hits name pat (take 0 ?d @ bs)" "short (take 0 ?d @ bs)" using h by simp_all
      moreover have "grep_lines C s fname (length pat) cnt (int last') data (int ls) k = Some (int 0, ?d, k1)" using g True by simp
      ultimately show ?thesis using k1(2) d1024 prems(2) by (intro exI [of _ 0] exI [of _ ?d] exI [of _ "hit name pat l"] exI [of _ k1]) simp
    next
      case False
      have "drop (Suc (length l)) (drop ls (take last' data)) = r" unfolding prems(5) r(1) by simp
      then have dr: "drop (Suc ?le) (take last' ?d) = r" by (simp add: add.commute take_update_swap drop_update_cancel)
      moreover have "length r < length rem" using r(1) by simp
      ultimately obtain m data' out k' where IH: "grep_lines C s fname (length pat) cnt (int last') ?d (int (Suc ?le)) k1 = Some (int m, data', k')" "emits {} out k1 k'"
        "length data' = 1025" "data' ! 1024 \<noteq> 10" "m < 1024" "0 \<notin> set (take m data')" "8 \<notin> set (take m data')" "cnt = 0 \<longrightarrow> m = 0"
        "hits name pat (r @ bs) = out @ hits name pat (take m data' @ bs)" "short (take m data' @ bs)"
        using less.hyps [of r k1 ?d "Suc ?le"] emits_ok [OF k1(2)] prems(2) d1024 False lr(3,4) h(2) by auto
      have "grep_lines C s fname (length pat) cnt (int last') data (int ls) k = Some (int m, data', k')" using g False IH(1) by (simp add: add.commute)
      moreover have "hits name pat (rem @ bs) = (hit name pat l @ out) @ hits name pat (take m data' @ bs)" using h(1) IH(9) by simp
      ultimately show ?thesis using IH(3-8,10) emits_trans [OF k1(2) IH(2)] by blast
    qed
  qed (rule grep_lines_end [OF P fname room last prems])
qed

lemma grep_loop_emits:
  assumes P: "cstr_at (arr s) pat" "pat \<noteq> []" "hd pat < 0x80" and fname: "fname = name @ 0 # ns" "0 \<notin> set name" "8 \<notin> set name" "length name + length ns < room"
    and room: "1025 \<le> room"
  shows "ok k \<Longrightarrow> at_file k fd bs \<Longrightarrow> spare k n \<Longrightarrow> length data = 1025 \<Longrightarrow> data ! 1024 \<noteq> 10 \<Longrightarrow> last' < 1024 \<Longrightarrow> 0 \<notin> set (take last' data @ bs) \<Longrightarrow> 8 \<notin> set (take last' data @ bs) \<Longrightarrow>
    short (take last' data @ bs) \<Longrightarrow> \<exists>k'. grep_loop C s fname (length pat) fd (int last') data k = Some (0, k') \<and> emits {fd} (hits name pat (take last' data @ bs)) k k' \<and> spare k' (Suc n)"
proof (induction "length bs" arbitrary: bs data last' k rule: less_induct)
  case less
  note prems = less.prems
  let ?n = "1024 - last'" and ?cnt = "min (1024 - last') (length bs)"
  let ?rest = "take ?n bs @ drop ?cnt (drop last' data)" and ?bs = "drop ?n bs"
  let ?data = "take last' data @ ?rest"
  have "?n \<le> length (drop last' data)" "length (drop last' data) \<le> room" using prems(4,6) room by auto
  from read_file [OF prems(1,2) this] obtain k1 where
    k1: "ece391_read C fd (drop last' data) (int ?n) k = Some (int ?cnt, ?rest, k1)" "emits {fd} [] k k1" "at_file k1 fd ?bs" by blast
  have len: "length ?data = 1025" using prems(4,6) by auto
  have d1024: "?data ! 1024 \<noteq> 10" using prems(4-6) by (auto simp: nth_append min.commute)
  have tk: "take (last' + ?cnt) ?data = take last' data @ take ?n bs" using prems(4,6) by (simp add: min_def)
  have whole: "(take last' data @ take ?n bs) @ ?bs = take last' data @ bs" by simp
  have "\<exists>m data' out k'. grep_lines C s fname (length pat) (int ?cnt) (int (last' + ?cnt)) ?data (int 0) k1 = Some (int m, data', k') \<and> emits {} out k1 k'
      \<and> length data' = 1025 \<and> data' ! 1024 \<noteq> 10 \<and> m < 1024 \<and> 0 \<notin> set (take m data') \<and> 8 \<notin> set (take m data') \<and> (int ?cnt = 0 \<longrightarrow> m = 0)
      \<and> hits name pat ((take last' data @ take ?n bs) @ ?bs) = out @ hits name pat (take m data' @ ?bs) \<and> short (take m data' @ ?bs)"
  proof (rule grep_lines_emits [OF P fname room])
    show "drop 0 (take (last' + ?cnt) ?data) = take last' data @ take ?n bs" unfolding tk by simp
    show "length ?data = 1025" by (rule len)
    show "?data ! 1024 \<noteq> 10" by (rule d1024)
  qed (use emits_ok [OF k1(2)] prems(6-9) in \<open>auto dest: in_set_takeD\<close>)
  then obtain m data' out k2 where k2: "grep_lines C s fname (length pat) (int ?cnt) (int (last' + ?cnt)) ?data 0 k1 = Some (int m, data', k2)" "emits {} out k1 k2"
    "length data' = 1025" "data' ! 1024 \<noteq> 10" "m < 1024" "0 \<notin> set (take m data')" "8 \<notin> set (take m data')" "int ?cnt = 0 \<longrightarrow> m = 0"
    "hits name pat (take last' data @ bs) = out @ hits name pat (take m data' @ ?bs)" "short (take m data' @ ?bs)" unfolding whole by auto
  have i: "nat (int last') = last'" "1024 - int last' = int ?n" "int last' + int ?cnt = int (last' + ?cnt)" using prems(6) by auto
  have c1: "(int ?cnt = -1) = False" by simp
  have f2: "at_file k2 fd ?bs" by (rule file_kept [OF k2(2) _ k1(3)]) simp
  have sp: "spare k2 n" using spare_kept [OF k2(2) spare_file [OF k1(2) prems(2) k1(3) prems(3)]] .
  have e2: "emits {fd} out k k2" using emits_empty_trans [OF k1(2) emits_any [OF k2(2)]] .
  have g: "grep_loop C s fname (length pat) fd (int last') data k = (if int ?cnt = 0 then do {
         (r, k) \<leftarrow> ece391_close C fd k2;
         if r = -1 then do { k \<leftarrow> ece391_fdputs C 1 (line ''file close failed'') k; Some (-1, k) } else Some (0, k)
       } else grep_loop C s fname (length pat) fd (int m) data' k2)"
    by (subst grep_loop.simps) (simp only: i k1(1) k2(1) c1 Option.bind_lunit prod.case Let_def if_False)
  show ?case
  proof (cases "bs = []")
    case True
    from close_file [OF emits_ok [OF k2(2)] f2 sp] obtain k' where k': "ece391_close C fd k2 = Some (0, k')" "emits {fd} [] k2 k'" "spare k' (Suc n)" by blast
    have "hits name pat (take last' data @ bs) = out" using k2(8,9) True hits_nil [OF P(2)] by simp
    then show ?thesis unfolding g using True k' emits_trans_empty [OF e2 k'(2)] by auto
  next
    case False
    then have "0 < length bs" by simp
    then have lt: "length ?bs < length bs" "int ?cnt \<noteq> 0" using prems(6) by (auto simp del: length_greater_0_conv)
    from less.hyps [OF lt(1) emits_ok [OF k2(2)] f2 sp k2(3,4,5)] k2(6,7,10) prems(7,8) obtain k' where
      k': "grep_loop C s fname (length pat) fd (int m) data' k2 = Some (0, k')" "emits {fd} (hits name pat (take m data' @ ?bs)) k2 k'" "spare k' (Suc n)"
      by (auto dest: in_set_dropD)
    then show ?thesis unfolding g if_not_P [OF lt(2)] using emits_trans [OF e2 k'(2)] k2(9) by auto
  qed
qed

lemma do_one_file_emits:
  assumes P: "cstr_at (arr s) pat" "pat \<noteq> []" "hd pat < 0x80" and name: "0 \<notin> set name" "8 \<notin> set name" "length name + length ns < room"
    and room: "1025 \<le> room" and k: "ok k" "stored k name bs" "spare k (Suc n)" and data: "length data = 1025" "data ! 1024 \<noteq> 10" and bs: "0 \<notin> set bs" "8 \<notin> set bs" "short bs"
  shows "\<exists>fd k'. do_one_file C data s (name @ 0 # ns) k = Some (0, k') \<and> emits {fd} (hits name pat bs) k k' \<and> spare k' (Suc n) \<and> 2 \<le> fd \<and> (\<forall>fd' xs. at_dir k fd' xs \<longrightarrow> fd' \<noteq> fd)"
proof -
  have l: "ece391_strlen (arr s) = Some (length pat)" using P(1) by (simp add: ece391_strlen_eq strlen_at)
  from open_stored [OF k name(3)] obtain fd k1 where
    k1: "ece391_open C (name @ 0 # ns) k = Some (fd, k1)" "2 \<le> fd" "emits {fd} [] k k1" "at_file k1 fd bs" "spare k1 n" "\<forall>fd' ns. at_dir k fd' ns \<longrightarrow> fd' \<noteq> fd" by blast
  have "\<exists>k'. grep_loop C s (name @ 0 # ns) (length pat) fd (int 0) data k1 = Some (0, k') \<and> emits {fd} (hits name pat (take 0 data @ bs)) k1 k' \<and> spare k' (Suc n)"
    by (rule grep_loop_emits [OF P refl name room emits_ok [OF k1(3)] k1(4,5) data]) (use bs in auto)
  then obtain k' where k': "grep_loop C s (name @ 0 # ns) (length pat) fd 0 data k1 = Some (0, k')" "emits {fd} (hits name pat bs) k1 k'" "spare k' (Suc n)" by auto
  have "do_one_file C data s (name @ 0 # ns) k = Some (0, k')" using l k1(1,2) k'(1) by (simp add: do_one_file_def)
  then show ?thesis using emits_empty_trans [OF k1(3) k'(2)] k'(3) k1(2,6) by blast
qed

text \<open>The loop over the names of the directory; \<open>text_of x\<close> is what the file \<open>x\<close> holds.\<close>

lemma grep_files_emits:
  assumes P: "cstr_at (arr s) pat" "pat \<noteq> []" "hd pat < 0x80" and room: "1025 \<le> room" and bufs: "\<forall>n. length (bufs n) = 1025 \<and> bufs n ! 1024 \<noteq> 10"
  shows "ok k \<Longrightarrow> at_dir k fd xs \<Longrightarrow> spare k (Suc n) \<Longrightarrow> length buf = 33 \<Longrightarrow>
    \<forall>x \<in> set xs. x \<noteq> [] \<and> 0 \<notin> set x \<and> 8 \<notin> set x \<and> (\<not> is_dot x \<longrightarrow> stored k x (text_of x) \<and> 0 \<notin> set (text_of x) \<and> 8 \<notin> set (text_of x) \<and> short (text_of x)) \<Longrightarrow>
    \<exists>k'. grep_files C bufs i s fd buf k = Some (0, k') \<and> emits UNIV (concat (map (\<lambda>x. if is_dot x then [] else hits x pat (text_of x)) xs)) k k'"
proof (induction xs arbitrary: k buf i)
  case Nil
  from read_dir [OF Nil(1,2), of 32 buf] Nil(4) room obtain k' where "ece391_read C fd buf 32 k = Some (0, buf, k')" "emits {fd, -1} [] k k'" by auto
  then show ?case using emits_mono [of _ "[]" k k' UNIV] by (subst grep_files.simps) auto
next
  case (Cons x xs)
  note prems = Cons.prems
  have x: "x \<noteq> []" "0 \<notin> set x" "8 \<notin> set x" using prems(5) by auto
  let ?ys = "drop (Suc (length x)) buf"
  from read_dir [OF prems(1,2), of 32 buf] prems(4) room obtain k1 where
    k1: "length x \<le> 32" "ece391_read C fd buf 32 k = Some (int (length x), x @ drop (length x) buf, k1)" "emits {fd, -1} [] k k1" "at_dir k1 fd xs" by auto
  have sp: "spare k1 (Suc n)" by (rule spare_dir [OF k1(3) prems(2) k1(4) prems(3)])
  have c: "aget (x @ drop (length x) buf) 0 = Some (hd x)" using x(1) by (cases x) (simp_all add: aget_def)
  have st: "(int (length x) = 0) = False" "(int (length x) = -1) = False" using x(1) by simp_all
  have kept: "\<forall>y \<in> set xs. y \<noteq> [] \<and> 0 \<notin> set y \<and> 8 \<notin> set y \<and> (\<not> is_dot y \<longrightarrow> stored k' y (text_of y) \<and> 0 \<notin> set (text_of y) \<and> 8 \<notin> set (text_of y) \<and> short (text_of y))"
    if "emits F out k k'" for F out k' using prems(5) stored_kept [OF that] by auto
  show ?case
  proof (cases "is_dot x")
    case True
    have "grep_files C bufs i s fd buf k = grep_files C bufs (Suc i) s fd (x @ drop (length x) buf) k1"
      using True by (subst grep_files.simps) (simp add: k1(2) st c is_dot_def del: of_nat_eq_0_iff)
    moreover obtain k' where "grep_files C bufs (Suc i) s fd (x @ drop (length x) buf) k1 = Some (0, k')"
      "emits UNIV (concat (map (\<lambda>x. if is_dot x then [] else hits x pat (text_of x)) xs)) k1 k'"
      using Cons.IH [OF emits_ok [OF k1(3)] k1(4) sp, of "x @ drop (length x) buf" "Suc i"] kept [OF k1(3)] k1(1) prems(4) by auto
    ultimately show ?thesis using True emits_empty_trans [OF emits_mono [OF k1(3)], of UNIV] by auto
  next
    case False
    have b: "aset (x @ drop (length x) buf) (int (length x)) 0 = Some (x @ 0 # ?ys)"
      using k1(1) prems(4) by (simp add: aset_def list_update_append Cons_nth_drop_Suc [symmetric])
    have f: "stored k1 x (text_of x)" "0 \<notin> set (text_of x)" "8 \<notin> set (text_of x)" "short (text_of x)" using prems(5) False stored_kept [OF k1(3)] by auto
    have "length x + length ?ys < room" using k1(1) prems(4) room by simp
    from do_one_file_emits [OF P x(2,3) this room emits_ok [OF k1(3)] f(1) sp _ _ f(2-4), of "bufs i"] bufs obtain fd' k2 where
      k2: "do_one_file C (bufs i) s (x @ 0 # ?ys) k1 = Some (0, k2)" "emits {fd'} (hits x pat (text_of x)) k1 k2" "spare k2 (Suc n)" "2 \<le> fd'"
        "\<forall>fd xs. at_dir k1 fd xs \<longrightarrow> fd \<noteq> fd'" by blast
    have d2: "at_dir k2 fd xs" by (rule dir_kept [OF k2(2) _ _ k1(4)]) (use k2(4,5) k1(4) in auto)
    have e2: "emits UNIV (hits x pat (text_of x)) k k2" using emits_empty_trans [OF emits_mono [OF k1(3)] emits_mono [OF k2(2)]] by simp
    have "grep_files C bufs i s fd buf k = grep_files C bufs (Suc i) s fd (x @ 0 # ?ys) k2"
      using False by (subst grep_files.simps) (simp add: k1(2) st c b k2(1) is_dot_def del: of_nat_eq_0_iff)
    moreover obtain k' where "grep_files C bufs (Suc i) s fd (x @ 0 # ?ys) k2 = Some (0, k')"
      "emits UNIV (concat (map (\<lambda>x. if is_dot x then [] else hits x pat (text_of x)) xs)) k2 k'"
      using Cons.IH [OF emits_ok [OF k2(2)] d2 k2(3), of "x @ 0 # ?ys" "Suc i"] kept [OF e2] k1(1) prems(4) by auto
    ultimately show ?thesis using False emits_trans [OF e2] by auto
  qed
qed

lemma grep_emits:
  assumes pat: "argument k pat" "0 \<notin> set pat" "pat \<noteq> []" "hd pat < 0x80" "length pat < 128" and room: "1025 \<le> room" and k: "ok k" "listed k xs" "spare k 2"
    and bufs: "\<forall>n. length (bufs n) = 1025 \<and> bufs n ! 1024 \<noteq> 10" and buf: "length buf = 33" "length search = 1024"
    and xs: "\<forall>x \<in> set xs. x \<noteq> [] \<and> 0 \<notin> set x \<and> 8 \<notin> set x \<and> (\<not> is_dot x \<longrightarrow> stored k x (text_of x) \<and> 0 \<notin> set (text_of x) \<and> 8 \<notin> set (text_of x) \<and> short (text_of x))"
    and kept: "\<And>k'. emits {} [] k k' \<Longrightarrow> listed k' xs"
  shows "\<exists>k'. grep_main C bufs buf search k = Some (0, k') \<and> emits UNIV (concat (map (\<lambda>x. if is_dot x then [] else hits x pat (text_of x)) xs)) k k'"
proof -
  from read_argument [OF k(1) pat(1), of 1024 search] pat(3,5) buf(2) room obtain ys k1 where
    k1: "ece391_getargs C search 1024 k = Some (0, pat @ 0 # ys, k1)" "emits {} [] k k1" by auto
  let ?s = "pat @ 0 # ys"
  have P: "cstr_at (arr ?s) pat" using cstr_at_arr [OF pat(2)] by simp
  have "spare k1 (Suc 1)" using spare_kept [OF k1(2)] k(3) by (simp add: numeral_2_eq_2)
  from spare_listed [OF kept [OF k1(2)] this emits_ok [OF k1(2)]] room obtain fd k2 where
    k2: "ece391_open C (literal ''.'') k1 = Some (fd, k2)" "2 \<le> fd" "emits {fd, -1} [] k1 k2" "at_dir k2 fd xs" "spare k2 (Suc 0)" by auto
  have e2: "emits {fd, -1} [] k k2" using emits_empty_trans [OF emits_any [OF k1(2)] k2(3)] .
  have xs2: "\<forall>x \<in> set xs. x \<noteq> [] \<and> 0 \<notin> set x \<and> 8 \<notin> set x \<and> (\<not> is_dot x \<longrightarrow> stored k2 x (text_of x) \<and> 0 \<notin> set (text_of x) \<and> 8 \<notin> set (text_of x) \<and> short (text_of x))"
    using xs stored_kept [OF e2] by auto
  from grep_files_emits [OF P pat(3,4) room bufs emits_ok [OF k2(3)] k2(4,5) buf(1) xs2, where i = 0] obtain k' where
    k': "grep_files C bufs 0 ?s fd buf k2 = Some (0, k')" "emits UNIV (concat (map (\<lambda>x. if is_dot x then [] else hits x pat (text_of x)) xs)) k2 k'" by blast
  have "grep_main C bufs buf search k = Some (0, k')" using k1(1) k2(1,2) k'(1) by (simp add: grep_main_def)
  then show ?thesis using emits_empty_trans [OF emits_mono [OF e2] k'(2)] by blast
qed

end

section \<open>grep on the kernel\<close>

text \<open>
  Claim C11. \<open>grep\<close> on this kernel finds the lines: run with a search text that starts with an ASCII character, on an image whose directory has the
  entry \<open>.\<close> and otherwise regular files of text with lines of less than 1024 characters, it returns 0, and its terminal shows for
  every file in the order of the directory every line that contains the search text, after the name of the file and a colon; entries
  that start with a dot are skipped. The lines of a file may be spread in any way over the reads. The byte after the 1024 that \<open>grep\<close> reads, which is not
  initialised, must not be a new line.
\<close>

theorem grep_shows_lines:
  assumes "runs_user (at P) s" and "pcb_argument (pcb_at s (cur_pcb s)) = pat @ 0 # ys" and "0 \<notin> set pat" and "pat \<noteq> []" and "hd pat < 0x80" and "length pat < 128"
    and "has_entry (at P) s (lit ''.'') e ds" and "file_type e = FILE_TYPE_DIR" and "2 \<le> card (free_fds s)"
    and "\<forall>n. length (bufs n) = 1025 \<and> bufs n ! 1024 \<noteq> 10" and "length buf = 33" and "length search = 1024"
    and "\<forall>d \<in> set ds. dentry_name d \<noteq> [] \<and> 0 \<notin> set (dentry_name d) \<and> BS \<notin> set (dentry_name d) \<and> (\<not> is_dot (dentry_name d) \<longrightarrow>
      has_entry (at P) s (dentry_name d) d ds \<and> file_type d = FILE_TYPE_FILE \<and> image_file (at P) s (inode_num d) (text_of (dentry_name d))
      \<and> 0 \<notin> set (text_of (dentry_name d)) \<and> BS \<notin> set (text_of (dentry_name d)) \<and> short (text_of (dentry_name d)))"
  shows "\<exists>s' sc'. grep_main (kernel_calls P) bufs buf search (s, sc) = Some (0, (s', sc'))
    \<and> shown s' (terminal_num s) = spec_text (concat (map (\<lambda>x. if is_dot x then [] else hits x pat (text_of x)) (map dentry_name ds))) (shown s (terminal_num s))
    \<and> (\<forall>j. 0 \<le> j \<and> j < 3 \<and> j \<noteq> terminal_num s \<longrightarrow> shown s' j = shown s j)"
proof -
  let ?k = "(s, sc)" and ?xs = "map dentry_name ds"
  note ok = runs_user_ok [OF assms(1), of sc]
  have arg: "kernel_argument (at P) s ?k pat" using assms(2,3) by (auto simp: kernel_argument_def)
  have "free_fds s \<noteq> {}" using assms(9) by auto
  then have li: "kernel_listed (at P) s ?k ?xs" using assms(7,8) free_fds_lowest by (auto simp: kernel_listed_def)
  have kept: "kernel_listed (at P) s k' ?xs" if "kernel_emits (at P) s {} [] ?k k'" for k'
  proof -
    have "free_fds (fst k') = free_fds s" using that by (intro free_fds_cong) (auto simp: kernel_emits_def)
    then show ?thesis using li free_fds_lowest unfolding kernel_listed_def fst_conv by metis
  qed
  have sp: "kernel_spare ?k 2" using assms(9) by (simp add: kernel_spare_def)
  have xs: "\<forall>x \<in> set ?xs. x \<noteq> [] \<and> 0 \<notin> set x \<and> 8 \<notin> set x \<and> (\<not> is_dot x \<longrightarrow> kernel_stored (at P) s ?k x (text_of x)
      \<and> 0 \<notin> set (text_of x) \<and> 8 \<notin> set (text_of x) \<and> short (text_of x))"
    using assms(13) by (auto simp: kernel_stored_def)
  from ksession.grep_emits [OF arg assms(3-6) _ ok li sp assms(10-12) xs kept] obtain k' where
    "grep_main (kernel_calls P) bufs buf search ?k = Some (0, k')"
    "kernel_emits (at P) s UNIV (concat (map (\<lambda>x. if is_dot x then [] else hits x pat (text_of x)) ?xs)) ?k k'" by auto
  then show ?thesis by (cases k') (auto simp: kernel_emits_def)
qed

text \<open>The small image, with a process whose argument is \<open>b\<close>.\<close>

definition sample_grep :: "unit kernel_scheme" where
  "sample_grep = sample_process\<lparr>pcb_at := (\<lambda>_. shell_pcb\<lparr>pcb_argument := lit ''b'' @ replicate 127 0\<rparr>)\<rparr>"

lemma sample_grep_same:
  "same_image sample_grep sample_process" "fd_of sample_grep = fd_of sample_process" "wf_fds sample_grep = wf_fds sample_process" "wf_console sample_grep = wf_console sample_process"
  "terminal_num sample_grep = 0" "to_test sample_grep = to_test sample_process" "boot_block sample_grep = boot_block sample_process" "syscall_jumptable sample_grep = syscall_jumptable sample_process"
proof -
  have p: "pcb_at sample_process = (\<lambda>_. shell_pcb)" by (simp add: sample_process_def)
  then show "fd_of sample_grep = fd_of sample_process" "wf_fds sample_grep = wf_fds sample_process" by (simp_all add: sample_grep_def fd_of_def wf_fds_def cur_pcb_def fun_eq_iff)
  show "same_image sample_grep sample_process" "wf_console sample_grep = wf_console sample_process" "to_test sample_grep = to_test sample_process"
    "boot_block sample_grep = boot_block sample_process" "syscall_jumptable sample_grep = syscall_jumptable sample_process"
    by (simp_all add: sample_grep_def same_image_def same_mem_def same_paging_def wf_console_def)
  show "terminal_num sample_grep = 0" using sample_process_same(6) by (simp add: sample_grep_def)
qed

lemma sample_grep_image:
  "runs_user a sample_grep = runs_user a sample_process" "has_entry a sample_grep = has_entry a sample_process" "image_file a sample_grep = image_file a sample_process"
  "free_fds sample_grep = free_fds sample_process"
proof -
  have m: "same_mem sample_grep sample_process" using sample_grep_same(1) by (simp add: same_image_def)
  note r = same_mem_reads [OF m] same_image_reads [OF sample_grep_same(1)]
  have b: "buffers a sample_grep = buffers a sample_process" for a using r by (simp add: buffers_def)
  have d: "image_dir a sample_grep = image_dir a sample_process" for a using r b sample_grep_same(6,7) by (simp add: image_dir_def fun_eq_iff)
  show "runs_user a sample_grep = runs_user a sample_process" using r sample_grep_same by (simp add: runs_user_def)
  show "has_entry a sample_grep = has_entry a sample_process" using d by (simp add: has_entry_def fun_eq_iff)
  show "image_file a sample_grep = image_file a sample_process" using r b by (simp add: image_file_def fun_eq_iff)
  show "free_fds sample_grep = free_fds sample_process" using sample_grep_same(2) by (simp add: free_fds_def)
qed

theorem grep_shows_lines_witness:
  "\<exists>s' sc'. grep_main (kernel_calls sample_platform) (\<lambda>_. replicate 1025 0) (replicate 33 0) (replicate 1024 0) (sample_grep, []) = Some (0, (s', sc'))
    \<and> shown s' 0 = spec_text (lit ''hi:abc'' @ [10]) (shown sample_grep 0)"
proof -
  have r: "runs_user (at sample_platform) sample_grep" using sample_runs by (simp add: sample_grep_image)
  have a: "pcb_argument (pcb_at sample_grep (cur_pcb sample_grep)) = lit ''b'' @ 0 # replicate 126 0" by (simp add: sample_grep_def replicate_Suc [symmetric] del: replicate_Suc)
  have p: "0 \<notin> set (lit ''b'')" "lit ''b'' \<noteq> []" "hd (lit ''b'') < 0x80" "length (lit ''b'') < 128" by (simp_all add: lit_def byte_of_def)
  from sample_dot obtain e where e: "has_entry (at sample_platform) sample_grep (lit ''.'') e sample_dir" "file_type e = FILE_TYPE_DIR" by (auto simp: sample_grep_image)
  have "free_fds sample_process = {2..<8}" using sample_free by (auto simp: free_fds_def)
  then have c: "2 \<le> card (free_fds sample_grep)" by (simp add: sample_grep_image)
  have b: "\<forall>n :: nat. length (replicate 1025 (0 :: u8)) = 1025 \<and> replicate 1025 (0 :: u8) ! 1024 \<noteq> 10" "length (replicate 33 (0 :: u8)) = 33" "length (replicate 1024 (0 :: u8)) = 1024" by simp_all
  obtain d0 d1 where d: "sample_dir = [d0, d1]" by (simp add: sample_dir_def)
  have nm: "dentry_name d0 = lit ''.''" "dentry_name d1 = lit ''hi''" using sample_names unfolding d by simp_all
  have dots: "is_dot (lit ''.'')" "\<not> is_dot (lit ''hi'')" by (simp_all add: is_dot_def lit_def byte_of_def)
  have l: "lines (lit ''abc'') = [lit ''abc'']" by (rule lines_last) (simp add: lit_def byte_of_def)
  have h: "has_entry (at sample_platform) sample_grep (dentry_name d1) d1 sample_dir" "file_type d1 = FILE_TYPE_FILE" "image_file (at sample_platform) sample_grep (inode_num d1) (lit ''abc'')"
    using sample_has_hi sample_open(4) by (simp_all add: sample_grep_image d nm)
  have f: "\<forall>x \<in> set sample_dir. dentry_name x \<noteq> [] \<and> 0 \<notin> set (dentry_name x) \<and> BS \<notin> set (dentry_name x) \<and> (\<not> is_dot (dentry_name x) \<longrightarrow>
      has_entry (at sample_platform) sample_grep (dentry_name x) x sample_dir \<and> file_type x = FILE_TYPE_FILE \<and> image_file (at sample_platform) sample_grep (inode_num x) (lit ''abc'')
      \<and> 0 \<notin> set (lit ''abc'') \<and> BS \<notin> set (lit ''abc'') \<and> short (lit ''abc''))"
    using h dots nm by (auto simp: d short_def l) (auto simp: lit_def byte_of_def)
  have "sublist (lit ''b'') (lit ''abc'')" unfolding sublist_def by (rule exI [of _ "lit ''a''"], rule exI [of _ "lit ''c''"]) (simp add: lit_def)
  then have o: "hits (lit ''hi'') (lit ''b'') (lit ''abc'') = lit ''hi:abc'' @ [10]" by (simp add: hits_def l hit_def) (simp add: lit_def)
  from grep_shows_lines [OF r a p e c b(1,2,3) f, of "[]"] show ?thesis using dots nm o sample_grep_same(5) by (auto simp: d)
qed

text \<open>
  A search text whose first byte is 0x80 or above is never found: the signed first character is negative and no byte of the line is.
\<close>

lemma sint_high: "0x80 \<le> (c :: u8) \<Longrightarrow> sint c < 0"
proof -
  assume "0x80 \<le> c"
  then have u: "128 \<le> uint c" "uint c < 256" using uint_lt2p [of c] by (simp_all add: word_le_def)
  then have "uint c div 128 = 1" by presburger
  then have "bit (uint c) 7" by (simp add: bit_iff_odd)
  then have "sint c = take_bit 8 (uint c) - 256" by (simp add: sint_uint signed_take_bit_eq_take_bit_minus)
  moreover have "take_bit 8 (uint c) < 256" using take_bit_int_less_exp [of 8 "uint c"] by simp
  ultimately show ?thesis by linarith
qed

lemma grep_misses_high_bytes:
  assumes "aget s 0 = Some c" and "0x80 \<le> c" and "0 \<le> check" and "check + int n \<le> int (length data)"
  shows "search_line C s fname s_len data ls n check k = Some k"
  using assms(3,4)
proof (induction n arbitrary: check)
  case (Suc n)
  have "sint c \<noteq> uint (data ! nat check)" using sint_high [OF assms(2)] uint_ge_0 [of "data ! nat check"] by linarith
  then show ?case using assms(1) Suc by simp
qed simp

end
