(* ===== verification/Emulate.thy ===== *)
theory Emulate
  imports User_Calls
begin

text \<open>
  ece391emulate.c of syscalls/ and fish/ (the two files are the same): the system calls of this system implemented on Linux, so that the user
  programs can be tried there. Linux and its C library are not part of the repository: they are the record \<open>linux\<close> of functions on a state
  \<open>'w\<close> of the world, with directory streams of type \<open>'d\<close>.
\<close>

section \<open>Linux\<close>

text \<open>
  The system calls return the value of EAX. Strings are arrays from the pointer on, or their text where Linux takes a constant. \<open>fork\<close> has
  the result in the parent. \<open>execv\<close> runs the program in the child to its end: the result is the wait status, or \<open>None\<close> when it could not be
  started and \<open>execv\<close> returns in the child. Outside, \<open>None\<close> is a call that does not end.
\<close>

record ('w, 'd) linux =
  linux_read :: "int \<Rightarrow> u8 list \<Rightarrow> int \<Rightarrow> 'w \<Rightarrow> (u32 \<times> u8 list \<times> 'w) option"
  linux_write :: "int \<Rightarrow> u8 list \<Rightarrow> int \<Rightarrow> 'w \<Rightarrow> (u32 \<times> 'w) option"
  linux_close :: "int \<Rightarrow> 'w \<Rightarrow> (u32 \<times> 'w) option"
  linux_open :: "u8 list \<Rightarrow> 'w \<Rightarrow> (u32 \<times> 'w) option"
  libc_open :: "string \<Rightarrow> bool \<Rightarrow> 'w \<Rightarrow> int \<times> 'w"
  libc_close :: "int \<Rightarrow> 'w \<Rightarrow> 'w"
  opendir :: "string \<Rightarrow> 'w \<Rightarrow> 'd option \<times> 'w"
  readdir :: "'d \<Rightarrow> 'w \<Rightarrow> u8 list option \<times> 'w"
  closedir :: "'d \<Rightarrow> 'w \<Rightarrow> 'w"
  mmap :: "int \<Rightarrow> 'w \<Rightarrow> u32 option \<times> 'w"
  perror :: "string \<Rightarrow> 'w \<Rightarrow> 'w"
  fork :: "'w \<Rightarrow> int \<times> 'w"
  linux_number :: "int \<Rightarrow> 'w \<Rightarrow> (u32 \<times> 'w) option"
  execv :: "u8 list \<Rightarrow> u8 list list \<Rightarrow> 'w \<Rightarrow> (u32 option \<times> 'w) option"

text \<open>
  The static variables; \<open>argv\<close> are the strings (with their NUL) that \<open>start_esp\<close> leads to, \<open>pointers\<close> the pointer variables of the
  program that \<open>vidmap\<close> sets.
\<close>

record ('w, 'd) emulation =
  world :: 'w
  argv :: "u8 list list"
  dir_fd :: int
  dir :: "'d option"
  mem_fd :: int
  pointers :: "u32 \<Rightarrow> u32"

definition emulation_start :: "u8 list list \<Rightarrow> (u32 \<Rightarrow> u32) \<Rightarrow> 'w \<Rightarrow> ('w, 'd) emulation" where
  "emulation_start args p w = \<lparr>world = w, argv = args, dir_fd = -1, dir = None, mem_fd = -1, pointers = p\<rparr>"

text \<open>\<open>CMP $0xFFFFC000,%EAX; JBE 1f; MOVL $-1,%EAX\<close>: the error codes of Linux become -1.\<close>

definition linux_result :: "u32 \<Rightarrow> int" where
  "linux_result eax = (if eax \<le> 0xFFFFC000 then sint eax else -1)"

definition raw_read :: "('w, 'd) linux \<Rightarrow> int \<Rightarrow> u8 list \<Rightarrow> int \<Rightarrow> ('w, 'd) emulation \<Rightarrow> (int \<times> u8 list \<times> ('w, 'd) emulation) option" where
  "raw_read L fd buf nbytes k = do {
     (eax, buf, w) \<leftarrow> linux_read L fd buf nbytes (world k);
     Some (linux_result eax, buf, k\<lparr>world := w\<rparr>)
   }"

definition raw_write :: "('w, 'd) linux \<Rightarrow> int \<Rightarrow> u8 list \<Rightarrow> int \<Rightarrow> ('w, 'd) emulation \<Rightarrow> (int \<times> ('w, 'd) emulation) option" where
  "raw_write L fd buf nbytes k = do {
     (eax, w) \<leftarrow> linux_write L fd buf nbytes (world k);
     Some (linux_result eax, k\<lparr>world := w\<rparr>)
   }"

definition raw_close :: "('w, 'd) linux \<Rightarrow> int \<Rightarrow> ('w, 'd) emulation \<Rightarrow> (int \<times> ('w, 'd) emulation) option" where
  "raw_close L fd k = do {
     (eax, w) \<leftarrow> linux_close L fd (world k);
     Some (linux_result eax, k\<lparr>world := w\<rparr>)
   }"

text \<open>\<open>_start\<close>: the value with which the program calls \<open>exit\<close>.\<close>

definition start_main :: "(('w, 'd) emulation \<Rightarrow> (int \<times> ('w, 'd) emulation) option) \<Rightarrow> ('w, 'd) emulation \<Rightarrow> (u32 \<times> 'w) option" where
  "start_main main k = do { (r, k) \<leftarrow> main k; Some (word_of_int r, world k) }"

section \<open>execute\<close>

text \<open>\<open>for (; '\0' != *scan && ' ' != *scan && '\n' != *scan; scan++);\<close> and \<open>while (' ' == *scan) scan++;\<close>\<close>

definition separator :: "u8 \<Rightarrow> bool" where
  "separator c \<longleftrightarrow> c = 32 \<or> c = 10"

partial_function (option) scan_word :: "u8 list \<Rightarrow> nat \<Rightarrow> nat option" where
  "scan_word buf scan = do {
     c \<leftarrow> arr buf scan;
     if 0 \<noteq> c \<and> \<not> separator c then scan_word buf (Suc scan) else Some scan
   }"

partial_function (option) skip_blanks :: "u8 list \<Rightarrow> nat \<Rightarrow> nat option" where
  "skip_blanks buf scan = do {
     c \<leftarrow> arr buf scan;
     if 32 = c then skip_blanks buf (Suc scan) else Some scan
   }"

text \<open>The array \<open>args\<close> has 1024 places; its elements point into \<open>buf\<close>.\<close>

partial_function (option) parse_args :: "u8 list \<Rightarrow> nat \<Rightarrow> nat list \<Rightarrow> (u8 list \<times> nat list) option" where
  "parse_args buf scan args = do {
     scan \<leftarrow> skip_blanks buf scan;
     c \<leftarrow> arr buf scan;
     if c = 0 \<or> c = 10 then do {
       buf \<leftarrow> aset buf (int scan) 0;
       Some (buf, args)
     } else if length args < 1024 then do {
       let args = args @ [scan];
       scan \<leftarrow> scan_word buf scan;
       c \<leftarrow> arr buf scan;
       if c \<noteq> 0 then do {
         buf \<leftarrow> aset buf (int scan) 0;
         parse_args buf (Suc scan) args
       } else parse_args buf scan args
     } else None
   }"

definition parse_command :: "u8 list \<Rightarrow> (u8 list \<times> nat list) option" where
  "parse_command buf = do {
     scan \<leftarrow> scan_word buf 2;
     c \<leftarrow> arr buf scan;
     if 0 \<noteq> c then do {
       buf \<leftarrow> aset buf (int scan) 0;
       parse_args buf (Suc scan) [0]
     } else Some (buf, [0])
   }"

definition text_at :: "u8 list \<Rightarrow> nat \<Rightarrow> u8 list" where
  "text_at buf p = takeWhile (\<lambda>c. c \<noteq> 0) (drop p buf)"

definition WIFEXITED :: "u32 \<Rightarrow> bool" where
  "WIFEXITED st \<longleftrightarrow> st AND 0x7F = 0"

definition WEXITSTATUS :: "u32 \<Rightarrow> u32" where
  "WEXITSTATUS st = drop_bit 8 (st AND 0xFF00)"

definition WTERMSIG :: "u32 \<Rightarrow> u32" where
  "WTERMSIG st = st AND 0x7F"

text \<open>
  The child replaces itself by the program, or kills itself with signal 9. When no child can be made, \<open>wait\<close> fails and \<open>status\<close> keeps
  the value \<open>st0\<close> it happens to have.
\<close>

definition run_child :: "('w, 'd) linux \<Rightarrow> u32 \<Rightarrow> u8 list \<Rightarrow> u8 list list \<Rightarrow> 'w \<Rightarrow> (u32 \<times> 'w) option" where
  "run_child L st0 path args w = (let (pid, w) = fork L w in
     if pid < 0 then Some (st0, w)
     else do {
       (st, w) \<leftarrow> execv L path args w;
       Some (case st of Some st \<Rightarrow> st | None \<Rightarrow> 9, w)
     })"

definition child_result :: "u32 \<Rightarrow> int" where
  "child_result st = (if WIFEXITED st then uint (WEXITSTATUS st) else if 9 = WTERMSIG st then -1 else 256)"

definition emulate_execute :: "('w, 'd) linux \<Rightarrow> u8 list \<Rightarrow> u32 \<Rightarrow> u8 list \<Rightarrow> ('w, 'd) emulation \<Rightarrow> (int \<times> ('w, 'd) emulation) option" where
  "emulate_execute L buf st0 command k = do {
     n \<leftarrow> ece391_strlen (arr command);
     if 1023 < n then Some (-1, k)
     else do {
       buf \<leftarrow> aset buf 0 (byte_of (CHR ''.''));
       buf \<leftarrow> aset buf 1 (byte_of (CHR ''/''));
       buf \<leftarrow> ece391_strcpy (\<lambda>buf. arr command) (\<lambda>buf i c. aset buf (2 + int i) c) buf;
       (buf, args) \<leftarrow> parse_command buf;
       if length args < 1024 then do {
         (st, w) \<leftarrow> run_child L st0 (text_at buf 0) (map (text_at buf) args) (world k);
         Some (child_result st, k\<lparr>world := w\<rparr>)
       } else None
     }
   }"

section \<open>Files\<close>

definition emulate_open :: "('w, 'd) linux \<Rightarrow> u8 list \<Rightarrow> ('w, 'd) emulation \<Rightarrow> (int \<times> ('w, 'd) emulation) option" where
  "emulate_open L filename k = do {
     d \<leftarrow> ece391_strcmp (arr filename) (arr (literal ''.''));
     if 0 = d then
       let (ds, w) = opendir L ''.'' (world k);
           (fd, w) = libc_open L ''/dev/null'' False w
       in Some (fd, k\<lparr>world := w, dir := ds, dir_fd := fd\<rparr>)
     else do {
       (rval, w) \<leftarrow> linux_open L filename (world k);
       Some (if rval > 0xFFFFC000 then -1 else sint rval, k\<lparr>world := w\<rparr>)
     }
   }"

definition is_dir :: "int \<Rightarrow> ('w, 'd) emulation \<Rightarrow> bool" where
  "is_dir fd k \<longleftrightarrow> \<not> (dir k = None \<or> dir_fd k \<noteq> fd)"

text \<open>The copy of a directory entry: \<open>from\<close> and \<open>to\<close> advance together with \<open>copied\<close>; the result says whether the function returns from the loop.\<close>

partial_function (option) entry_copy :: "u8 list \<Rightarrow> int \<Rightarrow> nat \<Rightarrow> u8 list \<Rightarrow> (bool \<times> nat \<times> u8 list) option" where
  "entry_copy name nbytes copied buf = do {
     c \<leftarrow> arr name copied;
     if 0 \<noteq> c then do {
       buf \<leftarrow> aset buf (int copied) c;
       let copied = Suc copied;
       if int copied = nbytes \<or> 32 = copied then Some (True, copied, buf)
       else entry_copy name nbytes copied buf
     } else Some (False, copied, buf)
   }"

partial_function (option) entry_pad :: "int \<Rightarrow> nat \<Rightarrow> u8 list \<Rightarrow> (nat \<times> u8 list) option" where
  "entry_pad nbytes copied buf =
     (if nbytes > int copied \<and> 32 > copied then do {
        buf \<leftarrow> aset buf (int copied) 0;
        entry_pad nbytes (Suc copied) buf
      } else Some (copied, buf))"

definition emulate_read :: "('w, 'd) linux \<Rightarrow> int \<Rightarrow> u8 list \<Rightarrow> int \<Rightarrow> ('w, 'd) emulation \<Rightarrow> (int \<times> u8 list \<times> ('w, 'd) emulation) option" where
  "emulate_read L fd buf nbytes k =
     (case dir k of
        Some d \<Rightarrow> if dir_fd k \<noteq> fd then raw_read L fd buf nbytes k
          else (case readdir L d (world k) of
             (None, w) \<Rightarrow> Some (0, buf, k\<lparr>world := w\<rparr>)
           | (Some name, w) \<Rightarrow> do {
               (done, copied, buf) \<leftarrow> entry_copy name nbytes 0 buf;
               if done then Some (int copied, buf, k\<lparr>world := w\<rparr>)
               else do {
                 (copied, buf) \<leftarrow> entry_pad nbytes copied buf;
                 Some (int copied, buf, k\<lparr>world := w\<rparr>)
               }
             })
      | None \<Rightarrow> raw_read L fd buf nbytes k)"

definition emulate_write :: "('w, 'd) linux \<Rightarrow> int \<Rightarrow> u8 list \<Rightarrow> int \<Rightarrow> ('w, 'd) emulation \<Rightarrow> (int \<times> ('w, 'd) emulation) option" where
  "emulate_write L fd buf nbytes k = (if \<not> is_dir fd k then raw_write L fd buf nbytes k else Some (-1, k))"

definition emulate_close :: "('w, 'd) linux \<Rightarrow> int \<Rightarrow> ('w, 'd) emulation \<Rightarrow> (int \<times> ('w, 'd) emulation) option" where
  "emulate_close L fd k =
     (case dir k of
        Some d \<Rightarrow> if dir_fd k \<noteq> fd then raw_close L fd k
          else Some (0, k\<lparr>world := libc_close L (dir_fd k) (closedir L d (world k)), dir := None, dir_fd := -1\<rparr>)
      | None \<Rightarrow> raw_close L fd k)"

section \<open>Arguments and the screen\<close>

text \<open>The loop over the arguments \<open>idx\<close>, \<dots>; \<open>pos\<close> is how far \<open>buf\<close> has moved. The result is the final position and what is left of \<open>nbytes\<close>, or \<open>None\<close> for -1.\<close>

primrec args_loop :: "u8 list list \<Rightarrow> nat \<Rightarrow> int \<Rightarrow> u8 list \<Rightarrow> ((nat \<times> int) option \<times> u8 list) option" where
  "args_loop [] pos nbytes buf = Some (Some (pos, nbytes), buf)"
| "args_loop (a # args) pos nbytes buf = do {
     len \<leftarrow> ece391_strlen (arr a);
     if int len > nbytes then Some (None, buf)
     else do {
       buf \<leftarrow> ece391_strcpy (\<lambda>buf. arr a) (\<lambda>buf i c. aset buf (int (pos + i)) c) buf;
       let pos = pos + len;
       let nbytes = nbytes - int len;
       if args = [] then Some (Some (pos, nbytes), buf)
       else if nbytes < 1 then Some (None, buf)
       else do {
         buf \<leftarrow> aset buf (int pos) 32;
         args_loop args (Suc pos) (nbytes - 1) buf
       }
     }
   }"

definition emulate_getargs :: "u8 list \<Rightarrow> int \<Rightarrow> ('w, 'd) emulation \<Rightarrow> (int \<times> u8 list \<times> ('w, 'd) emulation) option" where
  "emulate_getargs buf nbytes k = do {
     (r, buf) \<leftarrow> args_loop (drop 1 (argv k)) 0 nbytes buf;
     case r of None \<Rightarrow> Some (-1, buf, k)
     | Some (pos, nbytes) \<Rightarrow>
         if nbytes < 1 then Some (-1, buf, k)
         else do { buf \<leftarrow> aset buf (int pos) 0; Some (0, buf, k) }
   }"

definition emulate_vidmap :: "('w, 'd) linux \<Rightarrow> u32 \<Rightarrow> ('w, 'd) emulation \<Rightarrow> (int \<times> ('w, 'd) emulation) option" where
  "emulate_vidmap L screen_start k =
     (let (fd, w) = (if mem_fd k = -1 then libc_open L ''/dev/mem'' True (world k) else (mem_fd k, world k)) in
      case mmap L fd w of
        (None, w) \<Rightarrow> Some (-1, k\<lparr>world := perror L ''mmap low memory'' w, mem_fd := fd\<rparr>)
      | (Some mem_image, w) \<Rightarrow> Some (0, k\<lparr>world := w, mem_fd := fd, pointers := (pointers k)(screen_start := mem_image + 0xb8000)\<rparr>))"

text \<open>The calls that a program linked with this file sees; \<open>buf\<close> and \<open>st0\<close> are what the locals of \<open>ece391_execute\<close> happen to hold.\<close>

definition emulated :: "('w, 'd) linux \<Rightarrow> u8 list \<Rightarrow> u32 \<Rightarrow> ('w, 'd) emulation calls" where
  "emulated L buf st0 = \<lparr>ece391_execute = emulate_execute L buf st0, ece391_read = emulate_read L, ece391_write = emulate_write L,
     ece391_open = emulate_open L, ece391_close = emulate_close L, ece391_getargs = emulate_getargs, ece391_vidmap = emulate_vidmap L,
     ece391_number = (\<lambda>n k. do { (eax, w) \<leftarrow> linux_number L n (world k); Some (sint eax, k\<lparr>world := w\<rparr>) })\<rparr>"

section \<open>Copying and scanning\<close>

lemma arr_middle [simp]: "arr (pre @ c # ys) (length pre) = Some c"
  by (simp add: arr_def)

lemma aset_middle [simp]: "aset (pre @ c # ys) (int (length pre)) v = Some (pre @ v # ys)"
  by (simp add: aset_def list_update_append)

lemma aset_end [simp]: "aset pre (int (length pre)) v = None"
  by (simp add: aset_def)

text \<open>A copy of a string to position \<open>length pre\<close> of an array fails exactly when the array is too short for it.\<close>

lemma strcpy_loop_to:
  assumes "0 \<notin> set xs" and "p + length as = length pre"
  shows "ece391_strcpy_loop (\<lambda>b. arr (as @ xs @ 0 # zs)) (\<lambda>b i c. aset b (int (p + i)) c) (length as) (pre @ ys)
    = (if length xs < length ys then Some (pre @ xs @ 0 # drop (Suc (length xs)) ys) else None)"
  using assms
proof (induction xs arbitrary: as pre ys)
  case Nil
  then show ?case by (subst ece391_strcpy_loop.simps, cases ys) simp_all
next
  case (Cons x xs)
  show ?case
  proof (cases ys)
    case Nil
    with Cons.prems show ?thesis by (subst ece391_strcpy_loop.simps) simp
  next
    case (Cons y ys')
    then have "ece391_strcpy_loop (\<lambda>b. arr (as @ (x # xs) @ 0 # zs)) (\<lambda>b i c. aset b (int (p + i)) c) (length as) (pre @ ys)
      = ece391_strcpy_loop (\<lambda>b. arr (as @ (x # xs) @ 0 # zs)) (\<lambda>b i c. aset b (int (p + i)) c) (Suc (length as)) (pre @ x # ys')"
      using Cons.prems by (subst ece391_strcpy_loop.simps) (simp del: of_nat_add)
    also have "\<dots> = (if length xs < length ys' then Some ((pre @ [x]) @ xs @ 0 # drop (Suc (length xs)) ys') else None)"
      using Cons.IH [of "as @ [x]" "pre @ [x]" ys'] Cons.prems by simp
    finally show ?thesis using Cons by simp
  qed
qed

lemma strcpy_to:
  assumes "0 \<notin> set xs" and "p = length pre"
  shows "ece391_strcpy (\<lambda>b. arr (xs @ 0 # zs)) (\<lambda>b i c. aset b (int (p + i)) c) (pre @ ys)
    = (if length xs < length ys then Some (pre @ xs @ 0 # drop (Suc (length xs)) ys) else None)"
  using strcpy_loop_to [OF assms(1), of p "[]" pre zs ys] assms(2) by (simp add: ece391_strcpy_def)

lemma scan_word_to:
  "(\<forall>c \<in> set w. c \<noteq> 0 \<and> \<not> separator c) \<Longrightarrow> c = 0 \<or> separator c \<Longrightarrow> scan_word (pre @ w @ c # ys) (length pre) = Some (length pre + length w)"
proof (induction w arbitrary: pre)
  case Nil
  then show ?case by (subst scan_word.simps) auto
next
  case (Cons x w)
  then show ?case using Cons.IH [of "pre @ [x]"] by (subst scan_word.simps) simp
qed

lemma skip_blanks_to: "c \<noteq> 32 \<Longrightarrow> skip_blanks (pre @ replicate n 32 @ c # ys) (length pre) = Some (length pre + n)"
proof (induction n arbitrary: pre)
  case 0
  then show ?case by (subst skip_blanks.simps) simp
next
  case (Suc n)
  then show ?case using Suc.IH [of "pre @ [32]"] by (subst skip_blanks.simps) simp
qed

section \<open>The words of a command\<close>

text \<open>
  What the parser finds after the first word: the words between separators, up to a new line that does not end a word.
\<close>

function cmd_words :: "u8 list \<Rightarrow> u8 list list" where
  "cmd_words xs = (case dropWhile (\<lambda>c. c = 32) xs of [] \<Rightarrow> []
     | c # r \<Rightarrow> if c = 10 then [] else (c # takeWhile (\<lambda>c. \<not> separator c) r) # cmd_words (drop 1 (dropWhile (\<lambda>c. \<not> separator c) r)))"
  by pat_completeness auto
termination
proof (relation "measure length")
  fix xs r :: "u8 list" and c assume "dropWhile (\<lambda>c. c = 32) xs = c # r"
  then have "Suc (length r) \<le> length xs" using length_dropWhile_le [of "\<lambda>c. c = 32" xs] by simp
  then show "(drop 1 (dropWhile (\<lambda>c. \<not> separator c) r), xs) \<in> measure length" using length_dropWhile_le [of "\<lambda>c. \<not> separator c" r] by simp
qed simp

declare cmd_words.simps [simp del]

definition program_word :: "u8 list \<Rightarrow> u8 list" where
  "program_word xs = takeWhile (\<lambda>c. \<not> separator c) xs"

definition command_args :: "u8 list \<Rightarrow> u8 list list" where
  "command_args xs = cmd_words (drop 1 (dropWhile (\<lambda>c. \<not> separator c) xs))"

lemma cmd_words_cases:
  obtains (none) n where "xs = replicate n 32" "cmd_words xs = []"
  | (newline) n r where "xs = replicate n 32 @ 10 # r" "cmd_words xs = []"
  | (last) n w where "xs = replicate n 32 @ w" "w \<noteq> []" "\<forall>c \<in> set w. \<not> separator c" "cmd_words xs = [w]"
  | (more) n w c r where "xs = replicate n 32 @ w @ c # r" "w \<noteq> []" "\<forall>c \<in> set w. \<not> separator c" "separator c" "cmd_words xs = w # cmd_words r"
proof -
  let ?n = "length (takeWhile (\<lambda>c. c = 32) xs)" and ?d = "dropWhile (\<lambda>c. c = 32) xs"
  have "takeWhile (\<lambda>c. c = 32) xs = replicate ?n 32" by (rule replicate_eqI) (auto dest: set_takeWhileD)
  then have xs: "xs = replicate ?n 32 @ ?d" by (metis takeWhile_dropWhile_id)
  show ?thesis
  proof (cases ?d)
    case Nil
    with xs none [of ?n] show ?thesis by (simp add: cmd_words.simps [of xs])
  next
    case (Cons c r)
    show ?thesis
    proof (cases "c = 10")
      case True
      with Cons xs newline [of ?n r] show ?thesis by (simp add: cmd_words.simps [of xs])
    next
      case False
      have c: "\<not> separator c" using False Cons hd_dropWhile [of "\<lambda>c. c = 32" xs] by (simp add: separator_def)
      let ?w = "c # takeWhile (\<lambda>c. \<not> separator c) r" and ?e = "dropWhile (\<lambda>c. \<not> separator c) r"
      have w: "\<forall>c \<in> set ?w. \<not> separator c" using c by (auto dest: set_takeWhileD)
      have d: "?d = ?w @ ?e" using Cons by simp
      have ws: "cmd_words xs = ?w # cmd_words (drop 1 ?e)" using Cons False by (simp add: cmd_words.simps [of xs])
      show ?thesis
      proof (cases ?e)
        case Nil
        have "cmd_words xs = [?w]" using ws unfolding Nil by (simp add: cmd_words.simps [of "[]"])
        then show ?thesis using last [of ?n ?w] xs d w Nil by simp
      next
        case (Cons e f)
        then have "separator e" using hd_dropWhile [of "\<lambda>c. \<not> separator c" r] by simp
        then show ?thesis using more [of ?n ?w e f] xs d w Cons ws by simp
      qed
    qed
  qed
qed

lemma cmd_words_count: "2 * length (cmd_words xs) \<le> Suc (length xs)"
proof (induction "length xs" arbitrary: xs rule: less_induct)
  case less
  show ?case
  proof (cases xs rule: cmd_words_cases)
    case (last n w)
    then show ?thesis by (cases w) simp_all
  next
    case (more n w c r)
    then have "2 * length (cmd_words r) \<le> Suc (length r)" using less by simp
    then show ?thesis using more by (cases w) simp_all
  qed simp_all
qed

lemma text_at_middle: "0 \<notin> set w \<Longrightarrow> text_at (pre @ w @ 0 # ys) (length pre) = w"
  by (auto simp: text_at_def takeWhile_tail)

lemma parse_args_stop:
  assumes "c = 0 \<or> c = 10"
  shows "parse_args (pre @ replicate n 32 @ c # ys) (length pre) args = Some (pre @ replicate n 32 @ 0 # ys, args)"
proof -
  let ?p = "pre @ replicate n 32"
  have "skip_blanks (?p @ c # ys) (length pre) = Some (length ?p)" using skip_blanks_to [of c pre n ys] assms by auto
  then have "parse_args (?p @ c # ys) (length pre) args = Some (?p @ 0 # ys, args)"
    using assms by (subst parse_args.simps) (simp del: length_append append_assoc)
  then show ?thesis by simp
qed

lemma parse_args_word:
  assumes w: "w \<noteq> []" "\<forall>c \<in> set w. c \<noteq> 0 \<and> \<not> separator c" and c: "c = 0 \<or> separator c" and n: "length args < 1024" and p: "p = pre @ replicate n 32"
  shows "parse_args (p @ w @ c # ys) (length pre) args
    = parse_args (p @ w @ 0 # ys) (if c = 0 then length (p @ w) else Suc (length (p @ w))) (args @ [length p])"
proof -
  from w obtain x w' where x: "w = x # w'" "x \<noteq> 0" "x \<noteq> 32" "x \<noteq> 10" by (cases w) (auto simp: separator_def)
  let ?b = "p @ w @ c # ys"
  have 1: "skip_blanks ?b (length pre) = Some (length p)" using skip_blanks_to [OF x(3), of pre n "w' @ c # ys"] x(1) p by simp
  have 2: "arr ?b (length p) = Some x" unfolding x(1) by simp
  have 3: "scan_word ?b (length p) = Some (length (p @ w))" using scan_word_to [OF w(2) c, of p ys] by simp
  have 4: "arr ?b (length (p @ w)) = Some c" using arr_middle [of "p @ w"] by simp
  have 5: "aset ?b (int (length (p @ w))) 0 = Some (p @ w @ 0 # ys)" using aset_middle [of "p @ w"] by simp
  show ?thesis by (subst parse_args.simps) (simp add: 1 2 3 4 5 x(2-4) n Let_def del: length_append)
qed

text \<open>The parser in the buffer finds the words, and leaves what lies before untouched.\<close>

lemma parse_args_words:
  assumes "0 \<notin> set xs" and "length args + length (cmd_words xs) \<le> 1024"
  shows "\<exists>zs ps. parse_args (pre @ xs @ 0 # ys) (length pre) args = Some (pre @ zs, args @ ps) \<and> map (text_at (pre @ zs)) ps = cmd_words xs"
  using assms
proof (induction "length xs" arbitrary: xs pre args rule: less_induct)
  case less
  show ?case
  proof (cases xs rule: cmd_words_cases)
    case (none n)
    then show ?thesis using parse_args_stop [of 0 pre n ys args] by simp
  next
    case (newline n r)
    then show ?thesis using parse_args_stop [of 10 pre n "r @ 0 # ys" args] by simp
  next
    case (last n w)
    let ?p = "pre @ replicate n 32"
    have z: "0 \<notin> set w" "\<forall>c\<in>set w. c \<noteq> 0 \<and> \<not> separator c" using less.prems(1) last by auto
    have "parse_args (?p @ w @ 0 # ys) (length pre) args = parse_args (?p @ w @ 0 # ys) (length (?p @ w)) (args @ [length ?p])"
      using parse_args_word [OF last(2) z(2) _ _ refl, of 0 args pre n ys] less.prems(2) last(4) by simp
    also have "\<dots> = Some (?p @ w @ 0 # ys, args @ [length ?p])" using parse_args_stop [of 0 "?p @ w" 0 ys] by simp
    finally show ?thesis using last text_at_middle [OF z(1), of ?p ys] by (intro exI [of _ "xs @ 0 # ys"] exI [of _ "[length ?p]"]) simp
  next
    case (more n w c r)
    let ?p = "pre @ replicate n 32"
    have z: "0 \<notin> set w" "\<forall>c\<in>set w. c \<noteq> 0 \<and> \<not> separator c" "c \<noteq> 0" "0 \<notin> set r" using less.prems(1) more by auto
    let ?q = "?p @ w @ [0]"
    have "\<exists>zs ps. parse_args (?q @ r @ 0 # ys) (length ?q) (args @ [length ?p]) = Some (?q @ zs, (args @ [length ?p]) @ ps) \<and> map (text_at (?q @ zs)) ps = cmd_words r"
      by (rule less.hyps) (use less.prems more z in auto)
    then obtain zs ps where i: "parse_args (?q @ r @ 0 # ys) (length ?q) (args @ [length ?p]) = Some (?q @ zs, (args @ [length ?p]) @ ps)"
      "map (text_at (?q @ zs)) ps = cmd_words r" by blast
    have "parse_args (?p @ w @ c # r @ 0 # ys) (length pre) args = Some (?q @ zs, (args @ [length ?p]) @ ps)"
      using parse_args_word [OF more(2) z(2) _ _ refl, of c args pre n "r @ 0 # ys"] i(1) z(3) more(4,5) less.prems(2) by simp
    moreover have "text_at (?q @ zs) (length ?p) = w" using text_at_middle [OF z(1), of ?p zs] by simp
    ultimately show ?thesis using more i(2) by (intro exI [of _ "replicate n 32 @ w @ 0 # zs"] exI [of _ "length ?p # ps"]) simp
  qed
qed

lemma two_bytes:
  assumes "length buf = 1026"
  obtains zs where "do { buf \<leftarrow> aset buf 0 (byte_of (CHR ''.'')); aset buf 1 (byte_of (CHR ''/'')) } = Some (lit ''./'' @ zs)" "length zs = 1024"
proof -
  from assms obtain a b zs where "buf = a # b # zs" "length zs = 1024" by (cases buf; cases "tl buf") auto
  then show thesis using that [of zs] by (simp add: aset_def lit_def)
qed

lemma parse_command_words:
  assumes "0 \<notin> set xs" and "length xs \<le> 1023"
  shows "\<exists>b args. parse_command (lit ''./'' @ xs @ 0 # d) = Some (b, 0 # args) \<and> text_at b 0 = lit ''./'' @ program_word xs
    \<and> map (text_at b) args = command_args xs \<and> length args < 1023"
proof -
  let ?w = "program_word xs" and ?r = "dropWhile (\<lambda>c. \<not> separator c) xs"
  let ?p = "lit ''./'' @ ?w"
  have x: "xs = ?w @ ?r" by (simp add: program_word_def)
  have w: "\<forall>c \<in> set ?w. c \<noteq> 0 \<and> \<not> separator c" "0 \<notin> set ?p" using assms(1) by (auto simp: program_word_def lit_def byte_of_def dest: set_takeWhileD)
  show ?thesis
  proof (cases ?r)
    case Nil
    then have x': "lit ''./'' @ xs @ 0 # d = ?p @ 0 # d" using x by (metis append_Nil2 append_assoc)
    have "scan_word (?p @ 0 # d) 2 = Some (length ?p)" using scan_word_to [OF w(1), of 0 "lit ''./''" d] by (simp add: numeral_2_eq_2)
    moreover have "text_at (?p @ 0 # d) 0 = ?p" using text_at_middle [OF w(2), of "[]" d] by simp
    moreover have "command_args xs = []" by (simp add: command_args_def Nil cmd_words.simps [of "[]"])
    ultimately show ?thesis unfolding x' parse_command_def by (simp del: length_append append_assoc)
  next
    case (Cons c r)
    have c: "separator c" using Cons hd_dropWhile [of "\<lambda>c. \<not> separator c" xs] by simp
    have xr: "xs = ?w @ c # r" using x Cons by simp
    then have z: "0 \<notin> set (?w @ c # r)" "length (?w @ c # r) \<le> 1023" using assms by simp_all
    have x': "lit ''./'' @ xs @ 0 # d = ?p @ c # r @ 0 # d" using arg_cong [OF xr, of "\<lambda>xs. lit ''./'' @ xs @ 0 # d"] by simp
    let ?q = "?p @ [0]"
    have a: "command_args xs = cmd_words r" by (simp add: command_args_def Cons)
    have m: "length (cmd_words r) < 1023" using cmd_words_count [of r] z(2) by simp
    have "scan_word (?p @ c # r @ 0 # d) 2 = Some (length ?p)" using scan_word_to [OF w(1), of c "lit ''./''" "r @ 0 # d"] c by (simp add: numeral_2_eq_2)
    moreover from parse_args_words [of r "[0]" ?q d] m z(1) obtain zs ps where
      "parse_args (?p @ 0 # r @ 0 # d) (Suc (length ?p)) [0] = Some (?p @ 0 # zs, 0 # ps)" and p: "map (text_at (?p @ 0 # zs)) ps = cmd_words r" by auto
    moreover have "text_at (?p @ 0 # zs) 0 = ?p" using text_at_middle [OF w(2), of "[]" zs] by simp
    moreover have "length ps < 1023" using arg_cong [OF p, of length] m by simp
    ultimately show ?thesis using z(1) unfolding x' a parse_command_def by (simp del: length_append append_assoc)
  qed
qed

text \<open>The whole of \<open>ece391_execute\<close>: the parsed program and arguments are run, and the wait status is translated.\<close>

lemma emulate_execute_eq:
  assumes "0 \<notin> set xs" and "length buf = 1026"
  shows "emulate_execute L buf st0 (xs @ 0 # ys) k = (if length xs \<le> 1023 then do {
       (st, w) \<leftarrow> run_child L st0 (lit ''./'' @ program_word xs) ((lit ''./'' @ program_word xs) # command_args xs) (world k);
       Some (child_result st, k\<lparr>world := w\<rparr>)
     } else Some (-1, k))"
proof (cases "length xs \<le> 1023")
  case True
  from two_bytes [OF assms(2)] obtain zs where
    zs: "do { buf \<leftarrow> aset buf 0 (byte_of (CHR ''.'')); aset buf 1 (byte_of (CHR ''/'')) } = Some (lit ''./'' @ zs)" "length zs = 1024" by blast
  let ?d = "drop (Suc (length xs)) zs"
  have c: "ece391_strcpy (\<lambda>b. arr (xs @ 0 # ys)) (\<lambda>b i c. aset b (2 + int i) c) (lit ''./'' @ zs) = Some (lit ''./'' @ xs @ 0 # ?d)"
    using strcpy_to [OF assms(1), of 2 "lit ''./''" ys zs] True zs(2) by (simp add: lit_def)
  from parse_command_words [OF assms(1) True] obtain b args where "parse_command (lit ''./'' @ xs @ 0 # ?d) = Some (b, 0 # args)"
    "text_at b 0 = lit ''./'' @ program_word xs" "map (text_at b) args = command_args xs" "length args < 1023" by blast
  then show ?thesis using True zs(1) c assms(1) by (auto simp: emulate_execute_def bind_eq_Some_conv ece391_strlen_eq)
next
  case False
  then show ?thesis using assms(1) by (simp add: emulate_execute_def ece391_strlen_eq)
qed

section \<open>Arguments\<close>

primrec join :: "u8 list list \<Rightarrow> u8 list" where
  "join [] = []"
| "join (a # as) = (if as = [] then a else a @ 32 # join as)"

text \<open>Some initial part of the arguments fills the \<open>n\<close> bytes of the buffer exactly, so that the NUL that \<open>strcpy\<close> appends falls behind the buffer.\<close>

definition overruns :: "u8 list list \<Rightarrow> nat \<Rightarrow> bool" where
  "overruns as n \<longleftrightarrow> (\<exists>i < length as. length (join (take (Suc i) as)) = n)"

lemma overruns_Cons: "overruns (a # as) n \<longleftrightarrow> length a = n \<or> length a < n \<and> overruns as (n - Suc (length a))"
proof -
  have "overruns (a # as) n \<longleftrightarrow> length a = n \<or> (\<exists>i < length as. length (join (a # take (Suc i) as)) = n)"
    by (simp add: overruns_def Ex_less_Suc2)
  also have "\<dots> \<longleftrightarrow> length a = n \<or> length a < n \<and> overruns as (n - Suc (length a))"
    unfolding overruns_def by (auto simp: Suc_diff_Suc)
  finally show ?thesis .
qed

lemma overruns_Nil [simp]: "\<not> overruns [] n"
  by (simp add: overruns_def)

lemma args_loop_join:
  assumes "\<forall>a \<in> set as. 0 \<notin> set a" and "as \<noteq> []"
  shows "(length (join as) < length ys \<longrightarrow> args_loop (map (\<lambda>a. a @ [0]) as) (length pre) (int (length ys)) (pre @ ys)
        = Some (Some (length pre + length (join as), int (length ys - length (join as))), pre @ join as @ 0 # drop (Suc (length (join as))) ys))
    \<and> (length ys \<le> length (join as) \<longrightarrow> (if overruns as (length ys) then args_loop (map (\<lambda>a. a @ [0]) as) (length pre) (int (length ys)) (pre @ ys) = None
        else \<exists>b. args_loop (map (\<lambda>a. a @ [0]) as) (length pre) (int (length ys)) (pre @ ys) = Some (None, b)))"
  using assms
proof (induction as arbitrary: pre ys)
  case (Cons a as)
  have a: "0 \<notin> set a" using Cons.prems by simp
  have n: "ece391_strlen (arr (a @ [0])) = Some (length a)" using a by (simp add: ece391_strlen_eq)
  note c = strcpy_to [OF a refl, of "[]" pre ys]
  consider "length ys < length a" | "length ys = length a" | "length a < length ys" "as = []" | "length a < length ys" "as \<noteq> []" by linarith
  then show ?case
  proof cases
    case 4
    let ?y = "drop (Suc (length a)) ys"
    have s: "aset (pre @ a @ 0 # ?y) (int (length pre + length a)) 32 = Some ((pre @ a @ [32]) @ ?y)" using aset_middle [of "pre @ a" 0 ?y 32] by simp
    have l: "int (length ys) - int (length a) - 1 = int (length ?y)" using 4 by simp
    have e: "args_loop (map (\<lambda>a. a @ [0]) (a # as)) (length pre) (int (length ys)) (pre @ ys)
      = args_loop (map (\<lambda>a. a @ [0]) as) (length (pre @ a @ [32])) (int (length ?y)) ((pre @ a @ [32]) @ ?y)"
      using 4 n c s l by simp
    have j: "length (join (a # as)) = length a + Suc (length (join as))" "overruns (a # as) (length ys) \<longleftrightarrow> overruns as (length ?y)"
      using 4 by (simp_all add: overruns_Cons)
    have k: "length (join (a # as)) < length ys \<longleftrightarrow> length (join as) < length ?y" "length ys - length (join (a # as)) = length ?y - length (join as)"
      unfolding j(1) using 4 by (simp_all add: less_diff_conv add.commute)
    from Cons.IH [of ?y "pre @ a @ [32]"] Cons.prems 4 show ?thesis unfolding e k linorder_not_less [symmetric] j(2)
      by (simp add: j add.commute split: if_split_asm del: args_loop.simps)
  qed (use n c in \<open>auto simp: overruns_Cons\<close>)
qed simp

text \<open>What \<open>getargs\<close> does for a buffer of \<open>nbytes\<close> bytes.\<close>

lemma emulate_getargs_join:
  assumes "argv k = p # map (\<lambda>a. a @ [0]) as" and "\<forall>a \<in> set as. 0 \<notin> set a"
  shows "if length (join as) < length buf then emulate_getargs buf (int (length buf)) k = Some (0, join as @ 0 # drop (Suc (length (join as))) buf, k)
    else if overruns as (length buf) then emulate_getargs buf (int (length buf)) k = None
    else \<exists>b. emulate_getargs buf (int (length buf)) k = Some (-1, b, k)"
proof (cases "as = []")
  case True
  then show ?thesis using assms(1) by (cases buf) (auto simp: emulate_getargs_def aset_def)
next
  case False
  from args_loop_join [OF assms(2) False, of buf "[]"] assms(1) aset_middle [of "join as" 0 "drop (Suc (length (join as))) buf" 0] show ?thesis
    by (auto simp: emulate_getargs_def)
qed

text \<open>A command with single spaces is taken apart and put together again.\<close>

lemma cmd_words_join:
  "\<forall>a \<in> set as. a \<noteq> [] \<and> (\<forall>c \<in> set a. \<not> separator c) \<Longrightarrow> cmd_words (join as) = as"
proof (induction as)
  case Nil
  then show ?case by (simp add: cmd_words.simps)
next
  case (Cons a as)
  then obtain c r where a: "a = c # r" "\<not> separator c" "\<forall>c \<in> set r. \<not> separator c" by (cases a) auto
  have c: "c \<noteq> 10" using a(2) by (simp add: separator_def)
  have d: "dropWhile (\<lambda>c. c = 32) (join (a # as)) = join (a # as)" using a by (simp add: separator_def)
  have t: "takeWhile (\<lambda>c. \<not> separator c) (r @ 32 # join as) = r" "dropWhile (\<lambda>c. \<not> separator c) (r @ 32 # join as) = 32 # join as"
    using a(3) by (simp_all add: takeWhile_tail dropWhile_append separator_def)
  show ?case
  proof (cases "as = []")
    case True
    have "dropWhile (\<lambda>c. \<not> separator c) r = []" "takeWhile (\<lambda>c. \<not> separator c) r = r" using a(3) by (simp_all add: takeWhile_eq_all_conv)
    moreover have "cmd_words [] = []" by (simp add: cmd_words.simps)
    ultimately have "(c # takeWhile (\<lambda>c. \<not> separator c) r) # cmd_words (drop 1 (dropWhile (\<lambda>c. \<not> separator c) r)) = [c # r]" by (simp only: drop_Nil)
    then show ?thesis using True a c d by (subst cmd_words.simps) simp
  next
    case False
    then show ?thesis using Cons a c d t by (subst cmd_words.simps) simp
  qed
qed

section \<open>Directory entries\<close>

lemma entry_copy_to:
  assumes "0 \<notin> set x" and "m = min n 32" and "m \<le> length buf" and "i \<le> length x" and "i < m"
  shows "entry_copy (x @ 0 # z) (int n) i (take i x @ drop i buf)
    = Some (if length x < m then (False, length x, x @ drop (length x) buf) else (True, m, take m x @ drop m buf))"
  using assms(4,5)
proof (induction "length x - i" arbitrary: i)
  case 0
  then have "i = length x" by simp
  then show ?case using 0 by (subst entry_copy.simps) simp
next
  case (Suc d)
  then have i: "i < length x" and b: "i < length buf" using assms(3) by auto
  then have l: "length (take i x) = i" "x ! i \<noteq> 0" using assms(1) by (auto simp: in_set_conv_nth)
  have "arr (x @ 0 # z) i = Some (x ! i)" using i by (simp add: arr_def nth_append)
  moreover have "aset (take i x @ drop i buf) (int i) (x ! i) = Some (take (Suc i) x @ drop (Suc i) buf)"
    using aset_middle [of "take i x" "buf ! i" "drop (Suc i) buf"] l(1) i b by (simp add: Cons_nth_drop_Suc take_Suc_conv_app_nth)
  ultimately have e: "entry_copy (x @ 0 # z) (int n) i (take i x @ drop i buf) = (if Suc i = m then Some (True, m, take m x @ drop m buf)
      else entry_copy (x @ 0 # z) (int n) (Suc i) (take (Suc i) x @ drop (Suc i) buf))"
    using l(2) Suc.prems(2) assms(2) by (subst entry_copy.simps) (auto simp: min_def)
  show ?case
  proof (cases "Suc i = m")
    case False
    then show ?thesis unfolding e using Suc.hyps(1) [of "Suc i"] Suc.hyps(2) Suc.prems i by simp
  qed (use e i in simp)
qed

lemma entry_pad_to:
  assumes "m = min n 32" and "m \<le> length buf" and "length y \<le> m"
  shows "entry_pad (int n) (length y) (y @ drop (length y) buf) = Some (m, y @ replicate (m - length y) 0 @ drop m buf)"
  using assms(3)
proof (induction "m - length y" arbitrary: y)
  case 0
  then show ?case using assms(1) by (subst entry_pad.simps) auto
next
  case (Suc d)
  then have l: "length y < m" by simp
  then have "aset (y @ drop (length y) buf) (int (length y)) 0 = Some ((y @ [0]) @ drop (length (y @ [0])) buf)"
    using aset_middle [of y "buf ! length y" "drop (Suc (length y)) buf"] assms(2) by (simp add: Cons_nth_drop_Suc)
  moreover have "m - length y = Suc (m - length (y @ [0]))" using l by simp
  ultimately show ?case using Suc.hyps(1) [of "y @ [0]"] Suc.hyps(2) l assms(1) by (subst entry_pad.simps) simp
qed

text \<open>A directory entry: the name, cut or padded with NULs to 32 bytes.\<close>

definition entry_bytes :: "u8 list \<Rightarrow> u8 list" where
  "entry_bytes x = take 32 (x @ replicate 32 0)"

lemma length_entry_bytes [simp]: "length (entry_bytes x) = 32"
  by (simp add: entry_bytes_def)

lemma emulate_read_entry:
  assumes "dir k = Some d" and "dir_fd k = fd" and "readdir L d (world k) = (Some (x @ 0 # z), w)" and "0 \<notin> set x" and "0 < n" and "n \<le> length buf"
  shows "emulate_read L fd buf (int n) k = Some (int (min n 32), take n (entry_bytes x) @ drop (min n 32) buf, k\<lparr>world := w\<rparr>)"
proof -
  let ?m = "min n 32"
  have m: "?m \<le> length buf" "0 < ?m" using assms by auto
  have c: "entry_copy (x @ 0 # z) (int n) 0 buf = Some (if length x < ?m then (False, length x, x @ drop (length x) buf) else (True, ?m, take ?m x @ drop ?m buf))"
    using entry_copy_to [OF assms(4) refl m(1), of 0 z] m(2) by simp
  show ?thesis
  proof (cases "length x < ?m")
    case True
    then have "take n (entry_bytes x) = x @ replicate (?m - length x) 0" by (simp add: entry_bytes_def min_def)
    then show ?thesis using assms(1-3) c entry_pad_to [OF refl m(1), of x] True by (simp add: emulate_read_def)
  next
    case False
    then have "take n (entry_bytes x) = take ?m x" by (auto simp: entry_bytes_def min_def split: if_splits)
    moreover have "entry_copy (x @ 0 # z) (int n) 0 buf = Some (True, ?m, take ?m x @ drop ?m buf)" using c by (simp only: False if_False)
    ultimately show ?thesis using assms(1-3) by (simp add: emulate_read_def)
  qed
qed

section \<open>What Linux promises\<close>

text \<open>
  The documented behaviour of Linux that the emulation relies on, in terms of the view \<open>V\<close> of its state: \<open>calm\<close> states in which the process has its
  standard output, \<open>produces F xs w w'\<close> says that \<open>xs\<close> was written and only the descriptors in \<open>F\<close> were used (-1 for the directory streams), \<open>used\<close>
  are the open descriptors, \<open>file_at\<close> and \<open>stream_at\<close> say what is left to be read, \<open>has_file\<close>, \<open>has_dir\<close> and \<open>lacks\<close> what an open finds.
\<close>

record ('w, 'd) view =
  calm :: "'w \<Rightarrow> bool"
  produces :: "int set \<Rightarrow> u8 list \<Rightarrow> 'w \<Rightarrow> 'w \<Rightarrow> bool"
  used :: "'w \<Rightarrow> int \<Rightarrow> bool"
  file_at :: "'w \<Rightarrow> int \<Rightarrow> u8 list \<Rightarrow> bool"
  stream_at :: "'w \<Rightarrow> 'd \<Rightarrow> u8 list list \<Rightarrow> bool"
  has_file :: "'w \<Rightarrow> u8 list \<Rightarrow> u8 list \<Rightarrow> bool"
  has_dir :: "'w \<Rightarrow> u8 list list \<Rightarrow> bool"
  lacks :: "'w \<Rightarrow> u8 list \<Rightarrow> bool"

text \<open>The most that Linux transfers in one call.\<close>

abbreviation TRANSFER :: nat where
  "TRANSFER \<equiv> 0x7FFFF000"

definition output_laws :: "('w, 'd) view \<Rightarrow> bool" where
  "output_laws V \<longleftrightarrow>
     (\<forall>F w. calm V w \<longrightarrow> produces V F [] w w)
   \<and> (\<forall>F xs ys w w' w''. produces V F xs w w' \<longrightarrow> produces V F ys w' w'' \<longrightarrow> produces V F (xs @ ys) w w'')
   \<and> (\<forall>F G xs w w'. produces V F xs w w' \<longrightarrow> F \<subseteq> G \<longrightarrow> produces V G xs w w')
   \<and> (\<forall>F xs w w'. produces V F xs w w' \<longrightarrow> calm V w')
   \<and> (\<forall>F xs w w' fd. produces V F xs w w' \<longrightarrow> fd \<notin> F \<longrightarrow> used V w fd \<longrightarrow> used V w' fd)
   \<and> (\<forall>F xs w w' fd bs. produces V F xs w w' \<longrightarrow> fd \<notin> F \<longrightarrow> file_at V w fd bs \<longrightarrow> file_at V w' fd bs)
   \<and> (\<forall>F xs w w' d ns. produces V F xs w w' \<longrightarrow> -1 \<notin> F \<longrightarrow> stream_at V w d ns \<longrightarrow> stream_at V w' d ns)
   \<and> (\<forall>xs w w' ys bs. produces V {} xs w w' \<longrightarrow> has_file V w ys bs \<longrightarrow> has_file V w' ys bs)
   \<and> (\<forall>xs w w' ys. produces V {} xs w w' \<longrightarrow> lacks V w ys \<longrightarrow> lacks V w' ys)"

definition descriptor_laws :: "('w, 'd) linux \<Rightarrow> ('w, 'd) view \<Rightarrow> bool" where
  "descriptor_laws L V \<longleftrightarrow>
     (\<forall>w xs ys. calm V w \<longrightarrow> length xs \<le> TRANSFER \<longrightarrow> (\<exists>w'. linux_write L 1 (xs @ ys) (int (length xs)) w = Some (of_nat (length xs), w') \<and> produces V {} xs w w'))
   \<and> (\<forall>w fd bs buf n. calm V w \<longrightarrow> file_at V w fd bs \<longrightarrow> n \<le> length buf \<longrightarrow> n \<le> TRANSFER \<longrightarrow>
        (\<exists>w'. linux_read L fd buf (int n) w = Some (of_nat (min n (length bs)), take n bs @ drop (min n (length bs)) buf, w')
          \<and> produces V {fd} [] w w' \<and> file_at V w' fd (drop n bs)))
   \<and> (\<forall>w xs bs ys. calm V w \<longrightarrow> has_file V w xs bs \<longrightarrow> (\<exists>fd w'. linux_open L (xs @ 0 # ys) w = Some (word_of_int fd, w') \<and> 2 \<le> fd \<and> fd < 0x40000000
        \<and> \<not> used V w fd \<and> produces V {fd} [] w w' \<and> file_at V w' fd bs))
   \<and> (\<forall>w xs ys. calm V w \<longrightarrow> lacks V w xs \<longrightarrow> (\<exists>e w'. linux_open L (xs @ 0 # ys) w = Some (e, w') \<and> e > 0xFFFFC000 \<and> produces V {} [] w w'))"

definition stream_laws :: "('w, 'd) linux \<Rightarrow> ('w, 'd) view \<Rightarrow> bool" where
  "stream_laws L V \<longleftrightarrow>
     (\<forall>w ns. calm V w \<longrightarrow> has_dir V w ns \<longrightarrow> (\<exists>d w1 fd w2. opendir L ''.'' w = (Some d, w1) \<and> produces V {-1} [] w w1 \<and> stream_at V w1 d ns
        \<and> libc_open L ''/dev/null'' False w1 = (fd, w2) \<and> 2 \<le> fd \<and> \<not> used V w1 fd \<and> used V w2 fd \<and> produces V {fd} [] w1 w2))
   \<and> (\<forall>w d. calm V w \<longrightarrow> stream_at V w d [] \<longrightarrow> (\<exists>w'. readdir L d w = (None, w') \<and> produces V {-1} [] w w' \<and> stream_at V w' d []))
   \<and> (\<forall>w d x ns. calm V w \<longrightarrow> stream_at V w d (x # ns) \<longrightarrow> (\<exists>z w'. readdir L d w = (Some (x @ 0 # z), w') \<and> 0 \<notin> set x \<and> produces V {-1} [] w w' \<and> stream_at V w' d ns))"

definition linux_laws :: "('w, 'd) linux \<Rightarrow> ('w, 'd) view \<Rightarrow> bool" where
  "linux_laws L V \<longleftrightarrow> output_laws V \<and> descriptor_laws L V \<and> stream_laws L V"

section \<open>The emulation provides the interface\<close>

text \<open>The emulation is between two calls of the program, with the directory stream, if any, under a descriptor that Linux has open.\<close>

definition emu_ok :: "('w, 'd) view \<Rightarrow> ('w, 'd) emulation \<Rightarrow> bool" where
  "emu_ok V k \<longleftrightarrow> calm V (world k) \<and> (dir k \<noteq> None \<longrightarrow> 2 \<le> dir_fd k \<and> used V (world k) (dir_fd k))"

definition emu_emits :: "('w, 'd) view \<Rightarrow> int set \<Rightarrow> u8 list \<Rightarrow> ('w, 'd) emulation \<Rightarrow> ('w, 'd) emulation \<Rightarrow> bool" where
  "emu_emits V F xs k k' \<longleftrightarrow> produces V F xs (world k) (world k') \<and> emu_ok V k' \<and> argv k' = argv k
     \<and> (dir k' = dir k \<and> dir_fd k' = dir_fd k \<or> -1 \<in> F \<and> dir_fd k' \<in> F)"

definition emu_file_at :: "('w, 'd) view \<Rightarrow> ('w, 'd) emulation \<Rightarrow> int \<Rightarrow> u8 list \<Rightarrow> bool" where
  "emu_file_at V k fd bs \<longleftrightarrow> file_at V (world k) fd bs \<and> \<not> is_dir fd k"

definition emu_dir_at :: "('w, 'd) view \<Rightarrow> ('w, 'd) emulation \<Rightarrow> int \<Rightarrow> u8 list list \<Rightarrow> bool" where
  "emu_dir_at V k fd es \<longleftrightarrow> (\<exists>d ns. dir k = Some d \<and> dir_fd k = fd \<and> stream_at V (world k) d ns \<and> es = map entry_bytes ns)"

definition emu_named :: "('w, 'd) view \<Rightarrow> ('w, 'd) emulation \<Rightarrow> u8 list \<Rightarrow> u8 list \<Rightarrow> bool" where
  "emu_named V k xs bs \<longleftrightarrow> has_file V (world k) xs bs \<and> 0 \<notin> set xs \<and> xs \<noteq> lit ''.''"

definition emu_listed :: "('w, 'd) view \<Rightarrow> ('w, 'd) emulation \<Rightarrow> u8 list list \<Rightarrow> bool" where
  "emu_listed V k es \<longleftrightarrow> (\<exists>ns. has_dir V (world k) ns \<and> es = map entry_bytes ns)"

definition emu_absent :: "('w, 'd) view \<Rightarrow> ('w, 'd) emulation \<Rightarrow> u8 list \<Rightarrow> bool" where
  "emu_absent V k xs \<longleftrightarrow> lacks V (world k) xs \<and> xs \<noteq> lit ''.''"

definition emu_argument :: "('w, 'd) emulation \<Rightarrow> u8 list \<Rightarrow> bool" where
  "emu_argument k xs \<longleftrightarrow> xs \<noteq> [] \<and> (\<exists>p as. argv k = p # map (\<lambda>a. a @ [0]) as \<and> (\<forall>a \<in> set as. 0 \<notin> set a) \<and> xs = join as)"

lemma emulated_simps [simp]:
  "ece391_read (emulated L b st0) = emulate_read L" "ece391_write (emulated L b st0) = emulate_write L" "ece391_open (emulated L b st0) = emulate_open L"
  "ece391_close (emulated L b st0) = emulate_close L" "ece391_getargs (emulated L b st0) = emulate_getargs" "ece391_execute (emulated L b st0) = emulate_execute L b st0"
  by (simp_all add: emulated_def)

lemma linux_result_int: "0 \<le> i \<Longrightarrow> i < 0x80000000 \<Longrightarrow> linux_result (word_of_int i) = i \<and> (word_of_int i :: u32) \<le> 0xFFFFC000"
  by (simp add: linux_result_def word_le_def uint_word_of_int_eq take_bit_int_eq_self sint_sbintrunc' signed_take_bit_int_eq_self_iff)

lemma linux_result_nat: "n < 0x80000000 \<Longrightarrow> linux_result (of_nat n) = int n"
  using linux_result_int [of "int n"] by simp

lemma linux_lawsD:
  assumes "linux_laws L V"
  shows laws_refl: "calm V w \<Longrightarrow> produces V F [] w w"
    and laws_trans: "produces V F xs w w' \<Longrightarrow> produces V F ys w' w'' \<Longrightarrow> produces V F (xs @ ys) w w''"
    and laws_mono: "produces V F xs w w' \<Longrightarrow> F \<subseteq> G \<Longrightarrow> produces V G xs w w'"
    and laws_calm: "produces V F xs w w' \<Longrightarrow> calm V w'"
    and laws_used: "produces V F xs w w' \<Longrightarrow> fd \<notin> F \<Longrightarrow> used V w fd \<Longrightarrow> used V w' fd"
    and laws_file: "produces V F xs w w' \<Longrightarrow> fd \<notin> F \<Longrightarrow> file_at V w fd bs \<Longrightarrow> file_at V w' fd bs"
    and laws_stream: "produces V F xs w w' \<Longrightarrow> -1 \<notin> F \<Longrightarrow> stream_at V w d ns \<Longrightarrow> stream_at V w' d ns"
    and laws_has_file: "produces V {} xs w w' \<Longrightarrow> has_file V w ys bs \<Longrightarrow> has_file V w' ys bs"
    and laws_lacks: "produces V {} xs w w' \<Longrightarrow> lacks V w ys \<Longrightarrow> lacks V w' ys"
proof -
  from assms have "output_laws V" by (simp add: linux_laws_def)
  note o1 = this [unfolded output_laws_def]
  note o2 = o1 [THEN conjunct2]
  note o3 = o2 [THEN conjunct2]
  note o4 = o3 [THEN conjunct2]
  note o5 = o4 [THEN conjunct2]
  note o6 = o5 [THEN conjunct2]
  note o7 = o6 [THEN conjunct2]
  note o8 = o7 [THEN conjunct2]
  show "calm V w \<Longrightarrow> produces V F [] w w" using o1 [THEN conjunct1] by blast
  show "produces V F xs w w' \<Longrightarrow> produces V F ys w' w'' \<Longrightarrow> produces V F (xs @ ys) w w''" using o2 [THEN conjunct1] by blast
  show "produces V F xs w w' \<Longrightarrow> F \<subseteq> G \<Longrightarrow> produces V G xs w w'" using o3 [THEN conjunct1] by blast
  show "produces V F xs w w' \<Longrightarrow> calm V w'" using o4 [THEN conjunct1] by blast
  show "produces V F xs w w' \<Longrightarrow> fd \<notin> F \<Longrightarrow> used V w fd \<Longrightarrow> used V w' fd" using o5 [THEN conjunct1] by blast
  show "produces V F xs w w' \<Longrightarrow> fd \<notin> F \<Longrightarrow> file_at V w fd bs \<Longrightarrow> file_at V w' fd bs" using o6 [THEN conjunct1] by blast
  show "produces V F xs w w' \<Longrightarrow> -1 \<notin> F \<Longrightarrow> stream_at V w d ns \<Longrightarrow> stream_at V w' d ns" using o7 [THEN conjunct1] by blast
  show "produces V {} xs w w' \<Longrightarrow> has_file V w ys bs \<Longrightarrow> has_file V w' ys bs" using o8 [THEN conjunct1] by blast
  show "produces V {} xs w w' \<Longrightarrow> lacks V w ys \<Longrightarrow> lacks V w' ys" using o8 [THEN conjunct2] by blast
qed

lemma linux_descriptorsD:
  assumes "linux_laws L V" and "calm V w"
  shows laws_write: "length xs \<le> TRANSFER \<Longrightarrow> \<exists>w'. linux_write L 1 (xs @ ys) (int (length xs)) w = Some (of_nat (length xs), w') \<and> produces V {} xs w w'"
    and laws_read: "file_at V w fd bs \<Longrightarrow> n \<le> length buf \<Longrightarrow> n \<le> TRANSFER \<Longrightarrow>
        \<exists>w'. linux_read L fd buf (int n) w = Some (of_nat (min n (length bs)), take n bs @ drop (min n (length bs)) buf, w')
          \<and> produces V {fd} [] w w' \<and> file_at V w' fd (drop n bs)"
    and laws_open: "has_file V w xs bs \<Longrightarrow> \<exists>fd w'. linux_open L (xs @ 0 # ys) w = Some (word_of_int fd, w') \<and> 2 \<le> fd \<and> fd < 0x40000000
        \<and> \<not> used V w fd \<and> produces V {fd} [] w w' \<and> file_at V w' fd bs"
    and laws_open_lacks: "lacks V w xs \<Longrightarrow> \<exists>e w'. linux_open L (xs @ 0 # ys) w = Some (e, w') \<and> e > 0xFFFFC000 \<and> produces V {} [] w w'"
proof -
  from assms(1) have "descriptor_laws L V" by (simp add: linux_laws_def)
  note d1 = this [unfolded descriptor_laws_def]
  note d2 = d1 [THEN conjunct2] and d3 = d1 [THEN conjunct2, THEN conjunct2]
  show "length xs \<le> TRANSFER \<Longrightarrow> \<exists>w'. linux_write L 1 (xs @ ys) (int (length xs)) w = Some (of_nat (length xs), w') \<and> produces V {} xs w w'"
    using d1 [THEN conjunct1] assms(2) by blast
  show "file_at V w fd bs \<Longrightarrow> n \<le> length buf \<Longrightarrow> n \<le> TRANSFER \<Longrightarrow>
        \<exists>w'. linux_read L fd buf (int n) w = Some (of_nat (min n (length bs)), take n bs @ drop (min n (length bs)) buf, w')
          \<and> produces V {fd} [] w w' \<and> file_at V w' fd (drop n bs)"
    using d2 [THEN conjunct1] assms(2) by blast
  show "has_file V w xs bs \<Longrightarrow> \<exists>fd w'. linux_open L (xs @ 0 # ys) w = Some (word_of_int fd, w') \<and> 2 \<le> fd \<and> fd < 0x40000000
        \<and> \<not> used V w fd \<and> produces V {fd} [] w w' \<and> file_at V w' fd bs" using d3 [THEN conjunct1] assms(2) by blast
  show "lacks V w xs \<Longrightarrow> \<exists>e w'. linux_open L (xs @ 0 # ys) w = Some (e, w') \<and> e > 0xFFFFC000 \<and> produces V {} [] w w'"
    using d3 [THEN conjunct2] assms(2) by blast
qed

text \<open>A call that leaves the variables of the emulation alone.\<close>

lemma emu_emits_world:
  assumes L: "linux_laws L V" and k: "emu_ok V k" and p: "produces V F xs (world k) w" and F: "dir k = None \<or> dir_fd k \<notin> F"
  shows "emu_emits V F xs k (k\<lparr>world := w\<rparr>)"
  using k p F laws_calm [OF L p] laws_used [OF L p, of "dir_fd k"] by (auto simp: emu_emits_def emu_ok_def)

lemma emu_write:
  assumes L: "linux_laws L V" and k: "emu_ok V k" and n: "length xs + length ys \<le> TRANSFER"
  shows "\<exists>k'. emulate_write L 1 (xs @ ys) (int (length xs)) k = Some (int (length xs), k') \<and> emu_emits V {} xs k k'"
proof -
  have "calm V (world k)" "\<not> is_dir 1 k" using k by (auto simp: emu_ok_def is_dir_def)
  moreover obtain w where w: "linux_write L 1 (xs @ ys) (int (length xs)) (world k) = Some (of_nat (length xs), w)" "produces V {} xs (world k) w"
    using laws_write [OF L \<open>calm V (world k)\<close>, of xs ys] n by auto
  moreover have "linux_result (of_nat (length xs)) = int (length xs)" by (rule linux_result_nat) (use n in simp)
  ultimately show ?thesis using emu_emits_world [OF L k w(2)] by (auto simp: emulate_write_def raw_write_def)
qed

lemma emu_read_file:
  assumes L: "linux_laws L V" and k: "emu_ok V k" and f: "emu_file_at V k fd bs" and n: "n \<le> length buf" "length buf \<le> TRANSFER"
  shows "\<exists>k'. emulate_read L fd buf (int n) k = Some (int (min n (length bs)), take n bs @ drop (min n (length bs)) buf, k')
    \<and> emu_emits V {fd} [] k k' \<and> emu_file_at V k' fd (drop n bs)"
proof -
  have c: "calm V (world k)" "file_at V (world k) fd bs" "\<not> is_dir fd k" using k f by (auto simp: emu_ok_def emu_file_at_def)
  obtain w where w: "linux_read L fd buf (int n) (world k) = Some (of_nat (min n (length bs)), take n bs @ drop (min n (length bs)) buf, w)"
    "produces V {fd} [] (world k) w" "file_at V w fd (drop n bs)"
    using laws_read [OF L c(1,2) n(1)] n by auto
  have "linux_result (of_nat (min n (length bs))) = int (min n (length bs))" by (rule linux_result_nat) (use n in simp)
  then have "emulate_read L fd buf (int n) k = Some (int (min n (length bs)), take n bs @ drop (min n (length bs)) buf, k\<lparr>world := w\<rparr>)"
    using w(1) c(3) by (auto simp: emulate_read_def raw_read_def is_dir_def split: option.splits)
  moreover have "emu_emits V {fd} [] k (k\<lparr>world := w\<rparr>)" by (rule emu_emits_world [OF L k w(2)]) (use c(3) in \<open>auto simp: is_dir_def\<close>)
  ultimately show ?thesis using w(3) c(3) by (auto simp: emu_file_at_def is_dir_def)
qed

lemma emu_read_dir:
  assumes L: "linux_laws L V" and k: "emu_ok V k" and f: "emu_dir_at V k fd es" and n: "32 \<le> n" "n \<le> length buf"
  shows "case es of [] \<Rightarrow> \<exists>k'. emulate_read L fd buf (int n) k = Some (0, buf, k') \<and> emu_emits V {fd, -1} [] k k' \<and> emu_dir_at V k' fd []
    | x # es \<Rightarrow> length x \<le> 32 \<and> (\<exists>k'. emulate_read L fd buf (int n) k = Some (int (length x), x @ drop (length x) buf, k')
        \<and> emu_emits V {fd, -1} [] k k' \<and> emu_dir_at V k' fd es)"
proof -
  from f obtain d ns where d: "dir k = Some d" "dir_fd k = fd" "stream_at V (world k) d ns" "es = map entry_bytes ns" by (auto simp: emu_dir_at_def)
  have c: "calm V (world k)" "2 \<le> fd" using k d by (auto simp: emu_ok_def)
  have e: "emu_emits V {fd, -1} [] k (k\<lparr>world := w\<rparr>)" if p: "produces V {-1} [] (world k) w" for w
    using emu_emits_world [OF L k p] d c(2) laws_mono [OF L p, of "{fd, -1}"] by (auto simp: emu_emits_def)
  show ?thesis
  proof (cases ns)
    case Nil
    obtain w where w: "readdir L d (world k) = (None, w)" "produces V {-1} [] (world k) w" "stream_at V w d []"
      using L c(1) d(3) Nil unfolding linux_laws_def stream_laws_def by blast
    have "emulate_read L fd buf (int n) k = Some (0, buf, k\<lparr>world := w\<rparr>)" using d w(1) by (simp add: emulate_read_def)
    then show ?thesis using e [OF w(2)] d w(3) Nil by (auto simp: emu_dir_at_def)
  next
    case (Cons x ns')
    obtain z w where w: "readdir L d (world k) = (Some (x @ 0 # z), w)" "0 \<notin> set x" "produces V {-1} [] (world k) w" "stream_at V w d ns'"
      using L c(1) d(3) Cons unfolding linux_laws_def stream_laws_def by blast
    have "emulate_read L fd buf (int n) k = Some (32, entry_bytes x @ drop 32 buf, k\<lparr>world := w\<rparr>)"
      using emulate_read_entry [OF d(1,2) w(1,2), of n buf] n by (simp add: min_def)
    then show ?thesis using e [OF w(3)] d w(4) Cons by (auto simp: emu_dir_at_def)
  qed
qed

lemma open_other:
  assumes "0 \<notin> set xs" and "xs \<noteq> lit ''.''"
  shows "emulate_open L (xs @ 0 # ys) k = do {
     (rval, w) \<leftarrow> linux_open L (xs @ 0 # ys) (world k);
     Some (if rval > 0xFFFFC000 then -1 else sint rval, k\<lparr>world := w\<rparr>)
   }"
proof -
  have "cstr_at (arr (literal ''.'')) (lit ''.'')" unfolding literal_def by (rule cstr_at_arr) (simp add: lit_def byte_of_def)
  from strcmp_decides [OF cstr_at_arr [OF assms(1)] this] assms(2) obtain d where "ece391_strcmp (arr (xs @ 0 # ys)) (arr (literal ''.'')) = Some d" "d \<noteq> 0" by blast
  then show ?thesis by (simp add: emulate_open_def)
qed

lemma open_dot: "emulate_open L (literal ''.'') k = (let (ds, w) = opendir L ''.'' (world k); (fd, w) = libc_open L ''/dev/null'' False w
       in Some (fd, k\<lparr>world := w, dir := ds, dir_fd := fd\<rparr>))"
proof -
  have c: "cstr_at (arr (literal ''.'')) (lit ''.'')" unfolding literal_def by (rule cstr_at_arr) (simp add: lit_def byte_of_def)
  from strcmp_decides [OF c c] show ?thesis by (auto simp: emulate_open_def)
qed

lemma emu_open_file:
  assumes L: "linux_laws L V" and k: "emu_ok V k" and f: "emu_named V k xs bs"
  shows "\<exists>fd k'. emulate_open L (xs @ 0 # ys) k = Some (fd, k') \<and> 2 \<le> fd \<and> emu_emits V {fd} [] k k' \<and> emu_file_at V k' fd bs"
proof -
  have c: "calm V (world k)" "has_file V (world k) xs bs" "0 \<notin> set xs" "xs \<noteq> lit ''.''" using k f by (auto simp: emu_ok_def emu_named_def)
  obtain fd w where w: "linux_open L (xs @ 0 # ys) (world k) = Some (word_of_int fd, w)" "2 \<le> fd" "fd < 0x40000000" "\<not> used V (world k) fd"
    "produces V {fd} [] (world k) w" "file_at V w fd bs" using laws_open [OF L c(1,2)] by blast
  have r: "linux_result (word_of_int fd) = fd" "(word_of_int fd :: u32) \<le> 0xFFFFC000" using linux_result_int [of fd] w(2,3) by simp_all
  then have "emulate_open L (xs @ 0 # ys) k = Some (fd, k\<lparr>world := w\<rparr>)" using w(1) by (simp add: open_other [OF c(3,4)] linux_result_def linorder_not_less [symmetric])
  moreover have u: "dir k = None \<or> dir_fd k \<noteq> fd" using k w(4) by (auto simp: emu_ok_def)
  then have "emu_emits V {fd} [] k (k\<lparr>world := w\<rparr>)" using emu_emits_world [OF L k w(5)] by auto
  ultimately show ?thesis using w(2,6) u by (auto simp: emu_file_at_def is_dir_def)
qed

lemma emu_open_absent:
  assumes L: "linux_laws L V" and k: "emu_ok V k" and f: "emu_absent V k xs" "0 \<notin> set xs"
  shows "\<exists>k'. emulate_open L (xs @ 0 # ys) k = Some (-1, k') \<and> emu_emits V {} [] k k'"
proof -
  have c: "calm V (world k)" "lacks V (world k) xs" "xs \<noteq> lit ''.''" using k f by (auto simp: emu_ok_def emu_absent_def)
  obtain e w where w: "linux_open L (xs @ 0 # ys) (world k) = Some (e, w)" "e > 0xFFFFC000" "produces V {} [] (world k) w" using laws_open_lacks [OF L c(1,2)] by blast
  then have "emulate_open L (xs @ 0 # ys) k = Some (-1, k\<lparr>world := w\<rparr>)" by (simp add: open_other [OF f(2) c(3)])
  then show ?thesis using emu_emits_world [OF L k w(3)] by auto
qed

lemma emu_open_dir:
  assumes L: "linux_laws L V" and k: "emu_ok V k" and f: "emu_listed V k es"
  shows "\<exists>fd k'. emulate_open L (literal ''.'') k = Some (fd, k') \<and> 2 \<le> fd \<and> emu_emits V {fd, -1} [] k k' \<and> emu_dir_at V k' fd es"
proof -
  from f obtain ns where ns: "has_dir V (world k) ns" "es = map entry_bytes ns" by (auto simp: emu_listed_def)
  have "calm V (world k)" using k by (simp add: emu_ok_def)
  then obtain d w1 fd w2 where w: "opendir L ''.'' (world k) = (Some d, w1)" "produces V {-1} [] (world k) w1" "stream_at V w1 d ns"
    "libc_open L ''/dev/null'' False w1 = (fd, w2)" "2 \<le> fd" "\<not> used V w1 fd" "used V w2 fd" "produces V {fd} [] w1 w2"
    using L ns(1) unfolding linux_laws_def stream_laws_def by blast
  let ?k = "k\<lparr>world := w2, dir := Some d, dir_fd := fd\<rparr>"
  have "produces V {fd, -1} [] (world k) w2"
    using laws_trans [OF L laws_mono [OF L w(2), of "{fd, -1}"] laws_mono [OF L w(8), of "{fd, -1}"]] by simp
  then have "emu_emits V {fd, -1} [] k ?k" using w(5,7) laws_calm [OF L w(8)] by (simp add: emu_emits_def emu_ok_def)
  moreover have "stream_at V w2 d ns" by (rule laws_stream [OF L w(8) _ w(3)]) (use w(5) in simp)
  then have "emu_dir_at V ?k fd es" using ns(2) by (auto simp: emu_dir_at_def)
  moreover have "emulate_open L (literal ''.'') k = Some (fd, ?k)" using w(1,4) by (simp add: open_dot)
  ultimately show ?thesis using w(5) by blast
qed

lemma emu_argument_read:
  assumes L: "linux_laws L V" and k: "emu_ok V k" and f: "emu_argument k xs" and n: "length xs < n" "length buf = n"
  shows "\<exists>ys k'. emulate_getargs buf (int n) k = (if xs = [] then Some (-1, buf, k') else Some (0, xs @ 0 # ys, k'))
    \<and> length xs + Suc (length ys) = n \<and> emu_emits V {} [] k k'"
proof -
  from f obtain p as where a: "xs \<noteq> []" "argv k = p # map (\<lambda>a. a @ [0]) as" "\<forall>a \<in> set as. 0 \<notin> set a" "xs = join as" by (auto simp: emu_argument_def)
  have "emulate_getargs buf (int n) k = Some (0, xs @ 0 # drop (Suc (length xs)) buf, k)" using emulate_getargs_join [OF a(2,3), of buf] a(4) n by simp
  moreover have "calm V (world k)" using k by (simp add: emu_ok_def)
  then have "emu_emits V {} [] k k" using k laws_refl [OF L] by (simp add: emu_emits_def)
  ultimately show ?thesis using a(1) n by (auto intro!: exI [of _ "drop (Suc (length xs)) buf"])
qed

text \<open>On every Linux that keeps its promises, the emulation keeps the laws of the system calls.\<close>

lemma emulated_terminal:
  assumes L: "linux_laws L V"
  shows "terminal_calls (emulated L b st0) (emu_ok V) (emu_emits V) TRANSFER"
proof
  fix F G xs ys k k' k''
  show "emu_ok V k \<Longrightarrow> emu_emits V F [] k k" using laws_refl [OF L] by (simp add: emu_emits_def emu_ok_def)
  show "emu_emits V F xs k k' \<Longrightarrow> emu_emits V F ys k' k'' \<Longrightarrow> emu_emits V F (xs @ ys) k k''" using laws_trans [OF L] by (auto simp: emu_emits_def)
  show "emu_emits V F xs k k' \<Longrightarrow> F \<subseteq> G \<Longrightarrow> emu_emits V G xs k k'" using laws_mono [OF L] by (auto simp: emu_emits_def)
  show "emu_emits V F xs k k' \<Longrightarrow> emu_ok V k'" by (simp add: emu_emits_def)
  show "emu_ok V k \<Longrightarrow> 8 \<notin> set xs \<Longrightarrow> length xs + length ys \<le> TRANSFER \<Longrightarrow>
      \<exists>k'. ece391_write (emulated L b st0) 1 (xs @ ys) (int (length xs)) k = Some (int (length xs), k') \<and> emu_emits V {} xs k k'"
    using emu_write [OF L] by simp
qed

lemma emulated_files:
  assumes L: "linux_laws L V"
  shows "file_calls (emulated L b st0) (emu_ok V) (emu_emits V) TRANSFER (emu_file_at V) (emu_dir_at V) (emu_named V) (emu_listed V) (emu_absent V) emu_argument"
proof (intro file_calls.intro emulated_terminal [OF L] file_calls_axioms.intro)
  fix F xs ys bs fd k k' ns
  show "emu_emits V F xs k k' \<Longrightarrow> fd \<notin> F \<Longrightarrow> emu_file_at V k fd bs \<Longrightarrow> emu_file_at V k' fd bs"
    using laws_file [OF L] by (auto simp: emu_emits_def emu_file_at_def is_dir_def)
  show "emu_emits V F xs k k' \<Longrightarrow> fd \<notin> F \<Longrightarrow> -1 \<notin> F \<Longrightarrow> emu_dir_at V k fd ns \<Longrightarrow> emu_dir_at V k' fd ns"
    using laws_stream [OF L] by (fastforce simp: emu_emits_def emu_dir_at_def)
  show "emu_emits V {} xs k k' \<Longrightarrow> emu_named V k ys bs \<Longrightarrow> emu_named V k' ys bs" using laws_has_file [OF L] by (auto simp: emu_emits_def emu_named_def)
  show "emu_emits V {} xs k k' \<Longrightarrow> emu_absent V k ys \<Longrightarrow> emu_absent V k' ys" using laws_lacks [OF L] by (auto simp: emu_emits_def emu_absent_def)
  show "emu_ok V k \<Longrightarrow> emu_absent V k xs \<Longrightarrow> 0 \<notin> set xs \<Longrightarrow> length xs + length ys < TRANSFER \<Longrightarrow>
      \<exists>k'. ece391_open (emulated L b st0) (xs @ 0 # ys) k = Some (-1, k') \<and> emu_emits V {} [] k k'" using emu_open_absent [OF L] by simp
qed (simp_all only: emulated_simps emu_read_file [OF L] emu_read_dir [OF L] emu_open_file [OF L] emu_open_dir [OF L] emu_argument_read [OF L])

section \<open>A small Linux\<close>

text \<open>A concrete system that keeps the promises: one directory with a file \<open>hi\<close>, descriptors that are never reused.\<close>

record box =
  box_out :: "u8 list"
  box_fds :: "int \<Rightarrow> u8 list option"
  box_next :: int
  box_names :: "u8 list list"

definition box_files :: "(u8 list \<times> u8 list) list" where
  "box_files = [(lit ''hi'', lit ''hello'')]"

definition box_dir :: "u8 list list" where
  "box_dir = [lit ''.'', lit ''hi'']"

definition box_open :: "u8 list \<Rightarrow> box \<Rightarrow> int \<times> box" where
  "box_open bs w = (box_next w, w\<lparr>box_fds := (box_fds w)(box_next w := Some bs), box_next := box_next w + 1\<rparr>)"

definition box_linux :: "(box, unit) linux" where
  "box_linux = \<lparr>
     linux_read = (\<lambda>fd buf n w. case box_fds w fd of
         Some bs \<Rightarrow> Some (of_nat (min (nat n) (length bs)), take (nat n) bs @ drop (min (nat n) (length bs)) buf, w\<lparr>box_fds := (box_fds w)(fd := Some (drop (nat n) bs))\<rparr>)
       | None \<Rightarrow> Some (-9, buf, w)),
     linux_write = (\<lambda>fd buf n w. if fd = 1 then Some (word_of_int n, w\<lparr>box_out := box_out w @ take (nat n) buf\<rparr>) else Some (-9, w)),
     linux_close = (\<lambda>fd w. if box_fds w fd = None then Some (-9, w) else Some (0, w\<lparr>box_fds := (box_fds w)(fd := None)\<rparr>)),
     linux_open = (\<lambda>name w. case map_of box_files (text_at name 0) of Some bs \<Rightarrow> (let (fd, w) = box_open bs w in Some (word_of_int fd, w)) | None \<Rightarrow> Some (-2, w)),
     libc_open = (\<lambda>name rw w. if name = ''/dev/null'' then box_open [] w else (-1, w)),
     libc_close = (\<lambda>fd w. w\<lparr>box_fds := (box_fds w)(fd := None)\<rparr>),
     opendir = (\<lambda>name w. (Some (), w\<lparr>box_names := box_dir\<rparr>)),
     readdir = (\<lambda>d w. case box_names w of [] \<Rightarrow> (None, w) | x # ns \<Rightarrow> (Some (x @ [0]), w\<lparr>box_names := ns\<rparr>)),
     closedir = (\<lambda>d w. w),
     mmap = (\<lambda>fd w. (None, w)),
     perror = (\<lambda>msg w. w),
     fork = (\<lambda>w. (1, w)),
     linux_number = (\<lambda>n w. Some (-38, w)),
     execv = (\<lambda>path args w. Some (if path = lit ''./true'' then Some 0 else None, w))\<rparr>"

definition box_view :: "(box, unit) view" where
  "box_view = \<lparr>
     calm = (\<lambda>w. 3 \<le> box_next w \<and> (\<forall>fd \<ge> box_next w. box_fds w fd = None)),
     produces = (\<lambda>F xs w w'. box_out w' = box_out w @ xs \<and> 3 \<le> box_next w' \<and> (\<forall>fd \<ge> box_next w'. box_fds w' fd = None)
       \<and> (\<forall>fd bs. fd \<notin> F \<longrightarrow> box_fds w fd = Some bs \<longrightarrow> box_fds w' fd = Some bs) \<and> (-1 \<notin> F \<longrightarrow> box_names w' = box_names w) \<and> (F = {} \<longrightarrow> box_next w' = box_next w)),
     used = (\<lambda>w fd. box_fds w fd \<noteq> None),
     file_at = (\<lambda>w fd bs. box_fds w fd = Some bs),
     stream_at = (\<lambda>w d ns. box_names w = ns \<and> (\<forall>x \<in> set ns. 0 \<notin> set x)),
     has_file = (\<lambda>w xs bs. map_of box_files xs = Some bs \<and> box_next w < 0x40000000),
     has_dir = (\<lambda>w ns. ns = box_dir),
     lacks = (\<lambda>w xs. map_of box_files xs = None \<and> 0 \<notin> set xs)\<rparr>"

lemma box_output: "output_laws box_view"
  by (auto simp: output_laws_def box_view_def)

lemma box_streams: "stream_laws box_linux box_view"
  by (auto simp: stream_laws_def box_view_def box_linux_def box_open_def box_dir_def lit_def byte_of_def)

lemma box_text: "map_of box_files xs = Some bs \<Longrightarrow> text_at (xs @ 0 # ys) 0 = xs"
  using text_at_middle [of xs "[]" ys] by (auto simp: box_files_def lit_def byte_of_def split: if_splits)

lemma box_descriptors: "descriptor_laws box_linux box_view"
proof -
  have "text_at (xs @ 0 # ys) 0 = xs" if "0 \<notin> set xs" for xs ys using text_at_middle [OF that, of "[]" ys] by simp
  then show ?thesis by (auto simp: descriptor_laws_def box_view_def box_linux_def box_open_def box_text)
qed

lemma box_laws: "linux_laws box_linux box_view"
  by (simp add: linux_laws_def box_output box_descriptors box_streams)

section \<open>Properties of the emulation\<close>

lemma child_result_exit: "child_result (push_bit 8 (ucast (e :: u8))) = uint e"
proof -
  have "(push_bit 8 (ucast e) :: u32) AND mask 7 = 0" by (rule bit_word_eqI) (auto simp: bit_simps)
  then have "(push_bit 8 (ucast e) :: u32) AND 0x7F = 0" by (simp add: mask_eq_exp_minus_1)
  moreover have "drop_bit 8 ((push_bit 8 (ucast e) :: u32) AND push_bit 8 (mask 8)) = ucast e"
    by (rule bit_word_eqI) (auto simp: bit_simps dest: bit_imp_le_length)
  moreover have "(push_bit 8 (mask 8) :: u32) = 0xFF00" by code_simp
  ultimately show ?thesis by (simp add: child_result_def WIFEXITED_def WEXITSTATUS_def uint_up_ucast is_up)
qed

lemma child_result_signal: "sig AND 0x7F \<noteq> 0 \<Longrightarrow> child_result sig = (if sig AND 0x7F = 9 then -1 else 256)"
  by (auto simp: child_result_def WIFEXITED_def WTERMSIG_def)

text \<open>
  Claim C15. \<open>ece391_execute\<close> of the emulation runs the command: for every command of at most 1023 characters, the parser that works in the buffer in
  place ends, stays within \<open>buf\<close> and \<open>args\<close>, and starts the program \<open>./\<close> followed by the first word with exactly the words of the command as
  arguments; the result is the exit status of the program, -1 when it cannot be started, and 256 when another signal than 9 ends it. A longer
  command is refused with -1.
\<close>

theorem emulate_execute_runs:
  assumes "0 \<notin> set xs" and "length buf = 1026" and "fork L (world k) = (pid, w)" and "0 < pid"
    and "execv L (lit ''./'' @ program_word xs) ((lit ''./'' @ program_word xs) # command_args xs) w = Some (st, w')"
  shows "emulate_execute L buf st0 (xs @ 0 # ys) k =
      (if length xs \<le> 1023 then Some (case st of None \<Rightarrow> -1 | Some st \<Rightarrow> child_result st, k\<lparr>world := w'\<rparr>) else Some (-1, k))
    \<and> child_result (push_bit 8 (ucast (e :: u8))) = uint e
    \<and> (sig AND 0x7F \<noteq> 0 \<longrightarrow> child_result sig = (if sig AND 0x7F = 9 then -1 else 256))"
proof -
  have "run_child L st0 (lit ''./'' @ program_word xs) ((lit ''./'' @ program_word xs) # command_args xs) (world k) = Some (case st of None \<Rightarrow> 9 | Some st \<Rightarrow> st, w')"
    using assms(3-) by (simp add: run_child_def option.case_eq_if)
  moreover have "child_result 9 = -1" by code_simp
  ultimately show ?thesis unfolding emulate_execute_eq [OF assms(1,2)]
    using child_result_exit [of e] child_result_signal [of sig] by (auto split: option.split)
qed

text \<open>
  Claim C16. Arguments come through: a command \<open>p a1 a2 \<dots>\<close> with single spaces is executed with the arguments \<open>a1\<close>, \<open>a2\<close>, \<dots>, and \<open>ece391_getargs\<close> in the program
  started with them delivers the text after the first space again, when the buffer has room for it and its NUL.
\<close>

theorem emulate_arguments_round_trip:
  assumes "\<forall>a \<in> set as. a \<noteq> [] \<and> (\<forall>c \<in> set a. c \<noteq> 0 \<and> \<not> separator c)" and "\<forall>c \<in> set p. c \<noteq> 0 \<and> \<not> separator c" and "length p + length (join as) < 1023"
    and "length buf = 1026" and "length (join as) < length abuf"
  shows "emulate_execute L buf st0 (p @ 32 # join as @ 0 # ys) k
      = map_option (\<lambda>(st, w). (child_result st, k\<lparr>world := w\<rparr>)) (run_child L st0 (lit ''./'' @ p) ((lit ''./'' @ p) # as) (world k))
    \<and> emulate_getargs abuf (int (length abuf)) (emulation_start (map (\<lambda>a. a @ [0]) ((lit ''./'' @ p) # as)) ptrs w)
      = Some (0, join as @ 0 # drop (Suc (length (join as))) abuf, emulation_start (map (\<lambda>a. a @ [0]) ((lit ''./'' @ p) # as)) ptrs w)"
proof -
  let ?xs = "p @ 32 # join as"
  have s: "separator 32" by (simp add: separator_def)
  have "program_word ?xs = p" "dropWhile (\<lambda>c. \<not> separator c) ?xs = 32 # join as" using assms(2) s by (simp_all add: program_word_def takeWhile_tail dropWhile_append)
  moreover from this have "command_args ?xs = as" using cmd_words_join [of as] assms(1) by (simp add: command_args_def)
  moreover have "0 \<notin> set (join as)" using assms(1) by (induction as) auto
  then have "0 \<notin> set ?xs" using assms(2) by auto
  moreover have "map_option (\<lambda>(st, w). (child_result st, k\<lparr>world := w\<rparr>)) x = do { (st, w) \<leftarrow> x; Some (child_result st, k\<lparr>world := w\<rparr>) }" for x
    by (cases x) auto
  ultimately have "emulate_execute L buf st0 (?xs @ 0 # ys) k
      = map_option (\<lambda>(st, w). (child_result st, k\<lparr>world := w\<rparr>)) (run_child L st0 (lit ''./'' @ p) ((lit ''./'' @ p) # as) (world k))"
    using emulate_execute_eq [of ?xs buf L st0 ys k] assms(3,4) by simp
  moreover have "\<forall>a \<in> set as. 0 \<notin> set a" using assms(1) by auto
  ultimately show ?thesis using emulate_getargs_join [of "emulation_start (map (\<lambda>a. a @ [0]) ((lit ''./'' @ p) # as)) ptrs w" _ as abuf] assms(5)
    by (simp add: emulation_start_def)
qed

text \<open>
  Claim C17. \<open>ece391_getargs\<close> of the emulation, on a buffer of \<open>nbytes\<close> bytes: the arguments joined by spaces when they fit with their NUL; -1 when they do not, except
  that when the first arguments fill the buffer exactly, \<open>strcpy\<close> writes a NUL behind it.
\<close>

theorem emulate_getargs_result:
  assumes "argv k = p # map (\<lambda>a. a @ [0]) as" and "\<forall>a \<in> set as. 0 \<notin> set a"
  shows "if length (join as) < length buf then emulate_getargs buf (int (length buf)) k = Some (0, join as @ 0 # drop (Suc (length (join as))) buf, k)
    else if overruns as (length buf) then emulate_getargs buf (int (length buf)) k = None
    else \<exists>b. emulate_getargs buf (int (length buf)) k = Some (-1, b, k)"
  by (rule emulate_getargs_join [OF assms])

text \<open>
  Claim C14. The programs run on the emulation: on every Linux that behaves as documented, \<open>cat\<close> writes the contents of the file that its argument names, and \<open>ls\<close> writes
  the names of the directory, each cut or padded with NULs to 32 bytes and followed by a new line.
\<close>

theorem emulated_programs_run:
  assumes "linux_laws L V" and "calm V (world k)" and "dir k = None"
  shows "(argv k = p # map (\<lambda>a. a @ [0]) as \<and> (\<forall>a \<in> set as. 0 \<notin> set a) \<and> join as \<noteq> [] \<and> join as \<noteq> lit ''.'' \<and> length (join as) < 128
        \<and> has_file V (world k) (join as) bs \<and> 8 \<notin> set bs \<and> length buf = 1024 \<longrightarrow>
      (\<exists>k' fd. cat_main (emulated L b st0) buf k = Some (0, k') \<and> produces V {fd} bs (world k) (world k')))
    \<and> (has_dir V (world k) ns \<and> (\<forall>x \<in> set ns. 8 \<notin> set x) \<and> length dbuf = 33 \<longrightarrow>
      (\<exists>k' fd. ls_main (emulated L b st0) dbuf k = Some (0, k') \<and> produces V {fd, -1} (concat (map (\<lambda>x. entry_bytes x @ [10]) ns)) (world k) (world k')))"
proof (intro conjI impI)
  note F = emulated_files [OF assms(1), of b st0]
  have k: "emu_ok V k" using assms by (simp add: emu_ok_def)
  {
    assume h: "argv k = p # map (\<lambda>a. a @ [0]) as \<and> (\<forall>a \<in> set as. 0 \<notin> set a) \<and> join as \<noteq> [] \<and> join as \<noteq> lit ''.'' \<and> length (join as) < 128
        \<and> has_file V (world k) (join as) bs \<and> 8 \<notin> set bs \<and> length buf = 1024"
    have "0 \<notin> set (join as)" if "\<forall>a \<in> set as. 0 \<notin> set a" using that by (induction as) auto
    then have "emu_argument k (join as)" "emu_named V k (join as) bs" using h by (auto simp: emu_argument_def emu_named_def)
    from file_calls.cat_emits [OF F k this(1) _ _ this(2), of buf] h show "\<exists>k' fd. cat_main (emulated L b st0) buf k = Some (0, k') \<and> produces V {fd} bs (world k) (world k')"
      by (auto simp: emu_emits_def)
  }
  assume h: "has_dir V (world k) ns \<and> (\<forall>x \<in> set ns. 8 \<notin> set x) \<and> length dbuf = 33"
  then have l: "emu_listed V k (map entry_bytes ns)" by (auto simp: emu_listed_def)
  have "\<forall>x \<in> set (map entry_bytes ns). x \<noteq> [] \<and> 8 \<notin> set x"
  proof
    fix x assume "x \<in> set (map entry_bytes ns)"
    then obtain y where "x = entry_bytes y" "y \<in> set ns" by auto
    then show "x \<noteq> [] \<and> 8 \<notin> set x" using h length_entry_bytes [of y] by (auto simp: entry_bytes_def dest: in_set_takeD)
  qed
  from file_calls.ls_emits [OF F k l this, of dbuf] h
  show "\<exists>k' fd. ls_main (emulated L b st0) dbuf k = Some (0, k') \<and> produces V {fd, -1} (concat (map (\<lambda>x. entry_bytes x @ [10]) ns)) (world k) (world k')"
    by (auto simp: emu_emits_def comp_def)
qed

section \<open>The properties on the small Linux\<close>

definition fresh_box :: box where
  "fresh_box = \<lparr>box_out = [], box_fds = (\<lambda>_. None), box_next = 3, box_names = []\<rparr>"

definition box_process :: "string list \<Rightarrow> (box, unit) emulation" where
  "box_process args = emulation_start (map (\<lambda>a. lit a @ [0]) args) (\<lambda>_. 0) fresh_box"

theorem emulate_execute_runs_witness:
  "emulate_execute box_linux (replicate 1026 0) 0 (lit ''true  -x'' @ [0]) (box_process [''sh'']) = Some (0, box_process [''sh''])
    \<and> command_args (lit ''true  -x'') = [lit ''-x'']"
proof -
  have c: "program_word (lit ''true  -x'') = lit ''true''" "command_args (lit ''true  -x'') = [lit ''-x'']" "0 \<notin> set (lit ''true  -x'')" by code_simp+
  have f: "fork box_linux (world (box_process [''sh''])) = (1, fresh_box)"
    "execv box_linux (lit ''./'' @ lit ''true'') ((lit ''./'' @ lit ''true'') # [lit ''-x'']) fresh_box = Some (Some 0, fresh_box)"
    by (simp_all add: box_linux_def box_process_def emulation_start_def lit_def)
  have "child_result 0 = 0" by code_simp
  moreover have "(box_process [''sh''])\<lparr>world := fresh_box\<rparr> = box_process [''sh'']" by (simp add: box_process_def emulation_start_def)
  ultimately show ?thesis
    using emulate_execute_runs [OF c(3), of "replicate 1026 0" box_linux "box_process [''sh'']" 1 fresh_box "Some 0" fresh_box 0 "[]" 0 0] f unfolding c(1,2) by simp
qed

theorem emulate_arguments_round_trip_witness:
  "emulate_execute box_linux (replicate 1026 0) 0 (lit ''cat'' @ 32 # join [lit ''a'', lit ''b''] @ [0]) (box_process [''sh'']) = Some (-1, box_process [''sh''])
    \<and> emulate_getargs (replicate 8 1) 8 (emulation_start [lit ''./cat'' @ [0], lit ''a'' @ [0], lit ''b'' @ [0]] (\<lambda>_. 0) fresh_box)
      = Some (0, lit ''a b'' @ [0, 1, 1, 1, 1], emulation_start [lit ''./cat'' @ [0], lit ''a'' @ [0], lit ''b'' @ [0]] (\<lambda>_. 0) fresh_box)"
proof -
  have j: "join [lit ''a'', lit ''b''] = lit ''a b''" by code_simp
  have c: "\<forall>a \<in> set [lit ''a'', lit ''b'']. a \<noteq> [] \<and> (\<forall>c \<in> set a. c \<noteq> 0 \<and> \<not> separator c)" "\<forall>c \<in> set (lit ''cat''). c \<noteq> 0 \<and> \<not> separator c"
    by (simp_all add: lit_def byte_of_def separator_def)
  have r: "run_child box_linux 0 (lit ''./'' @ lit ''cat'') ((lit ''./'' @ lit ''cat'') # [lit ''a'', lit ''b'']) (world (box_process [''sh''])) = Some (9, fresh_box)"
    by (simp add: run_child_def box_linux_def box_process_def emulation_start_def lit_def)
  have "child_result 9 = -1" by code_simp
  moreover have "(box_process [''sh''])\<lparr>world := fresh_box\<rparr> = box_process [''sh'']" by (simp add: box_process_def emulation_start_def)
  moreover have "lit ''./'' @ lit ''cat'' @ [0] = lit ''./cat'' @ [0]" by (simp add: lit_def)
  ultimately show ?thesis
    using emulate_arguments_round_trip [OF c, of "replicate 1026 0" "replicate 8 1" box_linux 0 "[]" "box_process [''sh'']" "\<lambda>_. 0" fresh_box] r unfolding j
    by (simp add: numeral_eq_Suc)
qed

theorem emulate_getargs_result_witness:
  "emulate_getargs [1, 1] 2 (box_process [''./cat'', ''ab'']) = None \<and> emulate_getargs [1, 1, 1] 3 (box_process [''./cat'', ''ab'']) = Some (0, lit ''ab'' @ [0], box_process [''./cat'', ''ab''])"
proof -
  have a: "argv (box_process [''./cat'', ''ab'']) = (lit ''./cat'' @ [0]) # map (\<lambda>a. a @ [0]) [lit ''ab'']" "\<forall>a \<in> set [lit ''ab'']. 0 \<notin> set a"
    by (simp_all add: box_process_def emulation_start_def lit_def byte_of_def)
  have "overruns [lit ''ab''] (Suc (Suc 0))" by (simp add: overruns_def)
  then show ?thesis using emulate_getargs_result [OF a, of "[1, 1]"] emulate_getargs_result [OF a, of "[1, 1, 1]"] by simp
qed

theorem emulated_programs_run_witness:
  "(\<exists>k'. cat_main (emulated box_linux (replicate 1026 0) 0) (replicate 1024 0) (box_process [''./cat'', ''hi'']) = Some (0, k') \<and> box_out (world k') = lit ''hello'')
    \<and> (\<exists>k'. ls_main (emulated box_linux (replicate 1026 0) 0) (replicate 33 0) (box_process [''./ls'']) = Some (0, k')
      \<and> box_out (world k') = lit ''.'' @ replicate 31 0 @ 10 # lit ''hi'' @ replicate 30 0 @ [10])"
proof -
  have c: "calm box_view (world (box_process as))" "dir (box_process as) = None" "world (box_process as) = fresh_box" for as
    by (simp_all add: box_process_def emulation_start_def box_view_def fresh_box_def)
  have a: "argv (box_process [''./cat'', ''hi'']) = (lit ''./cat'' @ [0]) # map (\<lambda>a. a @ [0]) [lit ''hi'']" by (simp add: box_process_def emulation_start_def)
  have j: "join [lit ''hi''] = lit ''hi''" "lit ''hi'' \<noteq> lit ''.''" "8 \<notin> set (lit ''hello'')" "0 \<notin> set (lit ''hi'')" "lit ''hi'' \<noteq> []" by (simp_all add: lit_def byte_of_def)
  have v: "has_file box_view fresh_box (lit ''hi'') (lit ''hello'')" "has_dir box_view fresh_box box_dir" "\<forall>x \<in> set box_dir. 8 \<notin> set x"
    by (simp_all add: box_view_def fresh_box_def box_files_def box_dir_def lit_def byte_of_def)
  have o: "box_out w = xs" if "produces box_view F xs fresh_box w" for F xs w using that by (simp add: box_view_def fresh_box_def)
  have "concat (map (\<lambda>x. entry_bytes x @ [10]) box_dir) = lit ''.'' @ replicate 31 0 @ 10 # lit ''hi'' @ replicate 30 0 @ [10]"
    by (simp add: box_dir_def entry_bytes_def)
  moreover from emulated_programs_run [OF box_laws c(1,2), of "[''./cat'', ''hi'']" _ "[lit ''hi'']" "lit ''hello''" "replicate 1024 0", THEN conjunct1] a j v(1)
  have "\<exists>k' fd. cat_main (emulated box_linux (replicate 1026 0) 0) (replicate 1024 0) (box_process [''./cat'', ''hi'']) = Some (0, k')
      \<and> produces box_view {fd} (lit ''hello'') fresh_box (world k')" by (simp add: c(3))
  moreover from emulated_programs_run [OF box_laws c(1,2), of "[''./ls'']", THEN conjunct2] v(2,3)
  have "\<exists>k' fd. ls_main (emulated box_linux (replicate 1026 0) 0) (replicate 33 0) (box_process [''./ls'']) = Some (0, k')
      \<and> produces box_view {fd, -1} (concat (map (\<lambda>x. entry_bytes x @ [10]) box_dir)) fresh_box (world k')" by (simp add: c(3))
  ultimately show ?thesis using o by metis
qed

end
