(* ===== verification/Interactive.thy ===== *)
theory Interactive
  imports User_Kernel
begin

text \<open>
  Programs that talk to somebody at the keyboard: \<open>hello\<close>, \<open>counter\<close> and \<open>shell\<close>. The first two locales say what these programs need from the system,
  beyond the laws of \<open>terminal_calls\<close>; the interpretation on this kernel puts together the interrupts of the keyboard, the line buffer, the waiting read, the echo on the
  screen and the system calls.

  \<open>typing k ls\<close>: the lines \<open>ls\<close> are going to be typed, each during the read that waits for it. \<open>session xs k k'\<close>: the text \<open>xs\<close>, typed or written,
  appeared on the terminal.
\<close>

section \<open>Reading lines\<close>

text \<open>What \<open>counter\<close> answers to the line \<open>l\<close>.\<close>

definition count_line :: "nat \<Rightarrow> u8 list" where
  "count_line i = digit_chars (number_digits 10 (Suc i)) @ [10]"

definition counting :: "u8 list \<Rightarrow> u8 list" where
  "counting l = (if length l > 1 \<or> length l = 1 \<and> (hd l < byte_of (CHR ''0'') \<or> hd l > byte_of (CHR ''2'')) then lit ''Wrong Choice!'' @ [10]
     else concat (map count_line [0..<counter_max (if l = [] then 10 else hd l)]))"

lemma digit_chars_plain: "0 \<notin> set (digit_chars (number_digits 10 n)) \<and> 8 \<notin> set (digit_chars (number_digits 10 n))"
proof -
  have "\<forall>d \<in> set [0..<10]. lookup ! d \<noteq> 0 \<and> lookup ! d \<noteq> 8" by code_simp
  then have d: "lookup ! d \<noteq> 0 \<and> lookup ! d \<noteq> 8" if "d < 10" for d using that by auto
  have "d < 10" if "d \<in> set (number_digits 10 n)" for d using number_digits_less [of 10 d n] that by simp
  with d show ?thesis by (force simp: digit_chars_def)
qed

lemma itoa_count:
  assumes "i < 100000" and "length buf = 1024"
  shows "\<exists>ys. ece391_itoa (of_nat i + 1) buf 10 = Some (digit_chars (number_digits 10 (Suc i)) @ 0 # ys) \<and> length (number_digits 10 (Suc i)) \<le> 6
    \<and> length (digit_chars (number_digits 10 (Suc i)) @ 0 # ys) = 1024"
proof -
  have v: "unat (of_nat i + 1 :: u32) = Suc i" using of_nat_u32 [of "Suc i"] assms(1) by (simp add: add.commute)
  have n: "length (number_digits 10 (Suc i)) \<le> 6" by (rule length_number_digits_le) (use assms(1) in simp_all)
  have "itoa (of_nat i + 1) buf 10 = Some (digit_chars (number_digits 10 (Suc i)) @ 0 # drop (Suc (length (number_digits 10 (Suc i)))) buf)"
    using itoa_digits [of 10 "of_nat i + 1" buf] v n assms(2) by simp
  then show ?thesis using n assms(2) by (auto simp: ece391_itoa_eq digit_chars_def)
qed

locale keyboard_calls = terminal_calls C ok says room
  for C :: "'k calls" and ok :: "'k \<Rightarrow> bool" and says :: "int set \<Rightarrow> u8 list \<Rightarrow> 'k \<Rightarrow> 'k \<Rightarrow> bool" and room :: nat +
  fixes typing :: "'k \<Rightarrow> u8 list list \<Rightarrow> bool"
    and session :: "u8 list \<Rightarrow> 'k \<Rightarrow> 'k \<Rightarrow> bool"
  assumes says_typing: "says {} xs k k' \<Longrightarrow> typing k ls \<Longrightarrow> typing k' ls"
    and says_session: "says {} xs k k' \<Longrightarrow> session xs k k'"
    and session_trans: "session xs k k' \<Longrightarrow> session ys k' k'' \<Longrightarrow> session (xs @ ys) k k''"
    and session_ok: "session xs k k' \<Longrightarrow> ok k'"
    and typing_line: "typing k (l # ls) \<Longrightarrow> length l \<le> 127 \<and> 0 \<notin> set l \<and> 8 \<notin> set l \<and> 10 \<notin> set l"
    and read_line: "ok k \<Longrightarrow> typing k (l # ls) \<Longrightarrow> length l < n \<Longrightarrow> n \<le> length buf \<Longrightarrow> length buf \<le> room \<Longrightarrow>
      \<exists>k'. ece391_read C 0 buf (int n) k = Some (int (Suc (length l)), l @ 10 # drop (Suc (length l)) buf, k') \<and> session (l @ [10]) k k' \<and> typing k' ls"
begin

lemma put_typing:
  assumes "ok k" and "typing k ls" and "0 \<notin> set xs" and "8 \<notin> set xs" and "length xs + length ys < room"
  shows "\<exists>k'. ece391_fdputs C 1 (xs @ 0 # ys) k = Some k' \<and> session xs k k' \<and> typing k' ls"
  using fdputs_emits [OF assms(1,3-5)] says_typing [OF _ assms(2)] says_session by blast

lemma literal_typing: "ok k \<Longrightarrow> typing k ls \<Longrightarrow> plain t \<Longrightarrow> length t < room \<Longrightarrow>
    \<exists>k'. ece391_fdputs C 1 (literal t) k = Some k' \<and> session (lit t) k k' \<and> typing k' ls"
  using put_typing [of k ls "lit t" "[]"] plain_lit [of t] by (auto simp: literal_def)

lemma line_typing: "ok k \<Longrightarrow> typing k ls \<Longrightarrow> plain t \<Longrightarrow> Suc (length t) < room \<Longrightarrow>
    \<exists>k'. ece391_fdputs C 1 (line t) k = Some k' \<and> session (lit t @ [10]) k k' \<and> typing k' ls"
  using put_typing [of k ls "lit t @ [10]" "[]"] plain_lit [of t] by (auto simp: line_def)

text \<open>A read into a buffer of 1024 bytes.\<close>

lemma read_buffer:
  assumes "ok k" and "typing k (l # ls)" and "length buf = 1024" and "1024 \<le> room"
  shows "\<exists>ys k'. ece391_read C 0 buf 1023 k = Some (int (Suc (length l)), l @ 10 # ys, k') \<and> session (l @ [10]) k k' \<and> typing k' ls
    \<and> Suc (length l + length ys) = 1024"
proof -
  have l: "length l \<le> 127" using typing_line [OF assms(2)] by simp
  from read_line [OF assms(1,2), of 1023 buf] assms(3,4) l show ?thesis by (auto intro!: exI [of _ "drop (Suc (length l)) buf"])
qed

text \<open>\<open>hello\<close> greets the person that types the name.\<close>

lemma hello_session:
  assumes "ok k" and "typing k (l # ls)" and "length buf = 1024" and "1024 \<le> room"
  shows "\<exists>k'. hello_main C buf k = Some (0, k')
    \<and> session (lit ''Hi, what's your name? '' @ l @ [10] @ lit ''Hello, '' @ l @ [10]) k k' \<and> typing k' ls"
proof -
  have p: "plain ''Hi, what's your name? ''" "plain ''Hello, ''" by (simp_all add: plain_def byte_of_def)
  have l: "length l \<le> 127" "0 \<notin> set l" "8 \<notin> set l" using typing_line [OF assms(2)] by auto
  from literal_typing [OF assms(1,2) p(1)] assms(4) obtain k1 where
    k1: "ece391_fdputs C 1 (literal ''Hi, what's your name? '') k = Some k1" "session (lit ''Hi, what's your name? '') k k1" "typing k1 (l # ls)" by auto
  from read_buffer [OF session_ok [OF k1(2)] k1(3) assms(3,4)] obtain ys k2 where
    k2: "ece391_read C 0 buf 1023 k1 = Some (int (Suc (length l)), l @ 10 # ys, k2)" "session (l @ [10]) k1 k2" "typing k2 ls" "Suc (length l + length ys) = 1024" by blast
  then obtain y ys' where ys: "ys = y # ys'" using l(1) by (cases ys) auto
  have a: "aset (l @ 10 # ys) (int (Suc (length l))) 0 = Some ((l @ [10]) @ 0 # ys')" unfolding ys by (simp add: aset_def list_update_append nat_add_distrib)
  from literal_typing [OF session_ok [OF k2(2)] k2(3) p(2)] assms(4) obtain k3 where
    k3: "ece391_fdputs C 1 (literal ''Hello, '') k2 = Some k3" "session (lit ''Hello, '') k2 k3" "typing k3 ls" by auto
  from put_typing [OF session_ok [OF k3(2)] k3(3), of "l @ [10]" ys'] l k2(4) ys assms(4) obtain k4 where
    k4: "ece391_fdputs C 1 ((l @ [10]) @ 0 # ys') k3 = Some k4" "session (l @ [10]) k3 k4" "typing k4 ls" by auto
  have "hello_main C buf k = Some (0, k4)" using k1(1) k2(1) a k3(1) k4(1) by (simp add: hello_main_def)
  moreover have "session (lit ''Hi, what's your name? '' @ (l @ [10]) @ lit ''Hello, '' @ l @ [10]) k k4"
    using session_trans [OF k1(2) session_trans [OF k2(2) session_trans [OF k3(2) k4(2)]]] .
  ultimately show ?thesis using k4(3) by auto
qed

lemma counter_step:
  assumes "ok k" and "typing k ls" and "length buf = 1024" and "i < 100000" and "1024 \<le> room"
  shows "\<exists>buf' k'. (do { buf \<leftarrow> ece391_itoa (of_nat i + 1) buf 10; k \<leftarrow> ece391_fdputs C 1 buf k; k \<leftarrow> ece391_fdputs C 1 [10, 0] k; Some (buf, k) }) = Some (buf', k')
    \<and> length buf' = 1024 \<and> session (count_line i) k k' \<and> typing k' ls"
proof -
  from itoa_count [OF assms(4,3)] obtain ys where
    i: "ece391_itoa (of_nat i + 1) buf 10 = Some (digit_chars (number_digits 10 (Suc i)) @ 0 # ys)" "length (number_digits 10 (Suc i)) \<le> 6"
      "length (digit_chars (number_digits 10 (Suc i)) @ 0 # ys) = 1024" by blast
  from put_typing [OF assms(1,2), of "digit_chars (number_digits 10 (Suc i))" ys] digit_chars_plain [of "Suc i"] i(3) assms(5) obtain k1 where
    k1: "ece391_fdputs C 1 (digit_chars (number_digits 10 (Suc i)) @ 0 # ys) k = Some k1" "session (digit_chars (number_digits 10 (Suc i))) k k1" "typing k1 ls" by auto
  from put_typing [OF session_ok [OF k1(2)] k1(3), of "[10]" "[]"] assms(5) obtain k2 where
    k2: "ece391_fdputs C 1 [10, 0] k1 = Some k2" "session [10] k1 k2" "typing k2 ls" by auto
  from i k1(1) k2(1,3) session_trans [OF k1(2) k2(2)] show ?thesis by (auto simp: count_line_def)
qed

lemma counter_loop:
  assumes "ok k" and "typing k ls" and "length buf = 1024" and "n \<le> 100000" and "1024 \<le> room"
  shows "\<exists>buf' k'. for_range 0 n (\<lambda>i (buf, k). do {
             buf \<leftarrow> ece391_itoa (of_nat i + 1) buf 10;
             k \<leftarrow> ece391_fdputs C 1 buf k;
             k \<leftarrow> ece391_fdputs C 1 [10, 0] k;
             Some (buf, k)
           }) (buf, k) = Some (buf', k') \<and> session (concat (map count_line [0..<n])) k k' \<and> typing k' ls"
proof -
  let ?I = "\<lambda>i (b :: u8 list, k'). length b = 1024 \<and> session (concat (map count_line [0..<i])) k k' \<and> typing k' ls"
  have "session [] k k" using says_session [OF emits_refl [OF assms(1)]] .
  have "\<exists>t. for_range 0 n (\<lambda>i (buf, k). do {
             buf \<leftarrow> ece391_itoa (of_nat i + 1) buf 10;
             k \<leftarrow> ece391_fdputs C 1 buf k;
             k \<leftarrow> ece391_fdputs C 1 [10, 0] k;
             Some (buf, k)
           }) (buf, k) = Some t \<and> ?I n t"
  proof (rule for_range_total [where I = ?I])
    show "?I 0 (buf, k)" using assms(2,3) \<open>session [] k k\<close> by simp
    fix i t assume i: "i < n" and I: "?I i t"
    obtain b k1 where t: "t = (b, k1)" by fastforce
    with I have h: "length b = 1024" "session (concat (map count_line [0..<i])) k k1" "typing k1 ls" by auto
    from counter_step [OF session_ok [OF h(2)] h(3,1) _ assms(5), of i] i assms(4) obtain b' k2 where
      "do { buf \<leftarrow> ece391_itoa (of_nat i + 1) b 10; k \<leftarrow> ece391_fdputs C 1 buf k1; k \<leftarrow> ece391_fdputs C 1 [10, 0] k; Some (buf, k) } = Some (b', k2)"
      "length b' = 1024" "session (count_line i) k1 k2" "typing k2 ls" by auto
    then show "\<exists>t'. (case t of (buf, k) \<Rightarrow> do {
             buf \<leftarrow> ece391_itoa (of_nat i + 1) buf 10;
             k \<leftarrow> ece391_fdputs C 1 buf k;
             k \<leftarrow> ece391_fdputs C 1 [10, 0] k;
             Some (buf, k)
           }) = Some t' \<and> ?I (Suc i) t'" using session_trans [OF h(2)] by (auto simp: t)
  qed simp
  then show ?thesis by auto
qed

text \<open>\<open>counter\<close> counts as far as the typed number says, or complains.\<close>

lemma counter_session:
  assumes "ok k" and "typing k (l # ls)" and "length buf = 1024" and "1024 \<le> room"
  shows "\<exists>k'. counter_main C buf k = Some (0, k')
    \<and> session (lit ''Enter the Test Number: (0): 100, (1): 10000, (2): 100000'' @ [10] @ l @ [10] @ counting l) k k' \<and> typing k' ls"
proof -
  let ?q = "''Enter the Test Number: (0): 100, (1): 10000, (2): 100000''"
  have p: "plain ?q" "plain ''Wrong Choice!''" by (simp_all add: plain_def byte_of_def)
  have l: "length l \<le> 127" "0 \<notin> set l" using typing_line [OF assms(2)] by auto
  from line_typing [OF assms(1,2) p(1)] assms(4) obtain k1 where
    k1: "ece391_fdputs C 1 (line ?q) k = Some k1" "session (lit ?q @ [10]) k k1" "typing k1 (l # ls)" by auto
  from read_buffer [OF session_ok [OF k1(2)] k1(3) assms(3,4)] obtain ys k2 where
    k2: "ece391_read C 0 buf 1023 k1 = Some (int (Suc (length l)), l @ 10 # ys, k2)" "session (l @ [10]) k1 k2" "typing k2 ls" "Suc (length l + length ys) = 1024" by blast
  then obtain y ys' where ys: "ys = y # ys'" using l(1) by (cases ys) auto
  let ?b = "(l @ [10]) @ 0 # ys'"
  have b: "aset (l @ 10 # ys) (int (Suc (length l))) 0 = Some ?b" unfolding ys by (simp add: aset_def list_update_append nat_add_distrib)
  have n: "ece391_strlen (arr ?b) = Some (Suc (length l))" using strlen_at [OF cstr_at_arr, of "l @ [10]" ys'] l(2) by (simp add: ece391_strlen_eq del: append_assoc)
  have c: "aget ?b 0 = Some (if l = [] then 10 else hd l)" by (cases l) (simp_all add: aget_def)
  have q: "session ((lit ?q @ [10]) @ l @ [10]) k k2" using session_trans [OF k1(2) k2(2)] .
  have len: "length ?b = 1024" using k2(4) ys by simp
  let ?c = "if l = [] then 10 else hd l"
  have run: "counter_main C buf k = (if Suc (length l) > 2 \<or> Suc (length l) = 2 \<and> (?c < byte_of (CHR ''0'') \<or> ?c > byte_of (CHR ''2'')) then do {
         k \<leftarrow> ece391_fdputs C 1 (line ''Wrong Choice!'') k2;
         Some (0, k)
       } else do {
         (buf, k) \<leftarrow> for_range 0 (counter_max ?c) (\<lambda>i (buf, k). do {
             buf \<leftarrow> ece391_itoa (of_nat i + 1) buf 10;
             k \<leftarrow> ece391_fdputs C 1 buf k;
             k \<leftarrow> ece391_fdputs C 1 [10, 0] k;
             Some (buf, k)
           }) (?b, k2);
         Some (0, k)
       })" unfolding counter_main_def by (simp only: k1(1) k2(1) b n c bind_eq_Some_conv Option.bind.bind_lunit prod.case) simp
  have m: "counter_max ?c \<le> 100000" by (simp add: counter_max_def)
  have e: "\<exists>k'. counter_main C buf k = Some (0, k') \<and> session (counting l) k2 k' \<and> typing k' ls"
  proof (cases "length l > 1 \<or> length l = 1 \<and> (hd l < byte_of (CHR ''0'') \<or> hd l > byte_of (CHR ''2''))")
    case True
    with line_typing [OF session_ok [OF k2(2)] k2(3) p(2)] assms(4) run show ?thesis by (auto simp: counting_def)
  next
    case False
    with counter_loop [OF session_ok [OF k2(2)] k2(3) len m assms(4)] run show ?thesis by (auto simp: counting_def)
  qed
  then show ?thesis using session_trans [OF q] by fastforce
qed

end

section \<open>The shell\<close>

text \<open>\<open>refused k l\<close>: the command line \<open>l\<close> names nothing that can be executed.\<close>

locale shell_calls = keyboard_calls C ok says room typing session
  for C :: "'k calls" and ok :: "'k \<Rightarrow> bool" and says :: "int set \<Rightarrow> u8 list \<Rightarrow> 'k \<Rightarrow> 'k \<Rightarrow> bool" and room :: nat
    and typing :: "'k \<Rightarrow> u8 list list \<Rightarrow> bool" and session :: "u8 list \<Rightarrow> 'k \<Rightarrow> 'k \<Rightarrow> bool" +
  fixes refused :: "'k \<Rightarrow> u8 list \<Rightarrow> bool"
  assumes refused_kept: "session xs k k' \<Longrightarrow> refused k l \<Longrightarrow> refused k' l"
    and execute_refused: "ok k \<Longrightarrow> refused k l \<Longrightarrow> 0 \<notin> set l \<Longrightarrow> length l \<le> 127 \<Longrightarrow> length l + length ys < room \<Longrightarrow>
      \<exists>k'. ece391_execute C (l @ 0 # ys) k = Some (-1, k') \<and> says {} [] k k'"

text \<open>What one command line that cannot be executed leaves on the terminal.\<close>

definition prompt :: "u8 list" where
  "prompt = lit ''391OS> ''"

definition refusal :: "u8 list \<Rightarrow> u8 list" where
  "refusal l = prompt @ l @ [10] @ (if l = [] then [] else lit ''no such command'' @ [10])"

context shell_calls
begin

lemma shell_reads:
  assumes "ok k" and "typing k (l # ls)" and "length buf = 1024" and "1024 \<le> room"
  shows "\<exists>ys k'. length (l @ 0 # ys) = 1024 \<and> session (prompt @ l @ [10]) k k' \<and> typing k' ls
    \<and> shell_loop C buf k = (if l = lit ''exit'' then Some (0, k') else if l = [] then shell_loop C (l @ 0 # ys) k'
        else do { (rval, k) \<leftarrow> ece391_execute C (l @ 0 # ys) k'; k \<leftarrow> report_status C rval k; shell_loop C (l @ 0 # ys) k })"
proof -
  have p: "plain ''391OS> ''" by (simp add: plain_def byte_of_def)
  have l: "length l \<le> 127" "0 \<notin> set l" using typing_line [OF assms(2)] by auto
  from literal_typing [OF assms(1,2) p] assms(4) obtain k1 where
    k1: "ece391_fdputs C 1 (literal ''391OS> '') k = Some k1" "session prompt k k1" "typing k1 (l # ls)" by (auto simp: prompt_def)
  from read_buffer [OF session_ok [OF k1(2)] k1(3) assms(3,4)] obtain ys k2 where
    k2: "ece391_read C 0 buf 1023 k1 = Some (int (Suc (length l)), l @ 10 # ys, k2)" "session (l @ [10]) k1 k2" "typing k2 ls" "Suc (length l + length ys) = 1024" by blast
  have e: "aget (l @ 10 # ys) (int (Suc (length l)) - 1) = Some 10" "aset (l @ 10 # ys) (int (length l)) 0 = Some (l @ 0 # ys)"
    by (simp_all add: aget_def aset_def list_update_append)
  have "cstr_at (arr (literal ''exit'')) (lit ''exit'')" unfolding literal_def by (rule cstr_at_arr) (simp add: lit_def byte_of_def)
  from strcmp_decides [OF cstr_at_arr [OF l(2)] this] obtain d where d: "ece391_strcmp (arr (l @ 0 # ys)) (arr (literal ''exit'')) = Some d" "(d = 0) = (l = lit ''exit'')" by blast
  have h: "aget (l @ 0 # ys) 0 = Some (if l = [] then 0 else hd l)" "l \<noteq> [] \<Longrightarrow> hd l \<noteq> 0" using l(2) by (cases l; simp add: aget_def)+
  have "shell_loop C buf k = (if l = lit ''exit'' then Some (0, k2) else if l = [] then shell_loop C (l @ 0 # ys) k2
        else do { (rval, k) \<leftarrow> ece391_execute C (l @ 0 # ys) k2; k \<leftarrow> report_status C rval k; shell_loop C (l @ 0 # ys) k })"
    using k1(1) k2(1) e d h by (subst shell_loop.simps) (auto simp: lit_def)
  then show ?thesis using session_trans [OF k1(2) k2(2)] k2(3,4) by (intro exI [of _ ys] exI [of _ k2]) simp
qed

lemma shell_loop_session:
  assumes "ok k" and "typing k (cs @ lit ''exit'' # ls)" and "\<forall>c \<in> set cs. c \<noteq> lit ''exit'' \<and> (c = [] \<or> refused k c)" and "length buf = 1024" and "1024 \<le> room"
  shows "\<exists>k'. shell_loop C buf k = Some (0, k') \<and> session (concat (map refusal cs) @ prompt @ lit ''exit'' @ [10]) k k' \<and> typing k' ls"
  using assms(1-4)
proof (induction cs arbitrary: k buf)
  case Nil
  from shell_reads [of k "lit ''exit''" ls buf] Nil assms(5) show ?case by auto
next
  case (Cons c cs)
  have t: "typing k (c # cs @ lit ''exit'' # ls)" using Cons.prems(2) by simp
  from shell_reads [OF Cons.prems(1) t Cons.prems(4) assms(5)] obtain ys k1 where
    k1: "length (c @ 0 # ys) = 1024" "session (prompt @ c @ [10]) k k1" "typing k1 (cs @ lit ''exit'' # ls)"
      "shell_loop C buf k = (if c = lit ''exit'' then Some (0, k1) else if c = [] then shell_loop C (c @ 0 # ys) k1
        else do { (rval, k) \<leftarrow> ece391_execute C (c @ 0 # ys) k1; k \<leftarrow> report_status C rval k; shell_loop C (c @ 0 # ys) k })" by blast
  have c: "c \<noteq> lit ''exit''" "c = [] \<or> refused k1 c" using Cons.prems(3) refused_kept [OF k1(2)] by auto
  have "\<exists>k2. shell_loop C buf k = shell_loop C (c @ 0 # ys) k2 \<and> session (refusal c) k k2 \<and> typing k2 (cs @ lit ''exit'' # ls)"
  proof (cases "c = []")
    case True
    then show ?thesis using k1 c by (auto simp: refusal_def)
  next
    case False
    have l: "length c \<le> 127" "0 \<notin> set c" using typing_line [OF t] by auto
    from execute_refused [OF session_ok [OF k1(2)] _ l(2,1), of ys] c(2) False k1(1) assms(5) obtain k2 where
      k2: "ece391_execute C (c @ 0 # ys) k1 = Some (-1, k2)" "says {} [] k1 k2" by auto
    from report_status_emits [OF emits_ok [OF k2(2)], of "-1"] assms(5) obtain k3 where
      k3: "report_status C (-1) k2 = Some k3" "says {} (outcome (-1)) k2 k3" by auto
    have "session ((prompt @ c @ [10]) @ [] @ outcome (-1)) k k3" using session_trans [OF k1(2) session_trans [OF says_session [OF k2(2)] says_session [OF k3(2)]]] .
    moreover have "typing k3 (cs @ lit ''exit'' # ls)" using says_typing [OF k3(2) says_typing [OF k2(2) k1(3)]] .
    ultimately show ?thesis using k1(4) c(1) False k2(1) k3(1) by (auto simp: refusal_def outcome_def)
  qed
  then obtain k2 where k2: "shell_loop C buf k = shell_loop C (c @ 0 # ys) k2" "session (refusal c) k k2" "typing k2 (cs @ lit ''exit'' # ls)" by blast
  from Cons.IH [OF session_ok [OF k2(2)] k2(3) _ k1(1)] Cons.prems(3) refused_kept [OF k2(2)] obtain k' where
    "shell_loop C (c @ 0 # ys) k2 = Some (0, k')" "session (concat (map refusal cs) @ prompt @ lit ''exit'' @ [10]) k2 k'" "typing k' ls" by auto
  then show ?case using k2(1) session_trans [OF k2(2)] by fastforce
qed

text \<open>A session with the shell: commands that cannot be executed, then \<open>exit\<close>.\<close>

lemma shell_session:
  assumes "ok k" and "typing k (cs @ lit ''exit'' # ls)" and "\<forall>c \<in> set cs. c \<noteq> lit ''exit'' \<and> (c = [] \<or> refused k c)" and "length buf = 1024" and "1024 \<le> room"
  shows "\<exists>k'. shell_main C buf k = Some (0, k')
    \<and> session (lit ''Starting 391 Shell'' @ [10] @ concat (map refusal cs) @ prompt @ lit ''exit'' @ [10]) k k' \<and> typing k' ls"
proof -
  have p: "plain ''Starting 391 Shell''" by (simp add: plain_def byte_of_def)
  from line_typing [OF assms(1,2) p] assms(5) obtain k1 where
    k1: "ece391_fdputs C 1 (line ''Starting 391 Shell'') k = Some k1" "session (lit ''Starting 391 Shell'' @ [10]) k k1" "typing k1 (cs @ lit ''exit'' # ls)" by auto
  from shell_loop_session [OF session_ok [OF k1(2)] k1(3) _ assms(4,5)] assms(3) refused_kept [OF k1(2)] obtain k2 where
    k2: "shell_loop C buf k1 = Some (0, k2)" "session (concat (map refusal cs) @ prompt @ lit ''exit'' @ [10]) k1 k2" "typing k2 ls" by auto
  from k1(1) k2(1,3) session_trans [OF k1(2) k2(2)] show ?thesis by (auto simp: shell_main_def)
qed

end

section \<open>Typing on this kernel\<close>

text \<open>
  The running terminal is displayed, nothing has been typed ahead, and during each of the next reads the keys of one line arrive, one interrupt after the
  other; \<open>J\<close> is what the handler's local arrays happen to hold.
\<close>

definition kernel_typing :: "u8 list \<times> u8 list \<Rightarrow> 'b keyboard_ext user \<Rightarrow> u8 list list \<Rightarrow> bool" where
  "kernel_typing J k ls \<longleftrightarrow> (let s = fst k; t = term_at s (terminal_num s) in
     fops (fd_of s 0) = Some Term_ops \<and> flags (fd_of s 0) \<noteq> 0 \<and> terminal_num s = terminal_displayed s \<and> wf_keys t \<and> pending_keys t = [] \<and> buf_flag t = 0
     \<and> (\<exists>scss rest. snd k = map (\<lambda>scs. map (key_event J) (scs @ [ENTER_KEY])) scss @ rest \<and> ls = map (map (key_char s)) scss
          \<and> (\<forall>scs \<in> set scss. length scs \<le> 127 \<and> (\<forall>c \<in> set scs. char_key s c))))"

definition kernel_session :: "u32 \<Rightarrow> 'a kernel_scheme \<Rightarrow> u8 list \<Rightarrow> 'a user \<Rightarrow> 'a user \<Rightarrow> bool" where
  "kernel_session a s0 xs k k' \<longleftrightarrow> kernel_emits a s0 {} xs k k' \<and> process (fst k') = process (fst k)"

definition kernel_says :: "u8 list \<times> u8 list \<Rightarrow> u32 \<Rightarrow> 'b keyboard_ext kernel_scheme \<Rightarrow> int set \<Rightarrow> u8 list \<Rightarrow> 'b keyboard_ext user \<Rightarrow> 'b keyboard_ext user \<Rightarrow> bool" where
  "kernel_says J a s0 F xs k k' \<longleftrightarrow> kernel_emits a s0 F xs k k' \<and> process (fst k') = process (fst k) \<and> (\<forall>ls. kernel_typing J k ls \<longrightarrow> kernel_typing J k' ls)"

lemma frame_modifiers:
  assumes f: "console_frame s' = console_frame s"
  shows "process s' = process s" "terminal_num s' = terminal_num s" "terminal_displayed s' = terminal_displayed s" "fd_of s' = fd_of s" "key_char s' = key_char s" "char_key s' = char_key s"
proof -
  have e: "CTRL_PRESS s' = CTRL_PRESS s" "SHIFT_PRESS s' = SHIFT_PRESS s" "CAPSLOCK_PRESS s' = CAPSLOCK_PRESS s" "pcb_at s' = pcb_at s" "tss_esp0 s' = tss_esp0 s"
    using arg_cong [OF f, of CTRL_PRESS] arg_cong [OF f, of SHIFT_PRESS] arg_cong [OF f, of CAPSLOCK_PRESS] arg_cong [OF f, of pcb_at] arg_cong [OF f, of tss_esp0]
    by (simp_all add: console_frame_def)
  then show "fd_of s' = fd_of s" "key_char s' = key_char s" "char_key s' = char_key s" by (simp_all add: key_char_def char_key_def fd_of_def cur_pcb_def fun_eq_iff)
  show "process s' = process s" "terminal_num s' = terminal_num s" "terminal_displayed s' = terminal_displayed s"
    using arg_cong [OF f, of process] arg_cong [OF f, of terminal_num] arg_cong [OF f, of terminal_displayed] by (simp_all add: console_frame_def)
qed

text \<open>A step that leaves the modifiers, the descriptor and the pending keys as they are.\<close>

lemma typing_same:
  assumes "console_frame s' = console_frame s" and "\<And>j. 0 \<le> j \<Longrightarrow> j < 3 \<Longrightarrow> pending_keys (term_at s' j) = pending_keys (term_at s j)
      \<and> wf_keys (term_at s' j) = wf_keys (term_at s j) \<and> buf_flag (term_at s' j) = buf_flag (term_at s j)" and "wf_console s'"
  shows "kernel_typing J (s', sc) ls = kernel_typing J (s, sc) ls" "process s' = process s"
proof -
  note e = frame_modifiers [OF assms(1)]
  note num = wf_console_num [OF assms(3)]
  show "kernel_typing J (s', sc) ls = kernel_typing J (s, sc) ls" using assms(2) [of "terminal_num s"] num e by (simp add: kernel_typing_def Let_def)
  show "process s' = process s" by (rule e(1))
qed

lemma typing_views [simp]:
  "key_char (s\<lparr>eflags_IF := b\<rparr>) = key_char s" "char_key (s\<lparr>eflags_IF := b\<rparr>) = char_key s" "fd_of (s\<lparr>eflags_IF := b\<rparr>) = fd_of s"
  "key_char (s\<lparr>phys := f\<rparr>) = key_char s" "char_key (s\<lparr>phys := f\<rparr>) = char_key s" "fd_of (s\<lparr>phys := f\<rparr>) = fd_of s" "term_at (s\<lparr>phys := f\<rparr>) = term_at s"
  by (simp_all add: key_char_def char_key_def fd_of_def cur_pcb_def term_at_def fun_eq_iff)

lemma typing_fields [simp]:
  "kernel_typing J (s\<lparr>eflags_IF := b\<rparr>, sc) ls = kernel_typing J (s, sc) ls" "kernel_typing J (s\<lparr>phys := f\<rparr>, sc) ls = kernel_typing J (s, sc) ls"
  by (simp_all add: kernel_typing_def)

lemma typing_put:
  assumes "put_bytes a bs s = Some s'"
  shows "kernel_typing J (s', sc) ls = kernel_typing J (s, sc) ls" "process s' = process s"
proof -
  obtain f where "s' = s\<lparr>phys := f\<rparr>" using put_bytes_mem [OF assms] by blast
  then show "kernel_typing J (s', sc) ls = kernel_typing J (s, sc) ls" "process s' = process s" by simp_all
qed

lemma typing_outputs:
  assumes "outputs S (s\<lparr>eflags_IF := b\<rparr>) s'"
  shows "kernel_typing J (s', sc) ls = kernel_typing J (s, sc) ls" "process s' = process s"
proof -
  have k: "pending_keys (term_at s' j) = pending_keys (term_at s j) \<and> wf_keys (term_at s' j) = wf_keys (term_at s j) \<and> buf_flag (term_at s' j) = buf_flag (term_at s j)"
    if "0 \<le> j" "j < 3" for j
  proof -
    have "same_input (term_at s' j) ((term_at s j)\<lparr>video_memory := video_memory (term_at s' j)\<rparr>)" using assms that by (simp add: outputs_def)
    then show ?thesis by (simp add: same_input_def pending_keys_def wf_keys_def)
  qed
  have "console_frame s' = console_frame (s\<lparr>eflags_IF := b\<rparr>)" "wf_console s'" using assms by (simp_all add: outputs_def)
  from typing_same [OF this(1) _ this(2)] k show "kernel_typing J (s', sc) ls = kernel_typing J (s, sc) ls" "process s' = process s" by simp_all
qed

lemma write_says:
  assumes k: "kernel_ok (at P) s0 k" and xs: "8 \<notin> set xs" and n: "length xs + length ys \<le> ROOM"
  shows "\<exists>k'. kernel_write P 1 (xs @ ys) (int (length xs)) k = Some (int (length xs), k') \<and> kernel_says J (at P) s0 {} xs k k'"
proof -
  obtain s sc where s: "k = (s, sc)" by fastforce
  have u: "in_user (at P) s0 s" using k by (simp add: kernel_ok_def s)
  from write_user_steps [OF u refl xs n, of sc] obtain s1 s2 where
    w: "kernel_write P 1 (xs @ ys) (int (length xs)) (s, sc) = Some (int (length xs), (s2, sc))" "put_bytes (at P) (xs @ ys) s = Some s1" "in_user (at P) s0 s1"
      "kernel_emits (at P) s0 {} [] (s, sc) (s1, sc)" "outputs (spec_text xs (shown s1 (terminal_num s1))) (s1\<lparr>eflags_IF := True\<rparr>) s2" by blast
  have "kernel_emits (at P) s0 {} ([] @ xs) (s, sc) (s2, sc)" by (rule emits_trans' [OF w(4) emits_outputs [OF w(3,5)]])
  then show ?thesis using w(1) typing_put [OF w(2)] typing_outputs [OF w(5)] by (auto simp: s kernel_says_def)
qed

text \<open>The terminal after a line was typed and read.\<close>

lemma typed_read_terminal:
  assumes wf: "wf_console s" and k: "keyed S t s s2" and d: "terminal_num s = terminal_displayed s"
    and s': "s' = s2\<lparr>phys := f, terminal_t := (terminal_t s2)[nat (terminal_num s) := u], eflags_IF := True\<rparr>"
    and u: "u = t\<lparr>key_buf := kb, num_buf := nb, buf_flag := bf\<rparr>"
  shows "shown s' (terminal_num s) = S" "\<forall>j. 0 \<le> j \<and> j < 3 \<and> j \<noteq> terminal_num s \<longrightarrow> shown s' j = shown s j"
    "console_frame s' = console_frame (s\<lparr>phys := f, eflags_IF := True\<rparr>)"
proof -
  note kd = keyed_displayed [OF k] keyed_term [OF k]
  have n: "0 \<le> terminal_num s" "terminal_num s < 3" "length (terminal_t s2) = 3" using wf_console_num [OF wf] kd(4) by (auto simp: wf_console_def)
  have S: "shown s2 (terminal_num s) = S" using k d by (simp add: keyed_def)
  have t: "term_at s' (terminal_num s) = u" using n by (simp add: s' term_at_def)
  have "screen_of u v = screen_of t v" for v by (simp add: u screen_of_def)
  then show "shown s' (terminal_num s) = S" using S t kd(1,2) d by (simp add: shown_def screen_buf_def) (simp add: s')
  show "\<forall>j. 0 \<le> j \<and> j < 3 \<and> j \<noteq> terminal_num s \<longrightarrow> shown s' j = shown s j"
  proof (intro allI impI)
    fix j assume j: "0 \<le> j \<and> j < 3 \<and> j \<noteq> terminal_num s"
    then have "term_at s' j = term_at s2 j" using n(1) by (simp add: s' term_at_def eq_nat_nat_iff)
    then have "term_at s' j = term_at s j" using kd(3) [of j] j d by simp
    moreover have "terminal_displayed s' = terminal_displayed s" using kd(1) by (simp add: s')
    ultimately show "shown s' j = shown s j" using j d by (simp add: shown_def screen_buf_def)
  qed
  have "console_frame s2 = console_frame s" using k by (simp add: keyed_def)
  moreover have "console_frame s' = (console_frame s2)\<lparr>phys := f, eflags_IF := True\<rparr>" by (simp add: s' console_frame_def)
  ultimately show "console_frame s' = console_frame (s\<lparr>phys := f, eflags_IF := True\<rparr>)" by (simp add: console_frame_def)
qed

lemma read_typed:
  assumes k: "kernel_ok (at P) s0 k" and t: "kernel_typing J k (l # ls)" and n: "length l < n" "n \<le> length buf" "length buf \<le> ROOM"
  shows "\<exists>k'. kernel_read P 0 buf (int n) k = Some (int (Suc (length l)), l @ 10 # drop (Suc (length l)) buf, k') \<and> kernel_session (at P) s0 (l @ [10]) k k' \<and> kernel_typing J k' ls"
proof -
  let ?a = "at P"
  obtain s sc where s: "k = (s, sc)" by fastforce
  have u: "in_user ?a s0 s" using k by (simp add: kernel_ok_def s)
  from put_bytes_user [OF u n(3), of "{}" sc sc] obtain s1 where
    s1: "put_bytes ?a buf s = Some s1" "load_bytes s1 ?a (length buf) = Some buf" "in_user ?a s0 s1" "kernel_emits ?a s0 {} [] (s, sc) (s1, sc)" by blast
  note w = in_userD [OF s1(3)] and m = in_user_mem [OF s1(3)] and tp = typing_put [OF s1(1)]
  let ?t = "term_at s1 (terminal_num s1)"
  have "kernel_typing J (s1, sc) (l # ls)" using t tp by (simp add: s)
  then obtain scs scss rest where T: "fops (fd_of s1 0) = Some Term_ops" "flags (fd_of s1 0) \<noteq> 0" "terminal_num s1 = terminal_displayed s1" "wf_keys ?t" "pending_keys ?t = []"
    "buf_flag ?t = 0" "sc = map (key_event J) (scs @ [ENTER_KEY]) # map (\<lambda>scs. map (key_event J) (scs @ [ENTER_KEY])) scss @ rest" "l = map (key_char s1) scs"
    "ls = map (map (key_char s1)) scss" "\<forall>c \<in> set scs. char_key s1 c" "length scs \<le> 127" "\<forall>scs \<in> set scss. length scs \<le> 127 \<and> (\<forall>c \<in> set scs. char_key s1 c)"
    by (auto simp: kernel_typing_def Let_def Cons_eq_map_conv append_eq_Cons_conv)
  let ?n = "min (nat (int n)) (Suc (length scs))"
  have nn: "?n = Suc (length l)" "take (nat (int n)) (map (key_char s1) scs @ [NL]) = l @ [NL]" using n(1) T(8) by auto
  have nr: "Suc (length l) \<le> ROOM" "Suc (length l) \<le> length buf" using n by auto
  have wr: "writable s1 ?a ?n" unfolding nn(1) by (rule m(4) [OF nr(1)])
  from typed_line_session [OF w(2) T(3) T(4-6) [unfolded T(3)] T(10,11) of_nat_0_le_iff wr, of J "[]", unfolded nn append_Nil2, unfolded T(8) [symmetric]] obtain s2 s' t2 f where
    r: "terminal_read (map (key_event J) (scs @ [ENTER_KEY])) ?a (int n) s1 = Some (int (Suc (length l)), s', [])" "load_bytes s' ?a (Suc (length l)) = Some (l @ [NL])" "wf_console s'"
      "keyed (spec_text (l @ [NL]) (shown s1 (terminal_displayed s1))) t2 s1 s2"
      "s' = s2\<lparr>phys := f, terminal_t := (terminal_t s2)[nat (terminal_num s1) := term_at s' (terminal_num s1)], eflags_IF := True\<rparr>"
      "term_at s' (terminal_num s1) = t2\<lparr>key_buf := key_buf (term_at s' (terminal_num s1)), num_buf := num_buf (term_at s' (terminal_num s1)), buf_flag := 0\<rparr>"
      "\<forall>q. q \<notin> buffer_addrs s1 ?a (Suc (length l)) \<longrightarrow> f q = phys s1 q"
      "wf_keys (term_at s' (terminal_num s1))" "pending_keys (term_at s' (terminal_num s1)) = drop (Suc (length l)) (l @ [NL])" by blast
  note v = typed_read_terminal [OF w(2) r(4) T(3) r(5,6)]
  let ?u = "s1\<lparr>phys := f\<rparr>" and ?sc = "map (\<lambda>scs. map (key_event J) (scs @ [ENTER_KEY])) scss @ rest"
  have om: "only_mem (buffer_addrs s1 ?a (Suc (length l))) s1 ?u" using r(7) by (auto simp: only_mem_def)
  note eu = emits_mem [OF s1(3) om nr(1)]
  have sm: "same_mem s' ?u" using console_frameD [OF v(3)] by (simp add: same_mem_def same_paging_def)
  have "load_bytes ?u ?a (length buf) = Some ((l @ [NL]) @ drop (Suc (length l)) buf)"
    by (rule load_bytes_overwritten [OF om m(4) [OF n(3)] nr(2) s1(2)]) (use r(2) same_mem_reads(4) [OF sm] in simp_all)
  then have ld: "load_bytes s' ?a (length buf) = Some (l @ 10 # drop (Suc (length l)) buf)" using same_mem_reads(4) [OF sm] by simp
  have "sys_read (next_events sc) 0 ?a (int n) s1 = Some (int (Suc (length l)), s', [])"
    using T(1,2) r(1) w(1,3) by (simp add: sys_read_def get_fd_in fops_read_def T(7) next_events_def)
  moreover have "DO_CALL P (next_events sc) 3 (word_of_int 0) ?a (word_of_int (int n)) s1 = map_option (\<lambda>(r, s, es). (r, s)) (sys_read (next_events sc) 0 ?a (int n) s1)"
    using n by (intro do_calls(1) [OF s1(3)]) auto
  ultimately have "kernel_read P 0 buf (int n) k = Some (int (Suc (length l)), l @ 10 # drop (Suc (length l)) buf, (s', ?sc))"
    using s1(1) ld by (simp add: kernel_read_def s T(7))
  moreover have "kernel_emits ?a s0 {} (l @ [10]) (?u, sc) (s', ?sc)"
    by (rule emits_console [OF eu(2)]) (use v r(3) T(3) in \<open>auto simp: shown_def screen_buf_def term_at_def\<close>)
  then have "kernel_emits ?a s0 {} (l @ [10]) k (s', ?sc)" using emits_trans' [OF s1(4) emits_trans' [OF eu(1)]] by (fastforce simp: s)
  moreover have e: "process s' = process s1" "terminal_num s' = terminal_num s1" "terminal_displayed s' = terminal_displayed s1" "fd_of s' = fd_of s1"
      "key_char s' = key_char s1" "char_key s' = char_key s1" using frame_modifiers [OF v(3)] by simp_all
  moreover have "buf_flag (term_at s' (terminal_num s1)) = 0" by (subst r(6)) simp
  then have "kernel_typing J (s', ?sc) ls" using e T r(8,9) by (auto simp: kernel_typing_def Let_def)
  ultimately show ?thesis using tp(2) by (auto simp: kernel_session_def s)
qed

section \<open>Commands that cannot be executed\<close>

definition kernel_refused :: "'a platform \<Rightarrow> 'a kernel_scheme \<Rightarrow> 'a user \<Rightarrow> u8 list \<Rightarrow> bool" where
  "kernel_refused P s0 k l \<longleftrightarrow> length (fst (junk P)) = 4 \<and> length (process (fst k)) = 6 \<and> (\<exists>n \<in> {1..5}. process (fst k) ! n = 0)
     \<and> (\<exists>ds. image_dir (at P) s0 ds \<and> (first_word l = [] \<or> 32 < length (first_word l) \<or> first_word l \<notin> dentry_name ` set ds))"

lemma length_words: "length (first_word xs) \<le> length xs" "length (after_word xs) \<le> length xs"
  unfolding first_word_def after_word_def
  by (meson length_takeWhile_le length_dropWhile_le order_trans)+

lemma least_free:
  fixes ps :: "int list"
  assumes "n \<in> {1..5}" and "ps ! n = 0"
  shows "\<exists>m \<in> {1..5}. ps ! m = 0 \<and> (\<forall>j \<in> {1..<m}. ps ! j \<noteq> 0)"
proof -
  let ?P = "\<lambda>m. m \<in> {1..5} \<and> ps ! m = 0"
  have P: "?P n" using assms by simp
  have "?P (LEAST m. ?P m)" using LeastI [of ?P, OF P] .
  moreover have "ps ! j \<noteq> 0" if "j \<in> {1..<(LEAST m. ?P m)}" for j
    using not_less_Least [of j ?P] that \<open>?P (LEAST m. ?P m)\<close> by auto
  ultimately show ?thesis by blast
qed

lemma emits_calling:
  assumes u: "in_user a s0 s"
  shows "kernel_emits a s0 F [] (s, sc) (calling s, sc)"
proof -
  have e: "same_paging (calling s) s" "filesystem_start (calling s) = filesystem_start s" "to_test (calling s) = to_test s" "tss_esp0 (calling s) = tss_esp0 s"
    "syscall_jumptable (calling s) = syscall_jumptable s" "dir_index (calling s) = dir_index s" by (simp_all add: calling_def same_paging_def)
  have d: "cur_pcb (calling s) = cur_pcb s" "fd_of (calling s) = fd_of s" "wf_fds (calling s) = wf_fds s" "shown (calling s) = shown s"
    by (auto simp: cur_pcb_def fd_of_def wf_fds_def shown_def screen_buf_def e fun_eq_iff)
  then have "in_user a s0 (calling s)" using u e by (simp add: in_user_def same_paging_def)
  then show ?thesis using d e by (simp add: kernel_emits_def)
qed

lemma typing_calling: "kernel_typing J (calling s, sc) ls = kernel_typing J (s, sc) ls"
proof -
  have "key_char (calling s) = key_char s" "char_key (calling s) = char_key s" "fd_of (calling s) = fd_of s"
    by (simp_all add: calling_def key_char_def char_key_def fd_of_def cur_pcb_def fun_eq_iff)
  then show ?thesis by (simp add: kernel_typing_def)
qed

lemma execute_refused_user:
  assumes k: "kernel_ok (at P) s0 k" and r: "kernel_refused P s0 k l" and l: "0 \<notin> set l" "length l \<le> 127" and n: "length l + length ys < ROOM"
  shows "\<exists>k'. kernel_execute P (l @ 0 # ys) k = Some (-1, k') \<and> kernel_says J (at P) s0 {} [] k k'"
proof -
  from put_name [OF k l(1) n] obtain s1 where s1: "put_bytes (at P) (l @ 0 # ys) (fst k) = Some s1" "cstr_at (ptr s1 (at P)) l" "in_user (at P) s0 s1"
    "\<And>F. kernel_emits (at P) s0 F [] k (s1, snd k)" by metis
  note w = in_userD [OF s1(3)] and tp = typing_put [OF s1(1)]
  from r obtain m ds where m: "length (fst (junk P)) = 4" "length (process s1) = 6" "m \<in> {1..5}" "process s1 ! m = 0" "image_dir (at P) s0 ds"
    "first_word l = [] \<or> 32 < length (first_word l) \<or> first_word l \<notin> dentry_name ` set ds" using tp(2) by (auto simp: kernel_refused_def)
  obtain m' where m': "m' \<in> {1..5}" "process s1 ! m' = 0" "\<forall>j \<in> {1..<m'}. process s1 ! j \<noteq> 0" using least_free [OF m(3,4)] by blast
  have dir: "directory s1 ds" using m(5) in_user_mem(8) [OF s1(3)] by (simp add: image_dir_def)
  have "length (first_word l) < 128" "length (first_word (after_word l)) < 128"
    using length_words [of l] length_words(1) [of "after_word l"] l(2) by auto
  from execute_rejects [OF w(2) m(2) m' s1(2) this dir m(1)] m(6) have "execute (junk P) (Some (ptr s1 (at P))) s1 = Some (Return (-1), calling s1)" by blast
  moreover have "aget (syscall_jumptable s1) 2 = Some (Some Sys_execute)" using syscall_table [OF w(9), of 2] by (simp add: syscalls_def)
  ultimately have "kernel_execute P (l @ 0 # ys) k = Some (-1, (calling s1, snd k))"
    using s1(1) w(1) by (simp add: kernel_execute_def ITR_SYS_entry_def syscall_def cstr_arg_def)
  moreover have "kernel_emits (at P) s0 {} ([] @ []) k (calling s1, snd k)" by (rule emits_trans' [OF s1(4) emits_calling [OF s1(3)]])
  moreover have "kernel_typing J (calling s1, snd k) ls = kernel_typing J k ls" for ls using tp(1) [of J "snd k" ls] typing_calling [of J s1 "snd k" ls] by simp
  ultimately show ?thesis using tp(2) by (simp add: kernel_says_def)
qed

section \<open>The kernel provides the interface\<close>

interpretation kshell: shell_calls "kernel_calls P" "kernel_ok (at P) s0" "kernel_says J (at P) s0" ROOM "kernel_typing J" "kernel_session (at P) s0" "kernel_refused P s0" for P J s0
proof
  fix k k' k'' :: "'a keyboard_ext user" and F G :: "int set" and xs ys l buf :: "u8 list" and ls and n :: nat
  let ?a = "at P"
  show "kernel_ok ?a s0 k \<Longrightarrow> kernel_says J ?a s0 F [] k k" using kuser.emits_refl [of P s0 k F] by (simp add: kernel_says_def)
  show "kernel_says J ?a s0 F xs k k' \<Longrightarrow> kernel_says J ?a s0 F ys k' k'' \<Longrightarrow> kernel_says J ?a s0 F (xs @ ys) k k''"
    using emits_trans' [of ?a s0 F xs k k' ys k''] by (simp add: kernel_says_def)
  show "kernel_says J ?a s0 F xs k k' \<Longrightarrow> F \<subseteq> G \<Longrightarrow> kernel_says J ?a s0 G xs k k'" using kuser.emits_mono [of P s0 F xs k k' G] by (simp add: kernel_says_def)
  show "kernel_says J ?a s0 F xs k k' \<Longrightarrow> kernel_ok ?a s0 k'" using kuser.emits_ok [of P s0 F xs k k'] by (simp add: kernel_says_def)
  show "kernel_ok ?a s0 k \<Longrightarrow> 8 \<notin> set xs \<Longrightarrow> length xs + length ys \<le> ROOM \<Longrightarrow>
      \<exists>k'. ece391_write (kernel_calls P) 1 (xs @ ys) (int (length xs)) k = Some (int (length xs), k') \<and> kernel_says J ?a s0 {} xs k k'"
    using write_says by simp
  show "kernel_says J ?a s0 {} xs k k' \<Longrightarrow> kernel_typing J k ls \<Longrightarrow> kernel_typing J k' ls" by (simp add: kernel_says_def)
  show "kernel_says J ?a s0 {} xs k k' \<Longrightarrow> kernel_session ?a s0 xs k k'" by (simp add: kernel_says_def kernel_session_def)
  show "kernel_session ?a s0 xs k k' \<Longrightarrow> kernel_session ?a s0 ys k' k'' \<Longrightarrow> kernel_session ?a s0 (xs @ ys) k k''" using emits_trans' [of ?a s0 "{}" xs k k' ys k''] by (simp add: kernel_session_def)
  show "kernel_session ?a s0 xs k k' \<Longrightarrow> kernel_ok ?a s0 k'" using kuser.emits_ok [of P s0 "{}" xs k k'] by (simp add: kernel_session_def)
  show "kernel_typing J k (l # ls) \<Longrightarrow> length l \<le> 127 \<and> 0 \<notin> set l \<and> 8 \<notin> set l \<and> 10 \<notin> set l"
  proof -
    assume "kernel_typing J k (l # ls)"
    then obtain scs where scs: "l = map (key_char (fst k)) scs" "length scs \<le> 127" "\<forall>c \<in> set scs. char_key (fst k) c" by (auto simp: kernel_typing_def Let_def)
    then show ?thesis using char_key_char [of "fst k"] by (fastforce simp: char_key_def)
  qed
  show "kernel_ok ?a s0 k \<Longrightarrow> kernel_typing J k (l # ls) \<Longrightarrow> length l < n \<Longrightarrow> n \<le> length buf \<Longrightarrow> length buf \<le> ROOM \<Longrightarrow>
      \<exists>k'. ece391_read (kernel_calls P) 0 buf (int n) k = Some (int (Suc (length l)), l @ 10 # drop (Suc (length l)) buf, k') \<and> kernel_session ?a s0 (l @ [10]) k k' \<and> kernel_typing J k' ls"
    using read_typed by simp
  show "kernel_session ?a s0 xs k k' \<Longrightarrow> kernel_refused P s0 k l \<Longrightarrow> kernel_refused P s0 k' l" by (simp add: kernel_session_def kernel_refused_def)
  show "kernel_ok ?a s0 k \<Longrightarrow> kernel_refused P s0 k l \<Longrightarrow> 0 \<notin> set l \<Longrightarrow> length l \<le> 127 \<Longrightarrow> length l + length ys < ROOM \<Longrightarrow>
      \<exists>k'. ece391_execute (kernel_calls P) (l @ 0 # ys) k = Some (-1, k') \<and> kernel_says J ?a s0 {} [] k k'"
    using execute_refused_user by simp
qed

section \<open>Conversations\<close>

lemma session_shows: "kernel_session a s xs (s, sc) k' \<Longrightarrow> shown (fst k') (terminal_num s) = spec_text xs (shown s (terminal_num s))
    \<and> (\<forall>j. 0 \<le> j \<and> j < 3 \<and> j \<noteq> terminal_num s \<longrightarrow> shown (fst k') j = shown s j)"
  by (simp add: kernel_session_def kernel_emits_def)

text \<open>
  Claim C6. A conversation with the shell, from key to screen: while the shell of the displayed terminal waits in \<open>read\<close>, the interrupts of the keys of one
  line arrive, are echoed and put into the line buffer; the shell gets the line, passes it to \<open>execute\<close>, which refuses what is not in the directory, and says so.
  When lines of this kind (or empty ones) and then \<open>exit\<close> are typed, the shell returns 0, and exactly the conversation has appeared on its terminal, below what was there;
  the other terminals show what they showed.
\<close>

theorem shell_converses:
  assumes "runs_user (at P) s" and "kernel_typing J (s, sc) (cs @ lit ''exit'' # ls)"
    and "\<forall>c \<in> set cs. c \<noteq> lit ''exit'' \<and> (c = [] \<or> kernel_refused P s (s, sc) c)" and "length buf = 1024"
  shows "\<exists>s' sc'. shell_main (kernel_calls P) buf (s, sc) = Some (0, (s', sc'))
    \<and> shown s' (terminal_num s) = spec_text (lit ''Starting 391 Shell'' @ [10] @ concat (map refusal cs) @ prompt @ lit ''exit'' @ [10]) (shown s (terminal_num s))
    \<and> (\<forall>j. 0 \<le> j \<and> j < 3 \<and> j \<noteq> terminal_num s \<longrightarrow> shown s' j = shown s j) \<and> kernel_typing J (s', sc') ls"
proof -
  from kshell.shell_session [OF runs_user_ok [OF assms(1)] assms(2-4)] obtain k' where
    k': "shell_main (kernel_calls P) buf (s, sc) = Some (0, k')"
      "kernel_session (at P) s (lit ''Starting 391 Shell'' @ [10] @ concat (map refusal cs) @ prompt @ lit ''exit'' @ [10]) (s, sc) k'" "kernel_typing J k' ls" by auto
  from session_shows [OF k'(2)] k'(1,3) show ?thesis by (intro exI [of _ "fst k'"] exI [of _ "snd k'"]) simp
qed

text \<open>
  Claim C7. \<open>hello\<close> and \<open>counter\<close> on this kernel, with somebody at the keyboard: \<open>hello\<close> asks for the name and greets with the line that was typed. \<open>counter\<close> asks for the test and
  shows the numbers from 1 to 100, 10000 or 100000, one per line, when \<open>0\<close>, \<open>1\<close> or \<open>2\<close> was typed, nothing for an empty line, and \<open>Wrong Choice!\<close> otherwise. Both
  return 0.
\<close>

theorem typed_programs_converse:
  assumes "runs_user (at P) s" and "kernel_typing J (s, sc) (l # ls)" and "length buf = 1024"
  shows "(\<exists>s' sc'. hello_main (kernel_calls P) buf (s, sc) = Some (0, (s', sc'))
      \<and> shown s' (terminal_num s) = spec_text (lit ''Hi, what's your name? '' @ l @ [10] @ lit ''Hello, '' @ l @ [10]) (shown s (terminal_num s))
      \<and> (\<forall>j. 0 \<le> j \<and> j < 3 \<and> j \<noteq> terminal_num s \<longrightarrow> shown s' j = shown s j) \<and> kernel_typing J (s', sc') ls)
    \<and> (\<exists>s' sc'. counter_main (kernel_calls P) buf (s, sc) = Some (0, (s', sc'))
      \<and> shown s' (terminal_num s) = spec_text (lit ''Enter the Test Number: (0): 100, (1): 10000, (2): 100000'' @ [10] @ l @ [10] @ counting l) (shown s (terminal_num s))
      \<and> (\<forall>j. 0 \<le> j \<and> j < 3 \<and> j \<noteq> terminal_num s \<longrightarrow> shown s' j = shown s j) \<and> kernel_typing J (s', sc') ls)"
proof
  note ok = runs_user_ok [OF assms(1)]
  from kshell.hello_session [OF ok assms(2,3)] obtain k' where
    k': "hello_main (kernel_calls P) buf (s, sc) = Some (0, k')"
      "kernel_session (at P) s (lit ''Hi, what's your name? '' @ l @ [10] @ lit ''Hello, '' @ l @ [10]) (s, sc) k'" "kernel_typing J k' ls" by auto
  from session_shows [OF k'(2)] k'(1,3) show "\<exists>s' sc'. hello_main (kernel_calls P) buf (s, sc) = Some (0, (s', sc'))
      \<and> shown s' (terminal_num s) = spec_text (lit ''Hi, what's your name? '' @ l @ [10] @ lit ''Hello, '' @ l @ [10]) (shown s (terminal_num s))
      \<and> (\<forall>j. 0 \<le> j \<and> j < 3 \<and> j \<noteq> terminal_num s \<longrightarrow> shown s' j = shown s j) \<and> kernel_typing J (s', sc') ls"
    by (intro exI [of _ "fst k'"] exI [of _ "snd k'"]) simp
  from kshell.counter_session [OF ok assms(2,3)] obtain k2 where
    k2: "counter_main (kernel_calls P) buf (s, sc) = Some (0, k2)"
      "kernel_session (at P) s (lit ''Enter the Test Number: (0): 100, (1): 10000, (2): 100000'' @ [10] @ l @ [10] @ counting l) (s, sc) k2" "kernel_typing J k2 ls" by auto
  from session_shows [OF k2(2)] k2(1,3) show "\<exists>s' sc'. counter_main (kernel_calls P) buf (s, sc) = Some (0, (s', sc'))
      \<and> shown s' (terminal_num s) = spec_text (lit ''Enter the Test Number: (0): 100, (1): 10000, (2): 100000'' @ [10] @ l @ [10] @ counting l) (shown s (terminal_num s))
      \<and> (\<forall>j. 0 \<le> j \<and> j < 3 \<and> j \<noteq> terminal_num s \<longrightarrow> shown s' j = shown s j) \<and> kernel_typing J (s', sc') ls"
    by (intro exI [of _ "fst k2"] exI [of _ "snd k2"]) simp
qed

text \<open>The process of the small image, with a keyboard on which no modifier is pressed.\<close>

definition sample_typist :: "unit keyboard_ext kernel_scheme" where
  "sample_typist = (sample_kernel \<lparr>CTRL_PRESS = 0, CAPSLOCK_PRESS = 0, SHIFT_PRESS = 0, ALT_PRESS = 0\<rparr>)\<lparr>syscall_jumptable := syscalls @ [None]\<rparr>"

definition typist_platform :: "unit keyboard_ext platform" where
  "typist_platform = \<lparr>at = 0x20000, junk = ([0, 0, 0, 0], []), cmos = 0, registers = (0, 0, 0), child = (\<lambda>e k. None)\<rparr>"

definition ls_keys :: "u8 list" where
  "ls_keys = [0x26, 0x1F]"

definition exit_keys :: "u8 list" where
  "exit_keys = [0x12, 0x2D, 0x17, 0x14]"

definition typed :: "u8 list list \<Rightarrow> unit keyboard_ext interrupts list" where
  "typed scss = map (\<lambda>scs. map (key_event ([], [])) (scs @ [ENTER_KEY])) scss"

lemma typist_same:
  "same_image sample_typist (sample_kernel \<lparr>CTRL_PRESS = 0, CAPSLOCK_PRESS = 0, SHIFT_PRESS = 0, ALT_PRESS = 0\<rparr>)"
  "fd_of sample_typist fd = ([term_fd, term_fd] @ replicate 6 closed_fd) ! nat fd" "wf_fds sample_typist" "wf_console sample_typist"
  "terminal_num sample_typist = 0" "terminal_displayed sample_typist = 0" "term_at sample_typist 0 = blank_terminal" "process sample_typist = [1, 1, 0, 0, 0, 0]"
  "to_test sample_typist = boot_block sample_typist"
proof -
  let ?s = "sample_kernel \<lparr>CTRL_PRESS = 0, CAPSLOCK_PRESS = 0, SHIFT_PRESS = 0, ALT_PRESS = 0\<rparr> :: unit keyboard_ext kernel_scheme"
  show "same_image sample_typist ?s" by (simp add: sample_typist_def same_image_def same_mem_def same_paging_def)
  show "fd_of sample_typist fd = ([term_fd, term_fd] @ replicate 6 closed_fd) ! nat fd" "wf_fds sample_typist"
    by (simp_all add: sample_typist_def fd_of_def wf_fds_def shell_pcb_def)
  show "wf_console sample_typist" using wf_blank_terminal by (simp add: sample_typist_def sample_kernel_def sample_fs_def blank_rtc_def blank_defs wf_console_def)
  show "terminal_num sample_typist = 0" "terminal_displayed sample_typist = 0" "term_at sample_typist 0 = blank_terminal" "process sample_typist = [1, 1, 0, 0, 0, 0]"
    "to_test sample_typist = boot_block sample_typist"
    by (simp_all add: sample_typist_def sample_kernel_def sample_fs_def blank_rtc_def blank_defs term_at_def)
qed

lemma typist_runs: "runs_user 0x20000 sample_typist"
proof -
  have m: "same_mem sample_typist (sample_kernel \<lparr>CTRL_PRESS = 0, CAPSLOCK_PRESS = 0, SHIFT_PRESS = 0, ALT_PRESS = 0\<rparr>)" using typist_same(1) by (simp add: same_image_def)
  have "writable sample_typist 0x20000 ROOM" unfolding same_mem_reads(8) [OF m] sample_kernel_def by (rule writable_sample) simp
  moreover have "take 9 (syscall_jumptable sample_typist) = syscalls" by (simp add: sample_typist_def syscalls_def)
  ultimately show ?thesis using typist_same(3,4) by (simp add: runs_user_def typist_same(2) term_fd_def)
qed

lemma typist_keys: "map (key_char sample_typist) ls_keys = lit ''ls''" "map (key_char sample_typist) exit_keys = lit ''exit''"
  "\<forall>c \<in> set (ls_keys @ exit_keys). char_key sample_typist c"
proof -
  have t: "keyboard_original ! 38 = 108 \<and> keyboard_original ! 31 = 115 \<and> keyboard_original ! 18 = 101 \<and> keyboard_original ! 45 = 120 \<and> keyboard_original ! 23 = 105
    \<and> keyboard_original ! 20 = 116" by code_simp
  have "CTRL_PRESS sample_typist = 0" "CAPSLOCK_PRESS sample_typist = 0" "SHIFT_PRESS sample_typist = 0"
    by (simp_all add: sample_typist_def sample_kernel_def sample_fs_def blank_rtc_def blank_defs)
  with t show "map (key_char sample_typist) ls_keys = lit ''ls''" "map (key_char sample_typist) exit_keys = lit ''exit''" "\<forall>c \<in> set (ls_keys @ exit_keys). char_key sample_typist c"
    by (simp_all add: key_char_def char_key_def special_keys_def ls_keys_def exit_keys_def lit_def byte_of_def)
qed

lemma typist_typing:
  assumes "\<forall>scs \<in> set scss. scs \<in> {ls_keys, exit_keys, []}"
  shows "kernel_typing ([], []) (sample_typist, typed scss) (map (map (key_char sample_typist)) scss)"
proof -
  have "length scs \<le> 127 \<and> (\<forall>c \<in> set scs. char_key sample_typist c)" if "scs \<in> set scss" for scs
    using assms that typist_keys(3) by (fastforce simp: ls_keys_def exit_keys_def)
  then show ?thesis using typist_same by (auto simp: kernel_typing_def Let_def typed_def term_fd_def keys_blank pending_keys_def)
qed

lemma typist_refuses: "kernel_refused typist_platform sample_typist (sample_typist, sc) (lit ''ls'')"
proof -
  let ?s = "sample_kernel \<lparr>CTRL_PRESS = 0, CAPSLOCK_PRESS = 0, SHIFT_PRESS = 0, ALT_PRESS = 0\<rparr> :: unit keyboard_ext kernel_scheme"
  note i = typist_same(1)
  then have m: "same_mem sample_typist ?s" by (simp add: same_image_def)
  have "directory sample_typist sample_dir" "dir_addrs sample_typist = dir_addrs ?s" using same_image_reads [OF i] sample_directory unfolding sample_kernel_def by simp_all
  moreover have "dir_addrs ?s (length sample_dir) \<inter> buffers 0x20000 sample_typist = {}"
    unfolding buffers_def same_mem_reads(6) [OF m] sample_kernel_def using sample_dir_addrs sample_buffer [of ROOM] by fastforce
  ultimately have "image_dir 0x20000 sample_typist sample_dir" using typist_same(9) by (simp add: image_dir_def)
  moreover have "first_word (lit ''ls'') = lit ''ls''" by code_simp
  moreover have "lit ''ls'' \<notin> dentry_name ` set sample_dir" by code_simp
  ultimately show ?thesis using typist_same(8) by (auto simp: kernel_refused_def typist_platform_def intro!: bexI [of _ 2])
qed

theorem shell_converses_witness:
  "\<exists>s' sc'. shell_main (kernel_calls typist_platform) (replicate 1024 0) (sample_typist, typed [ls_keys, [], exit_keys]) = Some (0, (s', sc'))
    \<and> shown s' 0 = spec_text (lit ''Starting 391 Shell'' @ [10] @ lit ''391OS> ls'' @ [10] @ lit ''no such command'' @ [10] @ lit ''391OS> '' @ [10] @ lit ''391OS> exit'' @ [10])
        (shown sample_typist 0)"
proof -
  have "kernel_typing ([], []) (sample_typist, typed [ls_keys, [], exit_keys]) ([lit ''ls'', []] @ lit ''exit'' # [])"
    using typist_typing [of "[ls_keys, [], exit_keys]"] typist_keys(1,2) by simp
  moreover have "\<forall>c \<in> set [lit ''ls'', []]. c \<noteq> lit ''exit'' \<and> (c = [] \<or> kernel_refused typist_platform sample_typist (sample_typist, typed [ls_keys, [], exit_keys]) c)"
    using typist_refuses by (simp add: lit_def)
  moreover have "at typist_platform = 0x20000" by (simp add: typist_platform_def)
  moreover have "lit ''ls'' \<noteq> []" by (simp add: lit_def)
  ultimately show ?thesis
    using shell_converses [of typist_platform sample_typist "([], [])" "typed [ls_keys, [], exit_keys]" "[lit ''ls'', []]" "[]" "replicate 1024 0"] typist_runs typist_same(5)
    by (simp add: refusal_def prompt_def lit_def) blast
qed

theorem typed_programs_converse_witness:
  "\<exists>s' sc'. hello_main (kernel_calls typist_platform) (replicate 1024 0) (sample_typist, typed [ls_keys]) = Some (0, (s', sc'))
    \<and> shown s' 0 = spec_text (lit ''Hi, what's your name? ls'' @ [10] @ lit ''Hello, ls'' @ [10]) (shown sample_typist 0)"
proof -
  have "kernel_typing ([], []) (sample_typist, typed [ls_keys]) (lit ''ls'' # [])" using typist_typing [of "[ls_keys]"] typist_keys(1) by simp
  moreover have "at typist_platform = 0x20000" by (simp add: typist_platform_def)
  ultimately show ?thesis
    using typed_programs_converse [of typist_platform sample_typist "([], [])" "typed [ls_keys]" "lit ''ls''" "[]" "replicate 1024 0", THEN conjunct1] typist_runs typist_same(5)
    by (simp add: lit_def) blast
qed

end
