(* ===== verification/Sigtest.thy ===== *)
theory Sigtest
  imports Interactive
begin

text \<open>
  ece391sigtest.c, the test of signals, and what becomes of it on a kernel without signals: the calls that install its handlers are refused, and the store
  through the null pointer that the handler is to repair is a page fault. The handlers are functions of their own, which nothing on this kernel calls.

  Besides the system calls of \<open>calls\<close> the program uses \<open>ece391_set_handler\<close> and the memory at \<open>badbuf\<close> and \<open>charbuf\<close>, given by the record below.
\<close>

section \<open>The program\<close>

record 'k signals =
  ece391_set_handler :: "int \<Rightarrow> u32 \<Rightarrow> 'k \<Rightarrow> (int \<times> 'k) option"
  store_byte :: "u32 \<Rightarrow> u8 \<Rightarrow> 'k \<Rightarrow> 'k option"
  load_byte :: "u32 \<Rightarrow> 'k \<Rightarrow> u8 option"
  segfault_at :: u32
  alarm_at :: u32
  charbuf_at :: u32

text \<open>The program returns, or the store faults.\<close>

datatype 'k sigtest_end = Returned int 'k | Faulted 'k

definition SEGFAULT :: int where "SEGFAULT = 1"

definition ALARM :: int where "ALARM = 3"

definition install_handlers :: "'k calls \<Rightarrow> 'k signals \<Rightarrow> u8 list \<Rightarrow> 'k \<Rightarrow> 'k option" where
  "install_handlers C G buf k = do {
     c \<leftarrow> aget buf 0;
     if c = byte_of (CHR ''1'') then do {
       k \<leftarrow> ece391_fdputs C 1 (line ''Installing signal handlers'') k;
       (r, k) \<leftarrow> ece391_set_handler G SEGFAULT (segfault_at G) k;
       (r, k) \<leftarrow> ece391_set_handler G ALARM (alarm_at G) k;
       Some k
     } else Some k
   }"

definition sigtest_greet :: "'k calls \<Rightarrow> 'k signals \<Rightarrow> u8 list \<Rightarrow> int \<Rightarrow> 'k \<Rightarrow> 'k sigtest_end option" where
  "sigtest_greet C G buf cnt k = do {
     buf \<leftarrow> aset buf cnt 0;
     k \<leftarrow> ece391_fdputs C 1 (literal ''Hello, '') k;
     k \<leftarrow> ece391_fdputs C 1 buf k;
     c \<leftarrow> load_byte G (charbuf_at G) k;
     k \<leftarrow> ece391_fdputs C 1 (line (if c = 1 then ''success'' else ''failure'')) k;
     Some (Returned 0 k)
   }"

text \<open>\<open>badbuf\<close> is the value of the volatile variable when the store is made; it is 0 unless a handler has run.\<close>

definition sigtest_main :: "'k calls \<Rightarrow> 'k signals \<Rightarrow> u32 \<Rightarrow> u8 list \<Rightarrow> 'k \<Rightarrow> 'k sigtest_end option" where
  "sigtest_main C G badbuf buf k = do {
     (r, buf, k) \<leftarrow> ece391_getargs C buf 1024 k;
     if r \<noteq> 0 then do {
       k \<leftarrow> ece391_fdputs C 1 (line ''could not read argument'') k;
       Some (Returned 3 k)
     } else do {
       k \<leftarrow> install_handlers C G buf k;
       k \<leftarrow> ece391_fdputs C 1 (literal ''Hi, what's your name? '') k;
       (cnt, buf, k) \<leftarrow> ece391_read C 0 buf 1023 k;
       if cnt = -1 then do {
         k \<leftarrow> ece391_fdputs C 1 (line ''Can't read name from keyboard.'') k;
         Some (Returned 3 k)
       } else case store_byte G badbuf 1 k of
         None \<Rightarrow> Some (Faulted k)
       | Some k \<Rightarrow> sigtest_greet C G buf cnt k
     }
   }"

definition signum_text :: "int \<Rightarrow> string" where
  "signum_text signum = (if signum = 0 then ''0'' else if signum = 1 then ''1'' else if signum = 2 then ''2'' else if signum = 3 then ''3'' else ''invalid'')"

text \<open>
  The handler for the fault. \<open>frame\<close> is the stack from the argument \<open>signum\<close> upward, by words, with the registers of the interrupted program, \<open>buf\<close> what its
  local byte happens to hold; the results are the new value of \<open>badbuf\<close> and the frame with the address of \<open>charbuf\<close> in place of \<open>eax\<close>.
\<close>

definition segfault_sighandler :: "'k calls \<Rightarrow> 'k signals \<Rightarrow> u8 \<Rightarrow> u32 list \<Rightarrow> 'k \<Rightarrow> (u32 \<times> u32 list \<times> 'k) option" where
  "segfault_sighandler C G buf frame k = do {
     k \<leftarrow> ece391_fdputs C 1 (literal ''Segfault signal handler called, signum: '') k;
     signum \<leftarrow> aget frame 0;
     k \<leftarrow> ece391_fdputs C 1 (line (signum_text (sint signum))) k;
     k \<leftarrow> ece391_fdputs C 1 (line ''Press enter to continue...'') k;
     (r, bufs, k) \<leftarrow> ece391_read C 0 [buf] 1 k;
     frame \<leftarrow> aset frame 7 (charbuf_at G);
     k \<leftarrow> ece391_fdputs C 1 (line ''Signal handler returning'') k;
     Some (charbuf_at G, frame, k)
   }"

definition alarm_sighandler :: "'k calls \<Rightarrow> int \<Rightarrow> 'k \<Rightarrow> 'k option" where
  "alarm_sighandler C signum k = do {
     k \<leftarrow> ece391_fdputs C 1 (literal ''Alarm signal handler called, signum: '') k;
     ece391_fdputs C 1 (line (signum_text signum)) k
   }"

section \<open>Over the laws of the calls\<close>

text \<open>The notice for the argument \<open>xs\<close>.\<close>

definition installing :: "u8 list \<Rightarrow> u8 list" where
  "installing xs = (if hd xs = byte_of (CHR ''1'') then lit ''Installing signal handlers'' @ [10] else [])"

text \<open>What the program needs: it can read its argument, installing a handler changes nothing that is shown, and page 0 is guarded.\<close>

locale signal_calls = keyboard_calls C ok says room typing session
  for C :: "'k calls" and ok :: "'k \<Rightarrow> bool" and says :: "int set \<Rightarrow> u8 list \<Rightarrow> 'k \<Rightarrow> 'k \<Rightarrow> bool" and room :: nat
    and typing :: "'k \<Rightarrow> u8 list list \<Rightarrow> bool" and session :: "u8 list \<Rightarrow> 'k \<Rightarrow> 'k \<Rightarrow> bool" +
  fixes G :: "'k signals"
    and argument :: "'k \<Rightarrow> u8 list \<Rightarrow> bool"
    and guarded :: "'k \<Rightarrow> bool"
  assumes get_argument: "ok k \<Longrightarrow> argument k xs \<Longrightarrow> length xs < n \<Longrightarrow> length buf = n \<Longrightarrow> n \<le> room \<Longrightarrow>
      \<exists>ys k'. ece391_getargs C buf (int n) k = (if xs = [] then Some (-1, buf, k') else Some (0, xs @ 0 # ys, k')) \<and> length xs + Suc (length ys) = n \<and> says {} [] k k'"
    and handler_installed: "ok k \<Longrightarrow> \<exists>r k'. ece391_set_handler G i h k = Some (r, k') \<and> says {} [] k k'"
    and guarded_kept: "session xs k k' \<Longrightarrow> guarded k \<Longrightarrow> guarded k'"
    and guarded_faults: "ok k \<Longrightarrow> guarded k \<Longrightarrow> store_byte G 0 b k = None"
begin

lemma install_session:
  assumes "ok k" and "typing k ls" and "xs \<noteq> []" and "1024 \<le> room"
  shows "\<exists>k'. install_handlers C G (xs @ ys) k = Some k' \<and> session (installing xs) k k' \<and> typing k' ls"
proof -
  have h: "aget (xs @ ys) 0 = Some (hd xs)" using assms(3) by (cases xs) (simp_all add: aget_def)
  show ?thesis
  proof (cases "hd xs = byte_of (CHR ''1'')")
    case True
    have p: "plain ''Installing signal handlers''" by (simp add: plain_def byte_of_def)
    from line_typing [OF assms(1,2) p] assms(4) obtain k1 where
      k1: "ece391_fdputs C 1 (line ''Installing signal handlers'') k = Some k1" "session (lit ''Installing signal handlers'' @ [10]) k k1" "typing k1 ls" by auto
    from handler_installed [OF session_ok [OF k1(2)]] obtain r2 k2 where k2: "ece391_set_handler G SEGFAULT (segfault_at G) k1 = Some (r2, k2)" "says {} [] k1 k2" by blast
    from handler_installed [OF emits_ok [OF k2(2)]] obtain r3 k3 where k3: "ece391_set_handler G ALARM (alarm_at G) k2 = Some (r3, k3)" "says {} [] k2 k3" by blast
    have "session ((lit ''Installing signal handlers'' @ [10]) @ [] @ []) k k3"
      using session_trans [OF k1(2) session_trans [OF says_session [OF k2(2)] says_session [OF k3(2)]]] .
    then show ?thesis using k1(1) k2(1) k3(1) says_typing [OF k3(2) says_typing [OF k2(2) k1(3)]] True h
      by (simp add: install_handlers_def installing_def)
  next
    case False
    then show ?thesis using says_session [OF emits_refl [OF assms(1)]] assms(2) h
      by (simp add: install_handlers_def installing_def)
  qed
qed

lemma sigtest_session:
  assumes "ok k" and "typing k (l # ls)" and "argument k xs" and "guarded k" and "length xs < 1024" and "length buf = 1024" and "1024 \<le> room"
  shows "\<exists>k'. if xs = [] then sigtest_main C G 0 buf k = Some (Returned 3 k') \<and> session (lit ''could not read argument'' @ [10]) k k' \<and> typing k' (l # ls)
    else sigtest_main C G 0 buf k = Some (Faulted k') \<and> session (installing xs @ lit ''Hi, what's your name? '' @ l @ [10]) k k' \<and> typing k' ls"
proof -
  have p: "plain ''could not read argument''" "plain ''Hi, what's your name? ''" by (simp_all add: plain_def byte_of_def)
  from get_argument [OF assms(1,3,5,6)] assms(7) obtain ys k1 where
    k1: "ece391_getargs C buf 1024 k = (if xs = [] then Some (-1, buf, k1) else Some (0, xs @ 0 # ys, k1))" "length xs + Suc (length ys) = 1024" "says {} [] k k1" by auto
  note ok1 = emits_ok [OF k1(3)] and t1 = says_typing [OF k1(3) assms(2)]
  show ?thesis
  proof (cases "xs = []")
    case True
    from line_typing [OF ok1 t1 p(1)] assms(7) obtain k2 where
      k2: "ece391_fdputs C 1 (line ''could not read argument'') k1 = Some k2" "session (lit ''could not read argument'' @ [10]) k1 k2" "typing k2 (l # ls)" by auto
    from session_trans [OF says_session [OF k1(3)] k2(2)] k2(1,3) k1(1) True show ?thesis by (simp add: sigtest_main_def)
  next
    case False
    from install_session [OF ok1 t1 False assms(7), of "0 # ys"] obtain k2 where
      k2: "install_handlers C G (xs @ 0 # ys) k1 = Some k2" "session (installing xs) k1 k2" "typing k2 (l # ls)" by blast
    from literal_typing [OF session_ok [OF k2(2)] k2(3) p(2)] assms(7) obtain k3 where
      k3: "ece391_fdputs C 1 (literal ''Hi, what's your name? '') k2 = Some k3" "session (lit ''Hi, what's your name? '') k2 k3" "typing k3 (l # ls)" by auto
    from read_buffer [OF session_ok [OF k3(2)] k3(3), of "xs @ 0 # ys"] k1(2) assms(7) obtain zs k4 where
      k4: "ece391_read C 0 (xs @ 0 # ys) 1023 k3 = Some (int (Suc (length l)), l @ 10 # zs, k4)" "session (l @ [10]) k3 k4" "typing k4 ls" by auto
    have s: "session ([] @ installing xs @ lit ''Hi, what's your name? '' @ l @ [10]) k k4"
      using session_trans [OF says_session [OF k1(3)] session_trans [OF k2(2) session_trans [OF k3(2) k4(2)]]] .
    have "store_byte G 0 1 k4 = None" using guarded_faults [OF session_ok [OF s] guarded_kept [OF s assms(4)]] .
    with False k1(1) k2(1) k3(1) k4(1,3) s show ?thesis by (simp add: sigtest_main_def)
  qed
qed

text \<open>Called with signal number 1, the handler asks for the enter key and leaves the address of \<open>charbuf\<close> in \<open>badbuf\<close> and in the saved \<open>eax\<close>.\<close>

lemma segfault_session:
  assumes "ok k" and "typing k ([] # ls)" and "length frame = 8" and "frame ! 0 = 1" and "1024 \<le> room"
  shows "\<exists>k'. segfault_sighandler C G c frame k = Some (charbuf_at G, frame[7 := charbuf_at G], k') \<and> typing k' ls
    \<and> session (lit ''Segfault signal handler called, signum: 1'' @ [10] @ lit ''Press enter to continue...'' @ [10] @ [10] @ lit ''Signal handler returning'' @ [10]) k k'"
proof -
  have p: "plain ''Segfault signal handler called, signum: ''" "plain ''1''" "plain ''Press enter to continue...''" "plain ''Signal handler returning''"
    by (simp_all add: plain_def byte_of_def)
  from literal_typing [OF assms(1,2) p(1)] assms(5) obtain k1 where
    k1: "ece391_fdputs C 1 (literal ''Segfault signal handler called, signum: '') k = Some k1" "session (lit ''Segfault signal handler called, signum: '') k k1" "typing k1 ([] # ls)" by auto
  from line_typing [OF session_ok [OF k1(2)] k1(3) p(2)] assms(5) obtain k2 where
    k2: "ece391_fdputs C 1 (line ''1'') k1 = Some k2" "session (lit ''1'' @ [10]) k1 k2" "typing k2 ([] # ls)" by auto
  from line_typing [OF session_ok [OF k2(2)] k2(3) p(3)] assms(5) obtain k3 where
    k3: "ece391_fdputs C 1 (line ''Press enter to continue...'') k2 = Some k3" "session (lit ''Press enter to continue...'' @ [10]) k2 k3" "typing k3 ([] # ls)" by auto
  from read_line [OF session_ok [OF k3(2)] k3(3), of 1 "[c]"] assms(5) obtain k4 where
    k4: "ece391_read C 0 [c] 1 k3 = Some (1, [10], k4)" "session ([] @ [10]) k3 k4" "typing k4 ls" by auto
  from line_typing [OF session_ok [OF k4(2)] k4(3) p(4)] assms(5) obtain k5 where
    k5: "ece391_fdputs C 1 (line ''Signal handler returning'') k4 = Some k5" "session (lit ''Signal handler returning'' @ [10]) k4 k5" "typing k5 ls" by auto
  have "segfault_sighandler C G c frame k = Some (charbuf_at G, frame[7 := charbuf_at G], k5)"
    using k1(1) k2(1) k3(1) k4(1) k5(1) assms(3,4) by (simp add: segfault_sighandler_def aget_def aset_def signum_text_def)
  moreover have "session (lit ''Segfault signal handler called, signum: '' @ (lit ''1'' @ [10]) @ (lit ''Press enter to continue...'' @ [10]) @ ([] @ [10]) @ lit ''Signal handler returning'' @ [10]) k k5"
    using session_trans [OF k1(2) session_trans [OF k2(2) session_trans [OF k3(2) session_trans [OF k4(2) k5(2)]]]] .
  ultimately show ?thesis using k5(3) by (simp add: lit_def)
qed

end

section \<open>On this kernel\<close>

definition kernel_set_handler :: "'a platform \<Rightarrow> int \<Rightarrow> u32 \<Rightarrow> 'a user \<Rightarrow> (int \<times> 'a user) option" where
  "kernel_set_handler P signum handler k = do {
     (r, s) \<leftarrow> DO_CALL P [] 9 (word_of_int signum) handler 0 (fst k);
     Some (r, (s, snd k))
   }"

text \<open>Accesses of the program itself, to pages that are present and open to it.\<close>

definition user_store :: "u32 \<Rightarrow> u8 \<Rightarrow> 'a user \<Rightarrow> 'a user option" where
  "user_store a b k = do {
     p \<leftarrow> user_translate (fst k) a;
     Some ((fst k)\<lparr>phys := (phys (fst k))(p := b)\<rparr>, snd k)
   }"

definition user_load :: "u32 \<Rightarrow> 'a user \<Rightarrow> u8 option" where
  "user_load a k = map_option (phys (fst k)) (user_translate (fst k) a)"

definition kernel_signals :: "'a platform \<Rightarrow> u32 \<times> u32 \<times> u32 \<Rightarrow> 'a user signals" where
  "kernel_signals P addrs = \<lparr>ece391_set_handler = kernel_set_handler P, store_byte = user_store, load_byte = user_load,
     segfault_at = fst addrs, alarm_at = fst (snd addrs), charbuf_at = snd (snd addrs)\<rparr>"

lemma set_handler_refused:
  assumes "kernel_ok a s0 k"
  shows "kernel_set_handler P i h k = Some (-1, k)"
proof -
  have "DO_CALL P [] 9 (word_of_int i) h 0 (fst k) = Some (-1, fst k)" using do_calls(7) [of a s0 "fst k" 9] assms by (simp add: kernel_ok_def)
  then show ?thesis by (simp add: kernel_set_handler_def)
qed

lemma argument_says:
  assumes "kernel_ok (at P) s0 k" and "kernel_argument (at P) s0 k xs" and "length xs < n" and "length buf = n" and "n \<le> ROOM"
  shows "\<exists>ys k'. kernel_getargs P buf (int n) k = (if xs = [] then Some (-1, buf, k') else Some (0, xs @ 0 # ys, k'))
    \<and> length xs + Suc (length ys) = n \<and> kernel_says J (at P) s0 {} [] k k'"
proof -
  obtain ys k' where
    k': "kernel_getargs P buf (int n) k = (if xs = [] then Some (-1, buf, k') else Some (0, xs @ 0 # ys, k'))" "length xs + Suc (length ys) = n"
      "kernel_emits (at P) s0 {} [] k k'" and m: "\<exists>f. k' = ((fst k)\<lparr>phys := f\<rparr>, snd k)"
    using argument_user_mem [OF assms(1) refl assms(2-5)] by blast
  from m obtain f where f: "k' = ((fst k)\<lparr>phys := f\<rparr>, snd k)" by blast
  have "kernel_typing J k' ls = kernel_typing J k ls" for ls unfolding f by simp
  moreover have "process (fst k') = process (fst k)" using f by simp
  ultimately have "kernel_says J (at P) s0 {} [] k k'" using k'(3) by (simp add: kernel_says_def)
  with k'(1,2) show ?thesis by blast
qed

interpretation ksignals: signal_calls "kernel_calls P" "kernel_ok (at P) s0" "kernel_says J (at P) s0" ROOM "kernel_typing J" "kernel_session (at P) s0"
  "kernel_signals P addrs" "kernel_argument (at P) s0" "\<lambda>k. user_translate s0 0 = None" for P J s0 addrs
proof
  fix k k' :: "'a keyboard_ext user" and xs buf :: "u8 list" and n :: nat and i :: int and h :: u32 and b :: u8
  show "kernel_ok (at P) s0 k \<Longrightarrow> kernel_argument (at P) s0 k xs \<Longrightarrow> length xs < n \<Longrightarrow> length buf = n \<Longrightarrow> n \<le> ROOM \<Longrightarrow>
      \<exists>ys k'. ece391_getargs (kernel_calls P) buf (int n) k = (if xs = [] then Some (-1, buf, k') else Some (0, xs @ 0 # ys, k'))
        \<and> length xs + Suc (length ys) = n \<and> kernel_says J (at P) s0 {} [] k k'"
    unfolding kernel_calls_simps by (rule argument_says)
  show "kernel_ok (at P) s0 k \<Longrightarrow> \<exists>r k'. ece391_set_handler (kernel_signals P addrs) i h k = Some (r, k') \<and> kernel_says J (at P) s0 {} [] k k'"
    using set_handler_refused [of "at P" s0 k P i h] kshell.emits_refl [of P s0 k J "{}"] by (auto simp: kernel_signals_def)
  show "kernel_ok (at P) s0 k \<Longrightarrow> user_translate s0 0 = None \<Longrightarrow> store_byte (kernel_signals P addrs) 0 b k = None"
    using user_translate_same [of "fst k" s0 0] by (simp add: kernel_signals_def user_store_def kernel_ok_def in_user_def)
qed



end
