(* ===== verification/Blink.thy ===== *)
theory Blink
  imports User_Lib
begin

text \<open>
  The blinking characters of the animation program, fish/blink.h and fish/blink.S, with the allocator \<open>mp1_malloc\<close> and \<open>mp1_free\<close> of
  fish/fish.c: a linked list of structures in the static array \<open>blink_array\<close>, a tick that counts down and toggles every character, and
  the four requests of \<open>mp1_ioctl\<close>.

  All list elements come from the array, so a pointer to a structure is an index, with \<open>None\<close> for the null pointer. \<open>vmem\<close> is the
  page that \<open>vmem_base_addr\<close> points to.
\<close>

section \<open>Data\<close>

record blink =
  location :: u16
  on_char :: u8
  off_char :: u8
  on_length :: u16
  off_length :: u16
  countdown :: u16
  status :: u16
  nxt :: "nat option"

record fish =
  blink_array :: "blink list"
  mp1_list_head :: "nat option"
  vmem :: "u8 list"

text \<open>The argument of \<open>mp1_ioctl\<close> is the address of a structure for two of the commands and a number for the others.\<close>

datatype request = RTC_ADD blink | RTC_REMOVE u32 | RTC_FIND blink | RTC_SYNC u32

section \<open>Memory\<close>

definition zero_blink :: blink where
  "zero_blink = \<lparr>location = 0, on_char = 0, off_char = 0, on_length = 0, off_length = 0, countdown = 0, status = 0, nxt = None\<rparr>"

definition get_blink :: "nat \<Rightarrow> fish \<Rightarrow> blink option" where
  "get_blink p s = aget (blink_array s) (int p)"

definition set_blink :: "nat \<Rightarrow> blink \<Rightarrow> fish \<Rightarrow> fish option" where
  "set_blink p b s = do { a \<leftarrow> aset (blink_array s) (int p) b; Some (s\<lparr>blink_array := a\<rparr>) }"

primrec malloc_scan :: "fish \<Rightarrow> nat \<Rightarrow> nat \<Rightarrow> nat option option" where
  "malloc_scan s i 0 = Some None"
| "malloc_scan s i (Suc n) = do {
     b \<leftarrow> get_blink i s;
     if location b = 0 then Some (Some i) else malloc_scan s (Suc i) n
   }"

definition mp1_malloc :: "fish \<Rightarrow> nat option option" where
  "mp1_malloc s = malloc_scan s 0 (80 * 25)"

definition mp1_free :: "nat \<Rightarrow> fish \<Rightarrow> fish option" where
  "mp1_free p s = set_blink p zero_blink s"

definition mp1_poke :: "u8 \<Rightarrow> int \<Rightarrow> fish \<Rightarrow> fish option" where
  "mp1_poke cl eax s = do { v \<leftarrow> aset (vmem s) eax cl; Some (s\<lparr>vmem := v\<rparr>) }"

section \<open>The tick\<close>

text \<open>\<open>decw\<close>, a signed comparison with 0, and when the count is used up the other character and its length.\<close>

definition tasklet_step :: "nat \<Rightarrow> fish \<Rightarrow> fish option" where
  "tasklet_step ebx s = do {
     b \<leftarrow> get_blink ebx s;
     let b = b\<lparr>countdown := countdown b - 1\<rparr>;
     s \<leftarrow> set_blink ebx b s;
     if 0 < sint (countdown b) then Some s
     else do {
       let eax = 2 * uint (location b);
       if status b AND 1 \<noteq> 0 then do {
         s \<leftarrow> mp1_poke (off_char b) eax s;
         set_blink ebx (b\<lparr>countdown := off_length b, status := status b XOR 1\<rparr>) s
       } else do {
         s \<leftarrow> mp1_poke (on_char b) eax s;
         set_blink ebx (b\<lparr>countdown := on_length b, status := status b XOR 1\<rparr>) s
       }
     }
   }"

partial_function (option) tasklet_loop :: "nat option \<Rightarrow> fish \<Rightarrow> fish option" where
  "tasklet_loop ebx s = (case ebx of
      None \<Rightarrow> Some s
    | Some p \<Rightarrow> do {
        s \<leftarrow> tasklet_step p s;
        b \<leftarrow> get_blink p s;
        tasklet_loop (nxt b) s
      })"

definition mp1_rtc_tasklet :: "fish \<Rightarrow> fish option" where
  "mp1_rtc_tasklet s = tasklet_loop (mp1_list_head s) s"

section \<open>Requests\<close>

partial_function (option) find_loop :: "u16 \<Rightarrow> nat option \<Rightarrow> fish \<Rightarrow> nat option option" where
  "find_loop ax ebx s = (case ebx of
      None \<Rightarrow> Some None
    | Some p \<Rightarrow> do {
        b \<leftarrow> get_blink p s;
        if location b = ax then Some (Some p) else find_loop ax (nxt b) s
      })"

definition mp1_find_helper :: "u16 \<Rightarrow> fish \<Rightarrow> nat option option" where
  "mp1_find_helper ax s = find_loop ax (mp1_list_head s) s"

definition mp1_ioctl_add :: "blink \<Rightarrow> fish \<Rightarrow> (int \<times> fish) option" where
  "mp1_ioctl_add user s =
     (if location user \<ge> 80 * 25 then Some (-1, s)
      else do {
        let b = user\<lparr>status := 1, countdown := on_length user\<rparr>;
        m \<leftarrow> mp1_malloc s;
        case m of
          None \<Rightarrow> Some (-1, s)
        | Some p \<Rightarrow> do {
            s \<leftarrow> set_blink p b s;
            s \<leftarrow> set_blink p (b\<lparr>nxt := mp1_list_head s\<rparr>) s;
            let s = s\<lparr>mp1_list_head := Some p\<rparr>;
            s \<leftarrow> mp1_poke (on_char b) (2 * uint (location b)) s;
            Some (0, s)
          }
      })"

text \<open>The place that holds a pointer to a list element: the head of the list, or the link of another element.\<close>

datatype cell = Head | Link nat

definition read_cell :: "cell \<Rightarrow> fish \<Rightarrow> nat option option" where
  "read_cell c s = (case c of Head \<Rightarrow> Some (mp1_list_head s) | Link p \<Rightarrow> do { b \<leftarrow> get_blink p s; Some (nxt b) })"

definition write_cell :: "cell \<Rightarrow> nat option \<Rightarrow> fish \<Rightarrow> fish option" where
  "write_cell c v s = (case c of Head \<Rightarrow> Some (s\<lparr>mp1_list_head := v\<rparr>) | Link p \<Rightarrow> do { b \<leftarrow> get_blink p s; set_blink p (b\<lparr>nxt := v\<rparr>) s })"

partial_function (option) remove_find_prev :: "nat \<Rightarrow> cell \<Rightarrow> fish \<Rightarrow> cell option" where
  "remove_find_prev eax edx s = do {
     q \<leftarrow> read_cell edx s;
     if q = Some eax then Some edx
     else do { p \<leftarrow> q; remove_find_prev eax (Link p) s }
   }"

definition mp1_ioctl_remove :: "u32 \<Rightarrow> fish \<Rightarrow> (int \<times> fish) option" where
  "mp1_ioctl_remove arg s = do {
     m \<leftarrow> mp1_find_helper (ucast arg) s;
     case m of
       None \<Rightarrow> Some (-1, s)
     | Some p \<Rightarrow> do {
         edx \<leftarrow> remove_find_prev p Head s;
         b \<leftarrow> get_blink p s;
         s \<leftarrow> write_cell edx (nxt b) s;
         s \<leftarrow> mp1_free p s;
         Some (0, s)
       }
   }"

text \<open>
  After the copy of the four fields, \<open>testb $0x1,STATUS\<close> and \<open>cmovl\<close>: the character for the state \<open>on\<close> is taken when the sign flag of
  the tested byte differs from the (cleared) overflow flag.
\<close>

definition sync_char :: "blink \<Rightarrow> u8" where
  "sync_char b = (let SF = bit ((ucast (status b) :: u8) AND 1) 7; OF = False in if SF \<noteq> OF then on_char b else off_char b)"

definition mp1_ioctl_sync :: "u32 \<Rightarrow> fish \<Rightarrow> (int \<times> fish) option" where
  "mp1_ioctl_sync arg s = do {
     m \<leftarrow> mp1_find_helper (ucast (drop_bit 16 arg)) s;
     case m of
       None \<Rightarrow> Some (-1, s)
     | Some esi \<Rightarrow> do {
         m \<leftarrow> mp1_find_helper (ucast (arg AND 0xFFFF)) s;
         case m of
           None \<Rightarrow> Some (-1, s)
         | Some edi \<Rightarrow> do {
             a \<leftarrow> get_blink esi s;
             b \<leftarrow> get_blink edi s;
             let b = b\<lparr>on_length := on_length a, off_length := off_length a, countdown := countdown a, status := status a\<rparr>;
             s \<leftarrow> set_blink edi b s;
             s \<leftarrow> mp1_poke (sync_char b) (2 * uint (location b)) s;
             Some (0, s)
           }
       }
   }"

definition mp1_ioctl_find :: "blink \<Rightarrow> fish \<Rightarrow> (int \<times> blink) option" where
  "mp1_ioctl_find user s = do {
     m \<leftarrow> mp1_find_helper (location user) s;
     case m of
       None \<Rightarrow> Some (-1, user)
     | Some p \<Rightarrow> do { b \<leftarrow> get_blink p s; Some (0, b) }
   }"

definition mp1_ioctl :: "request \<Rightarrow> fish \<Rightarrow> (int \<times> request \<times> fish) option" where
  "mp1_ioctl r s = (case r of
      RTC_ADD b \<Rightarrow> do { (x, s) \<leftarrow> mp1_ioctl_add b s; Some (x, r, s) }
    | RTC_REMOVE n \<Rightarrow> do { (x, s) \<leftarrow> mp1_ioctl_remove n s; Some (x, r, s) }
    | RTC_FIND b \<Rightarrow> do { (x, b) \<leftarrow> mp1_ioctl_find b s; Some (x, RTC_FIND b, s) }
    | RTC_SYNC n \<Rightarrow> do { (x, s) \<leftarrow> mp1_ioctl_sync n s; Some (x, r, s) })"

section \<open>The list of blinking characters\<close>

text \<open>The abstract state is the list of the structures, without their links; \<open>ps\<close> are the indices of the list elements in order.\<close>

primrec chain :: "blink list \<Rightarrow> nat option \<Rightarrow> nat list \<Rightarrow> bool" where
  "chain a p [] \<longleftrightarrow> p = None"
| "chain a p (q # qs) \<longleftrightarrow> p = Some q \<and> q < length a \<and> chain a (nxt (a ! q)) qs"

definition strip :: "blink \<Rightarrow> blink" where
  "strip b = b\<lparr>nxt := None\<rparr>"

definition wf_fish :: "fish \<Rightarrow> nat list \<Rightarrow> bool" where
  "wf_fish s ps \<longleftrightarrow> length (blink_array s) = 2000 \<and> length (vmem s) = 4096 \<and> chain (blink_array s) (mp1_list_head s) ps \<and> distinct ps
     \<and> (\<forall>q < 2000. location (blink_array s ! q) = 0 \<longleftrightarrow> q \<notin> set ps) \<and> (\<forall>q < 2000. location (blink_array s ! q) < 2000)"

definition blinks :: "fish \<Rightarrow> blink list \<Rightarrow> bool" where
  "blinks s bs \<longleftrightarrow> (\<exists>ps. wf_fish s ps \<and> bs = map (\<lambda>q. strip (blink_array s ! q)) ps)"

text \<open>What the tick does to one character and to the screen.\<close>

definition tick :: "blink \<Rightarrow> blink" where
  "tick b = (let c = countdown b - 1 in
     if 0 < sint c then b\<lparr>countdown := c\<rparr>
     else b\<lparr>countdown := (if status b AND 1 \<noteq> 0 then off_length b else on_length b), status := status b XOR 1\<rparr>)"

definition tick_screen :: "u8 list \<Rightarrow> blink \<Rightarrow> u8 list" where
  "tick_screen v b = (if 0 < sint (countdown b - 1) then v
     else v[2 * unat (location b) := (if status b AND 1 \<noteq> 0 then off_char b else on_char b)])"

text \<open>The first element with a property is removed, or replaced.\<close>

primrec remove_first :: "('a \<Rightarrow> bool) \<Rightarrow> 'a list \<Rightarrow> 'a list" where
  "remove_first P [] = []"
| "remove_first P (x # xs) = (if P x then xs else x # remove_first P xs)"

primrec update_first :: "('a \<Rightarrow> bool) \<Rightarrow> ('a \<Rightarrow> 'a) \<Rightarrow> 'a list \<Rightarrow> 'a list" where
  "update_first P f [] = []"
| "update_first P f (x # xs) = (if P x then f x # xs else x # update_first P f xs)"

lemma find_split: "find P xs = Some x \<Longrightarrow> \<exists>pre post. xs = pre @ x # post \<and> (\<forall>y \<in> set pre. \<not> P y) \<and> P x"
proof (induction xs)
  case (Cons a xs)
  then show ?case
  proof (cases "P a")
    case False
    with Cons obtain pre post where "xs = pre @ x # post" "\<forall>y \<in> set pre. \<not> P y" "P x" by auto
    then have "a # xs = (a # pre) @ x # post \<and> (\<forall>y \<in> set (a # pre). \<not> P y) \<and> P x" using False by simp
    then show ?thesis by blast
  next
    case True
    then have "a # xs = [] @ x # xs \<and> (\<forall>y \<in> set []. \<not> P y) \<and> P x" using Cons.prems by simp
    then show ?thesis by blast
  qed
qed simp

lemma first_append:
  "\<forall>y \<in> set pre. \<not> P y \<Longrightarrow> P x \<Longrightarrow> remove_first P (pre @ x # post) = pre @ post"
  "\<forall>y \<in> set pre. \<not> P y \<Longrightarrow> P x \<Longrightarrow> update_first P f (pre @ x # post) = pre @ f x # post"
  by (induction pre) auto

lemma find_map: "find P (map f xs) = map_option f (find (P \<circ> f) xs)"
  by (induction xs) auto

section \<open>Chains\<close>

lemma chain_in: "chain a p ps \<Longrightarrow> q \<in> set ps \<Longrightarrow> q < length a"
  by (induction ps arbitrary: p) auto

lemma chain_outside: "q \<notin> set ps \<Longrightarrow> chain (a[q := b]) p ps = chain a p ps"
  by (induction ps arbitrary: p) auto

lemma chain_same_next: "length a' = length a \<Longrightarrow> \<forall>q \<in> set ps. nxt (a' ! q) = nxt (a ! q) \<Longrightarrow> chain a' p ps = chain a p ps"
  by (induction ps arbitrary: p) auto

lemma chain_unlink:
  "chain a p (pre @ q # post) \<Longrightarrow> distinct (pre @ q # post) \<Longrightarrow>
    (if pre = [] then chain a (nxt (a ! q)) post
     else chain (a[last pre := (a ! last pre)\<lparr>nxt := nxt (a ! q)\<rparr>]) p (pre @ post))"
proof (induction pre arbitrary: p)
  case (Cons x pre)
  show ?case
  proof (cases "pre = []")
    case True
    then have "chain a (nxt (a ! q)) post" "x \<notin> set post" "x < length a" using Cons.prems by auto
    then show ?thesis using Cons.prems True by (simp add: chain_outside)
  next
    case False
    then have "last pre \<noteq> x" using Cons.prems(2) last_in_set [OF False] by auto
    then show ?thesis using Cons.IH [of "nxt (a ! x)"] Cons.prems False by simp
  qed
qed simp

lemma wf_fishD:
  assumes "wf_fish s ps"
  shows "length (blink_array s) = 2000" "length (vmem s) = 4096" "chain (blink_array s) (mp1_list_head s) ps" "distinct ps"
    "q < 2000 \<Longrightarrow> location (blink_array s ! q) = 0 \<longleftrightarrow> q \<notin> set ps" "q < 2000 \<Longrightarrow> location (blink_array s ! q) < 2000" "q \<in> set ps \<Longrightarrow> q < 2000"
  using assms chain_in [of "blink_array s" "mp1_list_head s" ps q] by (auto simp: wf_fish_def)

lemma screen_index: "(l :: u16) < 2000 \<Longrightarrow> 2 * unat l < 4096"
  by (simp add: word_less_nat_alt)

lemma poke_in: "(l :: u16) < 2000 \<Longrightarrow> length (vmem s) = 4096 \<Longrightarrow> mp1_poke c (2 * uint l) s = Some (s\<lparr>vmem := (vmem s)[2 * unat l := c]\<rparr>)"
proof -
  assume l: "l < 2000" and v: "length (vmem s) = 4096"
  define n where "n = 2 * unat l"
  have "2 * uint l = int n" "n < 4096" using screen_index [OF l] by (simp_all add: n_def)
  then show ?thesis using v by (simp add: mp1_poke_def n_def [symmetric])
qed

lemma get_blink_in: "p < length (blink_array s) \<Longrightarrow> get_blink p s = Some (blink_array s ! p)"
  by (simp add: get_blink_def)

lemma set_blink_in: "p < length (blink_array s) \<Longrightarrow> set_blink p b s = Some (s\<lparr>blink_array := (blink_array s)[p := b]\<rparr>)"
  by (simp add: set_blink_def)

section \<open>The operations on chains\<close>

lemma tasklet_step_in:
  assumes "p < length (blink_array s)" and "length (vmem s) = 4096" and "location (blink_array s ! p) < 2000"
  shows "tasklet_step p s = Some (s\<lparr>blink_array := (blink_array s)[p := tick (blink_array s ! p)], vmem := tick_screen (vmem s) (blink_array s ! p)\<rparr>)"
  using assms by (simp add: tasklet_step_def get_blink_in set_blink_in poke_in tick_def tick_screen_def Let_def)

lemma tasklet_loop_chain:
  assumes "chain (blink_array s) p ps" and "distinct ps" and "length (vmem s) = 4096" and "\<forall>q \<in> set ps. location (blink_array s ! q) < 2000"
  shows "\<exists>a. tasklet_loop p s = Some (s\<lparr>blink_array := a, vmem := foldl tick_screen (vmem s) (map ((!) (blink_array s)) ps)\<rparr>)
    \<and> length a = length (blink_array s) \<and> (\<forall>q < length a. a ! q = (if q \<in> set ps then tick (blink_array s ! q) else blink_array s ! q))"
  using assms
proof (induction ps arbitrary: p s)
  case Nil
  then show ?case by (subst tasklet_loop.simps) (auto intro!: exI [of _ "blink_array s"])
next
  case (Cons q qs)
  let ?b = "blink_array s ! q"
  let ?s = "s\<lparr>blink_array := (blink_array s)[q := tick ?b], vmem := tick_screen (vmem s) ?b\<rparr>"
  have q: "p = Some q" "q < length (blink_array s)" "chain (blink_array s) (nxt ?b) qs" "q \<notin> set qs" "location ?b < 2000" using Cons.prems by auto
  have same: "blink_array ?s ! r = blink_array s ! r" if "r \<in> set qs" for r using that q(4) by (cases "r = q") auto
  have "nxt (tick ?b) = nxt ?b" by (simp add: tick_def Let_def)
  then have n: "get_blink q ?s = Some (tick ?b)" "nxt (tick ?b) = nxt ?b" using q(2) by (simp_all add: get_blink_in)
  have "chain (blink_array ?s) (nxt ?b) qs" using q(3,4) by (simp add: chain_outside)
  moreover have "length (vmem ?s) = 4096" using Cons.prems(3) by (simp add: tick_screen_def)
  ultimately obtain a where a: "tasklet_loop (nxt ?b) ?s = Some (?s\<lparr>blink_array := a, vmem := foldl tick_screen (vmem ?s) (map ((!) (blink_array ?s)) qs)\<rparr>)"
    "length a = length (blink_array ?s)" "\<forall>r < length a. a ! r = (if r \<in> set qs then tick (blink_array ?s ! r) else blink_array ?s ! r)"
    using Cons.IH [of ?s "nxt ?b"] Cons.prems(2,4) same by auto
  have m: "map ((!) (blink_array ?s)) qs = map ((!) (blink_array s)) qs" using same by simp
  have "tasklet_loop p s = tasklet_loop (nxt ?b) ?s"
    using tasklet_step_in [OF q(2) Cons.prems(3) q(5)] n by (subst tasklet_loop.simps) (simp add: q(1))
  then have "tasklet_loop p s = Some (s\<lparr>blink_array := a, vmem := foldl tick_screen (vmem s) (map ((!) (blink_array s)) (q # qs))\<rparr>)" using a(1) unfolding m by simp
  moreover have "\<forall>r < length a. a ! r = (if r \<in> set (q # qs) then tick (blink_array s ! r) else blink_array s ! r)"
    using a(2,3) q(2,4) same by (auto simp: nth_list_update)
  ultimately show ?case using a(2) by auto
qed

lemma find_loop_chain: "chain (blink_array s) p ps \<Longrightarrow> find_loop ax p s = Some (find (\<lambda>q. location (blink_array s ! q) = ax) ps)"
proof (induction ps arbitrary: p)
  case Nil
  then show ?case by (subst find_loop.simps) simp
next
  case (Cons q qs)
  then show ?case by (subst find_loop.simps) (simp add: get_blink_in)
qed

lemma malloc_scan_find: "i + n \<le> length (blink_array s) \<Longrightarrow> malloc_scan s i n = Some (find (\<lambda>q. location (blink_array s ! q) = 0) [i..<i + n])"
proof (induction n arbitrary: i)
  case (Suc n)
  have "[i..<i + Suc n] = i # [Suc i..<Suc i + n]" by (simp add: upt_conv_Cons)
  then show ?case using Suc.IH [of "Suc i"] Suc.prems by (simp add: get_blink_in del: upt_Suc)
qed simp

lemma remove_find_prev_chain:
  "read_cell c s = Some p \<Longrightarrow> chain (blink_array s) p (pre @ q # post) \<Longrightarrow> q \<notin> set pre \<Longrightarrow>
    remove_find_prev q c s = Some (if pre = [] then c else Link (last pre))"
proof (induction pre arbitrary: c p)
  case Nil
  then show ?case by (subst remove_find_prev.simps) simp
next
  case (Cons x pre)
  have "read_cell (Link x) s = Some (nxt (blink_array s ! x))" using Cons.prems(2) by (simp add: read_cell_def get_blink_in)
  then have "remove_find_prev q (Link x) s = Some (if pre = [] then Link x else Link (last pre))" using Cons.IH Cons.prems(2,3) by simp
  then show ?case using Cons.prems by (subst remove_find_prev.simps) auto
qed

section \<open>Refinement\<close>

lemma strip_simps [simp]:
  "location (strip b) = location b" "on_char (strip b) = on_char b" "off_char (strip b) = off_char b" "on_length (strip b) = on_length b"
  "off_length (strip b) = off_length b" "countdown (strip b) = countdown b" "status (strip b) = status b"
  by (simp_all add: strip_def)

lemma strip_tick: "strip (tick b) = tick (strip b)" "tick_screen v (strip b) = tick_screen v b"
  by (simp_all add: tick_def tick_screen_def strip_def Let_def)

lemma tick_same [simp]: "nxt (tick b) = nxt b" "location (tick b) = location b"
  by (simp_all add: tick_def Let_def)

lemma foldl_strip: "foldl tick_screen v (map (\<lambda>q. strip (a ! q)) ps) = foldl tick_screen v (map ((!) a) ps)"
  by (induction ps arbitrary: v) (simp_all add: strip_tick(2))

lemma length_foldl_tick: "length (foldl tick_screen v bs) = length v"
  by (induction bs arbitrary: v) (simp_all add: tick_screen_def)

lemma tasklet_refines:
  assumes "blinks s bs"
  shows "\<exists>s'. mp1_rtc_tasklet s = Some s' \<and> blinks s' (map tick bs) \<and> vmem s' = foldl tick_screen (vmem s) bs"
proof -
  from assms obtain ps where ps: "wf_fish s ps" "bs = map (\<lambda>q. strip (blink_array s ! q)) ps" by (auto simp: blinks_def)
  note w = wf_fishD [OF ps(1)]
  from tasklet_loop_chain [OF w(3,4,2)] w(6,7) obtain a where
    a: "tasklet_loop (mp1_list_head s) s = Some (s\<lparr>blink_array := a, vmem := foldl tick_screen (vmem s) (map ((!) (blink_array s)) ps)\<rparr>)"
      "length a = length (blink_array s)" "\<forall>q < length a. a ! q = (if q \<in> set ps then tick (blink_array s ! q) else blink_array s ! q)" by blast
  let ?s = "s\<lparr>blink_array := a, vmem := foldl tick_screen (vmem s) (map ((!) (blink_array s)) ps)\<rparr>"
  have "chain a (mp1_list_head s) ps" using chain_same_next [OF a(2), of ps] a(2,3) w(1,3,7) by simp
  then have "wf_fish ?s ps" using w a(2,3) by (simp add: wf_fish_def length_foldl_tick)
  moreover have "map tick bs = map (\<lambda>q. strip (a ! q)) ps" using ps(2) a(2,3) w(1,7) by (simp add: strip_tick(1))
  ultimately have "blinks ?s (map tick bs)" by (auto simp: blinks_def)
  moreover have "vmem ?s = foldl tick_screen (vmem s) bs" by (simp add: ps(2) foldl_strip)
  ultimately show ?thesis using a(1) by (auto simp: mp1_rtc_tasklet_def)
qed

lemma find_helper_refines:
  assumes "wf_fish s ps"
  shows "mp1_find_helper l s = Some (find (\<lambda>q. location (blink_array s ! q) = l) ps)"
  using find_loop_chain [OF wf_fishD(3) [OF assms]] by (simp add: mp1_find_helper_def)

lemma add_refines:
  assumes "blinks s bs" and "location b \<noteq> 0"
  shows "if location b \<ge> 2000 \<or> length bs = 2000 then mp1_ioctl_add b s = Some (-1, s)
    else \<exists>s'. mp1_ioctl_add b s = Some (0, s') \<and> blinks s' (strip (b\<lparr>status := 1, countdown := on_length b\<rparr>) # bs)
      \<and> vmem s' = (vmem s)[2 * unat (location b) := on_char b]"
proof -
  from assms obtain ps where ps: "wf_fish s ps" "bs = map (\<lambda>q. strip (blink_array s ! q)) ps" by (auto simp: blinks_def)
  note w = wf_fishD [OF ps(1)]
  have m: "mp1_malloc s = Some (find (\<lambda>q. location (blink_array s ! q) = 0) [0..<2000])" using malloc_scan_find [of 0 2000 s] w(1) by (simp add: mp1_malloc_def)
  have sub: "set ps \<subseteq> {0..<2000}" using w(7) by auto
  show ?thesis
  proof (cases "find (\<lambda>q. location (blink_array s ! q) = 0) [0..<2000]")
    case None
    then have "{0..<2000} \<subseteq> set ps" using w(5) by (auto simp: find_None_iff)
    then have "set ps = {0..<2000}" using sub by blast
    then have "length bs = 2000" using distinct_card [OF w(4)] ps(2) by simp
    then show ?thesis using m None by (simp add: mp1_ioctl_add_def)
  next
    case (Some p)
    from find_split [OF Some] have p: "p < 2000" "location (blink_array s ! p) = 0"
      by (auto simp: in_set_conv_decomp [symmetric] dest!: arg_cong [of _ _ set])
    then have np: "p \<notin> set ps" using w(5) by simp
    then have "set ps \<subset> {0..<2000}" using sub p(1) by auto
    then have "card (set ps) < 2000" using psubset_card_mono [of "{0..<2000}" "set ps"] by simp
    then have l: "length bs < 2000" using distinct_card [OF w(4)] ps(2) by simp
    show ?thesis
    proof (cases "location b \<ge> 2000")
      case True
      then show ?thesis by (simp add: mp1_ioctl_add_def)
    next
      case False
      let ?b = "b\<lparr>status := 1, countdown := on_length b, nxt := mp1_list_head s\<rparr>"
      let ?s = "s\<lparr>blink_array := (blink_array s)[p := ?b], mp1_list_head := Some p, vmem := (vmem s)[2 * unat (location b) := on_char b]\<rparr>"
      have "mp1_ioctl_add b s = Some (0, ?s)" using False m Some p(1) w(1,2) by (simp add: mp1_ioctl_add_def set_blink_in poke_in Let_def)
      moreover have "wf_fish ?s (p # ps)"
        using w np p(1) assms(2) False by (auto simp: wf_fish_def chain_outside nth_list_update not_le)
      moreover have "map (\<lambda>q. strip (blink_array ?s ! q)) (p # ps) = strip (b\<lparr>status := 1, countdown := on_length b\<rparr>) # bs"
        using ps(2) np p(1) w(1) by (auto simp: strip_def nth_list_update)
      ultimately show ?thesis using False l by (auto simp: blinks_def)
    qed
  qed
qed

lemma remove_refines:
  assumes "blinks s bs"
  shows "case find (\<lambda>b. location b = ucast n) bs of None \<Rightarrow> mp1_ioctl_remove n s = Some (-1, s)
    | Some b \<Rightarrow> \<exists>s'. mp1_ioctl_remove n s = Some (0, s') \<and> blinks s' (remove_first (\<lambda>b. location b = ucast n) bs) \<and> vmem s' = vmem s"
proof -
  from assms obtain ps where ps: "wf_fish s ps" "bs = map (\<lambda>q. strip (blink_array s ! q)) ps" by (auto simp: blinks_def)
  note w = wf_fishD [OF ps(1)]
  let ?a = "blink_array s" and ?P = "\<lambda>b. location b = ucast n"
  have f: "find ?P bs = map_option (\<lambda>q. strip (?a ! q)) (find (\<lambda>q. ?P (?a ! q)) ps)" by (simp add: ps(2) find_map o_def)
  show ?thesis
  proof (cases "find (\<lambda>q. ?P (?a ! q)) ps")
    case None
    then show ?thesis using f find_helper_refines [OF ps(1)] by (simp add: mp1_ioctl_remove_def)
  next
    case (Some q)
    from find_split [OF Some] obtain pre post where q: "ps = pre @ q # post" "\<forall>y \<in> set pre. \<not> ?P (?a ! y)" "?P (?a ! q)" by blast
    have d: "distinct (pre @ q # post)" "chain ?a (mp1_list_head s) (pre @ q # post)" using w(3,4) q(1) by simp_all
    have lt: "q < 2000" "\<forall>y \<in> set (pre @ post). y < 2000" using w(7) q(1) by auto
    let ?c = "if pre = [] then Head else Link (last pre)"
    let ?a1 = "if pre = [] then ?a else ?a[last pre := (?a ! last pre)\<lparr>nxt := nxt (?a ! q)\<rparr>]"
    let ?h = "if pre = [] then nxt (?a ! q) else mp1_list_head s"
    let ?s = "s\<lparr>blink_array := ?a1[q := zero_blink], mp1_list_head := ?h\<rparr>"
    have c: "remove_find_prev q Head s = Some ?c" using remove_find_prev_chain [of Head s "mp1_list_head s" pre q post] d by (simp add: read_cell_def)
    have lp: "last pre < 2000" "last pre \<noteq> q" "last pre \<in> set pre" if "pre \<noteq> []" using that lt last_in_set [OF that] d(1) by auto
    have wc: "write_cell ?c (nxt (?a ! q)) s = Some (s\<lparr>blink_array := ?a1, mp1_list_head := ?h\<rparr>)"
      using lp(1) w(1) by (simp add: write_cell_def get_blink_in set_blink_in)
    have "mp1_ioctl_remove n s = Some (0, ?s)"
      using find_helper_refines [OF ps(1)] Some c wc lt(1) w(1) by (simp add: mp1_ioctl_remove_def get_blink_in set_blink_in mp1_free_def)
    moreover have ch: "chain ?a1 ?h (pre @ post)" using chain_unlink [OF d(2,1)] by (simp split: if_splits)
    have strip1: "strip (?a1 ! y) = strip (?a ! y)" for y using lp(1) w(1) by (auto simp: strip_def nth_list_update)
    have loc1: "location (?a1 ! y) = location (?a ! y)" for y using strip1 [of y] strip_simps(1) by metis
    have "wf_fish ?s (pre @ post)"
    proof -
      have "location (?a1[q := zero_blink] ! y) = 0 \<longleftrightarrow> y \<notin> set (pre @ post)" "location (?a1[q := zero_blink] ! y) < 2000" if "y < 2000" for y
        using that w(5,6) [OF that] loc1 [of y] q(1) d(1) w(1) by (cases "y = q"; simp add: zero_blink_def)+
      moreover have "chain (?a1[q := zero_blink]) ?h (pre @ post)" using ch d(1) by (simp add: chain_outside)
      ultimately show ?thesis using w(1,2) d(1) by (simp add: wf_fish_def)
    qed
    moreover have "map (\<lambda>y. strip (blink_array ?s ! y)) (pre @ post) = map (\<lambda>y. strip (?a ! y)) (pre @ post)"
    proof (rule map_cong [OF refl])
      fix y assume "y \<in> set (pre @ post)"
      then have "y \<noteq> q" using d(1) by auto
      then show "strip (blink_array ?s ! y) = strip (?a ! y)" using strip1 [of y] by simp
    qed
    moreover have "remove_first ?P bs = map (\<lambda>y. strip (?a ! y)) (pre @ post)"
      using first_append(1) [of "map (\<lambda>y. strip (?a ! y)) pre" ?P "strip (?a ! q)"] q by (simp add: ps(2))
    ultimately have "blinks ?s (remove_first ?P bs)" unfolding blinks_def by metis
    then show ?thesis using \<open>mp1_ioctl_remove n s = Some (0, ?s)\<close> f Some by auto
  qed
qed

lemma find_refines:
  assumes "blinks s bs"
  shows "case find (\<lambda>b. location b = location u) bs of None \<Rightarrow> mp1_ioctl_find u s = Some (-1, u)
    | Some b \<Rightarrow> \<exists>b'. mp1_ioctl_find u s = Some (0, b') \<and> strip b' = b"
proof -
  from assms obtain ps where ps: "wf_fish s ps" "bs = map (\<lambda>q. strip (blink_array s ! q)) ps" by (auto simp: blinks_def)
  let ?f = "find (\<lambda>q. location (blink_array s ! q) = location u) ps"
  have f: "find (\<lambda>b. location b = location u) bs = map_option (\<lambda>q. strip (blink_array s ! q)) ?f" by (simp add: ps(2) find_map o_def)
  have "q < length (blink_array s)" if "?f = Some q" for q using wf_fishD(1,7) [OF ps(1)] find_split [OF that] by fastforce
  then show ?thesis unfolding f using find_helper_refines [OF ps(1), of "location u"] by (auto simp: mp1_ioctl_find_def get_blink_in split: option.splits)
qed

text \<open>The structure that \<open>sync\<close> leaves, and the character that it shows: always the one for the state \<open>off\<close>.\<close>

definition synced :: "blink \<Rightarrow> blink \<Rightarrow> blink" where
  "synced a b = b\<lparr>on_length := on_length a, off_length := off_length a, countdown := countdown a, status := status a\<rparr>"

lemma sync_char_off: "sync_char b = off_char b"
proof -
  have "(1 :: u8) = mask 1" by simp
  then have "\<not> bit ((ucast (status b) :: u8) AND 1) 7" by (simp add: bit_simps)
  then show ?thesis by (simp add: sync_char_def Let_def)
qed

lemma sync_refines:
  assumes "blinks s bs"
  shows "case (find (\<lambda>b. location b = ucast (drop_bit 16 n)) bs, find (\<lambda>b. location b = ucast (n AND 0xFFFF)) bs) of
      (Some a, Some b) \<Rightarrow> \<exists>s'. mp1_ioctl_sync n s = Some (0, s') \<and> blinks s' (update_first (\<lambda>b. location b = ucast (n AND 0xFFFF)) (synced a) bs)
          \<and> vmem s' = (vmem s)[2 * unat (location b) := off_char b]
    | _ \<Rightarrow> mp1_ioctl_sync n s = Some (-1, s)"
proof -
  from assms obtain ps where ps: "wf_fish s ps" "bs = map (\<lambda>q. strip (blink_array s ! q)) ps" by (auto simp: blinks_def)
  note w = wf_fishD [OF ps(1)]
  let ?a = "blink_array s" and ?P = "\<lambda>b. location b = ucast (drop_bit 16 n)" and ?Q = "\<lambda>b. location b = ucast (n AND 0xFFFF)"
  have f: "find R bs = map_option (\<lambda>q. strip (?a ! q)) (find (\<lambda>q. R (?a ! q)) ps)" if "\<And>b. R (strip b) = R b" for R using that by (simp add: ps(2) find_map o_def)
  note fP = f [of ?P, simplified] and fQ = f [of ?Q, simplified] and h = find_helper_refines [OF ps(1)]
  show ?thesis
  proof (cases "find (\<lambda>q. ?P (?a ! q)) ps")
    case None
    then show ?thesis using fP h by (simp add: mp1_ioctl_sync_def)
  next
    case (Some p)
    note p = this
    have lp: "p < 2000" using find_split [OF p] w(7) by fastforce
    show ?thesis
    proof (cases "find (\<lambda>q. ?Q (?a ! q)) ps")
      case None
      then show ?thesis using fP fQ p h by (simp add: mp1_ioctl_sync_def)
    next
      case (Some q)
      from find_split [OF Some] obtain pre post where q: "ps = pre @ q # post" "\<forall>y \<in> set pre. \<not> ?Q (?a ! y)" "?Q (?a ! q)" by blast
      have lq: "q < 2000" using w(7) q(1) by simp
      let ?b = "synced (?a ! p) (?a ! q)"
      let ?s = "s\<lparr>blink_array := ?a[q := ?b], vmem := (vmem s)[2 * unat (location (?a ! q)) := off_char (?a ! q)]\<rparr>"
      have b: "location ?b = location (?a ! q)" "nxt ?b = nxt (?a ! q)" "off_char ?b = off_char (?a ! q)" by (simp_all add: synced_def)
      have "mp1_ioctl_sync n s = Some (0, ?s)"
        using h p Some lp lq w(1,2) w(6) [OF lq] by (simp add: mp1_ioctl_sync_def get_blink_in set_blink_in poke_in sync_char_off synced_def Let_def)
      moreover have "wf_fish ?s ps"
      proof -
        have same: "nxt (?a[q := ?b] ! y) = nxt (?a ! y)" "location (?a[q := ?b] ! y) = location (?a ! y)" for y
          using lq w(1) by (simp_all add: nth_list_update synced_def)
        then show ?thesis using w chain_same_next [of "?a[q := ?b]" ?a ps] by (simp add: wf_fish_def)
      qed
      moreover have "update_first ?Q (synced (strip (?a ! p))) bs = map (\<lambda>y. strip (?a[q := ?b] ! y)) ps"
      proof -
        have "strip (?a[q := ?b] ! y) = strip (?a ! y)" if "y \<in> set (pre @ post)" for y using that w(4) q(1) by (cases "y = q") auto
        moreover have "strip ?b = synced (strip (?a ! p)) (strip (?a ! q))" by (simp add: strip_def synced_def)
        ultimately show ?thesis using first_append(2) [of "map (\<lambda>y. strip (?a ! y)) pre" ?Q "strip (?a ! q)"] q lq w(1) by (simp add: ps(2))
      qed
      ultimately show ?thesis using fP fQ p Some by (auto simp: blinks_def)
    qed
  qed
qed

text \<open>
  Claim C12. The linked list of the animation implements a list of blinking characters: from a well-formed state that represents the list \<open>bs\<close>,
  the tick always ends and advances every character of \<open>bs\<close> by one tick, showing on the screen exactly the characters that change;
  adding a character (at a place other than 0) puts it in front, on and shown, and is refused beyond the screen and when
  all 2000 structures are in use; removing takes out the first character at the place, or is refused; finding delivers it;
  synchronising copies lengths, count and state from one to the other and shows the character for the state \<open>off\<close>. All results are well-formed again.
\<close>

theorem blink_refines:
  assumes "blinks s bs"
  shows "(\<exists>s'. mp1_rtc_tasklet s = Some s' \<and> blinks s' (map tick bs) \<and> vmem s' = foldl tick_screen (vmem s) bs)
    \<and> (location b \<noteq> 0 \<longrightarrow> (if location b \<ge> 2000 \<or> length bs = 2000 then mp1_ioctl (RTC_ADD b) s = Some (-1, RTC_ADD b, s)
        else \<exists>s'. mp1_ioctl (RTC_ADD b) s = Some (0, RTC_ADD b, s') \<and> blinks s' (strip (b\<lparr>status := 1, countdown := on_length b\<rparr>) # bs)
          \<and> vmem s' = (vmem s)[2 * unat (location b) := on_char b]))
    \<and> (case find (\<lambda>b. location b = ucast n) bs of None \<Rightarrow> mp1_ioctl (RTC_REMOVE n) s = Some (-1, RTC_REMOVE n, s)
        | Some b \<Rightarrow> \<exists>s'. mp1_ioctl (RTC_REMOVE n) s = Some (0, RTC_REMOVE n, s') \<and> blinks s' (remove_first (\<lambda>b. location b = ucast n) bs) \<and> vmem s' = vmem s)
    \<and> (case find (\<lambda>b'. location b' = location b) bs of None \<Rightarrow> mp1_ioctl (RTC_FIND b) s = Some (-1, RTC_FIND b, s)
        | Some c \<Rightarrow> \<exists>b'. mp1_ioctl (RTC_FIND b) s = Some (0, RTC_FIND b', s) \<and> strip b' = c)
    \<and> (case (find (\<lambda>b. location b = ucast (drop_bit 16 n)) bs, find (\<lambda>b. location b = ucast (n AND 0xFFFF)) bs) of
        (Some a, Some b) \<Rightarrow> \<exists>s'. mp1_ioctl (RTC_SYNC n) s = Some (0, RTC_SYNC n, s')
            \<and> blinks s' (update_first (\<lambda>b. location b = ucast (n AND 0xFFFF)) (synced a) bs) \<and> vmem s' = (vmem s)[2 * unat (location b) := off_char b]
      | _ \<Rightarrow> mp1_ioctl (RTC_SYNC n) s = Some (-1, RTC_SYNC n, s))"
proof (intro conjI impI)
  show "\<exists>s'. mp1_rtc_tasklet s = Some s' \<and> blinks s' (map tick bs) \<and> vmem s' = foldl tick_screen (vmem s) bs" by (rule tasklet_refines [OF assms])
  show "if location b \<ge> 2000 \<or> length bs = 2000 then mp1_ioctl (RTC_ADD b) s = Some (-1, RTC_ADD b, s)
        else \<exists>s'. mp1_ioctl (RTC_ADD b) s = Some (0, RTC_ADD b, s') \<and> blinks s' (strip (b\<lparr>status := 1, countdown := on_length b\<rparr>) # bs)
          \<and> vmem s' = (vmem s)[2 * unat (location b) := on_char b]" if "location b \<noteq> 0"
    using add_refines [OF assms that] by (auto simp: mp1_ioctl_def split: if_splits)
  show "case find (\<lambda>b. location b = ucast n) bs of None \<Rightarrow> mp1_ioctl (RTC_REMOVE n) s = Some (-1, RTC_REMOVE n, s)
        | Some b \<Rightarrow> \<exists>s'. mp1_ioctl (RTC_REMOVE n) s = Some (0, RTC_REMOVE n, s') \<and> blinks s' (remove_first (\<lambda>b. location b = ucast n) bs) \<and> vmem s' = vmem s"
    using remove_refines [OF assms, of n] by (auto simp: mp1_ioctl_def split: option.splits)
  show "case find (\<lambda>b'. location b' = location b) bs of None \<Rightarrow> mp1_ioctl (RTC_FIND b) s = Some (-1, RTC_FIND b, s)
        | Some c \<Rightarrow> \<exists>b'. mp1_ioctl (RTC_FIND b) s = Some (0, RTC_FIND b', s) \<and> strip b' = c"
    using find_refines [OF assms, of b] by (auto simp: mp1_ioctl_def split: option.splits)
  show "case (find (\<lambda>b. location b = ucast (drop_bit 16 n)) bs, find (\<lambda>b. location b = ucast (n AND 0xFFFF)) bs) of
        (Some a, Some b) \<Rightarrow> \<exists>s'. mp1_ioctl (RTC_SYNC n) s = Some (0, RTC_SYNC n, s')
            \<and> blinks s' (update_first (\<lambda>b. location b = ucast (n AND 0xFFFF)) (synced a) bs) \<and> vmem s' = (vmem s)[2 * unat (location b) := off_char b]
      | _ \<Rightarrow> mp1_ioctl (RTC_SYNC n) s = Some (-1, RTC_SYNC n, s)"
    using sync_refines [OF assms, of n] by (auto simp: mp1_ioctl_def split: option.splits)
qed

text \<open>The state in which the program starts: all structures cleared, no list.\<close>

definition blank_fish :: "u8 list \<Rightarrow> fish" where
  "blank_fish v = \<lparr>blink_array = replicate 2000 zero_blink, mp1_list_head = None, vmem = v\<rparr>"

lemma blinks_blank: "length v = 4096 \<Longrightarrow> blinks (blank_fish v) []"
  by (simp add: blinks_def wf_fish_def blank_fish_def zero_blink_def)

definition sample_blink :: blink where
  "sample_blink = \<lparr>location = 540, on_char = byte_of (CHR ''I''), off_char = byte_of (CHR ''M''), on_length = 7, off_length = 6, countdown = 0, status = 0, nxt = None\<rparr>"

theorem blink_refines_witness:
  "\<exists>s'. mp1_ioctl (RTC_ADD sample_blink) (blank_fish (replicate 4096 0)) = Some (0, RTC_ADD sample_blink, s') \<and> blinks s' [sample_blink\<lparr>status := 1, countdown := 7\<rparr>]
    \<and> vmem s' = (replicate 4096 0)[1080 := byte_of (CHR ''I'')]"
  using blink_refines [OF blinks_blank, of "replicate 4096 0" sample_blink 0, THEN conjunct2, THEN conjunct1] by (simp add: sample_blink_def strip_def blank_fish_def)

section \<open>Blinking\<close>

lemma sint_small: "unat (x :: u16) < 0x8000 \<Longrightarrow> sint x = int (unat x)"
proof -
  assume l: "unat x < 0x8000"
  have "int (unat x) < 0x8000" using l by (simp only: of_nat_less_iff [where ?'a = int, symmetric])
  then have "uint x < 0x8000" by simp
  moreover have "- 32768 \<le> uint x" by (rule order_trans [of _ 0]) simp_all
  ultimately show ?thesis by (simp add: sint_uint signed_take_bit_int_eq_self_iff)
qed

lemma tick_counts:
  assumes "t < unat (countdown b)" and "countdown b < 0x8000"
  shows "(tick ^^ t) b = b\<lparr>countdown := countdown b - of_nat t\<rparr>"
  using assms(1)
proof (induction t)
  case (Suc t)
  let ?c = "countdown b - of_nat t - 1"
  have l: "unat (countdown b) < 0x8000" using assms(2) by (simp add: word_less_nat_alt)
  have "?c = of_nat (unat (countdown b) - Suc t)" using Suc.prems by (simp add: of_nat_diff algebra_simps)
  then have "unat ?c = unat (countdown b) - Suc t" using l by (simp add: unat_of_nat take_bit_nat_eq_self)
  then have c: "0 < unat ?c" "unat ?c < 0x8000" using Suc.prems l by auto
  have "sint ?c = int (unat ?c)" by (rule sint_small [OF c(2)])
  then have "0 < sint ?c" using c(1) by (simp only: of_nat_0_less_iff)
  then show ?case using Suc by (simp add: tick_def Let_def algebra_simps)
qed simp

text \<open>The last tick of a phase starts the other one.\<close>

lemma tick_phase:
  assumes "0 < countdown b" and "countdown b < 0x8000"
  shows "(tick ^^ unat (countdown b)) b = b\<lparr>countdown := (if status b AND 1 \<noteq> 0 then off_length b else on_length b), status := status b XOR 1\<rparr>"
proof -
  let ?n = "unat (countdown b)"
  have n: "0 < ?n" using assms(1) by (simp add: unat_gt_0)
  have "countdown b - of_nat (?n - 1) = 1" using n by (simp add: of_nat_diff)
  then have "(tick ^^ (?n - 1)) b = b\<lparr>countdown := 1\<rparr>" using tick_counts [of "?n - 1" b] n assms(2) by simp
  then have "(tick ^^ Suc (?n - 1)) b = tick (b\<lparr>countdown := 1\<rparr>)" by simp
  then show ?thesis using n by (simp add: tick_def)
qed

text \<open>
  A character blinks with its period: one that was just added, with lengths between 1 and 32767, stays on for \<open>on_length\<close>
  ticks while its count falls by one per tick, is then off for \<open>off_length\<close> ticks, and after the sum of both is in its first state again.
\<close>

theorem blink_period:
  assumes "status b = 1" and "countdown b = on_length b" and "0 < on_length b" and "on_length b < 0x8000" and "0 < off_length b" and "off_length b < 0x8000"
  shows "(\<forall>t < unat (on_length b). (tick ^^ t) b = b\<lparr>countdown := on_length b - of_nat t\<rparr>)
    \<and> (\<forall>t < unat (off_length b). (tick ^^ (unat (on_length b) + t)) b = b\<lparr>status := 0, countdown := off_length b - of_nat t\<rparr>)
    \<and> (tick ^^ (unat (on_length b) + unat (off_length b))) b = b"
proof -
  let ?b = "b\<lparr>status := 0, countdown := off_length b\<rparr>"
  have on: "(tick ^^ unat (on_length b)) b = ?b" using tick_phase [of b] assms by simp
  have plus: "(tick ^^ (unat (on_length b) + t)) b = (tick ^^ t) ?b" for t using on by (simp add: add.commute [of "unat (on_length b)"] funpow_add)
  have off: "(tick ^^ unat (off_length b)) ?b = b" using tick_phase [of ?b] assms by (cases b) simp
  show ?thesis using tick_counts [of _ b] tick_counts [of _ ?b] plus off assms(2,4,6) by simp
qed

theorem blink_period_witness: "(tick ^^ 13) (sample_blink\<lparr>status := 1, countdown := 7\<rparr>) = sample_blink\<lparr>status := 1, countdown := 7\<rparr>"
  using blink_period [of "sample_blink\<lparr>status := 1, countdown := 7\<rparr>"] by (simp add: sample_blink_def)

section \<open>The place 0\<close>

lemma tasklet_step_link:
  assumes "tasklet_step p s = Some s'"
  shows "length (blink_array s') = length (blink_array s) \<and> p < length (blink_array s) \<and> nxt (blink_array s' ! p) = nxt (blink_array s ! p)"
  using assms by (auto simp: tasklet_step_def Let_def bind_eq_Some_conv get_blink_def set_blink_def mp1_poke_def aget_Some_iff aset_Some_iff split: if_splits)

lemma tasklet_cycle:
  assumes "nxt (blink_array s ! p) = Some p"
  shows "tasklet_loop (Some p) s = None"
proof (rule ccontr)
  assume "tasklet_loop (Some p) s \<noteq> None"
  then obtain y where "tasklet_loop (Some p) s = Some y" by auto
  then have "\<not> (Some p = Some p \<and> nxt (blink_array s ! p) = Some p)"
  proof (rule tasklet_loop.raw_induct [where P = "\<lambda>e s y. \<not> (e = Some p \<and> nxt (blink_array s ! p) = Some p)", rotated])
    fix loop :: "nat option \<Rightarrow> fish \<Rightarrow> fish option" and e s y
    assume IH: "\<And>e s y. loop e s = Some y \<Longrightarrow> \<not> (e = Some p \<and> nxt (blink_array s ! p) = Some p)"
      and r: "(case e of None \<Rightarrow> Some s | Some p \<Rightarrow> do { s \<leftarrow> tasklet_step p s; b \<leftarrow> get_blink p s; loop (nxt b) s }) = Some y"
    show "\<not> (e = Some p \<and> nxt (blink_array s ! p) = Some p)"
    proof
      assume e: "e = Some p \<and> nxt (blink_array s ! p) = Some p"
      with r obtain s1 where s1: "tasklet_step p s = Some s1" "do { b \<leftarrow> get_blink p s1; loop (nxt b) s1 } = Some y" by (auto simp: bind_eq_Some_conv)
      note l = tasklet_step_link [OF s1(1)]
      then have "loop (Some p) s1 = Some y" using s1(2) e by (simp add: get_blink_in)
      then show False using IH l e by metis
    qed
  qed
  then show False using assms by simp
qed

text \<open>
  The allocator takes a structure whose place is 0 for a free one. After a character was added at the place 0, which is accepted, the next
  one gets the same structure; the structure is then its own successor, and the tick never ends.
\<close>

theorem location_zero_hangs:
  assumes "blinks s bs" and "length bs < 2000" and "location b = 0" and "location c < 2000"
  shows "\<exists>s1 s2. mp1_ioctl (RTC_ADD b) s = Some (0, RTC_ADD b, s1) \<and> mp1_ioctl (RTC_ADD c) s1 = Some (0, RTC_ADD c, s2) \<and> mp1_rtc_tasklet s2 = None"
proof -
  from assms(1) obtain ps where ps: "wf_fish s ps" "bs = map (\<lambda>q. strip (blink_array s ! q)) ps" by (auto simp: blinks_def)
  note w = wf_fishD [OF ps(1)]
  let ?f = "\<lambda>a. find (\<lambda>q. location (a ! q) = 0) [0..<2000]"
  have m: "mp1_malloc t = Some (?f (blink_array t))" if "length (blink_array t) = 2000" for t using malloc_scan_find [of 0 2000 t] that by (simp add: mp1_malloc_def)
  have "?f (blink_array s) \<noteq> None"
  proof
    assume "?f (blink_array s) = None"
    then have "{0..<2000} \<subseteq> set ps" using w(5) by (auto simp: find_None_iff)
    then have "card {0..<2000 :: nat} \<le> card (set ps)" by (rule card_mono [OF finite_set])
    then show False using assms(2) distinct_card [OF w(4)] ps(2) by simp
  qed
  then obtain p where p: "?f (blink_array s) = Some p" by blast
  from find_split [OF p] obtain pre post where q: "[0..<2000] = pre @ p # post" "\<forall>y \<in> set pre. location (blink_array s ! y) \<noteq> 0" by blast
  have lp: "p < 2000" using arg_cong [OF q(1), of set] by auto
  let ?b = "\<lambda>u h. u\<lparr>status := 1, countdown := on_length u, nxt := h\<rparr>"
  let ?add = "\<lambda>u t. t\<lparr>blink_array := (blink_array t)[p := ?b u (mp1_list_head t)], mp1_list_head := Some p, vmem := (vmem t)[2 * unat (location u) := on_char u]\<rparr>"
  have add: "mp1_ioctl_add u t = Some (0, ?add u t)" if "?f (blink_array t) = Some p" "length (blink_array t) = 2000" "length (vmem t) = 4096" "location u < 2000" for u t
    using m [OF that(2)] that lp by (simp add: mp1_ioctl_add_def set_blink_in poke_in Let_def)
  have "p \<notin> set pre" using arg_cong [OF q(1), of distinct] by simp
  then have "?f (blink_array (?add b s)) = Some p"
    unfolding q(1) using q(2) assms(3) lp w(1) by (induction pre) (auto simp: nth_list_update)
  then have "mp1_ioctl_add c (?add b s) = Some (0, ?add c (?add b s))" using w(1,2) assms(4) by (intro add) simp_all
  moreover have "mp1_ioctl_add b s = Some (0, ?add b s)" using p w(1,2) assms(3) by (intro add) simp_all
  moreover have "tasklet_loop (Some p) (?add c (?add b s)) = None" using lp w(1) by (intro tasklet_cycle) simp
  ultimately show ?thesis by (simp add: mp1_ioctl_def mp1_rtc_tasklet_def)
qed

theorem location_zero_hangs_witness:
  "\<exists>s1 s2. mp1_ioctl (RTC_ADD zero_blink) (blank_fish (replicate 4096 0)) = Some (0, RTC_ADD zero_blink, s1)
    \<and> mp1_ioctl (RTC_ADD sample_blink) s1 = Some (0, RTC_ADD sample_blink, s2) \<and> mp1_rtc_tasklet s2 = None"
  using location_zero_hangs [OF blinks_blank, of "replicate 4096 0" zero_blink sample_blink] by (simp add: zero_blink_def sample_blink_def)

end
