(* ===== verification/Fish.thy ===== *)
theory Fish
  imports Blink Sessions
begin

text \<open>
  The animation program fish/fish.c: two pictures from files become blinking characters, and the real-time clock drives them. The
  program works on the blinking characters of theory Blink and on the system calls \<open>C\<close>; its state is the pair of both. What \<open>add_frames\<close>
  makes of two files is shown for every system that keeps the laws of \<open>session_calls\<close>, and for this kernel.
\<close>

section \<open>The program\<close>

definition ece391_memset :: "u8 list \<Rightarrow> u8 \<Rightarrow> nat \<Rightarrow> u8 list option" where
  "ece391_memset mem c n = for_range 0 n (\<lambda>i mem. aset mem (int i) c) mem"

definition ece391_memcpy :: "u8 list \<Rightarrow> u8 list \<Rightarrow> nat \<Rightarrow> (int \<times> u8 list) option" where
  "ece391_memcpy dest src n = do {
     d \<leftarrow> for_range 0 n (\<lambda>i d. do { b \<leftarrow> aget src (int i); aset d (int i) b }) dest;
     Some (0, d)
   }"

text \<open>The page that \<open>vidmap\<close> maps is \<open>vmem\<close>; \<open>va\<close> is the address of the variable \<open>vmem_base_addr\<close>. The result says whether it is not NULL.\<close>

definition mp1_set_video_mode :: "'k calls \<Rightarrow> u32 \<Rightarrow> 'k \<Rightarrow> (bool \<times> 'k) option" where
  "mp1_set_video_mode C va k = do {
     (r, k) \<leftarrow> ece391_vidmap C va k;
     Some (r \<noteq> -1, k)
   }"

text \<open>One character of a picture: nothing is read after the end of its line.\<close>

definition frame_char :: "'k calls \<Rightarrow> int \<Rightarrow> u8 \<Rightarrow> bool \<Rightarrow> 'k \<Rightarrow> (u8 \<times> bool \<times> 'k) option" where
  "frame_char C fd c eof k =
     (if c \<noteq> 10 then do {
        (num_bytes, b, k) \<leftarrow> ece391_read C fd [c] 1 k;
        c \<leftarrow> aget b 0;
        Some (if num_bytes = 0 then (10, True, k) else (c, eof, k))
      } else Some (c, eof, k))"

text \<open>The local structure: the first five fields are set, the others hold what they happen to hold (\<open>u\<close>).\<close>

definition frame_blink :: "blink \<Rightarrow> nat \<Rightarrow> nat \<Rightarrow> u8 \<Rightarrow> u8 \<Rightarrow> blink" where
  "frame_blink u row col c0 c1 = u\<lparr>on_length := 15, off_length := 15, on_char := (if c0 = 10 then 32 else c0), off_char := (if c1 = 10 then 32 else c1),
     location := of_nat (row * 80 + col + 40)\<rparr>"

partial_function (option) frame_row ::
  "'k calls \<Rightarrow> blink \<Rightarrow> int \<Rightarrow> int \<Rightarrow> nat \<Rightarrow> nat \<Rightarrow> u8 \<Rightarrow> u8 \<Rightarrow> bool \<Rightarrow> bool \<Rightarrow> fish \<Rightarrow> 'k \<Rightarrow> (bool \<times> bool \<times> fish \<times> 'k) option" where
  "frame_row C u fd0 fd1 row col c0 c1 eof0 eof1 s k = do {
     (c0, eof0, k) \<leftarrow> frame_char C fd0 c0 eof0 k;
     (c1, eof1, k) \<leftarrow> frame_char C fd1 c1 eof1 k;
     if c0 = 10 \<and> c1 = 10 then Some (eof0, eof1, s, k)
     else do {
       s \<leftarrow> (if c0 \<noteq> 32 \<and> c0 \<noteq> 10 \<or> c1 \<noteq> 32 \<and> c1 \<noteq> 10 then do {
               (r, q, s) \<leftarrow> mp1_ioctl (RTC_ADD (frame_blink u row col c0 c1)) s;
               Some s
             } else Some s);
       frame_row C u fd0 fd1 row (Suc col) c0 c1 eof0 eof1 s k
     }
   }"

definition end_frame :: "'k calls \<Rightarrow> int \<Rightarrow> bool \<Rightarrow> 'k \<Rightarrow> (u8 \<times> 'k) option" where
  "end_frame C fd eof k = (if eof then do { (r, k) \<leftarrow> ece391_close C fd k; Some (10, k) } else Some (byte_of (CHR ''0''), k))"

partial_function (option) frames_loop ::
  "'k calls \<Rightarrow> blink \<Rightarrow> int \<Rightarrow> int \<Rightarrow> nat \<Rightarrow> u8 \<Rightarrow> u8 \<Rightarrow> bool \<Rightarrow> bool \<Rightarrow> fish \<Rightarrow> 'k \<Rightarrow> (fish \<times> 'k) option" where
  "frames_loop C u fd0 fd1 row c0 c1 eof0 eof1 s k =
     (if \<not> eof0 \<or> \<not> eof1 then do {
        (eof0, eof1, s, k) \<leftarrow> frame_row C u fd0 fd1 row 0 c0 c1 eof0 eof1 s k;
        (c0, k) \<leftarrow> end_frame C fd0 eof0 k;
        (c1, k) \<leftarrow> end_frame C fd1 eof1 k;
        frames_loop C u fd0 fd1 (Suc row) c0 c1 eof0 eof1 s k
      } else Some (s, k))"

text \<open>\<open>Inl\<close> is the program ended by \<open>halt\<close> with that status.\<close>

definition add_frames :: "'k calls \<Rightarrow> blink \<Rightarrow> u8 list \<Rightarrow> u8 list \<Rightarrow> fish \<Rightarrow> 'k \<Rightarrow> ((u8 + fish) \<times> 'k) option" where
  "add_frames C u f0 f1 s k = do {
     (fd0, k) \<leftarrow> ece391_open C f0 k;
     if fd0 < 0 then Some (Inl (-1), k)
     else do {
       (fd1, k) \<leftarrow> ece391_open C f1 k;
       if fd1 < 0 then Some (Inl (-1), k)
       else do {
         (s, k) \<leftarrow> frames_loop C u fd0 fd1 0 (byte_of (CHR ''0'')) (byte_of (CHR ''0'')) False False s k;
         Some (Inr s, k)
       }
     }
   }"

definition wait_ticks :: "'k calls \<Rightarrow> int \<Rightarrow> u8 list \<Rightarrow> fish \<Rightarrow> 'k \<Rightarrow> (fish \<times> 'k) option" where
  "wait_ticks C rtc_fd garbage s k = for_range 0 100 (\<lambda>i (s, k). do {
       (r, g, k) \<leftarrow> ece391_read C rtc_fd garbage 4 k;
       s \<leftarrow> mp1_rtc_tasklet s;
       Some (s, k)
     }) (s, k)"

definition the_blink :: "blink \<Rightarrow> blink" where
  "the_blink u = u\<lparr>on_char := byte_of (CHR ''I''), off_char := byte_of (CHR ''M''), on_length := 7, off_length := 6, location := 6 * 80 + 60\<rparr>"

text \<open>The part of \<open>main\<close> after \<open>add_frames\<close>: the pictures blink, one more character comes, is synchronised with another one and goes.\<close>

definition fish_show :: "'k calls \<Rightarrow> int \<Rightarrow> blink \<Rightarrow> u8 list \<Rightarrow> fish \<Rightarrow> 'k \<Rightarrow> (int \<times> fish \<times> 'k) option" where
  "fish_show C rtc_fd u garbage s k = do {
     (r, k) \<leftarrow> ece391_write C rtc_fd [32, 0, 0, 0] 4 k;
     (s, k) \<leftarrow> wait_ticks C rtc_fd garbage s k;
     (r, q, s) \<leftarrow> mp1_ioctl (RTC_ADD (the_blink u)) s;
     (s, k) \<leftarrow> wait_ticks C rtc_fd garbage s k;
     (r, q, s) \<leftarrow> mp1_ioctl (RTC_SYNC (push_bit 16 40 OR (6 * 80 + 60))) s;
     (s, k) \<leftarrow> wait_ticks C rtc_fd garbage s k;
     (r, q, s) \<leftarrow> mp1_ioctl (RTC_REMOVE (6 * 80 + 60)) s;
     (s, k) \<leftarrow> wait_ticks C rtc_fd garbage s k;
     (r, k) \<leftarrow> ece391_close C rtc_fd k;
     Some (0, s, k)
   }"

definition fish_main :: "'k calls \<Rightarrow> u32 \<Rightarrow> blink \<Rightarrow> blink \<Rightarrow> u8 list \<Rightarrow> fish \<Rightarrow> 'k \<Rightarrow> (int \<times> fish \<times> 'k) option" where
  "fish_main C va u u' garbage s k = do {
     let s = s\<lparr>blink_array := map (\<lambda>_. zero_blink) (blink_array s)\<rparr>;
     (b, k) \<leftarrow> mp1_set_video_mode C va k;
     if \<not> b then Some (-1, s, k)
     else do {
       (rtc_fd, k) \<leftarrow> ece391_open C (literal ''rtc'') k;
       (x, k) \<leftarrow> add_frames C u (literal ''frame0.txt'') (literal ''frame1.txt'') s k;
       case x of
         Inl st \<Rightarrow> Some (uint st, s, k)
       | Inr s \<Rightarrow> fish_show C rtc_fd u' garbage s k
     }
   }"

section \<open>Byte loops\<close>

lemma ece391_memset_fills: "n \<le> length mem \<Longrightarrow> ece391_memset mem c n = Some (replicate n c @ drop n mem)"
proof -
  assume n: "n \<le> length mem"
  have "\<exists>m. for_range 0 n (\<lambda>i mem. aset mem (int i) c) mem = Some m \<and> m = replicate n c @ drop n mem"
  proof (rule for_range_total [where I = "\<lambda>i m. m = replicate i c @ drop i mem"])
    fix i m assume "0 \<le> i" "i < n" "m = replicate i c @ drop i mem"
    then show "\<exists>m'. aset m (int i) c = Some m' \<and> m' = replicate (Suc i) c @ drop (Suc i) mem"
      using n by (simp add: list_update_append Cons_nth_drop_Suc [symmetric] replicate_append_same [symmetric])
  qed simp_all
  then show ?thesis by (simp add: ece391_memset_def)
qed

lemma ece391_memcpy_copies: "n \<le> length dest \<Longrightarrow> n \<le> length src \<Longrightarrow> ece391_memcpy dest src n = Some (0, take n src @ drop n dest)"
proof -
  assume n: "n \<le> length dest" "n \<le> length src"
  have "\<exists>d. for_range 0 n (\<lambda>i d. do { b \<leftarrow> aget src (int i); aset d (int i) b }) dest = Some d \<and> d = take n src @ drop n dest"
  proof (rule for_range_total [where I = "\<lambda>i d. d = take i src @ drop i dest"])
    fix i d assume "0 \<le> i" "i < n" "d = take i src @ drop i dest"
    then show "\<exists>d'. do { b \<leftarrow> aget src (int i); aset d (int i) b } = Some d' \<and> d' = take (Suc i) src @ drop (Suc i) dest"
      using n by (simp add: list_update_append Cons_nth_drop_Suc [symmetric] take_Suc_conv_app_nth min_def)
  qed simp_all
  then show ?thesis by (simp add: ece391_memcpy_def)
qed

section \<open>What the two pictures become\<close>

text \<open>The blinking characters of one row of both pictures from column \<open>col\<close> on; a shorter line ends in blanks.\<close>

fun row_blinks :: "blink \<Rightarrow> nat \<Rightarrow> nat \<Rightarrow> u8 list \<Rightarrow> u8 list \<Rightarrow> blink list" where
  "row_blinks u row col [] [] = []"
| "row_blinks u row col (x # xs) [] = (if x \<noteq> 32 then [frame_blink u row col x 10] else []) @ row_blinks u row (Suc col) xs []"
| "row_blinks u row col [] (y # ys) = (if y \<noteq> 32 then [frame_blink u row col 10 y] else []) @ row_blinks u row (Suc col) [] ys"
| "row_blinks u row col (x # xs) (y # ys) = (if x \<noteq> 32 \<or> y \<noteq> 32 then [frame_blink u row col x y] else []) @ row_blinks u row (Suc col) xs ys"

definition nth_line :: "u8 list list \<Rightarrow> nat \<Rightarrow> u8 list" where
  "nth_line ls r = (if r < length ls then ls ! r else [])"

definition picture :: "blink \<Rightarrow> nat \<Rightarrow> u8 list list \<Rightarrow> u8 list list \<Rightarrow> blink list" where
  "picture u row ls0 ls1 = concat (map (\<lambda>r. row_blinks u (row + r) 0 (nth_line ls0 r) (nth_line ls1 r)) [0..<max (length ls0) (length ls1)])"

lemma picture_rows:
  "ls0 \<noteq> [] \<or> ls1 \<noteq> [] \<Longrightarrow> picture u row ls0 ls1 = row_blinks u row 0 (nth_line ls0 0) (nth_line ls1 0) @ picture u (Suc row) (tl ls0) (tl ls1)"
proof -
  assume "ls0 \<noteq> [] \<or> ls1 \<noteq> []"
  then have m: "max (length ls0) (length ls1) = Suc (max (length (tl ls0)) (length (tl ls1)))" by (cases ls0; cases ls1) auto
  have n: "nth_line ls (Suc r) = nth_line (tl ls) r" for ls r by (cases ls) (simp_all add: nth_line_def)
  show ?thesis unfolding picture_def m upt_conv_Cons [OF zero_less_Suc] map_Suc_upt [symmetric] by (simp add: n o_def)
qed

text \<open>The characters are added one after the other.\<close>

primrec add_all :: "blink list \<Rightarrow> fish \<Rightarrow> fish option" where
  "add_all [] s = Some s"
| "add_all (b # bs) s = do { (r, q, s) \<leftarrow> mp1_ioctl (RTC_ADD b) s; add_all bs s }"

lemma add_all_append: "add_all (xs @ ys) s = do { s \<leftarrow> add_all xs s; add_all ys s }"
proof (induction xs arbitrary: s)
  case (Cons b xs)
  then show ?case by (cases "mp1_ioctl (RTC_ADD b) s") auto
qed simp

section \<open>Reading the pictures\<close>

text \<open>What is left of the current line after the character \<open>c\<close>, and the state at its end.\<close>

definition pend :: "u8 \<Rightarrow> u8 list \<Rightarrow> u8 list" where
  "pend c bs = (if c = 10 then [] else takeWhile (\<lambda>c. c \<noteq> 10) bs)"

definition next_step :: "u8 \<Rightarrow> bool \<Rightarrow> u8 list \<Rightarrow> u8 \<times> bool \<times> u8 list" where
  "next_step c eof bs = (if c = 10 then (c, eof, bs) else case bs of [] \<Rightarrow> (10, True, []) | x # xs \<Rightarrow> (x, eof, xs))"

definition row_end :: "u8 \<Rightarrow> bool \<Rightarrow> u8 list \<Rightarrow> bool \<times> u8 list" where
  "row_end c eof bs = (if c = 10 then (eof, bs) else if 10 \<in> set bs then (eof, tl (dropWhile (\<lambda>c. c \<noteq> 10) bs)) else (True, []))"

lemma next_step_pend:
  assumes "next_step c eof bs = (c', eof', bs')"
  shows "pend c bs = (if c' = 10 then [] else c' # pend c' bs')" "row_end c eof bs = row_end c' eof' bs'"
  using assms by (auto simp: next_step_def pend_def row_end_def split: if_splits list.splits)

context session_calls
begin

lemma frame_char_reads:
  assumes "ok k" and "if b then c = 10 \<and> shut k fd else at_file k fd bs" and "next_step c eof bs = (c', eof', bs')" and "1 \<le> room"
  shows "\<exists>k'. frame_char C fd c eof k = Some (c', eof', k') \<and> emits {fd} [] k k' \<and> (if b then c' = 10 \<and> shut k' fd else at_file k' fd bs')"
proof (cases "c = 10")
  case True
  then show ?thesis using assms(2,3) emits_refl [OF assms(1)] by (auto simp: frame_char_def next_step_def)
next
  case False
  then have f: "at_file k fd bs" "\<not> b" using assms(2) by (auto split: if_splits)
  from read_file [OF assms(1) f(1), of 1 "[c]"] assms(4) obtain k' where
    k': "ece391_read C fd [c] 1 k = Some (int (min 1 (length bs)), take 1 bs @ drop (min 1 (length bs)) [c], k')" "emits {fd} [] k k'" "at_file k' fd (drop 1 bs)" by auto
  show ?thesis using k' f(2) False assms(3) by (cases bs) (auto simp: frame_char_def next_step_def)
qed

text \<open>A descriptor that is not used keeps its state.\<close>

lemma src_kept: "emits F xs k k' \<Longrightarrow> fd \<notin> F \<Longrightarrow> if b then c = 10 \<and> shut k fd else at_file k fd bs \<Longrightarrow> if b then c = 10 \<and> shut k' fd else at_file k' fd bs"
  using shut_kept file_kept by (auto split: if_splits)

lemma frame_row_adds:
  assumes "fd0 \<noteq> fd1" and "1 \<le> room"
  shows "ok k \<Longrightarrow> if b0 then c0 = 10 \<and> shut k fd0 else at_file k fd0 bs0 \<Longrightarrow> if b1 then c1 = 10 \<and> shut k fd1 else at_file k fd1 bs1 \<Longrightarrow>
    add_all (row_blinks u row col (pend c0 bs0) (pend c1 bs1)) s = Some s' \<Longrightarrow>
    \<exists>k'. frame_row C u fd0 fd1 row col c0 c1 e0 e1 s k = Some (fst (row_end c0 e0 bs0), fst (row_end c1 e1 bs1), s', k') \<and> emits {fd0, fd1} [] k k'
      \<and> (if b0 then shut k' fd0 else at_file k' fd0 (snd (row_end c0 e0 bs0))) \<and> (if b1 then shut k' fd1 else at_file k' fd1 (snd (row_end c1 e1 bs1)))"
proof (induction "length (pend c0 bs0) + length (pend c1 bs1)" arbitrary: c0 c1 bs0 bs1 e0 e1 col s k rule: less_induct)
  case less
  obtain d0 f0 ds0 where n0: "next_step c0 e0 bs0 = (d0, f0, ds0)" by (cases "next_step c0 e0 bs0") auto
  obtain d1 f1 ds1 where n1: "next_step c1 e1 bs1 = (d1, f1, ds1)" by (cases "next_step c1 e1 bs1") auto
  note p0 = next_step_pend [OF n0] and p1 = next_step_pend [OF n1]
  from frame_char_reads [OF less.prems(1,2) n0 assms(2)] obtain k1 where
    k1: "frame_char C fd0 c0 e0 k = Some (d0, f0, k1)" "emits {fd0} [] k k1" "if b0 then d0 = 10 \<and> shut k1 fd0 else at_file k1 fd0 ds0" by blast
  have s1: "if b1 then c1 = 10 \<and> shut k1 fd1 else at_file k1 fd1 bs1" by (rule src_kept [OF k1(2) _ less.prems(3)]) (use assms(1) in simp)
  from frame_char_reads [OF emits_ok [OF k1(2)] s1 n1 assms(2)] obtain k2 where
    k2: "frame_char C fd1 c1 e1 k1 = Some (d1, f1, k2)" "emits {fd1} [] k1 k2" "if b1 then d1 = 10 \<and> shut k2 fd1 else at_file k2 fd1 ds1" by blast
  have s0: "if b0 then d0 = 10 \<and> shut k2 fd0 else at_file k2 fd0 ds0" by (rule src_kept [OF k2(2) _ k1(3)]) (use assms(1) in simp)
  have e: "emits {fd0, fd1} [] k k2" using emits_trans [OF emits_mono [OF k1(2)] emits_mono [OF k2(2)], of "{fd0, fd1}"] by simp
  show ?case
  proof (cases "d0 = 10 \<and> d1 = 10")
    case True
    then have "s' = s" using less.prems(4) p0 p1 by simp
    moreover have "row_end c0 e0 bs0 = (f0, ds0)" "row_end c1 e1 bs1 = (f1, ds1)" using p0(2) p1(2) True by (simp_all add: row_end_def)
    ultimately show ?thesis using k1(1) k2 s0 e True by (subst frame_row.simps) auto
  next
    case False
    let ?add = "d0 \<noteq> 32 \<and> d0 \<noteq> 10 \<or> d1 \<noteq> 32 \<and> d1 \<noteq> 10"
    have "row_blinks u row col (pend c0 bs0) (pend c1 bs1) = (if ?add then [frame_blink u row col d0 d1] else []) @ row_blinks u row (Suc col) (pend d0 ds0) (pend d1 ds1)"
      unfolding p0(1) p1(1) using False by (auto simp: pend_def)
    with less.prems(4) obtain s1 where
      s1: "(if ?add then do { (r, q, s) \<leftarrow> mp1_ioctl (RTC_ADD (frame_blink u row col d0 d1)) s; Some s } else Some s) = Some s1"
      "add_all (row_blinks u row (Suc col) (pend d0 ds0) (pend d1 ds1)) s1 = Some s'"
      by (auto simp: add_all_append bind_eq_Some_conv split: if_splits)
    have "length (pend d0 ds0) + length (pend d1 ds1) < length (pend c0 bs0) + length (pend c1 bs1)"
      unfolding p0(1) p1(1) using False by (auto simp: pend_def)
    from less.hyps [OF this emits_ok [OF k2(2)] s0 k2(3) s1(2)] obtain k' where
      k': "frame_row C u fd0 fd1 row (Suc col) d0 d1 f0 f1 s1 k2 = Some (fst (row_end c0 e0 bs0), fst (row_end c1 e1 bs1), s', k')" "emits {fd0, fd1} [] k2 k'"
      "if b0 then shut k' fd0 else at_file k' fd0 (snd (row_end c0 e0 bs0))" "if b1 then shut k' fd1 else at_file k' fd1 (snd (row_end c1 e1 bs1))"
      unfolding p0(2) p1(2) by blast
    have "frame_row C u fd0 fd1 row col c0 c1 e0 e1 s k = frame_row C u fd0 fd1 row (Suc col) d0 d1 f0 f1 s1 k2"
      using k1(1) k2(1) False s1(1) by (subst frame_row.simps) (simp only: Option.bind_lunit prod.case if_False)
    then show ?thesis using k' emits_empty_trans [OF e k'(2)] by auto
  qed
qed

lemma end_frame_next:
  assumes "ok k" and "b \<Longrightarrow> eof" and "if b then shut k fd else at_file k fd bs"
  shows "\<exists>c k'. end_frame C fd eof k = Some (c, k') \<and> emits {fd} [] k k' \<and> (if eof then c = 10 \<and> shut k' fd else c \<noteq> 10 \<and> at_file k' fd bs)"
proof (cases eof)
  case False
  then show ?thesis using assms emits_refl by (cases b) (auto simp: end_frame_def byte_of_def)
next
  case True
  have "\<exists>r k'. ece391_close C fd k = Some (r, k') \<and> emits {fd} [] k k' \<and> shut k' fd"
  proof (cases b)
    case True
    then have "shut k fd" using assms(3) by simp
    from close_shut [OF assms(1) this] obtain k' where "ece391_close C fd k = Some (-1, k')" "emits {} [] k k'" by blast
    then show ?thesis using shut_kept [of "{}"] \<open>shut k fd\<close> emits_any by blast
  next
    case False
    then show ?thesis using close_file [OF assms(1) _ spare_zero [OF assms(1)]] assms(3) by (metis (full_types))
  qed
  then show ?thesis using True by (auto simp: end_frame_def)
qed

text \<open>A picture between two rows: closed with no lines left, or open before the lines \<open>ls\<close>.\<close>

lemma frames_loop_adds:
  assumes "fd0 \<noteq> fd1" and "1 \<le> room"
  shows "ok k \<Longrightarrow> if e0 then c0 = 10 \<and> ls0 = [] \<and> shut k fd0 else c0 \<noteq> 10 \<and> (\<exists>bs. at_file k fd0 bs \<and> ls0 = lines bs) \<Longrightarrow>
    if e1 then c1 = 10 \<and> ls1 = [] \<and> shut k fd1 else c1 \<noteq> 10 \<and> (\<exists>bs. at_file k fd1 bs \<and> ls1 = lines bs) \<Longrightarrow>
    add_all (picture u row ls0 ls1) s = Some s' \<Longrightarrow>
    \<exists>k'. frames_loop C u fd0 fd1 row c0 c1 e0 e1 s k = Some (s', k') \<and> emits {fd0, fd1} [] k k' \<and> shut k' fd0 \<and> shut k' fd1"
proof (induction "max (length ls0) (length ls1)" arbitrary: ls0 ls1 c0 c1 e0 e1 row s k rule: less_induct)
  case less
  show ?case
  proof (cases "e0 \<and> e1")
    case True
    then have "s' = s" using less.prems(2-4) by (simp add: picture_def)
    then show ?thesis using True less.prems(2,3) emits_refl [OF less.prems(1)] by (subst frames_loop.simps) auto
  next
    case False
    have src: "\<exists>bs. (if e then c = 10 \<and> shut k fd else at_file k fd bs) \<and> pend c bs = nth_line ls 0 \<and> (e \<longrightarrow> fst (row_end c e bs))
        \<and> (if fst (row_end c e bs) then tl ls = [] else tl ls = lines (snd (row_end c e bs)))"
      if A: "if e then c = 10 \<and> ls = [] \<and> shut k fd else c \<noteq> 10 \<and> (\<exists>bs. at_file k fd bs \<and> ls = lines bs)" for e c ls fd
    proof (cases e)
      case True
      then show ?thesis using A by (simp add: pend_def nth_line_def row_end_def)
    next
      case False
      then obtain bs where bs: "at_file k fd bs" "ls = lines bs" "c \<noteq> 10" using A by auto
      show ?thesis using bs False by (intro exI [of _ bs]) (simp add: pend_def nth_line_def row_end_def lines.simps [of bs])
    qed
    from src [OF less.prems(2)] obtain bs0 where b0: "if e0 then c0 = 10 \<and> shut k fd0 else at_file k fd0 bs0" "pend c0 bs0 = nth_line ls0 0"
      "e0 \<Longrightarrow> fst (row_end c0 e0 bs0)" "if fst (row_end c0 e0 bs0) then tl ls0 = [] else tl ls0 = lines (snd (row_end c0 e0 bs0))" by blast
    from src [OF less.prems(3)] obtain bs1 where b1: "if e1 then c1 = 10 \<and> shut k fd1 else at_file k fd1 bs1" "pend c1 bs1 = nth_line ls1 0"
      "e1 \<Longrightarrow> fst (row_end c1 e1 bs1)" "if fst (row_end c1 e1 bs1) then tl ls1 = [] else tl ls1 = lines (snd (row_end c1 e1 bs1))" by blast
    have ne: "ls0 \<noteq> [] \<or> ls1 \<noteq> []" using False less.prems(2,3) lines.simps by (metis list.distinct(1))
    from less.prems(4) [unfolded picture_rows [OF ne]] obtain s1 where
      s1: "add_all (row_blinks u row 0 (pend c0 bs0) (pend c1 bs1)) s = Some s1" "add_all (picture u (Suc row) (tl ls0) (tl ls1)) s1 = Some s'"
      by (auto simp: add_all_append bind_eq_Some_conv b0(2) b1(2))
    let ?f0 = "fst (row_end c0 e0 bs0)" and ?f1 = "fst (row_end c1 e1 bs1)"
    from frame_row_adds [OF assms less.prems(1) b0(1) b1(1) s1(1)] obtain k1 where
      k1: "frame_row C u fd0 fd1 row 0 c0 c1 e0 e1 s k = Some (?f0, ?f1, s1, k1)" "emits {fd0, fd1} [] k k1"
        "if e0 then shut k1 fd0 else at_file k1 fd0 (snd (row_end c0 e0 bs0))" "if e1 then shut k1 fd1 else at_file k1 fd1 (snd (row_end c1 e1 bs1))" by blast
    from end_frame_next [OF emits_ok [OF k1(2)] b0(3) k1(3)] obtain d0 k2 where
      k2: "end_frame C fd0 ?f0 k1 = Some (d0, k2)" "emits {fd0} [] k1 k2" "if ?f0 then d0 = 10 \<and> shut k2 fd0 else d0 \<noteq> 10 \<and> at_file k2 fd0 (snd (row_end c0 e0 bs0))" by blast
    have "if e1 then shut k2 fd1 else at_file k2 fd1 (snd (row_end c1 e1 bs1))" using k1(4) shut_kept [OF k2(2)] file_kept [OF k2(2)] assms(1) by (auto split: if_splits)
    from end_frame_next [OF emits_ok [OF k2(2)] b1(3) this] obtain d1 k3 where
      k3: "end_frame C fd1 ?f1 k2 = Some (d1, k3)" "emits {fd1} [] k2 k3" "if ?f1 then d1 = 10 \<and> shut k3 fd1 else d1 \<noteq> 10 \<and> at_file k3 fd1 (snd (row_end c1 e1 bs1))" by blast
    have l0: "if ?f0 then d0 = 10 \<and> tl ls0 = [] \<and> shut k3 fd0 else d0 \<noteq> 10 \<and> (\<exists>bs. at_file k3 fd0 bs \<and> tl ls0 = lines bs)"
      using k2(3) b0(4) shut_kept [OF k3(2)] file_kept [OF k3(2)] assms(1) by (auto split: if_splits)
    have l1: "if ?f1 then d1 = 10 \<and> tl ls1 = [] \<and> shut k3 fd1 else d1 \<noteq> 10 \<and> (\<exists>bs. at_file k3 fd1 bs \<and> tl ls1 = lines bs)"
      using k3(3) b1(4) by (auto split: if_splits)
    have "max (length (tl ls0)) (length (tl ls1)) < max (length ls0) (length ls1)" using ne by (cases ls0; cases ls1) auto
    from less.hyps [OF this emits_ok [OF k3(2)] l0 l1 s1(2)] obtain k' where
      k': "frames_loop C u fd0 fd1 (Suc row) d0 d1 ?f0 ?f1 s1 k3 = Some (s', k')" "emits {fd0, fd1} [] k3 k'" "shut k' fd0" "shut k' fd1" by blast
    have "frames_loop C u fd0 fd1 row c0 c1 e0 e1 s k = Some (s', k')"
      using False k1(1) k2(1) k3(1) k'(1) by (subst frames_loop.simps) simp
    moreover have "emits {fd0, fd1} [] k k'"
      using emits_empty_trans [OF k1(2) emits_empty_trans [OF emits_mono [OF k2(2)] emits_empty_trans [OF emits_mono [OF k3(2)] k'(2)]]] by simp
    ultimately show ?thesis using k'(3,4) by blast
  qed
qed

text \<open>The two pictures are opened, read to their ends and closed.\<close>

lemma add_frames_adds:
  assumes "ok k" and "stored k x0 bs0" and "stored k x1 bs1" and "spare k 2" and "length x0 < room" and "length x1 < room"
    and "add_all (picture u 0 (lines bs0) (lines bs1)) s = Some s'"
  shows "\<exists>fd0 fd1 k'. add_frames C u (x0 @ [0]) (x1 @ [0]) s k = Some (Inr s', k') \<and> emits {fd0, fd1} [] k k' \<and> shut k' fd0 \<and> shut k' fd1"
proof -
  from open_stored [OF assms(1,2), of 1 "[]"] assms(4,5) obtain fd0 k1 where
    k1: "ece391_open C (x0 @ [0]) k = Some (fd0, k1)" "2 \<le> fd0" "emits {fd0} [] k k1" "at_file k1 fd0 bs0" "spare k1 1" by (auto simp: numeral_2_eq_2)
  from open_stored [OF emits_ok [OF k1(3)] stored_kept [OF k1(3) assms(3)], of 0 "[]"] k1(5) assms(6) obtain fd1 k2 where
    k2: "ece391_open C (x1 @ [0]) k1 = Some (fd1, k2)" "2 \<le> fd1" "emits {fd1} [] k1 k2" "at_file k2 fd1 bs1" "\<forall>fd' bs'. at_file k1 fd' bs' \<longrightarrow> fd' \<noteq> fd1" by auto
  have ne: "fd0 \<noteq> fd1" using k2(5) k1(4) by blast
  let ?c = "byte_of (CHR ''0'')"
  have c: "?c \<noteq> 10" by (simp add: byte_of_def)
  have "at_file k2 fd0 bs0" using file_kept [OF k2(3) _ k1(4)] ne by simp
  then obtain k' where k': "frames_loop C u fd0 fd1 0 ?c ?c False False s k2 = Some (s', k')" "emits {fd0, fd1} [] k2 k'" "shut k' fd0" "shut k' fd1"
    using frames_loop_adds [OF ne _ emits_ok [OF k2(3)], of False ?c "lines bs0" False ?c "lines bs1" u 0 s s'] c k2(4) assms(5,7) by auto
  have "add_frames C u (x0 @ [0]) (x1 @ [0]) s k = Some (Inr s', k')" using k1(1,2) k2(1,2) k'(1) by (simp add: add_frames_def)
  moreover have "emits {fd0, fd1} [] k k'" using emits_empty_trans [OF emits_mono [OF k1(3)] emits_empty_trans [OF emits_mono [OF k2(3)] k'(2)]] by simp
  ultimately show ?thesis using k'(3,4) by blast
qed

end

section \<open>The pictures on the kernel\<close>

definition started :: "blink \<Rightarrow> blink" where
  "started b = strip (b\<lparr>status := 1, countdown := on_length b\<rparr>)"

definition drawn :: "blink list \<Rightarrow> u8 list \<Rightarrow> u8 list" where
  "drawn xs v = foldl (\<lambda>v b. v[2 * unat (location b) := on_char b]) v xs"

lemma add_all_refines:
  "blinks s bs \<Longrightarrow> \<forall>b \<in> set xs. location b \<noteq> 0 \<and> location b < 2000 \<Longrightarrow> length xs + length bs \<le> 2000 \<Longrightarrow>
    \<exists>s'. add_all xs s = Some s' \<and> blinks s' (rev (map started xs) @ bs) \<and> vmem s' = drawn xs (vmem s)"
proof (induction xs arbitrary: s bs)
  case (Cons b xs)
  from add_refines [OF Cons.prems(1), of b] Cons.prems(2,3) obtain s1 where
    s1: "mp1_ioctl_add b s = Some (0, s1)" "blinks s1 (started b # bs)" "vmem s1 = (vmem s)[2 * unat (location b) := on_char b]"
    by (auto simp: started_def split: if_splits)
  from Cons.IH [OF s1(2)] Cons.prems(2,3) obtain s' where "add_all xs s1 = Some s'" "blinks s' (rev (map started xs) @ started b # bs)" "vmem s' = drawn xs (vmem s1)" by auto
  then show ?case using s1(1,3) by (simp add: mp1_ioctl_def drawn_def)
qed (simp add: drawn_def)



end
