(* ===== verification/Clock.thy ===== *)
theory Clock
  imports User_Kernel
begin

text \<open>
  Programs that keep time with the real-time clock. The locale says what they need: a clock that can be opened, set to a frequency and waited for. The interpretation
  on this kernel puts together \<open>open\<close>, \<open>write\<close> and \<open>read\<close> on the descriptor of the clock, the driver rtc.c, and the interrupts of the clock that end the waiting. The
  program is \<open>pingpong\<close>, which draws a character that moves between two walls, one picture per tick, and never ends.
\<close>

section \<open>The rounds of pingpong\<close>

text \<open>The first \<open>n\<close> rounds of the loop, and the program up to their end.\<close>

primrec pingpong_rounds :: "'k calls \<Rightarrow> int \<Rightarrow> u8 list \<Rightarrow> nat \<Rightarrow> u8 \<Rightarrow> u8 list \<times> 'k \<Rightarrow> (u8 list \<times> 'k) option" where
  "pingpong_rounds C rtc_fd garbage 0 curchar bk = Some bk"
| "pingpong_rounds C rtc_fd garbage (Suc n) curchar bk = do {
     bk \<leftarrow> pingpong_round C rtc_fd garbage curchar bk;
     pingpong_rounds C rtc_fd garbage n (next_char curchar) bk
   }"

definition pingpong_run :: "'k calls \<Rightarrow> u8 list \<Rightarrow> nat \<Rightarrow> u8 list \<Rightarrow> 'k \<Rightarrow> (int \<times> u8 list \<times> 'k) option" where
  "pingpong_run C garbage n buf k = do {
     buf \<leftarrow> pingpong_buf buf;
     (rtc_fd, k) \<leftarrow> ece391_open C (literal ''rtc'') k;
     (r, k) \<leftarrow> ece391_write C rtc_fd [32, 0, 0, 0] 4 k;
     bk \<leftarrow> pingpong_rounds C rtc_fd garbage n (byte_of (CHR ''A'')) (buf, k);
     Some (rtc_fd, bk)
   }"

lemma pingpong_loop_unrolls:
  "pingpong_loop C rtc_fd garbage c bk = do { bk \<leftarrow> pingpong_rounds C rtc_fd garbage n c bk; pingpong_loop C rtc_fd garbage ((next_char ^^ n) c) bk }"
proof (induction n arbitrary: c bk)
  case (Suc n)
  have "pingpong_loop C rtc_fd garbage c bk = do { bk \<leftarrow> pingpong_round C rtc_fd garbage c bk; pingpong_loop C rtc_fd garbage (next_char c) bk }"
    by (rule pingpong_loop.simps)
  also have "\<dots> = do { bk \<leftarrow> pingpong_round C rtc_fd garbage c bk; bk \<leftarrow> pingpong_rounds C rtc_fd garbage n (next_char c) bk;
      pingpong_loop C rtc_fd garbage ((next_char ^^ n) (next_char c)) bk }"
    by (intro Option.bind_cong refl) (rule Suc.IH)
  finally show ?case by (simp add: funpow_swap1)
qed simp

text \<open>The program is the run of its first rounds followed by the loop, and the loop has no end.\<close>

lemma pingpong_main_unrolls:
  "pingpong_main C garbage buf k = do { (rtc_fd, bk) \<leftarrow> pingpong_run C garbage n buf k; pingpong_loop C rtc_fd garbage ((next_char ^^ n) (byte_of (CHR ''A''))) bk }"
  unfolding pingpong_main_def pingpong_run_def using pingpong_loop_unrolls [of C _ garbage "byte_of (CHR ''A'')" _ n]
  by (auto split: bind_split)

lemma pingpong_never_returns: "pingpong_loop C rtc_fd garbage c bk = None" "pingpong_main C garbage buf k = None"
proof -
  have "pingpong_loop C rtc_fd garbage c bk = Some y \<Longrightarrow> False" for rtc_fd c bk y
    by (erule pingpong_loop.raw_induct [where P = "\<lambda>_ _ _ _ _ _. False", rotated]) (auto split: bind_splits)
  then show l: "pingpong_loop C rtc_fd garbage c bk = None" for rtc_fd c bk by (meson not_None_eq)
  show "pingpong_main C garbage buf k = None" by (auto simp: pingpong_main_def l split: bind_split)
qed

text \<open>What it draws: the walls with the character at position \<open>j\<close>; out and back; the letters in turn.\<close>

definition court :: "u8 list" where
  "court = [32, 124] @ replicate 76 32 @ [124, 10]"

definition ball_at :: "u8 \<Rightarrow> nat \<Rightarrow> u8 list" where
  "ball_at c j = court[j := c]"

definition round_text :: "u8 \<Rightarrow> u8 list" where
  "round_text c = concat (map (ball_at c) ([2..<78] @ rev [2..<78]))"

primrec rounds_text :: "nat \<Rightarrow> u8 \<Rightarrow> u8 list" where
  "rounds_text 0 c = []"
| "rounds_text (Suc n) c = round_text c @ rounds_text n (next_char c)"

definition court_buf :: "u8 list \<Rightarrow> bool" where
  "court_buf b \<longleftrightarrow> length b = 81 \<and> b ! 0 = 32 \<and> b ! 1 = 124 \<and> b ! 78 = 124 \<and> b ! 79 = 10 \<and> b ! 80 = 0"

lemma length_court [simp]: "length court = 80" by (simp add: court_def)

lemma court_nth: "j < 80 \<Longrightarrow> court ! j = (if j = 1 \<or> j = 78 then 124 else if j = 79 then 10 else 32)"
proof -
  have "list_all (\<lambda>j. court ! j = (if j = 1 \<or> j = 78 then 124 else if j = 79 then 10 else 32)) [0..<80]" by code_simp
  then show "j < 80 \<Longrightarrow> court ! j = (if j = 1 \<or> j = 78 then 124 else if j = 79 then 10 else 32)" by (simp add: list_all_iff)
qed

lemma fill_range:
  assumes "n \<le> length b"
  shows "\<exists>b'. for_range m n (\<lambda>i b. aset b (int i) x) b = Some b' \<and> length b' = length b \<and> (\<forall>j < length b. b' ! j = (if m \<le> j \<and> j < n then x else b ! j))"
proof (cases "m \<le> n")
  case True
  have "\<exists>b'. for_range m n (\<lambda>i b. aset b (int i) x) b = Some b' \<and> length b' = length b \<and> (\<forall>j < length b. b' ! j = (if m \<le> j \<and> j < n then x else b ! j))"
  proof (rule for_range_total [where I = "\<lambda>i b'. length b' = length b \<and> (\<forall>j < length b. b' ! j = (if m \<le> j \<and> j < i then x else b ! j))", OF True])
    fix i t assume "m \<le> i" "i < n" "length t = length b \<and> (\<forall>j < length b. t ! j = (if m \<le> j \<and> j < i then x else b ! j))"
    then show "\<exists>t'. aset t (int i) x = Some t' \<and> length t' = length b \<and> (\<forall>j < length b. t' ! j = (if m \<le> j \<and> j < Suc i then x else b ! j))"
      using assms by (auto simp: aset_def nth_list_update)
  qed auto
  then show ?thesis .
qed auto

lemma clear_court:
  assumes "court_buf b"
  shows "for_range 2 78 (\<lambda>i b. aset b (int i) 32) b = Some (court @ [0])"
proof -
  from assms have l: "length b = 81" by (simp add: court_buf_def)
  from fill_range [of 78 b 2 32] l obtain b' where
    b': "for_range 2 78 (\<lambda>i b. aset b (int i) 32) b = Some b'" "length b' = 81" "\<forall>j < 81. b' ! j = (if 2 \<le> j \<and> j < 78 then 32 else b ! j)" by auto
  have "b' = court @ [0]"
  proof (rule nth_equalityI)
    fix j assume "j < length b'"
    then have "j = 0 \<or> j = 1 \<or> 2 \<le> j \<and> j < 78 \<or> j = 78 \<or> j = 79 \<or> j = 80" using b'(2) by arith
    then show "b' ! j = (court @ [0]) ! j" using b'(3) assms by (elim disjE) (simp_all add: court_buf_def nth_append court_nth)
  qed (simp add: b'(2))
  then show ?thesis using b'(1) by simp
qed

lemma pingpong_buf_court: "length buf = 81 \<Longrightarrow> pingpong_buf buf = Some (court @ [0])"
proof -
  assume l: "length buf = 81"
  from fill_range [of 81 buf 0 32] l obtain b where b: "for_range 0 81 (\<lambda>i b. aset b (int i) 32) buf = Some b" "length b = 81" "\<forall>j < 81. b ! j = 32" by auto
  have r: "b = replicate 81 32" by (rule nth_equalityI) (use b(2,3) in simp_all)
  have "do { buf \<leftarrow> aset (replicate 81 32) 80 0; buf \<leftarrow> aset buf 79 10; buf \<leftarrow> aset buf 78 124; aset buf 1 124 } = Some (court @ [0 :: u8])" by code_simp
  then show ?thesis unfolding pingpong_buf_def using b(1) r by simp
qed

lemma court_ball:
  assumes "2 \<le> j" and "j < 78"
  shows "aset (court @ [0]) (int j) c = Some (ball_at c j @ [0])" "court_buf (ball_at c j @ [0])" "length (ball_at c j) = 80"
  using assms by (simp_all add: aset_def ball_at_def list_update_append court_buf_def nth_append court_nth nth_list_update)

lemma ball_plain: "c \<noteq> 0 \<Longrightarrow> c \<noteq> 8 \<Longrightarrow> 0 \<notin> set (ball_at c j) \<and> 8 \<notin> set (ball_at c j)"
  using set_update_subset_insert [of court j c] by (auto simp: ball_at_def court_def)

definition letter :: "u8 \<Rightarrow> bool" where
  "letter c \<longleftrightarrow> byte_of (CHR ''A'') \<le> c \<and> c \<le> byte_of (CHR ''Z'')"

lemma next_char_letter: "letter c \<Longrightarrow> letter (next_char c)"
proof -
  assume "letter c"
  then have "65 \<le> unat c" "unat c \<le> 90" by (simp_all add: letter_def byte_of_def word_le_nat_alt)
  moreover from this have "unat (c + 1) = unat c + 1" by (subst unat_add_lem [THEN iffD1]) simp_all
  moreover have "unat c \<noteq> 90" if "c \<noteq> 90" using that by (simp add: word_unat_eq_iff)
  ultimately show ?thesis by (auto simp: letter_def next_char_def byte_of_def word_le_nat_alt)
qed

section \<open>Over the laws of a clock\<close>

text \<open>
  \<open>clock k fd n\<close>: the descriptor is the open clock, and a tick arrives during each of the next \<open>n\<close> reads of it; \<open>has_clock k n\<close>: the clock can be opened, and \<open>n\<close> ticks
  are to come. \<open>runs F xs k k'\<close>: the program came from \<open>k\<close> to \<open>k'\<close> and showed the text \<open>xs\<close>, with waiting on the way.
\<close>

locale clock_calls = terminal_calls C ok says room
  for C :: "'k calls" and ok :: "'k \<Rightarrow> bool" and says :: "int set \<Rightarrow> u8 list \<Rightarrow> 'k \<Rightarrow> 'k \<Rightarrow> bool" and room :: nat +
  fixes runs :: "int set \<Rightarrow> u8 list \<Rightarrow> 'k \<Rightarrow> 'k \<Rightarrow> bool"
    and clock :: "'k \<Rightarrow> int \<Rightarrow> nat \<Rightarrow> bool"
    and has_clock :: "'k \<Rightarrow> int \<Rightarrow> nat \<Rightarrow> bool"
  assumes says_clock: "says {} xs k k' \<Longrightarrow> clock k fd n \<Longrightarrow> clock k' fd n"
    and says_runs: "says F xs k k' \<Longrightarrow> runs F xs k k'"
    and runs_trans: "runs F xs k k' \<Longrightarrow> runs F ys k' k'' \<Longrightarrow> runs F (xs @ ys) k k''"
    and runs_mono: "runs F xs k k' \<Longrightarrow> F \<subseteq> G \<Longrightarrow> runs G xs k k'"
    and runs_ok: "runs F xs k k' \<Longrightarrow> ok k'"
    and open_clock: "ok k \<Longrightarrow> has_clock k fd n \<Longrightarrow> \<exists>k'. ece391_open C (literal ''rtc'') k = Some (fd, k') \<and> runs {fd} [] k k' \<and> clock k' fd n"
    and set_clock: "ok k \<Longrightarrow> clock k fd n \<Longrightarrow> b \<noteq> 0 \<Longrightarrow> \<exists>k'. ece391_write C fd [b, 0, 0, 0] 4 k = Some (0, k') \<and> runs {} [] k k' \<and> clock k' fd n"
    and await_tick: "ok k \<Longrightarrow> clock k fd (Suc n) \<Longrightarrow> length g = 4 \<Longrightarrow> \<exists>k'. ece391_read C fd g 4 k = Some (0, g, k') \<and> runs {} [] k k' \<and> clock k' fd n"
    and close_clock: "ok k \<Longrightarrow> clock k fd n \<Longrightarrow> \<exists>k'. ece391_close C fd k = Some (0, k') \<and> runs {fd} [] k k'"
begin

lemma frame_runs:
  assumes "ok k" and "clock k fd (Suc n)" and "court_buf b" and "2 \<le> j" and "j < 78" and "letter c" and "length g = 4" and "1024 \<le> room"
  shows "\<exists>b' k'. pingpong_frame C fd g c j (b, k) = Some (b', k') \<and> court_buf b' \<and> runs {} (ball_at c j) k k' \<and> clock k' fd n"
proof -
  note p = court_ball [OF assms(4,5), of c]
  have c: "c \<noteq> 0" "c \<noteq> 8" using assms(6) by (auto simp: letter_def byte_of_def)
  from fdputs_emits [OF assms(1), of "ball_at c j" "[]"] ball_plain [OF c, of j] p(3) assms(8) obtain k1 where
    k1: "ece391_fdputs C 1 (ball_at c j @ [0]) k = Some k1" "says {} (ball_at c j) k k1" by auto
  from await_tick [OF emits_ok [OF k1(2)] says_clock [OF k1(2) assms(2)] assms(7)] obtain k2 where
    k2: "ece391_read C fd g 4 k1 = Some (0, g, k2)" "runs {} [] k1 k2" "clock k2 fd n" by blast
  have "runs {} (ball_at c j) k k2" using runs_trans [OF says_runs [OF k1(2)] k2(2)] by simp
  then show ?thesis using clear_court [OF assms(3)] p k1(1) k2(1,3) by (simp add: pingpong_frame_def)
qed

text \<open>A pass over the court, in either direction.\<close>

lemma pass_runs:
  assumes "ok k" and "clock k fd (76 + m)" and "court_buf b" and "letter c" and "length g = 4" and "1024 \<le> room" and f: "\<forall>i. 2 \<le> i \<and> i < 78 \<longrightarrow> 2 \<le> f i \<and> f i < (78 :: nat)"
  shows "\<exists>b' k'. for_range 2 78 (\<lambda>i. pingpong_frame C fd g c (f i)) (b, k) = Some (b', k') \<and> court_buf b' \<and> runs {} (concat (map (\<lambda>i. ball_at c (f i)) [2..<78])) k k' \<and> clock k' fd m"
proof -
  let ?I = "\<lambda>i (bk :: u8 list \<times> 'k). court_buf (fst bk) \<and> runs {} (concat (map (\<lambda>i. ball_at c (f i)) [2..<i])) k (snd bk) \<and> clock (snd bk) fd (78 - i + m)"
  have "\<exists>bk. for_range 2 78 (\<lambda>i. pingpong_frame C fd g c (f i)) (b, k) = Some bk \<and> ?I 78 bk"
  proof (rule for_range_total [where I = ?I])
    show "?I 2 (b, k)" using assms(2,3) says_runs [OF emits_refl [OF assms(1)]] by simp
    fix i and bk :: "u8 list \<times> 'k" assume i: "2 \<le> i" "i < 78" and I: "?I i bk"
    have e: "78 - i + m = Suc (78 - Suc i + m)" using i by arith
    have r: "runs {} (concat (map (\<lambda>i. ball_at c (f i)) [2..<i])) k (snd bk)" and b: "court_buf (fst bk)" and cl: "clock (snd bk) fd (Suc (78 - Suc i + m))"
      using I unfolding e by blast+
    have "2 \<le> f i" "f i < 78" using f i by auto
    from frame_runs [OF runs_ok [OF r] cl b this assms(4,5,6)] obtain b' k' where
      n: "pingpong_frame C fd g c (f i) (fst bk, snd bk) = Some (b', k')" "court_buf b'" "runs {} (ball_at c (f i)) (snd bk) k'" "clock k' fd (78 - Suc i + m)" by blast
    then show "\<exists>bk'. pingpong_frame C fd g c (f i) bk = Some bk' \<and> ?I (Suc i) bk'" using runs_trans [OF r n(3)] i by auto
  qed simp
  then show ?thesis by auto
qed

lemma round_runs:
  assumes "ok k" and "clock k fd (152 + m)" and "court_buf b" and "letter c" and "length g = 4" and "1024 \<le> room"
  shows "\<exists>b' k'. pingpong_round C fd g c (b, k) = Some (b', k') \<and> court_buf b' \<and> runs {} (round_text c) k k' \<and> clock k' fd m"
proof -
  have c: "clock k fd (76 + (76 + m))" using assms(2) by simp
  have f: "\<forall>i. 2 \<le> i \<and> i < 78 \<longrightarrow> 2 \<le> i \<and> i < (78 :: nat)" "\<forall>i. 2 \<le> i \<and> i < 78 \<longrightarrow> 2 \<le> 79 - i \<and> 79 - i < (78 :: nat)" by auto
  from pass_runs [OF assms(1) c assms(3-6) f(1)] obtain b1 k1 where
    k1: "for_range 2 78 (pingpong_frame C fd g c) (b, k) = Some (b1, k1)" "court_buf b1" "runs {} (concat (map (ball_at c) [2..<78])) k k1" "clock k1 fd (76 + m)" by blast
  from pass_runs [OF runs_ok [OF k1(3)] k1(4,2) assms(4-6) f(2)] obtain b2 k2 where
    k2: "for_range 2 78 (\<lambda>i. pingpong_frame C fd g c (79 - i)) (b1, k1) = Some (b2, k2)" "court_buf b2" "runs {} (concat (map (\<lambda>i. ball_at c (79 - i)) [2..<78])) k1 k2" "clock k2 fd m" by blast
  have "map (\<lambda>i. 79 - i) [2..<78] = rev [2..<78]" by code_simp
  from arg_cong [OF this, of "map (ball_at c)"] have "map (\<lambda>i. ball_at c (79 - i)) [2..<78] = map (ball_at c) (rev [2..<78])" unfolding map_map comp_def .
  then have "concat (map (ball_at c) [2..<78]) @ concat (map (\<lambda>i. ball_at c (79 - i)) [2..<78]) = round_text c" unfolding round_text_def map_append concat_append by (rule arg_cong)
  then have "runs {} (round_text c) k k2" using runs_trans [OF k1(3) k2(3)] by (rule subst)
  moreover have "pingpong_round C fd g c (b, k) = Some (b2, k2)" using k1(1) k2(1) by (simp add: pingpong_round_def)
  ultimately show ?thesis using k2(2,4) by blast
qed

lemma rounds_runs:
  assumes "ok k" and "clock k fd (152 * n)" and "court_buf b" and "letter c" and "length g = 4" and "1024 \<le> room"
  shows "\<exists>b' k'. pingpong_rounds C fd g n c (b, k) = Some (b', k') \<and> runs {} (rounds_text n c) k k' \<and> clock k' fd 0"
  using assms(1-4)
proof (induction n arbitrary: k b c)
  case 0
  then show ?case using says_runs [OF emits_refl [OF 0(1)]] by simp
next
  case (Suc n)
  have c: "clock k fd (152 + 152 * n)" using Suc.prems(2) by simp
  from round_runs [OF Suc.prems(1) c Suc.prems(3,4) assms(5,6)] obtain b1 k1 where
    k1: "pingpong_round C fd g c (b, k) = Some (b1, k1)" "court_buf b1" "runs {} (round_text c) k k1" "clock k1 fd (152 * n)" by blast
  from Suc.IH [OF runs_ok [OF k1(3)] k1(4,2) next_char_letter [OF Suc.prems(4)]] obtain b2 k2 where
    k2: "pingpong_rounds C fd g n (next_char c) (b1, k1) = Some (b2, k2)" "runs {} (rounds_text n (next_char c)) k1 k2" "clock k2 fd 0" by blast
  then show ?case using k1(1) runs_trans [OF k1(3) k2(2)] by simp
qed

text \<open>\<open>pingpong\<close> opens the clock, sets its frequency, and draws as many rounds as there are ticks for.\<close>

lemma pingpong_runs:
  assumes "ok k" and "has_clock k fd (152 * n)" and "length g = 4" and "length buf = 81" and "1024 \<le> room"
  shows "\<exists>b' k'. pingpong_run C g n buf k = Some (fd, b', k') \<and> runs {fd} (rounds_text n (byte_of (CHR ''A''))) k k' \<and> clock k' fd 0"
proof -
  from open_clock [OF assms(1,2)] obtain k1 where
    k1: "ece391_open C (literal ''rtc'') k = Some (fd, k1)" "runs {fd} [] k k1" "clock k1 fd (152 * n)" by blast
  from set_clock [OF runs_ok [OF k1(2)] k1(3), of 32] obtain k2 where
    k2: "ece391_write C fd [32, 0, 0, 0] 4 k1 = Some (0, k2)" "runs {} [] k1 k2" "clock k2 fd (152 * n)" by auto
  have "court_buf (court @ [0])" by (simp add: court_buf_def nth_append court_nth)
  moreover have "letter (byte_of (CHR ''A''))" by (simp add: letter_def byte_of_def)
  ultimately obtain b' k' where
    k': "pingpong_rounds C fd g n (byte_of (CHR ''A'')) (court @ [0], k2) = Some (b', k')" "runs {} (rounds_text n (byte_of (CHR ''A''))) k2 k'" "clock k' fd 0"
    using rounds_runs [OF runs_ok [OF k2(2)] k2(3) _ _ assms(3,5)] by blast
  have "runs {fd} ([] @ [] @ rounds_text n (byte_of (CHR ''A''))) k k'"
    using runs_trans [OF k1(2) runs_trans [OF runs_mono [OF k2(2)] runs_mono [OF k'(2)]]] by simp
  then show ?thesis using k1(1) k2(1) k'(1,3) pingpong_buf_court [OF assms(4)] by (simp add: pingpong_run_def)
qed

end

section \<open>The clock of this kernel\<close>

text \<open>
  The descriptor of the clock is open, and during each of the next \<open>n\<close> reads the interrupt of the clock arrives; \<open>rest\<close> is what comes during later reads.
\<close>

definition kernel_ticks :: "'a interrupts list \<Rightarrow> 'a user \<Rightarrow> nat \<Rightarrow> bool" where
  "kernel_ticks rest k n \<longleftrightarrow> length (rtc_flag (fst k)) = 3 \<and> snd k = replicate n [rtc_handler] @ rest"

definition kernel_clock :: "'a interrupts list \<Rightarrow> 'a user \<Rightarrow> int \<Rightarrow> nat \<Rightarrow> bool" where
  "kernel_clock rest k fd n \<longleftrightarrow> 2 \<le> fd \<and> fd < 8 \<and> fops (fd_of (fst k) fd) = Some Rtc_ops \<and> flags (fd_of (fst k) fd) \<noteq> 0 \<and> kernel_ticks rest k n"

definition kernel_has_clock :: "'a interrupts list \<Rightarrow> u32 \<Rightarrow> 'a kernel_scheme \<Rightarrow> 'a user \<Rightarrow> int \<Rightarrow> nat \<Rightarrow> bool" where
  "kernel_has_clock rest a s0 k fd n \<longleftrightarrow> (\<exists>ds e. has_entry a s0 (lit ''rtc'') e ds \<and> file_type e = FILE_TYPE_RTC)
     \<and> (\<exists>i. fd = int i \<and> lowest_free (fst k) = Some i) \<and> kernel_ticks rest k n"

text \<open>What the clock driver changes of the state is not seen by the program.\<close>

lemma emits_devices:
  assumes u: "in_user a s0 s"
  shows "kernel_emits a s0 F [] (s, sc) (s\<lparr>eflags_IF := b, slave_mask := m, ports := p, rtc_flag := f\<rparr>, sc')" (is "kernel_emits a s0 F [] (s, sc) (?t, sc')")
proof -
  have e: "cur_pcb ?t = cur_pcb s" "fd_of ?t = fd_of s" "wf_fds ?t = wf_fds s" "shown ?t = shown s" "wf_console ?t = wf_console s"
    by (auto simp: cur_pcb_def fd_of_def wf_fds_def shown_def screen_buf_def term_at_def wf_console_def fun_eq_iff)
  then have "in_user a s0 ?t" using u by (simp add: in_user_def same_paging_def)
  then show ?thesis using e by (simp add: kernel_emits_def)
qed

lemma rtc_handler_state:
  assumes "length (rtc_flag s) = 3"
  shows "\<exists>p. rtc_handler s = Some (s\<lparr>eflags_IF := True, ports := p, rtc_flag := [0, 0, 0]\<rparr>)"
proof -
  from assms obtain a b c where "rtc_flag s = [a, b, c]" by (auto simp: numeral_3_eq_3 length_Suc_conv)
  then show ?thesis
    by (intro exI [of _ "ports s @ [Outb 160 96, Outb 32 98, Outb 112 12, Inb 113]"]) (simp add: rtc_handler_def for_range_def aset_def cpu_defs send_eoi_def Let_def)
qed

lemma rtc_read_tick:
  assumes "length (rtc_flag s) = 3" and "0 \<le> terminal_num s" and "terminal_num s < 3"
  shows "\<exists>p. rtc_read [rtc_handler] s = Some (0, s\<lparr>eflags_IF := True, ports := p, rtc_flag := [0, 0, 0]\<rparr>, [])"
proof -
  let ?s = "s\<lparr>rtc_flag := (rtc_flag s)[nat (terminal_num s) := 1]\<rparr>" and ?w = "\<lambda>s. map_option (\<lambda>f. f \<noteq> 0) (aget (rtc_flag s) (terminal_num s))"
  from rtc_handler_state [of ?s] assms(1) obtain p where p: "rtc_handler ?s = Some (?s\<lparr>eflags_IF := True, ports := p, rtc_flag := [0, 0, 0]\<rparr>)" by auto
  have "?w ?s = Some True" using assms by (simp add: aget_def)
  moreover have "[0, 0, 0 :: int] ! nat (terminal_num s) = 0" using assms(2,3) by (auto simp: nth_Cons split: nat.split)
  then have "?w (?s\<lparr>eflags_IF := True, ports := p, rtc_flag := [0, 0, 0]\<rparr>) = Some False" using assms(2,3) by (simp add: aget_def)
  ultimately have "spin ?w [rtc_handler] ?s = Some (?s\<lparr>eflags_IF := True, ports := p, rtc_flag := [0, 0, 0]\<rparr>, [])" using p by (simp add: spin_wait)
  then show ?thesis using assms by (simp add: rtc_read_def aset_def) blast
qed

lemma await_tick_user:
  assumes k: "kernel_ok (at P) s0 k" and c: "kernel_clock rest k fd (Suc n)" and g: "length g = 4"
  shows "\<exists>k'. kernel_read P fd g 4 k = Some (0, g, k') \<and> kernel_emits (at P) s0 {} [] k k' \<and> kernel_clock rest k' fd n"
proof -
  obtain s sc where s: "k = (s, sc)" by fastforce
  have u: "in_user (at P) s0 s" using k by (simp add: kernel_ok_def s)
  from put_bytes_user [OF u, of g "{}" sc sc] g obtain s1 where
    s1: "put_bytes (at P) g s = Some s1" "load_bytes s1 (at P) 4 = Some g" "in_user (at P) s0 s1" "kernel_emits (at P) s0 {} [] (s, sc) (s1, sc)" by auto
  note w = in_userD [OF s1(3)]
  have e: "fd_of s1 = fd_of s" "rtc_flag s1 = rtc_flag s" using put_bytes_fds [OF s1(1)] put_bytes_mem [OF s1(1)] by auto
  have C: "2 \<le> fd" "fd < 8" "fops (fd_of s1 fd) = Some Rtc_ops" "flags (fd_of s1 fd) \<noteq> 0" "length (rtc_flag s1) = 3" "sc = [rtc_handler] # replicate n [rtc_handler] @ rest"
    using c by (auto simp: kernel_clock_def kernel_ticks_def s e)
  from rtc_read_tick [OF C(5)] wf_console_num [OF w(2)] obtain p where
    r: "rtc_read [rtc_handler] s1 = Some (0, s1\<lparr>eflags_IF := True, ports := p, rtc_flag := [0, 0, 0]\<rparr>, [])" by auto
  let ?s = "s1\<lparr>eflags_IF := True, slave_mask := slave_mask s1, ports := p, rtc_flag := [0, 0, 0]\<rparr>" and ?sc = "replicate n [rtc_handler] @ rest"
  have "sys_read (next_events sc) fd (at P) 4 s1 = Some (0, ?s, [])"
    using C w(1) r by (simp add: sys_read_def get_fd_in [OF w(3)] fops_read_def next_events_def)
  moreover have "DO_CALL P (next_events sc) 3 (word_of_int fd) (at P) (word_of_int 4) s1 = map_option (\<lambda>(r, s, es). (r, s)) (sys_read (next_events sc) fd (at P) 4 s1)"
    using C(1,2) by (intro do_calls(1) [OF s1(3)]) auto
  moreover have "same_mem ?s s1" by (simp add: same_mem_def same_paging_def)
  then have "load_bytes ?s (at P) 4 = Some g" using s1(2) same_mem_reads(4) by metis
  ultimately have "kernel_read P fd g 4 k = Some (0, g, (?s, ?sc))" using s1(1) g C(6) by (simp add: kernel_read_def s)
  moreover have em: "kernel_emits (at P) s0 {} ([] @ []) (s, sc) (?s, ?sc)" by (rule emits_trans' [OF s1(4) emits_devices [OF s1(3)]])
  moreover have "fd_of ?s = fd_of s1" by (simp add: fd_of_def cur_pcb_def fun_eq_iff)
  then have "kernel_clock rest (?s, ?sc) fd n" using C(1-4) by (simp add: kernel_clock_def kernel_ticks_def)
  ultimately show ?thesis by (auto simp: s)
qed

lemma set_clock_user:
  assumes k: "kernel_ok (at P) s0 k" and c: "kernel_clock rest k fd n" and b: "b \<noteq> 0"
  shows "\<exists>k'. kernel_write P fd [b, 0, 0, 0] 4 k = Some (0, k') \<and> kernel_emits (at P) s0 {} [] k k' \<and> kernel_clock rest k' fd n"
proof -
  obtain s sc where s: "k = (s, sc)" by fastforce
  have u: "in_user (at P) s0 s" using k by (simp add: kernel_ok_def s)
  from put_bytes_user [OF u, of "[b, 0, 0, 0]" "{}" sc sc] obtain s1 where
    s1: "put_bytes (at P) [b, 0, 0, 0] s = Some s1" "load_bytes s1 (at P) 4 = Some [b, 0, 0, 0]" "in_user (at P) s0 s1" "kernel_emits (at P) s0 {} [] (s, sc) (s1, sc)"
    by (auto simp: eval_nat_numeral)
  note w = in_userD [OF s1(3)]
  have e: "fd_of s1 = fd_of s" "rtc_flag s1 = rtc_flag s" using put_bytes_fds [OF s1(1)] put_bytes_mem [OF s1(1)] by auto
  have C: "2 \<le> fd" "fd < 8" "fops (fd_of s1 fd) = Some Rtc_ops" "flags (fd_of s1 fd) \<noteq> 0" "length (rtc_flag s1) = 3" "kernel_ticks rest (s, sc) n"
    using c by (auto simp: kernel_clock_def kernel_ticks_def s e)
  have "load32 s1 (at P) = Some (ucast b)"
    using load_bytes_nth [OF s1(2), of 0] load_bytes_nth [OF s1(2), of 1] load_bytes_nth [OF s1(2), of 2] load_bytes_nth [OF s1(2), of 3] by (simp add: load32_def numeral_3_eq_3)
  moreover have "unat b < 2 ^ LENGTH(8)" by (rule unsigned_less)
  then have "unat (ucast b :: u32) = unat b" by (simp add: unsigned_ucast_eq take_bit_nat_eq_self_iff)
  then have "sint (ucast b :: u32) \<noteq> 0" using b by (auto simp: signed_eq_0_iff word_unat_eq_iff)
  ultimately obtain p where r: "rtc_write (cmos P) (at P) s1 = Some (0, s1\<lparr>slave_mask := 0, ports := p\<rparr>)"
    using rtc_set_frequency_Some [of "sint (ucast b :: u32)" "cmos P" s1] by (auto simp: rtc_write_def)
  let ?s = "s1\<lparr>eflags_IF := eflags_IF s1, slave_mask := 0, ports := p, rtc_flag := rtc_flag s1\<rparr>"
  have "sys_write (cmos P) fd (at P) 4 s1 = Some (0, ?s)" using C w(1) r by (simp add: sys_write_def get_fd_in [OF w(3)] fops_write_def)
  moreover have "DO_CALL P [] 4 (word_of_int fd) (at P) (word_of_int 4) s1 = sys_write (cmos P) fd (at P) 4 s1" using C(1,2) by (intro do_calls(2) [OF s1(3)]) auto
  ultimately have "kernel_write P fd [b, 0, 0, 0] 4 k = Some (0, (?s, sc))" using s1(1) by (simp add: kernel_write_def s)
  moreover have "kernel_emits (at P) s0 {} ([] @ []) (s, sc) (?s, sc)" by (rule emits_trans' [OF s1(4) emits_devices [OF s1(3)]])
  moreover have "fd_of ?s = fd_of s1" by (simp add: fd_of_def cur_pcb_def fun_eq_iff)
  then have "kernel_clock rest (?s, sc) fd n" using C e by (simp add: kernel_clock_def kernel_ticks_def)
  ultimately show ?thesis by (auto simp: s)
qed

lemma open_clock_user:
  assumes k: "kernel_ok (at P) s0 k" and c: "kernel_has_clock rest (at P) s0 k fd n"
  shows "\<exists>k'. kernel_open P (literal ''rtc'') k = Some (fd, k') \<and> kernel_emits (at P) s0 {fd} [] k k' \<and> kernel_clock rest k' fd n"
proof -
  from c obtain ds e i where e: "has_entry (at P) s0 (lit ''rtc'') e ds" "file_type e = FILE_TYPE_RTC" "fd = int i" "lowest_free (fst k) = Some i" "kernel_ticks rest k n"
    by (auto simp: kernel_has_clock_def)
  have "0 \<notin> set (lit ''rtc'')" "length (lit ''rtc'') + length ([] :: u8 list) < ROOM" using e(1) by (simp_all add: has_entry_def)
  from put_name [OF k this] obtain s1 where s1: "put_bytes (at P) (lit ''rtc'' @ 0 # []) (fst k) = Some s1" "cstr_at (ptr s1 (at P)) (lit ''rtc'')" "in_user (at P) s0 s1"
    "\<And>F. kernel_emits (at P) s0 F [] k (s1, snd k)" "lowest_free s1 = lowest_free (fst k)" by metis
  note w = in_userD [OF s1(3)]
  have i: "2 \<le> int i" "int i < 8" "0 \<le> int i" using lowest_free_least [OF e(4)] by auto
  have "directory s1 ds" using in_user_mem(8) [OF s1(3)] e(1) by (simp add: has_entry_def image_dir_def)
  from read_dentry_by_name_lookup [OF this s1(2), of zero_dentry] e(1) have look: "read_dentry_by_name (ptr s1 (at P)) zero_dentry s1 = Some (0, e)" by (auto simp: has_entry_def)
  have ff: "free_fd (file_desc_array (pcb_at s1 (cur_pcb s1))) 2 6 = Some (Some i)" using free_fd_8 [OF w(3)] s1(5) e(4) by (simp add: lowest_free_def)
  obtain p where r: "rtc_set_frequency 2 (cmos P) s1 = Some (0, s1\<lparr>slave_mask := 0, ports := p\<rparr>)" using rtc_set_frequency_Some [of 2 "cmos P" s1] by auto
  let ?t = "s1\<lparr>eflags_IF := eflags_IF s1, slave_mask := 0, ports := p, rtc_flag := rtc_flag s1\<rparr>"
  let ?s = "put_fd (int i) (opened_fd e) ?t"
  have t: "kernel_emits (at P) s0 {fd} [] (s1, snd k) (?t, snd k)" by (rule emits_devices [OF s1(3)])
  then have ut: "in_user (at P) s0 ?t" by (simp add: kernel_emits_def)
  have d: "x\<lparr>fops := f, fd_inode := n, flags := 1, file_pos := 0\<rparr> = \<lparr>fops = f, fd_inode = n, file_pos = 0, flags = 1\<rparr>" for x :: file_desc_t and f n by simp
  have "sys_open (cmos P) (at P) s1 = Some (int i, ?s)"
    using w(1) look ff get_fd_in [OF w(3) i(3,2)] set_fd_in [OF in_userD(3) [OF ut] i(3,2)] r e(2)
    by (simp add: sys_open_def open_type_def rtc_open_def opened_fd_def ops_of_type_def d)
  then have "kernel_open P (literal ''rtc'') k = Some (fd, (?s, snd k))" using s1(1) e(3) by (simp add: kernel_open_def do_calls(3) [OF s1(3)] literal_def)
  moreover have "kernel_emits (at P) s0 {fd} ([] @ [] @ []) k (?s, snd k)"
    by (rule emits_trans' [OF s1(4) emits_trans' [OF t emits_put_fd [OF ut i(1,2)]]]) (simp add: e(3))
  moreover have "fd_of ?s (int i) = opened_fd e" by (rule fd_of_put_fd(1)) (use in_userD(3) [OF ut] i in auto)
  moreover have "rtc_flag ?s = rtc_flag (fst k)" using put_bytes_mem [OF s1(1)] by (auto simp: put_fd_def)
  ultimately show ?thesis using e i by (auto simp: kernel_clock_def kernel_ticks_def opened_fd_def ops_of_type_def)
qed

lemma close_clock_user:
  assumes k: "kernel_ok (at P) s0 k" and c: "kernel_clock rest k fd n"
  shows "\<exists>k'. kernel_close P fd k = Some (0, k') \<and> kernel_emits (at P) s0 {fd} [] k k'"
proof -
  have u: "in_user (at P) s0 (fst k)" using k by (simp add: kernel_ok_def)
  note w = in_userD [OF u]
  have fd: "2 \<le> fd" "fd < 8" "flags (fd_of (fst k) fd) \<noteq> 0" "fops (fd_of (fst k) fd) = Some Rtc_ops" using c by (auto simp: kernel_clock_def)
  let ?s = "put_fd fd ((fd_of (fst k) fd)\<lparr>flags := 0\<rparr>) (fst k)"
  have "sys_close fd (fst k) = Some (0, ?s)" using close_open_fd [OF w(3) fd] .
  moreover have "DO_CALL P [] 6 (word_of_int fd) 0 0 (fst k) = sys_close fd (fst k)" using fd by (intro do_calls(4) [OF u]) auto
  ultimately have "kernel_close P fd k = Some (0, (?s, snd k))" by (simp add: kernel_close_def)
  moreover have "kernel_emits (at P) s0 {fd} [] (fst k, snd k) (?s, snd k)" by (rule emits_put_fd [OF u fd(1,2)]) simp
  ultimately show ?thesis by auto
qed

text \<open>Output leaves the ticks as they are.\<close>

definition kernel_keeps :: "u32 \<Rightarrow> 'a kernel_scheme \<Rightarrow> int set \<Rightarrow> u8 list \<Rightarrow> 'a user \<Rightarrow> 'a user \<Rightarrow> bool" where
  "kernel_keeps a s0 F xs k k' \<longleftrightarrow> kernel_emits a s0 F xs k k' \<and> rtc_flag (fst k') = rtc_flag (fst k) \<and> snd k' = snd k"

lemma write_keeps:
  assumes k: "kernel_ok (at P) s0 k" and xs: "8 \<notin> set xs" and n: "length xs + length ys \<le> ROOM"
  shows "\<exists>k'. kernel_write P 1 (xs @ ys) (int (length xs)) k = Some (int (length xs), k') \<and> kernel_keeps (at P) s0 {} xs k k'"
proof -
  obtain s sc where s: "k = (s, sc)" by fastforce
  have u: "in_user (at P) s0 s" using k by (simp add: kernel_ok_def s)
  from write_user_steps [OF u refl xs n, of sc] obtain s1 s2 where
    w: "kernel_write P 1 (xs @ ys) (int (length xs)) (s, sc) = Some (int (length xs), (s2, sc))" "put_bytes (at P) (xs @ ys) s = Some s1" "in_user (at P) s0 s1"
      "kernel_emits (at P) s0 {} [] (s, sc) (s1, sc)" "outputs (spec_text xs (shown s1 (terminal_num s1))) (s1\<lparr>eflags_IF := True\<rparr>) s2" by blast
  have "kernel_emits (at P) s0 {} ([] @ xs) (s, sc) (s2, sc)" by (rule emits_trans' [OF w(4) emits_outputs [OF w(3,5)]])
  moreover have f: "console_frame s2 = console_frame (s1\<lparr>eflags_IF := True\<rparr>)" using w(5) by (simp add: outputs_def)
  have "rtc_flag s2 = rtc_flag s1" using arg_cong [OF f, of rtc_flag] by (simp add: console_frame_def)
  ultimately show ?thesis using w(1) put_bytes_mem [OF w(2)] by (auto simp: s kernel_keeps_def)
qed

interpretation kclock: clock_calls "kernel_calls P" "kernel_ok (at P) s0" "kernel_keeps (at P) s0" ROOM "kernel_emits (at P) s0" "kernel_clock rest" "kernel_has_clock rest (at P) s0" for P s0 rest
proof
  fix k k' k'' :: "'a user" and F G :: "int set" and xs ys g :: "u8 list" and n :: nat and fd :: int and b :: u8
  let ?a = "at P"
  show "kernel_ok ?a s0 k \<Longrightarrow> kernel_keeps ?a s0 F [] k k" using kuser.emits_refl [of P s0 k F] by (simp add: kernel_keeps_def)
  show "kernel_keeps ?a s0 F xs k k' \<Longrightarrow> kernel_keeps ?a s0 F ys k' k'' \<Longrightarrow> kernel_keeps ?a s0 F (xs @ ys) k k''"
    using emits_trans' [of ?a s0 F xs k k' ys k''] by (simp add: kernel_keeps_def)
  show "kernel_keeps ?a s0 F xs k k' \<Longrightarrow> F \<subseteq> G \<Longrightarrow> kernel_keeps ?a s0 G xs k k'" using kuser.emits_mono [of P s0 F xs k k' G] by (simp add: kernel_keeps_def)
  show "kernel_keeps ?a s0 F xs k k' \<Longrightarrow> kernel_ok ?a s0 k'" using kuser.emits_ok [of P s0 F xs k k'] by (simp add: kernel_keeps_def)
  show "kernel_ok ?a s0 k \<Longrightarrow> 8 \<notin> set xs \<Longrightarrow> length xs + length ys \<le> ROOM \<Longrightarrow>
      \<exists>k'. ece391_write (kernel_calls P) 1 (xs @ ys) (int (length xs)) k = Some (int (length xs), k') \<and> kernel_keeps ?a s0 {} xs k k'"
    unfolding kernel_calls_simps by (rule write_keeps)
  show "kernel_keeps ?a s0 {} xs k k' \<Longrightarrow> kernel_clock rest k fd n \<Longrightarrow> kernel_clock rest k' fd n"
    by (auto simp: kernel_keeps_def kernel_emits_def kernel_clock_def kernel_ticks_def)
  show "kernel_keeps ?a s0 F xs k k' \<Longrightarrow> kernel_emits ?a s0 F xs k k'" by (simp add: kernel_keeps_def)
  show "kernel_emits ?a s0 F xs k k' \<Longrightarrow> kernel_emits ?a s0 F ys k' k'' \<Longrightarrow> kernel_emits ?a s0 F (xs @ ys) k k''" by (rule emits_trans')
  show "kernel_emits ?a s0 F xs k k' \<Longrightarrow> F \<subseteq> G \<Longrightarrow> kernel_emits ?a s0 G xs k k'" by (rule kuser.emits_mono)
  show "kernel_emits ?a s0 F xs k k' \<Longrightarrow> kernel_ok ?a s0 k'" by (rule kuser.emits_ok)
  show "kernel_ok ?a s0 k \<Longrightarrow> kernel_has_clock rest ?a s0 k fd n \<Longrightarrow>
      \<exists>k'. ece391_open (kernel_calls P) (literal ''rtc'') k = Some (fd, k') \<and> kernel_emits ?a s0 {fd} [] k k' \<and> kernel_clock rest k' fd n"
    unfolding kernel_calls_simps by (rule open_clock_user)
  show "kernel_ok ?a s0 k \<Longrightarrow> kernel_clock rest k fd n \<Longrightarrow> b \<noteq> 0 \<Longrightarrow>
      \<exists>k'. ece391_write (kernel_calls P) fd [b, 0, 0, 0] 4 k = Some (0, k') \<and> kernel_emits ?a s0 {} [] k k' \<and> kernel_clock rest k' fd n"
    unfolding kernel_calls_simps by (rule set_clock_user)
  show "kernel_ok ?a s0 k \<Longrightarrow> kernel_clock rest k fd (Suc n) \<Longrightarrow> length g = 4 \<Longrightarrow>
      \<exists>k'. ece391_read (kernel_calls P) fd g 4 k = Some (0, g, k') \<and> kernel_emits ?a s0 {} [] k k' \<and> kernel_clock rest k' fd n"
    unfolding kernel_calls_simps by (rule await_tick_user)
  show "kernel_ok ?a s0 k \<Longrightarrow> kernel_clock rest k fd n \<Longrightarrow> \<exists>k'. ece391_close (kernel_calls P) fd k = Some (0, k') \<and> kernel_emits ?a s0 {fd} [] k k'"
    unfolding kernel_calls_simps by (rule close_clock_user)
qed

section \<open>pingpong on this kernel\<close>

text \<open>
  Claim C36. \<open>pingpong\<close> on this kernel, as long as the clock ticks: it opens the clock as the lowest free descriptor and sets its frequency; from then on each clock interrupt lets it draw one more picture.
  With ticks for \<open>n\<close> rounds it completes \<open>n\<close> rounds, with every interrupt used for one picture: in each round a letter goes from the left wall to the right one and back, one position per picture, and the next
  round has the next letter, \<open>A\<close> after \<open>Z\<close>. Its terminal shows exactly these pictures, one below the other, and the other terminals are as they were. It never returns.
\<close>

theorem pingpong_bounces:
  assumes "runs_user (at P) s" and "has_entry (at P) s (lit ''rtc'') e ds" and "file_type e = FILE_TYPE_RTC" and "lowest_free s = Some i" and "length (rtc_flag s) = 3"
    and "length garbage = 4" and "length buf = 81"
  shows "(\<exists>buf' s'. pingpong_run (kernel_calls P) garbage n buf (s, replicate (152 * n) [rtc_handler] @ rest) = Some (int i, buf', (s', rest))
      \<and> shown s' (terminal_num s) = spec_text (rounds_text n (byte_of (CHR ''A''))) (shown s (terminal_num s))
      \<and> (\<forall>j. 0 \<le> j \<and> j < 3 \<and> j \<noteq> terminal_num s \<longrightarrow> shown s' j = shown s j))
    \<and> pingpong_main (kernel_calls P) garbage buf (s, sc) = None"
proof -
  let ?k = "(s, replicate (152 * n) [rtc_handler] @ rest)"
  have "kernel_has_clock rest (at P) s ?k (int i) (152 * n)" using assms(2-5) by (auto simp: kernel_has_clock_def kernel_ticks_def)
  from kclock.pingpong_runs [OF runs_user_ok [OF assms(1)] this assms(6,7)] obtain b' k' where
    k': "pingpong_run (kernel_calls P) garbage n buf ?k = Some (int i, b', k')" "kernel_emits (at P) s {int i} (rounds_text n (byte_of (CHR ''A''))) ?k k'" "kernel_clock rest k' (int i) 0"
    by auto
  have "snd k' = rest" using k'(3) by (simp add: kernel_clock_def kernel_ticks_def)
  then have "k' = (fst k', rest)" by auto
  with k'(1,2) pingpong_never_returns(2) show ?thesis by (auto simp: kernel_emits_def)
qed

text \<open>A small image with the clock as its only entry.\<close>

definition clock_phys :: "u32 \<Rightarrow> u8" where
  "clock_phys = sample_phys(0x10000 := 1, 0x10040 := byte_of (CHR ''r''), 0x10041 := byte_of (CHR ''t''), 0x10042 := byte_of (CHR ''c''), 0x10060 := 0)"

definition clock_process :: "unit kernel_scheme" where
  "clock_process = sample_process\<lparr>phys := clock_phys\<rparr>"

definition clock_entry :: dentry where
  "clock_entry = dentry_of (map (\<lambda>i. clock_phys (0x10040 + of_nat i)) [0..<64])"

lemma clock_process_loads: "translate clock_process a = Some a" "load8 clock_process a = Some (clock_phys a)"
  by (simp_all add: load8_def translate_def clock_process_def sample_process_def sample_kernel_def)

lemma clock_has_entry: "has_entry 0x20000 clock_process (lit ''rtc'') clock_entry [clock_entry]" "file_type clock_entry = FILE_TYPE_RTC"
proof -
  have b: "boot_block clock_process = 0x10000" "to_test clock_process = 0x10000" by (simp_all add: clock_process_def sample_process_def sample_kernel_def)
  have "dir_count clock_process = Some 1" by (simp add: dir_count_def load32_def b clock_process_loads clock_phys_def sample_phys_def sample_image_def)
  moreover have "load_bytes clock_process 0x10040 64 = Some (map (\<lambda>i. clock_phys (0x10040 + of_nat i)) [0..<64])"
    by (rule load_bytes_ptr) (simp_all add: ptr_def clock_process_loads)
  moreover have "0 \<in> set (map (\<lambda>i. clock_phys (0x10040 + of_nat i)) [0..<64])" by code_simp
  ultimately have d: "directory clock_process [clock_entry]" by (simp add: directory_def b clock_entry_def)
  have "(0x10040 + of_nat i :: u32) < 0x20000" if "i < 64" for i
  proof -
    have "unat (0x10040 + of_nat i :: u32) = 0x10040 + i" using that by (simp add: unat_word_ariths of_nat_u32)
    with that show ?thesis by (simp add: word_less_nat_alt)
  qed
  then have "dir_addrs clock_process 1 \<subseteq> {a. a < 0x20000}"
    by (auto simp: dir_addrs_def word_addrs_def buffer_addrs_def b clock_process_loads lessThan_Suc)
  moreover have "buffers 0x20000 clock_process = buffer_addrs (sample_fs ()) 0x20000 ROOM" by (simp add: buffers_def buffer_addrs_def clock_process_loads)
  ultimately have "dir_addrs clock_process (length [clock_entry]) \<inter> buffers 0x20000 clock_process = {}" using sample_buffer [of ROOM "()"] by auto
  moreover have "dentry_name clock_entry = lit ''rtc''" by code_simp
  ultimately show "has_entry 0x20000 clock_process (lit ''rtc'') clock_entry [clock_entry]" using d b by (simp add: has_entry_def image_dir_def lit_def byte_of_def)
  show "file_type clock_entry = FILE_TYPE_RTC" by code_simp
qed

lemma clock_process_runs: "runs_user 0x20000 clock_process" "lowest_free clock_process = Some 2" "length (rtc_flag clock_process) = 3" "terminal_num clock_process = 0"
proof -
  have e: "fd_of clock_process = fd_of sample_process" "wf_fds clock_process = wf_fds sample_process" "wf_console clock_process = wf_console sample_process"
    "syscall_jumptable clock_process = syscall_jumptable sample_process" by (simp_all add: clock_process_def fd_of_def wf_fds_def cur_pcb_def wf_console_def fun_eq_iff)
  have "writable clock_process 0x20000 ROOM = writable (sample_fs ()) 0x20000 ROOM" by (simp add: writable_def clock_process_loads)
  then show "runs_user 0x20000 clock_process" using sample_runs writable_sample [of ROOM "()" "0x20000"] by (simp add: runs_user_def e)
  show "lowest_free clock_process = Some 2" using sample_open(5) sample_process_same(5) by (simp add: lowest_free_def e)
  show "length (rtc_flag clock_process) = 3" "terminal_num clock_process = 0"
    by (simp_all add: clock_process_def sample_process_def sample_kernel_def sample_fs_def blank_rtc_def blank_defs)
qed

theorem pingpong_bounces_witness:
  "\<exists>buf' s'. pingpong_run (kernel_calls sample_platform) [0, 0, 0, 0] 1 (replicate 81 0) (clock_process, replicate 152 [rtc_handler]) = Some (2, buf', (s', []))
    \<and> shown s' 0 = spec_text (round_text (byte_of (CHR ''A''))) (shown clock_process 0)"
proof -
  have "at sample_platform = 0x20000" by (simp add: sample_platform_def)
  with pingpong_bounces [of sample_platform clock_process clock_entry "[clock_entry]" 2 "[0, 0, 0, 0]" "replicate 81 0" 1 "[]" "[]", THEN conjunct1] clock_has_entry clock_process_runs
  show ?thesis by auto
qed

end
