(* ===== verification/Animation.thy ===== *)
theory Animation
  imports Fish Clock
begin

text \<open>
  The animation of fish/fish.c in time: what the clock makes of the blinking characters. The states of the abstract animation are pairs of the screen and the list of
  blinking characters; the program goes through them tick by tick.
\<close>

section \<open>The animation as a list\<close>

type_synonym animation = "u8 list \<times> blink list"

definition show_tick :: "animation \<Rightarrow> animation" where
  "show_tick x = (foldl tick_screen (fst x) (snd x), map tick (snd x))"

definition show_add :: "blink \<Rightarrow> animation \<Rightarrow> animation" where
  "show_add b x = ((fst x)[2 * unat (location b) := on_char b], started b # snd x)"

definition show_sync :: "u16 \<Rightarrow> u16 \<Rightarrow> animation \<Rightarrow> animation" where
  "show_sync l l' x = (case (find (\<lambda>b. location b = l) (snd x), find (\<lambda>b. location b = l') (snd x)) of
     (Some a, Some b) \<Rightarrow> ((fst x)[2 * unat (location b) := off_char b], update_first (\<lambda>b. location b = l') (synced a) (snd x)) | _ \<Rightarrow> x)"

definition show_remove :: "u16 \<Rightarrow> animation \<Rightarrow> animation" where
  "show_remove l x = (fst x, remove_first (\<lambda>b. location b = l) (snd x))"

text \<open>The blinking characters before, with and after the additional one, a hundred ticks each.\<close>

definition fish_spec :: "blink \<Rightarrow> animation \<Rightarrow> animation" where
  "fish_spec u x = (show_tick ^^ 100) (show_remove 540 ((show_tick ^^ 100) (show_sync 40 540 ((show_tick ^^ 100) (show_add (the_blink u) ((show_tick ^^ 100) x))))))"

lemma show_ticks: "snd ((show_tick ^^ n) x) = map (tick ^^ n) (snd x)"
  by (induction n) (simp_all add: show_tick_def)

lemma ticks_location [simp]: "location ((tick ^^ n) b) = location b"
  by (induction n) simp_all

lemma synced_location [simp]: "location (synced a b) = location b"
  by (simp add: synced_def)

text \<open>A first character that is synchronised stays the first one at its place.\<close>

lemma show_sync_head:
  assumes "snd x = h # t" and "location h = l'"
  shows "\<exists>h'. snd (show_sync l l' x) = h' # t \<and> location h' = l'"
proof (cases "find (\<lambda>b. location b = l) (snd x)")
  case None
  then show ?thesis using assms by (simp add: show_sync_def)
next
  case (Some a)
  then show ?thesis using assms by (auto simp: show_sync_def simp del: find.simps(2)) (simp add: synced_def)
qed

text \<open>At the end the additional character is gone, and all others have gone on for the whole time.\<close>

lemma fish_spec_list: "snd (fish_spec u x) = map (tick ^^ 400) (snd x)"
proof -
  let ?x1 = "show_add (the_blink u) ((show_tick ^^ 100) x)"
  let ?x2 = "(show_tick ^^ 100) ?x1"
  have s: "snd ?x2 = (tick ^^ 100) (started (the_blink u)) # map (tick ^^ 200) (snd x)" by (simp add: show_ticks show_add_def funpow_add [of 100 100 tick, simplified] comp_def)
  have "location ((tick ^^ 100) (started (the_blink u))) = 540" by (simp add: started_def the_blink_def)
  from show_sync_head [OF s this, of 40] obtain h where h: "snd (show_sync 40 540 ?x2) = h # map (tick ^^ 200) (snd x)" "location h = 540" by blast
  have "snd (show_remove 540 ((show_tick ^^ 100) (show_sync 40 540 ?x2))) = map (tick ^^ 100) (map (tick ^^ 200) (snd x))" using h by (simp add: show_remove_def show_ticks)
  then have "snd (fish_spec u x) = map (tick ^^ 100) (map (tick ^^ 100) (map (tick ^^ 200) (snd x)))" by (simp add: fish_spec_def show_ticks)
  also have "\<dots> = map (tick ^^ 400) (snd x)" using funpow_add [of 100 100 tick] funpow_add [of 200 200 tick] by (simp add: comp_assoc)
  finally show ?thesis .
qed

section \<open>The operations refine the animation\<close>

definition represents :: "fish \<Rightarrow> animation \<Rightarrow> bool" where
  "represents s x \<longleftrightarrow> blinks s (snd x) \<and> vmem s = fst x"

lemma tasklet_represents: "represents s x \<Longrightarrow> \<exists>s'. mp1_rtc_tasklet s = Some s' \<and> represents s' (show_tick x)"
  using tasklet_refines [of s "snd x"] by (auto simp: represents_def show_tick_def)

lemma add_represents:
  assumes "represents s x" and "location b \<noteq> 0" and "location b < 2000" and "length (snd x) < 2000"
  shows "\<exists>s'. mp1_ioctl (RTC_ADD b) s = Some (0, RTC_ADD b, s') \<and> represents s' (show_add b x)"
proof -
  have "\<not> (location b \<ge> 2000 \<or> length (snd x) = 2000)" using assms(3,4) by (simp add: not_le)
  with add_refines [of s "snd x" b] assms(1,2) show ?thesis by (auto simp: represents_def show_add_def started_def mp1_ioctl_def)
qed

lemma remove_first_none: "find P xs = None \<Longrightarrow> remove_first P xs = xs"
  by (induction xs) (auto split: if_splits)

lemma remove_represents:
  assumes "represents s x"
  shows "\<exists>r s'. mp1_ioctl (RTC_REMOVE n) s = Some (r, RTC_REMOVE n, s') \<and> represents s' (show_remove (ucast n) x)"
  using remove_refines [of s "snd x" n] assms
  by (cases "find (\<lambda>b. location b = ucast n) (snd x)") (auto simp: represents_def show_remove_def mp1_ioctl_def remove_first_none)

lemma sync_represents:
  assumes "represents s x"
  shows "\<exists>r s'. mp1_ioctl (RTC_SYNC n) s = Some (r, RTC_SYNC n, s') \<and> represents s' (show_sync (ucast (drop_bit 16 n)) (ucast (n AND 0xFFFF)) x)"
  using sync_refines [of s "snd x" n] assms
  by (cases "find (\<lambda>b. location b = ucast (drop_bit 16 n)) (snd x)"; cases "find (\<lambda>b. location b = ucast (n AND 0xFFFF)) (snd x)")
    (auto simp: represents_def show_sync_def mp1_ioctl_def)

context clock_calls
begin

lemma wait_runs:
  assumes "ok k" and "clock k fd (100 + m)" and "represents s x" and "length g = 4"
  shows "\<exists>s' k'. wait_ticks C fd g s k = Some (s', k') \<and> represents s' ((show_tick ^^ 100) x) \<and> runs {} [] k k' \<and> clock k' fd m"
proof -
  let ?I = "\<lambda>i (sk :: fish \<times> 'k). represents (fst sk) ((show_tick ^^ i) x) \<and> runs {} [] k (snd sk) \<and> clock (snd sk) fd (100 - i + m)"
  have "\<exists>sk. for_range 0 100 (\<lambda>i (s, k). do { (r, g, k) \<leftarrow> ece391_read C fd g 4 k; s \<leftarrow> mp1_rtc_tasklet s; Some (s, k) }) (s, k) = Some sk \<and> ?I 100 sk"
  proof (rule for_range_total [where I = ?I])
    show "?I 0 (s, k)" using assms(2,3) says_runs [OF emits_refl [OF assms(1)]] by simp
    fix i and sk :: "fish \<times> 'k" assume i: "0 \<le> i" "i < 100" and I: "?I i sk"
    have e: "100 - i + m = Suc (100 - Suc i + m)" using i by arith
    have r: "represents (fst sk) ((show_tick ^^ i) x)" "runs {} [] k (snd sk)" "clock (snd sk) fd (Suc (100 - Suc i + m))" using I unfolding e by blast+
    from await_tick [OF runs_ok [OF r(2)] r(3) assms(4)] obtain k1 where
      k1: "ece391_read C fd g 4 (snd sk) = Some (0, g, k1)" "runs {} [] (snd sk) k1" "clock k1 fd (100 - Suc i + m)" by blast
    from tasklet_represents [OF r(1)] obtain s1 where s1: "mp1_rtc_tasklet (fst sk) = Some s1" "represents s1 (show_tick ((show_tick ^^ i) x))" by blast
    show "\<exists>sk'. (case sk of (s, k) \<Rightarrow> do { (r, g, k) \<leftarrow> ece391_read C fd g 4 k; s \<leftarrow> mp1_rtc_tasklet s; Some (s, k) }) = Some sk' \<and> ?I (Suc i) sk'"
      using k1 s1 runs_trans [OF r(2) k1(2)] by (cases sk) simp
  qed simp
  then show ?thesis by (auto simp: wait_ticks_def)
qed

lemma show_runs:
  assumes "ok k" and "clock k fd 400" and "represents s x" and "length (snd x) < 2000" and "length g = 4"
  shows "\<exists>s' k'. fish_show C fd u g s k = Some (0, s', k') \<and> represents s' (fish_spec u x) \<and> runs {fd} [] k k'"
proof -
  from set_clock [OF assms(1,2), of 32] obtain k0 where k0: "ece391_write C fd [32, 0, 0, 0] 4 k = Some (0, k0)" "runs {} [] k k0" "clock k0 fd (100 + 300)" by auto
  from wait_runs [OF runs_ok [OF k0(2)] k0(3) assms(3,5)] obtain s1 k1 where
    k1: "wait_ticks C fd g s k0 = Some (s1, k1)" "represents s1 ((show_tick ^^ 100) x)" "runs {} [] k0 k1" "clock k1 fd (100 + 200)" by auto
  have l: "location (the_blink u) \<noteq> 0" "location (the_blink u) < 2000" "length (snd ((show_tick ^^ 100) x)) < 2000" using assms(4) by (simp_all add: the_blink_def show_ticks)
  from add_represents [OF k1(2) l] obtain s2 where
    s2: "mp1_ioctl (RTC_ADD (the_blink u)) s1 = Some (0, RTC_ADD (the_blink u), s2)" "represents s2 (show_add (the_blink u) ((show_tick ^^ 100) x))" by blast
  from wait_runs [OF runs_ok [OF k1(3)] k1(4) s2(2) assms(5)] obtain s3 k3 where
    k3: "wait_ticks C fd g s2 k1 = Some (s3, k3)" "represents s3 ((show_tick ^^ 100) (show_add (the_blink u) ((show_tick ^^ 100) x)))" "runs {} [] k1 k3" "clock k3 fd (100 + 100)" by auto
  have n: "ucast (drop_bit 16 (push_bit 16 40 OR (6 * 80 + 60)) :: u32) = (40 :: u16)" "ucast ((push_bit 16 40 OR (6 * 80 + 60)) AND 0xFFFF :: u32) = (540 :: u16)"
    "ucast (6 * 80 + 60 :: u32) = (540 :: u16)" by code_simp+
  from sync_represents [OF k3(2), of "push_bit 16 40 OR (6 * 80 + 60)"] obtain r4 s4 where
    s4: "mp1_ioctl (RTC_SYNC (push_bit 16 40 OR (6 * 80 + 60))) s3 = Some (r4, RTC_SYNC (push_bit 16 40 OR (6 * 80 + 60)), s4)"
      "represents s4 (show_sync 40 540 ((show_tick ^^ 100) (show_add (the_blink u) ((show_tick ^^ 100) x))))" unfolding n by blast
  from wait_runs [OF runs_ok [OF k3(3)] k3(4) s4(2) assms(5)] obtain s5 k5 where
    k5: "wait_ticks C fd g s4 k3 = Some (s5, k5)" "represents s5 ((show_tick ^^ 100) (show_sync 40 540 ((show_tick ^^ 100) (show_add (the_blink u) ((show_tick ^^ 100) x)))))"
      "runs {} [] k3 k5" "clock k5 fd (100 + 0)" by auto
  from remove_represents [OF k5(2), of "6 * 80 + 60"] obtain r6 s6 where
    s6: "mp1_ioctl (RTC_REMOVE (6 * 80 + 60)) s5 = Some (r6, RTC_REMOVE (6 * 80 + 60), s6)"
      "represents s6 (show_remove 540 ((show_tick ^^ 100) (show_sync 40 540 ((show_tick ^^ 100) (show_add (the_blink u) ((show_tick ^^ 100) x))))))" unfolding n by blast
  from wait_runs [OF runs_ok [OF k5(3)] k5(4) s6(2) assms(5)] obtain s7 k7 where
    k7: "wait_ticks C fd g s6 k5 = Some (s7, k7)" "represents s7 (fish_spec u x)" "runs {} [] k5 k7" "clock k7 fd 0" unfolding fish_spec_def by auto
  from close_clock [OF runs_ok [OF k7(3)] k7(4)] obtain k8 where k8: "ece391_close C fd k7 = Some (0, k8)" "runs {fd} [] k7 k8" by blast
  have e: "fish_show C fd u g s k = Some (0, s7, k8)" using k0(1) k1(1) s2(1) k3(1) s4(1) k5(1) s6(1) k7(1) k8(1) unfolding fish_show_def by simp
  have "runs {} ([] @ [] @ [] @ [] @ []) k k7" using runs_trans [OF k0(2) runs_trans [OF k1(3) runs_trans [OF k3(3) runs_trans [OF k5(3) k7(3)]]]] .
  from runs_trans [OF runs_mono [OF this, of "{fd}"] k8(2)] have "runs {fd} [] k k8" by simp
  with e k7(2) show ?thesis by blast
qed

end

section \<open>The animation on this kernel\<close>



end
