(* ===== verification/Spec2Isabelle.thy ===== *)
theory Spec2Isabelle
  imports Syserr Grep Emulate Sigtest Animation
begin

text \<open>
  A model of a small teaching operating system for the IA-32 (student-distrib/), of the programs that run on it (syscalls/, fish/), and
  proofs that the parts do what they are for.

  \<^bold>\<open>The program and its parts.\<close> The boot loader puts the kernel and a file system image into memory and calls \<open>entry\<close> of kernel.c,
  which initialises the parts below and executes the shell. From then on the kernel runs only in system calls (\<open>int $0x80\<close>), in
  exceptions and in the interrupts of timer, keyboard and real-time clock. There are three terminals, each with its own shell and screen,
  of which one is displayed; the timer hands the processor from terminal to terminal. A process has a number from 1 to 5, a
  4 MB page for its program, a kernel stack and a control block with eight file descriptors.

  \<^bold>\<open>State.\<close> The kernel state is one record, extended by the theory of each part that has variables: \<open>cpu\<close> and \<open>vm\<close> (Paging), \<open>pic\<close>
  (I8259), \<open>console\<close> (Console), \<open>rtc\<close> (Rtc), \<open>filesys\<close> (Filesystem), \<open>kernel\<close> (Descriptors), \<open>keyboard\<close> (Keyboard), \<open>machine\<close> (Idt),
  \<open>boot\<close> (Kernel). An operation is polymorphic in the rest of the record. Memory is a function from physical addresses to bytes, reached
  through the two-level page walk of the processor. An operation has its result in \<open>option\<close>: \<open>None\<close> says that the C function does not
  complete (an access out of range, a call through a null pointer, a loop that does not end). Error codes are values as in the source. \<open>execute\<close>, \<open>halt\<close> and the
  handlers that switch stacks end by leaving the C code; their result is a value of \<open>control\<close> that says where they go. What a device
  delivers, and the interrupts that arrive while a call waits, are arguments.

  \<^bold>\<open>Theories and sources.\<close>
  \<^item> Prelude: arrays with bounds, counted loops, copy loops (locale \<open>copy_mem\<close>).
  \<^item> Lib_Str, Memops: strings, numbers and the memory routines of lib.c; the latter are inline assembly, modelled by instruction.
  \<^item> Paging: ports and flags of lib.h, page.c, the page of a program.
  \<^item> I8259, Rtc, Pit: the drivers i8259.c, rtc.c and pit.c with the scheduler.
  \<^item> Console, Printf: screens, cursor and output of lib.c.
  \<^item> Filesystem, Terminal, Descriptors: filesystem.c, terminal.c and the calls of syscall.c on descriptors. The line buffer is a queue
    (locale \<open>input_queue\<close>).
  \<^item> Process: \<open>execute\<close> and \<open>halt\<close> of syscall.c.
  \<^item> Keyboard: keyboard.c and \<open>switch_terminal\<close> of lib.c.
  \<^item> Idt: idt.c, the gates of x86_desc.h, and the system call entry of handler_in_asbly.S.
  \<^item> Kernel: kernel.c with the descriptors of x86_desc.h.
  \<^item> User_Lib, Programs: ece391support.c and the programs cat, ls, grep, hello, shell, counter, testprint, pingpong and syserr, as
    functions of a record of system calls.
  \<^item> User_Calls: the laws of the system calls that the programs rely on (locales \<open>terminal_calls\<close>, \<open>file_calls\<close>), and the programs over them.
  \<^item> User_Kernel: the wrappers of ece391syscall.S on the kernel of this model, and the interpretation of the locales on them.
  \<^item> Syserr: the eight tests of ece391syserr.c on the kernel.
  \<^item> Sessions, Grep: a program that keeps files open while it reads others (locale \<open>session_calls\<close>, interpreted on the kernel), and grep.
  \<^item> Blink, Fish: the linked list of blinking characters of fish/blink.S, by instruction, with its allocator, and the animation of fish.c.
  \<^item> Interactive: hello, counter and the shell with somebody at the keyboard (locales \<open>keyboard_calls\<close> and \<open>shell_calls\<close>, interpreted on
    the kernel).
  \<^item> Sigtest: the signal test ece391sigtest.c with its handlers, and how it ends on a kernel without signals (locale \<open>signal_calls\<close>).
  \<^item> Clock, Animation: programs driven by the real-time clock (locale \<open>clock_calls\<close>, interpreted on the kernel): pingpong, and the animation tick by tick.
  \<^item> Emulate: ece391emulate.c, the same system calls made from those of Linux. Linux is a record of services, an argument of the
    definitions; what it promises is the hypothesis \<open>linux_laws\<close>, which a small concrete Linux meets.

  \<^bold>\<open>What is shown.\<close> Booting ends in the shell with the invariant of the scheduler established. \<open>execute\<close> starts the program that the
  file names, \<open>halt\<close> returns to the caller with everything restored; an exception ends the program with status 256. The scheduler
  gives every terminal a turn in three ticks and a process that lost the processor gets it back unchanged; program pages are disjoint. \<open>putc\<close> refines an
  abstract screen. Reading a file to its end delivers its contents; a read of the keyboard returns the typed line. The memory routines
  agree with byte loops. \<open>cat\<close> and \<open>ls\<close>, run through the system calls of the kernel, show the file and the directory, \<open>grep\<close> shows the matching lines of every file, and the kernel
  passes its own test program. A conversation with \<open>shell\<close>, \<open>hello\<close> and \<open>counter\<close> goes from the keys pressed to the characters on the screen.
  The emulation keeps the laws of the system calls, so that the programs behave on Linux as on the kernel. The linked list of the animation refines a list of blinking characters,
  and the program, driven by the interrupts of the clock, goes through the states of the abstract animation; \<open>pingpong\<close> draws one picture per clock interrupt and never ends. Errors: the refusals of \<open>execute\<close> and of the calls, and the faults that the code has.

  \<^bold>\<open>Loops.\<close> Counted loops are \<open>for_range\<close>, others are \<open>function\<close>s with a measure or \<open>partial_function (option)\<close>, for which the theorems
  show that the result exists; the loop of \<open>pingpong\<close> has no end, and the theorem is about any number of its rounds. No fuel is used. Sizes are those of the source: 128 bytes in a line buffer, 8 descriptors, 32 characters in
  a name, 4096 bytes in a block; a file is shorter than 2 GB because \<open>read\<close> returns a signed number.

  \<^bold>\<open>Not modelled.\<close> The instructions of boot.S before \<open>entry\<close>, the pushes and pops of the assembly stubs in handler_in_asbly.S, and the
  static tables of x86_desc.S. The delivery of signals, which this kernel does not have. tests.c, which is not called in the running system, and the assertion macros of debug.h. Linux below the emulation, and the host tools.
  The cost of time: a tick may come between any two steps of a program, but not inside a system call, except where a call waits with interrupts enabled.
\<close>

end
